(* ===== verification/Prelude.thy ===== *)
theory Prelude
  imports Main "HOL-Library.Word" "HOL-Library.Signed_Division" "HOL-Library.Multiset"
begin

text \<open>
  Shared vocabulary of the development: the names of the C integer types, the fact
  collections the component theories fill, generic lemmas on lists and words, and the
  transition-system interface that every component with a run-time state instantiates.

  Conventions of the whole development.
  \<^item> An unsigned C integer of width w is a \<open>w word\<close>, so that \<open>+\<close> and \<open>-\<close> wrap as in C.
    Ring-buffer indices and counts whose C arithmetic is written with an explicit \<open>%\<close> are
    \<open>nat\<close> with the same \<open>mod\<close>.
  \<^item> A signed C integer is an \<open>int\<close>; signed overflow is undefined in C, so the model
    computes the exact value and separate lemmas show that it stays in range where the
    code relies on that.  C's \<open>/\<close> and \<open>%\<close> on signed values are \<open>sdiv\<close> and \<open>smod\<close>.
  \<^item> An out-parameter together with a \<open>bool\<close> result is an \<open>option\<close>.
  \<^item> Operations take the object they work on as a value, so the NULL tests on the object
    pointer itself have no counterpart; a pointer whose NULL-ness is data (an optional
    callback, buffer or view) is an \<open>option\<close>.
\<close>

type_synonym u8 = "8 word"
type_synonym u16 = "16 word"
type_synonym u32 = "32 word"
type_synonym u64 = "64 word"
type_synonym i64 = int
type_synonym i32 = int
type_synonym bytes = "u8 list"

text \<open>Limits of the signed types (\<open>stdint.h\<close>).\<close>

abbreviation INT64_MAX :: int where "INT64_MAX \<equiv> 9223372036854775807"
abbreviation INT64_MIN :: int where "INT64_MIN \<equiv> - 9223372036854775808"
abbreviation INT32_MAX :: int where "INT32_MAX \<equiv> 2147483647"
abbreviation INT32_MIN :: int where "INT32_MIN \<equiv> - 2147483648"

abbreviation UINT64_MAX :: u64 where "UINT64_MAX \<equiv> 0xFFFFFFFFFFFFFFFF"
abbreviation UINT32_MAX :: u32 where "UINT32_MAX \<equiv> 0xFFFFFFFF"

definition in_i64 :: "int \<Rightarrow> bool" where
  "in_i64 x \<longleftrightarrow> INT64_MIN \<le> x \<and> x \<le> INT64_MAX"

definition in_i32 :: "int \<Rightarrow> bool" where
  "in_i32 x \<longleftrightarrow> INT32_MIN \<le> x \<and> x \<le> INT32_MAX"

named_theorems inv_intros \<open>introduction rules for component invariants\<close>
named_theorems ring_simps \<open>index arithmetic of ring buffers\<close>
named_theorems frame_simps \<open>what an operation leaves unchanged\<close>

section \<open>Signed division\<close>

lemma sdiv_nonneg: "0 \<le> a \<Longrightarrow> 0 < b \<Longrightarrow> a sdiv b = a div b" for a b :: int
  by (cases "a = 0") (auto simp: signed_divide_int_def)

lemma smod_nonneg: "0 \<le> a \<Longrightarrow> 0 < b \<Longrightarrow> a smod b = a mod b" for a b :: int
  by (cases "a = 0") (auto simp: signed_modulo_int_def sdiv_nonneg minus_div_mult_eq_mod)

lemma sdiv_neg_left: "(- a) sdiv b = - (a sdiv b)" for a b :: int
  by (simp add: signed_divide_int_def sgn_minus)

lemma smod_neg_left: "(- a) smod b = - (a smod b)" for a b :: int
  by (simp add: signed_modulo_int_def sdiv_neg_left)

lemma smod_2_eq_0: "q smod 2 = 0 \<longleftrightarrow> even q" for q :: int
proof (cases "0 \<le> q")
  case True
  then show ?thesis by (simp add: smod_nonneg even_iff_mod_2_eq_zero)
next
  case False
  then have "q smod 2 = - ((- q) mod 2)"
    using smod_neg_left [of "- q" 2] smod_nonneg [of "- q" 2] by simp
  then show ?thesis using even_iff_mod_2_eq_zero [of "- q"] by simp
qed

text \<open>Truncation is off by less than the divisor, and keeps the sign.\<close>

lemma sdiv_error: "0 < b \<Longrightarrow> \<bar>a - a sdiv b * b\<bar> < b" for a b :: int
proof -
  assume b: "0 < b"
  have "0 \<le> x - x sdiv b * b \<and> x - x sdiv b * b < b" if "0 \<le> x" for x
    using that b by (simp add: sdiv_nonneg minus_div_mult_eq_mod)
  from this [of a] this [of "- a"] show ?thesis by (cases "0 \<le> a") (auto simp: sdiv_neg_left)
qed

lemma sdiv_sign: "0 < b \<Longrightarrow> 0 < a sdiv b \<Longrightarrow> 0 < a" "0 < b \<Longrightarrow> a sdiv b < 0 \<Longrightarrow> a < 0" for a b :: int
proof -
  assume b: "0 < b"
  have *: "0 \<le> x sdiv b" if "0 \<le> x" for x using that b by (simp add: sdiv_nonneg pos_imp_zdiv_nonneg_iff)
  show "0 < a sdiv b \<Longrightarrow> 0 < a" using * [of "- a"] by (force simp: sdiv_neg_left)
  show "a sdiv b < 0 \<Longrightarrow> a < 0" using * [of a] by force
qed

lemma zdiv_less_iff: "0 < x \<Longrightarrow> m div x < y \<longleftrightarrow> m < x * y" for x y m :: int
proof
  assume x: "0 < x" and "m div x < y"
  then have "x * (m div x + 1) \<le> x * y" by (intro mult_left_mono) simp_all
  moreover have "x * (m div x + 1) = x * (m div x) + x" by (simp add: distrib_left)
  ultimately show "m < x * y" using mult_div_mod_eq [of x m] pos_mod_bound [OF x, of m] by linarith
next
  assume x: "0 < x" and *: "m < x * y"
  show "m div x < y"
  proof (rule ccontr)
    assume "\<not> m div x < y"
    then have "x * y \<le> x * (m div x)" using x by (intro mult_left_mono) simp_all
    then show False using * mult_div_mod_eq [of x m] pos_mod_sign [OF x, of m] by linarith
  qed
qed

section \<open>Words\<close>

lemma unat_inc: "unat x + 1 < 2 ^ LENGTH('a) \<Longrightarrow> unat (x + 1) = unat x + 1" for x :: "'a :: len word"
  by (simp add: unat_word_ariths)

lemma unat_add_lt:
  "unat x + unat y < 2 ^ LENGTH('a) \<Longrightarrow> unat (x + y) = unat x + unat y" for x y :: "'a :: len word"
  by (simp add: unat_word_ariths)

lemma ucast_32_inc: "(ucast (x + 1) :: u32) = ucast x + 1" for x :: u64
  by transfer (simp add: take_bit_eq_mod mod_mod_cancel, subst (2) mod_add_left_eq [symmetric],
    simp add: mod_mod_cancel mod_add_left_eq)

section \<open>Lists\<close>

lemma nth_take_drop: "i < n \<Longrightarrow> k + n \<le> length xs \<Longrightarrow> take n (drop k xs) ! i = xs ! (k + i)"
  by simp

lemma take_update_ge [simp]: "n \<le> i \<Longrightarrow> take n (xs[i := v]) = take n xs"
  by (simp add: list_eq_iff_nth_eq)

lemma drop_update_lt [simp]: "i < n \<Longrightarrow> drop n (xs[i := v]) = drop n xs"
  by (cases "n \<le> length xs") (auto simp: list_eq_iff_nth_eq)

lemma list_all_replicate [simp]: "list_all P (replicate n x) = (n = 0 \<or> P x)"
  by (induction n) auto

text \<open>The list without its element at position \<open>i\<close>.\<close>

definition remove_nth :: "nat \<Rightarrow> 'a list \<Rightarrow> 'a list" where
  "remove_nth i xs = take i xs @ drop (Suc i) xs"

lemma length_remove_nth [simp]: "i < length xs \<Longrightarrow> length (remove_nth i xs) = length xs - 1"
  by (auto simp: remove_nth_def)

lemma mset_remove_nth: "i < length xs \<Longrightarrow> mset xs = add_mset (xs ! i) (mset (remove_nth i xs))"
  by (subst id_take_nth_drop [of i xs]) (auto simp: remove_nth_def)

lemma set_remove_nth_subset: "set (remove_nth i xs) \<subseteq> set xs"
  by (auto simp: remove_nth_def dest: in_set_takeD in_set_dropD)

lemma remove_nth_0 [simp]: "remove_nth 0 xs = tl xs"
  by (cases xs) (auto simp: remove_nth_def)

section \<open>Transition systems\<close>

text \<open>
  The interface of a component seen as a state machine: what its steps promise to keep.
  A component interprets it with its own step function and its own invariant; the run
  lemmas below are then available for any sequence of events.
\<close>

locale transition_system =
  fixes step :: "'s \<Rightarrow> 'e \<Rightarrow> 's"
    and inv :: "'s \<Rightarrow> bool"
  assumes step_inv: "inv s \<Longrightarrow> inv (step s e)"
begin

lemma run_inv: "inv s \<Longrightarrow> inv (foldl step s es)"
  by (induction es arbitrary: s) (simp_all add: step_inv)

lemma run_prefix_inv: "inv s \<Longrightarrow> inv (foldl step s (take n es))"
  by (rule run_inv)

end

text \<open>A transition system with a quantity that no step decreases.\<close>

locale monotone_system = transition_system step inv
  for step :: "'s \<Rightarrow> 'e \<Rightarrow> 's" and inv +
  fixes level :: "'s \<Rightarrow> 'a :: preorder"
  assumes step_level: "inv s \<Longrightarrow> level s \<le> level (step s e)"
begin

lemma run_level: "inv s \<Longrightarrow> level s \<le> level (foldl step s es)"
proof (induction es arbitrary: s)
  case Nil
  show ?case by simp
next
  case (Cons e es)
  have "level s \<le> level (step s e)" using Cons.prems by (rule step_level)
  also have "level (step s e) \<le> level (foldl step (step s e) es)"
    using Cons.prems by (intro Cons.IH step_inv)
  finally show ?case by simp
qed

end

end
