(* ===== verification/Checked_Math.thy ===== *)
theory Checked_Math
  imports Prelude
begin

text \<open>
  \<open>2.firmware/src/infrastructure/numeric\<close>: overflow-checked arithmetic
  (\<open>checked_math.c\<close>) and the table interpolation and gain/offset helpers built on it
  (\<open>interpolation.c\<close>).  The flow, pressure and temperature services call these.
\<close>

section \<open>Checked arithmetic\<close>

definition checked_add_i64 :: "int \<Rightarrow> int \<Rightarrow> int option" where
  "checked_add_i64 a b =
     (if (b > 0 \<and> a > INT64_MAX - b) \<or> (b < 0 \<and> a < INT64_MIN - b)
      then None else Some (a + b))"

definition checked_sub_i64 :: "int \<Rightarrow> int \<Rightarrow> int option" where
  "checked_sub_i64 a b =
     (if (b > 0 \<and> a < INT64_MIN + b) \<or> (b < 0 \<and> a > INT64_MAX + b)
      then None else Some (a - b))"

definition checked_mul_i64 :: "int \<Rightarrow> int \<Rightarrow> int option" where
  "checked_mul_i64 a b =
     (if a = 0 \<or> b = 0 then Some 0
      else if a = INT64_MIN \<and> b = -1 then None
      else if b = INT64_MIN \<and> a = -1 then None
      else if (a > 0 \<and> b > 0 \<and> a > INT64_MAX sdiv b)
            \<or> (a > 0 \<and> b < 0 \<and> b < INT64_MIN sdiv a)
            \<or> (a < 0 \<and> b > 0 \<and> a < INT64_MIN sdiv b)
            \<or> (a < 0 \<and> b < 0 \<and> a < INT64_MAX sdiv b)
      then None else Some (a * b))"

definition checked_add_u64 :: "u64 \<Rightarrow> u64 \<Rightarrow> u64 option" where
  "checked_add_u64 a b = (if a > UINT64_MAX - b then None else Some (a + b))"

definition checked_sub_u64 :: "u64 \<Rightarrow> u64 \<Rightarrow> u64 option" where
  "checked_sub_u64 a b = (if b > a then None else Some (a - b))"

definition sat_add_i64 :: "int \<Rightarrow> int \<Rightarrow> int" where
  "sat_add_i64 a b =
     (case checked_add_i64 a b of Some r \<Rightarrow> r
      | None \<Rightarrow> if b > 0 then INT64_MAX else INT64_MIN)"

definition sat_sub_i64 :: "int \<Rightarrow> int \<Rightarrow> int" where
  "sat_sub_i64 a b =
     (case checked_sub_i64 a b of Some r \<Rightarrow> r
      | None \<Rightarrow> if b > 0 then INT64_MIN else INT64_MAX)"

text \<open>
  The widening multiplication.  The operands are reinterpreted as unsigned magnitudes and
  the high word is summed from three partial products; the result is the pair
  \<open>(hi, lo)\<close>, \<open>hi\<close> read as a signed 64-bit value.
\<close>

definition widened_mul_i64 :: "int \<Rightarrow> int \<Rightarrow> int \<times> u64" where
  "widened_mul_i64 a b =
     (let ua = (word_of_int (if a < 0 then - a else a) :: u64);
          ub = (word_of_int (if b < 0 then - b else b) :: u64);
          low = ua * ub;
          high = drop_bit 32 ua * drop_bit 32 ub
               + drop_bit 32 (and ua 0xFFFFFFFF * drop_bit 32 ub)
               + drop_bit 32 (drop_bit 32 ua * and ub 0xFFFFFFFF)
      in if (a < 0) \<noteq> (b < 0)
         then (- sint high - (if low \<noteq> 0 then 1 else 0), - low)
         else (sint high, low))"

text \<open>\<open>round_i64\<close>, statement by statement.\<close>

definition round_i64 :: "int \<Rightarrow> int \<Rightarrow> int" where
  "round_i64 value divisor =
     (if divisor = 0 then value
      else
        let d = (if divisor < 0 then - divisor else divisor);
            v = (if divisor < 0 then - value else value);
            half = d sdiv 2;
            r0 = v smod d;
            q0 = v sdiv d;
            r = (if r0 < 0 then - r0 else r0);
            q = (if r0 < 0 then q0 - 1 else q0)
        in if r > half then q + 1
           else if r < half then q
           else if q smod 2 = 0 then q else q + 1)"

section \<open>Interpolation\<close>

text \<open>
  The loop of \<open>table_is_monotonic\<close> from index \<open>i\<close>, and the function itself.
\<close>

function monotonic_from :: "int list \<Rightarrow> int list \<Rightarrow> nat \<Rightarrow> nat \<Rightarrow> bool" where
  "monotonic_from x y sz i =
     (if i < sz
      then (if x ! i \<le> x ! (i - 1) then False
            else if y ! i \<le> y ! (i - 1) then False
            else monotonic_from x y sz (i + 1))
      else True)"
  by pat_completeness auto
termination by (relation "measure (\<lambda>(x, y, sz, i). sz - i)") auto

declare monotonic_from.simps [simp del]

definition table_is_monotonic :: "int list \<Rightarrow> int list \<Rightarrow> nat \<Rightarrow> bool" where
  "table_is_monotonic x y sz = (if sz < 2 then False else monotonic_from x y sz 1)"

text \<open>The binary search for the segment of \<open>x\<close>.\<close>

function segment_search :: "int \<Rightarrow> int list \<Rightarrow> nat \<Rightarrow> nat \<Rightarrow> nat \<times> nat" where
  "segment_search x xt lo hi =
     (if hi - lo > 1
      then let mid = lo + (hi - lo) div 2
           in if x < xt ! mid then segment_search x xt lo mid else segment_search x xt mid hi
      else (lo, hi))"
  by pat_completeness auto
termination by (relation "measure (\<lambda>(x, xt, lo, hi). hi - lo)") (auto; linarith)+

declare segment_search.simps [simp del]

definition interpolate_i64 :: "int \<Rightarrow> int list \<Rightarrow> int list \<Rightarrow> nat \<Rightarrow> int option" where
  "interpolate_i64 x x_table y_table sz =
     (if sz < 2 then None
      else if x \<le> x_table ! 0 then Some (y_table ! 0)
      else if x \<ge> x_table ! (sz - 1) then Some (y_table ! (sz - 1))
      else
        let (lo, hi) = segment_search x x_table 0 (sz - 1);
            x0 = x_table ! lo; x1 = x_table ! hi;
            y0 = y_table ! lo; y1 = y_table ! hi;
            dx = x1 - x0
        in if dx \<le> 0 then None
           else case checked_sub_i64 x x0 of None \<Rightarrow> None
           | Some x_offset \<Rightarrow>
             (case checked_sub_i64 y1 y0 of None \<Rightarrow> None
              | Some y_range \<Rightarrow>
                (case checked_mul_i64 x_offset y_range of None \<Rightarrow> None
                 | Some num \<Rightarrow> Some (y0 + round_i64 num dx))))"

text \<open>
  \<open>(x * gain + offset) >> shift\<close> with rounding.  \<open>(int64_t)1 << shift\<close> is defined in C for
  \<open>shift \<le> 62\<close> only; the lemmas about it carry that bound.
\<close>

definition apply_gain_offset :: "int \<Rightarrow> int \<Rightarrow> int \<Rightarrow> nat \<Rightarrow> int option" where
  "apply_gain_offset x gain offset shift =
     (case checked_mul_i64 x gain of None \<Rightarrow> None
      | Some p \<Rightarrow>
        (case checked_add_i64 p offset of None \<Rightarrow> None
         | Some p' \<Rightarrow> Some (if shift = 0 then p' else round_i64 p' (2 ^ shift))))"

section \<open>Checked arithmetic is exact\<close>

lemma checked_add_i64_eq:
  "in_i64 a \<Longrightarrow> in_i64 b \<Longrightarrow> checked_add_i64 a b = (if in_i64 (a + b) then Some (a + b) else None)"
  by (auto simp: checked_add_i64_def in_i64_def)

lemma checked_sub_i64_eq:
  "in_i64 a \<Longrightarrow> in_i64 b \<Longrightarrow> checked_sub_i64 a b = (if in_i64 (a - b) then Some (a - b) else None)"
  by (auto simp: checked_sub_i64_def in_i64_def)

lemma le_div_iff_mult_le_int:
  fixes a b M :: int
  assumes "0 < b"
  shows "a \<le> M div b \<longleftrightarrow> a * b \<le> M"
proof
  assume "a \<le> M div b"
  with assms have "a * b \<le> M div b * b" by (simp add: mult_right_mono)
  also have "\<dots> \<le> M" using assms by (simp flip: minus_mod_eq_div_mult)
  finally show "a * b \<le> M" .
next
  assume "a * b \<le> M"
  from zdiv_mono1 [OF this assms] assms show "a \<le> M div b" by simp
qed

lemma checked_mul_i64_eq:
  assumes "in_i64 a" "in_i64 b"
  shows "checked_mul_i64 a b = (if in_i64 (a * b) then Some (a * b) else None)"
proof -
  have s1: "a > 0 \<Longrightarrow> INT64_MIN sdiv a = - ((2 ^ 63) div a)" for a :: int
    using sdiv_neg_left [of "2 ^ 63" a] by (simp add: sdiv_nonneg)
  have s2: "b < 0 \<Longrightarrow> INT64_MAX sdiv b = - (INT64_MAX div (- b))" for b :: int
    by (simp add: signed_divide_int_def)
  consider "a = 0 \<or> b = 0" | "a > 0" "b > 0" | "a > 0" "b < 0" | "a < 0" "b > 0" | "a < 0" "b < 0"
    by linarith
  then show ?thesis
  proof cases
    case 1
    then show ?thesis by (auto simp: checked_mul_i64_def in_i64_def)
  next
    case 2
    then have "INT64_MIN \<le> a * b" using mult_pos_pos [of a b] by linarith
    with 2 show ?thesis
      using le_div_iff_mult_le_int [of b a INT64_MAX]
      by (auto simp: checked_mul_i64_def in_i64_def sdiv_nonneg)
  next
    case 3
    then have "a * b < 0" by (simp add: mult_pos_neg)
    with 3 assms show ?thesis
      using le_div_iff_mult_le_int [of a "- b" "2 ^ 63"]
      by (auto simp: checked_mul_i64_def in_i64_def s1 sdiv_nonneg mult.commute)
  next
    case 4
    then have "a * b < 0" by (simp add: mult_neg_pos)
    with 4 assms show ?thesis
      using le_div_iff_mult_le_int [of b "- a" "2 ^ 63"]
      by (auto simp: checked_mul_i64_def in_i64_def s1 sdiv_nonneg mult.commute)
  next
    case 5
    then have p: "a * b > 0" by (simp add: mult_neg_neg)
    have iff: "(a < INT64_MAX sdiv b) = (a * b > INT64_MAX)"
      using le_div_iff_mult_le_int [of "- b" "- a" INT64_MAX] 5 by (auto simp: s2)
    show ?thesis
    proof (cases "a = INT64_MIN \<and> b = -1 \<or> b = INT64_MIN \<and> a = -1")
      case True
      then show ?thesis by (auto simp: checked_mul_i64_def in_i64_def)
    next
      case False
      with 5 p iff show ?thesis by (auto simp: checked_mul_i64_def in_i64_def)
    qed
  qed
qed

lemma checked_mul_i64_Some: "checked_mul_i64 a b = Some c \<Longrightarrow> c = a * b"
  by (auto simp: checked_mul_i64_def split: if_splits)

lemma checked_add_i64_Some: "checked_add_i64 a b = Some c \<Longrightarrow> c = a + b"
  by (auto simp: checked_add_i64_def split: if_splits)

lemma checked_sub_i64_Some: "checked_sub_i64 a b = Some c \<Longrightarrow> c = a - b"
  by (auto simp: checked_sub_i64_def split: if_splits)

lemma checked_add_u64_eq:
  "checked_add_u64 a b = (if unat a + unat b < 2 ^ 64 then Some (a + b) else None)"
proof -
  have b: "unat b < 2 ^ 64" using unsigned_less [of b] by simp
  then have "unat (UINT64_MAX - b) = 2 ^ 64 - 1 - unat b"
    by (subst unat_sub) (auto simp: word_le_nat_alt)
  then have "(a > UINT64_MAX - b) = (unat a > 2 ^ 64 - 1 - unat b)"
    by (simp add: word_less_nat_alt)
  with b have "(a > UINT64_MAX - b) = (\<not> unat a + unat b < 2 ^ 64)" by linarith
  then show ?thesis by (simp add: checked_add_u64_def)
qed

lemma checked_sub_u64_eq:
  "checked_sub_u64 a b = (if unat b \<le> unat a then Some (a - b) else None)"
  by (simp add: checked_sub_u64_def word_less_nat_alt not_less)

text \<open>Saturation: the exact sum clipped to the range.\<close>

lemma sat_add_i64_clips:
  "in_i64 a \<Longrightarrow> in_i64 b \<Longrightarrow> sat_add_i64 a b = max INT64_MIN (min INT64_MAX (a + b))"
  by (auto simp: sat_add_i64_def checked_add_i64_eq in_i64_def)

lemma sat_sub_i64_clips:
  "in_i64 a \<Longrightarrow> in_i64 b \<Longrightarrow> sat_sub_i64 a b = max INT64_MIN (min INT64_MAX (a - b))"
  by (auto simp: sat_sub_i64_def checked_sub_i64_eq in_i64_def)

section \<open>Rounding\<close>

text \<open>Round to nearest, ties to even: what \<open>checked_math.h\<close> promises of \<open>round_i64\<close>.\<close>

definition round_half_even :: "int \<Rightarrow> int \<Rightarrow> int" where
  "round_half_even v d =
     (let q = v div d; r = v mod d
      in if 2 * r > d then q + 1 else if 2 * r < d then q else if even q then q else q + 1)"

text \<open>For a positive divisor the code works on quotient and remainder of the magnitude.\<close>

lemma round_i64_nonneg:
  assumes "0 \<le> v" "0 < d"
  shows "round_i64 v d =
    (if v mod d > d div 2 then v div d + 1
     else if v mod d < d div 2 then v div d
     else if even (v div d) then v div d else v div d + 1)"
proof -
  have "0 \<le> v div d" using assms by (simp add: pos_imp_zdiv_nonneg_iff)
  then have "(v div d) smod 2 = (v div d) mod 2" by (simp add: smod_nonneg)
  moreover have "(v mod d < 0) = False" using assms by (simp add: not_less)
  ultimately show ?thesis
    using assms by (simp add: round_i64_def Let_def sdiv_nonneg smod_nonneg even_iff_mod_2_eq_zero)
qed

lemma round_i64_nearest_even_divisor:
  assumes "0 \<le> v" "0 < d" "even d"
  shows "round_i64 v d = round_half_even v d"
  using assms by (auto simp: round_i64_nonneg round_half_even_def Let_def elim!: evenE)

lemma round_i64_floor_or_next:
  "0 \<le> v \<Longrightarrow> 0 < d \<Longrightarrow> round_i64 v d = v div d \<or> round_i64 v d = v div d + 1"
  by (auto simp: round_i64_nonneg)

lemma round_i64_zero: "0 < d \<Longrightarrow> round_i64 0 d = 0"
  by (simp add: round_i64_nonneg)

text \<open>A proper fraction of a range never rounds past the range.\<close>

lemma round_i64_proportion:
  assumes "0 \<le> k" "k < d" "0 \<le> r"
  shows "0 \<le> round_i64 (k * r) d \<and> round_i64 (k * r) d \<le> r"
proof (cases "r = 0")
  case True
  with assms show ?thesis by (simp add: round_i64_zero)
next
  case False
  with assms have r: "0 < r" and d: "0 < d" and n: "0 \<le> k * r" by auto
  have "k * r < r * d" using assms r by (simp add: mult.commute)
  then have "k * r div d < r" using d by (metis div_pos_neg_trivial less_le_not_le
      linorder_not_le le_div_iff_mult_le_int)
  moreover have "0 \<le> k * r div d" using n d by (simp add: pos_imp_zdiv_nonneg_iff)
  ultimately show ?thesis using round_i64_floor_or_next [OF n d] by linarith
qed

text \<open>A negative dividend: the quotient is lowered before the remainder is compared.\<close>

lemma round_i64_neg:
  assumes "v < 0" "0 < d"
  shows "round_i64 v d =
    (let q = - ((- v) div d) - (if (- v) mod d = 0 then 0 else 1); r = (- v) mod d
     in if r > d div 2 then q + 1 else if r < d div 2 then q else if even q then q else q + 1)"
proof -
  define m where "m = - v"
  have m: "0 \<le> m" "v = - m" using assms by (auto simp: m_def)
  have r: "m mod d \<noteq> 0 \<Longrightarrow> 0 < m mod d" using assms(2) by (simp add: order_less_le)
  show ?thesis
    using m assms(2) r by (simp add: round_i64_def Let_def sdiv_nonneg smod_nonneg sdiv_neg_left smod_neg_left smod_2_eq_0)
qed

text \<open>
  For a negative dividend that is no multiple of an even divisor and no tie, the code picks
  the wrong one of the two neighbours.
\<close>

lemma round_i64_negative_wrong:
  assumes "v < 0" "0 < d" "even d" "v mod d \<noteq> 0" "2 * (v mod d) \<noteq> d"
  shows "round_i64 v d \<noteq> round_half_even v d"
    and "round_i64 v d = (if round_half_even v d = v div d then v div d + 1 else v div d)"
proof -
  have r: "(- v) mod d = d - v mod d" and q: "(- v) div d = - (v div d) - 1"
    using assms by (simp_all add: zmod_zminus1_eq_if zdiv_zminus1_eq_if)
  from assms obtain e where e: "d = 2 * e" "0 < e" by (auto elim: evenE)
  have lt: "0 < v mod d" "d \<noteq> v mod d"
    using assms pos_mod_bound [of d v] by (simp_all add: order_less_le)
  then have "round_i64 v d = (if e > v mod d then v div d + 1 else v div d)"
    using assms r q e by (auto simp: round_i64_neg Let_def)
  moreover have "round_half_even v d = (if e > v mod d then v div d else v div d + 1)"
    using assms e by (simp add: round_half_even_def Let_def)
  ultimately show "round_i64 v d = (if round_half_even v d = v div d then v div d + 1 else v div d)"
    by simp
  then show "round_i64 v d \<noteq> round_half_even v d"
    by (auto split: if_splits)
qed

section \<open>Interpolation stays inside its segment\<close>

lemma monotonic_from_step:
  "monotonic_from x y n i \<Longrightarrow> i \<le> k \<Longrightarrow> k < n \<Longrightarrow> x ! (k - 1) < x ! k \<and> y ! (k - 1) < y ! k"
proof (induction x y n i rule: monotonic_from.induct)
  case (1 x y n i)
  from 1(2-4) have i: "x ! (i - 1) < x ! i" "y ! (i - 1) < y ! i" "monotonic_from x y n (i + 1)"
    by (auto simp: monotonic_from.simps [of x y n i] split: if_splits)
  show ?case
  proof (cases "k = i")
    case True
    with i show ?thesis by simp
  next
    case False
    with 1 i show ?thesis by simp
  qed
qed

lemma table_strictly_increasing:
  assumes "table_is_monotonic x y n" "i < j" "j < n"
  shows "x ! i < x ! j \<and> y ! i < y ! j"
  using assms(2,3)
proof (induction j)
  case 0
  then show ?case by simp
next
  case (Suc j)
  from assms(1) have "monotonic_from x y n 1"
    by (simp add: table_is_monotonic_def split: if_splits)
  from monotonic_from_step [OF this, of "Suc j"] Suc.prems
  have step: "x ! j < x ! Suc j \<and> y ! j < y ! Suc j" by simp
  show ?case
  proof (cases "i = j")
    case True
    with step show ?thesis by simp
  next
    case False
    with Suc step show ?thesis by fastforce
  qed
qed

lemma monotonic_from_swap: "monotonic_from x y n i = monotonic_from y x n i"
  by (induction x y n i rule: monotonic_from.induct) (subst (1 2) monotonic_from.simps, auto)

lemma table_is_monotonic_swap: "table_is_monotonic x y n = table_is_monotonic y x n"
  using monotonic_from_swap by (simp add: table_is_monotonic_def)

lemma table_increasing:
  "table_is_monotonic x y n \<Longrightarrow> i \<le> j \<Longrightarrow> j < n \<Longrightarrow> x ! i \<le> x ! j \<and> y ! i \<le> y ! j"
  using table_strictly_increasing [of x y n i j] by (cases "i = j") auto

lemma segment_search_finds:
  "segment_search x xt lo hi = (l, h) \<Longrightarrow> lo < hi \<Longrightarrow> xt ! lo \<le> x \<Longrightarrow> x < xt ! hi \<Longrightarrow>
   h = l + 1 \<and> lo \<le> l \<and> h \<le> hi \<and> xt ! l \<le> x \<and> x < xt ! h"
proof (induction x xt lo hi rule: segment_search.induct)
  case (1 x xt lo hi)
  define mid where "mid = lo + (hi - lo) div 2"
  show ?case
  proof (cases "hi - lo > 1")
    case False
    with 1(3-) show ?thesis by (auto simp: segment_search.simps [of x xt lo hi])
  next
    case True
    then have m: "lo < mid" "mid < hi" by (auto simp: mid_def)
    show ?thesis
    proof (cases "x < xt ! mid")
      case True
      with 1(1) [OF \<open>hi - lo > 1\<close> mid_def True] 1(3-) m \<open>hi - lo > 1\<close> show ?thesis
        by (auto simp: segment_search.simps [of x xt lo hi] mid_def [symmetric] Let_def)
    next
      case False
      with 1(2) [OF \<open>hi - lo > 1\<close> mid_def False] 1(3-) m \<open>hi - lo > 1\<close> show ?thesis
        by (auto simp: segment_search.simps [of x xt lo hi] mid_def [symmetric] Let_def)
    qed
  qed
qed

text \<open>What the code computes strictly inside the table.\<close>

lemma interpolate_inside:
  assumes mono: "table_is_monotonic xt yt n" and "xt ! 0 < x" "x < xt ! (n - 1)"
  obtains l where "Suc l < n" "xt ! l \<le> x" "x < xt ! (Suc l)" "yt ! l < yt ! (Suc l)"
    "interpolate_i64 x xt yt n =
      (case checked_sub_i64 x (xt ! l) of None \<Rightarrow> None
       | Some xo \<Rightarrow> case checked_sub_i64 (yt ! (Suc l)) (yt ! l) of None \<Rightarrow> None
       | Some yr \<Rightarrow> case checked_mul_i64 xo yr of None \<Rightarrow> None
       | Some num \<Rightarrow> Some (yt ! l + round_i64 num (xt ! (Suc l) - xt ! l)))"
proof -
  from mono have n: "2 \<le> n" by (simp add: table_is_monotonic_def split: if_splits)
  obtain l h where lh: "segment_search x xt 0 (n - 1) = (l, h)" by (metis surj_pair)
  from segment_search_finds [OF lh] assms n
  have h: "h = Suc l" "Suc l < n" "xt ! l \<le> x" "x < xt ! (Suc l)" by auto
  with table_strictly_increasing [OF mono, of l "Suc l"] have "yt ! l < yt ! (Suc l)" by simp
  with h lh n assms show ?thesis
    by (intro that [of l]) (auto simp: interpolate_i64_def Let_def)
qed

lemma interpolate_segment_value:
  assumes mono: "table_is_monotonic xt yt n" and y: "interpolate_i64 x xt yt n = Some y"
    and "xt ! 0 < x" "x < xt ! (n - 1)"
  obtains l where "Suc l < n" "xt ! l \<le> x" "x < xt ! (Suc l)" "yt ! l \<le> y" "y \<le> yt ! (Suc l)"
    "x = xt ! l \<Longrightarrow> y = yt ! l"
proof -
  obtain l where l: "Suc l < n" "xt ! l \<le> x" "x < xt ! (Suc l)" "yt ! l < yt ! (Suc l)"
    and eq: "interpolate_i64 x xt yt n =
      (case checked_sub_i64 x (xt ! l) of None \<Rightarrow> None
       | Some xo \<Rightarrow> case checked_sub_i64 (yt ! (Suc l)) (yt ! l) of None \<Rightarrow> None
       | Some yr \<Rightarrow> case checked_mul_i64 xo yr of None \<Rightarrow> None
       | Some num \<Rightarrow> Some (yt ! l + round_i64 num (xt ! (Suc l) - xt ! l)))"
    using interpolate_inside [OF mono assms(3,4)] .
  have y': "y = yt ! l + round_i64 ((x - xt ! l) * (yt ! (Suc l) - yt ! l)) (xt ! (Suc l) - xt ! l)"
    using y unfolding eq
    by (auto dest!: checked_sub_i64_Some checked_mul_i64_Some split: option.splits)
  have "0 \<le> round_i64 ((x - xt ! l) * (yt ! (Suc l) - yt ! l)) (xt ! (Suc l) - xt ! l) \<and>
    round_i64 ((x - xt ! l) * (yt ! (Suc l) - yt ! l)) (xt ! (Suc l) - xt ! l) \<le> yt ! (Suc l) - yt ! l"
    using l by (intro round_i64_proportion) auto
  moreover have "x = xt ! l \<Longrightarrow> y = yt ! l" using l by (simp add: y' round_i64_zero)
  ultimately show ?thesis using l y' by (intro that [of l]) auto
qed

section \<open>Properties\<close>

text \<open>On 64-bit operands \<open>checked_mul_i64\<close> succeeds exactly when the mathematical product is
  representable, and then returns it: the overflow test has neither false alarms nor misses.\<close>

theorem checked_mul_exact:
  "in_i64 a \<Longrightarrow> in_i64 b \<Longrightarrow>
   checked_mul_i64 a b = (if in_i64 (a * b) then Some (a * b) else None)"
  by (rule checked_mul_i64_eq)

lemma checked_mul_exact_witness:
  "checked_mul_i64 (- 3037000500) 3037000500 = None \<and> checked_mul_i64 (- 2) 3 = Some (- 6)"
  using checked_mul_exact [of "- 3037000500" 3037000500] checked_mul_exact [of "- 2" 3]
  by (simp add: in_i64_def)

text \<open>On a strictly monotonic table, every interpolated value lies between the ordinates of the
  knots around it (so the result is exact at a knot and clamped outside the table), and it stays
  inside the table's range of ordinates.\<close>

theorem interpolate_bracketed:
  assumes mono: "table_is_monotonic xt yt n" and y: "interpolate_i64 x xt yt n = Some y"
  shows "(\<forall>i < n. (xt ! i \<le> x \<longrightarrow> yt ! i \<le> y) \<and> (x \<le> xt ! i \<longrightarrow> y \<le> yt ! i)) \<and>
    yt ! 0 \<le> y \<and> y \<le> yt ! (n - 1)"
proof -
  from mono have n: "2 \<le> n" by (simp add: table_is_monotonic_def split: if_splits)
  consider "x \<le> xt ! 0" | "xt ! (n - 1) \<le> x" "xt ! 0 < x" | "xt ! 0 < x" "x < xt ! (n - 1)" by linarith
  then show ?thesis
  proof cases
    case 1
    with n y have y0: "y = yt ! 0" by (simp add: interpolate_i64_def)
    have "i = 0 \<or> xt ! 0 < xt ! i \<and> yt ! 0 < yt ! i" if "i < n" for i
      using that table_strictly_increasing [OF mono, of 0 i] by (cases "i = 0") auto
    with 1 y0 n show ?thesis
      using table_increasing [OF mono, of 0 "n - 1"] by fastforce
  next
    case 2
    with n y have yn: "y = yt ! (n - 1)" by (simp add: interpolate_i64_def)
    have "xt ! i \<le> xt ! (n - 1) \<and> yt ! i \<le> yt ! (n - 1) \<and> (i = n - 1 \<or> xt ! i < xt ! (n - 1))" if "i < n" for i
      using that table_increasing [OF mono, of i "n - 1"] table_strictly_increasing [OF mono, of i "n - 1"] n
      by (cases "i = n - 1") auto
    with 2 yn n show ?thesis by fastforce
  next
    case 3
    obtain l where l: "Suc l < n" "xt ! l \<le> x" "x < xt ! Suc l" "yt ! l \<le> y" "y \<le> yt ! Suc l"
      "x = xt ! l \<Longrightarrow> y = yt ! l"
      using interpolate_segment_value [OF mono y 3] by metis
    have below: "xt ! i \<le> xt ! l \<and> yt ! i \<le> yt ! l" if "i \<le> l" for i
      using that l table_increasing [OF mono, of i l] by simp
    have above: "xt ! Suc l \<le> xt ! i \<and> yt ! Suc l \<le> yt ! i" if "Suc l \<le> i" "i < n" for i
      using that l table_increasing [OF mono, of "Suc l" i] by simp
    have "(xt ! i \<le> x \<longrightarrow> yt ! i \<le> y) \<and> (x \<le> xt ! i \<longrightarrow> y \<le> yt ! i)" if "i < n" for i
    proof (cases "i \<le> l")
      case True
      with below [OF True] table_strictly_increasing [OF mono, of i l] l show ?thesis
        by (cases "i = l") auto
    next
      case False
      with above [of i] that l show ?thesis by auto
    qed
    moreover have "yt ! 0 \<le> y" using below [of 0] l by simp
    moreover have "y \<le> yt ! (n - 1)" using above [of "n - 1"] l by force
    ultimately show ?thesis by blast
  qed
qed

lemma interpolate_bracketed_witness:
  "table_is_monotonic [0, 100, 200] [0, 50, 100] 3 \<and>
   interpolate_i64 50 [0, 100, 200] [0, 50, 100] 3 = Some 25 \<and> (0 :: int) \<le> 25 \<and> (25 :: int) \<le> 50"
proof -
  have m: "table_is_monotonic [0, 100, 200] [0, 50, 100] 3" by code_simp
  have i: "interpolate_i64 50 [0, 100, 200] [0, 50, 100] 3 = Some 25" by code_simp
  show ?thesis using m i interpolate_bracketed [OF m i] by auto
qed

text \<open>\<open>round_i64\<close> is round-half-even for non-negative values and even divisors, as
  \<open>apply_gain_offset\<close> uses it for a non-negative product.\<close>

theorem round_i64_half_even:
  "0 \<le> v \<Longrightarrow> 0 < d \<Longrightarrow> even d \<Longrightarrow> round_i64 v d = round_half_even v d"
  by (rule round_i64_nearest_even_divisor)

lemma round_i64_half_even_witness: "round_i64 7 2 = 4 \<and> round_i64 5 2 = 2"
  using round_i64_half_even [of 7 2] round_i64_half_even [of 5 2]
  by (simp add: round_half_even_def)

text \<open>For a negative value with an even divisor, outside ties and exact multiples, \<open>round_i64\<close>
  always returns the neighbour that is farther away: the documented round-to-nearest does not
  hold for negative (reverse-flow) readings.\<close>

theorem round_i64_negative_never_nearest:
  "v < 0 \<Longrightarrow> 0 < d \<Longrightarrow> even d \<Longrightarrow> v mod d \<noteq> 0 \<Longrightarrow> 2 * (v mod d) \<noteq> d \<Longrightarrow>
   round_i64 v d \<noteq> round_half_even v d"
  by (rule round_i64_negative_wrong)

lemma round_i64_negative_never_nearest_witness: "round_i64 (- 1) 4 = - 1 \<and> round_half_even (- 1) 4 = 0"
  using round_i64_negative_never_nearest [of "- 1" 4]
  by (simp add: round_half_even_def round_i64_def Let_def signed_divide_int_def signed_modulo_int_def)

text \<open>Other deviations: a divisor of 1 alters odd values, odd divisors round thirds up, and the
  widening multiplication loses the carries of the cross products.\<close>

lemma round_i64_by_one: "round_i64 3 1 = 4"
  by (simp add: round_i64_nonneg)

lemma round_i64_thirds: "round_i64 4 3 = 2"
  by (simp add: round_i64_nonneg)

lemma widened_mul_loses_carry:
  "fst (widened_mul_i64 0x1FFFFFFFF 0x1FFFFFFFF) = 1"
  "0x1FFFFFFFF * 0x1FFFFFFFF div 2 ^ 64 = (3 :: int)"
  by code_simp+

end
