(* ===== verification/Event_Types.thy ===== *)
theory Event_Types
  imports Prelude
begin

text \<open>
  The vocabulary of the event system: event ids (\<open>infrastructure/event/event_id.h\<close>), the
  event record with its priority and delivery classes
  (\<open>infrastructure/queues/app_event_queue.h\<close>) and the event constructors and tests of
  \<open>infrastructure/event/app_event.c\<close>.  An \<open>EventId\<close> is an open code of 32 bits, as the FSM
  table and the router store it.
\<close>

type_synonym event_id = u32

abbreviation EVT_SYSTEM_START :: event_id where "EVT_SYSTEM_START \<equiv> 0x0100"
abbreviation EVT_INIT_COMPLETED :: event_id where "EVT_INIT_COMPLETED \<equiv> 0x0101"
abbreviation EVT_RECOVERABLE_INIT_FAILURE :: event_id where "EVT_RECOVERABLE_INIT_FAILURE \<equiv> 0x0102"
abbreviation EVT_CRITICAL_INIT_FAILURE :: event_id where "EVT_CRITICAL_INIT_FAILURE \<equiv> 0x0103"
abbreviation EVT_LOW_POWER_REQUEST :: event_id where "EVT_LOW_POWER_REQUEST \<equiv> 0x0104"
abbreviation EVT_WAKE :: event_id where "EVT_WAKE \<equiv> 0x0105"
abbreviation EVT_SERVICE_REQUEST :: event_id where "EVT_SERVICE_REQUEST \<equiv> 0x0106"
abbreviation EVT_SERVICE_EXIT :: event_id where "EVT_SERVICE_EXIT \<equiv> 0x0107"
abbreviation EVT_SYSTEM_RECOVERY_REQUIRED :: event_id where "EVT_SYSTEM_RECOVERY_REQUIRED \<equiv> 0x0108"
abbreviation EVT_RECOVERY_SUCCEEDED :: event_id where "EVT_RECOVERY_SUCCEEDED \<equiv> 0x0109"
abbreviation EVT_RECOVERY_FAILED :: event_id where "EVT_RECOVERY_FAILED \<equiv> 0x010A"
abbreviation EVT_CRITICAL_ERROR :: event_id where "EVT_CRITICAL_ERROR \<equiv> 0x010B"
abbreviation EVT_AUTHORIZED_RECOVERY_REQUEST :: event_id where "EVT_AUTHORIZED_RECOVERY_REQUEST \<equiv> 0x010C"
abbreviation EVT_CONTROLLED_REINITIALIZE :: event_id where "EVT_CONTROLLED_REINITIALIZE \<equiv> 0x010D"

abbreviation EVT_MAX_IRQ_ASSERTED :: event_id where "EVT_MAX_IRQ_ASSERTED \<equiv> 0x0200"
abbreviation EVT_MAX_SPI_COMPLETED :: event_id where "EVT_MAX_SPI_COMPLETED \<equiv> 0x0201"
abbreviation EVT_MAX_SPI_FAILED :: event_id where "EVT_MAX_SPI_FAILED \<equiv> 0x0202"
abbreviation EVT_MAX_RAW_READY :: event_id where "EVT_MAX_RAW_READY \<equiv> 0x0203"
abbreviation EVT_MAX_RESULT_TIMEOUT :: event_id where "EVT_MAX_RESULT_TIMEOUT \<equiv> 0x0204"
abbreviation EVT_FLOW_PROCESSING_COMPLETED :: event_id where "EVT_FLOW_PROCESSING_COMPLETED \<equiv> 0x0205"
abbreviation EVT_TEMPERATURE_RESULT_READY :: event_id where "EVT_TEMPERATURE_RESULT_READY \<equiv> 0x0206"
abbreviation EVT_FLOW_RESULT_READY :: event_id where "EVT_FLOW_RESULT_READY \<equiv> 0x0207"
abbreviation EVT_PRESSURE_SAMPLE_DUE :: event_id where "EVT_PRESSURE_SAMPLE_DUE \<equiv> 0x0208"
abbreviation EVT_PRESSURE_EOC_ASSERTED :: event_id where "EVT_PRESSURE_EOC_ASSERTED \<equiv> 0x0209"
abbreviation EVT_PRESSURE_POLL_DUE :: event_id where "EVT_PRESSURE_POLL_DUE \<equiv> 0x020A"
abbreviation EVT_PRESSURE_RAW_READY :: event_id where "EVT_PRESSURE_RAW_READY \<equiv> 0x020B"
abbreviation EVT_PRESSURE_TIMEOUT :: event_id where "EVT_PRESSURE_TIMEOUT \<equiv> 0x020C"
abbreviation EVT_PRESSURE_RESULT_READY :: event_id where "EVT_PRESSURE_RESULT_READY \<equiv> 0x020D"
abbreviation EVT_MEASUREMENT_STATUS_CHANGED :: event_id where "EVT_MEASUREMENT_STATUS_CHANGED \<equiv> 0x020E"

abbreviation EVT_VOLUME_UPDATED :: event_id where "EVT_VOLUME_UPDATED \<equiv> 0x0300"
abbreviation EVT_VOLUME_CHECKPOINT_REQUIRED :: event_id where "EVT_VOLUME_CHECKPOINT_REQUIRED \<equiv> 0x0301"
abbreviation EVT_LEAK_RESULT_UPDATED :: event_id where "EVT_LEAK_RESULT_UPDATED \<equiv> 0x0302"
abbreviation EVT_LEAK_STATE_CHANGED :: event_id where "EVT_LEAK_STATE_CHANGED \<equiv> 0x0303"
abbreviation EVT_SNAPSHOT_PUBLISH_REQUESTED :: event_id where "EVT_SNAPSHOT_PUBLISH_REQUESTED \<equiv> 0x0304"
abbreviation EVT_SNAPSHOT_PUBLISHED :: event_id where "EVT_SNAPSHOT_PUBLISHED \<equiv> 0x0305"
abbreviation EVT_I2C_TRANSACTION_COMPLETED :: event_id where "EVT_I2C_TRANSACTION_COMPLETED \<equiv> 0x0380"
abbreviation EVT_I2C_TRANSACTION_FAILED :: event_id where "EVT_I2C_TRANSACTION_FAILED \<equiv> 0x0381"
abbreviation EVT_STORAGE_COMMIT_REQUESTED :: event_id where "EVT_STORAGE_COMMIT_REQUESTED \<equiv> 0x0406"
abbreviation EVT_STORAGE_COMMIT_COMPLETED :: event_id where "EVT_STORAGE_COMMIT_COMPLETED \<equiv> 0x0407"
abbreviation EVT_STORAGE_COMMIT_FAILED :: event_id where "EVT_STORAGE_COMMIT_FAILED \<equiv> 0x0408"
abbreviation EVT_REPORT_DUE :: event_id where "EVT_REPORT_DUE \<equiv> 0x0504"
abbreviation EVT_CONNECTIVITY_CHANGED :: event_id where "EVT_CONNECTIVITY_CHANGED \<equiv> 0x0605"
abbreviation EVT_POWER_STATUS_CHANGED :: event_id where "EVT_POWER_STATUS_CHANGED \<equiv> 0x0703"
abbreviation EVT_POWER_SAMPLE_DUE :: event_id where "EVT_POWER_SAMPLE_DUE \<equiv> 0x0706"

datatype event_delivery =
  DELIVERY_EDGE | DELIVERY_COMPLETION | DELIVERY_LEVEL | DELIVERY_DEADLINE | DELIVERY_MAILBOX

datatype event_priority =
  EVENT_PRIO_CRITICAL | EVENT_PRIO_MEASUREMENT | EVENT_PRIO_SHARED_RESOURCE
| EVENT_PRIO_CONFIG | EVENT_PRIO_BACKGROUND

text \<open>The C code compares priorities as the integers of the enumeration.\<close>

fun prio_rank :: "event_priority \<Rightarrow> nat" where
  "prio_rank EVENT_PRIO_CRITICAL = 0"
| "prio_rank EVENT_PRIO_MEASUREMENT = 1"
| "prio_rank EVENT_PRIO_SHARED_RESOURCE = 2"
| "prio_rank EVENT_PRIO_CONFIG = 3"
| "prio_rank EVENT_PRIO_BACKGROUND = 4"

instantiation event_priority :: linorder
begin

definition less_eq_event_priority :: "event_priority \<Rightarrow> event_priority \<Rightarrow> bool" where
  "p \<le> q \<longleftrightarrow> prio_rank p \<le> prio_rank q"

definition less_event_priority :: "event_priority \<Rightarrow> event_priority \<Rightarrow> bool" where
  "p < q \<longleftrightarrow> prio_rank p < prio_rank q"

instance
proof
  fix p q :: event_priority
  assume "p \<le> q" "q \<le> p"
  then show "p = q"
    by (cases p; cases q) (simp_all add: less_eq_event_priority_def)
qed (auto simp: less_eq_event_priority_def less_event_priority_def)

end

abbreviation EVENT_MAX_PAYLOAD_SIZE :: nat where "EVENT_MAX_PAYLOAD_SIZE \<equiv> 16"

record app_event =
  ev_id :: event_id
  ev_source_id :: u32
  ev_priority :: event_priority
  ev_delivery :: event_delivery
  ev_sequence :: u32
  ev_correlation_id :: u32
  ev_source_generation :: u32
  ev_monotonic_timestamp_us :: u64
  ev_payload :: bytes
  ev_payload_size :: u8

text \<open>The all-zero event that \<open>memset\<close> leaves.\<close>

definition zero_event :: app_event where
  "zero_event =
     \<lparr>ev_id = 0, ev_source_id = 0, ev_priority = EVENT_PRIO_CRITICAL, ev_delivery = DELIVERY_EDGE,
      ev_sequence = 0, ev_correlation_id = 0, ev_source_generation = 0,
      ev_monotonic_timestamp_us = 0, ev_payload = replicate EVENT_MAX_PAYLOAD_SIZE 0,
      ev_payload_size = 0\<rparr>"

fun app_event_is_stale :: "app_event option \<Rightarrow> u32 \<Rightarrow> bool" where
  "app_event_is_stale None current_generation = True"
| "app_event_is_stale (Some event) current_generation =
     (ev_source_generation event \<noteq> current_generation)"

fun app_event_match_correlation :: "app_event option \<Rightarrow> u32 \<Rightarrow> bool" where
  "app_event_match_correlation None correlation_id = False"
| "app_event_match_correlation (Some event) correlation_id =
     (ev_correlation_id event = correlation_id)"

definition app_event_make_completion :: "event_id \<Rightarrow> u32 \<Rightarrow> u32 \<Rightarrow> u32 \<Rightarrow> bool \<Rightarrow> app_event" where
  "app_event_make_completion eid source_id correlation_id source_generation success =
     zero_event\<lparr>ev_id := eid, ev_source_id := source_id, ev_priority := EVENT_PRIO_MEASUREMENT,
       ev_delivery := DELIVERY_COMPLETION, ev_correlation_id := correlation_id,
       ev_source_generation := source_generation,
       ev_payload := (ev_payload zero_event)[0 := if success then 1 else 0],
       ev_payload_size := 1\<rparr>"

definition app_event_make_deadline :: "event_id \<Rightarrow> u32 \<Rightarrow> u32 \<Rightarrow> u32 \<Rightarrow> app_event" where
  "app_event_make_deadline eid source_id job_id generation =
     zero_event\<lparr>ev_id := eid, ev_source_id := source_id, ev_priority := EVENT_PRIO_MEASUREMENT,
       ev_delivery := DELIVERY_DEADLINE, ev_correlation_id := job_id,
       ev_source_generation := generation\<rparr>"

text \<open>A constructed event is never stale for the generation it was made with.\<close>

lemma make_completion_not_stale [simp]:
  "app_event_is_stale (Some (app_event_make_completion i s c g ok)) g' \<longleftrightarrow> g \<noteq> g'"
  by (simp add: app_event_make_completion_def)

lemma make_deadline_not_stale [simp]:
  "app_event_is_stale (Some (app_event_make_deadline i s j g)) g' \<longleftrightarrow> g \<noteq> g'"
  by (simp add: app_event_make_deadline_def)

end
