(* ===== verification/Ring.thy ===== *)
theory Ring
  imports Prelude
begin

text \<open>
  Ring buffers as lists: \<open>ring_list N buf h n\<close> is the logical content of a ring of \<open>N\<close> slots
  whose oldest element is at index \<open>h\<close> and which holds \<open>n\<close> elements.  The queues of the
  firmware are all refined to this list.
\<close>

definition ring_list :: "nat \<Rightarrow> 'a list \<Rightarrow> nat \<Rightarrow> nat \<Rightarrow> 'a list" where
  "ring_list N buf h n = map (\<lambda>k. buf ! ((h + k) mod N)) [0..<n]"

lemma length_ring_list [simp]: "length (ring_list N buf h n) = n"
  by (simp add: ring_list_def)

lemma nth_ring_list [simp]: "k < n \<Longrightarrow> ring_list N buf h n ! k = buf ! ((h + k) mod N)"
  by (simp add: ring_list_def)

lemma ring_list_0 [simp]: "ring_list N buf h 0 = []"
  by (simp add: ring_list_def)

lemma ring_list_Nil_iff [simp]: "ring_list N buf h n = [] \<longleftrightarrow> n = 0"
  by (simp add: ring_list_def)

lemma ring_list_Suc: "ring_list N buf h (Suc n) = ring_list N buf h n @ [buf ! ((h + n) mod N)]"
  by (simp add: ring_list_def)

lemma ring_list_Cons:
  "h < N \<Longrightarrow> ring_list N buf h (Suc n) = buf ! h # ring_list N buf (Suc h mod N) n"
  by (rule nth_equalityI) (auto simp: nth_Cons mod_simps split: nat.split)

lemma ring_index_inj:
  assumes "j < N" "k < N" "(h + j) mod N = (h + k) mod N"
  shows "j = (k :: nat)"
proof -
  have *: "a = b" if "a \<le> b" "b < N" "(h + a) mod N = (h + b) mod N" for a b
  proof -
    have "N dvd (h + b) - (h + a)"
      using that by (metis add_le_cancel_left mod_eq_dvd_iff_nat)
    then have "N dvd b - a" by simp
    with that show ?thesis by (metis diff_is_0_eq' dvd_imp_le le_antisym leD le_less_trans diff_le_self
        not_gr_zero diff_diff_cancel diff_zero)
  qed
  show ?thesis using assms * [of j k] * [of k j] by (cases "j \<le> k") auto
qed

lemma ring_index_lt [simp]: "0 < N \<Longrightarrow> (h + k) mod N < (N :: nat)"
  by simp

lemma ring_list_update:
  assumes "length buf = N" "k < n" "n \<le> N"
  shows "ring_list N (buf[(h + k) mod N := x]) h n = (ring_list N buf h n)[k := x]"
proof (rule nth_equalityI)
  fix j assume "j < length (ring_list N (buf[(h + k) mod N := x]) h n)"
  with assms ring_index_inj [of j N k h]
  show "ring_list N (buf[(h + k) mod N := x]) h n ! j = (ring_list N buf h n)[k := x] ! j"
    by (auto simp: nth_list_update)
qed simp

lemma ring_list_snoc:
  assumes "length buf = N" "n < N"
  shows "ring_list N (buf[(h + n) mod N := x]) h (Suc n) = ring_list N buf h n @ [x]"
  using ring_list_update [OF assms(1) lessI Suc_leI [OF assms(2)], of h x]
  by (simp add: ring_list_Suc list_update_append)

text \<open>Offset of an index from the head, as the C code computes it.\<close>

lemma ring_offset:
  assumes "h < N" "k < N"
  shows "((h + k) mod N + N - h) mod N = (k :: nat)"
proof (cases "h + k < N")
  case True
  with assms show ?thesis by simp
next
  case False
  with assms have "(h + k) mod N = h + k - N" by (simp add: mod_if)
  with False assms show ?thesis by simp
qed

lemma ring_tail_back:
  assumes "0 < N" "0 < n"
  shows "((h + n) mod N + N - 1) mod N = (h + (n - 1)) mod (N :: nat)"
proof -
  have "((h + n) mod N + N - 1) mod N = ((h + n) mod N + (N - 1)) mod N" using assms by simp
  also have "\<dots> = (h + n + (N - 1)) mod N" by (simp add: mod_add_left_eq)
  also have "\<dots> = (h + (n - 1) + N) mod N" using assms by (simp add: algebra_simps)
  finally show ?thesis by simp
qed

text \<open>
  Closing the gap after a removal: a pass that copies, from index \<open>k\<close> on, each of \<open>m\<close>
  successors one slot down.
\<close>

fun ring_shift :: "nat \<Rightarrow> 'a list \<Rightarrow> nat \<Rightarrow> nat \<Rightarrow> 'a list" where
  "ring_shift N buf r 0 = buf"
| "ring_shift N buf r (Suc m) = ring_shift N (buf[r := buf ! (Suc r mod N)]) (Suc r mod N) m"

lemma length_ring_shift [simp]: "length (ring_shift N buf r m) = length buf"
  by (induction m arbitrary: buf r) auto

lemma ring_shift_list:
  assumes "length buf = N" "k + m < n" "n \<le> N"
  shows "ring_list N (ring_shift N buf ((h + k) mod N) m) h n =
    take k (ring_list N buf h n) @ take m (drop (Suc k) (ring_list N buf h n))
      @ drop (k + m) (ring_list N buf h n)"
  using assms
proof (induction m arbitrary: buf k)
  case 0
  then show ?case by simp
next
  case (Suc m)
  let ?x = "buf ! ((h + Suc k) mod N)"
  let ?buf = "buf[(h + k) mod N := ?x]"
  have next_idx: "Suc ((h + k) mod N) mod N = (h + Suc k) mod N" by (simp add: mod_Suc_eq)
  have "ring_list N (ring_shift N ?buf ((h + Suc k) mod N) m) h n =
    take (Suc k) (ring_list N ?buf h n) @ take m (drop (Suc (Suc k)) (ring_list N ?buf h n))
      @ drop (Suc k + m) (ring_list N ?buf h n)"
    using Suc.prems by (intro Suc.IH) auto
  moreover have "ring_list N ?buf h n = (ring_list N buf h n)[k := ring_list N buf h n ! Suc k]"
    using Suc.prems by (subst ring_list_update) auto
  ultimately show ?case
    using Suc.prems by (simp add: next_idx take_Suc_conv_app_nth
        Cons_nth_drop_Suc [of "Suc k", symmetric])
qed

lemma ring_shift_remove:
  assumes "length buf = N" "k < n" "n \<le> N"
  shows "ring_list N (ring_shift N buf ((h + k) mod N) (n - k - 1)) h (n - 1) =
    remove_nth k (ring_list N buf h n)"
proof -
  let ?b = "ring_shift N buf ((h + k) mod N) (n - k - 1)"
  have "ring_list N ?b h (n - 1) = take (n - 1) (ring_list N ?b h n)"
    by (rule nth_equalityI) auto
  also have "\<dots> = remove_nth k (ring_list N buf h n)"
    using assms by (subst ring_shift_list) (auto simp: remove_nth_def)
  finally show ?thesis .
qed

end
