(* ===== verification/Store_Interface.thy ===== *)
theory Store_Interface
  imports Prelude
begin

text \<open>
  The interface of a bounded store of items, as the event loop uses its
  queue: one operation puts an item in (it may be refused,
  appended or replace a pending item), one takes an item out.  Clients rely on these laws
  only: nothing is invented, nothing is delivered twice, and draining ends.
\<close>

datatype 'a store_op = Put 'a | Take

fun store_run :: "('s \<Rightarrow> 'a \<Rightarrow> 's) \<Rightarrow> ('s \<Rightarrow> ('a \<times> 's) option) \<Rightarrow> 'a store_op list \<Rightarrow> 's \<Rightarrow> 'a list \<times> 's" where
  "store_run put get [] s = ([], s)"
| "store_run put get (Put x # ops) s = store_run put get ops (put s x)"
| "store_run put get (Take # ops) s =
     (case get s of
        None \<Rightarrow> store_run put get ops s
      | Some (x, s') \<Rightarrow> (let (xs, t) = store_run put get ops s' in (x # xs, t)))"

fun puts :: "'a store_op list \<Rightarrow> 'a list" where
  "puts [] = []"
| "puts (Put x # ops) = x # puts ops"
| "puts (Take # ops) = puts ops"

locale bounded_store =
  fixes items :: "'s \<Rightarrow> 'a list"
    and bound :: "'s \<Rightarrow> nat"
    and inv :: "'s \<Rightarrow> bool"
    and put :: "'s \<Rightarrow> 'a \<Rightarrow> 's"
    and get :: "'s \<Rightarrow> ('a \<times> 's) option"
  assumes put_inv: "inv s \<Longrightarrow> inv (put s x)"
    and put_bound: "inv s \<Longrightarrow> bound (put s x) = bound s"
    and put_items: "inv s \<Longrightarrow>
      items (put s x) = items s \<or> items (put s x) = items s @ [x] \<or>
      (\<exists>k < length (items s). items (put s x) = (items s)[k := x])"
    and inv_bound: "inv s \<Longrightarrow> length (items s) \<le> bound s"
    and get_None: "inv s \<Longrightarrow> get s = None \<longleftrightarrow> items s = []"
    and get_Some: "inv s \<Longrightarrow> get s = Some (x, s') \<Longrightarrow>
      \<exists>k < length (items s). x = items s ! k \<and> items s' = remove_nth k (items s)"
    and get_inv: "inv s \<Longrightarrow> get s = Some (x, s') \<Longrightarrow> inv s'"
    and get_bound: "inv s \<Longrightarrow> get s = Some (x, s') \<Longrightarrow> bound s' = bound s"
begin

lemma put_mset: "inv s \<Longrightarrow> mset (items (put s x)) \<subseteq># add_mset x (mset (items s))"
  using put_items [of s x]
  by (auto simp: mset_update in_set_conv_nth multiset_eq_iff subseteq_mset_def intro!: diff_le_mono)

lemma get_mset: "inv s \<Longrightarrow> get s = Some (x, s') \<Longrightarrow> mset (items s) = add_mset x (mset (items s'))"
  using get_Some [of s x s'] mset_remove_nth by fastforce

lemma get_length: "inv s \<Longrightarrow> get s = Some (x, s') \<Longrightarrow> length (items s) = Suc (length (items s'))"
  using get_mset [of s x s'] by (metis size_add_mset size_mset)

text \<open>What a run hands out and still holds was there before or was put in, counted with
  multiplicity: no event is invented and none is delivered twice.\<close>

lemma run_conserves:
  "inv s \<Longrightarrow> store_run put get ops s = (xs, t) \<Longrightarrow>
   inv t \<and> mset xs + mset (items t) \<subseteq># mset (items s) + mset (puts ops)"
proof (induction ops arbitrary: s xs t)
  case Nil
  then show ?case by simp
next
  case (Cons op ops)
  show ?case
  proof (cases op)
    case (Put x)
    from Cons.IH [OF put_inv [OF Cons.prems(1)]] Cons.prems(2) Put
    have "inv t \<and> mset xs + mset (items t) \<subseteq># mset (items (put s x)) + mset (puts ops)" by simp
    moreover have "mset (items (put s x)) + mset (puts ops) \<subseteq># add_mset x (mset (items s)) + mset (puts ops)"
      by (rule subset_mset.add_right_mono [OF put_mset [OF Cons.prems(1)]])
    ultimately show ?thesis using Put by (auto intro: subset_mset.order_trans)
  next
    case Take
    show ?thesis
    proof (cases "get s")
      case None
      with Cons.IH [OF Cons.prems(1)] Cons.prems(2) Take show ?thesis by simp
    next
      case (Some r)
      obtain x s' where r: "get s = Some (x, s')" using Some by (cases r) auto
      obtain ys where ys: "store_run put get ops s' = (ys, t)" "xs = x # ys"
        using Cons.prems(2) Take r by (auto split: prod.splits)
      from Cons.IH [OF get_inv [OF Cons.prems(1) r] ys(1)] get_mset [OF Cons.prems(1) r] ys(2) Take
      show ?thesis by simp
    qed
  qed
qed

text \<open>Taking as often as there are items empties the store and delivers exactly the items.\<close>

lemma drain:
  "inv s \<Longrightarrow> store_run put get (replicate (length (items s)) Take) s = (xs, t) \<Longrightarrow>
   items t = [] \<and> mset xs = mset (items s)"
proof (induction "length (items s)" arbitrary: s xs)
  case 0
  then show ?case by simp
next
  case (Suc n)
  then have "get s \<noteq> None" using get_None by auto
  then obtain x s' where r: "get s = Some (x, s')" by auto
  have n: "n = length (items s')" using get_length [OF Suc.prems(1) r] Suc.hyps(2) by simp
  obtain ys where ys: "store_run put get (replicate n Take) s' = (ys, t)" "xs = x # ys"
    using Suc.prems(2) Suc.hyps(2) [symmetric] r by (auto split: prod.splits)
  from Suc.hyps(1) [OF n get_inv [OF Suc.prems(1) r]] ys n get_mset [OF Suc.prems(1) r]
  show ?case by simp
qed

end

end
