(* ===== verification/Event_Queue.thy ===== *)
theory Event_Queue
  imports Event_Types Ring Store_Interface
begin

text \<open>
  \<open>infrastructure/queues/app_event_queue.c\<close>: the bounded event queue, a ring of 64 slots with
  level coalescing, admission by priority, a fairness budget on the reading side and an
  optional critical section around every operation.  The second half shows that the ring
  implements a plain list of events.
\<close>

section \<open>State\<close>

datatype event_post_result =
  EVENT_POST_OK | EVENT_POST_COALESCED | EVENT_POST_BACKPRESSURE
| EVENT_POST_REJECTED_INVALID | EVENT_POST_OVERFLOW_ESCALATED

record app_event_queue_config =
  cfg_capacity :: nat
  cfg_reserved_critical :: nat
  cfg_reserved_measurement :: nat

abbreviation APP_EVENT_QUEUE_MAX_CAPACITY :: nat where "APP_EVENT_QUEUE_MAX_CAPACITY \<equiv> 64"

text \<open>
  \<open>cs_bound\<close> says that a critical-section port with both functions is bound
  (\<open>critical_section_port_is_valid\<close>); the calls made to it are part of each result.
\<close>

datatype cs_call = CsEnter bool | CsExit bool

record app_event_queue =
  q_buffer :: "app_event list"
  q_config :: app_event_queue_config
  q_head :: nat
  q_tail :: nat
  q_count :: nat
  q_critical_emergency :: bool
  q_overflow_count :: u32
  q_drop_count :: u32
  q_starvation_count :: u32
  q_consecutive_dequeue_count :: u8
  q_cs_bound :: bool

definition default_queue_config :: app_event_queue_config where
  "default_queue_config =
     \<lparr>cfg_capacity = 32, cfg_reserved_critical = 4, cfg_reserved_measurement = 4\<rparr>"

definition app_event_queue_init :: "app_event_queue_config option \<Rightarrow> app_event_queue" where
  "app_event_queue_init config =
     (let c0 = (case config of None \<Rightarrow> default_queue_config | Some c \<Rightarrow> c);
          c1 = (if cfg_capacity c0 > APP_EVENT_QUEUE_MAX_CAPACITY
                then c0\<lparr>cfg_capacity := APP_EVENT_QUEUE_MAX_CAPACITY\<rparr> else c0);
          c2 = (if cfg_reserved_critical c1 > cfg_capacity c1
                then c1\<lparr>cfg_reserved_critical := cfg_capacity c1\<rparr> else c1);
          c3 = (if cfg_reserved_measurement c2 > cfg_capacity c2
                then c2\<lparr>cfg_reserved_measurement := cfg_capacity c2\<rparr> else c2)
      in \<lparr>q_buffer = replicate APP_EVENT_QUEUE_MAX_CAPACITY zero_event, q_config = c3,
          q_head = 0, q_tail = 0, q_count = 0, q_critical_emergency = False,
          q_overflow_count = 0, q_drop_count = 0, q_starvation_count = 0,
          q_consecutive_dequeue_count = 0, q_cs_bound = False\<rparr>)"

section \<open>Posting\<close>

definition is_priority_critical :: "event_priority \<Rightarrow> bool" where
  "is_priority_critical prio = (prio = EVENT_PRIO_CRITICAL)"

definition is_priority_measurement :: "event_priority \<Rightarrow> bool" where
  "is_priority_measurement prio = (prio = EVENT_PRIO_MEASUREMENT)"

definition can_coalesce :: "event_delivery \<Rightarrow> bool" where
  "can_coalesce delivery = (delivery = DELIVERY_LEVEL)"

text \<open>The slot after \<open>i\<close> on the ring.\<close>

definition ring_next :: "nat \<Rightarrow> nat" where
  "ring_next i = (i + 1) mod APP_EVENT_QUEUE_MAX_CAPACITY"

fun coalesce_scan :: "app_event list \<Rightarrow> app_event \<Rightarrow> nat \<Rightarrow> nat \<Rightarrow> nat option" where
  "coalesce_scan buf evt i 0 = None"
| "coalesce_scan buf evt i (Suc n) =
     (if ev_id (buf ! i) = ev_id evt \<and> ev_source_id (buf ! i) = ev_source_id evt
         \<and> ev_delivery (buf ! i) = DELIVERY_LEVEL
      then Some i else coalesce_scan buf evt (ring_next i) n)"

definition find_coalesce_target :: "app_event_queue \<Rightarrow> app_event \<Rightarrow> nat option" where
  "find_coalesce_target q evt =
     (if \<not> can_coalesce (ev_delivery evt) then None
      else coalesce_scan (q_buffer q) evt (q_head q) (q_count q))"

definition enqueue_tail :: "app_event_queue \<Rightarrow> app_event \<Rightarrow> app_event_queue" where
  "enqueue_tail q event =
     q\<lparr>q_buffer := (q_buffer q)[q_tail q := event], q_tail := ring_next (q_tail q),
       q_count := q_count q + 1\<rparr>"

definition post_unlocked :: "app_event_queue \<Rightarrow> app_event \<Rightarrow> event_post_result \<times> app_event_queue" where
  "post_unlocked q event =
     (case (if can_coalesce (ev_delivery event) then find_coalesce_target q event else None) of
        Some idx \<Rightarrow> (EVENT_POST_COALESCED, q\<lparr>q_buffer := (q_buffer q)[idx := event]\<rparr>)
      | None \<Rightarrow>
        let is_background = (\<not> is_priority_critical (ev_priority event)
                             \<and> \<not> is_priority_measurement (ev_priority event));
            max_background = cfg_capacity (q_config q) - cfg_reserved_critical (q_config q)
        in if is_background \<and> q_count q \<ge> max_background
           then (EVENT_POST_BACKPRESSURE, q\<lparr>q_overflow_count := q_overflow_count q + 1\<rparr>)
           else if \<not> is_background \<and> q_count q \<ge> cfg_capacity (q_config q)
           then (if is_priority_critical (ev_priority event)
                 then (EVENT_POST_OVERFLOW_ESCALATED, q\<lparr>q_critical_emergency := True\<rparr>)
                 else (EVENT_POST_BACKPRESSURE, q\<lparr>q_overflow_count := q_overflow_count q + 1\<rparr>))
           else (EVENT_POST_OK, enqueue_tail q event))"

definition app_event_queue_bind_critical_section :: "app_event_queue \<Rightarrow> bool \<Rightarrow> bool \<times> app_event_queue" where
  "app_event_queue_bind_critical_section q port_valid =
     (if q_count q \<noteq> 0 \<or> \<not> port_valid then (False, q) else (True, q\<lparr>q_cs_bound := True\<rparr>))"

text \<open>The two posting entry points differ in the flag they pass to the critical section.\<close>

definition with_critical_section :: "bool \<Rightarrow> bool \<Rightarrow> cs_call list" where
  "with_critical_section locked from_isr =
     (if locked then [CsEnter from_isr, CsExit from_isr] else [])"

definition app_event_queue_post ::
  "app_event_queue \<Rightarrow> app_event option \<Rightarrow> event_post_result \<times> app_event_queue \<times> cs_call list" where
  "app_event_queue_post q event =
     (case event of None \<Rightarrow> (EVENT_POST_REJECTED_INVALID, q, [])
      | Some e \<Rightarrow> let (result, q') = post_unlocked q e
                  in (result, q', with_critical_section (q_cs_bound q) False))"

definition app_event_queue_post_from_isr ::
  "app_event_queue \<Rightarrow> app_event option \<Rightarrow> event_post_result \<times> app_event_queue \<times> cs_call list" where
  "app_event_queue_post_from_isr q event =
     (case event of None \<Rightarrow> (EVENT_POST_REJECTED_INVALID, q, [])
      | Some e \<Rightarrow> let (result, q') = post_unlocked q e
                  in (result, q', with_critical_section (q_cs_bound q) True))"

section \<open>Reading\<close>

fun best_scan :: "app_event list \<Rightarrow> bool \<Rightarrow> nat \<Rightarrow> nat \<Rightarrow> event_priority \<Rightarrow> nat \<Rightarrow> event_priority \<times> nat" where
  "best_scan buf force i 0 best_prio best_idx = (best_prio, best_idx)"
| "best_scan buf force i (Suc n) best_prio best_idx =
     (if \<not> force \<and> ev_priority (buf ! i) < best_prio
      then best_scan buf force (ring_next i) n (ev_priority (buf ! i)) i
      else best_scan buf force (ring_next i) n best_prio best_idx)"

fun shift_down :: "app_event list \<Rightarrow> nat \<Rightarrow> nat \<Rightarrow> app_event list" where
  "shift_down buf r 0 = buf"
| "shift_down buf r (Suc n) = shift_down (buf[r := buf ! ring_next r]) (ring_next r) n"

definition try_get_unlocked :: "app_event_queue \<Rightarrow> (app_event \<times> app_event_queue) option" where
  "try_get_unlocked q =
     (if q_count q = 0 then None
      else
        let force = (q_consecutive_dequeue_count q \<ge> 4);
            (best_prio, best_idx) =
              best_scan (q_buffer q) force (q_head q) (q_count q)
                (ev_priority (q_buffer q ! q_head q)) (q_head q);
            starvation = (if force \<and> best_prio = EVENT_PRIO_CRITICAL
                          then q_starvation_count q + 1 else q_starvation_count q);
            consecutive = (if \<not> force \<and> best_prio \<le> EVENT_PRIO_SHARED_RESOURCE
                           then q_consecutive_dequeue_count q + 1 else 0);
            event = q_buffer q ! best_idx;
            offset = (best_idx + APP_EVENT_QUEUE_MAX_CAPACITY - q_head q)
                     mod APP_EVENT_QUEUE_MAX_CAPACITY;
            remaining = q_count q - offset - 1
        in Some (event,
             q\<lparr>q_starvation_count := starvation, q_consecutive_dequeue_count := consecutive,
               q_buffer := shift_down (q_buffer q) best_idx remaining,
               q_tail := (q_tail q + APP_EVENT_QUEUE_MAX_CAPACITY - 1)
                         mod APP_EVENT_QUEUE_MAX_CAPACITY,
               q_count := q_count q - 1\<rparr>))"

definition app_event_queue_try_get ::
  "app_event_queue \<Rightarrow> app_event option \<times> app_event_queue \<times> cs_call list" where
  "app_event_queue_try_get q =
     (let calls = with_critical_section (q_cs_bound q) False
      in case try_get_unlocked q of
           None \<Rightarrow> (None, q, calls)
         | Some (e, q') \<Rightarrow> (Some e, q', calls))"

definition app_event_queue_get_count :: "app_event_queue \<Rightarrow> nat" where
  "app_event_queue_get_count q = q_count q"

definition app_event_queue_get_overflow_count :: "app_event_queue \<Rightarrow> u32" where
  "app_event_queue_get_overflow_count q = q_overflow_count q"

definition app_event_queue_get_drop_count :: "app_event_queue \<Rightarrow> u32" where
  "app_event_queue_get_drop_count q = q_drop_count q"

definition app_event_queue_get_starvation_count :: "app_event_queue \<Rightarrow> u32" where
  "app_event_queue_get_starvation_count q = q_starvation_count q"

section \<open>The ring implements a list\<close>

abbreviation CAP :: nat where "CAP \<equiv> APP_EVENT_QUEUE_MAX_CAPACITY"

definition contents :: "app_event_queue \<Rightarrow> app_event list" where
  "contents q = ring_list CAP (q_buffer q) (q_head q) (q_count q)"

definition queue_inv :: "app_event_queue \<Rightarrow> bool" where
  "queue_inv q \<longleftrightarrow>
     length (q_buffer q) = CAP \<and> q_head q < CAP \<and>
     q_count q \<le> cfg_capacity (q_config q) \<and> cfg_capacity (q_config q) \<le> CAP \<and>
     cfg_reserved_critical (q_config q) \<le> cfg_capacity (q_config q) \<and>
     q_tail q = (q_head q + q_count q) mod CAP \<and> unat (q_consecutive_dequeue_count q) \<le> 4"

lemma length_contents [simp]: "length (contents q) = q_count q"
  by (simp add: contents_def)

lemma init_queue_inv: "queue_inv (app_event_queue_init config)"
  by (auto simp: queue_inv_def app_event_queue_init_def Let_def default_queue_config_def)

lemma init_contents [simp]: "contents (app_event_queue_init config) = []"
  by (simp add: contents_def app_event_queue_init_def Let_def)

subsection \<open>Abstract operations\<close>

text \<open>First pending level event with the same identity.\<close>

definition same_level :: "app_event \<Rightarrow> app_event \<Rightarrow> bool" where
  "same_level e x \<longleftrightarrow>
     ev_id x = ev_id e \<and> ev_source_id x = ev_source_id e \<and> ev_delivery x = DELIVERY_LEVEL"

fun first_match :: "('a \<Rightarrow> bool) \<Rightarrow> 'a list \<Rightarrow> nat option" where
  "first_match P [] = None"
| "first_match P (x # xs) = (if P x then Some 0 else map_option Suc (first_match P xs))"

definition admission_limit :: "app_event_queue_config \<Rightarrow> event_priority \<Rightarrow> nat" where
  "admission_limit c p =
     (if p \<le> EVENT_PRIO_MEASUREMENT then cfg_capacity c
      else cfg_capacity c - cfg_reserved_critical c)"

definition abs_post :: "app_event_queue_config \<Rightarrow> app_event list \<Rightarrow> app_event \<Rightarrow> event_post_result \<times> app_event list" where
  "abs_post c xs e =
     (case (if ev_delivery e = DELIVERY_LEVEL then first_match (same_level e) xs else None) of
        Some k \<Rightarrow> (EVENT_POST_COALESCED, xs[k := e])
      | None \<Rightarrow>
          if length xs < admission_limit c (ev_priority e) then (EVENT_POST_OK, xs @ [e])
          else if ev_priority e = EVENT_PRIO_CRITICAL then (EVENT_POST_OVERFLOW_ESCALATED, xs)
          else (EVENT_POST_BACKPRESSURE, xs))"

text \<open>Position of the first event of the most urgent priority present.\<close>

fun pick_best :: "event_priority \<Rightarrow> nat \<Rightarrow> nat \<Rightarrow> app_event list \<Rightarrow> event_priority \<times> nat" where
  "pick_best p b k [] = (p, b)"
| "pick_best p b k (x # xs) =
     (if ev_priority x < p then pick_best (ev_priority x) k (Suc k) xs
      else pick_best p b (Suc k) xs)"

definition select_index :: "bool \<Rightarrow> app_event list \<Rightarrow> nat" where
  "select_index force xs = (if force then 0 else snd (pick_best (ev_priority (hd xs)) 0 0 xs))"

lemma pick_best_props:
  assumes "pick_best p b k xs = (p', b')" "b < k"
  shows "b' < k + length xs" and "p' \<le> p" and "\<forall>x \<in> set xs. p' \<le> ev_priority x"
    and "b' = b \<and> p' = p \<or> k \<le> b' \<and> p' < p \<and> ev_priority (xs ! (b' - k)) = p' \<and>
         (\<forall>j < b' - k. p' < ev_priority (xs ! j))"
proof -
  have "b' < k + length xs \<and> p' \<le> p \<and> (\<forall>x \<in> set xs. p' \<le> ev_priority x) \<and>
    (b' = b \<and> p' = p \<or> k \<le> b' \<and> p' < p \<and> ev_priority (xs ! (b' - k)) = p' \<and>
         (\<forall>j < b' - k. p' < ev_priority (xs ! j)))"
    using assms
  proof (induction p b k xs rule: pick_best.induct)
    case (1 p b k)
    then show ?case by simp
  next
    case (2 p b k x xs)
    show ?case
    proof (cases "ev_priority x < p")
      case True
      with "2.IH"(1) "2.prems" have
        IH: "b' < Suc k + length xs" "p' \<le> ev_priority x" "\<forall>x \<in> set xs. p' \<le> ev_priority x"
          "b' = k \<and> p' = ev_priority x \<or> Suc k \<le> b' \<and> p' < ev_priority x \<and>
            ev_priority (xs ! (b' - Suc k)) = p' \<and> (\<forall>j < b' - Suc k. p' < ev_priority (xs ! j))"
        by auto
      from IH(4) show ?thesis
      proof (elim disjE conjE)
        assume "b' = k" "p' = ev_priority x"
        with True IH show ?thesis by auto
      next
        assume h: "Suc k \<le> b'" "p' < ev_priority x" "ev_priority (xs ! (b' - Suc k)) = p'"
          "\<forall>j < b' - Suc k. p' < ev_priority (xs ! j)"
        have "b' - k = Suc (b' - Suc k)" using h(1) by simp
        with h True IH show ?thesis by (auto simp: nth_Cons split: nat.splits)
      qed
    next
      case False
      with "2.IH"(2) "2.prems" have
        IH: "b' < Suc k + length xs" "p' \<le> p" "\<forall>x \<in> set xs. p' \<le> ev_priority x"
          "b' = b \<and> p' = p \<or> Suc k \<le> b' \<and> p' < p \<and>
            ev_priority (xs ! (b' - Suc k)) = p' \<and> (\<forall>j < b' - Suc k. p' < ev_priority (xs ! j))"
        by auto
      from IH(4) show ?thesis
      proof (elim disjE conjE)
        assume "b' = b" "p' = p"
        with False IH show ?thesis by auto
      next
        assume h: "Suc k \<le> b'" "p' < p" "ev_priority (xs ! (b' - Suc k)) = p'"
          "\<forall>j < b' - Suc k. p' < ev_priority (xs ! j)"
        have "b' - k = Suc (b' - Suc k)" using h(1) by simp
        with h False IH show ?thesis by (auto simp: nth_Cons split: nat.splits)
      qed
    qed
  qed
  then show "b' < k + length xs" "p' \<le> p" "\<forall>x \<in> set xs. p' \<le> ev_priority x"
    "b' = b \<and> p' = p \<or> k \<le> b' \<and> p' < p \<and> ev_priority (xs ! (b' - k)) = p' \<and>
         (\<forall>j < b' - k. p' < ev_priority (xs ! j))" by blast+
qed

lemma pick_best_head:
  assumes "xs \<noteq> []"
  obtains i where "pick_best (ev_priority (hd xs)) 0 0 xs = (ev_priority (xs ! i), i)"
    "i < length xs" "\<forall>x \<in> set xs. ev_priority (xs ! i) \<le> ev_priority x"
    "\<forall>j < i. ev_priority (xs ! i) < ev_priority (xs ! j)"
proof -
  obtain x ys where xs: "xs = x # ys" using assms by (cases xs) auto
  obtain p i where pi: "pick_best (ev_priority x) 0 1 ys = (p, i)" by (metis surj_pair)
  note props = pick_best_props [OF pi]
  show ?thesis
  proof (rule that [of i])
    show "i < length xs" using props(1) xs by simp
    have eq: "ev_priority (xs ! i) = p" using props(4) xs by (auto simp: nth_Cons')
    show "pick_best (ev_priority (hd xs)) 0 0 xs = (ev_priority (xs ! i), i)"
      using pi eq by (simp add: xs)
    show "\<forall>x \<in> set xs. ev_priority (xs ! i) \<le> ev_priority x"
      unfolding eq using props(2,3) by (auto simp: xs)
    show "\<forall>j < i. ev_priority (xs ! i) < ev_priority (xs ! j)"
      unfolding eq using props(4) by (auto simp: xs nth_Cons')
  qed
qed

lemma select_index_props:
  assumes "xs \<noteq> []"
  shows select_index_lt: "select_index force xs < length xs"
    and select_index_min: "\<not> force \<Longrightarrow> \<forall>x \<in> set xs. ev_priority (xs ! select_index force xs) \<le> ev_priority x"
    and select_index_first: "\<forall>j < select_index force xs. ev_priority (xs ! select_index force xs) < ev_priority (xs ! j)"
proof -
  obtain i where i: "pick_best (ev_priority (hd xs)) 0 0 xs = (ev_priority (xs ! i), i)"
    "i < length xs" "\<forall>x \<in> set xs. ev_priority (xs ! i) \<le> ev_priority x"
    "\<forall>j < i. ev_priority (xs ! i) < ev_priority (xs ! j)"
    using pick_best_head [OF assms] .
  then have "select_index force xs = (if force then 0 else i)" by (simp add: select_index_def)
  with i assms show "select_index force xs < length xs"
    "\<not> force \<Longrightarrow> \<forall>x \<in> set xs. ev_priority (xs ! select_index force xs) \<le> ev_priority x"
    "\<forall>j < select_index force xs. ev_priority (xs ! select_index force xs) < ev_priority (xs ! j)"
    by (simp_all split: if_splits)
qed

definition abs_get :: "bool \<Rightarrow> app_event list \<Rightarrow> app_event \<times> app_event list" where
  "abs_get force xs = (let i = select_index force xs in (xs ! i, remove_nth i xs))"

subsection \<open>Simulation\<close>

lemma ring_next_add: "ring_next ((h + k) mod CAP) = (h + Suc k) mod CAP"
  by (simp add: ring_next_def mod_Suc_eq)

lemma shift_down_ring_shift: "shift_down buf r m = ring_shift CAP buf r m"
  by (induction m arbitrary: buf r) (auto simp: ring_next_def)

lemma coalesce_scan_list:
  "n \<le> CAP \<Longrightarrow> k \<le> n \<Longrightarrow>
   coalesce_scan buf e ((h + k) mod CAP) (n - k) =
   map_option (\<lambda>j. (h + k + j) mod CAP) (first_match (same_level e) (drop k (ring_list CAP buf h n)))"
proof (induction "n - k" arbitrary: k)
  case 0
  then show ?case by simp
next
  case (Suc m)
  then have k: "k < n" and m: "m = n - Suc k" by auto
  have drp: "drop k (ring_list CAP buf h n) = buf ! ((h + k) mod CAP) # drop (Suc k) (ring_list CAP buf h n)"
    using k by (simp add: Cons_nth_drop_Suc [symmetric])
  have nk: "n - k = Suc (n - Suc k)" using k by simp
  from Suc.hyps(1) [OF m] Suc.prems k show ?case
    unfolding nk drp by (simp add: same_level_def ring_next_add option.map_comp comp_def)
qed

lemma first_match_lt: "first_match P xs = Some k \<Longrightarrow> k < length xs \<and> P (xs ! k)"
  by (induction xs arbitrary: k) (auto split: if_splits)

lemma first_match_none: "first_match P xs = None \<longleftrightarrow> (\<forall>x \<in> set xs. \<not> P x)"
  by (induction xs) auto

lemma find_coalesce_contents:
  assumes "queue_inv q"
  shows "(if can_coalesce (ev_delivery e) then find_coalesce_target q e else None) =
    map_option (\<lambda>j. (q_head q + j) mod CAP)
      (if ev_delivery e = DELIVERY_LEVEL then first_match (same_level e) (contents q) else None)"
  using coalesce_scan_list [of "q_count q" 0 "q_buffer q" e "q_head q"] assms
  by (auto simp: find_coalesce_target_def can_coalesce_def contents_def queue_inv_def)

text \<open>Posting refines the list operation and keeps the invariant.\<close>

lemma background_iff: "(\<not> is_priority_critical p \<and> \<not> is_priority_measurement p) \<longleftrightarrow> \<not> p \<le> EVENT_PRIO_MEASUREMENT"
  by (cases p) (auto simp: is_priority_critical_def is_priority_measurement_def less_eq_event_priority_def)

lemma post_refines:
  assumes inv: "queue_inv q" and post: "post_unlocked q e = (r, q')"
  shows "abs_post (q_config q) (contents q) e = (r, contents q') \<and> queue_inv q' \<and> q_config q' = q_config q"
proof (cases "if ev_delivery e = DELIVERY_LEVEL then first_match (same_level e) (contents q) else None")
  case (Some k)
  then have lvl: "ev_delivery e = DELIVERY_LEVEL" "first_match (same_level e) (contents q) = Some k"
    by (simp_all split: if_splits)
  then have k: "k < q_count q" by (auto dest: first_match_lt)
  from inv have len: "length (q_buffer q) = CAP" "q_count q \<le> CAP" by (auto simp: queue_inv_def)
  from post have "r = EVENT_POST_COALESCED"
    "q' = q\<lparr>q_buffer := (q_buffer q)[(q_head q + k) mod CAP := e]\<rparr>"
    by (simp_all add: post_unlocked_def find_coalesce_contents [OF inv] Some)
  moreover from this have "contents q' = (contents q)[k := e]"
    using ring_list_update [OF len(1) k len(2)] by (simp add: contents_def)
  ultimately show ?thesis using lvl inv by (simp add: abs_post_def queue_inv_def)
next
  case None
  from inv have len: "length (q_buffer q) = CAP" "q_tail q = (q_head q + q_count q) mod CAP"
    "q_count q \<le> cfg_capacity (q_config q)" "cfg_capacity (q_config q) \<le> CAP"
    by (auto simp: queue_inv_def)
  have lim: "admission_limit (q_config q) (ev_priority e) \<le> cfg_capacity (q_config q)"
    by (simp add: admission_limit_def)
  show ?thesis
  proof (cases "q_count q < admission_limit (q_config q) (ev_priority e)")
    case True
    with lim len have n: "q_count q < CAP" by simp
    from True post have "r = EVENT_POST_OK" "q' = enqueue_tail q e"
      by (auto simp: post_unlocked_def find_coalesce_contents [OF inv] None background_iff
          admission_limit_def Let_def split: if_splits)
    moreover have "contents (enqueue_tail q e) = contents q @ [e]"
      using ring_list_snoc [OF len(1) n, of "q_head q" e] len
      by (simp add: contents_def enqueue_tail_def)
    moreover have "queue_inv (enqueue_tail q e)"
      using inv True lim n len by (auto simp: queue_inv_def enqueue_tail_def ring_next_add)
    ultimately show ?thesis using None True by (simp add: abs_post_def enqueue_tail_def)
  next
    case False
    with post None inv show ?thesis
      by (auto simp: post_unlocked_def find_coalesce_contents [OF inv] background_iff
          admission_limit_def Let_def abs_post_def contents_def queue_inv_def
          is_priority_critical_def is_priority_measurement_def less_eq_event_priority_def split: if_splits)
  qed
qed

lemma best_scan_list:
  assumes "n \<le> CAP" "k \<le> n"
  shows "best_scan buf force ((h + k) mod CAP) (n - k) p ((h + b) mod CAP) =
    (if force then (p, (h + b) mod CAP)
     else map_prod id (\<lambda>j. (h + j) mod CAP) (pick_best p b k (drop k (ring_list CAP buf h n))))"
  using assms
proof (induction "n - k" arbitrary: k p b)
  case 0
  then show ?case by simp
next
  case (Suc m)
  then have k: "k < n" and m: "m = n - Suc k" by auto
  have drp: "drop k (ring_list CAP buf h n) = buf ! ((h + k) mod CAP) # drop (Suc k) (ring_list CAP buf h n)"
    using k by (simp add: Cons_nth_drop_Suc [symmetric])
  have nk: "n - k = Suc (n - Suc k)" using k by simp
  show ?case
  proof (cases force)
    case True
    then show ?thesis using Suc.hyps(1) [OF m, of p b] Suc.prems k
      unfolding nk drp by (simp add: ring_next_add)
  next
    case False
    then show ?thesis
      using Suc.hyps(1) [OF m, of p b] Suc.hyps(1) [OF m, of "ev_priority (buf ! ((h + k) mod CAP))" k]
        Suc.prems k
      unfolding nk drp by (simp add: ring_next_add)
  qed
qed

lemma get_refines:
  assumes inv: "queue_inv q" and ne: "q_count q \<noteq> 0"
  obtains e q' where "try_get_unlocked q = Some (e, q')"
    "abs_get (q_consecutive_dequeue_count q \<ge> 4) (contents q) = (e, contents q')"
    "queue_inv q'" "q_config q' = q_config q"
    "q_consecutive_dequeue_count q' =
      (if q_consecutive_dequeue_count q < 4 \<and> ev_priority e \<le> EVENT_PRIO_SHARED_RESOURCE
       then q_consecutive_dequeue_count q + 1 else 0)"
proof -
  let ?f = "q_consecutive_dequeue_count q \<ge> 4"
  let ?i = "select_index ?f (contents q)"
  let ?q = "q\<lparr>q_buffer := shift_down (q_buffer q) ((q_head q + ?i) mod CAP) (q_count q - ?i - 1),
    q_tail := (q_tail q + CAP - 1) mod CAP, q_count := q_count q - 1\<rparr>"
  from inv have len: "length (q_buffer q) = CAP" "q_tail q = (q_head q + q_count q) mod CAP"
    "q_count q \<le> CAP" "q_head q < CAP" by (auto simp: queue_inv_def)
  have cne: "contents q \<noteq> []" using ne by (simp add: contents_def)
  have i: "?i < q_count q" using select_index_lt [OF cne] by simp
  have hd: "hd (contents q) = q_buffer q ! q_head q" using ne len cne by (simp add: hd_conv_nth contents_def)
  have scan: "best_scan (q_buffer q) ?f (q_head q) (q_count q)
      (ev_priority (q_buffer q ! q_head q)) (q_head q) =
    (ev_priority (contents q ! ?i), (q_head q + ?i) mod CAP)"
  proof -
    obtain j where j: "pick_best (ev_priority (hd (contents q))) 0 0 (contents q) =
      (ev_priority (contents q ! j), j)" using pick_best_head [OF cne] by metis
    then have "?i = (if ?f then 0 else j)" by (simp add: select_index_def)
    with j best_scan_list [of "q_count q" 0 "q_buffer q" ?f "q_head q" "ev_priority (hd (contents q))" 0] len ne
    show ?thesis by (auto simp: contents_def [symmetric] hd hd_conv_nth [OF cne, symmetric])
  qed
  have nth: "q_buffer q ! ((q_head q + ?i) mod CAP) = contents q ! ?i"
    using i by (simp add: contents_def)
  have off: "((q_head q + ?i) mod CAP + CAP - q_head q) mod CAP = ?i"
    using ring_offset [of "q_head q" CAP ?i] len i by simp
  let ?p = "ev_priority (contents q ! ?i)"
  have get: "try_get_unlocked q = Some (contents q ! ?i,
      ?q\<lparr>q_starvation_count := (if ?f \<and> ?p = EVENT_PRIO_CRITICAL
          then q_starvation_count q + 1 else q_starvation_count q),
        q_consecutive_dequeue_count := (if \<not> ?f \<and> ?p \<le> EVENT_PRIO_SHARED_RESOURCE
          then q_consecutive_dequeue_count q + 1 else 0)\<rparr>)"
    using ne by (simp add: try_get_unlocked_def scan Let_def nth off)
  have tail: "(q_tail q + CAP - 1) mod CAP = (q_head q + (q_count q - 1)) mod CAP"
    using ring_tail_back [of CAP "q_count q" "q_head q"] len ne by simp
  have cont: "contents ?q = remove_nth ?i (contents q)"
    using ring_shift_remove [OF len(1) i len(3), of "q_head q"]
    by (simp add: contents_def shift_down_ring_shift)
  have c4: "unat (q_consecutive_dequeue_count q + 1) \<le> 4" if "q_consecutive_dequeue_count q < 4"
    using that by unat_arith
  show ?thesis
  proof (rule that [OF get])
    show "abs_get ?f (contents q) = (contents q ! ?i, contents (?q\<lparr>q_starvation_count := (if ?f \<and> ?p = EVENT_PRIO_CRITICAL
          then q_starvation_count q + 1 else q_starvation_count q),
        q_consecutive_dequeue_count := (if \<not> ?f \<and> ?p \<le> EVENT_PRIO_SHARED_RESOURCE
          then q_consecutive_dequeue_count q + 1 else 0)\<rparr>))"
      using cont by (simp add: abs_get_def Let_def contents_def)
  qed (use inv tail c4 in \<open>auto simp: queue_inv_def shift_down_ring_shift not_le\<close>)
qed

lemma try_get_None_iff: "try_get_unlocked q = None \<longleftrightarrow> q_count q = 0"
  by (auto simp: try_get_unlocked_def Let_def split: prod.splits)

lemma get_refinesD:
  assumes "queue_inv q" "try_get_unlocked q = Some (e, q')"
  shows "abs_get (q_consecutive_dequeue_count q \<ge> 4) (contents q) = (e, contents q') \<and>
    queue_inv q' \<and> q_config q' = q_config q \<and>
    q_consecutive_dequeue_count q' =
      (if q_consecutive_dequeue_count q < 4 \<and> ev_priority e \<le> EVENT_PRIO_SHARED_RESOURCE
       then q_consecutive_dequeue_count q + 1 else 0)"
proof -
  have "q_count q \<noteq> 0" using assms(2) try_get_None_iff [of q] by auto
  from get_refines [OF assms(1) this] assms(2) show ?thesis by (metis option.inject prod.inject)
qed

section \<open>The queue as a bounded store\<close>

definition q_put :: "app_event_queue \<Rightarrow> app_event \<Rightarrow> app_event_queue" where
  "q_put q e = snd (post_unlocked q e)"

lemma q_put_cases:
  assumes "queue_inv q"
  obtains r where "post_unlocked q e = (r, q_put q e)"
    "abs_post (q_config q) (contents q) e = (r, contents (q_put q e))"
    "queue_inv (q_put q e)" "q_config (q_put q e) = q_config q"
  using post_refines [OF assms, of e "fst (post_unlocked q e)" "q_put q e"]
    that [of "fst (post_unlocked q e)"]
  by (simp add: q_put_def)

lemma abs_post_items:
  "abs_post c xs e = (r, ys) \<Longrightarrow>
   ys = xs \<or> ys = xs @ [e] \<or> (\<exists>k < length xs. ys = xs[k := e])"
  by (auto simp: abs_post_def dest!: first_match_lt split: option.splits if_splits)

interpretation eq: bounded_store contents "\<lambda>q. cfg_capacity (q_config q)" queue_inv q_put try_get_unlocked
proof unfold_locales
  fix q e assume inv: "queue_inv q"
  obtain r where "post_unlocked q e = (r, q_put q e)"
    and abs: "abs_post (q_config q) (contents q) e = (r, contents (q_put q e))"
    and q': "queue_inv (q_put q e)" "q_config (q_put q e) = q_config q"
    using q_put_cases [OF inv, of e] by metis
  show "queue_inv (q_put q e)" by (rule q')
  show "cfg_capacity (q_config (q_put q e)) = cfg_capacity (q_config q)" by (simp add: q')
  show "contents (q_put q e) = contents q \<or> contents (q_put q e) = contents q @ [e] \<or>
    (\<exists>k < length (contents q). contents (q_put q e) = (contents q)[k := e])"
    by (rule abs_post_items [OF abs])
next
  fix q assume inv: "queue_inv q"
  then show "length (contents q) \<le> cfg_capacity (q_config q)" by (simp add: queue_inv_def)
  show "try_get_unlocked q = None \<longleftrightarrow> contents q = []"
    by (simp add: try_get_None_iff contents_def)
next
  fix q e q' assume inv: "queue_inv q" and get: "try_get_unlocked q = Some (e, q')"
  from get_refinesD [OF inv get] have abs:
    "abs_get (q_consecutive_dequeue_count q \<ge> 4) (contents q) = (e, contents q')" by simp
  have "contents q \<noteq> []" using get try_get_None_iff [of q] by (auto simp: contents_def)
  from select_index_lt [OF this] abs
  show "\<exists>k < length (contents q). e = contents q ! k \<and> contents q' = remove_nth k (contents q)"
    by (auto simp: abs_get_def Let_def
        intro!: exI [of _ "select_index (4 \<le> q_consecutive_dequeue_count q) (contents q)"])
  show "queue_inv q'" "cfg_capacity (q_config q') = cfg_capacity (q_config q)"
    using get_refinesD [OF inv get] by simp_all
qed

section \<open>Fairness\<close>

text \<open>What a run of operations serves: for each event delivered, whether it was the oldest one.\<close>

fun served :: "app_event store_op list \<Rightarrow> app_event_queue \<Rightarrow> (bool \<times> app_event) list" where
  "served [] q = []"
| "served (Put e # ops) q = served ops (q_put q e)"
| "served (Take # ops) q =
     (case try_get_unlocked q of
        None \<Rightarrow> served ops q
      | Some (e, q') \<Rightarrow> (e = hd (contents q), e) # served ops q')"

definition overtakes :: "bool \<times> app_event \<Rightarrow> bool" where
  "overtakes r \<longleftrightarrow> \<not> fst r \<and> ev_priority (snd r) \<le> EVENT_PRIO_SHARED_RESOURCE"

lemma q_put_consecutive: "q_consecutive_dequeue_count (q_put q e) = q_consecutive_dequeue_count q"
  by (auto simp: q_put_def post_unlocked_def enqueue_tail_def Let_def split: option.splits)

lemma forced_get_oldest:
  assumes "queue_inv q" "try_get_unlocked q = Some (e, q')" "e \<noteq> hd (contents q)"
  shows "q_consecutive_dequeue_count q < 4"
proof -
  have "contents q \<noteq> []" using assms(2) try_get_None_iff [of q] by (auto simp: contents_def)
  then show ?thesis
    using get_refinesD [OF assms(1,2)] assms(3)
    by (auto simp: abs_get_def Let_def select_index_def hd_conv_nth not_less split: if_splits)
qed

lemma overtaking_bounded:
  "queue_inv q \<Longrightarrow> n \<le> length (served ops q) \<Longrightarrow> \<forall>i < n. overtakes (served ops q ! i) \<Longrightarrow>
   n + unat (q_consecutive_dequeue_count q) \<le> 4"
proof (induction ops q arbitrary: n rule: served.induct)
  case (1 q)
  then show ?case by (simp add: queue_inv_def)
next
  case (2 e ops q)
  then show ?case using eq.put_inv [OF "2.prems"(1), of e] by (simp add: q_put_consecutive)
next
  case (3 ops q)
  show ?case
  proof (cases "try_get_unlocked q")
    case None
    with 3 show ?thesis by simp
  next
    case (Some r)
    obtain e q' where get: "try_get_unlocked q = Some (e, q')" using Some by (cases r) auto
    note ref = get_refinesD [OF "3.prems"(1) get]
    show ?thesis
    proof (cases n)
      case 0
      with "3.prems"(1) show ?thesis by (simp add: queue_inv_def)
    next
      case (Suc m)
      then have o: "overtakes (e = hd (contents q), e)" using "3.prems"(3) get by auto
      then have lt: "q_consecutive_dequeue_count q < 4"
        using forced_get_oldest [OF "3.prems"(1) get] by (simp add: overtakes_def)
      with o ref have c: "q_consecutive_dequeue_count q' = q_consecutive_dequeue_count q + 1"
        by (simp add: overtakes_def)
      from lt have u: "unat (q_consecutive_dequeue_count q + 1) = unat (q_consecutive_dequeue_count q) + 1"
        by (intro unat_inc) (simp add: word_less_nat_alt)
      have "m + unat (q_consecutive_dequeue_count q') \<le> 4"
      proof (rule "3.IH"(2) [OF get refl])
        show "queue_inv q'" using ref by simp
        show "m \<le> length (served ops q')" using "3.prems"(2) get Suc by simp
        show "\<forall>i < m. overtakes (served ops q' ! i)" using "3.prems"(3) get Suc by fastforce
      qed
      with Suc c u show ?thesis by simp
    qed
  qed
qed

section \<open>Properties\<close>

text \<open>C4: posting on the ring implements the list operation \<open>abs_post\<close> (coalesce in place, append
  while the count is below the limit of the event's priority, refuse otherwise) with the same
  result code, and keeps the ring's invariant.\<close>

theorem queue_post_refines:
  assumes "queue_inv q" "post_unlocked q e = (r, q')"
  shows "abs_post (q_config q) (contents q) e = (r, contents q') \<and> queue_inv q' \<and> q_config q' = q_config q"
  by (rule post_refines [OF assms])

lemma queue_post_refines_witness:
  "let q = app_event_queue_init None; q' = q_put q zero_event
   in abs_post (q_config q) (contents q) zero_event = (EVENT_POST_OK, contents q') \<and> queue_inv q' \<and> q_config q' = q_config q"
  unfolding Let_def by (rule queue_post_refines [OF init_queue_inv]) code_simp

text \<open>C12: a successful read removes exactly one event from the list: the oldest one when the fairness
  budget is exhausted, otherwise the oldest among those of the most urgent priority present.\<close>

theorem queue_get_selects:
  assumes "queue_inv q" "try_get_unlocked q = Some (e, q')"
  shows "\<exists>i < length (contents q). e = contents q ! i \<and> contents q' = remove_nth i (contents q) \<and>
    (if q_consecutive_dequeue_count q \<ge> 4 then i = 0
     else (\<forall>x \<in> set (contents q). ev_priority e \<le> ev_priority x) \<and>
          (\<forall>j < i. ev_priority e < ev_priority (contents q ! j)))"
proof -
  have ne: "contents q \<noteq> []" using assms(2) try_get_None_iff [of q] by (auto simp: contents_def)
  let ?i = "select_index (q_consecutive_dequeue_count q \<ge> 4) (contents q)"
  from get_refinesD [OF assms] have "e = contents q ! ?i" "contents q' = remove_nth ?i (contents q)"
    by (auto simp: abs_get_def Let_def)
  moreover have "q_consecutive_dequeue_count q \<ge> 4 \<Longrightarrow> ?i = 0" by (simp add: select_index_def)
  ultimately show ?thesis
    using select_index_lt [OF ne] select_index_min [OF ne] select_index_first [OF ne]
    by (intro exI [of _ ?i]) simp
qed

lemma queue_get_selects_witness:
  "try_get_unlocked (q_put (app_event_queue_init None) zero_event) \<noteq> None"
proof -
  let ?q = "q_put (app_event_queue_init None) zero_event"
  have inv: "queue_inv ?q" using eq.put_inv [OF init_queue_inv] .
  have "q_count ?q \<noteq> 0" by code_simp
  then obtain e q' where g: "try_get_unlocked ?q = Some (e, q')"
    using try_get_None_iff [of ?q] by (cases "try_get_unlocked ?q") auto
  with queue_get_selects [OF inv g] show ?thesis by simp
qed

text \<open>Over any interleaving of posts and reads from an initialised queue, the events delivered
  together with those still queued are contained, with multiplicity, in the events posted.\<close>

theorem queue_delivers_at_most_once:
  assumes "store_run q_put try_get_unlocked ops (app_event_queue_init config) = (xs, q)"
  shows "mset xs + mset (contents q) \<subseteq># mset (puts ops) \<and>
    length (contents q) \<le> cfg_capacity (q_config q)"
  using eq.run_conserves [OF init_queue_inv assms] eq.inv_bound by auto

lemma queue_delivers_at_most_once_witness:
  "mset (fst (store_run q_put try_get_unlocked [Put zero_event, Take] (app_event_queue_init None)))
     \<subseteq># {#zero_event#}"
  using queue_delivers_at_most_once [of "[Put zero_event, Take]" None
      "fst (store_run q_put try_get_unlocked [Put zero_event, Take] (app_event_queue_init None))"
      "snd (store_run q_put try_get_unlocked [Put zero_event, Take] (app_event_queue_init None))"]
  by (auto intro: subset_mset.order_trans [OF mset_subset_eq_add_left])

text \<open>A critical event is never dropped silently: it is queued, merged into a pending level event,
  or the sticky emergency flag is raised and the escalation code returned.\<close>

theorem critical_event_never_silent:
  assumes "queue_inv q" "ev_priority e = EVENT_PRIO_CRITICAL" "post_unlocked q e = (r, q')"
  shows "(r = EVENT_POST_OK \<and> contents q' = contents q @ [e]) \<or>
    (r = EVENT_POST_COALESCED \<and> e \<in> set (contents q')) \<or>
    (r = EVENT_POST_OVERFLOW_ESCALATED \<and> q_critical_emergency q' \<and>
     q_count q = cfg_capacity (q_config q))"
proof -
  have emerg: "r = EVENT_POST_OVERFLOW_ESCALATED \<Longrightarrow> q_critical_emergency q'"
    using assms(3) by (auto simp: post_unlocked_def Let_def split: option.splits if_splits)
  from post_refines [OF assms(1,3)] have
    abs: "abs_post (q_config q) (contents q) e = (r, contents q')" by simp
  have upd: "k < q_count q \<Longrightarrow> (contents q)[k := e] = contents q' \<Longrightarrow> e \<in> set (contents q')" for k
    by (metis length_contents set_update_memI)
  show ?thesis
    using abs emerg assms(1,2)
    by (auto simp: abs_post_def queue_inv_def admission_limit_def less_eq_event_priority_def
        split: option.splits if_splits dest!: first_match_lt intro: upd)
qed

lemma critical_event_never_silent_witness:
  "fst (post_unlocked (app_event_queue_init (Some \<lparr>cfg_capacity = 0, cfg_reserved_critical = 0,
     cfg_reserved_measurement = 0\<rparr>)) zero_event) = EVENT_POST_OVERFLOW_ESCALATED"
  (is "fst (post_unlocked ?q zero_event) = _")
proof -
  have "ev_priority zero_event = EVENT_PRIO_CRITICAL" by (simp add: zero_event_def)
  from critical_event_never_silent [OF init_queue_inv this, of _ "fst (post_unlocked ?q zero_event)"
      "snd (post_unlocked ?q zero_event)"]
  show ?thesis by code_simp
qed

text \<open>No starvation by urgent traffic: among any five successive deliveries, with any posts in
  between, at least one hands out the oldest queued event or an event of the two lowest classes.\<close>

theorem five_deliveries_include_oldest:
  assumes "queue_inv q" "5 \<le> length (served ops q)"
  shows "\<exists>i < 5. fst (served ops q ! i) \<or> \<not> ev_priority (snd (served ops q ! i)) \<le> EVENT_PRIO_SHARED_RESOURCE"
  using overtaking_bounded [OF assms] by (auto simp: overtakes_def)

lemma five_deliveries_include_oldest_witness:
  "\<exists>i < 5. fst (served (replicate 5 (Put zero_event) @ replicate 5 Take) (app_event_queue_init None) ! i) \<or>
    \<not> ev_priority (snd (served (replicate 5 (Put zero_event) @ replicate 5 Take) (app_event_queue_init None) ! i))
      \<le> EVENT_PRIO_SHARED_RESOURCE"
  by (rule five_deliveries_include_oldest [OF init_queue_inv]) code_simp

section \<open>Reservations\<close>

text \<open>Background posts stop short of the slots reserved for critical events.\<close>

lemma background_leaves_reserve:
  assumes "queue_inv q" "\<not> ev_priority e \<le> EVENT_PRIO_MEASUREMENT" "post_unlocked q e = (EVENT_POST_OK, q')"
  shows "q_count q' + cfg_reserved_critical (q_config q) \<le> cfg_capacity (q_config q)"
  using assms post_refines [OF assms(1,3)]
  by (auto simp: abs_post_def admission_limit_def post_unlocked_def enqueue_tail_def Let_def queue_inv_def
      background_iff split: option.splits if_splits)

text \<open>The measurement reservation of the configuration is read by no operation.\<close>

lemma measurement_reservation_unused:
  "post_unlocked (q\<lparr>q_config := (q_config q)\<lparr>cfg_reserved_measurement := n\<rparr>\<rparr>) e =
   map_prod id (\<lambda>q'. q'\<lparr>q_config := (q_config q')\<lparr>cfg_reserved_measurement := n\<rparr>\<rparr>) (post_unlocked q e)"
  by (auto simp: post_unlocked_def find_coalesce_target_def enqueue_tail_def Let_def split: option.splits)

text \<open>Measurement traffic may use every slot, so the critical reservation does not protect
  critical events against it.\<close>

lemma measurement_exhausts_critical_reserve:
  "let q0 = app_event_queue_init (Some \<lparr>cfg_capacity = 1, cfg_reserved_critical = 1, cfg_reserved_measurement = 0\<rparr>);
       m = zero_event\<lparr>ev_priority := EVENT_PRIO_MEASUREMENT\<rparr>
   in fst (post_unlocked q0 m) = EVENT_POST_OK \<and>
      fst (post_unlocked (q_put q0 m) zero_event) = EVENT_POST_OVERFLOW_ESCALATED"
  by code_simp

end
