(* ===== verification/Scheduler.thy ===== *)
theory Scheduler
  imports Event_Types
begin

text \<open>
  The deadline scheduler (infrastructure/time/monotonic_scheduler.c, scheduler.h).

  \<open>jobs[0 .. job_count - 1]\<close> is the dense prefix of an array whose other entries are never read;
  it is the list \<open>scheduler\<close>, so that \<open>job_count\<close> is its length and \<open>remove_job_at\<close>
  removes an element.  \<open>monotonic_now_us\<close> is code of the platform: its reading is an argument,
  and where one call reads it repeatedly the argument gives the k-th reading.
\<close>

section \<open>Data\<close>

datatype miss_policy = MISS_POLICY_SKIP | MISS_POLICY_SIGNAL_ONCE | MISS_POLICY_OWNER_SPECIFIC

datatype schedule_result =
    SCHEDULE_OK | SCHEDULE_REJECTED_INVALID_PERIOD | SCHEDULE_REJECTED_DUPLICATE_ID
  | SCHEDULE_REJECTED_FULL | SCHEDULE_CANCELLED | SCHEDULE_NOT_FOUND

record scheduler_job =
  sj_job_id :: u16
  sj_owner_id :: u32
  sj_event_id :: event_id
  sj_deadline_us :: u64
  sj_anchor_us :: u64
  sj_period_us :: u64
  sj_generation :: u32
  sj_mode_mask :: u32
  sj_miss_policy :: miss_policy
  sj_priority :: event_priority
  sj_pending :: bool

abbreviation SCHEDULER_MAX_JOBS :: nat where "SCHEDULER_MAX_JOBS \<equiv> 16"

type_synonym scheduler = "scheduler_job list"

section \<open>Operations\<close>

definition scheduler_init :: scheduler where
  "scheduler_init = []"

fun find_job :: "scheduler \<Rightarrow> u16 \<Rightarrow> nat option" where
  "find_job [] i = None"
| "find_job (j # js) i = (if sj_job_id j = i then Some 0 else map_option Suc (find_job js i))"

definition remove_job_at :: "nat \<Rightarrow> scheduler \<Rightarrow> scheduler" where
  "remove_job_at i js = (if i < length js then remove_nth i js else js)"

definition is_deadline_passed :: "u64 \<Rightarrow> u64 \<Rightarrow> bool" where
  "is_deadline_passed deadline now \<longleftrightarrow> deadline \<le> now"

definition next_anchored :: "u64 \<Rightarrow> u64 \<Rightarrow> u64 \<Rightarrow> u64" where
  "next_anchored anchor period now =
     (if period = 0 then anchor
      else if anchor > now then anchor
      else let elapsed = now - anchor;
               periods = elapsed div period;
               next = anchor + (periods + 1) * period
           in if next < anchor then now else next)"

definition scheduler_schedule_one_shot ::
    "scheduler \<Rightarrow> u16 \<Rightarrow> u32 \<Rightarrow> event_id \<Rightarrow> u64 \<Rightarrow> u32 \<Rightarrow> event_priority \<Rightarrow> schedule_result \<times> scheduler" where
  "scheduler_schedule_one_shot js job_id owner_id event_id deadline_us generation priority =
     (if length js \<ge> SCHEDULER_MAX_JOBS then (SCHEDULE_REJECTED_FULL, js)
      else if find_job js job_id \<noteq> None then (SCHEDULE_REJECTED_DUPLICATE_ID, js)
      else (SCHEDULE_OK, js @
        [\<lparr>sj_job_id = job_id, sj_owner_id = owner_id, sj_event_id = event_id, sj_deadline_us = deadline_us,
          sj_anchor_us = deadline_us, sj_period_us = 0, sj_generation = generation, sj_mode_mask = 0xFFFFFFFF,
          sj_miss_policy = MISS_POLICY_SKIP, sj_priority = priority, sj_pending = False\<rparr>]))"

definition scheduler_schedule_periodic ::
    "scheduler \<Rightarrow> u16 \<Rightarrow> u32 \<Rightarrow> event_id \<Rightarrow> u64 \<Rightarrow> u64 \<Rightarrow> u32 \<Rightarrow> miss_policy \<Rightarrow> event_priority \<Rightarrow> u64
     \<Rightarrow> schedule_result \<times> scheduler" where
  "scheduler_schedule_periodic js job_id owner_id event_id anchor_us period_us generation policy priority now =
     (if period_us = 0 then (SCHEDULE_REJECTED_INVALID_PERIOD, js)
      else if length js \<ge> SCHEDULER_MAX_JOBS then (SCHEDULE_REJECTED_FULL, js)
      else if find_job js job_id \<noteq> None then (SCHEDULE_REJECTED_DUPLICATE_ID, js)
      else (SCHEDULE_OK, js @
        [\<lparr>sj_job_id = job_id, sj_owner_id = owner_id, sj_event_id = event_id,
          sj_deadline_us = next_anchored anchor_us period_us now,
          sj_anchor_us = anchor_us, sj_period_us = period_us, sj_generation = generation, sj_mode_mask = 0xFFFFFFFF,
          sj_miss_policy = policy, sj_priority = priority, sj_pending = False\<rparr>]))"

definition scheduler_cancel :: "scheduler \<Rightarrow> u16 \<Rightarrow> u32 \<Rightarrow> schedule_result \<times> scheduler" where
  "scheduler_cancel js job_id expected_generation =
     (case find_job js job_id of
        None \<Rightarrow> (SCHEDULE_NOT_FOUND, js)
      | Some i \<Rightarrow> if sj_generation (js ! i) \<noteq> expected_generation then (SCHEDULE_NOT_FOUND, js)
                  else (SCHEDULE_CANCELLED, remove_job_at i js))"

definition scheduler_acknowledge :: "scheduler \<Rightarrow> u16 \<Rightarrow> u32 \<Rightarrow> bool \<times> scheduler" where
  "scheduler_acknowledge js job_id expected_generation =
     (case find_job js job_id of
        None \<Rightarrow> (False, js)
      | Some i \<Rightarrow>
          if sj_generation (js ! i) \<noteq> expected_generation \<or> \<not> sj_pending (js ! i) then (False, js)
          else (True, js[i := (js ! i)\<lparr>sj_pending := False\<rparr>]))"

definition due_event :: "u64 \<Rightarrow> scheduler_job \<Rightarrow> app_event" where
  "due_event stamp j = zero_event\<lparr>ev_id := sj_event_id j, ev_source_id := sj_owner_id j, ev_priority := sj_priority j,
     ev_delivery := DELIVERY_DEADLINE, ev_correlation_id := ucast (sj_job_id j),
     ev_source_generation := sj_generation j, ev_monotonic_timestamp_us := stamp\<rparr>"

text \<open>The body of the loop for one job: the entry that stays in the table (None: removed) and
  whether the job fires.\<close>

definition visit_job :: "u64 \<Rightarrow> scheduler_job \<Rightarrow> scheduler_job option \<times> bool" where
  "visit_job now j =
     (if \<not> is_deadline_passed (sj_deadline_us j) now then (Some j, False)
      else if sj_pending j then
        (if sj_miss_policy j = MISS_POLICY_SKIP then
           (if sj_period_us j > 0
            then (Some (j\<lparr>sj_deadline_us := next_anchored (sj_anchor_us j) (sj_period_us j) now, sj_pending := False\<rparr>), False)
            else (None, False))
         else (Some j, False))
      else
        (if sj_period_us j > 0
         then (Some (j\<lparr>sj_pending := True, sj_deadline_us := next_anchored (sj_anchor_us j) (sj_period_us j) now\<rparr>), True)
         else (None, True)))"

text \<open>The loop over the table: \<open>k\<close> events dispatched so far, \<open>limit\<close> is \<open>max_events\<close>.  Removing
  the current entry moves the following ones down, so the loop visits each entry once.\<close>

fun dispatch_loop :: "(nat \<Rightarrow> u64) \<Rightarrow> u64 \<Rightarrow> nat \<Rightarrow> nat \<Rightarrow> scheduler \<Rightarrow> app_event list \<times> scheduler" where
  "dispatch_loop clock now limit k [] = ([], [])"
| "dispatch_loop clock now limit k (j # js) =
     (if k \<ge> limit then ([], j # js)
      else
        let (entry, fires) = visit_job now j;
            (evs, js') = dispatch_loop clock now limit (if fires then Suc k else k) js
        in (if fires then due_event (clock k) j # evs else evs,
            (case entry of None \<Rightarrow> js' | Some j' \<Rightarrow> j' # js')))"

definition scheduler_dispatch_due :: "(nat \<Rightarrow> u64) \<Rightarrow> scheduler \<Rightarrow> u64 \<Rightarrow> u8 \<Rightarrow> app_event list \<times> scheduler" where
  "scheduler_dispatch_due clock js now max_events = dispatch_loop clock now (unat max_events) 0 js"

definition scheduler_get_next_deadline :: "scheduler \<Rightarrow> u64 option" where
  "scheduler_get_next_deadline js =
     (case js of [] \<Rightarrow> None
      | j # js' \<Rightarrow> Some (fold (\<lambda>j e. if sj_deadline_us j < e then sj_deadline_us j else e) js' (sj_deadline_us j)))"

section \<open>Periodic deadlines\<close>

lemma next_anchored_past:
  assumes "0 < unat period" "unat anchor \<le> unat now"
    and "unat anchor + ((unat now - unat anchor) div unat period + 1) * unat period < 2 ^ 64"
  shows "unat (next_anchored anchor period now) =
     unat anchor + ((unat now - unat anchor) div unat period + 1) * unat period"
proof -
  let ?q = "(unat now - unat anchor) div unat period"
  let ?e = "((now - anchor) div period + 1) * period"
  have le: "anchor \<le> now" using assms(2) by (simp add: word_le_nat_alt)
  have q: "unat ((now - anchor) div period) = ?q" using le by (simp add: unat_div unat_sub)
  have lt: "(?q + 1) * unat period < 2 ^ 64" using assms(3) by linarith
  have "(?q + 1) * 1 \<le> (?q + 1) * unat period" using assms(1) by (intro mult_le_mono2) simp
  with lt have q1: "unat ((now - anchor) div period + 1) = ?q + 1"
    using unat_inc [of "(now - anchor) div period"] by (simp add: q)
  have e: "unat ?e = (?q + 1) * unat period"
    using lt unat_mult_lem [of "(now - anchor) div period + 1" period] by (simp add: q1)
  have n: "unat (anchor + ?e) = unat anchor + (?q + 1) * unat period"
    using unat_add_lt [of anchor ?e] assms(3) by (simp add: e)
  have "period \<noteq> 0" using assms(1) by auto
  moreover have "\<not> anchor > now" using le by simp
  moreover have "\<not> anchor + ?e < anchor" using n by (simp only: word_less_nat_alt)
  ultimately show ?thesis using n by (simp only: next_anchored_def Let_def if_False)
qed

lemma div_bound:
  fixes p d :: nat
  assumes "0 < p"
  shows "d < (d div p + 1) * p" "(d div p + 1) * p \<le> d + p"
proof -
  have "d = d div p * p + d mod p" "d mod p < p" using assms by simp_all
  then show "d < (d div p + 1) * p" "(d div p + 1) * p \<le> d + p"
    unfolding add_mult_distrib by linarith+
qed

lemma next_anchored_grid:
  assumes "0 < period" "unat now + unat period < 2 ^ 64"
  shows "\<exists>k. unat (next_anchored anchor period now) = unat anchor + k * unat period \<and>
     unat now < unat anchor + k * unat period \<and> (\<forall>i. unat now < unat anchor + i * unat period \<longrightarrow> k \<le> i)"
proof (cases "anchor > now")
  case True
  then have "unat (next_anchored anchor period now) = unat anchor + 0 * unat period" "unat now < unat anchor"
    by (auto simp: next_anchored_def word_less_nat_alt)
  then show ?thesis by (intro exI [of _ 0]) simp
next
  case False
  let ?p = "unat period" and ?d = "unat now - unat anchor"
  have p: "0 < ?p" using assms(1) by (simp add: unat_gt_0 word_gt_0)
  have le: "unat anchor \<le> unat now" using False by (simp add: word_le_nat_alt not_less)
  have "unat anchor + (?d div ?p + 1) * ?p < 2 ^ 64"
    using div_bound(2) [OF p, of ?d] le assms(2) by linarith
  with next_anchored_past [OF p le]
  have n: "unat (next_anchored anchor period now) = unat anchor + (?d div ?p + 1) * ?p" .
  have "?d div ?p + 1 \<le> i" if "unat now < unat anchor + i * ?p" for i
  proof -
    have "?d < i * ?p" using that le by linarith
    then have "?d div ?p < i" using p by (simp add: div_less_iff_less_mult)
    then show ?thesis by simp
  qed
  moreover have "unat now < unat anchor + (?d div ?p + 1) * ?p"
    using div_bound(1) [OF p, of ?d] le by linarith
  ultimately show ?thesis using n by blast
qed

text \<open>The next deadline of a periodic job is the least point of its grid (anchor plus a multiple of
  the period) strictly after now, as long as now plus one period fits in 64 bits.\<close>

theorem next_deadline_least_grid_point:
  assumes "0 < period" "unat now + unat period < 2 ^ 64"
  shows "now < next_anchored anchor period now \<and>
    (\<exists>k. unat (next_anchored anchor period now) = unat anchor + k * unat period) \<and>
    (\<forall>i. unat now < unat anchor + i * unat period \<longrightarrow>
       unat (next_anchored anchor period now) \<le> unat anchor + i * unat period)"
  using next_anchored_grid [OF assms, of anchor] by (auto simp: word_less_nat_alt)

lemma next_deadline_least_grid_point_witness:
  "(1250 :: u64) < next_anchored 100 500 1250 \<and> next_anchored 100 500 1250 = 1600"
proof -
  have "(1250 :: u64) < next_anchored 100 500 1250"
    by (rule next_deadline_least_grid_point [THEN conjunct1]) simp_all
  moreover have "next_anchored 100 500 1250 = 1600" by code_simp
  ultimately show ?thesis by simp
qed

text \<open>When the grid point after now does not fit, a wrap of the final sum is clamped to now (the job is
  due again at once); a wrap of the product is not noticed and gives the anchor, in the past.\<close>

lemma next_anchored_wrap:
  "next_anchored (2 ^ 63) (2 ^ 63) (2 ^ 63 + 1) = 2 ^ 63 + 1"
  "next_anchored 1 (2 ^ 63) (2 ^ 63 + 1) = 1"
  by code_simp+

section \<open>One dispatch\<close>

definition fires :: "u64 \<Rightarrow> scheduler_job \<Rightarrow> bool" where
  "fires now j \<longleftrightarrow> sj_deadline_us j \<le> now \<and> \<not> sj_pending j"

lemma visit_fires [simp]: "snd (visit_job now j) = fires now j"
  by (auto simp: visit_job_def fires_def is_deadline_passed_def)

definition after_visit :: "u64 \<Rightarrow> scheduler_job list \<Rightarrow> scheduler_job list" where
  "after_visit now js = List.map_filter (\<lambda>j. fst (visit_job now j)) js"

lemma after_visit_simps [simp]:
  "after_visit now [] = []"
  "after_visit now (j # js) = (case fst (visit_job now j) of None \<Rightarrow> after_visit now js | Some j' \<Rightarrow> j' # after_visit now js)"
  by (simp_all add: after_visit_def List.map_filter_def split: option.split)

lemma dispatch_loop_exact:
  "k \<le> limit \<Longrightarrow> \<exists>visited rest. js = visited @ rest \<and>
     dispatch_loop clock now limit k js =
       (map (\<lambda>(i, j). due_event (clock i) j) (enumerate k (filter (fires now) visited)), after_visit now visited @ rest) \<and>
     k + length (filter (fires now) visited) \<le> limit \<and>
     (rest \<noteq> [] \<longrightarrow> k + length (filter (fires now) visited) = limit)"
proof (induction js arbitrary: k)
  case Nil
  then show ?case by simp
next
  case (Cons j js)
  show ?case
  proof (cases "k = limit")
    case True
    then show ?thesis by (intro exI [of _ "[]"] exI [of _ "j # js"]) simp
  next
    case False
    let ?k = "if fires now j then Suc k else k"
    have "?k \<le> limit" using Cons.prems False by auto
    from Cons.IH [OF this] obtain visited rest where v: "js = visited @ rest"
      "dispatch_loop clock now limit ?k js =
         (map (\<lambda>(i, j). due_event (clock i) j) (enumerate ?k (filter (fires now) visited)), after_visit now visited @ rest)"
      "?k + length (filter (fires now) visited) \<le> limit"
      "rest \<noteq> [] \<longrightarrow> ?k + length (filter (fires now) visited) = limit" by blast
    obtain entry where e: "visit_job now j = (entry, fires now j)" by (cases "visit_job now j") (use visit_fires [of now j] in auto)
    have "\<not> limit \<le> k" using Cons.prems False by simp
    then show ?thesis using v e
      by (intro exI [of _ "j # visited"] exI [of _ rest]) (auto split: if_splits option.splits)
  qed
qed

lemma dispatch_split:
  obtains visited rest where "js = visited @ rest"
    "scheduler_dispatch_due clock js now n =
       (map (\<lambda>(i, j). due_event (clock i) j) (enumerate 0 (filter (fires now) visited)), after_visit now visited @ rest)"
    "length (filter (fires now) visited) \<le> unat n"
    "rest \<noteq> [] \<longrightarrow> length (filter (fires now) visited) = unat n"
  using dispatch_loop_exact [OF le0, where limit = "unat n"] unfolding scheduler_dispatch_due_def add_0 by blast

section \<open>The job table\<close>

lemma find_job_None: "find_job js i = None \<longleftrightarrow> i \<notin> sj_job_id ` set js"
  by (induction js) auto

lemma find_job_SomeD: "find_job js i = Some n \<Longrightarrow> n < length js \<and> sj_job_id (js ! n) = i"
  by (induction js arbitrary: n) (auto split: if_splits)

definition table_ok :: "scheduler \<Rightarrow> bool" where
  "table_ok js \<longleftrightarrow> distinct (map sj_job_id js) \<and> length js \<le> SCHEDULER_MAX_JOBS"

lemma visit_job_id: "fst (visit_job now j) = Some j' \<Longrightarrow> sj_job_id j' = sj_job_id j"
  by (auto simp: visit_job_def split: if_splits)

lemma after_visit_ids: "set (map sj_job_id (after_visit now js)) \<subseteq> set (map sj_job_id js)"
  by (induction js) (auto dest: visit_job_id split: option.splits)

lemma after_visit_distinct:
  "distinct (map sj_job_id js) \<Longrightarrow> distinct (map sj_job_id (after_visit now js))"
  using after_visit_ids by (induction js) (fastforce dest: visit_job_id split: option.splits)+

lemma after_visit_length: "length (after_visit now js) \<le> length js"
  by (induction js) (auto split: option.splits)

text \<open>The operations as one step.\<close>

datatype sched_op =
    Op_one_shot u16 u32 event_id u64 u32 event_priority
  | Op_periodic u16 u32 event_id u64 u64 u32 miss_policy event_priority u64
  | Op_cancel u16 u32
  | Op_acknowledge u16 u32
  | Op_dispatch "nat \<Rightarrow> u64" u64 u8

fun sched_step :: "scheduler \<Rightarrow> sched_op \<Rightarrow> scheduler" where
  "sched_step js (Op_one_shot i ow e d g pr) = snd (scheduler_schedule_one_shot js i ow e d g pr)"
| "sched_step js (Op_periodic i ow e a p g po pr now) = snd (scheduler_schedule_periodic js i ow e a p g po pr now)"
| "sched_step js (Op_cancel i g) = snd (scheduler_cancel js i g)"
| "sched_step js (Op_acknowledge i g) = snd (scheduler_acknowledge js i g)"
| "sched_step js (Op_dispatch clock now n) = snd (scheduler_dispatch_due clock js now n)"

lemma remove_nth_distinct: "distinct xs \<Longrightarrow> distinct (remove_nth i xs)"
  using set_take_disj_set_drop_if_distinct [of xs i "Suc i"] by (simp add: remove_nth_def)

lemma map_remove_nth: "map f (remove_nth i xs) = remove_nth i (map f xs)"
  by (simp add: remove_nth_def take_map drop_map)

lemma dispatch_table_ok: "table_ok js \<Longrightarrow> table_ok (snd (scheduler_dispatch_due clock js now n))"
proof -
  assume ok: "table_ok js"
  obtain visited rest where v: "js = visited @ rest"
    "snd (scheduler_dispatch_due clock js now n) = after_visit now visited @ rest"
    by (rule dispatch_split [of js clock now n]) auto
  have "distinct (map sj_job_id (after_visit now visited @ rest))"
    using ok v after_visit_ids [of now visited] after_visit_distinct [of visited now]
    by (auto simp: table_ok_def)
  with ok v after_visit_length [of now visited] show ?thesis by (simp add: table_ok_def)
qed

lemma sched_step_ok: "table_ok js \<Longrightarrow> table_ok (sched_step js op)"
proof (cases op)
  case (Op_one_shot i ow e d g pr)
  assume "table_ok js"
  then show ?thesis using Op_one_shot
    by (auto simp: scheduler_schedule_one_shot_def find_job_None table_ok_def)
next
  case (Op_periodic i ow e a p g po pr now)
  assume "table_ok js"
  then show ?thesis using Op_periodic
    by (auto simp: scheduler_schedule_periodic_def find_job_None table_ok_def)
next
  case (Op_cancel i g)
  assume "table_ok js"
  then show ?thesis using Op_cancel
    by (auto simp: scheduler_cancel_def remove_job_at_def table_ok_def map_remove_nth remove_nth_distinct
        split: option.splits dest: find_job_SomeD)
next
  case (Op_acknowledge i g)
  assume "table_ok js"
  then show ?thesis using Op_acknowledge
    by (auto simp: scheduler_acknowledge_def table_ok_def map_update split: option.splits dest: find_job_SomeD)
      (metis find_job_SomeD length_map list_update_id nth_map)
next
  case (Op_dispatch clock now n)
  assume "table_ok js"
  then show ?thesis using Op_dispatch dispatch_table_ok by simp
qed

interpretation sched: transition_system sched_step table_ok
  by unfold_locales (rule sched_step_ok)

lemma ucast_16_32_inject: "(ucast a :: u32) = ucast b \<longleftrightarrow> a = b" for a b :: u16
proof
  assume "(ucast a :: u32) = ucast b"
  then have "uint (ucast a :: u32) = uint (ucast b :: u32)" by simp
  then show "a = b" by (simp add: uint_up_ucast is_up word_uint_eq_iff)
qed simp

text \<open>C18: in every reachable table job ids are unique and at most 16; a dispatch then returns at most the
  requested number of events, exactly the events of the first jobs that are due and not pending, in table
  order and one per job, and leaves the unvisited jobs as they were.\<close>

theorem dispatch_due_exact:
  "let js = foldl sched_step scheduler_init ops;
       r = scheduler_dispatch_due clock js now n
   in table_ok js \<and> table_ok (snd r) \<and> length (fst r) \<le> unat n \<and> distinct (map ev_correlation_id (fst r)) \<and>
      fst r = map (\<lambda>(i, j). due_event (clock i) j) (enumerate 0 (take (unat n) (filter (fires now) js))) \<and>
      set (filter (\<lambda>j. sj_deadline_us j > now) js) \<subseteq> set (snd r)"
proof -
  let ?js = "foldl sched_step scheduler_init ops"
  have ok: "table_ok ?js" by (rule sched.run_inv) (simp add: table_ok_def scheduler_init_def)
  obtain visited rest where v: "?js = visited @ rest"
    "scheduler_dispatch_due clock ?js now n =
       (map (\<lambda>(i, j). due_event (clock i) j) (enumerate 0 (filter (fires now) visited)), after_visit now visited @ rest)"
    "length (filter (fires now) visited) \<le> unat n"
    "rest \<noteq> [] \<longrightarrow> length (filter (fires now) visited) = unat n"
    by (rule dispatch_split)
  have take: "take (unat n) (filter (fires now) ?js) = filter (fires now) visited"
    using v(1,3,4) by (cases "rest = []") simp_all
  have ids: "map ev_correlation_id (map (\<lambda>(i, j). due_event (clock i) j) (enumerate k l)) =
      map ucast (map sj_job_id l)" for k and l :: scheduler
    by (induction l arbitrary: k) (simp_all add: due_event_def)
  have "distinct (map sj_job_id (filter (fires now) visited))"
    using ok v(1) by (simp add: table_ok_def distinct_map_filter)
  then have "distinct (map ucast (map sj_job_id (filter (fires now) visited)) :: u32 list)"
    by (subst distinct_map) (auto simp: inj_on_def ucast_16_32_inject)
  then have "distinct (map ev_correlation_id (fst (scheduler_dispatch_due clock ?js now n)))"
    by (simp only: v(2) fst_conv ids)
  moreover have "j \<in> set (after_visit now l)" if "j \<in> set l" "sj_deadline_us j > now" for j l
    using that by (induction l) (auto simp: visit_job_def is_deadline_passed_def split: option.splits)
  then have "set (filter (\<lambda>j. sj_deadline_us j > now) ?js) \<subseteq> set (snd (scheduler_dispatch_due clock ?js now n))"
    by (simp only: v(2) snd_conv) (auto simp: v(1))
  moreover have "length (fst (scheduler_dispatch_due clock ?js now n)) \<le> unat n"
    using v(3) by (simp only: v(2) fst_conv length_map length_enumerate)
  ultimately show ?thesis
    using ok dispatch_table_ok [OF ok, of clock now n]
    by (simp only: Let_def v(2) take fst_conv)
qed

lemma dispatch_due_exact_small:
  "map ev_correlation_id (fst (scheduler_dispatch_due (\<lambda>k. 0)
     (sched_step (sched_step scheduler_init (Op_one_shot 7 0 EVT_REPORT_DUE 40 1 EVENT_PRIO_CRITICAL))
        (Op_periodic 9 0 EVT_PRESSURE_SAMPLE_DUE 10 20 1 MISS_POLICY_SIGNAL_ONCE EVENT_PRIO_CRITICAL 5)) 30 8)) = [9]"
  by code_simp

section \<open>Runs of dispatches\<close>

fun dispatch_run :: "((nat \<Rightarrow> u64) \<times> u64 \<times> u8) list \<Rightarrow> scheduler \<Rightarrow> app_event list \<times> scheduler" where
  "dispatch_run [] js = ([], js)"
| "dispatch_run ((clock, now, n) # calls) js =
     (let (evs, js1) = scheduler_dispatch_due clock js now n; (evs', js2) = dispatch_run calls js1
      in (evs @ evs', js2))"

definition events_of :: "u16 \<Rightarrow> app_event list \<Rightarrow> app_event list" where
  "events_of i evs = filter (\<lambda>e. ev_correlation_id e = ucast i) evs"

lemma events_of_append [simp]: "events_of i (xs @ ys) = events_of i xs @ events_of i ys"
  by (simp add: events_of_def)

lemma events_of_due:
  "length (events_of i (map (\<lambda>(k, j). due_event (clock k) j) (enumerate m js))) = length (filter (\<lambda>j. sj_job_id j = i) js)"
  by (induction js arbitrary: m) (simp_all add: events_of_def due_event_def ucast_16_32_inject)

lemma filter_id_distinct:
  "distinct (map sj_job_id js) \<Longrightarrow> j \<in> set js \<Longrightarrow> filter (\<lambda>x. sj_job_id x = sj_job_id j) js = [j]"
proof (induction js)
  case (Cons x js)
  show ?case
  proof (cases "x = j")
    case True
    have "filter (\<lambda>y. sj_job_id y = sj_job_id j) js = []"
      using Cons.prems(1) True by (auto simp: filter_empty_conv) (metis image_eqI)
    with True show ?thesis by simp
  next
    case False
    with Cons.prems have "sj_job_id x \<noteq> sj_job_id j" "j \<in> set js" by auto
    with Cons show ?thesis by simp
  qed
qed simp

lemma filter_swap: "filter P (filter Q xs) = filter Q (filter P xs)"
  by (simp add: filter_filter conj_commute)

lemma after_visit_from: "x \<in> set (after_visit now l) \<Longrightarrow> \<exists>y \<in> set l. fst (visit_job now y) = Some x"
  by (induction l) (auto split: option.splits)

lemma after_visit_to: "fst (visit_job now y) = Some x \<Longrightarrow> y \<in> set l \<Longrightarrow> x \<in> set (after_visit now l)"
  by (induction l) (auto split: option.splits)

text \<open>What one dispatch does to one job of the table: visited (its entry replaced or removed, its event
  emitted if it fires) or not reached because the limit is used up.\<close>

lemma dispatch_one_job:
  assumes ok: "table_ok js" and j: "j \<in> set js" and d: "scheduler_dispatch_due clock js now n = (evs, js')"
  obtains (visited) "length (events_of (sj_job_id j) evs) = (if fires now j then 1 else 0)"
      "\<And>x. x \<in> set js' \<Longrightarrow> sj_job_id x = sj_job_id j \<Longrightarrow> fst (visit_job now j) = Some x"
      "\<And>x. fst (visit_job now j) = Some x \<Longrightarrow> x \<in> set js'"
  | (unreached) "events_of (sj_job_id j) evs = []" "j \<in> set js'" "unat n < length js"
proof -
  obtain visited rest where v: "js = visited @ rest"
    "scheduler_dispatch_due clock js now n =
       (map (\<lambda>(i, j). due_event (clock i) j) (enumerate 0 (filter (fires now) visited)), after_visit now visited @ rest)"
    "length (filter (fires now) visited) \<le> unat n"
    "rest \<noteq> [] \<longrightarrow> length (filter (fires now) visited) = unat n"
    by (rule dispatch_split)
  have evs: "length (events_of i evs) = length (filter (fires now) (filter (\<lambda>x. sj_job_id x = i) visited))" for i
    using d v(2) events_of_due [of i clock 0 "filter (fires now) visited"] by (simp add: conj_commute)
  have js': "js' = after_visit now visited @ rest" using d v(2) by simp
  have dist: "distinct (map sj_job_id visited)" "\<And>x y. x \<in> set visited \<Longrightarrow> y \<in> set rest \<Longrightarrow> sj_job_id x \<noteq> sj_job_id y"
    using ok v(1) by (auto simp: table_ok_def)
  show thesis
  proof (cases "j \<in> set visited")
    case True
    show thesis
    proof (rule visited)
      show "length (events_of (sj_job_id j) evs) = (if fires now j then 1 else 0)"
        using filter_id_distinct [OF dist(1) True] by (simp add: evs flip: filter_filter)
      show "fst (visit_job now j) = Some x" if "x \<in> set js'" "sj_job_id x = sj_job_id j" for x
      proof -
        have "x \<in> set (after_visit now visited)" using that js' dist(2) [OF True] by force
        then obtain y where y: "y \<in> set visited" "fst (visit_job now y) = Some x" using after_visit_from by blast
        then have "sj_job_id y = sj_job_id j" using visit_job_id that(2) by force
        then have "y = j" using dist(1) y(1) True by (auto simp: distinct_map dest: inj_onD)
        with y show ?thesis by simp
      qed
      show "x \<in> set js'" if "fst (visit_job now j) = Some x" for x
        using after_visit_to [OF that True] js' by simp
    qed
  next
    case False
    with j v(1) have r: "j \<in> set rest" by simp
    have "filter (\<lambda>x. sj_job_id x = sj_job_id j) visited = []"
      using dist(2) [OF _ r] by (auto simp: filter_empty_conv)
    then have "length (events_of (sj_job_id j) evs) = 0" by (simp add: evs flip: filter_filter)
    moreover have "unat n < length js"
      using v(1,4) r length_filter_le [of "fires now" visited] by (cases rest) auto
    ultimately show thesis using r js' by (intro unreached) auto
  qed
qed

text \<open>No event carries an id that is not in the table.\<close>

lemma dispatch_no_job:
  assumes "scheduler_dispatch_due clock js now n = (evs, js')" "i \<notin> sj_job_id ` set js"
  shows "events_of i evs = [] \<and> i \<notin> sj_job_id ` set js'"
proof -
  obtain visited rest where v: "js = visited @ rest"
    "scheduler_dispatch_due clock js now n =
       (map (\<lambda>(i, j). due_event (clock i) j) (enumerate 0 (filter (fires now) visited)), after_visit now visited @ rest)"
    by (rule dispatch_split)
  have "filter (\<lambda>x. sj_job_id x = i) (filter (fires now) visited) = []"
    using assms(2) v(1) by (auto simp: filter_empty_conv)
  then have "length (events_of i evs) = 0"
    using assms(1) v(2) events_of_due [of i clock 0 "filter (fires now) visited"] by simp
  moreover have "i \<notin> sj_job_id ` set js'"
    using assms v after_visit_ids [of now visited] by auto
  ultimately show ?thesis by simp
qed

lemma dispatch_run_no_job: "i \<notin> sj_job_id ` set js \<Longrightarrow> events_of i (fst (dispatch_run calls js)) = []"
proof (induction calls arbitrary: js)
  case Nil
  then show ?case by (simp add: events_of_def)
next
  case (Cons c calls)
  obtain clock now n where c: "c = (clock, now, n)" by (metis prod.exhaust)
  obtain evs js1 where d: "scheduler_dispatch_due clock js now n = (evs, js1)" by fastforce
  from dispatch_no_job [OF d Cons.prems] Cons.IH [of js1] show ?case
    by (auto simp: c d split: prod.splits)
qed

lemma visit_one_shot:
  assumes "sj_period_us j = 0" "\<not> sj_pending j"
  shows "fst (visit_job now j) = (if sj_deadline_us j \<le> now then None else Some j)"
    and "fires now j \<longleftrightarrow> sj_deadline_us j \<le> now"
  using assms by (auto simp: visit_job_def fires_def is_deadline_passed_def)

lemma visit_unacknowledged:
  assumes "sj_pending j" "sj_miss_policy j \<noteq> MISS_POLICY_SKIP"
  shows "fst (visit_job now j) = Some j" and "\<not> fires now j"
  using assms by (auto simp: visit_job_def fires_def)

text \<open>A one-shot job is delivered exactly once by a sequence of dispatches that reaches its deadline with
  room for every job, and never more than once.\<close>

theorem one_shot_fires_once:
  assumes "table_ok js" "j \<in> set js" "sj_period_us j = 0" "\<not> sj_pending j"
  shows "length (events_of (sj_job_id j) (fst (dispatch_run calls js))) \<le> 1 \<and>
    ((\<exists>(clock, now, n) \<in> set calls. sj_deadline_us j \<le> now \<and> SCHEDULER_MAX_JOBS \<le> unat n) \<longrightarrow>
     length (events_of (sj_job_id j) (fst (dispatch_run calls js))) = 1)"
  using assms(1,2)
proof (induction calls arbitrary: js)
  case Nil
  then show ?case by (simp add: events_of_def)
next
  case (Cons c calls)
  obtain clock now n where c: "c = (clock, now, n)" by (metis prod.exhaust)
  obtain evs js1 where d: "scheduler_dispatch_due clock js now n = (evs, js1)" by fastforce
  have ok1: "table_ok js1" using dispatch_table_ok [OF Cons.prems(1), of clock now n] by (simp add: d)
  have run: "events_of i (fst (dispatch_run (c # calls) js)) = events_of i evs @ events_of i (fst (dispatch_run calls js1))" for i
    by (simp add: c d split: prod.splits)
  note once = visit_one_shot [OF assms(3,4), of now]
  show ?case
    using Cons.prems d
  proof (cases rule: dispatch_one_job)
    case visited
    show ?thesis
    proof (cases "sj_deadline_us j \<le> now")
      case True
      then have "sj_job_id j \<notin> sj_job_id ` set js1" using visited(2) once by force
      with visited(1) True once run dispatch_run_no_job show ?thesis by simp
    next
      case False
      then have "j \<in> set js1" "events_of (sj_job_id j) evs = []" using visited once by auto
      with Cons.IH [OF ok1] False run show ?thesis by (auto simp: c)
    qed
  next
    case unreached
    have "unat n < SCHEDULER_MAX_JOBS" using unreached(3) Cons.prems(1) by (simp add: table_ok_def)
    with Cons.IH [OF ok1 unreached(2)] unreached(1) run show ?thesis by (auto simp: c)
  qed
qed

definition sample_job :: "u16 \<Rightarrow> u64 \<Rightarrow> u64 \<Rightarrow> scheduler_job" where
  "sample_job i deadline period =
     \<lparr>sj_job_id = i, sj_owner_id = 1, sj_event_id = EVT_REPORT_DUE, sj_deadline_us = deadline, sj_anchor_us = deadline,
      sj_period_us = period, sj_generation = 1, sj_mode_mask = 0xFFFFFFFF, sj_miss_policy = MISS_POLICY_SIGNAL_ONCE,
      sj_priority = EVENT_PRIO_CRITICAL, sj_pending = False\<rparr>"

lemma one_shot_fires_once_witness:
  "length (events_of 3 (fst (dispatch_run [(\<lambda>_. 0, 50, 16), (\<lambda>_. 0, 150, 16), (\<lambda>_. 0, 250, 16)]
     [sample_job 3 100 0, sample_job 4 20 70]))) = 1" (is "length (events_of 3 (fst (dispatch_run ?calls ?js))) = 1")
proof -
  have "table_ok ?js" "sample_job 3 100 0 \<in> set ?js" "sj_period_us (sample_job 3 100 0) = 0"
    "\<not> sj_pending (sample_job 3 100 0)" "sj_job_id (sample_job 3 100 0) = 3"
    by (simp_all add: table_ok_def sample_job_def)
  moreover have "\<exists>(clock :: nat \<Rightarrow> u64, now, n) \<in> set ?calls. sj_deadline_us (sample_job 3 100 0) \<le> now \<and> 16 \<le> unat n"
    by (simp add: sample_job_def)
  ultimately show ?thesis using one_shot_fires_once [of ?js "sample_job 3 100 0" ?calls] by simp
qed

text \<open>A periodic job whose policy is not SKIP waits for its acknowledgement: however many dispatches run and
  whatever the time, it emits nothing more and its entry does not change; once acknowledged with the right
  generation, the next dispatch at or after its deadline (with room) emits it.  An event lost between the
  dispatch and its consumer therefore silences the job for good.\<close>

theorem unacknowledged_job_is_silent:
  assumes "table_ok js" "j \<in> set js" "sj_pending j" "sj_miss_policy j \<noteq> MISS_POLICY_SKIP"
  shows "events_of (sj_job_id j) (fst (dispatch_run calls js)) = [] \<and> j \<in> set (snd (dispatch_run calls js))"
  using assms(1,2)
proof (induction calls arbitrary: js)
  case Nil
  then show ?case by (simp add: events_of_def)
next
  case (Cons c calls)
  obtain clock now n where c: "c = (clock, now, n)" by (metis prod.exhaust)
  obtain evs js1 where d: "scheduler_dispatch_due clock js now n = (evs, js1)" by fastforce
  have ok1: "table_ok js1" using dispatch_table_ok [OF Cons.prems(1), of clock now n] by (simp add: d)
  have "events_of (sj_job_id j) evs = [] \<and> j \<in> set js1"
    using Cons.prems d by (cases rule: dispatch_one_job) (auto simp: visit_unacknowledged [OF assms(3,4)])
  with Cons.IH [OF ok1] show ?case by (auto simp: c d split: prod.splits)
qed

lemma unacknowledged_job_is_silent_witness:
  "events_of 4 (fst (dispatch_run [(\<lambda>_. 0, 90, 16), (\<lambda>_. 0, 9000, 16)] [(sample_job 4 20 70)\<lparr>sj_pending := True\<rparr>])) = []"
  using unacknowledged_job_is_silent [of "[(sample_job 4 20 70)\<lparr>sj_pending := True\<rparr>]" "(sample_job 4 20 70)\<lparr>sj_pending := True\<rparr>"
      "[(\<lambda>_. 0, 90, 16), (\<lambda>_. 0, 9000, 16)]"]
  by (simp add: table_ok_def sample_job_def)

text \<open>The acknowledgement, and that a job replaced under the same id ignores an old one.\<close>

lemma find_job_distinct:
  "distinct (map sj_job_id js) \<Longrightarrow> j \<in> set js \<Longrightarrow> \<exists>i. find_job js (sj_job_id j) = Some i \<and> i < length js \<and> js ! i = j"
proof (induction js)
  case (Cons a js)
  show ?case
  proof (cases "a = j")
    case False
    with Cons.prems have "sj_job_id a \<noteq> sj_job_id j" "j \<in> set js" by auto
    with Cons obtain i where "find_job js (sj_job_id j) = Some i" "i < length js" "js ! i = j" by auto
    with \<open>sj_job_id a \<noteq> sj_job_id j\<close> show ?thesis by (intro exI [of _ "Suc i"]) simp
  qed simp
qed simp

lemma acknowledge_rearms:
  assumes "table_ok js" "j \<in> set js" "sj_pending j"
  shows "\<exists>js'. scheduler_acknowledge js (sj_job_id j) (sj_generation j) = (True, js') \<and> j\<lparr>sj_pending := False\<rparr> \<in> set js'"
  using find_job_distinct [of js j] assms
  by (auto simp: scheduler_acknowledge_def table_ok_def set_update_memI)

lemma acknowledge_stale:
  assumes "table_ok js" "j \<in> set js" "g \<noteq> sj_generation j"
  shows "scheduler_acknowledge js (sj_job_id j) g = (False, js)" "scheduler_cancel js (sj_job_id j) g = (SCHEDULE_NOT_FOUND, js)"
  using find_job_distinct [of js j] assms
  by (auto simp: scheduler_acknowledge_def scheduler_cancel_def table_ok_def)

lemma acknowledged_job_fires:
  assumes "table_ok js" "j \<in> set js" "\<not> sj_pending j" "sj_deadline_us j \<le> now" "SCHEDULER_MAX_JOBS \<le> unat n"
    and "scheduler_dispatch_due clock js now n = (evs, js')"
  shows "length (events_of (sj_job_id j) evs) = 1"
  using assms(1,2,6) by (cases rule: dispatch_one_job) (use assms in \<open>auto simp: fires_def table_ok_def\<close>)

text \<open>The next wake-up is the earliest deadline of the table.\<close>

lemma fold_min_deadline:
  "fold (\<lambda>j e. if sj_deadline_us j < e then sj_deadline_us j else e) js e = Min (insert e (sj_deadline_us ` set js))"
proof (induction js arbitrary: e)
  case (Cons j js)
  have "(if sj_deadline_us j < e then sj_deadline_us j else e) = min (sj_deadline_us j) e" by (auto simp: min_def)
  then show ?case by (simp only: fold_Cons comp_apply Cons.IH list.set image_insert)
    (cases "js = []"; simp add: min.assoc min.left_commute min.commute)
qed simp

lemma next_deadline_min:
  "scheduler_get_next_deadline js = (if js = [] then None else Some (Min (sj_deadline_us ` set js)))"
  by (cases js) (simp_all add: scheduler_get_next_deadline_def fold_min_deadline)

end
