(* ===== verification/System_Fsm.thy ===== *)
theory System_Fsm
  imports Event_Types
begin

text \<open>
  \<open>app/mode_guard.c\<close> and \<open>app/system_fsm.c\<close>: the published guard evidence, the table-driven
  system mode machine and its bookkeeping.  The machine is compared with the transition rules
  TR-SYS-001 .. TR-SYS-052 as the design documents give them (src/1.docs, 06_system_fsm.md and
  03_system_fsm_binding.md), with the design's own guards and actions.
\<close>

unbundle bit_operations_syntax

section \<open>Data\<close>

datatype system_mode =
  SYSTEM_MODE_INIT | SYSTEM_MODE_NORMAL | SYSTEM_MODE_LOW_POWER
| SYSTEM_MODE_SERVICE | SYSTEM_MODE_RECOVERY | SYSTEM_MODE_ERROR

record mode_guard_context =
  core_ready :: bool
  flow_readiness_evidence_valid :: bool
  service_ready :: bool
  service_authorized :: bool
  safe_service_boundary :: bool
  safe_to_resume_normal :: bool
  critical_blocker_present :: bool
  wake_sources_armed :: bool
  recovery_can_run :: bool
  return_normal :: bool
  return_service :: bool
  reinitialize_allowed :: bool
  blocker_mask :: u32
  readiness_generation :: u32
  service_session_generation :: u32
  recovery_generation :: u32

definition zero_guards :: mode_guard_context where
  "zero_guards =
     \<lparr>core_ready = False, flow_readiness_evidence_valid = False, service_ready = False,
      service_authorized = False, safe_service_boundary = False, safe_to_resume_normal = False,
      critical_blocker_present = False, wake_sources_armed = False, recovery_can_run = False,
      return_normal = False, return_service = False, reinitialize_allowed = False,
      blocker_mask = 0, readiness_generation = 0, service_session_generation = 0,
      recovery_generation = 0\<rparr>"

record mode_guard_provider =
  mgp_readiness_generation :: u32
  mgp_service_session_generation :: u32
  mgp_recovery_generation :: u32
  mgp_evidence :: mode_guard_context

definition mode_guard_init :: mode_guard_provider where
  "mode_guard_init =
     \<lparr>mgp_readiness_generation = 0, mgp_service_session_generation = 0,
      mgp_recovery_generation = 0, mgp_evidence = zero_guards\<rparr>"

definition mode_guard_publish :: "mode_guard_provider \<Rightarrow> mode_guard_context \<Rightarrow> mode_guard_provider" where
  "mode_guard_publish provider evidence =
     provider\<lparr>mgp_evidence := evidence,
       mgp_readiness_generation := mgp_readiness_generation provider + 1,
       mgp_service_session_generation := mgp_service_session_generation provider + 1,
       mgp_recovery_generation := mgp_recovery_generation provider + 1\<rparr>"

definition mode_guard_capture :: "mode_guard_provider option \<Rightarrow> mode_guard_context" where
  "mode_guard_capture provider =
     (case provider of None \<Rightarrow> zero_guards
      | Some p \<Rightarrow> (mgp_evidence p)\<lparr>readiness_generation := mgp_readiness_generation p,
          service_session_generation := mgp_service_session_generation p,
          recovery_generation := mgp_recovery_generation p\<rparr>)"

text \<open>Action mask bits and guard mask bits.\<close>

type_synonym action_mask = u32

abbreviation ACTION_NONE :: action_mask where "ACTION_NONE \<equiv> 0"
abbreviation ACTION_START_NORMAL :: action_mask where "ACTION_START_NORMAL \<equiv> 1"
abbreviation ACTION_ENTER_SERVICE :: action_mask where "ACTION_ENTER_SERVICE \<equiv> 2"
abbreviation ACTION_START_RECOVERY :: action_mask where "ACTION_START_RECOVERY \<equiv> 4"
abbreviation ACTION_ENTER_ERROR :: action_mask where "ACTION_ENTER_ERROR \<equiv> 8"
abbreviation ACTION_PREPARE_LOW_POWER :: action_mask where "ACTION_PREPARE_LOW_POWER \<equiv> 16"
abbreviation ACTION_RESUME_NORMAL :: action_mask where "ACTION_RESUME_NORMAL \<equiv> 32"
abbreviation ACTION_REQUEST_RESET :: action_mask where "ACTION_REQUEST_RESET \<equiv> 64"

abbreviation GUARD_CORE_READY :: u32 where "GUARD_CORE_READY \<equiv> 1"
abbreviation GUARD_FLOW_READINESS :: u32 where "GUARD_FLOW_READINESS \<equiv> 2"
abbreviation GUARD_SERVICE_READY :: u32 where "GUARD_SERVICE_READY \<equiv> 4"
abbreviation GUARD_SERVICE_AUTHORIZED :: u32 where "GUARD_SERVICE_AUTHORIZED \<equiv> 8"
abbreviation GUARD_SAFE_SERVICE_BOUNDARY :: u32 where "GUARD_SAFE_SERVICE_BOUNDARY \<equiv> 16"
abbreviation GUARD_SAFE_RESUME_NORMAL :: u32 where "GUARD_SAFE_RESUME_NORMAL \<equiv> 32"
abbreviation GUARD_NO_CRITICAL_BLOCKER :: u32 where "GUARD_NO_CRITICAL_BLOCKER \<equiv> 64"
abbreviation GUARD_WAKE_ARMED :: u32 where "GUARD_WAKE_ARMED \<equiv> 128"
abbreviation GUARD_RECOVERY_CAN_RUN :: u32 where "GUARD_RECOVERY_CAN_RUN \<equiv> 256"
abbreviation GUARD_RETURN_NORMAL :: u32 where "GUARD_RETURN_NORMAL \<equiv> 512"
abbreviation GUARD_RETURN_SERVICE :: u32 where "GUARD_RETURN_SERVICE \<equiv> 1024"
abbreviation GUARD_REINIT_ALLOWED :: u32 where "GUARD_REINIT_ALLOWED \<equiv> 2048"

datatype fsm_dispatch_result =
  FSM_TRANSITION_COMMITTED | FSM_HANDLED_NO_TRANSITION | FSM_DEFERRED | FSM_REJECTED
| FSM_IGNORED_SAFE | FSM_STALE_EVENT | FSM_INVARIANT_FAULT

record transition_record =
  tr_previous_mode :: system_mode
  tr_new_mode :: system_mode
  tr_event_id :: u32
  tr_reason_code :: u32
  tr_requester_id :: u32
  tr_correlation_id :: u64
  tr_transition_sequence :: u64
  tr_mode_generation :: u32
  tr_monotonic_time_us :: u64
  tr_wall_time_valid :: bool
  tr_guard_snapshot_id :: u32
  tr_action_mask :: u32

record system_mode_manager =
  current_mode :: system_mode
  mode_generation :: u32
  transition_sequence :: u64
  entered_at_monotonic_us :: u64
  reason_code :: u32
  source_event_id :: u32
  fsm_correlation_id :: u64
  last_record :: transition_record
  pending_actions :: action_mask

record system_mode_context =
  smc_current_mode :: system_mode
  smc_mode_generation :: u32
  smc_transition_sequence :: u64
  smc_entered_at_monotonic_us :: u64
  smc_reason_code :: u32
  smc_source_event_id :: u32
  smc_correlation_id :: u64

definition zero_transition_record :: transition_record where
  "zero_transition_record =
     \<lparr>tr_previous_mode = SYSTEM_MODE_INIT, tr_new_mode = SYSTEM_MODE_INIT, tr_event_id = 0,
      tr_reason_code = 0, tr_requester_id = 0, tr_correlation_id = 0, tr_transition_sequence = 0,
      tr_mode_generation = 0, tr_monotonic_time_us = 0, tr_wall_time_valid = False,
      tr_guard_snapshot_id = 0, tr_action_mask = 0\<rparr>"

section \<open>The transition table\<close>

record transition_entry =
  te_event_id :: u32
  te_current_mode :: system_mode
  te_next_mode :: system_mode
  te_action :: action_mask
  te_guard_required :: u32

definition entry :: "u32 \<Rightarrow> system_mode \<Rightarrow> system_mode \<Rightarrow> action_mask \<Rightarrow> u32 \<Rightarrow> transition_entry" where
  "entry e m m' a g =
     \<lparr>te_event_id = e, te_current_mode = m, te_next_mode = m', te_action = a, te_guard_required = g\<rparr>"

definition transition_table :: "transition_entry list" where
  "transition_table =
   [entry EVT_INIT_COMPLETED SYSTEM_MODE_INIT SYSTEM_MODE_NORMAL ACTION_START_NORMAL GUARD_CORE_READY,
    entry EVT_SERVICE_REQUEST SYSTEM_MODE_INIT SYSTEM_MODE_SERVICE ACTION_ENTER_SERVICE
      (GUARD_SERVICE_READY OR GUARD_SERVICE_AUTHORIZED),
    entry EVT_RECOVERABLE_INIT_FAILURE SYSTEM_MODE_INIT SYSTEM_MODE_RECOVERY ACTION_START_RECOVERY
      GUARD_RECOVERY_CAN_RUN,
    entry EVT_CRITICAL_INIT_FAILURE SYSTEM_MODE_INIT SYSTEM_MODE_ERROR ACTION_ENTER_ERROR 0,
    entry 0 SYSTEM_MODE_INIT SYSTEM_MODE_INIT ACTION_NONE 0,

    entry EVT_LOW_POWER_REQUEST SYSTEM_MODE_NORMAL SYSTEM_MODE_LOW_POWER ACTION_PREPARE_LOW_POWER
      (GUARD_NO_CRITICAL_BLOCKER OR GUARD_WAKE_ARMED),
    entry EVT_LOW_POWER_REQUEST SYSTEM_MODE_NORMAL SYSTEM_MODE_NORMAL ACTION_NONE 0,
    entry EVT_SERVICE_REQUEST SYSTEM_MODE_NORMAL SYSTEM_MODE_SERVICE ACTION_ENTER_SERVICE
      (GUARD_SERVICE_AUTHORIZED OR GUARD_SAFE_SERVICE_BOUNDARY),
    entry EVT_SYSTEM_RECOVERY_REQUIRED SYSTEM_MODE_NORMAL SYSTEM_MODE_RECOVERY ACTION_START_RECOVERY
      GUARD_RECOVERY_CAN_RUN,
    entry EVT_CRITICAL_ERROR SYSTEM_MODE_NORMAL SYSTEM_MODE_ERROR ACTION_ENTER_ERROR 0,
    entry EVT_CONNECTIVITY_CHANGED SYSTEM_MODE_NORMAL SYSTEM_MODE_NORMAL ACTION_NONE 0,
    entry 0 SYSTEM_MODE_NORMAL SYSTEM_MODE_NORMAL ACTION_NONE 0,

    entry EVT_WAKE SYSTEM_MODE_LOW_POWER SYSTEM_MODE_NORMAL ACTION_RESUME_NORMAL 0,
    entry EVT_SERVICE_REQUEST SYSTEM_MODE_LOW_POWER SYSTEM_MODE_SERVICE
      (ACTION_RESUME_NORMAL OR ACTION_ENTER_SERVICE) GUARD_SERVICE_AUTHORIZED,
    entry EVT_CRITICAL_ERROR SYSTEM_MODE_LOW_POWER SYSTEM_MODE_ERROR ACTION_ENTER_ERROR 0,
    entry 0 SYSTEM_MODE_LOW_POWER SYSTEM_MODE_LOW_POWER ACTION_NONE 0,

    entry EVT_SERVICE_EXIT SYSTEM_MODE_SERVICE SYSTEM_MODE_NORMAL ACTION_START_NORMAL
      GUARD_SAFE_RESUME_NORMAL,
    entry EVT_SYSTEM_RECOVERY_REQUIRED SYSTEM_MODE_SERVICE SYSTEM_MODE_RECOVERY ACTION_START_RECOVERY
      GUARD_RECOVERY_CAN_RUN,
    entry EVT_CRITICAL_ERROR SYSTEM_MODE_SERVICE SYSTEM_MODE_ERROR ACTION_ENTER_ERROR 0,
    entry 0 SYSTEM_MODE_SERVICE SYSTEM_MODE_SERVICE ACTION_NONE 0,

    entry EVT_RECOVERY_SUCCEEDED SYSTEM_MODE_RECOVERY SYSTEM_MODE_NORMAL ACTION_RESUME_NORMAL
      GUARD_RETURN_NORMAL,
    entry EVT_RECOVERY_SUCCEEDED SYSTEM_MODE_RECOVERY SYSTEM_MODE_SERVICE ACTION_ENTER_SERVICE
      GUARD_RETURN_SERVICE,
    entry EVT_RECOVERY_FAILED SYSTEM_MODE_RECOVERY SYSTEM_MODE_ERROR ACTION_ENTER_ERROR 0,
    entry EVT_CRITICAL_ERROR SYSTEM_MODE_RECOVERY SYSTEM_MODE_ERROR ACTION_ENTER_ERROR 0,
    entry 0 SYSTEM_MODE_RECOVERY SYSTEM_MODE_RECOVERY ACTION_NONE 0,

    entry EVT_AUTHORIZED_RECOVERY_REQUEST SYSTEM_MODE_ERROR SYSTEM_MODE_RECOVERY ACTION_START_RECOVERY
      GUARD_RECOVERY_CAN_RUN,
    entry EVT_CONTROLLED_REINITIALIZE SYSTEM_MODE_ERROR SYSTEM_MODE_INIT ACTION_REQUEST_RESET
      GUARD_REINIT_ALLOWED,
    entry 0 SYSTEM_MODE_ERROR SYSTEM_MODE_ERROR ACTION_NONE 0]"

definition check_guards :: "mode_guard_context \<Rightarrow> u32 \<Rightarrow> bool" where
  "check_guards g required =
     (if required AND GUARD_CORE_READY \<noteq> 0 \<and> \<not> core_ready g then False
      else if required AND GUARD_FLOW_READINESS \<noteq> 0 \<and> \<not> flow_readiness_evidence_valid g then False
      else if required AND GUARD_SERVICE_READY \<noteq> 0 \<and> \<not> service_ready g then False
      else if required AND GUARD_SERVICE_AUTHORIZED \<noteq> 0 \<and> \<not> service_authorized g then False
      else if required AND GUARD_SAFE_SERVICE_BOUNDARY \<noteq> 0 \<and> \<not> safe_service_boundary g then False
      else if required AND GUARD_SAFE_RESUME_NORMAL \<noteq> 0 \<and> \<not> safe_to_resume_normal g then False
      else if required AND GUARD_NO_CRITICAL_BLOCKER \<noteq> 0 \<and> critical_blocker_present g then False
      else if required AND GUARD_WAKE_ARMED \<noteq> 0 \<and> \<not> wake_sources_armed g then False
      else if required AND GUARD_RECOVERY_CAN_RUN \<noteq> 0 \<and> \<not> recovery_can_run g then False
      else if required AND GUARD_RETURN_NORMAL \<noteq> 0 \<and> \<not> return_normal g then False
      else if required AND GUARD_RETURN_SERVICE \<noteq> 0 \<and> \<not> return_service g then False
      else if required AND GUARD_REINIT_ALLOWED \<noteq> 0 \<and> \<not> reinitialize_allowed g then False
      else True)"

definition event_is_system_event :: "event_id \<Rightarrow> bool" where
  "event_is_system_event i \<longleftrightarrow> 0x0100 \<le> i \<and> i \<le> 0x01FF"

section \<open>Operations\<close>

definition system_fsm_init :: system_mode_manager where
  "system_fsm_init =
     \<lparr>current_mode = SYSTEM_MODE_INIT, mode_generation = 1, transition_sequence = 0,
      entered_at_monotonic_us = 0, reason_code = 0, source_event_id = 0, fsm_correlation_id = 0,
      last_record = zero_transition_record, pending_actions = ACTION_NONE\<rparr>"

definition commit_transition :: "system_mode_manager \<Rightarrow> app_event \<Rightarrow> transition_entry \<Rightarrow> system_mode_manager" where
  "commit_transition m event t =
     m\<lparr>last_record :=
         (last_record m)\<lparr>tr_previous_mode := current_mode m, tr_new_mode := te_next_mode t,
           tr_event_id := ev_id event, tr_reason_code := 0, tr_requester_id := ev_source_id event,
           tr_correlation_id := ucast (ev_correlation_id event),
           tr_transition_sequence := transition_sequence m + 1,
           tr_mode_generation := mode_generation m + 1, tr_guard_snapshot_id := 0,
           tr_action_mask := te_action t\<rparr>,
       transition_sequence := transition_sequence m + 1,
       current_mode := te_next_mode t,
       mode_generation := mode_generation m + 1,
       reason_code := 0,
       source_event_id := ev_id event,
       fsm_correlation_id := ucast (ev_correlation_id event),
       pending_actions := te_action t\<rparr>"

text \<open>The search loop over the table: \<open>None\<close> when it runs off the end.\<close>

fun table_search ::
  "transition_entry list \<Rightarrow> system_mode_manager \<Rightarrow> app_event \<Rightarrow> mode_guard_context \<Rightarrow>
   (fsm_dispatch_result \<times> system_mode_manager) option" where
  "table_search [] m event guards = None"
| "table_search (t # ts) m event guards =
     (if te_current_mode t \<noteq> current_mode m then table_search ts m event guards
      else if te_event_id t \<noteq> 0 \<and> te_event_id t \<noteq> ev_id event then table_search ts m event guards
      else if \<not> check_guards guards (te_guard_required t) then table_search ts m event guards
      else if current_mode m = SYSTEM_MODE_ERROR \<and> te_next_mode t = SYSTEM_MODE_NORMAL
      then Some (FSM_INVARIANT_FAULT, m)
      else if current_mode m = te_next_mode t then Some (FSM_HANDLED_NO_TRANSITION, m)
      else Some (FSM_TRANSITION_COMMITTED, commit_transition m event t))"

definition unhandled_event_policy :: "system_mode \<Rightarrow> fsm_dispatch_result" where
  "unhandled_event_policy mode =
     (case mode of SYSTEM_MODE_ERROR \<Rightarrow> FSM_REJECTED
      | SYSTEM_MODE_LOW_POWER \<Rightarrow> FSM_DEFERRED
      | SYSTEM_MODE_SERVICE \<Rightarrow> FSM_REJECTED
      | SYSTEM_MODE_RECOVERY \<Rightarrow> FSM_DEFERRED
      | _ \<Rightarrow> FSM_HANDLED_NO_TRANSITION)"

definition is_stale_completion :: "system_mode_manager \<Rightarrow> app_event \<Rightarrow> bool" where
  "is_stale_completion m event \<longleftrightarrow>
     event_is_system_event (ev_id event) \<and> ev_delivery event = DELIVERY_COMPLETION \<and>
     ev_source_generation event \<noteq> 0 \<and> ev_source_generation event \<noteq> mode_generation m"

definition system_fsm_dispatch ::
  "system_mode_manager \<Rightarrow> app_event option \<Rightarrow> mode_guard_context option \<Rightarrow>
   fsm_dispatch_result \<times> system_mode_manager" where
  "system_fsm_dispatch m event guards =
     (case (event, guards) of
        (Some e, Some g) \<Rightarrow>
          if is_stale_completion m e then (FSM_STALE_EVENT, m)
          else (case table_search transition_table m e g of
                  Some r \<Rightarrow> r
                | None \<Rightarrow> (unhandled_event_policy (current_mode m), m))
      | _ \<Rightarrow> (FSM_INVARIANT_FAULT, m))"

definition system_fsm_get_context :: "system_mode_manager \<Rightarrow> system_mode_context" where
  "system_fsm_get_context m =
     \<lparr>smc_current_mode = current_mode m, smc_mode_generation = mode_generation m,
      smc_transition_sequence = transition_sequence m,
      smc_entered_at_monotonic_us = entered_at_monotonic_us m, smc_reason_code = reason_code m,
      smc_source_event_id = source_event_id m, smc_correlation_id = fsm_correlation_id m\<rparr>"

definition system_fsm_get_transition_record :: "system_mode_manager \<Rightarrow> transition_record" where
  "system_fsm_get_transition_record m = last_record m"

definition system_fsm_get_pending_actions :: "system_mode_manager \<Rightarrow> action_mask" where
  "system_fsm_get_pending_actions m = pending_actions m"

definition system_fsm_clear_actions :: "system_mode_manager \<Rightarrow> system_mode_manager" where
  "system_fsm_clear_actions m = m\<lparr>pending_actions := ACTION_NONE\<rparr>"

definition system_fsm_complete_actions :: "system_mode_manager \<Rightarrow> action_mask \<Rightarrow> system_mode_manager" where
  "system_fsm_complete_actions m completed =
     m\<lparr>pending_actions := pending_actions m AND NOT completed\<rparr>"

section \<open>The rows of the table as rules\<close>

text \<open>
  One rule per mode-changing row of the code's table, with the row's number: from, event,
  guard, target and requested actions.  The design's own rules are stated further below.
\<close>

inductive mode_rule :: "mode_guard_context \<Rightarrow> event_id \<Rightarrow> system_mode \<Rightarrow> system_mode \<Rightarrow> action_mask \<Rightarrow> bool"
  for g where
  TR_001: "core_ready g \<Longrightarrow>
     mode_rule g EVT_INIT_COMPLETED SYSTEM_MODE_INIT SYSTEM_MODE_NORMAL ACTION_START_NORMAL"
| TR_002: "service_ready g \<Longrightarrow> service_authorized g \<Longrightarrow>
     mode_rule g EVT_SERVICE_REQUEST SYSTEM_MODE_INIT SYSTEM_MODE_SERVICE ACTION_ENTER_SERVICE"
| TR_003: "recovery_can_run g \<Longrightarrow>
     mode_rule g EVT_RECOVERABLE_INIT_FAILURE SYSTEM_MODE_INIT SYSTEM_MODE_RECOVERY ACTION_START_RECOVERY"
| TR_004: "mode_rule g EVT_CRITICAL_INIT_FAILURE SYSTEM_MODE_INIT SYSTEM_MODE_ERROR ACTION_ENTER_ERROR"
| TR_010: "\<not> critical_blocker_present g \<Longrightarrow> wake_sources_armed g \<Longrightarrow>
     mode_rule g EVT_LOW_POWER_REQUEST SYSTEM_MODE_NORMAL SYSTEM_MODE_LOW_POWER ACTION_PREPARE_LOW_POWER"
| TR_012: "service_authorized g \<Longrightarrow> safe_service_boundary g \<Longrightarrow>
     mode_rule g EVT_SERVICE_REQUEST SYSTEM_MODE_NORMAL SYSTEM_MODE_SERVICE ACTION_ENTER_SERVICE"
| TR_013: "recovery_can_run g \<Longrightarrow>
     mode_rule g EVT_SYSTEM_RECOVERY_REQUIRED SYSTEM_MODE_NORMAL SYSTEM_MODE_RECOVERY ACTION_START_RECOVERY"
| TR_014: "mode_rule g EVT_CRITICAL_ERROR SYSTEM_MODE_NORMAL SYSTEM_MODE_ERROR ACTION_ENTER_ERROR"
| TR_020: "mode_rule g EVT_WAKE SYSTEM_MODE_LOW_POWER SYSTEM_MODE_NORMAL ACTION_RESUME_NORMAL"
| TR_021: "service_authorized g \<Longrightarrow>
     mode_rule g EVT_SERVICE_REQUEST SYSTEM_MODE_LOW_POWER SYSTEM_MODE_SERVICE
       (ACTION_RESUME_NORMAL OR ACTION_ENTER_SERVICE)"
| TR_022: "mode_rule g EVT_CRITICAL_ERROR SYSTEM_MODE_LOW_POWER SYSTEM_MODE_ERROR ACTION_ENTER_ERROR"
| TR_030: "safe_to_resume_normal g \<Longrightarrow>
     mode_rule g EVT_SERVICE_EXIT SYSTEM_MODE_SERVICE SYSTEM_MODE_NORMAL ACTION_START_NORMAL"
| TR_031: "recovery_can_run g \<Longrightarrow>
     mode_rule g EVT_SYSTEM_RECOVERY_REQUIRED SYSTEM_MODE_SERVICE SYSTEM_MODE_RECOVERY ACTION_START_RECOVERY"
| TR_032: "mode_rule g EVT_CRITICAL_ERROR SYSTEM_MODE_SERVICE SYSTEM_MODE_ERROR ACTION_ENTER_ERROR"
| TR_040: "return_normal g \<Longrightarrow>
     mode_rule g EVT_RECOVERY_SUCCEEDED SYSTEM_MODE_RECOVERY SYSTEM_MODE_NORMAL ACTION_RESUME_NORMAL"
| TR_041: "\<not> return_normal g \<Longrightarrow> return_service g \<Longrightarrow>
     mode_rule g EVT_RECOVERY_SUCCEEDED SYSTEM_MODE_RECOVERY SYSTEM_MODE_SERVICE ACTION_ENTER_SERVICE"
| TR_042: "mode_rule g EVT_RECOVERY_FAILED SYSTEM_MODE_RECOVERY SYSTEM_MODE_ERROR ACTION_ENTER_ERROR"
| TR_043: "mode_rule g EVT_CRITICAL_ERROR SYSTEM_MODE_RECOVERY SYSTEM_MODE_ERROR ACTION_ENTER_ERROR"
| TR_050: "recovery_can_run g \<Longrightarrow>
     mode_rule g EVT_AUTHORIZED_RECOVERY_REQUEST SYSTEM_MODE_ERROR SYSTEM_MODE_RECOVERY ACTION_START_RECOVERY"
| TR_051: "reinitialize_allowed g \<Longrightarrow>
     mode_rule g EVT_CONTROLLED_REINITIALIZE SYSTEM_MODE_ERROR SYSTEM_MODE_INIT ACTION_REQUEST_RESET"

inductive_cases from_errorE: "mode_rule g e SYSTEM_MODE_ERROR m' a"
inductive_cases into_low_powerE: "mode_rule g e m SYSTEM_MODE_LOW_POWER a"
inductive_cases into_serviceE: "mode_rule g e m SYSTEM_MODE_SERVICE a"

inductive_simps from_init [simp]: "mode_rule g e SYSTEM_MODE_INIT m' a"
inductive_simps from_normal [simp]: "mode_rule g e SYSTEM_MODE_NORMAL m' a"
inductive_simps from_low_power [simp]: "mode_rule g e SYSTEM_MODE_LOW_POWER m' a"
inductive_simps from_service [simp]: "mode_rule g e SYSTEM_MODE_SERVICE m' a"
inductive_simps from_recovery [simp]: "mode_rule g e SYSTEM_MODE_RECOVERY m' a"
inductive_simps from_error [simp]: "mode_rule g e SYSTEM_MODE_ERROR m' a"

section \<open>The machine implements the rules\<close>

lemma check_guards_masks [simp]:
  "check_guards g 0 = True"
  "check_guards g 1 = core_ready g"
  "check_guards g 12 = (service_ready g \<and> service_authorized g)"
  "check_guards g 8 = service_authorized g"
  "check_guards g 24 = (service_authorized g \<and> safe_service_boundary g)"
  "check_guards g 32 = safe_to_resume_normal g"
  "check_guards g 192 = (\<not> critical_blocker_present g \<and> wake_sources_armed g)"
  "check_guards g 256 = recovery_can_run g"
  "check_guards g 512 = return_normal g"
  "check_guards g 1024 = return_service g"
  "check_guards g 2048 = reinitialize_allowed g"
  by (simp_all add: check_guards_def)

lemma entry_sel [simp]:
  "te_event_id (entry e m m' a g) = e" "te_current_mode (entry e m m' a g) = m"
  "te_next_mode (entry e m m' a g) = m'" "te_action (entry e m m' a g) = a"
  "te_guard_required (entry e m m' a g) = g"
  by (simp_all add: entry_def)

lemma commit_transition_sel [simp]:
  "current_mode (commit_transition m e t) = te_next_mode t"
  "mode_generation (commit_transition m e t) = mode_generation m + 1"
  "transition_sequence (commit_transition m e t) = transition_sequence m + 1"
  "pending_actions (commit_transition m e t) = te_action t"
  "source_event_id (commit_transition m e t) = ev_id e"
  by (simp_all add: commit_transition_def)

text \<open>What a table search may answer.\<close>

definition search_spec :: "system_mode_manager \<Rightarrow> app_event \<Rightarrow> mode_guard_context \<Rightarrow>
    (fsm_dispatch_result \<times> system_mode_manager) option \<Rightarrow> bool" where
  "search_spec m e g r \<longleftrightarrow>
     (if \<exists>n a. mode_rule g (ev_id e) (current_mode m) n a
      then \<exists>t. r = Some (FSM_TRANSITION_COMMITTED, commit_transition m e t) \<and>
               mode_rule g (ev_id e) (current_mode m) (te_next_mode t) (te_action t)
      else r = Some (FSM_HANDLED_NO_TRANSITION, m))"

lemma search_spec_committed:
  "mode_rule g (ev_id e) (current_mode m) (te_next_mode t) (te_action t) \<Longrightarrow>
   search_spec m e g (Some (FSM_TRANSITION_COMMITTED, commit_transition m e t))"
  by (auto simp: search_spec_def)

lemma search_spec_handled:
  "(\<And>n a. \<not> mode_rule g (ev_id e) (current_mode m) n a) \<Longrightarrow>
   search_spec m e g (Some (FSM_HANDLED_NO_TRANSITION, m))"
  by (auto simp: search_spec_def)

text \<open>Only the rows of the current mode matter.\<close>

lemma table_search_rows:
  "table_search ts m e g = table_search (filter (\<lambda>t. te_current_mode t = current_mode m) ts) m e g"
  by (induction ts) auto

lemma table_rows:
  "filter (\<lambda>t. te_current_mode t = SYSTEM_MODE_INIT) transition_table = take 5 transition_table"
  "filter (\<lambda>t. te_current_mode t = SYSTEM_MODE_NORMAL) transition_table = take 7 (drop 5 transition_table)"
  "filter (\<lambda>t. te_current_mode t = SYSTEM_MODE_LOW_POWER) transition_table = take 4 (drop 12 transition_table)"
  "filter (\<lambda>t. te_current_mode t = SYSTEM_MODE_SERVICE) transition_table = take 4 (drop 16 transition_table)"
  "filter (\<lambda>t. te_current_mode t = SYSTEM_MODE_RECOVERY) transition_table = take 5 (drop 20 transition_table)"
  "filter (\<lambda>t. te_current_mode t = SYSTEM_MODE_ERROR) transition_table = drop 25 transition_table"
  by (simp_all add: transition_table_def)

lemma search_init:
  "current_mode m = SYSTEM_MODE_INIT \<Longrightarrow> search_spec m e g (table_search transition_table m e g)"
  by (subst table_search_rows)
    (simp add: table_rows transition_table_def search_spec_committed search_spec_handled)

lemma search_normal:
  "current_mode m = SYSTEM_MODE_NORMAL \<Longrightarrow> search_spec m e g (table_search transition_table m e g)"
  by (subst table_search_rows)
    (simp add: table_rows transition_table_def search_spec_committed search_spec_handled)

lemma search_low_power:
  "current_mode m = SYSTEM_MODE_LOW_POWER \<Longrightarrow> search_spec m e g (table_search transition_table m e g)"
  by (subst table_search_rows)
    (simp add: table_rows transition_table_def search_spec_committed search_spec_handled)

lemma search_service:
  "current_mode m = SYSTEM_MODE_SERVICE \<Longrightarrow> search_spec m e g (table_search transition_table m e g)"
  by (subst table_search_rows)
    (simp add: table_rows transition_table_def search_spec_committed search_spec_handled)

lemma search_recovery:
  "current_mode m = SYSTEM_MODE_RECOVERY \<Longrightarrow> search_spec m e g (table_search transition_table m e g)"
  by (subst table_search_rows)
    (simp add: table_rows transition_table_def search_spec_committed search_spec_handled)

lemma search_error:
  "current_mode m = SYSTEM_MODE_ERROR \<Longrightarrow> search_spec m e g (table_search transition_table m e g)"
  by (subst table_search_rows)
    (simp add: table_rows transition_table_def search_spec_committed search_spec_handled)

lemma table_search_spec: "search_spec m e g (table_search transition_table m e g)"
  by (cases "current_mode m")
    (simp_all add: search_init search_normal search_low_power search_service search_recovery search_error)

lemma dispatch_cases:
  obtains (stale) "is_stale_completion m e" "system_fsm_dispatch m (Some e) (Some g) = (FSM_STALE_EVENT, m)"
  | (committed) t where "\<not> is_stale_completion m e"
      "system_fsm_dispatch m (Some e) (Some g) = (FSM_TRANSITION_COMMITTED, commit_transition m e t)"
      "mode_rule g (ev_id e) (current_mode m) (te_next_mode t) (te_action t)"
  | (handled) "\<not> is_stale_completion m e"
      "system_fsm_dispatch m (Some e) (Some g) = (FSM_HANDLED_NO_TRANSITION, m)"
      "\<And>n a. \<not> mode_rule g (ev_id e) (current_mode m) n a"
  using table_search_spec [of m e g]
  by (cases "is_stale_completion m e")
    (auto simp: system_fsm_dispatch_def search_spec_def split: if_splits)

lemma mode_rule_target_unique:
  "mode_rule g e m n a \<Longrightarrow> mode_rule g e m n' a' \<Longrightarrow> n' = n \<and> a' = a"
  by (cases m) auto

lemma mode_rule_changes: "mode_rule g e m n a \<Longrightarrow> n \<noteq> m"
  by (cases m) auto

section \<open>Runs\<close>

text \<open>A step is the dispatch of one event under the guards captured for it.\<close>

definition fsm_step :: "system_mode_manager \<Rightarrow> app_event \<times> mode_guard_context \<Rightarrow> system_mode_manager" where
  "fsm_step m eg = snd (system_fsm_dispatch m (Some (fst eg)) (Some (snd eg)))"

definition fsm_modes :: "system_mode_manager \<Rightarrow> (app_event \<times> mode_guard_context) list \<Rightarrow> system_mode list" where
  "fsm_modes m egs = map (\<lambda>k. current_mode (foldl fsm_step m (take k egs))) [0..<Suc (length egs)]"

text \<open>Generation and transition counter advance together, from 1 and 0.\<close>

definition fsm_inv :: "system_mode_manager \<Rightarrow> bool" where
  "fsm_inv m \<longleftrightarrow> mode_generation m = ucast (transition_sequence m) + 1"

lemma fsm_init_inv: "fsm_inv system_fsm_init"
  by (simp add: fsm_inv_def system_fsm_init_def)

lemma fsm_step_inv: "fsm_inv m \<Longrightarrow> fsm_inv (fsm_step m eg)"
  by (rule dispatch_cases [of m "fst eg" "snd eg"]) (auto simp: fsm_step_def fsm_inv_def ucast_32_inc)

interpretation fsm: transition_system fsm_step fsm_inv
  by unfold_locales (rule fsm_step_inv)

definition mode_changes :: "system_mode_manager \<Rightarrow> (app_event \<times> mode_guard_context) list \<Rightarrow> nat" where
  "mode_changes m egs =
     length (filter (\<lambda>k. fsm_modes m egs ! k \<noteq> fsm_modes m egs ! Suc k) [0..<length egs])"

lemma fsm_step_sequence:
  "transition_sequence (fsm_step m eg) =
     transition_sequence m + (if current_mode (fsm_step m eg) = current_mode m then 0 else 1)"
  by (rule dispatch_cases [of m "fst eg" "snd eg"])
    (auto simp: fsm_step_def dest: mode_rule_changes)

lemma fsm_modes_nth: "k \<le> length egs \<Longrightarrow> fsm_modes m egs ! k = current_mode (foldl fsm_step m (take k egs))"
  by (simp add: fsm_modes_def del: upt_Suc)

lemma fsm_modes_step:
  "k < length egs \<Longrightarrow>
   foldl fsm_step m (take (Suc k) egs) = fsm_step (foldl fsm_step m (take k egs)) (egs ! k)"
  by (simp add: take_Suc_conv_app_nth)

lemma mode_changes_snoc:
  "mode_changes m (egs @ [eg]) = mode_changes m egs +
     (if current_mode (foldl fsm_step m (egs @ [eg])) = current_mode (foldl fsm_step m egs) then 0 else 1)"
proof -
  have "fsm_modes m (egs @ [eg]) ! k = fsm_modes m egs ! k" if "k \<le> length egs" for k
    using that by (simp add: fsm_modes_nth)
  then have "filter (\<lambda>k. fsm_modes m (egs @ [eg]) ! k \<noteq> fsm_modes m (egs @ [eg]) ! Suc k) [0..<length egs] =
    filter (\<lambda>k. fsm_modes m egs ! k \<noteq> fsm_modes m egs ! Suc k) [0..<length egs]"
    by (intro filter_cong) auto
  then show ?thesis by (auto simp: mode_changes_def fsm_modes_nth)
qed

section \<open>The design's transition rules\<close>

text \<open>
  The evidence of the design's guards: the code's guard context, and two guards that the code has no field for,
  the valid wake reason of TR-SYS-020 and the critical result or reached limit of TR-SYS-042.  Where the design's guard is
  ``critical'' and the event itself says so, there is nothing to test.  The rules are those of docs
  00_overview/06_system_fsm.md (sections 9 and 21 to 26) and 05_firmware/00_core/03_system_fsm_binding.md (9.3 to 9.8); where
  the two differ (TR-SYS-010 also asks for armed wake sources in the second), the second, more detailed one is followed.  The rules
  that stay in their mode (005, 011, 015, 016, 023, 033, 044, 052, 053) are no transitions.
\<close>

record design_evidence = mode_guard_context +
  valid_wake_reason :: bool
  critical_or_limit_reached :: bool

text \<open>The actions the design binds to its transitions, and the bits that request them; the code has no bit
  to leave a service session (TR-SYS-030) and none to save the mode to return to (TR-SYS-031).\<close>

datatype design_action = START_NORMAL_SERVICES | ENTER_SERVICE | EXIT_SERVICE | SAVE_RETURN_MODE | START_RECOVERY | ENTER_ERROR
  | PREPARE_LOW_POWER | RESUME_FROM_LOW_POWER | RESUME_VALIDATED_SERVICES | RESTORE_SERVICE_SESSION | REQUEST_CONTROLLED_REINIT

fun action_bit :: "design_action \<Rightarrow> action_mask option" where
  "action_bit START_NORMAL_SERVICES = Some ACTION_START_NORMAL"
| "action_bit ENTER_SERVICE = Some ACTION_ENTER_SERVICE"
| "action_bit EXIT_SERVICE = None"
| "action_bit SAVE_RETURN_MODE = None"
| "action_bit START_RECOVERY = Some ACTION_START_RECOVERY"
| "action_bit ENTER_ERROR = Some ACTION_ENTER_ERROR"
| "action_bit PREPARE_LOW_POWER = Some ACTION_PREPARE_LOW_POWER"
| "action_bit RESUME_FROM_LOW_POWER = Some ACTION_RESUME_NORMAL"
| "action_bit RESUME_VALIDATED_SERVICES = Some ACTION_RESUME_NORMAL"
| "action_bit RESTORE_SERVICE_SESSION = Some ACTION_ENTER_SERVICE"
| "action_bit REQUEST_CONTROLLED_REINIT = Some ACTION_REQUEST_RESET"

definition action_bits :: "design_action list \<Rightarrow> action_mask" where
  "action_bits acts = fold (\<lambda>a m. m OR a) (List.map_filter action_bit acts) ACTION_NONE"

text \<open>G\_CORE\_READY asks for valid platform data, no critical blocker and valid evidence of the flow path in this boot session;
  G\_RETURN\_NORMAL and G\_RETURN\_SERVICE are about the mode before the recovery.\<close>

definition g_core_ready :: "design_evidence \<Rightarrow> bool" where
  "g_core_ready d \<longleftrightarrow> core_ready d \<and> \<not> critical_blocker_present d \<and> flow_readiness_evidence_valid d"

inductive design_rule :: "design_evidence \<Rightarrow> event_id \<Rightarrow> system_mode \<Rightarrow> system_mode \<Rightarrow> design_action list \<Rightarrow> bool"
  for d where
  TR_SYS_001: "g_core_ready d \<Longrightarrow> design_rule d EVT_INIT_COMPLETED SYSTEM_MODE_INIT SYSTEM_MODE_NORMAL [START_NORMAL_SERVICES]"
| TR_SYS_002: "service_ready d \<Longrightarrow> service_authorized d \<Longrightarrow>
     design_rule d EVT_SERVICE_REQUEST SYSTEM_MODE_INIT SYSTEM_MODE_SERVICE [ENTER_SERVICE]"
| TR_SYS_003: "recovery_can_run d \<Longrightarrow>
     design_rule d EVT_RECOVERABLE_INIT_FAILURE SYSTEM_MODE_INIT SYSTEM_MODE_RECOVERY [START_RECOVERY]"
| TR_SYS_004: "design_rule d EVT_CRITICAL_INIT_FAILURE SYSTEM_MODE_INIT SYSTEM_MODE_ERROR [ENTER_ERROR]"
| TR_SYS_010: "\<not> critical_blocker_present d \<Longrightarrow> wake_sources_armed d \<Longrightarrow>
     design_rule d EVT_LOW_POWER_REQUEST SYSTEM_MODE_NORMAL SYSTEM_MODE_LOW_POWER [PREPARE_LOW_POWER]"
| TR_SYS_012: "service_authorized d \<Longrightarrow> safe_service_boundary d \<Longrightarrow>
     design_rule d EVT_SERVICE_REQUEST SYSTEM_MODE_NORMAL SYSTEM_MODE_SERVICE [ENTER_SERVICE]"
| TR_SYS_013: "recovery_can_run d \<Longrightarrow>
     design_rule d EVT_SYSTEM_RECOVERY_REQUIRED SYSTEM_MODE_NORMAL SYSTEM_MODE_RECOVERY [START_RECOVERY]"
| TR_SYS_014: "design_rule d EVT_CRITICAL_ERROR SYSTEM_MODE_NORMAL SYSTEM_MODE_ERROR [ENTER_ERROR]"
| TR_SYS_020: "valid_wake_reason d \<Longrightarrow> design_rule d EVT_WAKE SYSTEM_MODE_LOW_POWER SYSTEM_MODE_NORMAL [RESUME_FROM_LOW_POWER]"
| TR_SYS_021: "service_authorized d \<Longrightarrow>
     design_rule d EVT_SERVICE_REQUEST SYSTEM_MODE_LOW_POWER SYSTEM_MODE_SERVICE [RESUME_FROM_LOW_POWER, ENTER_SERVICE]"
| TR_SYS_022: "design_rule d EVT_CRITICAL_ERROR SYSTEM_MODE_LOW_POWER SYSTEM_MODE_ERROR [ENTER_ERROR]"
| TR_SYS_030: "safe_to_resume_normal d \<Longrightarrow>
     design_rule d EVT_SERVICE_EXIT SYSTEM_MODE_SERVICE SYSTEM_MODE_NORMAL [EXIT_SERVICE, START_NORMAL_SERVICES]"
| TR_SYS_031: "recovery_can_run d \<Longrightarrow>
     design_rule d EVT_SYSTEM_RECOVERY_REQUIRED SYSTEM_MODE_SERVICE SYSTEM_MODE_RECOVERY [SAVE_RETURN_MODE, START_RECOVERY]"
| TR_SYS_032: "design_rule d EVT_CRITICAL_ERROR SYSTEM_MODE_SERVICE SYSTEM_MODE_ERROR [ENTER_ERROR]"
| TR_SYS_040: "return_normal d \<Longrightarrow>
     design_rule d EVT_RECOVERY_SUCCEEDED SYSTEM_MODE_RECOVERY SYSTEM_MODE_NORMAL [RESUME_VALIDATED_SERVICES]"
| TR_SYS_041: "return_service d \<Longrightarrow>
     design_rule d EVT_RECOVERY_SUCCEEDED SYSTEM_MODE_RECOVERY SYSTEM_MODE_SERVICE [RESTORE_SERVICE_SESSION]"
| TR_SYS_042: "critical_or_limit_reached d \<Longrightarrow>
     design_rule d EVT_RECOVERY_FAILED SYSTEM_MODE_RECOVERY SYSTEM_MODE_ERROR [ENTER_ERROR]"
| TR_SYS_043: "design_rule d EVT_CRITICAL_ERROR SYSTEM_MODE_RECOVERY SYSTEM_MODE_ERROR [ENTER_ERROR]"
| TR_SYS_050: "recovery_can_run d \<Longrightarrow>
     design_rule d EVT_AUTHORIZED_RECOVERY_REQUEST SYSTEM_MODE_ERROR SYSTEM_MODE_RECOVERY [START_RECOVERY]"
| TR_SYS_051: "reinitialize_allowed d \<Longrightarrow>
     design_rule d EVT_CONTROLLED_REINITIALIZE SYSTEM_MODE_ERROR SYSTEM_MODE_INIT [REQUEST_CONTROLLED_REINIT]"

inductive_simps design_from_init [simp]: "design_rule d e SYSTEM_MODE_INIT m' a"
inductive_simps design_from_normal [simp]: "design_rule d e SYSTEM_MODE_NORMAL m' a"
inductive_simps design_from_low_power [simp]: "design_rule d e SYSTEM_MODE_LOW_POWER m' a"
inductive_simps design_from_service [simp]: "design_rule d e SYSTEM_MODE_SERVICE m' a"
inductive_simps design_from_recovery [simp]: "design_rule d e SYSTEM_MODE_RECOVERY m' a"
inductive_simps design_from_error [simp]: "design_rule d e SYSTEM_MODE_ERROR m' a"

text \<open>The transitions the code makes although the design's guard refuses them: the guard is not in the table.\<close>

definition missing_guard :: "design_evidence \<Rightarrow> event_id \<Rightarrow> system_mode \<Rightarrow> system_mode \<Rightarrow> bool" where
  "missing_guard d e m m' \<longleftrightarrow>
     (m = SYSTEM_MODE_INIT \<and> e = EVT_INIT_COMPLETED \<and> m' = SYSTEM_MODE_NORMAL \<and> core_ready d \<and>
        (critical_blocker_present d \<or> \<not> flow_readiness_evidence_valid d))
   \<or> (m = SYSTEM_MODE_LOW_POWER \<and> e = EVT_WAKE \<and> m' = SYSTEM_MODE_NORMAL \<and> \<not> valid_wake_reason d)
   \<or> (m = SYSTEM_MODE_RECOVERY \<and> e = EVT_RECOVERY_FAILED \<and> m' = SYSTEM_MODE_ERROR \<and> \<not> critical_or_limit_reached d)"

lemma code_guards_sel [simp]:
  "core_ready (mode_guard_context.truncate d) = core_ready d"
  "service_ready (mode_guard_context.truncate d) = service_ready d"
  "service_authorized (mode_guard_context.truncate d) = service_authorized d"
  "safe_service_boundary (mode_guard_context.truncate d) = safe_service_boundary d"
  "safe_to_resume_normal (mode_guard_context.truncate d) = safe_to_resume_normal d"
  "critical_blocker_present (mode_guard_context.truncate d) = critical_blocker_present d"
  "wake_sources_armed (mode_guard_context.truncate d) = wake_sources_armed d"
  "recovery_can_run (mode_guard_context.truncate d) = recovery_can_run d"
  "return_normal (mode_guard_context.truncate d) = return_normal d"
  "return_service (mode_guard_context.truncate d) = return_service d"
  "reinitialize_allowed (mode_guard_context.truncate d) = reinitialize_allowed d"
  by (simp_all add: mode_guard_context.defs)

lemma action_bits_simps [simp]:
  "action_bits [] = ACTION_NONE"
  "action_bits [a] = (case action_bit a of None \<Rightarrow> ACTION_NONE | Some b \<Rightarrow> b)"
  "action_bits [a, b] = (case action_bit a of None \<Rightarrow> ACTION_NONE | Some c \<Rightarrow> c) OR (case action_bit b of None \<Rightarrow> ACTION_NONE | Some c \<Rightarrow> c)"
  by (auto simp: action_bits_def List.map_filter_simps split: option.split)

text \<open>The rows of the table and the design's rules.\<close>

lemma row_follows_design:
  "mode_rule (mode_guard_context.truncate d) e m n a \<Longrightarrow>
   (\<exists>acts. design_rule d e m n acts \<and> a = action_bits acts) \<or> missing_guard d e m n \<and> (\<nexists>n acts. design_rule d e m n acts)"
  by (erule mode_rule.cases; simp add: missing_guard_def g_core_ready_def; blast?)

lemma design_has_row:
  "design_rule d e m n acts \<Longrightarrow> \<exists>n' a. mode_rule (mode_guard_context.truncate d) e m n' a"
  by (erule design_rule.cases; simp add: g_core_ready_def; blast?)

lemma missing_guard_has_row:
  "missing_guard d e m n \<Longrightarrow> \<exists>a. mode_rule (mode_guard_context.truncate d) e m n a"
  by (auto simp: missing_guard_def)

section \<open>Properties\<close>

text \<open>C3: The table-driven dispatcher against the design's transition rules TR-SYS-001 to 051.  Where the design has a
  transition for an event that is not stale, the code commits one the design allows, with the new mode and exactly those of its actions that the code
  has a bit for (no bit leaves a service session or saves the return mode).  Beyond the design the code commits exactly three
  transitions, whose guard is missing: initialisation completed without evidence of the flow path or with a critical blocker, a wake without a valid
  reason, and a failed recovery before its limit.  Every other event is handled without a change of the manager,
  so that the results REJECTED, DEFERRED and INVARIANT_FAULT are never produced.\<close>

theorem fsm_dispatch_implements_rules:
  assumes "system_fsm_dispatch m (Some e) (Some (mode_guard_context.truncate d)) = (r, m')"
  shows "r = (if is_stale_completion m e then FSM_STALE_EVENT
              else if (\<exists>n acts. design_rule d (ev_id e) (current_mode m) n acts) \<or> (\<exists>n. missing_guard d (ev_id e) (current_mode m) n)
              then FSM_TRANSITION_COMMITTED else FSM_HANDLED_NO_TRANSITION) \<and>
    (r = FSM_TRANSITION_COMMITTED \<longrightarrow>
       ((\<exists>acts. design_rule d (ev_id e) (current_mode m) (current_mode m') acts \<and> pending_actions m' = action_bits acts)
        \<or> missing_guard d (ev_id e) (current_mode m) (current_mode m') \<and> (\<nexists>n acts. design_rule d (ev_id e) (current_mode m) n acts)) \<and>
       mode_generation m' = mode_generation m + 1 \<and> transition_sequence m' = transition_sequence m + 1) \<and>
    (r \<noteq> FSM_TRANSITION_COMMITTED \<longrightarrow> m' = m)"
proof (rule dispatch_cases [of m e "mode_guard_context.truncate d"])
  fix t assume c: "\<not> is_stale_completion m e"
    "system_fsm_dispatch m (Some e) (Some (mode_guard_context.truncate d)) = (FSM_TRANSITION_COMMITTED, commit_transition m e t)"
    "mode_rule (mode_guard_context.truncate d) (ev_id e) (current_mode m) (te_next_mode t) (te_action t)"
  then have "r = FSM_TRANSITION_COMMITTED" "m' = commit_transition m e t" using assms by simp_all
  then show ?thesis using row_follows_design [OF c(3)] c(1) by auto
next
  assume h: "\<And>n a. \<not> mode_rule (mode_guard_context.truncate d) (ev_id e) (current_mode m) n a" "\<not> is_stale_completion m e"
    "system_fsm_dispatch m (Some e) (Some (mode_guard_context.truncate d)) = (FSM_HANDLED_NO_TRANSITION, m)"
  then have "\<not> design_rule d (ev_id e) (current_mode m) n acts" "\<not> missing_guard d (ev_id e) (current_mode m) n" for n acts
    using design_has_row missing_guard_has_row by blast+
  then show ?thesis using h assms by simp
qed (use assms in simp)

lemma fsm_dispatch_implements_rules_witness:
  "fst (system_fsm_dispatch system_fsm_init (Some (zero_event\<lparr>ev_id := EVT_INIT_COMPLETED\<rparr>))
        (Some (zero_guards\<lparr>core_ready := True, flow_readiness_evidence_valid := True\<rparr>))) = FSM_TRANSITION_COMMITTED"
proof -
  let ?g = "zero_guards\<lparr>core_ready := True, flow_readiness_evidence_valid := True\<rparr>"
  let ?d = "mode_guard_context.extend ?g (design_evidence.fields False False)"
  let ?r = "system_fsm_dispatch system_fsm_init (Some (zero_event\<lparr>ev_id := EVT_INIT_COMPLETED\<rparr>)) (Some ?g)"
  have d: "mode_guard_context.truncate ?d = ?g" by (simp add: mode_guard_context.defs)
  have rule: "design_rule ?d EVT_INIT_COMPLETED SYSTEM_MODE_INIT SYSTEM_MODE_NORMAL [START_NORMAL_SERVICES]"
    by (simp add: g_core_ready_def mode_guard_context.defs zero_guards_def)
  show ?thesis
    using fsm_dispatch_implements_rules [of system_fsm_init "zero_event\<lparr>ev_id := EVT_INIT_COMPLETED\<rparr>" ?d "fst ?r" "snd ?r"] rule
    by (auto simp: d system_fsm_init_def is_stale_completion_def zero_event_def)
qed

text \<open>In any run of the machine, ERROR is left only for RECOVERY (with the recovery guard, on the
  authorised request) or INIT (with the reinitialisation guard): never directly for NORMAL.\<close>

theorem error_exit_is_guarded:
  assumes "k < length egs" "fsm_modes m egs ! k = SYSTEM_MODE_ERROR" "fsm_modes m egs ! Suc k \<noteq> SYSTEM_MODE_ERROR"
  shows "(fsm_modes m egs ! Suc k = SYSTEM_MODE_RECOVERY \<and> recovery_can_run (snd (egs ! k)) \<and>
            ev_id (fst (egs ! k)) = EVT_AUTHORIZED_RECOVERY_REQUEST) \<or>
         (fsm_modes m egs ! Suc k = SYSTEM_MODE_INIT \<and> reinitialize_allowed (snd (egs ! k)) \<and>
            ev_id (fst (egs ! k)) = EVT_CONTROLLED_REINITIALIZE)"
  using assms
  by (rule_tac dispatch_cases [of "foldl fsm_step m (take k egs)" "fst (egs ! k)" "snd (egs ! k)"])
    (auto simp: fsm_modes_nth fsm_modes_step fsm_step_def)

lemma error_exit_is_guarded_witness:
  "fsm_modes (system_fsm_init\<lparr>current_mode := SYSTEM_MODE_ERROR\<rparr>)
     [(zero_event\<lparr>ev_id := EVT_AUTHORIZED_RECOVERY_REQUEST\<rparr>, zero_guards\<lparr>recovery_can_run := True\<rparr>)] ! Suc 0 = SYSTEM_MODE_RECOVERY"
  (is "fsm_modes ?m ?egs ! Suc 0 = _")
proof -
  have "fsm_modes ?m ?egs ! 0 = SYSTEM_MODE_ERROR" by code_simp
  moreover have "fsm_modes ?m ?egs ! Suc 0 \<noteq> SYSTEM_MODE_ERROR" by code_simp
  ultimately show ?thesis
    using error_exit_is_guarded [of 0 ?egs ?m] by simp
qed

text \<open>A critical error is never blocked by a guard: from NORMAL, LOW_POWER, SERVICE or RECOVERY an
  (edge) critical-error event always commits the transition to ERROR and requests exactly the
  error entry action.\<close>

theorem critical_error_always_enters_error:
  assumes "current_mode m \<notin> {SYSTEM_MODE_INIT, SYSTEM_MODE_ERROR}"
    and "ev_id e = EVT_CRITICAL_ERROR" "ev_delivery e \<noteq> DELIVERY_COMPLETION"
  shows "\<exists>m'. system_fsm_dispatch m (Some e) (Some g) = (FSM_TRANSITION_COMMITTED, m') \<and>
    current_mode m' = SYSTEM_MODE_ERROR \<and> pending_actions m' = ACTION_ENTER_ERROR"
  using assms
  by (rule_tac dispatch_cases [of m e g]; cases "current_mode m") (auto simp: is_stale_completion_def)

lemma critical_error_always_enters_error_witness:
  "\<exists>m'. system_fsm_dispatch (system_fsm_init\<lparr>current_mode := SYSTEM_MODE_SERVICE\<rparr>)
      (Some (zero_event\<lparr>ev_id := EVT_CRITICAL_ERROR\<rparr>)) (Some zero_guards) = (FSM_TRANSITION_COMMITTED, m') \<and>
    current_mode m' = SYSTEM_MODE_ERROR \<and> pending_actions m' = ACTION_ENTER_ERROR"
  by (rule critical_error_always_enters_error) (simp_all add: zero_event_def)

text \<open>In every run from initialisation the transition counter equals the number of mode changes
  (modulo its width) and the mode generation is the counter plus one.\<close>

theorem fsm_counters_track_changes:
  "let m = foldl fsm_step system_fsm_init egs
   in transition_sequence m = of_nat (mode_changes system_fsm_init egs) \<and>
      mode_generation m = ucast (transition_sequence m) + 1"
proof -
  have "transition_sequence (foldl fsm_step system_fsm_init egs) = of_nat (mode_changes system_fsm_init egs)"
  proof (induction egs rule: rev_induct)
    case Nil
    then show ?case by (simp add: mode_changes_def system_fsm_init_def)
  next
    case (snoc eg egs)
    then show ?case by (simp add: mode_changes_snoc fsm_step_sequence)
  qed
  moreover have "fsm_inv (foldl fsm_step system_fsm_init egs)" by (rule fsm.run_inv [OF fsm_init_inv])
  ultimately show ?thesis by (simp add: Let_def fsm_inv_def)
qed

text \<open>Entering SERVICE needs an authorisation, or a completed recovery that returns to service;
  LOW_POWER is entered only with wake sources armed and no critical blocker.\<close>

lemma service_entry_authorised:
  "mode_rule g e m SYSTEM_MODE_SERVICE a \<Longrightarrow>
   service_authorized g \<or> (m = SYSTEM_MODE_RECOVERY \<and> return_service g \<and> \<not> return_normal g)"
  by (auto elim: into_serviceE)

lemma low_power_entry_safe:
  "mode_rule g e m SYSTEM_MODE_LOW_POWER a \<Longrightarrow>
   m = SYSTEM_MODE_NORMAL \<and> \<not> critical_blocker_present g \<and> wake_sources_armed g"
  by (auto elim: into_low_powerE)

lemma error_exit_rule: "mode_rule g e SYSTEM_MODE_ERROR n a \<Longrightarrow> n \<in> {SYSTEM_MODE_RECOVERY, SYSTEM_MODE_INIT}"
  by (auto elim: from_errorE)

end
