(* ===== verification/Domain_Types.thy ===== *)
theory Domain_Types
  imports System_Fsm
begin

text \<open>
  The domain records shared by the services (\<open>2.firmware/src/domain\<close>) and the runtime
  snapshot assembled from them (\<open>infrastructure/repositories/runtime_snapshot.h\<close>).  Field
  order and names follow the headers; every record has the all-zero value that
  \<open>memset\<close> leaves in the code.
\<close>

section \<open>Metadata\<close>

datatype data_validity = DATA_VALID | DATA_INVALID | DATA_UNAVAILABLE
datatype data_freshness = DATA_FRESH | DATA_STALE | DATA_FRESHNESS_UNKNOWN
datatype production_acceptance = DATA_ACCEPTED | DATA_DEGRADED_NOT_ACCEPTED | DATA_REJECTED
datatype measurement_purpose =
  MEAS_PURPOSE_BOOT_SELF_CHECK | MEAS_PURPOSE_PRODUCTION | MEAS_PURPOSE_SERVICE
| MEAS_PURPOSE_CALIBRATION | MEAS_PURPOSE_DIAGNOSTIC | MEAS_PURPOSE_RECOVERY_VERIFY
datatype data_origin =
  DATA_ORIGIN_LIVE_DEVICE | DATA_ORIGIN_SIMULATED_DEVICE | DATA_ORIGIN_REPLAYED_FIXTURE
datatype data_provenance =
  PROVENANCE_MEASURED | PROVENANCE_RESTORED | PROVENANCE_DEFAULTED | PROVENANCE_ESTIMATED
datatype time_quality =
  TIME_QUALITY_VALID | TIME_QUALITY_INVALID | TIME_QUALITY_ESTIMATED | TIME_QUALITY_UNKNOWN
datatype system_time_quality = SYS_TIME_INVALID | SYS_TIME_RTC_HOLDOVER | SYS_TIME_NETWORK_SYNCED

record measurement_binding_reference =
  mb_binding_id :: u32
  mb_binding_version :: u32
  mb_profile_version :: u32

record result_metadata =
  md_source_id :: u32
  md_source_generation :: u32
  md_sample_sequence :: u64
  md_result_version :: u64
  md_sample_monotonic_us :: u64
  md_completion_monotonic_us :: u64
  md_wall_time_s :: i64
  md_config_version :: u32
  md_calibration_version :: u32
  md_reason_flags :: u32
  md_validity :: data_validity
  md_freshness :: data_freshness
  md_acceptance :: production_acceptance
  md_purpose :: measurement_purpose
  md_origin :: data_origin
  md_provenance :: data_provenance
  md_binding :: measurement_binding_reference
  md_time_quality :: time_quality

definition zero_binding :: measurement_binding_reference where
  "zero_binding = \<lparr>mb_binding_id = 0, mb_binding_version = 0, mb_profile_version = 0\<rparr>"

definition zero_metadata :: result_metadata where
  "zero_metadata =
     \<lparr>md_source_id = 0, md_source_generation = 0, md_sample_sequence = 0, md_result_version = 0,
      md_sample_monotonic_us = 0, md_completion_monotonic_us = 0, md_wall_time_s = 0,
      md_config_version = 0, md_calibration_version = 0, md_reason_flags = 0,
      md_validity = DATA_VALID, md_freshness = DATA_FRESH, md_acceptance = DATA_ACCEPTED,
      md_purpose = MEAS_PURPOSE_BOOT_SELF_CHECK, md_origin = DATA_ORIGIN_LIVE_DEVICE,
      md_provenance = PROVENANCE_MEASURED, md_binding = zero_binding,
      md_time_quality = TIME_QUALITY_VALID\<rparr>"

definition result_metadata_is_production :: "result_metadata \<Rightarrow> bool" where
  "result_metadata_is_production m \<longleftrightarrow>
     md_purpose m = MEAS_PURPOSE_PRODUCTION \<and> md_origin m = DATA_ORIGIN_LIVE_DEVICE \<and>
     md_provenance m = PROVENANCE_MEASURED"

section \<open>Status, measurement, product and power records\<close>

datatype connectivity_status =
  CONN_NOT_READY | CONN_CONNECTING | CONN_ONLINE | CONN_OFFLINE | CONN_DEGRADED
datatype measurement_status =
  MEASUREMENT_STATUS_ACTIVE | MEASUREMENT_STATUS_QUIESCED | MEASUREMENT_STATUS_DEGRADED
| MEASUREMENT_STATUS_DISABLED

record orthogonal_status_set =
  os_connectivity :: connectivity_status
  os_measurement :: measurement_status
  os_storage_status_flags :: u32
  os_diagnostic_summary_flags :: u32

datatype flow_direction = FLOW_DIRECTION_FORWARD | FLOW_DIRECTION_REVERSE | FLOW_DIRECTION_NONE

record temperature_result =
  tp_meta :: result_metadata
  tp_temperature_mdeg_c :: i32
  tp_processing_flags :: u32

record flow_result =
  fl_meta :: result_metadata
  fl_flow_ul_per_s :: i64
  fl_direction :: flow_direction
  fl_compensation_flags :: u32
  fl_processing_flags :: u32
  fl_paired_temperature_sequence :: u64

record pressure_result =
  pr_meta :: result_metadata
  pr_pressure_pa :: i32
  pr_processing_flags :: u32

record volume_state =
  vs_state_version :: u64
  vs_total_volume_ul :: u64
  vs_forward_volume_ul :: u64
  vs_reverse_volume_ul :: u64
  vs_forward_remainder :: u64
  vs_reverse_remainder :: u64
  vs_last_consumed_flow_sequence :: u64
  vs_last_sample_monotonic_us :: u64
  vs_anchor_sample_monotonic_us :: u64
  vs_anchor_flow_ul_per_s :: i64
  vs_source_generation :: u32
  vs_binding_id :: u32
  vs_updated_monotonic_us :: u64
  vs_checkpointed_forward_ul :: u64
  vs_checkpointed_reverse_ul :: u64
  vs_checkpoint_sequence :: u64
  vs_config_version :: u32
  vs_flags :: u32

datatype leak_state = LEAK_STATE_NORMAL | LEAK_STATE_SUSPECTED | LEAK_STATE_CONFIRMED
datatype leak_evaluation_status =
  LEAK_EVAL_NOT_READY | LEAK_EVAL_ACTIVE | LEAK_EVAL_DEGRADED | LEAK_EVAL_UNAVAILABLE
datatype leak_primary_reason =
  LEAK_REASON_NONE | LEAK_REASON_CONTINUOUS_FLOW | LEAK_REASON_HIGH_FLOW_BURST
datatype leak_severity =
  LEAK_SEVERITY_NONE | LEAK_SEVERITY_LOW | LEAK_SEVERITY_MEDIUM | LEAK_SEVERITY_HIGH

abbreviation LEAK_EVIDENCE_CONTINUOUS_FLOW :: u32 where "LEAK_EVIDENCE_CONTINUOUS_FLOW \<equiv> 1"
abbreviation LEAK_EVIDENCE_HIGH_FLOW :: u32 where "LEAK_EVIDENCE_HIGH_FLOW \<equiv> 2"
abbreviation LEAK_EVIDENCE_LOW_PRESSURE :: u32 where "LEAK_EVIDENCE_LOW_PRESSURE \<equiv> 4"
abbreviation LEAK_EVIDENCE_HIGH_PRESSURE :: u32 where "LEAK_EVIDENCE_HIGH_PRESSURE \<equiv> 8"

record leak_detection_result =
  lr_result_version :: u64
  lr_state_change_sequence :: u64
  lr_state :: leak_state
  lr_evaluation_status :: leak_evaluation_status
  lr_primary_reason :: leak_primary_reason
  lr_severity :: leak_severity
  lr_reason_flags :: u32
  lr_evidence_flags :: u32
  lr_quality_flags :: u32
  lr_state_entered_monotonic_us :: u64
  lr_latest_evidence_monotonic_us :: u64
  lr_continuous_duration_us :: u64
  lr_pressure_evidence_duration_us :: u64
  lr_source_snapshot_version :: u64
  lr_flow_result_version :: u64
  lr_pressure_result_version :: u64
  lr_volume_state_version :: u64
  lr_runtime_generation :: u32
  lr_config_version :: u32
  lr_algorithm_version :: u32
  lr_profile_version :: u32
  lr_event_wall_time_s :: i64
  lr_event_time_quality :: time_quality

datatype power_health = POWER_STATE_UNKNOWN | POWER_STATE_NORMAL | POWER_STATE_LOW | POWER_STATE_CRITICAL

record power_snapshot =
  ps_sample_sequence :: u64
  ps_sample_monotonic_us :: u64
  ps_battery_mv :: u16
  ps_raw_adc :: u16
  ps_quality_flags :: u8
  ps_available :: bool
  ps_health :: power_health

section \<open>The runtime snapshot\<close>

record runtime_snapshot =
  rs_schema_version :: u32
  rs_snapshot_version :: u64
  rs_publish_monotonic_us :: u64
  rs_publish_wall_time_s :: i64
  rs_publish_time_quality :: time_quality
  rs_mode :: system_mode_context
  rs_statuses :: orthogonal_status_set
  rs_temperature :: temperature_result
  rs_flow :: flow_result
  rs_pressure :: pressure_result
  rs_volume :: volume_state
  rs_leak :: leak_detection_result
  rs_power :: power_snapshot
  rs_active_config_version :: u32
  rs_active_calibration_version :: u32
  rs_diagnostic_summary_flags :: u32

definition zero_temperature :: temperature_result where
  "zero_temperature = \<lparr>tp_meta = zero_metadata, tp_temperature_mdeg_c = 0, tp_processing_flags = 0\<rparr>"

definition zero_flow :: flow_result where
  "zero_flow =
     \<lparr>fl_meta = zero_metadata, fl_flow_ul_per_s = 0, fl_direction = FLOW_DIRECTION_FORWARD,
      fl_compensation_flags = 0, fl_processing_flags = 0, fl_paired_temperature_sequence = 0\<rparr>"

definition zero_pressure :: pressure_result where
  "zero_pressure = \<lparr>pr_meta = zero_metadata, pr_pressure_pa = 0, pr_processing_flags = 0\<rparr>"

definition zero_volume_state :: volume_state where
  "zero_volume_state =
     \<lparr>vs_state_version = 0, vs_total_volume_ul = 0, vs_forward_volume_ul = 0, vs_reverse_volume_ul = 0,
      vs_forward_remainder = 0, vs_reverse_remainder = 0, vs_last_consumed_flow_sequence = 0,
      vs_last_sample_monotonic_us = 0, vs_anchor_sample_monotonic_us = 0, vs_anchor_flow_ul_per_s = 0,
      vs_source_generation = 0, vs_binding_id = 0, vs_updated_monotonic_us = 0,
      vs_checkpointed_forward_ul = 0, vs_checkpointed_reverse_ul = 0, vs_checkpoint_sequence = 0,
      vs_config_version = 0, vs_flags = 0\<rparr>"

definition zero_leak_result :: leak_detection_result where
  "zero_leak_result =
     \<lparr>lr_result_version = 0, lr_state_change_sequence = 0, lr_state = LEAK_STATE_NORMAL,
      lr_evaluation_status = LEAK_EVAL_NOT_READY, lr_primary_reason = LEAK_REASON_NONE,
      lr_severity = LEAK_SEVERITY_NONE, lr_reason_flags = 0, lr_evidence_flags = 0,
      lr_quality_flags = 0, lr_state_entered_monotonic_us = 0, lr_latest_evidence_monotonic_us = 0,
      lr_continuous_duration_us = 0, lr_pressure_evidence_duration_us = 0,
      lr_source_snapshot_version = 0, lr_flow_result_version = 0, lr_pressure_result_version = 0,
      lr_volume_state_version = 0, lr_runtime_generation = 0, lr_config_version = 0,
      lr_algorithm_version = 0, lr_profile_version = 0, lr_event_wall_time_s = 0,
      lr_event_time_quality = TIME_QUALITY_VALID\<rparr>"

definition zero_power :: power_snapshot where
  "zero_power =
     \<lparr>ps_sample_sequence = 0, ps_sample_monotonic_us = 0, ps_battery_mv = 0, ps_raw_adc = 0,
      ps_quality_flags = 0, ps_available = False, ps_health = POWER_STATE_UNKNOWN\<rparr>"

definition zero_mode_context :: system_mode_context where
  "zero_mode_context =
     \<lparr>smc_current_mode = SYSTEM_MODE_INIT, smc_mode_generation = 0, smc_transition_sequence = 0,
      smc_entered_at_monotonic_us = 0, smc_reason_code = 0, smc_source_event_id = 0,
      smc_correlation_id = 0\<rparr>"

definition zero_statuses :: orthogonal_status_set where
  "zero_statuses =
     \<lparr>os_connectivity = CONN_NOT_READY, os_measurement = MEASUREMENT_STATUS_ACTIVE,
      os_storage_status_flags = 0, os_diagnostic_summary_flags = 0\<rparr>"

definition zero_snapshot :: runtime_snapshot where
  "zero_snapshot =
     \<lparr>rs_schema_version = 0, rs_snapshot_version = 0, rs_publish_monotonic_us = 0,
      rs_publish_wall_time_s = 0, rs_publish_time_quality = TIME_QUALITY_VALID,
      rs_mode = zero_mode_context, rs_statuses = zero_statuses, rs_temperature = zero_temperature,
      rs_flow = zero_flow, rs_pressure = zero_pressure, rs_volume = zero_volume_state,
      rs_leak = zero_leak_result, rs_power = zero_power, rs_active_config_version = 0,
      rs_active_calibration_version = 0, rs_diagnostic_summary_flags = 0\<rparr>"

end
