(* ===== verification/Repository.thy ===== *)
theory Repository
  imports Domain_Types
begin

text \<open>
  The runtime data repository (infrastructure/repositories/data_repository.c,
  repo_transaction.c): two snapshot buffers, one published through \<open>active_index\<close>, the other
  written by at most one transaction and published by its commit.

  The transaction's \<open>repo\<close> pointer is the flag \<open>tx_repo\<close> (bound or NULL): every transaction
  of the model works on the one repository passed as state.  The byte copies of \<open>write_field\<close>
  are field updates; the reader's memcpy is a sequence of field copies in any order, with
  writer operations between any two of its steps.
\<close>

section \<open>State and operations\<close>

record data_repository =
  dr_buffers :: "runtime_snapshot list"
  dr_active_index :: u8
  dr_snapshot_version :: u64
  dr_write_index :: u8
  dr_writer_active :: bool

abbreviation TXN_STATE_INIT :: u8 where "TXN_STATE_INIT \<equiv> 0"
abbreviation TXN_STATE_ACTIVE :: u8 where "TXN_STATE_ACTIVE \<equiv> 1"
abbreviation TXN_STATE_COMMITTED :: u8 where "TXN_STATE_COMMITTED \<equiv> 2"
abbreviation TXN_STATE_ABORTED :: u8 where "TXN_STATE_ABORTED \<equiv> 3"
abbreviation TXN_STATE_ERROR :: u8 where "TXN_STATE_ERROR \<equiv> 4"

record repo_write_txn =
  tx_repo :: bool
  tx_base_generation :: u64
  tx_written_fields_mask :: u32
  tx_inactive_index :: u8
  tx_state :: u8

definition buffer :: "data_repository \<Rightarrow> u8 \<Rightarrow> runtime_snapshot" where
  "buffer r i = dr_buffers r ! unat i"

definition set_buffer :: "u8 \<Rightarrow> runtime_snapshot \<Rightarrow> data_repository \<Rightarrow> data_repository" where
  "set_buffer i s r = r\<lparr>dr_buffers := (dr_buffers r)[unat i := s]\<rparr>"

definition data_repository_init :: data_repository where
  "data_repository_init =
     \<lparr>dr_buffers = [zero_snapshot\<lparr>rs_schema_version := 1, rs_snapshot_version := 0\<rparr>,
                    zero_snapshot\<lparr>rs_schema_version := 1, rs_snapshot_version := 0\<rparr>],
      dr_active_index = 0, dr_snapshot_version = 0, dr_write_index = 0, dr_writer_active = False\<rparr>"

definition txn_init :: repo_write_txn where
  "txn_init =
     \<lparr>tx_repo = False, tx_base_generation = 0, tx_written_fields_mask = 0, tx_inactive_index = 0,
      tx_state = TXN_STATE_INIT\<rparr>"

definition txn_begin :: "repo_write_txn \<Rightarrow> data_repository \<Rightarrow> bool \<times> repo_write_txn \<times> data_repository" where
  "txn_begin t r =
     (if tx_state t = TXN_STATE_ACTIVE \<or> dr_writer_active r then (False, t, r)
      else
        let active = dr_active_index r;
            inactive = active XOR 1;
            r1 = set_buffer inactive (buffer r active) r
        in (True,
            t\<lparr>tx_repo := True, tx_base_generation := dr_snapshot_version r, tx_written_fields_mask := 0,
              tx_inactive_index := inactive, tx_state := TXN_STATE_ACTIVE\<rparr>,
            r1\<lparr>dr_write_index := inactive, dr_writer_active := True\<rparr>))"

definition txn_commit :: "repo_write_txn \<Rightarrow> data_repository \<Rightarrow> bool \<times> repo_write_txn \<times> data_repository" where
  "txn_commit t r =
     (if tx_state t \<noteq> TXN_STATE_ACTIVE then (False, t\<lparr>tx_state := TXN_STATE_ERROR\<rparr>, r)
      else if \<not> tx_repo t \<or> \<not> dr_writer_active r \<or> dr_write_index r \<noteq> tx_inactive_index t
              \<or> dr_snapshot_version r \<noteq> tx_base_generation t then
        (False, t\<lparr>tx_state := TXN_STATE_ERROR\<rparr>,
         if tx_repo t \<and> dr_writer_active r \<and> dr_write_index r = tx_inactive_index t
         then r\<lparr>dr_writer_active := False\<rparr> else r)
      else
        let v = dr_snapshot_version r + 1;
            i = tx_inactive_index t;
            r1 = set_buffer i ((buffer r i)\<lparr>rs_snapshot_version := v\<rparr>) (r\<lparr>dr_snapshot_version := v\<rparr>)
        in (True, t\<lparr>tx_state := TXN_STATE_COMMITTED\<rparr>,
            r1\<lparr>dr_active_index := i, dr_writer_active := False\<rparr>))"

definition txn_abort :: "repo_write_txn \<Rightarrow> data_repository \<Rightarrow> repo_write_txn \<times> data_repository" where
  "txn_abort t r =
     (if tx_state t \<noteq> TXN_STATE_ACTIVE then (t, r)
      else (t\<lparr>tx_written_fields_mask := 0, tx_state := TXN_STATE_ABORTED\<rparr>,
            if tx_repo t \<and> dr_writer_active r \<and> dr_write_index r = tx_inactive_index t
            then r\<lparr>dr_writer_active := False\<rparr> else r))"

definition txn_read_snapshot :: "repo_write_txn \<Rightarrow> data_repository \<Rightarrow> runtime_snapshot option" where
  "txn_read_snapshot t r =
     (if \<not> tx_repo t then None
      else Some (buffer r
        (if tx_state t = TXN_STATE_ACTIVE \<and> dr_writer_active r \<and> dr_write_index r = tx_inactive_index t
         then tx_inactive_index t else dr_active_index r)))"

text \<open>\<open>write_field\<close> with the destination field as an update function.\<close>

definition write_field :: "(runtime_snapshot \<Rightarrow> runtime_snapshot) \<Rightarrow> u32 \<Rightarrow> repo_write_txn \<Rightarrow> data_repository
    \<Rightarrow> bool \<times> repo_write_txn \<times> data_repository" where
  "write_field upd mask_bit t r =
     (if tx_state t \<noteq> TXN_STATE_ACTIVE then (False, t\<lparr>tx_state := TXN_STATE_ERROR\<rparr>, r)
      else if \<not> tx_repo t \<or> \<not> dr_writer_active r \<or> dr_write_index r \<noteq> tx_inactive_index t then (False, t, r)
      else (True, t\<lparr>tx_written_fields_mask := tx_written_fields_mask t OR mask_bit\<rparr>,
            set_buffer (tx_inactive_index t) (upd (buffer r (tx_inactive_index t))) r))"

abbreviation FLOW_BIT :: u32 where "FLOW_BIT \<equiv> 1"
abbreviation PRESSURE_BIT :: u32 where "PRESSURE_BIT \<equiv> 2"
abbreviation TEMP_BIT :: u32 where "TEMP_BIT \<equiv> 4"
abbreviation VOLUME_BIT :: u32 where "VOLUME_BIT \<equiv> 8"
abbreviation LEAK_BIT :: u32 where "LEAK_BIT \<equiv> 16"
abbreviation MODE_BIT :: u32 where "MODE_BIT \<equiv> 32"
abbreviation POWER_BIT :: u32 where "POWER_BIT \<equiv> 64"

definition txn_write_flow where
  "txn_write_flow v = write_field (\<lambda>s. s\<lparr>rs_flow := v\<rparr>) FLOW_BIT"

definition txn_write_pressure where
  "txn_write_pressure v = write_field (\<lambda>s. s\<lparr>rs_pressure := v\<rparr>) PRESSURE_BIT"

definition txn_write_temperature where
  "txn_write_temperature v = write_field (\<lambda>s. s\<lparr>rs_temperature := v\<rparr>) TEMP_BIT"

definition txn_write_volume where
  "txn_write_volume v = write_field (\<lambda>s. s\<lparr>rs_volume := v\<rparr>) VOLUME_BIT"

definition txn_write_leak where
  "txn_write_leak v = write_field (\<lambda>s. s\<lparr>rs_leak := v\<rparr>) LEAK_BIT"

definition txn_write_mode where
  "txn_write_mode v = write_field (\<lambda>s. s\<lparr>rs_mode := v\<rparr>) MODE_BIT"

definition txn_write_power where
  "txn_write_power v = write_field (\<lambda>s. s\<lparr>rs_power := v\<rparr>) POWER_BIT"

text \<open>The seven writes as one operation with the field as an argument.\<close>

datatype field_write =
    Write_flow flow_result | Write_pressure pressure_result | Write_temperature temperature_result
  | Write_volume volume_state | Write_leak leak_detection_result | Write_mode system_mode_context
  | Write_power power_snapshot

fun txn_write :: "field_write \<Rightarrow> repo_write_txn \<Rightarrow> data_repository \<Rightarrow> bool \<times> repo_write_txn \<times> data_repository" where
  "txn_write (Write_flow v) = txn_write_flow v"
| "txn_write (Write_pressure v) = txn_write_pressure v"
| "txn_write (Write_temperature v) = txn_write_temperature v"
| "txn_write (Write_volume v) = txn_write_volume v"
| "txn_write (Write_leak v) = txn_write_leak v"
| "txn_write (Write_mode v) = txn_write_mode v"
| "txn_write (Write_power v) = txn_write_power v"

section \<open>The contract: one published snapshot, replaced as a whole\<close>

text \<open>What a write does to the abstract snapshot, and the snapshot readers see.\<close>

fun apply_write :: "field_write \<Rightarrow> runtime_snapshot \<Rightarrow> runtime_snapshot" where
  "apply_write (Write_flow v) s = s\<lparr>rs_flow := v\<rparr>"
| "apply_write (Write_pressure v) s = s\<lparr>rs_pressure := v\<rparr>"
| "apply_write (Write_temperature v) s = s\<lparr>rs_temperature := v\<rparr>"
| "apply_write (Write_volume v) s = s\<lparr>rs_volume := v\<rparr>"
| "apply_write (Write_leak v) s = s\<lparr>rs_leak := v\<rparr>"
| "apply_write (Write_mode v) s = s\<lparr>rs_mode := v\<rparr>"
| "apply_write (Write_power v) s = s\<lparr>rs_power := v\<rparr>"

fun write_bit :: "field_write \<Rightarrow> u32" where
  "write_bit (Write_flow _) = FLOW_BIT"
| "write_bit (Write_pressure _) = PRESSURE_BIT"
| "write_bit (Write_temperature _) = TEMP_BIT"
| "write_bit (Write_volume _) = VOLUME_BIT"
| "write_bit (Write_leak _) = LEAK_BIT"
| "write_bit (Write_mode _) = MODE_BIT"
| "write_bit (Write_power _) = POWER_BIT"

definition published :: "data_repository \<Rightarrow> runtime_snapshot" where
  "published r = buffer r (dr_active_index r)"

lemma apply_write_eq:
  "apply_write (Write_flow fl) = (\<lambda>s. s\<lparr>rs_flow := fl\<rparr>)"
  "apply_write (Write_pressure pr) = (\<lambda>s. s\<lparr>rs_pressure := pr\<rparr>)"
  "apply_write (Write_temperature tp) = (\<lambda>s. s\<lparr>rs_temperature := tp\<rparr>)"
  "apply_write (Write_volume vs) = (\<lambda>s. s\<lparr>rs_volume := vs\<rparr>)"
  "apply_write (Write_leak lr) = (\<lambda>s. s\<lparr>rs_leak := lr\<rparr>)"
  "apply_write (Write_mode md) = (\<lambda>s. s\<lparr>rs_mode := md\<rparr>)"
  "apply_write (Write_power ps) = (\<lambda>s. s\<lparr>rs_power := ps\<rparr>)"
  by (simp_all add: fun_eq_iff)

lemma txn_write_eq: "txn_write w = write_field (apply_write w) (write_bit w)"
  by (cases w) (simp_all add: apply_write_eq txn_write_flow_def txn_write_pressure_def txn_write_temperature_def
      txn_write_volume_def txn_write_leak_def txn_write_mode_def txn_write_power_def)

lemma apply_write_version [simp]: "rs_snapshot_version (apply_write w s) = rs_snapshot_version s"
  by (cases w) simp_all

definition repo_ok :: "data_repository \<Rightarrow> bool" where
  "repo_ok r \<longleftrightarrow> length (dr_buffers r) = 2 \<and> dr_active_index r \<in> {0, 1} \<and>
     rs_snapshot_version (published r) = dr_snapshot_version r"

text \<open>The transaction that holds the repository's inactive buffer.\<close>

definition owns :: "repo_write_txn \<Rightarrow> data_repository \<Rightarrow> bool" where
  "owns t r \<longleftrightarrow> tx_state t = TXN_STATE_ACTIVE \<and> tx_repo t \<and> dr_writer_active r \<and>
     tx_inactive_index t = dr_active_index r XOR 1 \<and> dr_write_index r = tx_inactive_index t \<and>
     tx_base_generation t = dr_snapshot_version r"

lemma repo_init_ok: "repo_ok data_repository_init"
  by (simp add: repo_ok_def data_repository_init_def published_def buffer_def)

lemma buffer_simps [simp]:
  "buffer (r\<lparr>dr_active_index := a\<rparr>) i = buffer r i"
  "buffer (r\<lparr>dr_snapshot_version := v\<rparr>) i = buffer r i"
  "buffer (r\<lparr>dr_write_index := w\<rparr>) i = buffer r i"
  "buffer (r\<lparr>dr_writer_active := b\<rparr>) i = buffer r i"
  by (simp_all add: buffer_def)

lemma buffer_set: "unat i < length (dr_buffers r) \<Longrightarrow> buffer (set_buffer i s r) j = (if i = j then s else buffer r j)"
  by (auto simp: buffer_def set_buffer_def nth_list_update word_unat_eq_iff)

lemma set_buffer_simps [simp]:
  "length (dr_buffers (set_buffer i s r)) = length (dr_buffers r)"
  "dr_active_index (set_buffer i s r) = dr_active_index r"
  "dr_snapshot_version (set_buffer i s r) = dr_snapshot_version r"
  "dr_write_index (set_buffer i s r) = dr_write_index r"
  "dr_writer_active (set_buffer i s r) = dr_writer_active r"
  by (simp_all add: set_buffer_def)

lemma index_flip:
  "i \<in> {0, 1} \<Longrightarrow> i XOR 1 \<in> {0, 1 :: u8} \<and> i XOR 1 \<noteq> i \<and> (i XOR 1) XOR 1 = i \<and> unat (i XOR 1) < 2 \<and> unat i < 2"
  by auto

text \<open>Each operation against the contract.\<close>

lemma begin_owned:
  assumes "repo_ok r" "\<not> dr_writer_active r" "tx_state t \<noteq> TXN_STATE_ACTIVE"
  shows "\<exists>t' r'. txn_begin t r = (True, t', r') \<and> repo_ok r' \<and> owns t' r' \<and> published r' = published r \<and>
    buffer r' (tx_inactive_index t') = published r \<and> dr_snapshot_version r' = dr_snapshot_version r"
  using assms index_flip [of "dr_active_index r"]
  by (auto simp: txn_begin_def owns_def published_def repo_ok_def buffer_set)

lemma begin_refused: "dr_writer_active r \<or> tx_state t = TXN_STATE_ACTIVE \<Longrightarrow> txn_begin t r = (False, t, r)"
  by (auto simp: txn_begin_def)

lemma write_owned:
  assumes "repo_ok r" "owns t r"
  shows "\<exists>t' r'. txn_write w t r = (True, t', r') \<and> repo_ok r' \<and> owns t' r' \<and> published r' = published r \<and>
    tx_inactive_index t' = tx_inactive_index t \<and>
    buffer r' (tx_inactive_index t) = apply_write w (buffer r (tx_inactive_index t)) \<and>
    dr_snapshot_version r' = dr_snapshot_version r \<and> dr_active_index r' = dr_active_index r"
  using assms index_flip [of "dr_active_index r"]
  by (auto simp: txn_write_eq write_field_def owns_def published_def repo_ok_def buffer_set)

lemma commit_owned:
  assumes "repo_ok r" "owns t r"
  shows "\<exists>t' r'. txn_commit t r = (True, t', r') \<and> repo_ok r' \<and> \<not> dr_writer_active r' \<and>
    tx_state t' = TXN_STATE_COMMITTED \<and> dr_active_index r' = dr_active_index r XOR 1 \<and>
    published r' = (buffer r (tx_inactive_index t))\<lparr>rs_snapshot_version := dr_snapshot_version r + 1\<rparr> \<and>
    dr_snapshot_version r' = dr_snapshot_version r + 1"
  using assms index_flip [of "dr_active_index r"]
  by (auto simp: txn_commit_def Let_def owns_def published_def repo_ok_def buffer_set)

lemma abort_owned:
  assumes "repo_ok r" "owns t r"
  shows "\<exists>t' r'. txn_abort t r = (t', r') \<and> repo_ok r' \<and> \<not> dr_writer_active r' \<and>
    tx_state t' = TXN_STATE_ABORTED \<and> published r' = published r \<and>
    dr_snapshot_version r' = dr_snapshot_version r"
  using assms by (auto simp: txn_abort_def owns_def published_def repo_ok_def)

lemma read_owned: "owns t r \<Longrightarrow> txn_read_snapshot t r = Some (buffer r (tx_inactive_index t))"
  by (simp add: txn_read_snapshot_def owns_def)

text \<open>A sequence of writes of one transaction.\<close>

fun txn_writes :: "field_write list \<Rightarrow> repo_write_txn \<Rightarrow> data_repository \<Rightarrow> repo_write_txn \<times> data_repository" where
  "txn_writes [] t r = (t, r)"
| "txn_writes (w # ws) t r = txn_writes ws (fst (snd (txn_write w t r))) (snd (snd (txn_write w t r)))"

lemma writes_owned:
  assumes "repo_ok r" "owns t r"
  shows "\<exists>t' r'. txn_writes ws t r = (t', r') \<and> repo_ok r' \<and> owns t' r' \<and> published r' = published r \<and>
    tx_inactive_index t' = tx_inactive_index t \<and>
    buffer r' (tx_inactive_index t) = fold apply_write ws (buffer r (tx_inactive_index t)) \<and>
    dr_snapshot_version r' = dr_snapshot_version r"
  using assms
proof (induction ws arbitrary: t r)
  case Nil
  then show ?case by simp
next
  case (Cons w ws)
  obtain t1 r1 where w: "txn_write w t r = (True, t1, r1)" "repo_ok r1" "owns t1 r1" "published r1 = published r"
    "tx_inactive_index t1 = tx_inactive_index t"
    "buffer r1 (tx_inactive_index t) = apply_write w (buffer r (tx_inactive_index t))"
    "dr_snapshot_version r1 = dr_snapshot_version r"
    using write_owned [OF Cons.prems, of w] by blast
  from Cons.IH [OF w(2,3)] w show ?case by auto
qed

section \<open>Interleaved owners\<close>

text \<open>Several transaction objects on one repository; an operation names its transaction.\<close>

datatype txn_op = Begin | Write field_write | Commit | Abort

fun txn_apply :: "txn_op \<Rightarrow> repo_write_txn \<Rightarrow> data_repository \<Rightarrow> repo_write_txn \<times> data_repository" where
  "txn_apply Begin t r = snd (txn_begin t r)"
| "txn_apply (Write w) t r = snd (txn_write w t r)"
| "txn_apply Commit t r = snd (txn_commit t r)"
| "txn_apply Abort t r = txn_abort t r"

definition owners_step :: "repo_write_txn list \<times> data_repository \<Rightarrow> nat \<times> txn_op \<Rightarrow> repo_write_txn list \<times> data_repository" where
  "owners_step s x =
     (case (s, x) of ((ts, r), (i, op)) \<Rightarrow>
        if i < length ts then (case txn_apply op (ts ! i) r of (t', r') \<Rightarrow> (ts[i := t'], r')) else (ts, r))"

definition owners_ok :: "repo_write_txn list \<times> data_repository \<Rightarrow> bool" where
  "owners_ok s \<longleftrightarrow> (case s of (ts, r) \<Rightarrow> repo_ok r \<and>
     (\<forall>i < length ts. tx_state (ts ! i) = TXN_STATE_ACTIVE \<longrightarrow> owns (ts ! i) r) \<and>
     (\<forall>i < length ts. \<forall>j < length ts.
        tx_state (ts ! i) = TXN_STATE_ACTIVE \<longrightarrow> tx_state (ts ! j) = TXN_STATE_ACTIVE \<longrightarrow> i = j) \<and>
     (dr_writer_active r \<longrightarrow> (\<exists>i < length ts. tx_state (ts ! i) = TXN_STATE_ACTIVE)))"

lemma owns_stateD: "owns t r \<Longrightarrow> tx_state t = TXN_STATE_ACTIVE" "owns t r \<Longrightarrow> dr_writer_active r"
  by (simp_all add: owns_def)

text \<open>What one operation does to a transaction and the repository: nothing visible, or a
  step of the owner.\<close>

lemma txn_apply_cases:
  assumes "repo_ok r" "tx_state t = TXN_STATE_ACTIVE \<longrightarrow> owns t r" "txn_apply op t r = (t', r')"
  obtains (idle) "r' = r" "tx_state t \<noteq> TXN_STATE_ACTIVE" "tx_state t' \<noteq> TXN_STATE_ACTIVE"
  | (keep) "owns t r" "owns t' r'" "repo_ok r'" "published r' = published r"
      "dr_snapshot_version r' = dr_snapshot_version r" "dr_active_index r' = dr_active_index r"
  | (start) "\<not> dr_writer_active r" "tx_state t \<noteq> TXN_STATE_ACTIVE" "owns t' r'" "repo_ok r'"
      "published r' = published r" "dr_snapshot_version r' = dr_snapshot_version r"
      "dr_active_index r' = dr_active_index r"
  | (finish) "owns t r" "tx_state t' \<noteq> TXN_STATE_ACTIVE" "repo_ok r'" "\<not> dr_writer_active r'"
      "(dr_snapshot_version r' = dr_snapshot_version r \<and> published r' = published r
          \<and> dr_active_index r' = dr_active_index r) \<or>
       (dr_snapshot_version r' = dr_snapshot_version r + 1 \<and> dr_active_index r' = dr_active_index r XOR 1)"
proof (cases "tx_state t = TXN_STATE_ACTIVE")
  case True
  with assms have o: "owns t r" by simp
  show thesis
  proof (cases op)
    case Begin
    with assms True show thesis using begin_refused [of r t] o keep by auto
  next
    case (Write w)
    with write_owned [OF assms(1) o, of w] assms(3) o show thesis
      by (intro keep) (auto simp: owns_def)
  next
    case Commit
    with commit_owned [OF assms(1) o] assms(3) o show thesis by (intro finish) auto
  next
    case Abort
    with abort_owned [OF assms(1) o] assms(3) o show thesis
      by (intro finish) (auto simp: txn_abort_def split: if_splits)
  qed
next
  case False
  show thesis
  proof (cases op)
    case Begin
    show thesis
    proof (cases "dr_writer_active r")
      case True
      with Begin begin_refused [of r t] False assms(3) show thesis by (intro idle) auto
    next
      case nw: False
      with begin_owned [OF assms(1) nw False] Begin assms(3) False show thesis
        by (intro start) (auto simp: txn_begin_def Let_def)
    qed
  next
    case (Write w)
    with False assms(3) show thesis by (intro idle) (auto simp: txn_write_eq write_field_def)
  next
    case Commit
    with False assms(3) show thesis by (intro idle) (auto simp: txn_commit_def)
  next
    case Abort
    with False assms(3) show thesis by (intro idle) (auto simp: txn_abort_def)
  qed
qed

lemma owners_step_ok: "owners_ok s \<Longrightarrow> owners_ok (owners_step s x)"
proof -
  assume ok: "owners_ok s"
  obtain ts r i op where sx: "s = (ts, r)" "x = (i, op)" by (metis prod.exhaust)
  show "owners_ok (owners_step s x)"
  proof (cases "i < length ts")
    case False
    then show ?thesis using ok by (simp add: owners_step_def sx)
  next
    case True
    obtain t' r' where a: "txn_apply op (ts ! i) r = (t', r')" by fastforce
    have step: "owners_step s x = (ts[i := t'], r')" using True by (simp add: owners_step_def sx a)
    have r: "repo_ok r" and own: "tx_state (ts ! i) = TXN_STATE_ACTIVE \<longrightarrow> owns (ts ! i) r"
      using ok True by (auto simp: owners_ok_def sx)
    have "owners_ok (ts[i := t'], r')"
      using r own a
    proof (cases rule: txn_apply_cases)
      case idle
      then show ?thesis using ok True unfolding owners_ok_def sx by (auto simp: nth_list_update)
    next
      case keep
      then have "tx_state (ts ! i) = TXN_STATE_ACTIVE" "tx_state t' = TXN_STATE_ACTIVE" by (auto dest: owns_stateD)
      moreover from this have "\<forall>j < length ts. j \<noteq> i \<longrightarrow> tx_state (ts ! j) \<noteq> TXN_STATE_ACTIVE"
        using ok True by (auto simp: owners_ok_def sx)
      ultimately show ?thesis using True keep unfolding owners_ok_def sx
        by (auto simp: nth_list_update)
    next
      case start
      have "\<forall>j < length ts. tx_state (ts ! j) \<noteq> TXN_STATE_ACTIVE"
        using ok start(1) by (auto simp: owners_ok_def sx dest: owns_stateD)
      then show ?thesis using ok True start unfolding owners_ok_def sx
        by (auto simp: nth_list_update dest: owns_stateD)
    next
      case finish
      have "\<forall>j < length ts. j \<noteq> i \<longrightarrow> tx_state (ts ! j) \<noteq> TXN_STATE_ACTIVE"
        using ok finish(1) True by (auto simp: owners_ok_def sx dest: owns_stateD)
      then show ?thesis using True finish unfolding owners_ok_def sx
        by (auto simp: nth_list_update)
    qed
    with step show ?thesis by simp
  qed
qed

interpretation owners: transition_system owners_step owners_ok
  by unfold_locales (rule owners_step_ok)

lemma owners_init_ok: "owners_ok (replicate n txn_init, data_repository_init)"
  using repo_init_ok by (simp add: owners_ok_def txn_init_def data_repository_init_def)

section \<open>The lock-free reader\<close>

text \<open>
  \<open>data_repository_snapshot_copy\<close> takes no lock.  One attempt loads the index, reads the
  buffer's version, copies the buffer and loads the index again; the writer (any number of
  transactions, through \<open>owners_step\<close>) may run between any two of these steps, and between the
  copies of any two fields.
\<close>

datatype snap_field =
    F_schema_version | F_snapshot_version | F_publish_monotonic | F_publish_wall | F_publish_quality
  | F_mode | F_statuses | F_temperature | F_flow | F_pressure | F_volume | F_leak | F_power
  | F_config_version | F_calibration_version | F_diagnostics

definition snap_fields :: "snap_field list" where
  "snap_fields = [F_schema_version, F_snapshot_version, F_publish_monotonic, F_publish_wall, F_publish_quality,
     F_mode, F_statuses, F_temperature, F_flow, F_pressure, F_volume, F_leak, F_power,
     F_config_version, F_calibration_version, F_diagnostics]"

fun copy_field :: "snap_field \<Rightarrow> runtime_snapshot \<Rightarrow> runtime_snapshot \<Rightarrow> runtime_snapshot" where
  "copy_field F_schema_version s d = d\<lparr>rs_schema_version := rs_schema_version s\<rparr>"
| "copy_field F_snapshot_version s d = d\<lparr>rs_snapshot_version := rs_snapshot_version s\<rparr>"
| "copy_field F_publish_monotonic s d = d\<lparr>rs_publish_monotonic_us := rs_publish_monotonic_us s\<rparr>"
| "copy_field F_publish_wall s d = d\<lparr>rs_publish_wall_time_s := rs_publish_wall_time_s s\<rparr>"
| "copy_field F_publish_quality s d = d\<lparr>rs_publish_time_quality := rs_publish_time_quality s\<rparr>"
| "copy_field F_mode s d = d\<lparr>rs_mode := rs_mode s\<rparr>"
| "copy_field F_statuses s d = d\<lparr>rs_statuses := rs_statuses s\<rparr>"
| "copy_field F_temperature s d = d\<lparr>rs_temperature := rs_temperature s\<rparr>"
| "copy_field F_flow s d = d\<lparr>rs_flow := rs_flow s\<rparr>"
| "copy_field F_pressure s d = d\<lparr>rs_pressure := rs_pressure s\<rparr>"
| "copy_field F_volume s d = d\<lparr>rs_volume := rs_volume s\<rparr>"
| "copy_field F_leak s d = d\<lparr>rs_leak := rs_leak s\<rparr>"
| "copy_field F_power s d = d\<lparr>rs_power := rs_power s\<rparr>"
| "copy_field F_config_version s d = d\<lparr>rs_active_config_version := rs_active_config_version s\<rparr>"
| "copy_field F_calibration_version s d = d\<lparr>rs_active_calibration_version := rs_active_calibration_version s\<rparr>"
| "copy_field F_diagnostics s d = d\<lparr>rs_diagnostic_summary_flags := rs_diagnostic_summary_flags s\<rparr>"

type_synonym writers = "repo_write_txn list \<times> data_repository"
type_synonym writer_ops = "(nat \<times> txn_op) list"

abbreviation run_writers :: "writers \<Rightarrow> writer_ops \<Rightarrow> writers" where
  "run_writers \<equiv> foldl owners_step"

text \<open>The memcpy: each field in turn, writers running after it.\<close>

fun copy_fields :: "u8 \<Rightarrow> (snap_field \<times> writer_ops) list \<Rightarrow> writers \<Rightarrow> runtime_snapshot \<Rightarrow> runtime_snapshot \<times> writers" where
  "copy_fields i [] s out = (out, s)"
| "copy_fields i ((f, ops) # fs) s out =
     copy_fields i fs (run_writers s ops) (copy_field f (buffer (snd s) i) out)"

text \<open>The schedule of an attempt: writers before the version is read, before the copy, and
  after each copied field.\<close>

type_synonym attempt = "writer_ops \<times> writer_ops \<times> (snap_field \<times> writer_ops) list"

definition copy_attempt :: "attempt \<Rightarrow> writers \<Rightarrow> runtime_snapshot \<Rightarrow> bool \<times> runtime_snapshot \<times> writers" where
  "copy_attempt a s out =
     (case a of (ops1, ops2, fs) \<Rightarrow>
        let before = dr_active_index (snd s);
            s1 = run_writers s ops1;
            version = rs_snapshot_version (buffer (snd s1) before);
            (out', s2) = copy_fields before fs (run_writers s1 ops2) out;
            after = dr_active_index (snd s2)
        in (before = after \<and> rs_snapshot_version out' = version, out', s2))"

fun attempts :: "attempt list \<Rightarrow> writers \<Rightarrow> runtime_snapshot \<Rightarrow> bool \<times> runtime_snapshot \<times> writers" where
  "attempts [] s out = (False, out, s)"
| "attempts (a # as) s out =
     (case copy_attempt a s out of
        (True, out', s') \<Rightarrow> (True, out', s')
      | (False, out', s') \<Rightarrow> attempts as s' out')"

text \<open>Three attempts, the schedule of each given.\<close>

definition data_repository_snapshot_copy ::
    "attempt \<Rightarrow> attempt \<Rightarrow> attempt \<Rightarrow> writers \<Rightarrow> runtime_snapshot \<Rightarrow> bool \<times> runtime_snapshot \<times> writers" where
  "data_repository_snapshot_copy a1 a2 a3 s out = attempts [a1, a2, a3] s out"

text \<open>A copy schedule is complete when it copies every field once, in some order.\<close>

definition complete_attempt :: "attempt \<Rightarrow> bool" where
  "complete_attempt a \<longleftrightarrow> mset (map fst (snd (snd a))) = mset snap_fields"

text \<open>The commits of a run: successful ones advance the version.\<close>

fun commits :: "writers \<Rightarrow> writer_ops \<Rightarrow> nat" where
  "commits s [] = 0"
| "commits s (x # xs) =
     (if dr_snapshot_version (snd (owners_step s x)) = dr_snapshot_version (snd s) then 0 else 1)
     + commits (owners_step s x) xs"

definition attempt_ops :: "attempt \<Rightarrow> writer_ops" where
  "attempt_ops a = fst a @ fst (snd a) @ concat (map snd (snd (snd a)))"

text \<open>One writer step: either the published snapshot stays, or a commit switches the index.\<close>

lemma owners_step_cases:
  assumes "owners_ok s"
  obtains (quiet) "dr_snapshot_version (snd (owners_step s x)) = dr_snapshot_version (snd s)"
      "published (snd (owners_step s x)) = published (snd s)"
      "dr_active_index (snd (owners_step s x)) = dr_active_index (snd s)"
  | (commit) "dr_snapshot_version (snd (owners_step s x)) = dr_snapshot_version (snd s) + 1"
      "dr_active_index (snd (owners_step s x)) = dr_active_index (snd s) XOR 1"
proof -
  obtain ts r i op where sx: "s = (ts, r)" "x = (i, op)" by (metis prod.exhaust)
  show thesis
  proof (cases "i < length ts")
    case False
    then show thesis by (intro quiet) (simp_all add: owners_step_def sx)
  next
    case True
    obtain t' r' where a: "txn_apply op (ts ! i) r = (t', r')" by fastforce
    have step: "snd (owners_step (ts, r) (i, op)) = r'" using True by (simp add: owners_step_def a)
    have r: "repo_ok r" and own: "tx_state (ts ! i) = TXN_STATE_ACTIVE \<longrightarrow> owns (ts ! i) r"
      using assms True by (auto simp: owners_ok_def sx)
    show thesis
      using r own a by (cases rule: txn_apply_cases) (insert quiet commit, auto simp: step sx)
  qed
qed

lemma active_flip: "owners_ok s \<Longrightarrow> dr_active_index (snd s) XOR 1 \<noteq> dr_active_index (snd s)"
  by (cases s) (auto simp: owners_ok_def repo_ok_def)

lemma active_flip2: "owners_ok s \<Longrightarrow> (dr_active_index (snd s) XOR 1) XOR 1 = dr_active_index (snd s)"
  by (cases s) (auto simp: owners_ok_def repo_ok_def)

lemma run_active:
  "owners_ok s \<Longrightarrow> dr_active_index (snd (run_writers s xs)) =
     (if even (commits s xs) then dr_active_index (snd s) else dr_active_index (snd s) XOR 1)"
proof (induction xs arbitrary: s)
  case (Cons x xs)
  have ok: "owners_ok (owners_step s x)" using Cons.prems by (rule owners_step_ok)
  show ?case
    using Cons.prems by (cases rule: owners_step_cases [where x = x])
      (use Cons.IH [OF ok] active_flip2 [OF Cons.prems] in auto)
qed simp

lemma run_quiet:
  "owners_ok s \<Longrightarrow> commits s xs = 0 \<Longrightarrow> published (snd (run_writers s xs)) = published (snd s)"
proof (induction xs arbitrary: s)
  case (Cons x xs)
  have ok: "owners_ok (owners_step s x)" using Cons.prems(1) by (rule owners_step_ok)
  show ?case
    using Cons.prems(1) by (cases rule: owners_step_cases [where x = x])
      (use Cons.IH [OF ok] Cons.prems(2) in \<open>auto split: if_splits\<close>)
qed simp

lemma commits_append: "commits s (xs @ ys) = commits s xs + commits (run_writers s xs) ys"
  by (induction xs arbitrary: s) auto

text \<open>A complete copy of an unchanging snapshot is that snapshot.\<close>

definition pick :: "bool \<Rightarrow> 'a \<Rightarrow> 'a \<Rightarrow> 'a" where
  "pick b x y = (if b then x else y)"

lemma pick_simps [simp]: "pick True x y = x" "pick False x y = y" "pick b x (pick c x y) = pick (c \<or> b) x y"
  by (auto simp: pick_def)

text \<open>A record whose fields in \<open>F\<close> come from \<open>s\<close>, the others from \<open>d\<close>.\<close>

definition mix :: "snap_field set \<Rightarrow> runtime_snapshot \<Rightarrow> runtime_snapshot \<Rightarrow> runtime_snapshot" where
  "mix F s d =
     \<lparr>rs_schema_version = pick (F_schema_version \<in> F) (rs_schema_version s) (rs_schema_version d),
      rs_snapshot_version = pick (F_snapshot_version \<in> F) (rs_snapshot_version s) (rs_snapshot_version d),
      rs_publish_monotonic_us = pick (F_publish_monotonic \<in> F) (rs_publish_monotonic_us s) (rs_publish_monotonic_us d),
      rs_publish_wall_time_s = pick (F_publish_wall \<in> F) (rs_publish_wall_time_s s) (rs_publish_wall_time_s d),
      rs_publish_time_quality = pick (F_publish_quality \<in> F) (rs_publish_time_quality s) (rs_publish_time_quality d),
      rs_mode = pick (F_mode \<in> F) (rs_mode s) (rs_mode d),
      rs_statuses = pick (F_statuses \<in> F) (rs_statuses s) (rs_statuses d),
      rs_temperature = pick (F_temperature \<in> F) (rs_temperature s) (rs_temperature d),
      rs_flow = pick (F_flow \<in> F) (rs_flow s) (rs_flow d),
      rs_pressure = pick (F_pressure \<in> F) (rs_pressure s) (rs_pressure d),
      rs_volume = pick (F_volume \<in> F) (rs_volume s) (rs_volume d),
      rs_leak = pick (F_leak \<in> F) (rs_leak s) (rs_leak d),
      rs_power = pick (F_power \<in> F) (rs_power s) (rs_power d),
      rs_active_config_version = pick (F_config_version \<in> F) (rs_active_config_version s) (rs_active_config_version d),
      rs_active_calibration_version = pick (F_calibration_version \<in> F) (rs_active_calibration_version s) (rs_active_calibration_version d),
      rs_diagnostic_summary_flags = pick (F_diagnostics \<in> F) (rs_diagnostic_summary_flags s) (rs_diagnostic_summary_flags d)\<rparr>"

lemma copy_field_mix: "copy_field f s d = mix {f} s d"
  by (cases f) (simp_all add: mix_def)

lemma mix_mix: "mix F s (mix G s d) = mix (G \<union> F) s d"
  by (simp add: mix_def)

lemma fold_copy_field: "fold (\<lambda>f. copy_field f s) fs (mix F s d) = mix (F \<union> set fs) s d"
  by (induction fs arbitrary: F) (simp_all add: copy_field_mix mix_mix)

lemma copy_all_fields:
  assumes "mset fs = mset snap_fields"
  shows "fold (\<lambda>f. copy_field f s) fs d = s"
proof -
  have "d = mix {} s d" by (simp add: mix_def)
  moreover have "set fs = set snap_fields" using assms by (rule mset_eq_setD)
  ultimately have "fold (\<lambda>f. copy_field f s) fs d = mix (set snap_fields) s d"
    using fold_copy_field [of s fs "{}" d] by simp
  then show ?thesis by (simp add: mix_def snap_fields_def)
qed

lemma copy_fields_state: "snd (copy_fields i fs s out) = run_writers s (concat (map snd fs))"
  by (induction i fs s out rule: copy_fields.induct) auto

lemma copy_fields_quiet:
  assumes "owners_ok s" "commits s (concat (map snd fs)) = 0" "i = dr_active_index (snd s)"
  shows "fst (copy_fields i fs s out) = fold (\<lambda>f. copy_field f (published (snd s))) (map fst fs) out"
  using assms
proof (induction fs arbitrary: s out)
  case (Cons p fs)
  obtain f ops where p: "p = (f, ops)" by fastforce
  have q: "commits s ops = 0" "commits (run_writers s ops) (concat (map snd fs)) = 0"
    using Cons.prems(2) by (simp_all add: p commits_append)
  have ok: "owners_ok (run_writers s ops)" using Cons.prems(1) by (rule owners.run_inv)
  show ?case
    using Cons.IH [OF ok q(2)] run_quiet [OF Cons.prems(1) q(1)] run_active [OF Cons.prems(1), of ops] q(1) Cons.prems(3)
    by (simp add: p published_def)
qed simp

lemma copy_attempt_state: "snd (snd (copy_attempt a s out)) = run_writers s (attempt_ops a)"
  using copy_fields_state
  by (simp add: copy_attempt_def attempt_ops_def Let_def split: prod.splits) (metis snd_conv)

text \<open>An attempt during which at most one commit happens: accepted exactly when none did.\<close>

lemma copy_attempt_few_commits:
  assumes ok: "owners_ok s" and full: "complete_attempt a" and few: "commits s (attempt_ops a) \<le> 1"
  shows "if commits s (attempt_ops a) = 0 then fst (copy_attempt a s out) \<and> fst (snd (copy_attempt a s out)) = published (snd s)
         else \<not> fst (copy_attempt a s out)"
proof -
  obtain ops1 ops2 fs where a: "a = (ops1, ops2, fs)" by (metis prod.exhaust)
  let ?s1 = "run_writers s ops1" and ?s2 = "run_writers (run_writers s ops1) ops2"
  have ok1: "owners_ok ?s1" and ok2: "owners_ok ?s2" using ok by (auto intro: owners.run_inv)
  show ?thesis
  proof (cases "commits s (attempt_ops a) = 0")
    case True
    then have q: "commits s ops1 = 0" "commits ?s1 ops2 = 0" "commits ?s2 (concat (map snd fs)) = 0"
      by (auto simp: attempt_ops_def a commits_append)
    have i: "dr_active_index (snd ?s1) = dr_active_index (snd s)" "dr_active_index (snd ?s2) = dr_active_index (snd s)"
      using run_active [OF ok, of ops1] run_active [OF ok1, of ops2] q by auto
    have p: "published (snd ?s1) = published (snd s)" "published (snd ?s2) = published (snd s)"
      using run_quiet [OF ok q(1)] run_quiet [OF ok1 q(2)] by auto
    have out: "fst (copy_fields (dr_active_index (snd s)) fs ?s2 out) = published (snd s)"
      using copy_fields_quiet [OF ok2 q(3)] copy_all_fields [of "map fst fs"] full
      by (simp add: i p complete_attempt_def a)
    have "dr_active_index (snd (run_writers s (attempt_ops a))) = dr_active_index (snd s)"
      using run_active [OF ok, of "attempt_ops a"] True by simp
    with out p(1) i(1) True show ?thesis
      using copy_attempt_state [of a s out]
      by (auto simp: copy_attempt_def a Let_def published_def split: prod.splits)
  next
    case False
    with few have "commits s (attempt_ops a) = 1" by simp
    then have "dr_active_index (snd (run_writers s (attempt_ops a))) \<noteq> dr_active_index (snd s)"
      using run_active [OF ok, of "attempt_ops a"] active_flip [OF ok] by simp
    with False show ?thesis
      using copy_attempt_state [of a s out]
      by (auto simp: copy_attempt_def a Let_def split: prod.splits)
  qed
qed

text \<open>C13: with at most one commit during a lock-free read, the read succeeds within its first two
  attempts and returns exactly the snapshot that is published when it returns.\<close>

theorem snapshot_copy_consistent:
  assumes ok: "owners_ok s" and full: "complete_attempt a1" "complete_attempt a2"
    and few: "commits s (attempt_ops a1 @ attempt_ops a2) \<le> 1"
    and copy: "data_repository_snapshot_copy a1 a2 a3 s out = (success, out', s')"
  shows "success \<and> out' = published (snd s')"
proof -
  let ?s1 = "run_writers s (attempt_ops a1)"
  have c: "commits s (attempt_ops a1) + commits ?s1 (attempt_ops a2) \<le> 1"
    using few by (simp add: commits_append)
  have ok1: "owners_ok ?s1" using ok by (rule owners.run_inv)
  obtain b1 o1 where r1: "copy_attempt a1 s out = (b1, o1, ?s1)"
    using copy_attempt_state [of a1 s out] by (metis prod.collapse)
  obtain b2 o2 where r2: "copy_attempt a2 ?s1 o1 = (b2, o2, run_writers ?s1 (attempt_ops a2))"
    using copy_attempt_state [of a2 ?s1 o1] by (metis prod.collapse)
  show ?thesis
  proof (cases "commits s (attempt_ops a1) = 0")
    case True
    with copy_attempt_few_commits [OF ok full(1), of out] r1 have "b1" "o1 = published (snd s)" by auto
    with r1 copy run_quiet [OF ok True] show ?thesis
      by (auto simp: data_repository_snapshot_copy_def)
  next
    case False
    with c have q: "commits ?s1 (attempt_ops a2) = 0" by simp
    from False c copy_attempt_few_commits [OF ok full(1), of out] r1 have "\<not> b1" by auto
    moreover from q copy_attempt_few_commits [OF ok1 full(2), of o1] r2 have "b2" "o2 = published (snd ?s1)" by auto
    ultimately show ?thesis using r1 r2 copy run_quiet [OF ok1 q]
      by (auto simp: data_repository_snapshot_copy_def)
  qed
qed

text \<open>The concrete schedules: nothing happens during the first attempt of \<open>calm\<close>; during \<open>busy\<close> one
  transaction writes flow and power and commits between two field copies, and during
  \<open>torn\<close> two transactions commit.\<close>

definition sample_commit :: "u8 \<Rightarrow> writer_ops" where
  "sample_commit k = [(0, Begin), (0, Write (Write_flow (zero_flow\<lparr>fl_flow_ul_per_s := sint k\<rparr>))),
     (0, Write (Write_power (zero_power\<lparr>ps_raw_adc := ucast k\<rparr>))), (0, Commit)]"

definition sample_attempt :: "writer_ops \<Rightarrow> attempt" where
  "sample_attempt ops = ([], [], map (\<lambda>f. (f, if f = F_flow then ops else [])) snap_fields)"

lemma snapshot_copy_consistent_witness:
  "fl_flow_ul_per_s (rs_flow (fst (snd (data_repository_snapshot_copy (sample_attempt (sample_commit 7)) (sample_attempt [])
     (sample_attempt []) ([txn_init], data_repository_init) zero_snapshot)))) = 7" (is "fl_flow_ul_per_s (rs_flow (fst (snd ?r))) = 7")
proof -
  have "owners_ok ([txn_init], data_repository_init)" using owners_init_ok [of 1] by simp
  moreover have "complete_attempt (sample_attempt (sample_commit 7))" "complete_attempt (sample_attempt [])"
    by (simp_all add: complete_attempt_def sample_attempt_def snap_fields_def)
  moreover have "commits ([txn_init], data_repository_init)
      (attempt_ops (sample_attempt (sample_commit 7)) @ attempt_ops (sample_attempt [])) \<le> 1"
    by code_simp
  moreover have "?r = (fst ?r, fst (snd ?r), snd (snd ?r))" by simp
  ultimately have "fst ?r \<and> fst (snd ?r) = published (snd (snd (snd ?r)))"
    by (rule snapshot_copy_consistent)
  moreover have "fl_flow_ul_per_s (rs_flow (published (snd (snd (snd ?r))))) = 7" by code_simp
  ultimately show ?thesis by simp
qed

text \<open>Two commits during one attempt defeat the version check: the index is back at its old value
  and the version field was copied before the buffer was reused, so a mixture of two
  published snapshots is accepted (the flow of the first, the power sample of the third).\<close>

lemma torn_read:
  "let r = data_repository_snapshot_copy (sample_attempt (sample_commit 7 @ sample_commit 9)) (sample_attempt [])
        (sample_attempt []) (run_writers ([txn_init], data_repository_init) (sample_commit 5)) zero_snapshot
   in fst r \<and> fl_flow_ul_per_s (rs_flow (fst (snd r))) = 5 \<and> ps_raw_adc (rs_power (fst (snd r))) = 9"
  by code_simp

text \<open>C8: a transaction is atomic: while it writes, readers keep seeing the old snapshot and the
  transaction itself sees its own writes; the commit succeeds and publishes the base snapshot with
  all the writes and the next version; an abort leaves the published snapshot as it was.\<close>

theorem transaction_atomic:
  assumes "repo_ok r" "txn_begin t r = (True, t1, r1)" "txn_writes ws t1 r1 = (t2, r2)"
  shows "published r2 = published r \<and>
    txn_read_snapshot t2 r2 = Some (fold apply_write ws (published r)) \<and>
    (\<exists>t3 r3. txn_commit t2 r2 = (True, t3, r3) \<and> repo_ok r3 \<and>
       published r3 = (fold apply_write ws (published r))\<lparr>rs_snapshot_version := rs_snapshot_version (published r) + 1\<rparr>) \<and>
    published (snd (txn_abort t2 r2)) = published r \<and> \<not> dr_writer_active (snd (txn_abort t2 r2))"
proof -
  have "\<not> dr_writer_active r" "tx_state t \<noteq> TXN_STATE_ACTIVE"
    using assms(2) by (auto simp: txn_begin_def split: if_splits)
  with begin_owned [OF assms(1), of t] assms(2) have b: "repo_ok r1" "owns t1 r1" "published r1 = published r"
      "buffer r1 (tx_inactive_index t1) = published r" "dr_snapshot_version r1 = dr_snapshot_version r"
    by auto
  have w: "repo_ok r2" "owns t2 r2" "published r2 = published r" "tx_inactive_index t2 = tx_inactive_index t1"
      "buffer r2 (tx_inactive_index t2) = fold apply_write ws (published r)"
      "dr_snapshot_version r2 = dr_snapshot_version r"
    using writes_owned [OF b(1,2), of ws] b assms(3) by auto
  have v: "dr_snapshot_version r = rs_snapshot_version (published r)" using assms(1) by (simp add: repo_ok_def)
  show ?thesis
    using commit_owned [OF w(1,2)] abort_owned [OF w(1,2)] read_owned [OF w(2)] w v by auto
qed

lemma transaction_atomic_witness:
  "rs_snapshot_version (published (snd (snd (txn_commit txn_init data_repository_init)))) = 0 \<and>
   (\<exists>t3 r3. txn_commit (fst (snd (txn_begin txn_init data_repository_init))) (snd (snd (txn_begin txn_init data_repository_init))) =
      (True, t3, r3) \<and> rs_snapshot_version (published r3) = 1)"
proof -
  let ?b = "txn_begin txn_init data_repository_init"
  have "fst ?b" by code_simp
  then obtain t1 r1 where b: "?b = (True, t1, r1)" by (metis prod.collapse)
  have "rs_snapshot_version (published data_repository_init) = 0" by code_simp
  moreover have "txn_writes [] t1 r1 = (t1, r1)" by simp
  note transaction_atomic [OF repo_init_ok b this]
  moreover have "rs_snapshot_version (published (snd (snd (txn_commit txn_init data_repository_init)))) = 0" by code_simp
  ultimately show ?thesis by (auto simp: b)
qed

text \<open>Single writer: however many transaction objects contend for the repository, at any time at
  most one is active, and its commit cannot fail.\<close>

theorem single_writer:
  assumes "foldl owners_step (replicate n txn_init, data_repository_init) ops = (ts, r)"
    and "i < n" "tx_state (ts ! i) = TXN_STATE_ACTIVE"
  shows "(\<forall>j < n. tx_state (ts ! j) = TXN_STATE_ACTIVE \<longrightarrow> j = i) \<and> fst (txn_commit (ts ! i) r)"
proof -
  have "owners_ok (ts, r)" using owners.run_inv [OF owners_init_ok, of n ops] assms(1) by simp
  moreover have "length (fst (foldl owners_step s xs)) = length (fst s)" for s xs
    by (induction xs arbitrary: s) (auto simp: owners_step_def split: prod.splits)
  from this [of "(replicate n txn_init, data_repository_init)" ops] have "length ts = n" using assms(1) by simp
  ultimately show ?thesis
    using commit_owned [of r "ts ! i"] assms by (auto simp: owners_ok_def)
qed

lemma single_writer_witness:
  "tx_state (fst (foldl owners_step (replicate 2 txn_init, data_repository_init) [(0, Begin), (1, Begin)]) ! 1)
     \<noteq> TXN_STATE_ACTIVE"
proof -
  let ?s = "foldl owners_step (replicate 2 txn_init, data_repository_init) [(0, Begin), (1, Begin)]"
  have s: "?s = (fst ?s, snd ?s)" by simp
  have "tx_state (fst ?s ! 0) = TXN_STATE_ACTIVE" by code_simp
  from single_writer [OF s _ this, THEN conjunct1, THEN spec, of 1] show ?thesis by auto
qed

end
