(* ===== verification/Event_Dispatch.thy ===== *)
theory Event_Dispatch
  imports Event_Queue Scheduler Repository
begin

text \<open>
  Event dispatch (infrastructure/event): the handler registry event_mediator.c, the action
  executor fsm_action_executor.c, the router app_event_router.c and the cooperative loop
  app_event_loop.c.

  A C function pointer with its context is a tag of a type parameter; what calling it does is an
  argument of the model (\<open>call\<close>, \<open>client\<close>, \<open>act\<close>), a function on the state the caller
  passes it.  The dense prefix of the mediator's table is a list.  Handlers and actions do not
  rebind the executor while it runs.  The readings of the platform's clock are arguments.
\<close>

section \<open>Keyed registries\<close>

text \<open>What a client of a registry relies on.\<close>

locale keyed_registry =
  fixes lookup :: "'t \<Rightarrow> 'k \<Rightarrow> 'v option"
    and register :: "'t \<Rightarrow> 'k \<Rightarrow> 'v \<Rightarrow> 't option"
    and room :: "'t \<Rightarrow> nat"
    and ok :: "'t \<Rightarrow> bool"
  assumes register_new: "ok t \<Longrightarrow> lookup t k = None \<Longrightarrow> 0 < room t \<Longrightarrow> register t k v \<noteq> None"
    and register_ok: "ok t \<Longrightarrow> register t k v = Some t' \<Longrightarrow> ok t'"
    and register_room: "ok t \<Longrightarrow> register t k v = Some t' \<Longrightarrow> room t = Suc (room t')"
    and register_lookup: "ok t \<Longrightarrow> register t k v = Some t' \<Longrightarrow> lookup t' j = (if j = k then Some v else lookup t j)"
begin

fun register_all :: "'t \<Rightarrow> ('k \<times> 'v) list \<Rightarrow> 't option" where
  "register_all t [] = Some t"
| "register_all t ((k, v) # kvs) = (case register t k v of None \<Rightarrow> None | Some t' \<Rightarrow> register_all t' kvs)"

lemma register_all_lookup:
  assumes "ok t" "distinct (map fst kvs)" "\<forall>k \<in> fst ` set kvs. lookup t k = None" "length kvs \<le> room t"
  shows "\<exists>t'. register_all t kvs = Some t' \<and> ok t' \<and> room t' = room t - length kvs \<and>
    (\<forall>k. lookup t' k = (case map_of kvs k of Some v \<Rightarrow> Some v | None \<Rightarrow> lookup t k))"
  using assms
proof (induction kvs arbitrary: t)
  case Nil
  then show ?case by simp
next
  case (Cons kv kvs)
  obtain k v where kv: "kv = (k, v)" by fastforce
  have "register t k v \<noteq> None"
    using register_new [of t k v] Cons.prems by (auto simp: kv)
  then obtain t1 where t1: "register t k v = Some t1" by blast
  note r = register_ok [OF Cons.prems(1) t1] register_room [OF Cons.prems(1) t1] register_lookup [OF Cons.prems(1) t1]
  have "\<exists>t'. register_all t1 kvs = Some t' \<and> ok t' \<and> room t' = room t1 - length kvs \<and>
    (\<forall>k. lookup t' k = (case map_of kvs k of Some v \<Rightarrow> Some v | None \<Rightarrow> lookup t1 k))"
  proof (rule Cons.IH [OF r(1)])
    show "distinct (map fst kvs)" using Cons.prems(2) by simp
    show "\<forall>j \<in> fst ` set kvs. lookup t1 j = None" using Cons.prems(2,3) r(3) by (auto simp: kv)
    show "length kvs \<le> room t1" using Cons.prems(4) r(2) by simp
  qed
  then obtain t' where t': "register_all t1 kvs = Some t'" "ok t'" "room t' = room t1 - length kvs"
    and l: "\<And>k. lookup t' k = (case map_of kvs k of Some v \<Rightarrow> Some v | None \<Rightarrow> lookup t1 k)" by blast
  have "map_of kvs k = None" using Cons.prems(2) by (simp add: kv map_of_eq_None_iff)
  then show ?case using t1 t' r(2) by (intro exI [of _ t']) (auto simp: kv l r(3) split: option.splits)
qed

end

section \<open>The mediator\<close>

datatype event_mediator_result =
    EVENT_MEDIATOR_OK | EVENT_MEDIATOR_TABLE_FULL | EVENT_MEDIATOR_DUPLICATE
  | EVENT_MEDIATOR_UNHANDLED | EVENT_MEDIATOR_INVALID_PARAM

record 'h handler_table_entry =
  he_event_id :: event_id
  he_handler :: 'h
  he_active :: bool

abbreviation EVENT_MEDIATOR_MAX_HANDLERS :: nat where "EVENT_MEDIATOR_MAX_HANDLERS \<equiv> 32"

type_synonym 'h event_mediator = "'h handler_table_entry list"

definition event_mediator_init :: "'h event_mediator" where
  "event_mediator_init = []"

fun find_handler :: "'h event_mediator \<Rightarrow> event_id \<Rightarrow> 'h option" where
  "find_handler [] i = None"
| "find_handler (e # es) i = (if he_active e \<and> he_event_id e = i then Some (he_handler e) else find_handler es i)"

definition event_mediator_register :: "'h event_mediator \<Rightarrow> event_id \<Rightarrow> 'h \<Rightarrow> event_mediator_result \<times> 'h event_mediator" where
  "event_mediator_register m i h =
     (if find_handler m i \<noteq> None then (EVENT_MEDIATOR_DUPLICATE, m)
      else if length m \<ge> EVENT_MEDIATOR_MAX_HANDLERS then (EVENT_MEDIATOR_TABLE_FULL, m)
      else (EVENT_MEDIATOR_OK, m @ [\<lparr>he_event_id = i, he_handler = h, he_active = True\<rparr>]))"

definition event_mediator_dispatch ::
    "('h \<Rightarrow> app_event \<Rightarrow> 's \<Rightarrow> 's) \<Rightarrow> 'h event_mediator option \<Rightarrow> app_event \<Rightarrow> 's \<Rightarrow> event_mediator_result \<times> 's" where
  "event_mediator_dispatch call m event s =
     (case m of None \<Rightarrow> (EVENT_MEDIATOR_INVALID_PARAM, s)
      | Some es \<Rightarrow>
          (case find_handler es (ev_id event) of
             Some h \<Rightarrow> (EVENT_MEDIATOR_OK, call h event s)
           | None \<Rightarrow> (EVENT_MEDIATOR_UNHANDLED, s)))"

definition event_mediator_handler_count :: "'h event_mediator option \<Rightarrow> nat" where
  "event_mediator_handler_count m = (case m of None \<Rightarrow> 0 | Some es \<Rightarrow> length es)"

definition mediator_put :: "'h event_mediator \<Rightarrow> event_id \<Rightarrow> 'h \<Rightarrow> 'h event_mediator option" where
  "mediator_put m i h = (case event_mediator_register m i h of (EVENT_MEDIATOR_OK, m') \<Rightarrow> Some m' | _ \<Rightarrow> None)"

lemma mediator_put_eq:
  "mediator_put m i h =
     (if find_handler m i = None \<and> length m < EVENT_MEDIATOR_MAX_HANDLERS
      then Some (m @ [\<lparr>he_event_id = i, he_handler = h, he_active = True\<rparr>]) else None)"
  by (simp add: mediator_put_def event_mediator_register_def)

lemma find_handler_append: "find_handler (m @ m') i = (case find_handler m i of None \<Rightarrow> find_handler m' i | Some h \<Rightarrow> Some h)"
  by (induction m) auto

interpretation mediator: keyed_registry find_handler mediator_put
    "\<lambda>m. EVENT_MEDIATOR_MAX_HANDLERS - length m" "\<lambda>m. length m \<le> EVENT_MEDIATOR_MAX_HANDLERS"
  by unfold_locales (auto simp: mediator_put_eq find_handler_append split: if_splits option.splits)

section \<open>The action executor\<close>

abbreviation FSM_ACTION_EXECUTOR_SLOT_COUNT :: nat where "FSM_ACTION_EXECUTOR_SLOT_COUNT \<equiv> 7"

datatype fsm_action_exec_result = FSM_ACTION_EXEC_COMPLETE | FSM_ACTION_EXEC_PENDING | FSM_ACTION_EXEC_FAILED

record 'a fsm_action_executor =
  fx_handlers :: "'a option list"
  fx_completed_count :: u32
  fx_failed_count :: u32
  fx_blocked_count :: u32

fun index_scan :: "action_mask \<Rightarrow> nat \<Rightarrow> nat \<Rightarrow> nat option" where
  "index_scan action i 0 = None"
| "index_scan action i (Suc n) = (if action = push_bit i 1 then Some i else index_scan action (Suc i) n)"

definition action_index :: "action_mask \<Rightarrow> nat option" where
  "action_index action = index_scan action 0 FSM_ACTION_EXECUTOR_SLOT_COUNT"

definition fsm_action_executor_init :: "'a fsm_action_executor" where
  "fsm_action_executor_init =
     \<lparr>fx_handlers = replicate FSM_ACTION_EXECUTOR_SLOT_COUNT None, fx_completed_count = 0,
      fx_failed_count = 0, fx_blocked_count = 0\<rparr>"

definition fsm_action_executor_bind :: "'a fsm_action_executor \<Rightarrow> action_mask \<Rightarrow> 'a option \<Rightarrow> bool \<times> 'a fsm_action_executor" where
  "fsm_action_executor_bind ex action handler =
     (case (action_index action, handler) of
        (Some i, Some h) \<Rightarrow> (True, ex\<lparr>fx_handlers := (fx_handlers ex)[i := Some h]\<rparr>)
      | _ \<Rightarrow> (False, ex))"

text \<open>The slots from \<open>i\<close> on; \<open>attempted\<close> and \<open>completed\<close> are the loop's variables.\<close>

fun run_slots :: "('a \<Rightarrow> action_mask \<Rightarrow> 's \<Rightarrow> fsm_action_exec_result \<times> 's) \<Rightarrow> action_mask \<Rightarrow> nat \<Rightarrow>
    'a option list \<Rightarrow> nat \<Rightarrow> nat \<Rightarrow> action_mask \<Rightarrow> 'a fsm_action_executor \<Rightarrow> 's \<Rightarrow>
    nat \<times> action_mask \<times> 'a fsm_action_executor \<times> 's" where
  "run_slots act pending max_actions [] i attempted completed ex s = (attempted, completed, ex, s)"
| "run_slots act pending max_actions (h # hs) i attempted completed ex s =
     (if \<not> attempted < max_actions then (attempted, completed, ex, s)
      else
        let action = push_bit i 1 in
        if pending AND action = 0 then run_slots act pending max_actions hs (Suc i) attempted completed ex s
        else
          (case h of
             None \<Rightarrow> run_slots act pending max_actions hs (Suc i) attempted completed
                       (ex\<lparr>fx_blocked_count := fx_blocked_count ex + 1\<rparr>) s
           | Some f \<Rightarrow>
               (case act f action s of
                  (FSM_ACTION_EXEC_COMPLETE, s') \<Rightarrow>
                    run_slots act pending max_actions hs (Suc i) (Suc attempted) (completed OR action)
                      (ex\<lparr>fx_completed_count := fx_completed_count ex + 1\<rparr>) s'
                | (FSM_ACTION_EXEC_FAILED, s') \<Rightarrow>
                    run_slots act pending max_actions hs (Suc i) (Suc attempted) completed
                      (ex\<lparr>fx_failed_count := fx_failed_count ex + 1\<rparr>) s'
                | (FSM_ACTION_EXEC_PENDING, s') \<Rightarrow>
                    run_slots act pending max_actions hs (Suc i) (Suc attempted) completed ex s')))"

definition fsm_action_executor_run :: "('a \<Rightarrow> action_mask \<Rightarrow> 's \<Rightarrow> fsm_action_exec_result \<times> 's) \<Rightarrow>
    'a fsm_action_executor \<Rightarrow> action_mask \<Rightarrow> nat \<Rightarrow> 's \<Rightarrow> nat \<times> action_mask \<times> 'a fsm_action_executor \<times> 's" where
  "fsm_action_executor_run act ex pending max_actions s =
     (if max_actions = 0 then (0, ACTION_NONE, ex, s)
      else run_slots act pending max_actions (fx_handlers ex) 0 0 ACTION_NONE ex s)"

section \<open>The router\<close>

datatype event_owner =
    EVENT_OWNER_UNKNOWN | EVENT_OWNER_SYSTEM_FSM | EVENT_OWNER_MEASUREMENT | EVENT_OWNER_PRODUCT
  | EVENT_OWNER_INFRASTRUCTURE | EVENT_OWNER_CONFIG_STORAGE | EVENT_OWNER_TIME_REPORTING
  | EVENT_OWNER_BLE_CELLULAR | EVENT_OWNER_DISPLAY_HEALTH

text \<open>\<open>RouteResult\<close> as the pair of the owner and \<open>handled\<close>.  The id is masked to 16 bits.\<close>

definition route_event :: "app_event option \<Rightarrow> event_owner \<times> bool" where
  "route_event event =
     (case event of None \<Rightarrow> (EVENT_OWNER_UNKNOWN, False)
      | Some e \<Rightarrow>
          let range = (ucast (ev_id e AND 0xFF00) :: u16) in
          if range = 0x0100 then (EVENT_OWNER_SYSTEM_FSM, True)
          else if range = 0x0200 then (EVENT_OWNER_MEASUREMENT, True)
          else if range = 0x0300 then
            (if (ucast (ev_id e AND 0x00FF) :: u16) \<ge> 0x80 then (EVENT_OWNER_INFRASTRUCTURE, True)
             else (EVENT_OWNER_PRODUCT, True))
          else if range = 0x0400 then (EVENT_OWNER_CONFIG_STORAGE, True)
          else if range = 0x0500 then (EVENT_OWNER_TIME_REPORTING, True)
          else if range = 0x0600 then (EVENT_OWNER_BLE_CELLULAR, True)
          else if range = 0x0700 then (EVENT_OWNER_DISPLAY_HEALTH, True)
          else (EVENT_OWNER_UNKNOWN, False))"

text \<open>The mode transaction, written out twice in the code (the loop's FSM handler and the router's
  legacy branch): dispatch inside a repository transaction that publishes the new mode.\<close>

definition fsm_transaction :: "mode_guard_context \<Rightarrow> app_event \<Rightarrow> system_mode_manager \<Rightarrow> data_repository
    \<Rightarrow> bool \<times> system_mode_manager \<times> data_repository" where
  "fsm_transaction guards event fsm repo =
     (case txn_begin txn_init repo of
        (False, txn, repo1) \<Rightarrow> (False, fsm, repo1)
      | (True, txn, repo1) \<Rightarrow>
          (case system_fsm_dispatch fsm (Some event) (Some guards) of
             (result, fsm') \<Rightarrow>
               if result = FSM_TRANSITION_COMMITTED then
                 (case txn_write_mode (system_fsm_get_context fsm') txn repo1 of
                    (False, txn2, repo2) \<Rightarrow> (False, fsm', snd (txn_abort txn2 repo2))
                  | (True, txn2, repo2) \<Rightarrow>
                      (case txn_commit txn2 repo2 of
                         (True, txn3, repo3) \<Rightarrow> (True, fsm', repo3)
                       | (False, txn3, repo3) \<Rightarrow> (False, fsm', snd (txn_abort txn3 repo3))))
               else (True, fsm', snd (txn_abort txn repo1))))"

text \<open>The legacy dispatch by id range, when the mediator has no handler.\<close>

definition legacy_dispatch :: "app_event \<Rightarrow> mode_guard_provider \<Rightarrow> system_mode_manager \<Rightarrow> data_repository
    \<Rightarrow> bool \<times> system_mode_manager \<times> data_repository" where
  "legacy_dispatch event provider fsm repo =
     (case route_event (Some event) of (owner, handled) \<Rightarrow>
        if \<not> handled then (False, fsm, repo)
        else if owner = EVENT_OWNER_SYSTEM_FSM
        then fsm_transaction (mode_guard_capture (Some provider)) event fsm repo
        else (False, fsm, repo))"

text \<open>The evidence of the unguarded entry point, used with no mediator.\<close>

definition compatibility_evidence :: mode_guard_context where
  "compatibility_evidence = zero_guards
     \<lparr>core_ready := True, recovery_can_run := True, wake_sources_armed := True, service_authorized := True,
      safe_service_boundary := True, safe_to_resume_normal := True, return_normal := True,
      reinitialize_allowed := True\<rparr>"

definition dispatch_to_owner_raw :: "app_event \<Rightarrow> system_mode_manager \<Rightarrow> data_repository
    \<Rightarrow> bool \<times> system_mode_manager \<times> data_repository" where
  "dispatch_to_owner_raw event fsm repo =
     legacy_dispatch event (mode_guard_publish mode_guard_init compatibility_evidence) fsm repo"

section \<open>The loop\<close>

record loop_budget_config =
  lb_max_events_per_turn :: u8
  lb_max_service_steps :: u8
  lb_max_exec_us :: u32

abbreviation LOOP_BUDGET_DEFAULT_MAX_EVENTS :: u8 where "LOOP_BUDGET_DEFAULT_MAX_EVENTS \<equiv> 8"
abbreviation LOOP_BUDGET_DEFAULT_MAX_STEPS :: u8 where "LOOP_BUDGET_DEFAULT_MAX_STEPS \<equiv> 4"
abbreviation LOOP_BUDGET_DEFAULT_MAX_EXEC_US :: u32 where "LOOP_BUDGET_DEFAULT_MAX_EXEC_US \<equiv> 5000"

text \<open>The handlers: the loop's own and those of other components.\<close>

datatype 'h event_handler = Fsm_event_handler | Client_handler 'h
datatype 'a action_handler = Request_reset_action | Client_action 'a

text \<open>The loop with the objects it borrows, the reset requests it made of the platform and the state
  \<open>al_world\<close> of its clients.\<close>

record ('h, 'a, 'w) app_event_loop =
  al_queue :: app_event_queue
  al_fsm :: system_mode_manager
  al_repo :: data_repository
  al_mediator :: "'h event_handler event_mediator option"
  al_scheduler :: scheduler
  al_guard_provider :: mode_guard_provider
  al_action_executor :: "'a action_handler fsm_action_executor"
  al_budget :: loop_budget_config
  al_events_processed_last_turn :: u8
  al_budget_exhaustion_count :: u32
  al_initialized :: bool
  al_reset_requests :: "u32 list"
  al_world :: 'w

definition fsm_event_handler :: "app_event \<Rightarrow> ('h, 'a, 'w) app_event_loop \<Rightarrow> ('h, 'a, 'w) app_event_loop" where
  "fsm_event_handler event loop =
     (case fsm_transaction (mode_guard_capture (Some (al_guard_provider loop))) event (al_fsm loop) (al_repo loop) of
        (_, fsm, repo) \<Rightarrow> loop\<lparr>al_fsm := fsm, al_repo := repo\<rparr>)"

fun call_handler :: "('h \<Rightarrow> app_event \<Rightarrow> ('h, 'a, 'w) app_event_loop \<Rightarrow> ('h, 'a, 'w) app_event_loop) \<Rightarrow>
    'h event_handler \<Rightarrow> app_event \<Rightarrow> ('h, 'a, 'w) app_event_loop \<Rightarrow> ('h, 'a, 'w) app_event_loop" where
  "call_handler client Fsm_event_handler = fsm_event_handler"
| "call_handler client (Client_handler h) = client h"

text \<open>\<open>request_reset_action\<close>: the platform's \<open>system_request_reset(0)\<close> is recorded.\<close>

fun call_action :: "('a \<Rightarrow> action_mask \<Rightarrow> ('h, 'a, 'w) app_event_loop \<Rightarrow> fsm_action_exec_result \<times> ('h, 'a, 'w) app_event_loop) \<Rightarrow>
    'a action_handler \<Rightarrow> action_mask \<Rightarrow> ('h, 'a, 'w) app_event_loop \<Rightarrow> fsm_action_exec_result \<times> ('h, 'a, 'w) app_event_loop" where
  "call_action act Request_reset_action action loop =
     (FSM_ACTION_EXEC_COMPLETE, loop\<lparr>al_reset_requests := al_reset_requests loop @ [0]\<rparr>)"
| "call_action act (Client_action a) action loop = act a action loop"

definition execution_budget_elapsed :: "loop_budget_config \<Rightarrow> u64 \<Rightarrow> u64 \<Rightarrow> bool" where
  "execution_budget_elapsed budget started_us now_us \<longleftrightarrow>
     lb_max_exec_us budget \<noteq> 0 \<and> now_us \<ge> started_us \<and> now_us - started_us \<ge> ucast (lb_max_exec_us budget)"

text \<open>Registration of the mode events.\<close>

definition fsm_event_ids :: "event_id list" where
  "fsm_event_ids = [EVT_SYSTEM_START, EVT_INIT_COMPLETED, EVT_RECOVERABLE_INIT_FAILURE, EVT_CRITICAL_INIT_FAILURE,
     EVT_LOW_POWER_REQUEST, EVT_WAKE, EVT_SERVICE_REQUEST, EVT_SERVICE_EXIT, EVT_SYSTEM_RECOVERY_REQUIRED,
     EVT_RECOVERY_SUCCEEDED, EVT_RECOVERY_FAILED, EVT_CRITICAL_ERROR, EVT_AUTHORIZED_RECOVERY_REQUEST,
     EVT_CONTROLLED_REINITIALIZE]"

fun register_handlers :: "'h event_mediator \<Rightarrow> event_id list \<Rightarrow> 'h \<Rightarrow> bool \<times> 'h event_mediator" where
  "register_handlers m [] h = (True, m)"
| "register_handlers m (i # ids) h =
     (case event_mediator_register m i h of
        (EVENT_MEDIATOR_OK, m') \<Rightarrow> register_handlers m' ids h
      | (_, m') \<Rightarrow> (False, m'))"

definition initial_guards :: mode_guard_context where
  "initial_guards = zero_guards
     \<lparr>core_ready := True, recovery_can_run := True, wake_sources_armed := True, safe_service_boundary := True,
      safe_to_resume_normal := True, return_normal := True, reinitialize_allowed := True\<rparr>"

definition app_event_loop_init :: "app_event_queue \<Rightarrow> system_mode_manager \<Rightarrow> data_repository \<Rightarrow>
    'h event_handler event_mediator option \<Rightarrow> scheduler \<Rightarrow> loop_budget_config option \<Rightarrow> 'w \<Rightarrow> ('h, 'a, 'w) app_event_loop" where
  "app_event_loop_init queue fsm repo mediator scheduler budget world =
     (let b = (case budget of Some b \<Rightarrow> b
               | None \<Rightarrow> \<lparr>lb_max_events_per_turn = LOOP_BUDGET_DEFAULT_MAX_EVENTS,
                   lb_max_service_steps = LOOP_BUDGET_DEFAULT_MAX_STEPS,
                   lb_max_exec_us = LOOP_BUDGET_DEFAULT_MAX_EXEC_US\<rparr>);
          loop = \<lparr>al_queue = queue, al_fsm = fsm, al_repo = repo, al_mediator = mediator, al_scheduler = scheduler,
                  al_guard_provider = mode_guard_init,
                  al_action_executor = snd (fsm_action_executor_bind fsm_action_executor_init ACTION_REQUEST_RESET
                                              (Some Request_reset_action)),
                  al_budget = b, al_events_processed_last_turn = 0, al_budget_exhaustion_count = 0,
                  al_initialized = False, al_reset_requests = [], al_world = world\<rparr>;
          (ok, m) = (case mediator of None \<Rightarrow> (True, None)
                     | Some _ \<Rightarrow> map_prod id Some (register_handlers event_mediator_init fsm_event_ids Fsm_event_handler))
      in if \<not> ok then loop\<lparr>al_mediator := m\<rparr>
         else loop\<lparr>al_mediator := m, al_guard_provider := mode_guard_publish mode_guard_init initial_guards,
                   al_initialized := True\<rparr>)"

definition app_event_loop_publish_guards :: "('h, 'a, 'w) app_event_loop \<Rightarrow> mode_guard_context \<Rightarrow> ('h, 'a, 'w) app_event_loop" where
  "app_event_loop_publish_guards loop evidence =
     loop\<lparr>al_guard_provider := mode_guard_publish (al_guard_provider loop) evidence\<rparr>"

definition app_event_loop_bind_action :: "('h, 'a, 'w) app_event_loop \<Rightarrow> action_mask \<Rightarrow> 'a action_handler option
    \<Rightarrow> bool \<times> ('h, 'a, 'w) app_event_loop" where
  "app_event_loop_bind_action loop action handler =
     (case fsm_action_executor_bind (al_action_executor loop) action handler of
        (ok, ex) \<Rightarrow> (ok, loop\<lparr>al_action_executor := ex\<rparr>))"

definition dispatch_to_owner_guarded ::
    "('h \<Rightarrow> app_event \<Rightarrow> ('h, 'a, 'w) app_event_loop \<Rightarrow> ('h, 'a, 'w) app_event_loop) \<Rightarrow> app_event \<Rightarrow>
     ('h, 'a, 'w) app_event_loop \<Rightarrow> bool \<times> ('h, 'a, 'w) app_event_loop" where
  "dispatch_to_owner_guarded client event loop =
     (case event_mediator_dispatch (call_handler client) (al_mediator loop) event loop of
        (EVENT_MEDIATOR_OK, loop') \<Rightarrow> (True, loop')
      | (_, loop') \<Rightarrow>
          (case legacy_dispatch event (al_guard_provider loop') (al_fsm loop') (al_repo loop') of
             (consumed, fsm, repo) \<Rightarrow> (consumed, loop'\<lparr>al_fsm := fsm, al_repo := repo\<rparr>)))"

text \<open>Posting the due events; the results of the posts are ignored, as in the code.\<close>

definition post_all :: "app_event_queue \<Rightarrow> app_event list \<Rightarrow> app_event_queue" where
  "post_all q evs = foldl (\<lambda>q e. fst (snd (app_event_queue_post q (Some e)))) q evs"

definition acknowledge_deadline :: "app_event \<Rightarrow> scheduler \<Rightarrow> scheduler" where
  "acknowledge_deadline event js =
     (if ev_delivery event = DELIVERY_DEADLINE
      then snd (scheduler_acknowledge js (ucast (ev_correlation_id event)) (ev_source_generation event)) else js)"

text \<open>The dispatch loop: \<open>n\<close> service steps left, \<open>k\<close> done; \<open>check\<close> gives the clock at the k-th budget check.
  The result: steps done, whether the time budget ran out, the loop.\<close>

fun event_steps :: "('h \<Rightarrow> app_event \<Rightarrow> ('h, 'a, 'w) app_event_loop \<Rightarrow> ('h, 'a, 'w) app_event_loop) \<Rightarrow>
    u64 \<Rightarrow> (nat \<Rightarrow> u64) \<Rightarrow> nat \<Rightarrow> nat \<Rightarrow> ('h, 'a, 'w) app_event_loop \<Rightarrow> nat \<times> bool \<times> ('h, 'a, 'w) app_event_loop" where
  "event_steps client started check 0 k loop = (k, False, loop)"
| "event_steps client started check (Suc n) k loop =
     (if \<not> al_events_processed_last_turn loop < lb_max_events_per_turn (al_budget loop) then (k, False, loop)
      else if execution_budget_elapsed (al_budget loop) started (check k) then (k, True, loop)
      else
        (case app_event_queue_try_get (al_queue loop) of
           (None, q, _) \<Rightarrow> (k, False, loop\<lparr>al_queue := q\<rparr>)
         | (Some evt, q, _) \<Rightarrow>
             let loop1 = snd (dispatch_to_owner_guarded client evt (loop\<lparr>al_queue := q\<rparr>));
                 loop2 = loop1\<lparr>al_scheduler := acknowledge_deadline evt (al_scheduler loop1),
                               al_events_processed_last_turn := al_events_processed_last_turn loop1 + 1\<rparr>
             in event_steps client started check n (Suc k) loop2))"

record turn_clock =
  tc_started :: u64
  tc_now :: u64
  tc_due :: "nat \<Rightarrow> u64"
  tc_check :: "nat \<Rightarrow> u64"
  tc_end :: u64

text \<open>The second half of a turn: the pending actions, with the service steps left over.\<close>

definition action_phase ::
    "('a \<Rightarrow> action_mask \<Rightarrow> ('h, 'a, 'w) app_event_loop \<Rightarrow> fsm_action_exec_result \<times> ('h, 'a, 'w) app_event_loop) \<Rightarrow>
     loop_budget_config \<Rightarrow> u64 \<Rightarrow> u64 \<Rightarrow> nat \<Rightarrow> bool \<Rightarrow> ('h, 'a, 'w) app_event_loop \<Rightarrow> bool \<times> ('h, 'a, 'w) app_event_loop" where
  "action_phase act budget started now steps exhausted loop =
     (if execution_budget_elapsed budget started now then (True, loop)
      else
        let actions = system_fsm_get_pending_actions (al_fsm loop);
            remaining = unat (lb_max_service_steps budget) - steps
        in if actions \<noteq> ACTION_NONE \<and> remaining > 0 then
             (case fsm_action_executor_run (call_action act) (al_action_executor loop) actions remaining loop of
                (_, completed, ex, l) \<Rightarrow>
                  (exhausted, l\<lparr>al_action_executor := ex, al_fsm := system_fsm_complete_actions (al_fsm l) completed\<rparr>))
           else (exhausted, loop))"

definition app_event_loop_run_once ::
    "('h \<Rightarrow> app_event \<Rightarrow> ('h, 'a, 'w) app_event_loop \<Rightarrow> ('h, 'a, 'w) app_event_loop) \<Rightarrow>
     ('a \<Rightarrow> action_mask \<Rightarrow> ('h, 'a, 'w) app_event_loop \<Rightarrow> fsm_action_exec_result \<times> ('h, 'a, 'w) app_event_loop) \<Rightarrow>
     turn_clock \<Rightarrow> ('h, 'a, 'w) app_event_loop \<Rightarrow> ('h, 'a, 'w) app_event_loop" where
  "app_event_loop_run_once client act clk loop =
     (if \<not> al_initialized loop then loop
      else
        let budget = al_budget loop;
            due_limit = min (lb_max_events_per_turn budget) LOOP_BUDGET_DEFAULT_MAX_EVENTS;
            (due, sched) = scheduler_dispatch_due (tc_due clk) (al_scheduler loop) (tc_now clk) due_limit;
            loop1 = loop\<lparr>al_events_processed_last_turn := 0, al_scheduler := sched, al_queue := post_all (al_queue loop) due\<rparr>;
            (steps, exhausted, loop2) = event_steps client (tc_started clk) (tc_check clk) (unat (lb_max_service_steps budget)) 0 loop1;
            (exhausted', loop3) = action_phase act budget (tc_started clk) (tc_end clk) steps exhausted loop2;
            full = (app_event_queue_get_count (al_queue loop3) > 0 \<and>
                    (steps \<ge> unat (lb_max_service_steps budget) \<or>
                     al_events_processed_last_turn loop3 \<ge> lb_max_events_per_turn budget))
        in if exhausted' \<or> full
           then loop3\<lparr>al_budget_exhaustion_count := al_budget_exhaustion_count loop3 + 1\<rparr> else loop3)"

text \<open>The simulation entry point: no mediator, no budget but the default number of steps.\<close>

fun run_once_raw_steps :: "nat \<Rightarrow> app_event_queue \<Rightarrow> system_mode_manager \<Rightarrow> data_repository \<Rightarrow> scheduler
    \<Rightarrow> app_event_queue \<times> system_mode_manager \<times> data_repository \<times> scheduler" where
  "run_once_raw_steps 0 q fsm repo js = (q, fsm, repo, js)"
| "run_once_raw_steps (Suc n) q fsm repo js =
     (case app_event_queue_try_get q of
        (None, q', _) \<Rightarrow> (q', fsm, repo, js)
      | (Some evt, q', _) \<Rightarrow>
          (case dispatch_to_owner_raw evt fsm repo of
             (_, fsm', repo') \<Rightarrow> run_once_raw_steps n q' fsm' repo' (acknowledge_deadline evt js)))"

definition app_event_loop_run_once_raw where
  "app_event_loop_run_once_raw q fsm repo js = run_once_raw_steps (unat LOOP_BUDGET_DEFAULT_MAX_STEPS) q fsm repo js"

definition app_event_loop_is_idle :: "('h, 'a, 'w) app_event_loop \<Rightarrow> bool" where
  "app_event_loop_is_idle loop = (if \<not> al_initialized loop then True else app_event_queue_get_count (al_queue loop) = 0)"

section \<open>The published mode\<close>

lemma txn_init_inactive [simp]: "tx_state txn_init \<noteq> TXN_STATE_ACTIVE"
  by (simp add: txn_init_def)

lemma fsm_transaction_cases:
  assumes "repo_ok repo" "\<not> dr_writer_active repo"
  obtains (same) repo' where "fsm_transaction g e fsm repo = (True, fsm, repo')" "repo_ok repo'" "\<not> dr_writer_active repo'"
      "published repo' = published repo" "dr_snapshot_version repo' = dr_snapshot_version repo"
  | (moved) repo' t where "fsm_transaction g e fsm repo = (True, commit_transition fsm e t, repo')" "repo_ok repo'"
      "\<not> dr_writer_active repo'" "dr_snapshot_version repo' = dr_snapshot_version repo + 1"
      "rs_mode (published repo') = system_fsm_get_context (commit_transition fsm e t)"
proof -
  obtain t1 r1 where b: "txn_begin txn_init repo = (True, t1, r1)" "repo_ok r1" "owns t1 r1" "published r1 = published repo"
    "dr_snapshot_version r1 = dr_snapshot_version repo"
    using begin_owned [OF assms txn_init_inactive] by blast
  obtain t2 r2 where a: "txn_abort t1 r1 = (t2, r2)" "repo_ok r2" "\<not> dr_writer_active r2" "published r2 = published r1"
    "dr_snapshot_version r2 = dr_snapshot_version r1"
    using abort_owned [OF b(2,3)] by blast
  show thesis
  proof (rule dispatch_cases [of fsm e g])
    assume "is_stale_completion fsm e" "system_fsm_dispatch fsm (Some e) (Some g) = (FSM_STALE_EVENT, fsm)"
    then show thesis using a b by (intro same [of r2]) (simp_all add: fsm_transaction_def)
  next
    assume "system_fsm_dispatch fsm (Some e) (Some g) = (FSM_HANDLED_NO_TRANSITION, fsm)"
    then show thesis using a b by (intro same [of r2]) (simp_all add: fsm_transaction_def)
  next
    fix t assume d: "system_fsm_dispatch fsm (Some e) (Some g) = (FSM_TRANSITION_COMMITTED, commit_transition fsm e t)"
    let ?ctx = "system_fsm_get_context (commit_transition fsm e t)"
    obtain t3 r3 where w: "txn_write_mode ?ctx t1 r1 = (True, t3, r3)" "repo_ok r3" "owns t3 r3"
      "tx_inactive_index t3 = tx_inactive_index t1"
      "buffer r3 (tx_inactive_index t1) = (buffer r1 (tx_inactive_index t1))\<lparr>rs_mode := ?ctx\<rparr>"
      "dr_snapshot_version r3 = dr_snapshot_version r1"
      using write_owned [OF b(2,3), of "Write_mode ?ctx"] by auto
    obtain t4 r4 where c: "txn_commit t3 r3 = (True, t4, r4)" "repo_ok r4" "\<not> dr_writer_active r4"
      "published r4 = (buffer r3 (tx_inactive_index t3))\<lparr>rs_snapshot_version := dr_snapshot_version r3 + 1\<rparr>"
      "dr_snapshot_version r4 = dr_snapshot_version r3 + 1"
      using commit_owned [OF w(2,3)] by blast
    show thesis using b w c d by (intro moved [of t r4]) (simp_all add: fsm_transaction_def)
  qed
qed

text \<open>A run of mode transactions, each with the guards captured for its event.\<close>

definition mode_step :: "system_mode_manager \<times> data_repository \<Rightarrow> app_event \<times> mode_guard_context \<Rightarrow> system_mode_manager \<times> data_repository" where
  "mode_step s eg = snd (fsm_transaction (snd eg) (fst eg) (fst s) (snd s))"

definition mode_inv :: "system_mode_manager \<times> data_repository \<Rightarrow> bool" where
  "mode_inv s \<longleftrightarrow> (case s of (fsm, repo) \<Rightarrow> repo_ok repo \<and> \<not> dr_writer_active repo \<and>
     dr_snapshot_version repo = transition_sequence fsm \<and>
     smc_current_mode (rs_mode (published repo)) = current_mode fsm \<and>
     (fsm = system_fsm_init \<or> rs_mode (published repo) = system_fsm_get_context fsm))"

lemma mode_step_inv: "mode_inv s \<Longrightarrow> mode_inv (mode_step s eg)"
proof -
  assume inv: "mode_inv s"
  obtain fsm repo where s: "s = (fsm, repo)" by fastforce
  have "repo_ok repo" "\<not> dr_writer_active repo" using inv by (auto simp: mode_inv_def s)
  then show ?thesis
    by (cases rule: fsm_transaction_cases [where g = "snd eg" and e = "fst eg" and fsm = fsm])
      (use inv in \<open>auto simp: mode_inv_def mode_step_def s system_fsm_get_context_def commit_transition_def\<close>)
qed

interpretation modes: transition_system mode_step mode_inv
  by unfold_locales (rule mode_step_inv)

lemma mode_init_inv: "mode_inv (system_fsm_init, data_repository_init)"
  using repo_init_ok
  by (simp add: mode_inv_def system_fsm_init_def data_repository_init_def published_def buffer_def
      zero_snapshot_def zero_mode_context_def)

text \<open>C38: the repository's mode is the machine's mode after every sequence of mode events, its full context
  is published with each transition, the snapshot version counts the transitions, and the writer
  lock is free again after each event.\<close>

theorem published_mode_follows_fsm:
  "let (fsm, repo) = foldl mode_step (system_fsm_init, data_repository_init) egs
   in smc_current_mode (rs_mode (published repo)) = current_mode fsm \<and>
      (fsm = system_fsm_init \<or> rs_mode (published repo) = system_fsm_get_context fsm) \<and>
      dr_snapshot_version repo = transition_sequence fsm \<and> \<not> dr_writer_active repo"
  using modes.run_inv [OF mode_init_inv, of egs] by (auto simp: mode_inv_def)

text \<open>With the writer lock held by somebody else the event is dropped: the machine does not move.\<close>

lemma fsm_transaction_locked: "dr_writer_active repo \<Longrightarrow> fsm_transaction g e fsm repo = (False, fsm, repo)"
  by (simp add: fsm_transaction_def txn_begin_def)

section \<open>Bounded turns\<close>

text \<open>Clients that leave the queue and the loop's own accounting alone.\<close>

definition keeps_loop :: "(('h, 'a, 'w) app_event_loop \<Rightarrow> ('h, 'a, 'w) app_event_loop) \<Rightarrow> bool" where
  "keeps_loop f \<longleftrightarrow> (\<forall>l. al_queue (f l) = al_queue l \<and> al_budget (f l) = al_budget l \<and>
     al_events_processed_last_turn (f l) = al_events_processed_last_turn l \<and>
     al_budget_exhaustion_count (f l) = al_budget_exhaustion_count l)"

lemma keeps_loopD:
  assumes "keeps_loop f"
  shows "al_queue (f l) = al_queue l" "al_budget (f l) = al_budget l"
    "al_events_processed_last_turn (f l) = al_events_processed_last_turn l"
    "al_budget_exhaustion_count (f l) = al_budget_exhaustion_count l"
  using assms by (simp_all add: keeps_loop_def)

lemma call_handler_keeps: "\<forall>h e. keeps_loop (client h e) \<Longrightarrow> keeps_loop (call_handler client h e)"
  by (cases h) (simp_all add: keeps_loop_def fsm_event_handler_def split: prod.split)

lemma dispatch_cases_loop:
  obtains (handler) h where "snd (dispatch_to_owner_guarded client e l) = call_handler client h e l"
  | (legacy) fsm repo where "snd (dispatch_to_owner_guarded client e l) = l\<lparr>al_fsm := fsm, al_repo := repo\<rparr>"
  by (cases "legacy_dispatch e (al_guard_provider l) (al_fsm l) (al_repo l)"; cases "al_mediator l"; cases "find_handler (the (al_mediator l)) (ev_id e)")
    (auto simp: dispatch_to_owner_guarded_def event_mediator_dispatch_def split: prod.splits)

lemma dispatch_keeps:
  assumes "\<forall>h e. keeps_loop (client h e)"
  shows "keeps_loop (\<lambda>l. snd (dispatch_to_owner_guarded client e l))"
  unfolding keeps_loop_def
proof
  fix l
  show "al_queue (snd (dispatch_to_owner_guarded client e l)) = al_queue l \<and>
      al_budget (snd (dispatch_to_owner_guarded client e l)) = al_budget l \<and>
      al_events_processed_last_turn (snd (dispatch_to_owner_guarded client e l)) = al_events_processed_last_turn l \<and>
      al_budget_exhaustion_count (snd (dispatch_to_owner_guarded client e l)) = al_budget_exhaustion_count l"
    by (rule dispatch_cases_loop [of client e l])
      (simp_all add: keeps_loopD [OF call_handler_keeps [OF assms]])
qed

lemma event_steps_bounded:
  assumes "\<forall>h e. keeps_loop (client h e)" "queue_inv (al_queue l)"
    and "unat (al_events_processed_last_turn l) + n < 256"
    and "event_steps client started check n k l = (k', ex, l')"
  shows "k \<le> k' \<and> k' \<le> k + n \<and> queue_inv (al_queue l') \<and> q_count (al_queue l') + (k' - k) = q_count (al_queue l) \<and>
    unat (al_events_processed_last_turn l') = unat (al_events_processed_last_turn l) + (k' - k) \<and>
    al_budget l' = al_budget l \<and> al_budget_exhaustion_count l' = al_budget_exhaustion_count l \<and>
    (k' - k \<noteq> 0 \<longrightarrow> unat (al_events_processed_last_turn l') \<le> unat (lb_max_events_per_turn (al_budget l))) \<and>
    (ex \<longrightarrow> lb_max_exec_us (al_budget l) \<noteq> 0) \<and>
    (\<not> ex \<longrightarrow> q_count (al_queue l') = 0 \<or> k' = k + n \<or>
       lb_max_events_per_turn (al_budget l) \<le> al_events_processed_last_turn l')"
  using assms
proof (induction n arbitrary: k l)
  case 0
  then show ?case by simp
next
  case (Suc n)
  let ?stop = "\<not> al_events_processed_last_turn l < lb_max_events_per_turn (al_budget l)"
  show ?case
  proof (cases "?stop \<or> execution_budget_elapsed (al_budget l) started (check k)")
    case True
    then show ?thesis using Suc.prems(2,4) by (auto simp: execution_budget_elapsed_def split: if_splits)
  next
    case go: False
    show ?thesis
    proof (cases "try_get_unlocked (al_queue l)")
      case None
      then have "q_count (al_queue l) = 0" by (simp add: try_get_None_iff)
      with None Suc.prems(2,4) go show ?thesis by (auto simp: app_event_queue_try_get_def)
    next
      case (Some r)
      obtain e q where r: "try_get_unlocked (al_queue l) = Some (e, q)" using Some by (cases r) auto
      let ?l1 = "snd (dispatch_to_owner_guarded client e (l\<lparr>al_queue := q\<rparr>))"
      let ?l2 = "?l1\<lparr>al_scheduler := acknowledge_deadline e (al_scheduler ?l1),
        al_events_processed_last_turn := al_events_processed_last_turn ?l1 + 1\<rparr>"
      have k1: "al_queue ?l1 = q" "al_budget ?l1 = al_budget l"
        "al_events_processed_last_turn ?l1 = al_events_processed_last_turn l"
        "al_budget_exhaustion_count ?l1 = al_budget_exhaustion_count l"
        using keeps_loopD [OF dispatch_keeps [OF Suc.prems(1)], of e "l\<lparr>al_queue := q\<rparr>"] by simp_all
      have inc: "unat (al_events_processed_last_turn l + 1) = unat (al_events_processed_last_turn l) + 1"
        using Suc.prems(3) by (intro unat_inc) simp
      have lt: "unat (al_events_processed_last_turn l) < unat (lb_max_events_per_turn (al_budget l))"
        using go by (simp add: word_less_nat_alt)
      have q: "queue_inv q" "q_count (al_queue l) = Suc (q_count q)"
        using get_refinesD [OF Suc.prems(2) r] eq.get_length [OF Suc.prems(2) r] by simp_all
      have run: "event_steps client started check n (Suc k) ?l2 = (k', ex, l')"
        using Suc.prems(4) go r by (simp add: app_event_queue_try_get_def Let_def)
      have small: "unat (al_events_processed_last_turn ?l2) + n < 256"
        using Suc.prems(3) inc k1 by simp
      from Suc.IH [OF Suc.prems(1) _ small run] q k1 inc lt show ?thesis by auto
    qed
  qed
qed

lemma run_slots_keeps:
  "\<forall>f a. keeps_loop (\<lambda>l. snd (act f a l)) \<Longrightarrow>
   al_queue (snd (snd (snd (run_slots act p m hs i n c ex l)))) = al_queue l \<and>
   al_budget (snd (snd (snd (run_slots act p m hs i n c ex l)))) = al_budget l \<and>
   al_events_processed_last_turn (snd (snd (snd (run_slots act p m hs i n c ex l)))) = al_events_processed_last_turn l \<and>
   al_budget_exhaustion_count (snd (snd (snd (run_slots act p m hs i n c ex l)))) = al_budget_exhaustion_count l"
proof (induction hs arbitrary: i n c ex l)
  case (Cons h hs)
  have "al_queue s' = al_queue s \<and> al_budget s' = al_budget s \<and>
      al_events_processed_last_turn s' = al_events_processed_last_turn s \<and>
      al_budget_exhaustion_count s' = al_budget_exhaustion_count s" if "act f a s = (r, s')" for f a s r s'
    using keeps_loopD [OF Cons.prems [THEN spec, THEN spec], of f a s] that by simp
  with Cons show ?case
    by (auto simp: Let_def split: option.splits prod.splits fsm_action_exec_result.splits)
qed simp

lemma call_action_keeps: "\<forall>f a. keeps_loop (\<lambda>l. snd (act f a l)) \<Longrightarrow> keeps_loop (\<lambda>l. snd (call_action act f a l))"
  by (cases f) (simp_all add: keeps_loop_def)

lemma post_all_inv: "queue_inv q \<Longrightarrow> queue_inv (post_all q es)"
proof (induction es arbitrary: q)
  case (Cons e es)
  have "fst (snd (app_event_queue_post q (Some e))) = q_put q e"
    by (simp add: app_event_queue_post_def q_put_def split: prod.split)
  with Cons eq.put_inv [OF Cons.prems] show ?case by (simp add: post_all_def)
qed (simp add: post_all_def)

definition due_limit :: "('h, 'a, 'w) app_event_loop \<Rightarrow> u8" where
  "due_limit loop = min (lb_max_events_per_turn (al_budget loop)) LOOP_BUDGET_DEFAULT_MAX_EVENTS"

text \<open>The queue of the turn after the due events of the scheduler were posted.\<close>

definition turn_queue :: "turn_clock \<Rightarrow> ('h, 'a, 'w) app_event_loop \<Rightarrow> app_event_queue" where
  "turn_queue clk loop =
     post_all (al_queue loop) (fst (scheduler_dispatch_due (tc_due clk) (al_scheduler loop) (tc_now clk) (due_limit loop)))"

text \<open>The action phase changes nothing of the event accounting.\<close>

lemma action_phase_keeps:
  assumes "\<forall>f a. keeps_loop (\<lambda>l. snd (act f a l))" "action_phase act b started now steps ex l = (ex', l')"
  shows "al_queue l' = al_queue l \<and> al_events_processed_last_turn l' = al_events_processed_last_turn l \<and>
    al_budget_exhaustion_count l' = al_budget_exhaustion_count l \<and> (lb_max_exec_us b = 0 \<longrightarrow> ex' = ex)"
proof -
  have "\<forall>f a. keeps_loop (\<lambda>l. snd (call_action act f a l))" using call_action_keeps [OF assms(1)] by blast
  note slots = run_slots_keeps [OF this]
  obtain n c e l2 where r: "fsm_action_executor_run (call_action act) (al_action_executor l)
      (system_fsm_get_pending_actions (al_fsm l)) (unat (lb_max_service_steps b) - steps) l = (n, c, e, l2)"
    by (metis prod.exhaust)
  have "al_queue l2 = al_queue l \<and> al_events_processed_last_turn l2 = al_events_processed_last_turn l \<and>
      al_budget_exhaustion_count l2 = al_budget_exhaustion_count l"
    using r slots [of "system_fsm_get_pending_actions (al_fsm l)" "unat (lb_max_service_steps b) - steps"
        "fx_handlers (al_action_executor l)" 0 0 0 "al_action_executor l" l]
    by (auto simp: fsm_action_executor_run_def split: if_splits)
  with assms(2) r show ?thesis
    by (auto simp: action_phase_def Let_def execution_budget_elapsed_def split: if_splits)
qed

lemma run_once_phases:
  assumes "al_initialized loop" "\<forall>f a. keeps_loop (\<lambda>l. snd (act f a l))"
  obtains loop1 steps ex loop2 ex' where
    "al_queue loop1 = turn_queue clk loop" "al_budget loop1 = al_budget loop" "al_events_processed_last_turn loop1 = 0"
    "al_budget_exhaustion_count loop1 = al_budget_exhaustion_count loop"
    "event_steps client (tc_started clk) (tc_check clk) (unat (lb_max_service_steps (al_budget loop))) 0 loop1 = (steps, ex, loop2)"
    "al_queue (app_event_loop_run_once client act clk loop) = al_queue loop2"
    "al_events_processed_last_turn (app_event_loop_run_once client act clk loop) = al_events_processed_last_turn loop2"
    "lb_max_exec_us (al_budget loop) = 0 \<longrightarrow> ex' = ex"
    "al_budget_exhaustion_count (app_event_loop_run_once client act clk loop) = al_budget_exhaustion_count loop2 +
       (if ex' \<or> (q_count (al_queue loop2) > 0 \<and> (steps \<ge> unat (lb_max_service_steps (al_budget loop)) \<or>
            al_events_processed_last_turn loop2 \<ge> lb_max_events_per_turn (al_budget loop))) then 1 else 0)"
proof -
  let ?B = "al_budget loop"
  obtain due sched where d: "scheduler_dispatch_due (tc_due clk) (al_scheduler loop) (tc_now clk)
      (min (lb_max_events_per_turn ?B) LOOP_BUDGET_DEFAULT_MAX_EVENTS) = (due, sched)" by fastforce
  define loop1 where "loop1 = loop\<lparr>al_events_processed_last_turn := 0, al_scheduler := sched, al_queue := post_all (al_queue loop) due\<rparr>"
  obtain steps ex loop2 where es:
    "event_steps client (tc_started clk) (tc_check clk) (unat (lb_max_service_steps ?B)) 0 loop1 = (steps, ex, loop2)"
    by (metis prod.exhaust)
  obtain ex' loop3 where ph: "action_phase act ?B (tc_started clk) (tc_end clk) steps ex loop2 = (ex', loop3)" by fastforce
  note keep = action_phase_keeps [OF assms(2) ph]
  have run: "app_event_loop_run_once client act clk loop =
    (if ex' \<or> (app_event_queue_get_count (al_queue loop3) > 0 \<and>
          (steps \<ge> unat (lb_max_service_steps ?B) \<or> al_events_processed_last_turn loop3 \<ge> lb_max_events_per_turn ?B))
     then loop3\<lparr>al_budget_exhaustion_count := al_budget_exhaustion_count loop3 + 1\<rparr> else loop3)"
    using assms(1) by (simp add: app_event_loop_run_once_def Let_def d es ph loop1_def [symmetric])
  show thesis
    by (rule that [of loop1 steps ex loop2 ex'])
      (use keep es in \<open>simp_all add: loop1_def turn_queue_def due_limit_def d run app_event_queue_get_count_def\<close>)
qed

text \<open>A turn is bounded and accounts for every event: what was queued (with the due events) is either
  handled in this turn or still queued, at most the configured numbers of steps and events are handled,
  and without a time budget the turn stops only with an empty queue or at one of the two limits,
  counting an exhaustion exactly when events are left.\<close>

theorem turn_is_bounded:
  assumes "al_initialized loop" "queue_inv (al_queue loop)"
    and "\<forall>h e. keeps_loop (client h e)" "\<forall>f a. keeps_loop (\<lambda>l. snd (act f a l))"
  shows "let loop' = app_event_loop_run_once client act clk loop;
             n = unat (al_events_processed_last_turn loop'); left = q_count (al_queue loop'); b = al_budget loop
         in left + n = q_count (turn_queue clk loop) \<and>
            n \<le> unat (lb_max_service_steps b) \<and> n \<le> unat (lb_max_events_per_turn b) \<and>
            (lb_max_exec_us b = 0 \<longrightarrow>
               (left = 0 \<or> n = unat (lb_max_service_steps b) \<or> n = unat (lb_max_events_per_turn b)) \<and>
               al_budget_exhaustion_count loop' = al_budget_exhaustion_count loop + (if left = 0 then 0 else 1))"
proof (rule run_once_phases [OF assms(1,4), of clk client])
  fix loop1 steps ex loop2 ex'
  let ?b = "al_budget loop" and ?loop' = "app_event_loop_run_once client act clk loop"
  assume l1: "al_queue loop1 = turn_queue clk loop" "al_budget loop1 = ?b" "al_events_processed_last_turn loop1 = 0"
      "al_budget_exhaustion_count loop1 = al_budget_exhaustion_count loop"
    and es: "event_steps client (tc_started clk) (tc_check clk) (unat (lb_max_service_steps ?b)) 0 loop1 = (steps, ex, loop2)"
    and l': "al_queue ?loop' = al_queue loop2" "al_events_processed_last_turn ?loop' = al_events_processed_last_turn loop2"
      "lb_max_exec_us ?b = 0 \<longrightarrow> ex' = ex"
    and count: "al_budget_exhaustion_count ?loop' = al_budget_exhaustion_count loop2 +
       (if ex' \<or> (q_count (al_queue loop2) > 0 \<and> (steps \<ge> unat (lb_max_service_steps ?b) \<or>
            al_events_processed_last_turn loop2 \<ge> lb_max_events_per_turn ?b)) then 1 else 0)"
  have "queue_inv (al_queue loop1)" using assms(2) l1(1) by (simp add: turn_queue_def post_all_inv)
  moreover have "unat (al_events_processed_last_turn loop1) + unat (lb_max_service_steps ?b) < 256"
    using unsigned_less [of "lb_max_service_steps ?b"] l1(3) by simp
  ultimately have "steps \<le> unat (lb_max_service_steps ?b) \<and> q_count (al_queue loop2) + steps = q_count (turn_queue clk loop) \<and>
      unat (al_events_processed_last_turn loop2) = steps \<and> al_budget_exhaustion_count loop2 = al_budget_exhaustion_count loop \<and>
      (steps \<noteq> 0 \<longrightarrow> steps \<le> unat (lb_max_events_per_turn ?b)) \<and> (ex \<longrightarrow> lb_max_exec_us ?b \<noteq> 0) \<and>
      (\<not> ex \<longrightarrow> q_count (al_queue loop2) = 0 \<or> steps = unat (lb_max_service_steps ?b) \<or>
         unat (lb_max_events_per_turn ?b) \<le> steps)"
    using event_steps_bounded [OF assms(3) _ _ es] l1 by (auto simp: word_le_nat_alt)
  with l' count show ?thesis by (auto simp: Let_def word_le_nat_alt)
qed

definition sample_clock :: turn_clock where
  "sample_clock = \<lparr>tc_started = 0, tc_now = 100, tc_due = (\<lambda>_. 100), tc_check = (\<lambda>_. 0), tc_end = 0\<rparr>"

definition sample_loop :: "(unit, unit, unit) app_event_loop" where
  "sample_loop = app_event_loop_init (post_all (app_event_queue_init None) [zero_event, zero_event\<lparr>ev_id := EVT_INIT_COMPLETED\<rparr>])
     system_fsm_init data_repository_init (Some []) [sample_job 3 100 0]
     (Some \<lparr>lb_max_events_per_turn = 2, lb_max_service_steps = 4, lb_max_exec_us = 0\<rparr>) ()"

lemma turn_is_bounded_witness:
  "q_count (al_queue (app_event_loop_run_once (\<lambda>_ _ l. l) (\<lambda>_ _ l. (FSM_ACTION_EXEC_COMPLETE, l)) sample_clock sample_loop)) +
   unat (al_events_processed_last_turn (app_event_loop_run_once (\<lambda>_ _ l. l) (\<lambda>_ _ l. (FSM_ACTION_EXEC_COMPLETE, l)) sample_clock sample_loop)) = 3"
proof -
  have i: "al_initialized sample_loop" by code_simp
  have q: "queue_inv (al_queue sample_loop)"
    using post_all_inv [OF init_queue_inv]
    by (simp add: sample_loop_def app_event_loop_init_def Let_def split: prod.split)
  have c: "q_count (turn_queue sample_clock sample_loop) = 3" by code_simp
  from turn_is_bounded [OF i q, of "\<lambda>_ _ l. l" "\<lambda>_ _ l. (FSM_ACTION_EXEC_COMPLETE, l)" sample_clock] c
  show ?thesis by (simp add: keeps_loop_def Let_def)
qed

section \<open>The executor's calls\<close>

text \<open>An action handler whose calls are recorded.\<close>

definition recording :: "('a \<Rightarrow> action_mask \<Rightarrow> 's \<Rightarrow> fsm_action_exec_result \<times> 's) \<Rightarrow>
    'a \<Rightarrow> action_mask \<Rightarrow> 's \<times> action_mask list \<Rightarrow> fsm_action_exec_result \<times> 's \<times> action_mask list" where
  "recording act f a sl = (case act f a (fst sl) of (r, s') \<Rightarrow> (r, s', snd sl @ [a]))"

text \<open>The pending and bound slots, from \<open>i\<close> on.\<close>

definition runnable :: "action_mask \<Rightarrow> 'a option list \<Rightarrow> nat \<Rightarrow> nat list" where
  "runnable pending hs i = filter (\<lambda>k. bit pending k \<and> hs ! (k - i) \<noteq> None) [i..<i + length hs]"

lemma runnable_Cons:
  "runnable pending (h # hs) i = (if bit pending i \<and> h \<noteq> None then [i] else []) @ runnable pending hs (Suc i)"
proof -
  have "filter (\<lambda>k. bit pending k \<and> (h # hs) ! (k - i) \<noteq> None) [Suc i..<Suc i + length hs] =
      filter (\<lambda>k. bit pending k \<and> hs ! (k - Suc i) \<noteq> None) [Suc i..<Suc i + length hs]"
  proof (rule filter_cong [OF refl])
    fix k assume "k \<in> set [Suc i..<Suc i + length hs]"
    then have "k - i = Suc (k - Suc i)" by auto
    then show "(bit pending k \<and> (h # hs) ! (k - i) \<noteq> None) = (bit pending k \<and> hs ! (k - Suc i) \<noteq> None)" by simp
  qed
  moreover have "[i..<i + length (h # hs)] = i # [Suc i..<Suc i + length hs]" by (simp add: upt_conv_Cons del: upt_Suc)
  ultimately show ?thesis unfolding runnable_def by (simp del: upt_Suc)
qed

lemma and_push_bit_eq_0:
  "pending AND push_bit i 1 = 0 \<longleftrightarrow> \<not> bit pending i" "pending AND 2 ^ i = 0 \<longleftrightarrow> \<not> bit pending i"
  for pending :: action_mask
proof -
  show "pending AND 2 ^ i = 0 \<longleftrightarrow> \<not> bit pending i" by (rule and_exp_eq_0_iff_not_bit)
  then show "pending AND push_bit i 1 = 0 \<longleftrightarrow> \<not> bit pending i" by simp
qed

lemma run_slots_calls:
  assumes "run_slots (recording act) pending m hs i n c ex (s, log) = (n', c', ex', s', log')" "n \<le> m"
  shows "log' = log @ map (\<lambda>k. push_bit k 1) (take (m - n) (runnable pending hs i)) \<and>
    n' = n + length (take (m - n) (runnable pending hs i)) \<and> (c' AND NOT c) AND NOT pending = 0 \<and> c AND NOT c' = 0"
  using assms
proof (induction hs arbitrary: i n c ex s log)
  case Nil
  then show ?case by (simp add: runnable_def)
next
  case (Cons h hs)
  have mono: "c AND NOT c'' = 0" if "(c OR a) AND NOT c'' = 0" for a c'' :: action_mask
    using that by (auto simp: bit_eq_iff bit_simps)
  have sub: "(c'' AND NOT c) AND NOT pending = 0" if "(c'' AND NOT (c OR a)) AND NOT pending = 0" "a AND NOT pending = 0"
    for a c'' :: action_mask
    using that by (auto simp: bit_eq_iff bit_simps)
  have bitp: "push_bit i 1 AND NOT pending = 0" if "bit pending i" for pending :: action_mask
    by (rule bit_eqI) (use that in \<open>auto simp: bit_simps\<close>)
  show ?case
  proof (cases "n < m")
    case False
    then show ?thesis using Cons.prems by simp
  next
    case lt: True
    show ?thesis
    proof (cases "bit pending i \<and> h \<noteq> None")
      case False
      then show ?thesis using Cons.prems lt Cons.IH
        by (cases h) (auto simp: Let_def and_push_bit_eq_0 runnable_Cons split: if_splits)
    next
      case True
      then obtain f where f: "h = Some f" by auto
      obtain r s1 where a: "act f (push_bit i 1) s = (r, s1)" by fastforce
      have ra: "recording act f (push_bit i 1) (s, log) = (r, s1, log @ [push_bit i 1])"
        by (simp add: recording_def a del: push_bit_of_1)
      have t: "take (m - n) (runnable pending (h # hs) i) = i # take (m - Suc n) (runnable pending hs (Suc i))"
        using lt True by (simp add: runnable_Cons take_Cons' Suc_diff_Suc)
      let ?c = "if r = FSM_ACTION_EXEC_COMPLETE then c OR push_bit i 1 else c"
      have "\<exists>ex1. run_slots (recording act) pending m hs (Suc i) (Suc n) ?c ex1 (s1, log @ [push_bit i 1]) = (n', c', ex', s', log')"
        using Cons.prems(1) lt True f ra
        by (cases r) (auto simp: Let_def and_push_bit_eq_0)
      then obtain ex1 where
        "run_slots (recording act) pending m hs (Suc i) (Suc n) ?c ex1 (s1, log @ [push_bit i 1]) = (n', c', ex', s', log')" by blast
      from Cons.IH [OF this] lt True t mono sub bitp show ?thesis
        by (cases r) (auto)
    qed
  qed
qed

text \<open>A run of the executor calls exactly the handlers of the pending, bound actions, in bit order, each
  once and at most \<open>max_actions\<close> of them, and reports as completed only pending actions, so that every
  action whose handler did not complete stays pending.\<close>

theorem executor_runs_pending_in_order:
  assumes "fsm_action_executor_run (recording act) ex pending m (s, []) = (n, completed, ex', s', calls)"
  shows "calls = map (\<lambda>k. push_bit k 1) (take m (runnable pending (fx_handlers ex) 0)) \<and> n = length calls \<and> n \<le> m \<and>
    completed AND NOT pending = 0"
  using assms run_slots_calls [of act pending m "fx_handlers ex" 0 0 0 ex s "[]" n completed ex' s' calls]
  by (auto simp: fsm_action_executor_run_def split: if_splits)

lemma executor_runs_pending_in_order_witness:
  "snd (snd (snd (snd (fsm_action_executor_run (recording (\<lambda>f a s. (FSM_ACTION_EXEC_PENDING, s)))
     (fsm_action_executor_init\<lparr>fx_handlers := [Some (), None, Some (), Some (), None, None, Some ()]\<rparr>)
     (ACTION_START_NORMAL OR ACTION_ENTER_SERVICE OR ACTION_START_RECOVERY OR ACTION_REQUEST_RESET) 2 (0 :: nat, []))))) =
   [ACTION_START_NORMAL, ACTION_START_RECOVERY]" (is "snd (snd (snd (snd ?r))) = _")
proof -
  have r: "?r = (fst ?r, fst (snd ?r), fst (snd (snd ?r)), fst (snd (snd (snd ?r))), snd (snd (snd (snd ?r))))" by simp
  show ?thesis
    by (subst executor_runs_pending_in_order [OF r, THEN conjunct1]) code_simp
qed

end
