(* ===== verification/Storage_Record.thy ===== *)
theory Storage_Record
  imports Prelude
begin

text \<open>
  The persistent record format (protocols/storage/storage_record.c, storage_record.h) and the A/B
  slot selection (ab_slot.c).

  A slot buffer is a byte list; the callers pass buffers of at least \<open>slot_size\<close> bytes, so that an
  index is always in range.  A NULL buffer is None.  \<open>memset\<close> followed by writes through a pointer
  is a sequence of list updates.  The lazily filled CRC table is a constant.
\<close>

unbundle bit_operations_syntax

section \<open>Constants\<close>

abbreviation FM24CL04B_SIZE_BYTES :: nat where "FM24CL04B_SIZE_BYTES \<equiv> 512"
abbreviation PERSIST_COMMON_HEADER_SIZE :: nat where "PERSIST_COMMON_HEADER_SIZE \<equiv> 16"
abbreviation PERSIST_COMMIT_VALID :: u8 where "PERSIST_COMMIT_VALID \<equiv> 0xA5"
abbreviation PERSIST_COMMIT_INVALID :: u8 where "PERSIST_COMMIT_INVALID \<equiv> 0x00"
abbreviation PERSIST_MAGIC_U32 :: u32 where "PERSIST_MAGIC_U32 \<equiv> 0x53574650"
abbreviation PERSIST_RECORD_CONFIG :: u8 where "PERSIST_RECORD_CONFIG \<equiv> 1"
abbreviation PERSIST_RECORD_CALIBRATION :: u8 where "PERSIST_RECORD_CALIBRATION \<equiv> 2"
abbreviation PERSIST_RECORD_VOLUME :: u8 where "PERSIST_RECORD_VOLUME \<equiv> 3"
abbreviation SLOT_VOLUME_SIZE :: nat where "SLOT_VOLUME_SIZE \<equiv> 64"
abbreviation VOLUME_PAYLOAD_V1_SIZE :: u16 where "VOLUME_PAYLOAD_V1_SIZE \<equiv> 44"
abbreviation VOLUME_PAYLOAD_V1_SCHEMA :: u8 where "VOLUME_PAYLOAD_V1_SCHEMA \<equiv> 1"
abbreviation VOLUME_REMAINDER_LIMIT :: u64 where "VOLUME_REMAINDER_LIMIT \<equiv> 1000000"
abbreviation CRC32_POLY_REFLECTED :: u32 where "CRC32_POLY_REFLECTED \<equiv> 0xEDB88320"
abbreviation CRC32_INIT :: u32 where "CRC32_INIT \<equiv> 0xFFFFFFFF"
abbreviation CRC32_XOROUT :: u32 where "CRC32_XOROUT \<equiv> 0xFFFFFFFF"
abbreviation SLOT_INDEX_NONE :: u8 where "SLOT_INDEX_NONE \<equiv> 0xFF"

section \<open>CRC-32\<close>

definition crc_bit :: "u32 \<Rightarrow> u32" where
  "crc_bit crc = (if crc AND 1 \<noteq> 0 then drop_bit 1 crc XOR CRC32_POLY_REFLECTED else drop_bit 1 crc)"

definition crc_entry :: "u32 \<Rightarrow> u32" where
  "crc_entry i = (crc_bit ^^ 8) i"

definition crc_table :: "u32 list" where
  "crc_table = map (\<lambda>i. crc_entry (of_nat i)) [0..<256]"

definition crc32_reflected :: "bytes \<Rightarrow> u32" where
  "crc32_reflected data =
     fold (\<lambda>d crc. crc_table ! unat ((crc XOR ucast d) AND 0xFF) XOR drop_bit 8 crc) data CRC32_INIT XOR CRC32_XOROUT"

section \<open>Little-endian fields\<close>

definition le_write16 :: "nat \<Rightarrow> u16 \<Rightarrow> bytes \<Rightarrow> bytes" where
  "le_write16 i val buf = buf[i := ucast (val AND 0xFF), i + 1 := ucast (drop_bit 8 val AND 0xFF)]"

definition le_write32 :: "nat \<Rightarrow> u32 \<Rightarrow> bytes \<Rightarrow> bytes" where
  "le_write32 i val buf =
     buf[i := ucast (val AND 0xFF), i + 1 := ucast (drop_bit 8 val AND 0xFF),
         i + 2 := ucast (drop_bit 16 val AND 0xFF), i + 3 := ucast (drop_bit 24 val AND 0xFF)]"

fun le_write64_loop :: "nat \<Rightarrow> nat \<Rightarrow> u64 \<Rightarrow> bytes \<Rightarrow> bytes" where
  "le_write64_loop 0 i val buf = buf"
| "le_write64_loop (Suc n) i val buf = le_write64_loop n (Suc i) (drop_bit 8 val) (buf[i := ucast (val AND 0xFF)])"

definition le_write64 :: "nat \<Rightarrow> u64 \<Rightarrow> bytes \<Rightarrow> bytes" where
  "le_write64 i val buf = le_write64_loop 8 i val buf"

definition le_read16 :: "bytes \<Rightarrow> nat \<Rightarrow> u16" where
  "le_read16 buf i = ucast (buf ! i) OR push_bit 8 (ucast (buf ! (i + 1)))"

definition le_read32 :: "bytes \<Rightarrow> nat \<Rightarrow> u32" where
  "le_read32 buf i =
     ucast (buf ! i) OR push_bit 8 (ucast (buf ! (i + 1))) OR push_bit 16 (ucast (buf ! (i + 2)))
     OR push_bit 24 (ucast (buf ! (i + 3)))"

definition le_read64 :: "bytes \<Rightarrow> nat \<Rightarrow> u64" where
  "le_read64 buf i = fold (\<lambda>k v. push_bit 8 v OR ucast (buf ! (i + k))) [7, 6, 5, 4, 3, 2, 1, 0] 0"

section \<open>Encoding\<close>

definition StorageRecord_ComputeCrc :: "bytes option \<Rightarrow> nat \<Rightarrow> u32" where
  "StorageRecord_ComputeCrc slot_buffer slot_size =
     (case slot_buffer of None \<Rightarrow> 0
      | Some buf \<Rightarrow>
          if slot_size < PERSIST_COMMON_HEADER_SIZE + 1 \<or> slot_size > 256 then 0
          else
            let payload_length = unat (le_read16 buf 6);
                max_payload = slot_size - PERSIST_COMMON_HEADER_SIZE - 1
            in if payload_length > max_payload then 0
               else crc32_reflected (take 12 buf @ take payload_length (drop PERSIST_COMMON_HEADER_SIZE buf)))"

record volume_payload =
  vp_forward_volume_ul :: u64
  vp_reverse_volume_ul :: u64
  vp_forward_remainder :: u64
  vp_reverse_remainder :: u64
  vp_state_version :: u64
  vp_last_flow_sequence :: u64
  vp_last_source_generation :: u32

text \<open>The image before the CRC is filled in.\<close>

definition volume_image :: "u32 \<Rightarrow> volume_payload \<Rightarrow> bytes" where
  "volume_image sequence v =
     (let b0 = replicate SLOT_VOLUME_SIZE 0;
          b1 = le_write32 0 PERSIST_MAGIC_U32 b0;
          b2 = b1[4 := PERSIST_RECORD_VOLUME];
          b3 = b2[5 := VOLUME_PAYLOAD_V1_SCHEMA];
          b4 = le_write16 6 VOLUME_PAYLOAD_V1_SIZE b3;
          b5 = le_write32 8 sequence b4;
          b6 = le_write64 0x10 (vp_forward_volume_ul v) b5;
          b7 = le_write64 0x18 (vp_reverse_volume_ul v) b6;
          b8 = le_write32 0x20 (ucast (vp_forward_remainder v)) b7;
          b9 = le_write32 0x24 (ucast (vp_reverse_remainder v)) b8;
          b10 = le_write64 0x28 (vp_state_version v) b9;
          b11 = le_write64 0x30 (vp_last_flow_sequence v) b10
      in le_write32 0x38 (vp_last_source_generation v) b11)"

text \<open>The encoded slot; None is the return value 0.\<close>

definition StorageRecord_EncodeVolume :: "u32 \<Rightarrow> volume_payload \<Rightarrow> bytes option" where
  "StorageRecord_EncodeVolume sequence v =
     (if vp_forward_remainder v \<ge> VOLUME_REMAINDER_LIMIT \<or> vp_reverse_remainder v \<ge> VOLUME_REMAINDER_LIMIT then None
      else
        let b = volume_image sequence v;
            crc = StorageRecord_ComputeCrc (Some b) SLOT_VOLUME_SIZE
        in Some ((le_write32 0x0C crc b)[SLOT_VOLUME_SIZE - 1 := PERSIST_COMMIT_INVALID]))"

definition StorageRecord_DecodeVolume :: "bytes option \<Rightarrow> volume_payload option" where
  "StorageRecord_DecodeVolume slot_buffer =
     (case slot_buffer of None \<Rightarrow> None
      | Some buf \<Rightarrow>
          if le_read32 buf 0 \<noteq> PERSIST_MAGIC_U32 then None
          else if buf ! 4 \<noteq> PERSIST_RECORD_VOLUME then None
          else if buf ! 5 \<noteq> VOLUME_PAYLOAD_V1_SCHEMA then None
          else if le_read16 buf 6 \<noteq> VOLUME_PAYLOAD_V1_SIZE then None
          else
            let fwd = ucast (le_read32 buf 0x20); rev = ucast (le_read32 buf 0x24)
            in if fwd \<ge> VOLUME_REMAINDER_LIMIT \<or> rev \<ge> VOLUME_REMAINDER_LIMIT then None
               else Some \<lparr>vp_forward_volume_ul = le_read64 buf 0x10, vp_reverse_volume_ul = le_read64 buf 0x18,
                 vp_forward_remainder = fwd, vp_reverse_remainder = rev, vp_state_version = le_read64 buf 0x28,
                 vp_last_flow_sequence = le_read64 buf 0x30, vp_last_source_generation = le_read32 buf 0x38\<rparr>)"

section \<open>Classification\<close>

datatype slot_classification =
    SLOT_VALID_COMPATIBLE | SLOT_VALID_UNSUPPORTED_SCHEMA | SLOT_VALID_INCOMPATIBLE
  | SLOT_EMPTY_UNINITIALIZED | SLOT_NOT_COMMITTED | SLOT_BAD_MAGIC | SLOT_BAD_TYPE | SLOT_BAD_LENGTH
  | SLOT_BAD_RESERVED | SLOT_BAD_CRC | SLOT_BAD_PAYLOAD | SLOT_IO_ERROR

definition StorageRecord_ClassifySlot :: "bytes option \<Rightarrow> nat \<Rightarrow> u8 \<Rightarrow> u8 \<Rightarrow> u16 \<Rightarrow> slot_classification" where
  "StorageRecord_ClassifySlot slot_buffer slot_size expected_type expected_schema expected_payload_size =
     (case slot_buffer of None \<Rightarrow> SLOT_IO_ERROR
      | Some buf \<Rightarrow>
          if slot_size < PERSIST_COMMON_HEADER_SIZE + 1 \<or> slot_size > 256 then SLOT_BAD_LENGTH
          else if list_all (\<lambda>b. b = 0) (take slot_size buf) then SLOT_EMPTY_UNINITIALIZED
          else if buf ! (slot_size - 1) \<noteq> PERSIST_COMMIT_VALID then SLOT_NOT_COMMITTED
          else if le_read32 buf 0 \<noteq> PERSIST_MAGIC_U32 then SLOT_BAD_MAGIC
          else if buf ! 4 \<noteq> expected_type then SLOT_BAD_TYPE
          else
            let plen = unat (le_read16 buf 6)
            in if plen + PERSIST_COMMON_HEADER_SIZE + 1 > slot_size then SLOT_BAD_LENGTH
               else if le_read32 buf 0x0C \<noteq> StorageRecord_ComputeCrc slot_buffer slot_size then SLOT_BAD_CRC
               else if \<not> list_all (\<lambda>b. b = 0)
                        (take (slot_size - 1 - (PERSIST_COMMON_HEADER_SIZE + plen)) (drop (PERSIST_COMMON_HEADER_SIZE + plen) buf))
               then SLOT_BAD_RESERVED
               else if buf ! 5 \<noteq> expected_schema then SLOT_VALID_UNSUPPORTED_SCHEMA
               else if plen \<noteq> unat expected_payload_size then SLOT_BAD_LENGTH
               else if expected_type = PERSIST_RECORD_VOLUME \<and> expected_schema = VOLUME_PAYLOAD_V1_SCHEMA \<and>
                       ((ucast (le_read32 buf 0x20) :: u64) \<ge> VOLUME_REMAINDER_LIMIT \<or>
                        (ucast (le_read32 buf 0x24) :: u64) \<ge> VOLUME_REMAINDER_LIMIT)
               then SLOT_BAD_PAYLOAD
               else SLOT_VALID_COMPATIBLE)"

section \<open>Slot selection\<close>

datatype sequence_order = SEQUENCE_EQUAL | SEQUENCE_A_NEWER | SEQUENCE_B_NEWER | SEQUENCE_AMBIGUOUS

definition compare_sequence :: "u32 \<Rightarrow> u32 \<Rightarrow> sequence_order" where
  "compare_sequence a b =
     (let difference = a - b
      in if difference = 0 then SEQUENCE_EQUAL
         else if difference = 0x80000000 then SEQUENCE_AMBIGUOUS
         else if difference < 0x80000000 then SEQUENCE_A_NEWER else SEQUENCE_B_NEWER)"

definition slot_reason_is_protected :: "slot_classification \<Rightarrow> bool" where
  "slot_reason_is_protected reason \<longleftrightarrow>
     reason = SLOT_VALID_UNSUPPORTED_SCHEMA \<or> reason = SLOT_VALID_INCOMPATIBLE"

definition ab_slot_classify :: "bytes option \<Rightarrow> nat \<Rightarrow> u8 \<Rightarrow> u8 \<Rightarrow> u16 \<Rightarrow> slot_classification" where
  "ab_slot_classify = StorageRecord_ClassifySlot"

datatype slot_selection_status = SLOT_SELECTION_NONE | SLOT_SELECTION_SELECTED | SLOT_SELECTION_SEQUENCE_CONFLICT

record slot_selection_result =
  sel_slot_a_valid :: bool
  sel_slot_b_valid :: bool
  sel_sequence_a :: u32
  sel_sequence_b :: u32
  sel_selected_slot :: u8
  sel_status :: slot_selection_status
  sel_reason_a :: slot_classification
  sel_reason_b :: slot_classification

text \<open>The buffers of a selection are present (both callers pass their own arrays); NULL is classified as
  an I/O error and never compared.\<close>

definition ab_slot_select :: "bytes option \<Rightarrow> nat \<Rightarrow> bytes option \<Rightarrow> nat \<Rightarrow> u8 \<Rightarrow> u8 \<Rightarrow> u16 \<Rightarrow> slot_selection_result" where
  "ab_slot_select buf_a size_a buf_b size_b expected_type expected_schema expected_payload_size =
     (let reason_a = StorageRecord_ClassifySlot buf_a size_a expected_type expected_schema expected_payload_size;
          reason_b = StorageRecord_ClassifySlot buf_b size_b expected_type expected_schema expected_payload_size;
          a_valid = (reason_a = SLOT_VALID_COMPATIBLE);
          b_valid = (reason_b = SLOT_VALID_COMPATIBLE);
          seq_a = (if a_valid then le_read32 (the buf_a) 8 else 0);
          seq_b = (if b_valid then le_read32 (the buf_b) 8 else 0);
          (slot, status) =
            (if a_valid \<and> b_valid then
               (case compare_sequence seq_a seq_b of
                  SEQUENCE_EQUAL \<Rightarrow>
                    if size_a = size_b \<and> take (size_a - 1) (the buf_a) = take (size_a - 1) (the buf_b)
                    then (0, SLOT_SELECTION_SELECTED) else (SLOT_INDEX_NONE, SLOT_SELECTION_SEQUENCE_CONFLICT)
                | SEQUENCE_AMBIGUOUS \<Rightarrow> (SLOT_INDEX_NONE, SLOT_SELECTION_SEQUENCE_CONFLICT)
                | SEQUENCE_A_NEWER \<Rightarrow> (0, SLOT_SELECTION_SELECTED)
                | SEQUENCE_B_NEWER \<Rightarrow> (1, SLOT_SELECTION_SELECTED))
             else if a_valid then (0, SLOT_SELECTION_SELECTED)
             else if b_valid then (1, SLOT_SELECTION_SELECTED)
             else (SLOT_INDEX_NONE, SLOT_SELECTION_NONE))
      in \<lparr>sel_slot_a_valid = a_valid, sel_slot_b_valid = b_valid, sel_sequence_a = seq_a, sel_sequence_b = seq_b,
          sel_selected_slot = slot, sel_status = status, sel_reason_a = reason_a, sel_reason_b = reason_b\<rparr>)"

definition ab_slot_choose_target :: "slot_selection_result option \<Rightarrow> u8" where
  "ab_slot_choose_target selection =
     (case selection of None \<Rightarrow> SLOT_INDEX_NONE
      | Some s \<Rightarrow>
          if sel_status s = SLOT_SELECTION_SEQUENCE_CONFLICT \<or> slot_reason_is_protected (sel_reason_a s)
             \<or> slot_reason_is_protected (sel_reason_b s) then SLOT_INDEX_NONE
          else if sel_status s = SLOT_SELECTION_SELECTED then (if sel_selected_slot s = 0 then 1 else 0)
          else 0)"

section \<open>Fields read back\<close>

lemma FF_mask: "(0xFF :: u16) = mask 8" "(0xFF :: u32) = mask 8" "(0xFF :: u64) = mask 8"
  by code_simp+

lemma ucast_and_FF [simp]:
  "(ucast (x16 AND 0xFF) :: u8) = ucast x16" "(ucast (x32 AND 0xFF) :: u8) = ucast x32" "(ucast (x64 AND 0xFF) :: u8) = ucast x64"
  for x16 :: u16 and x32 :: u32 and x64 :: u64
  unfolding FF_mask by (rule bit_word_eqI, simp add: bit_simps)+

lemma join_u16: "ucast (ucast v :: u8) OR push_bit 8 (ucast (ucast (drop_bit 8 v) :: u8)) = v" for v :: u16
  by (rule bit_word_eqI) (auto simp: bit_simps not_less not_le)

lemma join_u32:
  "ucast (ucast v :: u8) OR push_bit 8 (ucast (ucast (drop_bit 8 v) :: u8)) OR
   push_bit 16 (ucast (ucast (drop_bit 16 v) :: u8)) OR push_bit 24 (ucast (ucast (drop_bit 24 v) :: u8)) = v" for v :: u32
proof (rule bit_word_eqI)
  fix n assume "n < LENGTH(32)"
  then show "bit (ucast (ucast v :: u8) OR push_bit 8 (ucast (ucast (drop_bit 8 v) :: u8)) OR
   push_bit 16 (ucast (ucast (drop_bit 16 v) :: u8)) OR push_bit 24 (ucast (ucast (drop_bit 24 v) :: u8)) :: u32) n \<longleftrightarrow> bit v n"
    by (cases "n < 8"; cases "n < 16"; cases "n < 24") (auto simp: bit_simps)
qed

lemma join_step: "push_bit 8 (drop_bit (n + 8) v) OR ucast (ucast (drop_bit n v) :: u8) = drop_bit n v" for v :: u64
  by (rule bit_word_eqI) (auto simp: bit_simps not_less not_le add.commute add.left_commute)

lemma drop_bit_64 [simp]: "drop_bit 64 v = 0" for v :: u64
  by (rule bit_word_eqI) (simp add: bit_simps)

text \<open>The bytes of a 64-bit field.\<close>

definition le_bytes64 :: "u64 \<Rightarrow> bytes" where
  "le_bytes64 v = [ucast v, ucast (drop_bit 8 v), ucast (drop_bit 16 v), ucast (drop_bit 24 v), ucast (drop_bit 32 v),
     ucast (drop_bit 40 v), ucast (drop_bit 48 v), ucast (drop_bit 56 v)]"

definition le_bytes32 :: "u32 \<Rightarrow> bytes" where
  "le_bytes32 v = [ucast v, ucast (drop_bit 8 v), ucast (drop_bit 16 v), ucast (drop_bit 24 v)]"

lemma length_le_bytes [simp]: "length (le_bytes64 v) = 8" "length (le_bytes32 w) = 4"
  by (simp_all add: le_bytes64_def le_bytes32_def)

lemma le_read64_bytes: "(\<And>k. k < 8 \<Longrightarrow> buf ! (i + k) = le_bytes64 v ! k) \<Longrightarrow> le_read64 buf i = v"
proof -
  assume b: "\<And>k. k < 8 \<Longrightarrow> buf ! (i + k) = le_bytes64 v ! k"
  show ?thesis
    using join_step [of 56 v] join_step [of 48 v] join_step [of 40 v] join_step [of 32 v] join_step [of 24 v]
      join_step [of 16 v] join_step [of 8 v] join_step [of 0 v]
      b [of 0] b [of 1] b [of 2] b [of 3] b [of 4] b [of 5] b [of 6] b [of 7]
    by (simp add: le_read64_def le_bytes64_def)
qed

lemma le_read32_bytes: "(\<And>k. k < 4 \<Longrightarrow> buf ! (i + k) = le_bytes32 v ! k) \<Longrightarrow> le_read32 buf i = v"
proof -
  assume b: "\<And>k. k < 4 \<Longrightarrow> buf ! (i + k) = le_bytes32 v ! k"
  show ?thesis
    using join_u32 [of v] b [of 0] b [of 1] b [of 2] b [of 3] by (simp add: le_read32_def le_bytes32_def)
qed

text \<open>The writes as one replacement of a block.\<close>

definition put_block :: "nat \<Rightarrow> bytes \<Rightarrow> bytes \<Rightarrow> bytes" where
  "put_block i bs buf = take i buf @ bs @ drop (i + length bs) buf"

lemma put_block_nth:
  "i + length bs \<le> length buf \<Longrightarrow> j < length buf \<Longrightarrow>
   put_block i bs buf ! j = (if i \<le> j \<and> j < i + length bs then bs ! (j - i) else buf ! j)"
  by (auto simp: put_block_def nth_append min_def)

lemma length_put_block [simp]: "i + length bs \<le> length buf \<Longrightarrow> length (put_block i bs buf) = length buf"
  by (simp add: put_block_def)

lemma le_write64_block: "i + 8 \<le> length buf \<Longrightarrow> le_write64 i v buf = put_block i (le_bytes64 v) buf"
proof (rule nth_equalityI)
  assume len: "i + 8 \<le> length buf"
  have steps: "le_write64 i v buf = buf[i := le_bytes64 v ! 0, i + 1 := le_bytes64 v ! 1, i + 2 := le_bytes64 v ! 2,
      i + 3 := le_bytes64 v ! 3, i + 4 := le_bytes64 v ! 4, i + 5 := le_bytes64 v ! 5, i + 6 := le_bytes64 v ! 6,
      i + 7 := le_bytes64 v ! 7]"
    by (simp add: le_write64_def le_bytes64_def numeral_eq_Suc)
  show "length (le_write64 i v buf) = length (put_block i (le_bytes64 v) buf)" using len by (simp add: steps)
  fix j assume "j < length (le_write64 i v buf)"
  then have j: "j < length buf" by (simp add: steps)
  show "le_write64 i v buf ! j = put_block i (le_bytes64 v) buf ! j"
  proof (cases "i \<le> j \<and> j < i + 8")
    case True
    then obtain k where "j = i + k" "k < 8" by (metis le_iff_add nat_add_left_cancel_less)
    then show ?thesis using len unfolding steps by (auto simp: put_block_nth nth_list_update less_Suc_eq numeral_eq_Suc)
  next
    case False
    then show ?thesis using len j unfolding steps by (auto simp: put_block_nth nth_list_update)
  qed
qed

section \<open>The volume slot\<close>

text \<open>The layout of a volume slot, field by field.\<close>

definition volume_head :: "u32 \<Rightarrow> bytes" where
  "volume_head sequence = [0x50, 0x46, 0x57, 0x53, PERSIST_RECORD_VOLUME, VOLUME_PAYLOAD_V1_SCHEMA, 44, 0] @ le_bytes32 sequence"

definition volume_body :: "volume_payload \<Rightarrow> bytes" where
  "volume_body v = le_bytes64 (vp_forward_volume_ul v) @ le_bytes64 (vp_reverse_volume_ul v) @
     le_bytes32 (ucast (vp_forward_remainder v)) @ le_bytes32 (ucast (vp_reverse_remainder v)) @
     le_bytes64 (vp_state_version v) @ le_bytes64 (vp_last_flow_sequence v) @ le_bytes32 (vp_last_source_generation v)"

definition volume_slot :: "u32 \<Rightarrow> volume_payload \<Rightarrow> u32 \<Rightarrow> u8 \<Rightarrow> bytes" where
  "volume_slot sequence v crc commit =
     volume_head sequence @ le_bytes32 crc @ volume_body v @ [0, 0, 0] @ [commit]"

definition volume_crc :: "u32 \<Rightarrow> volume_payload \<Rightarrow> u32" where
  "volume_crc sequence v = crc32_reflected (volume_head sequence @ volume_body v)"

lemma length_volume [simp]:
  "length (volume_head s) = 12" "length (volume_body v) = 44" "length (volume_slot s v c b) = 64"
  by (simp_all add: volume_head_def volume_body_def volume_slot_def)

lemmas volume_layout = volume_slot_def volume_head_def volume_body_def le_bytes64_def le_bytes32_def

text \<open>A slot written up to some offset, the rest zero: each write appends to it.\<close>

definition pad :: "bytes \<Rightarrow> bytes" where
  "pad pre = pre @ replicate (SLOT_VOLUME_SIZE - length pre) 0"

lemma length_pad [simp]: "length pre \<le> 64 \<Longrightarrow> length (pad pre) = 64"
  by (simp add: pad_def)

lemma pad_put_block: "length pre + length bs \<le> 64 \<Longrightarrow> put_block (length pre) bs (pad pre) = pad (pre @ bs)"
  by (simp add: pad_def put_block_def)

lemma put_block_1: "i < length buf \<Longrightarrow> buf[i := b] = put_block i [b] buf"
  by (simp add: put_block_def upd_conv_take_nth_drop)

lemma put_block_put_block:
  "i + length bs + length cs \<le> length buf \<Longrightarrow>
   put_block (i + length bs) cs (put_block i bs buf) = put_block i (bs @ cs) buf"
  by (cases bs) (auto simp: put_block_def min_def add.commute add.left_commute)

lemma le_write32_block: "i + 4 \<le> length buf \<Longrightarrow> le_write32 i v buf = put_block i (le_bytes32 v) buf"
  using put_block_put_block [of i "[ucast v]" "[ucast (drop_bit 8 v)]" buf]
    put_block_put_block [of i "[ucast v, ucast (drop_bit 8 v)]" "[ucast (drop_bit 16 v)]" buf]
    put_block_put_block [of i "[ucast v, ucast (drop_bit 8 v), ucast (drop_bit 16 v)]" "[ucast (drop_bit 24 v)]" buf]
  by (simp add: le_write32_def le_bytes32_def put_block_1 numeral_3_eq_3)

lemma le_write16_block: "i + 2 \<le> length buf \<Longrightarrow> le_write16 i v buf = put_block i [ucast v, ucast (drop_bit 8 v)] buf"
  using put_block_put_block [of i "[ucast v]" "[ucast (drop_bit 8 v)]" buf]
  by (simp add: le_write16_def put_block_1)

lemma pad_write64: "length pre = i \<Longrightarrow> i + 8 \<le> 64 \<Longrightarrow> le_write64 i v (pad pre) = pad (pre @ le_bytes64 v)"
  using pad_put_block [of pre "le_bytes64 v"] by (simp add: le_write64_block)

lemma pad_write32: "length pre = i \<Longrightarrow> i + 4 \<le> 64 \<Longrightarrow> le_write32 i v (pad pre) = pad (pre @ le_bytes32 v)"
  using pad_put_block [of pre "le_bytes32 v"] by (simp add: le_write32_block)

lemma pad_write16: "length pre = i \<Longrightarrow> i + 2 \<le> 64 \<Longrightarrow> le_write16 i v (pad pre) = pad (pre @ [ucast v, ucast (drop_bit 8 v)])"
  using pad_put_block [of pre "[ucast v, ucast (drop_bit 8 v)]"] by (simp add: le_write16_block)

lemma pad_write8: "length pre = i \<Longrightarrow> i + 1 \<le> 64 \<Longrightarrow> (pad pre)[i := b] = pad (pre @ [b])"
  using pad_put_block [of pre "[b]"] by (simp add: put_block_1)

lemma pad_zeros: "length pre + n \<le> 64 \<Longrightarrow> pad pre = pad (pre @ replicate n 0)"
  by (simp add: pad_def flip: replicate_add)

lemma magic_bytes:
  "le_bytes32 PERSIST_MAGIC_U32 = [0x50, 0x46, 0x57, 0x53]"
  "(ucast (44 :: u16) :: u8) = 44" "(ucast (drop_bit 8 (44 :: u16)) :: u8) = 0"
  by code_simp+

lemma volume_image_layout: "volume_image sequence v = volume_slot sequence v 0 0"
proof -
  let ?h = "volume_head sequence"
  have h: "le_write32 8 sequence (le_write16 6 VOLUME_PAYLOAD_V1_SIZE
      ((le_write32 0 PERSIST_MAGIC_U32 (replicate 64 0))[4 := PERSIST_RECORD_VOLUME, 5 := VOLUME_PAYLOAD_V1_SCHEMA])) = pad ?h"
    using pad_write32 [of "[]" 0 PERSIST_MAGIC_U32]
    by (simp add: pad_def [of "[]"] magic_bytes volume_head_def pad_write8 pad_write16 pad_write32)
  also have "\<dots> = pad (?h @ le_bytes32 0)"
    using pad_zeros [of ?h 4] by (simp add: le_bytes32_def numeral_eq_Suc)
  finally have b5: "le_write32 8 sequence (le_write16 6 VOLUME_PAYLOAD_V1_SIZE
      ((le_write32 0 PERSIST_MAGIC_U32 (replicate 64 0))[4 := PERSIST_RECORD_VOLUME, 5 := VOLUME_PAYLOAD_V1_SCHEMA])) =
      pad (?h @ le_bytes32 0)" .
  have "volume_image sequence v = pad (?h @ le_bytes32 0 @ volume_body v)"
    unfolding volume_image_def Let_def b5 by (simp add: pad_write64 pad_write32 volume_body_def)
  also have "\<dots> = volume_slot sequence v 0 0"
    by (simp add: pad_def volume_slot_def numeral_eq_Suc)
  finally show ?thesis .
qed

lemma volume_slot_put_crc: "put_block 12 (le_bytes32 crc) (volume_slot s v c b) = volume_slot s v crc b"
  by (simp add: put_block_def volume_slot_def)

lemma volume_slot_put_commit: "(volume_slot s v c b)[63 := b'] = volume_slot s v c b'"
  by (simp add: volume_slot_def list_update_append)

lemma block_nth: "take n (drop i buf) = bs \<Longrightarrow> length bs = n \<Longrightarrow> k < n \<Longrightarrow> buf ! (i + k) = bs ! k"
  by (auto simp: min_def split: if_splits)

lemma block_read:
  "take 4 (drop i buf) = le_bytes32 w \<Longrightarrow> le_read32 buf i = w"
  "take 8 (drop i buf) = le_bytes64 x \<Longrightarrow> le_read64 buf i = x"
  by (auto intro!: le_read32_bytes le_read64_bytes dest: block_nth)

text \<open>Reading a volume slot.\<close>

lemma volume_slot_reads [simp]:
  "le_read32 (volume_slot s v c b) 0 = PERSIST_MAGIC_U32"
  "volume_slot s v c b ! 4 = PERSIST_RECORD_VOLUME"
  "volume_slot s v c b ! 5 = VOLUME_PAYLOAD_V1_SCHEMA"
  "le_read16 (volume_slot s v c b) 6 = VOLUME_PAYLOAD_V1_SIZE"
  "volume_slot s v c b ! 63 = b"
proof -
  have magic: "take 4 (volume_head s) = le_bytes32 PERSIST_MAGIC_U32" by (simp add: magic_bytes volume_head_def)
  show "le_read32 (volume_slot s v c b) 0 = PERSIST_MAGIC_U32"
    by (rule block_read(1)) (simp add: volume_slot_def magic)
  show "le_read16 (volume_slot s v c b) 6 = VOLUME_PAYLOAD_V1_SIZE"
    by (simp add: le_read16_def volume_slot_def volume_head_def nth_append)
qed (simp_all add: volume_slot_def volume_head_def nth_append)

lemma volume_slot_fields [simp]:
  "le_read32 (volume_slot s v c b) 8 = s" "le_read32 (volume_slot s v c b) 12 = c"
  "le_read64 (volume_slot s v c b) 16 = vp_forward_volume_ul v" "le_read64 (volume_slot s v c b) 24 = vp_reverse_volume_ul v"
  "le_read32 (volume_slot s v c b) 32 = ucast (vp_forward_remainder v)"
  "le_read32 (volume_slot s v c b) 36 = ucast (vp_reverse_remainder v)"
  "le_read64 (volume_slot s v c b) 40 = vp_state_version v" "le_read64 (volume_slot s v c b) 48 = vp_last_flow_sequence v"
  "le_read32 (volume_slot s v c b) 56 = vp_last_source_generation v"
proof -
  have head: "drop 8 (volume_head s) = le_bytes32 s" by (simp add: volume_head_def)
  show "le_read32 (volume_slot s v c b) 8 = s" by (rule block_read(1)) (simp add: volume_slot_def head)
  show "le_read32 (volume_slot s v c b) 12 = c" by (rule block_read(1)) (simp add: volume_slot_def)
  show "le_read64 (volume_slot s v c b) 16 = vp_forward_volume_ul v" "le_read64 (volume_slot s v c b) 24 = vp_reverse_volume_ul v"
    "le_read64 (volume_slot s v c b) 40 = vp_state_version v" "le_read64 (volume_slot s v c b) 48 = vp_last_flow_sequence v"
    by (rule block_read(2), simp add: volume_slot_def volume_body_def)+
  show "le_read32 (volume_slot s v c b) 32 = ucast (vp_forward_remainder v)"
    "le_read32 (volume_slot s v c b) 36 = ucast (vp_reverse_remainder v)"
    "le_read32 (volume_slot s v c b) 56 = vp_last_source_generation v"
    by (rule block_read(1), simp add: volume_slot_def volume_body_def)+
qed

lemma volume_slot_crc [simp]: "StorageRecord_ComputeCrc (Some (volume_slot s v c b)) 64 = volume_crc s v"
  by (simp add: StorageRecord_ComputeCrc_def volume_crc_def) (simp add: volume_slot_def)

lemma volume_slot_reserved: "take 3 (drop 60 (volume_slot s v c b)) = [0, 0, 0]"
  by (simp add: volume_slot_def)

definition volume_payload_ok :: "volume_payload \<Rightarrow> bool" where
  "volume_payload_ok v \<longleftrightarrow> vp_forward_remainder v < VOLUME_REMAINDER_LIMIT \<and> vp_reverse_remainder v < VOLUME_REMAINDER_LIMIT"

lemma remainder_fits: "r < VOLUME_REMAINDER_LIMIT \<Longrightarrow> ucast (ucast r :: u32) = r"
proof -
  assume "r < VOLUME_REMAINDER_LIMIT"
  then have "uint r < 2 ^ 32" by (simp add: word_less_def)
  then show ?thesis by (simp add: word_uint_eq_iff unsigned_ucast_eq unsigned_take_bit_eq take_bit_int_eq_self)
qed

lemma encode_volume_eq:
  "StorageRecord_EncodeVolume s v = (if volume_payload_ok v then Some (volume_slot s v (volume_crc s v) PERSIST_COMMIT_INVALID) else None)"
  by (auto simp: StorageRecord_EncodeVolume_def volume_payload_ok_def Let_def volume_image_layout le_write32_block
      volume_slot_put_crc volume_slot_put_commit)

lemma decode_volume_slot:
  "volume_payload_ok v \<Longrightarrow> StorageRecord_DecodeVolume (Some (volume_slot s v c b)) = Some v"
  by (simp add: StorageRecord_DecodeVolume_def volume_payload_ok_def remainder_fits Let_def not_le)

abbreviation classify_volume :: "bytes \<Rightarrow> slot_classification" where
  "classify_volume buf \<equiv> StorageRecord_ClassifySlot (Some buf) SLOT_VOLUME_SIZE PERSIST_RECORD_VOLUME
     VOLUME_PAYLOAD_V1_SCHEMA VOLUME_PAYLOAD_V1_SIZE"

lemma classify_volume_slot:
  "volume_payload_ok v \<Longrightarrow> classify_volume (volume_slot s v (volume_crc s v) PERSIST_COMMIT_VALID) = SLOT_VALID_COMPATIBLE"
proof -
  let ?B = "volume_slot s v (volume_crc s v) PERSIST_COMMIT_VALID"
  assume ok: "volume_payload_ok v"
  have "\<not> list_all (\<lambda>b. b = 0) (take 64 ?B)" by (simp add: volume_slot_def volume_head_def)
  with ok show ?thesis
    by (simp add: StorageRecord_ClassifySlot_def volume_slot_reserved remainder_fits volume_payload_ok_def not_le)
qed

text \<open>Without its commit byte a slot is never valid, whatever else it holds.\<close>

lemma uncommitted_not_valid:
  "buf ! (n - 1) \<noteq> PERSIST_COMMIT_VALID \<Longrightarrow>
   StorageRecord_ClassifySlot (Some buf) n ty sc pl \<in> {SLOT_BAD_LENGTH, SLOT_EMPTY_UNINITIALIZED, SLOT_NOT_COMMITTED}"
  by (simp add: StorageRecord_ClassifySlot_def)

text \<open>C11: a volume checkpoint survives its encoding: the encoder accepts exactly remainders below the limit,
  the image it returns is 64 bytes and not yet valid, and once the commit byte is set the slot is classified as
  compatible, carries the record sequence, and decodes to the values that were encoded.\<close>

theorem volume_slot_roundtrip:
  "(StorageRecord_EncodeVolume sequence v \<noteq> None \<longleftrightarrow>
      vp_forward_remainder v < VOLUME_REMAINDER_LIMIT \<and> vp_reverse_remainder v < VOLUME_REMAINDER_LIMIT) \<and>
   (\<forall>buf. StorageRecord_EncodeVolume sequence v = Some buf \<longrightarrow>
      length buf = SLOT_VOLUME_SIZE \<and> classify_volume buf = SLOT_NOT_COMMITTED \<and>
      classify_volume (buf[63 := PERSIST_COMMIT_VALID]) = SLOT_VALID_COMPATIBLE \<and>
      le_read32 buf 8 = sequence \<and> StorageRecord_DecodeVolume (Some (buf[63 := PERSIST_COMMIT_VALID])) = Some v)"
proof -
  have nz: "\<not> list_all (\<lambda>b. b = 0) (take 64 (volume_slot s w c b))" for s w c b
    by (simp add: volume_slot_def volume_head_def)
  have "classify_volume (volume_slot s w c PERSIST_COMMIT_INVALID) = SLOT_NOT_COMMITTED" for s w c
    using nz [of s w c 0] by (simp add: StorageRecord_ClassifySlot_def)
  then show ?thesis
    by (auto simp: encode_volume_eq volume_slot_put_commit classify_volume_slot decode_volume_slot)
      (simp_all add: volume_payload_ok_def)
qed

definition sample_volume :: volume_payload where
  "sample_volume = \<lparr>vp_forward_volume_ul = 123456789, vp_reverse_volume_ul = 7, vp_forward_remainder = 999999,
     vp_reverse_remainder = 1, vp_state_version = 42, vp_last_flow_sequence = 41, vp_last_source_generation = 3\<rparr>"

lemma volume_slot_roundtrip_witness:
  "\<exists>buf. StorageRecord_EncodeVolume 9 sample_volume = Some buf \<and>
     StorageRecord_DecodeVolume (Some (buf[63 := PERSIST_COMMIT_VALID])) = Some sample_volume"
  using volume_slot_roundtrip [of 9 sample_volume] by (auto simp: sample_volume_def)

section \<open>Selection\<close>

text \<open>The serial order: \<open>a\<close> is newer when it is less than half the number space ahead of \<open>b\<close>.\<close>

definition newer :: "u32 \<Rightarrow> u32 \<Rightarrow> bool" where
  "newer a b \<longleftrightarrow> (\<exists>d. 0 < d \<and> d < 2 ^ 31 \<and> a = b + of_nat d)"

lemma newer_iff: "newer a b \<longleftrightarrow> a - b \<noteq> 0 \<and> a - b < 0x80000000"
proof
  assume "newer a b"
  then obtain d where d: "0 < d" "d < 2 ^ 31" "a = b + of_nat d" by (auto simp: newer_def)
  then have "a - b = of_nat d" by simp
  moreover have "unat (of_nat d :: u32) = d" using d(2) by (simp add: unat_of_nat take_bit_eq_mod)
  ultimately show "a - b \<noteq> 0 \<and> a - b < 0x80000000" using d(1,2) by (auto simp: word_less_nat_alt unat_eq_zero)
next
  assume *: "a - b \<noteq> 0 \<and> a - b < 0x80000000"
  then have "0 < unat (a - b)" "unat (a - b) < 2 ^ 31"
    by (simp_all add: unat_gt_0 word_less_nat_alt)
  then show "newer a b" unfolding newer_def by (intro exI [of _ "unat (a - b)"]) simp
qed

lemma compare_newer: "compare_sequence a b = SEQUENCE_A_NEWER \<longleftrightarrow> newer a b"
  by (auto simp: compare_sequence_def newer_iff Let_def)

lemma uint_neg: "d \<noteq> 0 \<Longrightarrow> uint (- d) = 2 ^ 32 - uint d" for d :: u32
proof -
  assume "d \<noteq> 0"
  then have "uint d \<noteq> 0" by (simp add: word_uint_eq_iff)
  then have "0 < uint d" "uint d < 2 ^ 32" using uint_ge_0 [of d] uint_bounded [of d] by (simp_all add: less_le)
  then have "(- uint d) mod 2 ^ 32 = 2 ^ 32 - uint d" by (subst zmod_zminus1_eq_if) simp
  then show ?thesis by (simp add: uint_word_ariths)
qed

lemma compare_older: "compare_sequence a b = SEQUENCE_B_NEWER \<longleftrightarrow> newer b a"
proof -
  have m: "b - a = - (a - b)" by simp
  show ?thesis
  proof (cases "a - b = 0")
    case True
    then show ?thesis by (simp add: compare_sequence_def newer_iff)
  next
    case False
    then show ?thesis using uint_neg [OF False] uint_bounded [of "a - b"]
      unfolding newer_iff m by (auto simp: compare_sequence_def Let_def word_less_def word_uint_eq_iff)
  qed
qed

lemma newer_asym: "newer a b \<Longrightarrow> \<not> newer b a"
  using compare_newer [of a b] compare_older [of a b] by simp

lemma newer_irrefl [simp]: "\<not> newer a a"
  by (simp add: newer_iff)

lemma compare_sequence_eq:
  "compare_sequence a b =
     (if a = b then SEQUENCE_EQUAL else if newer a b then SEQUENCE_A_NEWER
      else if newer b a then SEQUENCE_B_NEWER else SEQUENCE_AMBIGUOUS)"
  using compare_newer [of a b] compare_older [of a b]
  by (cases "compare_sequence a b") (auto simp: compare_sequence_def Let_def split: if_splits)

text \<open>The volume slots.\<close>

abbreviation select_volume :: "bytes \<Rightarrow> bytes \<Rightarrow> slot_selection_result" where
  "select_volume a b \<equiv> ab_slot_select (Some a) SLOT_VOLUME_SIZE (Some b) SLOT_VOLUME_SIZE PERSIST_RECORD_VOLUME
     VOLUME_PAYLOAD_V1_SCHEMA VOLUME_PAYLOAD_V1_SIZE"

abbreviation slot_valid :: "bytes \<Rightarrow> bool" where
  "slot_valid b \<equiv> classify_volume b = SLOT_VALID_COMPATIBLE"

text \<open>The slot the boot-time selection takes, as a function of the two images.\<close>

definition chosen :: "bytes \<Rightarrow> bytes \<Rightarrow> bytes option" where
  "chosen a b = (let s = select_volume a b in
     if sel_status s = SLOT_SELECTION_SELECTED then Some (if sel_selected_slot s = 0 then a else b) else None)"

lemma chosen_cases:
  "chosen a b =
     (if slot_valid a \<and> slot_valid b then
        (if newer (le_read32 a 8) (le_read32 b 8) then Some a
         else if newer (le_read32 b 8) (le_read32 a 8) then Some b
         else if le_read32 a 8 = le_read32 b 8 \<and> take 63 a = take 63 b then Some a else None)
      else if slot_valid a then Some a else if slot_valid b then Some b else None)"
  by (auto simp: chosen_def ab_slot_select_def Let_def compare_sequence_eq)

lemma chosen_one_valid:
  "slot_valid a \<Longrightarrow> \<not> slot_valid b \<Longrightarrow> chosen a b = Some a" "slot_valid b \<Longrightarrow> \<not> slot_valid a \<Longrightarrow> chosen a b = Some b"
  by (simp_all add: chosen_cases)

lemma chosen_newer:
  "slot_valid a \<Longrightarrow> slot_valid b \<Longrightarrow> newer (le_read32 a 8) (le_read32 b 8) \<Longrightarrow> chosen a b = Some a"
  "slot_valid a \<Longrightarrow> slot_valid b \<Longrightarrow> newer (le_read32 b 8) (le_read32 a 8) \<Longrightarrow> chosen a b = Some b"
  using newer_asym by (auto simp: chosen_cases)

text \<open>The slot chosen for the next write never holds the record that boot would select, nor a valid
  record of another schema; of two valid records boot selects the one with the serially newer sequence.\<close>

theorem write_target_spares_selection:
  assumes "ab_slot_choose_target (Some (ab_slot_select (Some a) n (Some b) n ty sc pl)) = target"
    and "target \<noteq> SLOT_INDEX_NONE"
  shows "target \<in> {0, 1} \<and>
    (sel_status (ab_slot_select (Some a) n (Some b) n ty sc pl) = SLOT_SELECTION_SELECTED \<longrightarrow>
       target \<noteq> sel_selected_slot (ab_slot_select (Some a) n (Some b) n ty sc pl)) \<and>
    StorageRecord_ClassifySlot (Some (if target = 0 then a else b)) n ty sc pl \<noteq> SLOT_VALID_UNSUPPORTED_SCHEMA \<and>
    (\<forall>x y. StorageRecord_ClassifySlot (Some a) n ty sc pl = SLOT_VALID_COMPATIBLE \<and>
           StorageRecord_ClassifySlot (Some b) n ty sc pl = SLOT_VALID_COMPATIBLE \<and>
           x = le_read32 a 8 \<and> y = le_read32 b 8 \<longrightarrow>
             (newer x y \<longrightarrow> target = 1) \<and> (newer y x \<longrightarrow> target = 0))"
  using assms
  by (auto simp: ab_slot_choose_target_def ab_slot_select_def Let_def slot_reason_is_protected_def
      compare_sequence_eq newer_asym split: if_splits)

lemma write_target_spares_selection_witness:
  "ab_slot_choose_target (Some (select_volume
      (volume_slot 6 sample_volume (volume_crc 6 sample_volume) PERSIST_COMMIT_VALID)
      (volume_slot 5 sample_volume (volume_crc 5 sample_volume) PERSIST_COMMIT_VALID))) = 1" (is "?t = 1")
proof -
  let ?a = "volume_slot 6 sample_volume (volume_crc 6 sample_volume) PERSIST_COMMIT_VALID"
  let ?b = "volume_slot 5 sample_volume (volume_crc 5 sample_volume) PERSIST_COMMIT_VALID"
  have v: "slot_valid ?a" "slot_valid ?b" by (rule classify_volume_slot, code_simp)+
  have n: "newer (le_read32 ?a 8) (le_read32 ?b 8)" by (simp add: newer_iff)
  have "?t \<noteq> SLOT_INDEX_NONE"
    using v by (simp add: ab_slot_choose_target_def ab_slot_select_def slot_reason_is_protected_def compare_sequence_def)
  from write_target_spares_selection [OF refl this] v n show ?thesis by blast
qed

end
