(* ===== verification/Nv_Memory.thy ===== *)
theory Nv_Memory
  imports Prelude
begin

text \<open>
  Non-volatile byte memory: the interface the storage client relies on, and the simulated F-RAM and
  storage adapter that provide it (platform/linux/peers/peer_fram.c,
  platform/linux/adapters/storage_port_linux.c).
\<close>

unbundle bit_operations_syntax

section \<open>The interface\<close>

text \<open>Blocks of bytes are read and written; what a read returns after a write.\<close>

locale byte_memory =
  fixes load :: "'m \<Rightarrow> nat \<Rightarrow> nat \<Rightarrow> bytes"
    and store :: "'m \<Rightarrow> nat \<Rightarrow> bytes \<Rightarrow> 'm"
    and capacity :: nat
    and ok :: "'m \<Rightarrow> bool"
  assumes store_ok: "ok m \<Longrightarrow> a + length bs \<le> capacity \<Longrightarrow> ok (store m a bs)"
    and load_length: "ok m \<Longrightarrow> a + n \<le> capacity \<Longrightarrow> length (load m a n) = n"
    and load_split: "ok m \<Longrightarrow> a + n + k \<le> capacity \<Longrightarrow> load m a (n + k) = load m a n @ load m (a + n) k"
    and load_store_same: "ok m \<Longrightarrow> a + length bs \<le> capacity \<Longrightarrow> load (store m a bs) a (length bs) = bs"
    and load_store_apart: "ok m \<Longrightarrow> a + length bs \<le> capacity \<Longrightarrow> b + n \<le> capacity \<Longrightarrow>
      b + n \<le> a \<or> a + length bs \<le> b \<Longrightarrow> load (store m a bs) b n = load m b n"
begin

text \<open>A block written inside a larger one.\<close>

lemma load_store_inside:
  assumes "ok m" "b \<le> a" "a + length bs \<le> b + n" "b + n \<le> capacity"
  shows "load (store m a bs) b n =
    take (a - b) (load m b n) @ bs @ drop (a - b + length bs) (load m b n)"
proof -
  let ?k = "a - b" and ?r = "b + n - (a + length bs)"
  have n: "n = ?k + (length bs + ?r)" and a: "a = b + ?k" using assms by simp_all
  have ok': "ok (store m a bs)" using assms by (intro store_ok) simp_all
  have split: "ok x \<Longrightarrow> load x b n = load x b ?k @ load x a (length bs) @ load x (a + length bs) ?r" for x
    using load_split [of x b ?k "length bs + ?r"] load_split [of x a "length bs" ?r] assms n a by simp
  have len: "length (load m b ?k) = ?k" "length (load m a (length bs)) = length bs"
    using load_length [OF assms(1), of b ?k] load_length [OF assms(1), of a "length bs"] assms by simp_all
  have same: "load (store m a bs) b ?k = load m b ?k" "load (store m a bs) (a + length bs) ?r = load m (a + length bs) ?r"
    using load_store_apart [OF assms(1), of a bs b ?k] load_store_apart [OF assms(1), of a bs "a + length bs" ?r] assms
    by simp_all
  show ?thesis
    using split [OF ok'] split [OF assms(1)] same len load_store_same [OF assms(1), of a bs] assms
    by simp
qed

lemma load_store_nth:
  assumes "ok m" "b \<le> a" "a + length bs \<le> b + n" "b + n \<le> capacity" "j < n"
  shows "load (store m a bs) b n ! j = (if a \<le> b + j \<and> b + j < a + length bs then bs ! (b + j - a) else load m b n ! j)"
  using load_store_inside [OF assms(1-4)] load_length [OF assms(1,4)] assms
  by (auto simp: nth_append min_def add.commute)

end

section \<open>A byte array\<close>

type_synonym nv_array = bytes

abbreviation NV_SIZE :: nat where "NV_SIZE \<equiv> 512"

definition nv_load :: "nv_array \<Rightarrow> nat \<Rightarrow> nat \<Rightarrow> bytes" where
  "nv_load m a n = take n (drop a m)"

definition nv_store :: "nv_array \<Rightarrow> nat \<Rightarrow> bytes \<Rightarrow> nv_array" where
  "nv_store m a bs = take a m @ bs @ drop (a + length bs) m"

definition nv_ok :: "nv_array \<Rightarrow> bool" where
  "nv_ok m \<longleftrightarrow> length m = NV_SIZE"

interpretation nv: byte_memory nv_load nv_store NV_SIZE nv_ok
proof unfold_locales
  fix m :: nv_array and a :: nat and bs :: bytes
  assume "nv_ok m" "a + length bs \<le> NV_SIZE"
  then show "nv_ok (nv_store m a bs)" "nv_load (nv_store m a bs) a (length bs) = bs"
    by (simp_all add: nv_ok_def nv_store_def nv_load_def)
next
  fix m :: nv_array and a n :: nat
  assume "nv_ok m" "a + n \<le> NV_SIZE"
  then show "length (nv_load m a n) = n" by (simp add: nv_ok_def nv_load_def)
next
  fix m :: nv_array and a n k :: nat
  assume "nv_ok m" "a + n + k \<le> NV_SIZE"
  then show "nv_load m a (n + k) = nv_load m a n @ nv_load m (a + n) k"
    by (simp add: nv_load_def take_add add.commute [of a n])
next
  fix m :: nv_array and a b n :: nat and bs :: bytes
  assume *: "nv_ok m" "a + length bs \<le> NV_SIZE" "b + n \<le> NV_SIZE" "b + n \<le> a \<or> a + length bs \<le> b"
  have len: "length m = NV_SIZE" "length (nv_store m a bs) = NV_SIZE" using * by (simp_all add: nv_ok_def nv_store_def)
  show "nv_load (nv_store m a bs) b n = nv_load m b n"
  proof (rule nth_equalityI)
    show "length (nv_load (nv_store m a bs) b n) = length (nv_load m b n)" using len by (simp add: nv_load_def)
    fix i assume "i < length (nv_load (nv_store m a bs) b n)"
    then have "i < n" using * len by (simp add: nv_load_def)
    moreover have "nv_store m a bs ! (b + i) = m ! (b + i)"
    proof (cases "b + i < a")
      case True
      then show ?thesis using * by (simp add: nv_store_def nv_ok_def nth_append)
    next
      case False
      with *(4) \<open>i < n\<close> have "\<not> b + i - a < length bs" "a + length bs \<le> b + i" by linarith+
      with False * show ?thesis by (simp add: nv_store_def nv_ok_def nth_append)
    qed
    ultimately show "nv_load (nv_store m a bs) b n ! i = nv_load m b n ! i"
      using * len by (simp add: nv_load_def)
  qed
qed

section \<open>The simulated F-RAM\<close>

record fram_peer =
  fp_memory :: nv_array
  fp_generation :: u32
  fp_i2c_latency_us :: u64
  fp_read_count :: u32
  fp_write_count :: u32
  fp_error_count :: u32

abbreviation FRAM_PEER_SIZE :: nat where "FRAM_PEER_SIZE \<equiv> NV_SIZE"

definition fram_peer_init :: fram_peer where
  "fram_peer_init = \<lparr>fp_memory = replicate FRAM_PEER_SIZE 0, fp_generation = 1, fp_i2c_latency_us = 20,
     fp_read_count = 0, fp_write_count = 0, fp_error_count = 0\<rparr>"

text \<open>One planned I2C transaction: the address bit of the device address and the first transmitted byte
  give the offset; further bytes are written, else \<open>rx_len\<close> bytes are read.  None is the failure return.
  The latency and the status flags (always zero) are constants of the call.\<close>

definition fram_peer_plan_i2c :: "fram_peer \<Rightarrow> u8 \<Rightarrow> bytes \<Rightarrow> nat \<Rightarrow> (bytes option) \<times> fram_peer" where
  "fram_peer_plan_i2c peer slave_addr tx rx_len =
     (if tx = [] then (None, peer)
      else
        let addr = unat (push_bit 8 (ucast (slave_addr AND 1)) OR (ucast (tx ! 0) :: u16));
            data = drop 1 tx
        in if data \<noteq> [] then
             (if length data > FRAM_PEER_SIZE - addr then (None, peer)
              else (Some [], peer\<lparr>fp_memory := nv_store (fp_memory peer) addr data, fp_write_count := fp_write_count peer + 1\<rparr>))
           else if rx_len > 0 then
             (if rx_len > FRAM_PEER_SIZE - addr then (None, peer)
              else (Some (nv_load (fp_memory peer) addr rx_len), peer\<lparr>fp_read_count := fp_read_count peer + 1\<rparr>))
           else (None, peer\<lparr>fp_error_count := fp_error_count peer + 1\<rparr>))"

end
