(* ===== verification/Storage_Service.thy ===== *)
theory Storage_Service
  imports Storage_Record Nv_Memory
begin

text \<open>
  The checkpoint writer and restorer (services/storage/storage_service.c) over the asynchronous
  storage port (ports/storage_port.h).

  A tick makes at most one call of the port; the port's answer to it is an argument of
  \<open>StorageService_Tick\<close> and the accepted request a result.  A request names the caller's buffer it
  reads into (\<open>io_dest\<close>) or carries the bytes it writes: the service does not touch those buffers until
  the completion.  A completion that the port delivers inside the call (the Linux adapter) is delivered
  right after the tick.  Lengths, offsets and addresses are at most 512 and are naturals.
\<close>

unbundle bit_operations_syntax

section \<open>The port\<close>

record storage_operation_token =
  tk_operation_id :: u32
  tk_correlation_id :: u32
  tk_owner_generation :: u32

datatype storage_io_submit_result =
    STORAGE_IO_SUBMIT_ACCEPTED | STORAGE_IO_SUBMIT_BUSY | STORAGE_IO_SUBMIT_INVALID_PARAM
  | STORAGE_IO_SUBMIT_OUT_OF_RANGE | STORAGE_IO_SUBMIT_NOT_READY | STORAGE_IO_SUBMIT_NO_CAPACITY

datatype storage_io_result =
    STORAGE_IO_RESULT_OK | STORAGE_IO_RESULT_TIMEOUT | STORAGE_IO_RESULT_BUS_ERROR | STORAGE_IO_RESULT_CANCELLED
  | STORAGE_IO_RESULT_STALE | STORAGE_IO_RESULT_SHORT_TRANSFER | STORAGE_IO_RESULT_INTERNAL_ERROR

record storage_io_completion =
  ic_token :: storage_operation_token
  ic_result :: storage_io_result
  ic_requested_length :: nat
  ic_transferred_length :: nat
  ic_last_transaction_id :: u32
  ic_client_generation :: u32
  ic_bus_generation :: u32

datatype io_dest = Into_scan_a | Into_scan_b | Into_readback nat | Into_io_byte

datatype io_request =
    Io_read nat io_dest nat storage_operation_token u64
  | Io_write nat bytes storage_operation_token u64

section \<open>Data\<close>

datatype storage_status =
    STORAGE_OK | STORAGE_BUSY | STORAGE_REJECTED | STORAGE_ENCODE_ERROR | STORAGE_IO_ERROR | STORAGE_VERIFY_ERROR
  | STORAGE_SEQUENCE_CONFLICT | STORAGE_CANCELLED_GENERATION | STORAGE_INTERNAL_ERROR

datatype storage_restore_status =
    STORAGE_RESTORE_OK | STORAGE_RESTORE_EMPTY | STORAGE_RESTORE_CORRUPT | STORAGE_RESTORE_UNSUPPORTED_SCHEMA
  | STORAGE_RESTORE_INCOMPATIBLE | STORAGE_RESTORE_SEQUENCE_CONFLICT | STORAGE_RESTORE_IO_ERROR
  | STORAGE_RESTORE_INTERNAL_ERROR

datatype storage_commit_status =
    STORAGE_COMMIT_OK | STORAGE_COMMIT_REJECTED | STORAGE_COMMIT_ENCODE_ERROR | STORAGE_COMMIT_IO_ERROR
  | STORAGE_COMMIT_VERIFY_ERROR | STORAGE_COMMIT_SEQUENCE_CONFLICT | STORAGE_COMMIT_CANCELLED_GENERATION
  | STORAGE_COMMIT_INTERNAL_ERROR

record storage_completion_payload =
  cp_request_id :: u64
  cp_candidate_version :: u64
  cp_record_type :: u8
  cp_selected_slot :: u8
  cp_record_sequence :: u32
  cp_status :: storage_commit_status

abbreviation STORAGE_MAX_SLOT_SIZE :: nat where "STORAGE_MAX_SLOT_SIZE \<equiv> 96"
abbreviation STORAGE_BODY_CHUNK_BYTES :: nat where "STORAGE_BODY_CHUNK_BYTES \<equiv> 32"

datatype storage_service_state =
    STORAGE_STATE_IDLE | STORAGE_STATE_SCAN_A | STORAGE_STATE_SCAN_B | STORAGE_STATE_PREPARE_TARGET
  | STORAGE_STATE_INVALIDATE | STORAGE_STATE_VERIFY_INVALIDATE | STORAGE_STATE_CHECK_INVALIDATE
  | STORAGE_STATE_WRITE_BODY | STORAGE_STATE_READBACK_BODY | STORAGE_STATE_VERIFY_BODY | STORAGE_STATE_COMMIT
  | STORAGE_STATE_VERIFY_COMMIT | STORAGE_STATE_CHECK_COMMIT | STORAGE_STATE_COMPLETE | STORAGE_STATE_FAILED
  | STORAGE_STATE_RESTORE_SCAN_A | STORAGE_STATE_RESTORE_SCAN_B | STORAGE_STATE_RESTORE_DECODE
  | STORAGE_STATE_RESTORE_COMPLETE | STORAGE_STATE_RESTORE_FAILED

record storage_service_context =
  sc_state :: storage_service_state
  sc_record_type :: u8
  sc_sequence :: u32
  sc_candidate_version :: u64
  sc_request_id :: u64
  sc_encoded_length :: nat
  sc_slot_buffer :: bytes
  sc_readback :: bytes
  sc_scan_a :: bytes
  sc_scan_b :: bytes
  sc_target_slot :: u8
  sc_target_address :: nat
  sc_slot_size :: nat
  sc_write_offset :: nat
  sc_io_byte :: u8
  sc_io_pending :: bool
  sc_io_completed :: bool
  sc_io_token :: storage_operation_token
  sc_io_completion :: storage_io_completion
  sc_io_success_state :: storage_service_state
  sc_io_advance_bytes :: nat
  sc_pending :: bool
  sc_pending_buffer :: bytes
  sc_pending_length :: nat
  sc_pending_version :: u64
  sc_pending_sequence :: u32
  sc_pending_type :: u8

record storage_restored_volume =
  rv_payload :: volume_payload
  rv_record_sequence :: u32
  rv_selected_slot :: u8
  rv_slot_a_reason :: slot_classification
  rv_slot_b_reason :: slot_classification

text \<open>\<open>ss_port_valid\<close> is \<open>storage_port_is_valid\<close> of the bound port.\<close>

record storage_service =
  ss_port_valid :: bool
  ss_context :: storage_service_context
  ss_generation :: u32
  ss_next_operation_id :: u32
  ss_next_correlation_id :: u32
  ss_io_timeout_us :: u32
  ss_request_count :: u64
  ss_last_completion :: storage_completion_payload
  ss_completion_ready :: bool
  ss_restore_status :: storage_restore_status
  ss_restored_volume :: storage_restored_volume
  ss_restore_ready :: bool
  ss_stale_completion_count :: u32

text \<open>The all-zero values.\<close>

definition zero_token :: storage_operation_token where
  "zero_token = \<lparr>tk_operation_id = 0, tk_correlation_id = 0, tk_owner_generation = 0\<rparr>"

definition zero_io_completion :: storage_io_completion where
  "zero_io_completion = \<lparr>ic_token = zero_token, ic_result = STORAGE_IO_RESULT_OK, ic_requested_length = 0,
     ic_transferred_length = 0, ic_last_transaction_id = 0, ic_client_generation = 0, ic_bus_generation = 0\<rparr>"

definition zero_slot :: bytes where
  "zero_slot = replicate STORAGE_MAX_SLOT_SIZE 0"

definition zero_context :: storage_service_context where
  "zero_context =
     \<lparr>sc_state = STORAGE_STATE_IDLE, sc_record_type = 0, sc_sequence = 0, sc_candidate_version = 0, sc_request_id = 0,
      sc_encoded_length = 0, sc_slot_buffer = zero_slot, sc_readback = zero_slot, sc_scan_a = zero_slot,
      sc_scan_b = zero_slot, sc_target_slot = 0, sc_target_address = 0, sc_slot_size = 0, sc_write_offset = 0,
      sc_io_byte = 0, sc_io_pending = False, sc_io_completed = False, sc_io_token = zero_token,
      sc_io_completion = zero_io_completion, sc_io_success_state = STORAGE_STATE_IDLE, sc_io_advance_bytes = 0,
      sc_pending = False, sc_pending_buffer = zero_slot, sc_pending_length = 0, sc_pending_version = 0,
      sc_pending_sequence = 0, sc_pending_type = 0\<rparr>"

definition zero_volume_payload :: volume_payload where
  "zero_volume_payload = \<lparr>vp_forward_volume_ul = 0, vp_reverse_volume_ul = 0, vp_forward_remainder = 0,
     vp_reverse_remainder = 0, vp_state_version = 0, vp_last_flow_sequence = 0, vp_last_source_generation = 0\<rparr>"

definition zero_restored :: storage_restored_volume where
  "zero_restored = \<lparr>rv_payload = zero_volume_payload, rv_record_sequence = 0, rv_selected_slot = 0,
     rv_slot_a_reason = SLOT_VALID_COMPATIBLE, rv_slot_b_reason = SLOT_VALID_COMPATIBLE\<rparr>"

definition zero_completion_payload :: storage_completion_payload where
  "zero_completion_payload = \<lparr>cp_request_id = 0, cp_candidate_version = 0, cp_record_type = 0, cp_selected_slot = 0,
     cp_record_sequence = 0, cp_status = STORAGE_COMMIT_OK\<rparr>"

section \<open>Helpers\<close>

definition slot_addr_for :: "u8 \<Rightarrow> u8 \<Rightarrow> nat" where
  "slot_addr_for slot type =
     (if type = PERSIST_RECORD_VOLUME then (if slot \<noteq> 0 then 0x180 else 0x140)
      else if type = PERSIST_RECORD_CONFIG then (if slot \<noteq> 0 then 0x040 else 0x000)
      else if type = PERSIST_RECORD_CALIBRATION then (if slot \<noteq> 0 then 0x0E0 else 0x080)
      else 0)"

definition slot_size_for :: "u8 \<Rightarrow> nat" where
  "slot_size_for type =
     (if type = PERSIST_RECORD_VOLUME then 64 else if type = PERSIST_RECORD_CONFIG then 64
      else if type = PERSIST_RECORD_CALIBRATION then 96 else 0)"

fun is_terminal :: "storage_service_state \<Rightarrow> bool" where
  "is_terminal STORAGE_STATE_IDLE = True"
| "is_terminal STORAGE_STATE_COMPLETE = True"
| "is_terminal STORAGE_STATE_FAILED = True"
| "is_terminal _ = False"

fun is_restore_state :: "storage_service_state \<Rightarrow> bool" where
  "is_restore_state STORAGE_STATE_RESTORE_SCAN_A = True"
| "is_restore_state STORAGE_STATE_RESTORE_SCAN_B = True"
| "is_restore_state STORAGE_STATE_RESTORE_DECODE = True"
| "is_restore_state STORAGE_STATE_RESTORE_COMPLETE = True"
| "is_restore_state STORAGE_STATE_RESTORE_FAILED = True"
| "is_restore_state _ = False"

abbreviation set_state :: "storage_service_state \<Rightarrow> storage_service \<Rightarrow> storage_service" where
  "set_state st s \<equiv> s\<lparr>ss_context := (ss_context s)\<lparr>sc_state := st\<rparr>\<rparr>"

definition next_token :: "storage_service \<Rightarrow> storage_operation_token \<times> storage_service" where
  "next_token s =
     (let op = ss_next_operation_id s; co = ss_next_correlation_id s;
          s1 = s\<lparr>ss_next_operation_id := op + 1, ss_next_correlation_id := co + 1\<rparr>;
          (op', s2) = (if op = 0 then (ss_next_operation_id s1, s1\<lparr>ss_next_operation_id := ss_next_operation_id s1 + 1\<rparr>)
                       else (op, s1));
          (co', s3) = (if co = 0 then (ss_next_correlation_id s2, s2\<lparr>ss_next_correlation_id := ss_next_correlation_id s2 + 1\<rparr>)
                       else (co, s2))
      in (\<lparr>tk_operation_id = op', tk_correlation_id = co', tk_owner_generation = ss_generation s\<rparr>, s3))"

text \<open>The common body of \<open>submit_read\<close> and \<open>submit_write\<close>: the request as a function of token and deadline.\<close>

definition submit_io :: "(storage_operation_token \<Rightarrow> u64 \<Rightarrow> io_request) \<Rightarrow> storage_service_state \<Rightarrow> nat \<Rightarrow> u64 \<Rightarrow>
    storage_io_submit_result \<Rightarrow> storage_service \<Rightarrow> bool \<times> storage_service \<times> io_request option" where
  "submit_io request success_state advance now answer s =
     (if UINT64_MAX - now < ucast (ss_io_timeout_us s) then (False, s, None)
      else
        let (token, s1) = next_token s;
            c = (ss_context s1)\<lparr>sc_io_token := token, sc_io_pending := True, sc_io_completed := False,
                 sc_io_success_state := success_state, sc_io_advance_bytes := advance\<rparr>
        in if answer \<noteq> STORAGE_IO_SUBMIT_ACCEPTED
           then (False, s1\<lparr>ss_context := c\<lparr>sc_io_pending := False, sc_io_completed := False\<rparr>\<rparr>, None)
           else (True, s1\<lparr>ss_context := c\<rparr>, Some (request token (now + ucast (ss_io_timeout_us s)))))"

definition submit_read :: "nat \<Rightarrow> io_dest \<Rightarrow> nat \<Rightarrow> storage_service_state \<Rightarrow> nat \<Rightarrow> u64 \<Rightarrow>
    storage_io_submit_result \<Rightarrow> storage_service \<Rightarrow> bool \<times> storage_service \<times> io_request option" where
  "submit_read offset dest n = submit_io (Io_read offset dest n)"

definition submit_write :: "nat \<Rightarrow> bytes \<Rightarrow> storage_service_state \<Rightarrow> nat \<Rightarrow> u64 \<Rightarrow>
    storage_io_submit_result \<Rightarrow> storage_service \<Rightarrow> bool \<times> storage_service \<times> io_request option" where
  "submit_write offset data = submit_io (Io_write offset data)"

definition finish_commit :: "storage_commit_status \<Rightarrow> storage_service \<Rightarrow> storage_service" where
  "finish_commit status s =
     (let c = ss_context s
      in s\<lparr>ss_last_completion := \<lparr>cp_request_id = sc_request_id c, cp_candidate_version = sc_candidate_version c,
             cp_record_type = sc_record_type c, cp_selected_slot = sc_target_slot c,
             cp_record_sequence = sc_sequence c, cp_status = status\<rparr>,
           ss_completion_ready := True,
           ss_context := c\<lparr>sc_state := (if status = STORAGE_COMMIT_OK then STORAGE_STATE_COMPLETE else STORAGE_STATE_FAILED)\<rparr>\<rparr>)"

definition fail_io :: "storage_io_result \<Rightarrow> storage_service \<Rightarrow> storage_service" where
  "fail_io result s =
     (if is_restore_state (sc_state (ss_context s)) then
        (set_state STORAGE_STATE_RESTORE_FAILED s)
          \<lparr>ss_restored_volume := zero_restored\<lparr>rv_selected_slot := SLOT_INDEX_NONE, rv_slot_a_reason := SLOT_IO_ERROR,
             rv_slot_b_reason := SLOT_IO_ERROR\<rparr>,
           ss_restore_status := STORAGE_RESTORE_IO_ERROR, ss_restore_ready := True\<rparr>
      else finish_commit (if result = STORAGE_IO_RESULT_CANCELLED then STORAGE_COMMIT_CANCELLED_GENERATION
                          else STORAGE_COMMIT_IO_ERROR) s)"

definition consume_io_completion :: "storage_service \<Rightarrow> bool \<times> storage_service" where
  "consume_io_completion s =
     (let c = ss_context s
      in if \<not> sc_io_pending c \<or> \<not> sc_io_completed c then (False, s)
         else
           let completion = sc_io_completion c;
               s1 = s\<lparr>ss_context := c\<lparr>sc_io_pending := False, sc_io_completed := False\<rparr>\<rparr>
           in if ic_result completion \<noteq> STORAGE_IO_RESULT_OK \<or>
                 ic_transferred_length completion \<noteq> ic_requested_length completion
              then (True, fail_io (if ic_result completion = STORAGE_IO_RESULT_OK then STORAGE_IO_RESULT_SHORT_TRANSFER
                                   else ic_result completion) s1)
              else (True, s1\<lparr>ss_context := (ss_context s1)
                     \<lparr>sc_write_offset := sc_write_offset c + sc_io_advance_bytes c, sc_state := sc_io_success_state c\<rparr>\<rparr>))"

text \<open>The buffers hold \<open>STORAGE_MAX_SLOT_SIZE\<close> bytes: the image, then zeros.\<close>

definition slot_of :: "bytes \<Rightarrow> nat \<Rightarrow> bytes" where
  "slot_of encoded n = take n encoded @ replicate (STORAGE_MAX_SLOT_SIZE - n) 0"

definition prepare_active_candidate :: "u8 \<Rightarrow> u32 \<Rightarrow> bytes \<Rightarrow> nat \<Rightarrow> u64 \<Rightarrow> storage_service \<Rightarrow> storage_service option" where
  "prepare_active_candidate record_type sequence encoded encoded_length candidate_version s =
     (let slot_size = slot_size_for record_type
      in if slot_size = 0 \<or> slot_size > STORAGE_MAX_SLOT_SIZE \<or> encoded_length < PERSIST_COMMON_HEADER_SIZE
            \<or> encoded_length > slot_size then None
         else
           let count = ss_request_count s + 1
           in Some (s\<lparr>ss_request_count := count,
                ss_context := (ss_context s)\<lparr>sc_record_type := record_type, sc_sequence := sequence,
                  sc_candidate_version := candidate_version, sc_request_id := count, sc_encoded_length := encoded_length,
                  sc_slot_size := slot_size, sc_write_offset := 0, sc_pending := False,
                  sc_slot_buffer := slot_of encoded encoded_length, sc_readback := zero_slot,
                  sc_scan_a := zero_slot, sc_scan_b := zero_slot, sc_state := STORAGE_STATE_SCAN_A\<rparr>\<rparr>))"

definition promote_pending :: "storage_service \<Rightarrow> storage_service" where
  "promote_pending s =
     (let c = ss_context s; s1 = s\<lparr>ss_context := c\<lparr>sc_pending := False\<rparr>\<rparr>
      in case prepare_active_candidate (sc_pending_type c) (sc_pending_sequence c) (sc_pending_buffer c)
                (sc_pending_length c) (sc_pending_version c) s1 of
           Some s' \<Rightarrow> s'
         | None \<Rightarrow> finish_commit STORAGE_COMMIT_REJECTED s1)"

section \<open>Operations\<close>

text \<open>Initialisation; \<open>bound\<close> is the answer of the port's \<open>bind_completion\<close>.  None is STORAGE_REJECTED
  (the caller's object is zeroed or untouched, and unusable).\<close>

definition StorageService_Init :: "bool \<Rightarrow> u32 \<Rightarrow> bool \<Rightarrow> storage_service option" where
  "StorageService_Init port_valid io_timeout_us bound =
     (if \<not> port_valid \<or> io_timeout_us = 0 \<or> \<not> bound then None
      else Some \<lparr>ss_port_valid = True, ss_context = zero_context, ss_generation = 1, ss_next_operation_id = 1,
        ss_next_correlation_id = 1, ss_io_timeout_us = io_timeout_us, ss_request_count = 0,
        ss_last_completion = zero_completion_payload, ss_completion_ready = False,
        ss_restore_status = STORAGE_RESTORE_OK, ss_restored_volume = zero_restored, ss_restore_ready = False,
        ss_stale_completion_count = 0\<rparr>)"

definition StorageService_SubmitCheckpoint ::
    "u8 \<Rightarrow> u32 \<Rightarrow> bytes \<Rightarrow> nat \<Rightarrow> u64 \<Rightarrow> storage_service \<Rightarrow> storage_status \<times> storage_service" where
  "StorageService_SubmitCheckpoint record_type sequence encoded encoded_length candidate_version s =
     (let c = ss_context s
      in if encoded_length = 0 \<or> is_restore_state (sc_state c) then (STORAGE_REJECTED, s)
         else if is_terminal (sc_state c) then
           (if ss_completion_ready s then (STORAGE_BUSY, s)
            else case prepare_active_candidate record_type sequence encoded encoded_length candidate_version s of
                   None \<Rightarrow> (STORAGE_REJECTED, s)
                 | Some s' \<Rightarrow> (STORAGE_OK, s'))
         else
           let slot_size = slot_size_for record_type
           in if slot_size = 0 \<or> encoded_length < PERSIST_COMMON_HEADER_SIZE \<or> encoded_length > slot_size
              then (STORAGE_REJECTED, s)
              else (STORAGE_BUSY, s\<lparr>ss_context := c\<lparr>sc_pending := True, sc_pending_type := record_type,
                      sc_pending_sequence := sequence, sc_pending_version := candidate_version,
                      sc_pending_length := encoded_length, sc_pending_buffer := slot_of encoded encoded_length\<rparr>\<rparr>))"

definition StorageService_OnIoCompletion :: "storage_io_completion \<Rightarrow> storage_service \<Rightarrow> storage_service" where
  "StorageService_OnIoCompletion completion s =
     (let c = ss_context s; t = ic_token completion
      in if \<not> sc_io_pending c \<or> sc_io_completed c \<or> tk_operation_id t \<noteq> tk_operation_id (sc_io_token c)
            \<or> tk_correlation_id t \<noteq> tk_correlation_id (sc_io_token c) \<or> tk_owner_generation t \<noteq> ss_generation s
         then s\<lparr>ss_stale_completion_count := ss_stale_completion_count s + 1\<rparr>
         else s\<lparr>ss_context := c\<lparr>sc_io_completion := completion, sc_io_completed := True\<rparr>\<rparr>)"

definition choose_target :: "storage_service \<Rightarrow> storage_service" where
  "choose_target s =
     (let c = ss_context s;
          selected = ab_slot_select (Some (sc_scan_a c)) (sc_slot_size c) (Some (sc_scan_b c)) (sc_slot_size c)
            (sc_record_type c) (sc_slot_buffer c ! 5) (le_read16 (sc_slot_buffer c) 6);
          target = ab_slot_choose_target (Some selected);
          s1 = s\<lparr>ss_context := c\<lparr>sc_target_slot := target\<rparr>\<rparr>
      in if target = SLOT_INDEX_NONE then
           finish_commit (if sel_status selected = SLOT_SELECTION_SEQUENCE_CONFLICT
                          then STORAGE_COMMIT_SEQUENCE_CONFLICT else STORAGE_COMMIT_REJECTED) s1
         else s1\<lparr>ss_context := (ss_context s1)\<lparr>sc_target_address := slot_addr_for target (sc_record_type c),
                sc_write_offset := 0, sc_state := STORAGE_STATE_INVALIDATE\<rparr>\<rparr>)"

definition classify_restore_failure :: "slot_selection_result \<Rightarrow> storage_restore_status" where
  "classify_restore_failure selected =
     (let a = sel_reason_a selected; b = sel_reason_b selected
      in if sel_status selected = SLOT_SELECTION_SEQUENCE_CONFLICT then STORAGE_RESTORE_SEQUENCE_CONFLICT
         else if a = SLOT_EMPTY_UNINITIALIZED \<and> b = SLOT_EMPTY_UNINITIALIZED then STORAGE_RESTORE_EMPTY
         else if a = SLOT_IO_ERROR \<or> b = SLOT_IO_ERROR then STORAGE_RESTORE_IO_ERROR
         else if a = SLOT_VALID_UNSUPPORTED_SCHEMA \<or> b = SLOT_VALID_UNSUPPORTED_SCHEMA then STORAGE_RESTORE_UNSUPPORTED_SCHEMA
         else if a = SLOT_VALID_INCOMPATIBLE \<or> b = SLOT_VALID_INCOMPATIBLE then STORAGE_RESTORE_INCOMPATIBLE
         else STORAGE_RESTORE_CORRUPT)"

definition decode_restore :: "storage_service \<Rightarrow> storage_service" where
  "decode_restore s =
     (let c = ss_context s;
          selected = ab_slot_select (Some (sc_scan_a c)) SLOT_VOLUME_SIZE (Some (sc_scan_b c)) SLOT_VOLUME_SIZE
            PERSIST_RECORD_VOLUME VOLUME_PAYLOAD_V1_SCHEMA VOLUME_PAYLOAD_V1_SIZE;
          restored = zero_restored\<lparr>rv_selected_slot := sel_selected_slot selected,
            rv_slot_a_reason := sel_reason_a selected, rv_slot_b_reason := sel_reason_b selected\<rparr>;
          (status, restored') =
            (if sel_status selected \<noteq> SLOT_SELECTION_SELECTED then (classify_restore_failure selected, restored)
             else
               let slot = (if sel_selected_slot selected \<noteq> 0 then sc_scan_b c else sc_scan_a c);
                   restored1 = restored\<lparr>rv_record_sequence := le_read32 slot 8\<rparr>
               in case StorageRecord_DecodeVolume (Some slot) of
                    Some v \<Rightarrow> (STORAGE_RESTORE_OK, restored1\<lparr>rv_payload := v\<rparr>)
                  | None \<Rightarrow> (STORAGE_RESTORE_CORRUPT, restored1))
      in s\<lparr>ss_restored_volume := restored', ss_restore_status := status, ss_restore_ready := True,
           ss_context := c\<lparr>sc_state := STORAGE_STATE_RESTORE_COMPLETE\<rparr>\<rparr>)"

text \<open>A submission that the port refuses, or that would pass the end of time, fails the operation.\<close>

definition or_fail :: "bool \<times> storage_service \<times> io_request option \<Rightarrow> storage_service \<times> io_request option" where
  "or_fail r = (case r of (True, s, req) \<Rightarrow> (s, req) | (False, s, req) \<Rightarrow> (fail_io STORAGE_IO_RESULT_BUS_ERROR s, None))"

text \<open>The size of the next chunk of the body, and whether the whole body is done.\<close>

definition body_size :: "storage_service_context \<Rightarrow> nat" where
  "body_size c = sc_slot_size c - 1"

definition chunk_size :: "storage_service_context \<Rightarrow> nat" where
  "chunk_size c = (if sc_write_offset c + STORAGE_BODY_CHUNK_BYTES > body_size c
                   then body_size c - sc_write_offset c else STORAGE_BODY_CHUNK_BYTES)"

definition commit_address :: "storage_service_context \<Rightarrow> nat" where
  "commit_address c = sc_target_address c + sc_slot_size c - 1"

text \<open>The switch over the states.\<close>

definition tick_state :: "u64 \<Rightarrow> storage_io_submit_result \<Rightarrow> storage_service \<Rightarrow> storage_service \<times> io_request option" where
  "tick_state now answer s =
     (let c = ss_context s
      in case sc_state c of
           STORAGE_STATE_IDLE \<Rightarrow> (s, None)
         | STORAGE_STATE_COMPLETE \<Rightarrow> (s, None)
         | STORAGE_STATE_FAILED \<Rightarrow> (s, None)
         | STORAGE_STATE_RESTORE_COMPLETE \<Rightarrow> (s, None)
         | STORAGE_STATE_RESTORE_FAILED \<Rightarrow> (s, None)
         | STORAGE_STATE_SCAN_A \<Rightarrow> or_fail (submit_read (slot_addr_for 0 (sc_record_type c)) Into_scan_a (sc_slot_size c)
             STORAGE_STATE_SCAN_B 0 now answer s)
         | STORAGE_STATE_SCAN_B \<Rightarrow> or_fail (submit_read (slot_addr_for 1 (sc_record_type c)) Into_scan_b (sc_slot_size c)
             STORAGE_STATE_PREPARE_TARGET 0 now answer s)
         | STORAGE_STATE_PREPARE_TARGET \<Rightarrow> (choose_target s, None)
         | STORAGE_STATE_INVALIDATE \<Rightarrow>
             or_fail (submit_write (commit_address c) [PERSIST_COMMIT_INVALID] STORAGE_STATE_VERIFY_INVALIDATE 0 now answer
               (s\<lparr>ss_context := c\<lparr>sc_io_byte := PERSIST_COMMIT_INVALID\<rparr>\<rparr>))
         | STORAGE_STATE_VERIFY_INVALIDATE \<Rightarrow>
             or_fail (submit_read (commit_address c) Into_io_byte 1 STORAGE_STATE_CHECK_INVALIDATE 0 now answer s)
         | STORAGE_STATE_CHECK_INVALIDATE \<Rightarrow>
             if sc_io_byte c = PERSIST_COMMIT_VALID then (finish_commit STORAGE_COMMIT_VERIFY_ERROR s, None)
             else (s\<lparr>ss_context := c\<lparr>sc_write_offset := 0, sc_state := STORAGE_STATE_WRITE_BODY\<rparr>\<rparr>, None)
         | STORAGE_STATE_WRITE_BODY \<Rightarrow>
             if sc_write_offset c \<ge> body_size c
             then (s\<lparr>ss_context := c\<lparr>sc_write_offset := 0, sc_state := STORAGE_STATE_READBACK_BODY\<rparr>\<rparr>, None)
             else or_fail (submit_write (sc_target_address c + sc_write_offset c)
                    (take (chunk_size c) (drop (sc_write_offset c) (sc_slot_buffer c)))
                    STORAGE_STATE_WRITE_BODY (chunk_size c) now answer s)
         | STORAGE_STATE_READBACK_BODY \<Rightarrow>
             if sc_write_offset c \<ge> body_size c then (set_state STORAGE_STATE_VERIFY_BODY s, None)
             else or_fail (submit_read (sc_target_address c + sc_write_offset c) (Into_readback (sc_write_offset c))
                    (chunk_size c) STORAGE_STATE_READBACK_BODY (chunk_size c) now answer s)
         | STORAGE_STATE_VERIFY_BODY \<Rightarrow>
             if take (body_size c) (sc_slot_buffer c) \<noteq> take (body_size c) (sc_readback c)
             then (finish_commit STORAGE_COMMIT_VERIFY_ERROR s, None) else (set_state STORAGE_STATE_COMMIT s, None)
         | STORAGE_STATE_COMMIT \<Rightarrow>
             or_fail (submit_write (commit_address c) [PERSIST_COMMIT_VALID] STORAGE_STATE_VERIFY_COMMIT 0 now answer
               (s\<lparr>ss_context := c\<lparr>sc_io_byte := PERSIST_COMMIT_VALID\<rparr>\<rparr>))
         | STORAGE_STATE_VERIFY_COMMIT \<Rightarrow>
             or_fail (submit_read (commit_address c) Into_io_byte 1 STORAGE_STATE_CHECK_COMMIT 0 now answer s)
         | STORAGE_STATE_CHECK_COMMIT \<Rightarrow>
             (finish_commit (if sc_io_byte c \<noteq> PERSIST_COMMIT_VALID then STORAGE_COMMIT_VERIFY_ERROR else STORAGE_COMMIT_OK) s, None)
         | STORAGE_STATE_RESTORE_SCAN_A \<Rightarrow>
             or_fail (submit_read 0x140 Into_scan_a SLOT_VOLUME_SIZE STORAGE_STATE_RESTORE_SCAN_B 0 now answer s)
         | STORAGE_STATE_RESTORE_SCAN_B \<Rightarrow>
             or_fail (submit_read 0x180 Into_scan_b SLOT_VOLUME_SIZE STORAGE_STATE_RESTORE_DECODE 0 now answer s)
         | STORAGE_STATE_RESTORE_DECODE \<Rightarrow> (decode_restore s, None))"

definition StorageService_Tick :: "u64 \<Rightarrow> storage_io_submit_result \<Rightarrow> storage_service \<Rightarrow> storage_service \<times> io_request option" where
  "StorageService_Tick now answer s =
     (let c = ss_context s
      in if \<not> ss_port_valid s then (s, None)
         else if sc_io_pending c then (snd (consume_io_completion s), None)
         else if (sc_state c = STORAGE_STATE_COMPLETE \<or> sc_state c = STORAGE_STATE_FAILED) \<and> sc_pending c
                 \<and> \<not> ss_completion_ready s
         then (promote_pending s, None)
         else tick_state now answer s)"

definition StorageService_TakeCompletion :: "storage_service \<Rightarrow> (storage_completion_payload \<times> storage_service) option" where
  "StorageService_TakeCompletion s =
     (if \<not> ss_completion_ready s then None else Some (ss_last_completion s, s\<lparr>ss_completion_ready := False\<rparr>))"

definition StorageService_StartRestoreVolume :: "storage_service \<Rightarrow> storage_status \<times> storage_service" where
  "StorageService_StartRestoreVolume s =
     (let c = ss_context s
      in if \<not> ss_port_valid s then (STORAGE_REJECTED, s)
         else if \<not> is_terminal (sc_state c) \<or> sc_pending c \<or> ss_completion_ready s then (STORAGE_BUSY, s)
         else (STORAGE_OK,
           s\<lparr>ss_restored_volume := zero_restored\<lparr>rv_selected_slot := SLOT_INDEX_NONE\<rparr>, ss_restore_ready := False,
             ss_context := c\<lparr>sc_scan_a := zero_slot, sc_scan_b := zero_slot, sc_write_offset := 0,
               sc_state := STORAGE_STATE_RESTORE_SCAN_A\<rparr>\<rparr>))"

definition StorageService_TakeRestoredVolume ::
    "storage_service \<Rightarrow> (storage_restore_status \<times> storage_restored_volume \<times> storage_service) option" where
  "StorageService_TakeRestoredVolume s =
     (if \<not> ss_restore_ready s then None
      else Some (ss_restore_status s, ss_restored_volume s, set_state STORAGE_STATE_IDLE (s\<lparr>ss_restore_ready := False\<rparr>)))"

end
