(* ===== verification/Checkpoint_Safety.thy ===== *)
theory Checkpoint_Safety
  imports Storage_Service
begin

text \<open>
  Power-loss safety of the checkpoint protocol: the storage service, an adversarial storage port and
  the memory as one transition relation.  A state is the service, the memory, and the operation in
  flight.  The device may tear a write (any subset of its bytes, any number of times) and report any
  completion for it, success included, whatever part was written; a read returns the bytes in memory or
  fails; stale completions arrive at any time, and the power may fail in any state.
\<close>

unbundle bit_operations_syntax

section \<open>The system\<close>

text \<open>The port writing into the caller's buffer.\<close>

fun fill_dest :: "io_dest \<Rightarrow> bytes \<Rightarrow> storage_service_context \<Rightarrow> storage_service_context" where
  "fill_dest Into_scan_a bs c = c\<lparr>sc_scan_a := put_block 0 bs (sc_scan_a c)\<rparr>"
| "fill_dest Into_scan_b bs c = c\<lparr>sc_scan_b := put_block 0 bs (sc_scan_b c)\<rparr>"
| "fill_dest (Into_readback i) bs c = c\<lparr>sc_readback := put_block i bs (sc_readback c)\<rparr>"
| "fill_dest Into_io_byte bs c = c\<lparr>sc_io_byte := bs ! 0\<rparr>"

definition deliver :: "io_dest \<Rightarrow> bytes \<Rightarrow> storage_service \<Rightarrow> storage_service" where
  "deliver dest bs s = s\<lparr>ss_context := fill_dest dest bs (ss_context s)\<rparr>"

definition ok_completion :: "storage_operation_token \<Rightarrow> nat \<Rightarrow> storage_io_completion" where
  "ok_completion t n = zero_io_completion\<lparr>ic_token := t, ic_requested_length := n, ic_transferred_length := n\<rparr>"

definition completion_good :: "storage_io_completion \<Rightarrow> bool" where
  "completion_good k \<longleftrightarrow> ic_result k = STORAGE_IO_RESULT_OK \<and> ic_transferred_length k = ic_requested_length k"

text \<open>The bytes selected by a mask are written, the others keep their old value.\<close>

definition torn_bytes :: "(nat \<Rightarrow> bool) \<Rightarrow> bytes \<Rightarrow> bytes \<Rightarrow> bytes" where
  "torn_bytes sel new old = map (\<lambda>i. if sel i then new ! i else old ! i) [0..<length new]"

definition torn_store :: "(nat \<Rightarrow> bool) \<Rightarrow> nv_array \<Rightarrow> nat \<Rightarrow> bytes \<Rightarrow> nv_array" where
  "torn_store sel m a bs = nv_store m a (torn_bytes sel bs (nv_load m a (length bs)))"

type_synonym nv_state = "storage_service \<times> nv_array \<times> io_request option"

inductive nv_step :: "nv_state \<Rightarrow> nv_state \<Rightarrow> bool" where
  tick: "StorageService_Tick now answer s = (s', None) \<Longrightarrow> nv_step (s, m, f) (s', m, f)"
| submit: "StorageService_Tick now STORAGE_IO_SUBMIT_ACCEPTED s = (s', Some req) \<Longrightarrow> nv_step (s, m, None) (s', m, Some req)"
| queue: "\<not> is_terminal (sc_state (ss_context s)) \<Longrightarrow>
    nv_step (s, m, f) (snd (StorageService_SubmitCheckpoint ty sq enc len ver s), m, f)"
| tear: "nv_step (s, m, Some (Io_write a bs t d)) (s, torn_store sel m a bs, Some (Io_write a bs t d))"
| write_done: "nv_step (s, m, Some (Io_write a bs t d)) (StorageService_OnIoCompletion k s, m, None)"
| read_ok: "nv_step (s, m, Some (Io_read a dest n t d))
    (StorageService_OnIoCompletion (ok_completion t n) (deliver dest (nv_load m a n) s), m, None)"
| read_fails: "\<not> completion_good k \<Longrightarrow> length xs = n \<Longrightarrow>
    nv_step (s, m, Some (Io_read a dest n t d)) (StorageService_OnIoCompletion k (deliver dest xs s), m, None)"
| stale: "ic_token k \<noteq> sc_io_token (ss_context s) \<Longrightarrow> nv_step (s, m, f) (StorageService_OnIoCompletion k s, m, f)"

inductive nv_reach :: "nv_state \<Rightarrow> nv_state \<Rightarrow> bool" where
  start: "nv_reach x x"
| extend: "nv_reach x y \<Longrightarrow> nv_step y z \<Longrightarrow> nv_reach x z"

text \<open>A volume slot in memory, and the record that boot selects.\<close>

definition slot_at :: "nv_array \<Rightarrow> u8 \<Rightarrow> bytes" where
  "slot_at m t = nv_load m (slot_addr_for t PERSIST_RECORD_VOLUME) SLOT_VOLUME_SIZE"

definition durable :: "nv_array \<Rightarrow> bytes option" where
  "durable m = chosen (slot_at m 0) (slot_at m 1)"

section \<open>Selection looks at the slot only\<close>

lemma le_read32_prefix: "i + 4 \<le> length xs \<Longrightarrow> le_read32 (xs @ ys) i = le_read32 xs i"
  by (simp add: le_read32_def nth_append)

lemma le_read16_prefix: "i + 2 \<le> length xs \<Longrightarrow> le_read16 (xs @ ys) i = le_read16 xs i"
  by (simp add: le_read16_def nth_append)

lemma crc_prefix: "length xs = n \<Longrightarrow> 17 \<le> n \<Longrightarrow> StorageRecord_ComputeCrc (Some (xs @ ys)) n = StorageRecord_ComputeCrc (Some xs) n"
  by (auto simp: StorageRecord_ComputeCrc_def le_read16_prefix Let_def)

lemma classify_prefix:
  assumes "length xs = n" "40 \<le> n"
  shows "StorageRecord_ClassifySlot (Some (xs @ ys)) n ty sc pl = StorageRecord_ClassifySlot (Some xs) n ty sc pl"
proof -
  have t: "take (n - 1 - (16 + p)) (drop (16 + p) (xs @ ys)) = take (n - 1 - (16 + p)) (drop (16 + p) xs)" for p
    using assms(1) by (cases "16 + p \<le> n") simp_all
  have r: "take n (xs @ ys) = take n xs" "(xs @ ys) ! (n - 1) = xs ! (n - 1)" "le_read32 (xs @ ys) 0 = le_read32 xs 0"
    "(xs @ ys) ! 4 = xs ! 4" "le_read16 (xs @ ys) 6 = le_read16 xs 6" "le_read32 (xs @ ys) 0x0C = le_read32 xs 0x0C"
    "(xs @ ys) ! 5 = xs ! 5" "le_read32 (xs @ ys) 0x20 = le_read32 xs 0x20" "le_read32 (xs @ ys) 0x24 = le_read32 xs 0x24"
    "StorageRecord_ComputeCrc (Some (xs @ ys)) n = StorageRecord_ComputeCrc (Some xs) n"
    using assms by (simp_all add: nth_append le_read32_prefix le_read16_prefix crc_prefix)
  show ?thesis unfolding StorageRecord_ClassifySlot_def option.case r t ..
qed

lemma select_prefix:
  assumes "length a = 64" "length b = 64"
  shows "ab_slot_select (Some (a @ x)) 64 (Some (b @ y)) 64 ty sc pl = ab_slot_select (Some a) 64 (Some b) 64 ty sc pl"
proof -
  have r: "StorageRecord_ClassifySlot (Some (a @ x)) 64 ty sc pl = StorageRecord_ClassifySlot (Some a) 64 ty sc pl"
    "StorageRecord_ClassifySlot (Some (b @ y)) 64 ty sc pl = StorageRecord_ClassifySlot (Some b) 64 ty sc pl"
    "le_read32 (the (Some (a @ x))) 8 = le_read32 (the (Some a)) 8" "le_read32 (the (Some (b @ y))) 8 = le_read32 (the (Some b)) 8"
    "take (64 - 1) (the (Some (a @ x))) = take (64 - 1) (the (Some a))"
    "take (64 - 1) (the (Some (b @ y))) = take (64 - 1) (the (Some b))"
    using assms by (simp_all add: classify_prefix le_read32_prefix)
  show ?thesis unfolding ab_slot_select_def r ..
qed

lemma select_buffers:
  assumes "take 64 p = a" "take 64 q = b" "length p = 96" "length q = 96"
  shows "ab_slot_select (Some p) 64 (Some q) 64 ty sc pl = ab_slot_select (Some a) 64 (Some b) 64 ty sc pl"
proof -
  have "p = a @ drop 64 p" "q = b @ drop 64 q" "length a = 64" "length b = 64"
    using assms by (auto simp flip: assms(1,2))
  then show ?thesis using select_prefix [of a b "drop 64 p" "drop 64 q" ty sc pl] by simp
qed

section \<open>Memory outside and inside the target slot\<close>

abbreviation slot_base :: "u8 \<Rightarrow> nat" where
  "slot_base t \<equiv> slot_addr_for t PERSIST_RECORD_VOLUME"

lemma slot_base_simps [simp]: "slot_base 0 = 0x140" "slot_base 1 = 0x180"
  by (simp_all add: slot_addr_for_def)

lemma slot_base_bound: "slot_base t + 64 \<le> NV_SIZE"
  by (simp add: slot_addr_for_def)

definition target_of :: "nv_array \<Rightarrow> u8" where
  "target_of m = ab_slot_choose_target (Some (select_volume (slot_at m 0) (slot_at m 1)))"

definition elsewhere :: "u8 \<Rightarrow> nv_array \<Rightarrow> nv_array \<Rightarrow> bool" where
  "elsewhere t m0 m \<longleftrightarrow> (\<forall>i<NV_SIZE. i < slot_base t \<or> slot_base t + 64 \<le> i \<longrightarrow> m ! i = m0 ! i)"

definition torn :: "nv_array \<Rightarrow> nat \<Rightarrow> bytes \<Rightarrow> nv_array \<Rightarrow> bool" where
  "torn m a bs m' \<longleftrightarrow> length m' = length m \<and>
     (\<forall>i<length m. m' ! i = m ! i \<or> a \<le> i \<and> i < a + length bs \<and> m' ! i = bs ! (i - a))"

lemma slot_at_nth: "length m = NV_SIZE \<Longrightarrow> j < 64 \<Longrightarrow> slot_at m t ! j = m ! (slot_base t + j)"
  using slot_base_bound [of t] by (simp add: slot_at_def nv_load_def)

lemma length_slot_at [simp]: "length m = NV_SIZE \<Longrightarrow> length (slot_at m t) = 64"
  using slot_base_bound [of t] by (simp add: slot_at_def nv_load_def)

lemma nv_load_all: "length m = NV_SIZE \<Longrightarrow> nv_load m 0 NV_SIZE = m"
  by (simp add: nv_load_def)

lemma torn_refl [simp]: "torn m a bs m"
  by (simp add: torn_def)

lemma torn_trans: "torn m a bs m' \<Longrightarrow> torn m' a bs m'' \<Longrightarrow> torn m a bs m''"
  unfolding torn_def by metis

lemma torn_torn_store:
  assumes "length m = NV_SIZE" "a + length bs \<le> NV_SIZE"
  shows "torn m a bs (torn_store sel m a bs)"
proof -
  have ok: "nv_ok m" using assms(1) by (simp add: nv_ok_def)
  let ?x = "torn_bytes sel bs (nv_load m a (length bs))"
  have len: "length ?x = length bs" by (simp add: torn_bytes_def)
  have ok': "nv_ok (nv_store m a ?x)" using nv.store_ok [OF ok, of a ?x] assms(2) len by simp
  have nth: "nv_store m a ?x ! i = (if a \<le> i \<and> i < a + length bs then ?x ! (i - a) else m ! i)" if "i < NV_SIZE" for i
    using nv.load_store_nth [OF ok, of 0 a ?x NV_SIZE i] nv_load_all [OF assms(1)] nv_load_all [of "nv_store m a ?x"]
      ok' assms that len by (simp add: nv_ok_def)
  have x: "?x ! k = (if sel k then bs ! k else m ! (a + k))" if "k < length bs" for k
    using that assms by (simp add: torn_bytes_def nv_load_def)
  show ?thesis
    unfolding torn_def torn_store_def using ok' assms(1) nth x by (auto simp: nv_ok_def)
qed

lemma torn_keeps: "torn m a bs m' \<Longrightarrow> i < length m \<Longrightarrow> i < a \<or> a + length bs \<le> i \<Longrightarrow> m' ! i = m ! i"
  unfolding torn_def by force

lemma torn_elsewhere:
  assumes "torn m a bs m'" "elsewhere t m0 m" "length m = NV_SIZE" "slot_base t \<le> a" "a + length bs \<le> slot_base t + 64"
  shows "elsewhere t m0 m'"
  unfolding elsewhere_def
proof (intro allI impI)
  fix i assume i: "i < NV_SIZE" "i < slot_base t \<or> slot_base t + 64 \<le> i"
  then have "m' ! i = m ! i" using assms by (intro torn_keeps [OF assms(1)]) auto
  then show "m' ! i = m0 ! i" using assms(2) i unfolding elsewhere_def by metis
qed

lemma torn_length: "torn m a bs m' \<Longrightarrow> length m' = length m"
  by (simp add: torn_def)

lemma torn_slot:
  assumes "torn m a bs m'" "length m = NV_SIZE" "j < 64" "slot_base t + j < a \<or> a + length bs \<le> slot_base t + j"
  shows "slot_at m' t ! j = slot_at m t ! j"
proof -
  have "slot_base t + j < length m" using slot_base_bound [of t] assms by linarith
  then show ?thesis using torn_keeps [OF assms(1) _ assms(4)] torn_length [OF assms(1)] assms by (simp add: slot_at_nth)
qed

lemma slot_at_eqI:
  "length m = NV_SIZE \<Longrightarrow> length m' = NV_SIZE \<Longrightarrow> (\<And>j. j < 64 \<Longrightarrow> slot_at m t ! j = slot_at m' t ! j) \<Longrightarrow>
   slot_at m t = slot_at m' t"
  by (rule nth_equalityI) simp_all

section \<open>What holds before each state\<close>

definition is_image :: "bytes \<Rightarrow> bool" where
  "is_image img \<longleftrightarrow> length img = 64 \<and> img ! 5 = VOLUME_PAYLOAD_V1_SCHEMA \<and> le_read16 img 6 = VOLUME_PAYLOAD_V1_SIZE"

definition committed :: "bytes \<Rightarrow> bytes" where
  "committed img = img[63 := PERSIST_COMMIT_VALID]"

definition carries :: "bytes \<Rightarrow> storage_service_context \<Rightarrow> bool" where
  "carries img c \<longleftrightarrow> sc_record_type c = PERSIST_RECORD_VOLUME \<and> sc_slot_size c = 64 \<and>
     sc_slot_buffer c = img @ replicate 32 0 \<and> length (sc_scan_a c) = 96 \<and> length (sc_scan_b c) = 96 \<and>
     length (sc_readback c) = 96"

text \<open>The target slot is fixed and nothing else has changed; its record is spoiled.\<close>

definition aimed :: "nv_array \<Rightarrow> storage_service_context \<Rightarrow> nv_array \<Rightarrow> bool" where
  "aimed m0 c m \<longleftrightarrow> target_of m0 \<in> {0, 1} \<and> sc_target_slot c = target_of m0 \<and>
     sc_target_address c = slot_base (target_of m0) \<and> elsewhere (target_of m0) m0 m"

abbreviation target_image :: "nv_array \<Rightarrow> nv_array \<Rightarrow> bytes" where
  "target_image m0 m \<equiv> slot_at m (target_of m0)"

definition spoiled :: "nv_array \<Rightarrow> nv_array \<Rightarrow> bool" where
  "spoiled m0 m \<longleftrightarrow> target_image m0 m ! 63 \<noteq> PERSIST_COMMIT_VALID"

definition safe :: "bytes \<Rightarrow> nv_array \<Rightarrow> nv_array \<Rightarrow> bool" where
  "safe img m0 m \<longleftrightarrow> m = m0 \<or>
     target_of m0 \<in> {0, 1} \<and> elsewhere (target_of m0) m0 m \<and>
       (target_image m0 m = target_image m0 m0 \<or> spoiled m0 m \<or> target_image m0 m = committed img)"

fun holds :: "bytes \<Rightarrow> nv_array \<Rightarrow> storage_service_state \<Rightarrow> storage_service_context \<Rightarrow> nv_array \<Rightarrow> bool" where
  "holds img m0 STORAGE_STATE_SCAN_A c m = (m = m0)"
| "holds img m0 STORAGE_STATE_SCAN_B c m = (m = m0 \<and> take 64 (sc_scan_a c) = slot_at m0 0)"
| "holds img m0 STORAGE_STATE_PREPARE_TARGET c m =
     (m = m0 \<and> take 64 (sc_scan_a c) = slot_at m0 0 \<and> take 64 (sc_scan_b c) = slot_at m0 1)"
| "holds img m0 STORAGE_STATE_INVALIDATE c m = (m = m0 \<and> aimed m0 c m)"
| "holds img m0 STORAGE_STATE_VERIFY_INVALIDATE c m =
     (aimed m0 c m \<and> (target_image m0 m = target_image m0 m0 \<or> spoiled m0 m))"
| "holds img m0 STORAGE_STATE_CHECK_INVALIDATE c m =
     (aimed m0 c m \<and> (target_image m0 m = target_image m0 m0 \<or> spoiled m0 m) \<and> sc_io_byte c = target_image m0 m ! 63)"
| "holds img m0 STORAGE_STATE_WRITE_BODY c m = (aimed m0 c m \<and> spoiled m0 m \<and> sc_write_offset c \<le> 63)"
| "holds img m0 STORAGE_STATE_READBACK_BODY c m =
     (aimed m0 c m \<and> spoiled m0 m \<and> sc_write_offset c \<le> 63 \<and>
      take (sc_write_offset c) (sc_readback c) = take (sc_write_offset c) (target_image m0 m))"
| "holds img m0 STORAGE_STATE_VERIFY_BODY c m =
     (aimed m0 c m \<and> spoiled m0 m \<and> take 63 (sc_readback c) = take 63 (target_image m0 m))"
| "holds img m0 STORAGE_STATE_COMMIT c m =
     (aimed m0 c m \<and> spoiled m0 m \<and> take 63 (target_image m0 m) = take 63 img)"
| "holds img m0 STORAGE_STATE_VERIFY_COMMIT c m = (aimed m0 c m \<and> take 63 (target_image m0 m) = take 63 img)"
| "holds img m0 STORAGE_STATE_CHECK_COMMIT c m =
     (aimed m0 c m \<and> take 63 (target_image m0 m) = take 63 img \<and> sc_io_byte c = target_image m0 m ! 63)"
| "holds img m0 STORAGE_STATE_COMPLETE c m = (aimed m0 c m \<and> target_image m0 m = committed img)"
| "holds img m0 STORAGE_STATE_FAILED c m = safe img m0 m"
| "holds img m0 _ c m = False"

lemma last_byte: "length xs = 64 \<Longrightarrow> length ys = 64 \<Longrightarrow> take 63 xs = take 63 ys \<Longrightarrow> xs ! 63 = b \<Longrightarrow> xs = ys[63 := b]"
  by (rule nth_equalityI) (auto simp: nth_list_update not_less list_eq_iff_nth_eq dest: less_antisym [of _ 63, simplified])

lemma whole_image:
  "is_image img \<Longrightarrow> length m = NV_SIZE \<Longrightarrow> take 63 (slot_at m t) = take 63 img \<Longrightarrow>
   slot_at m t ! 63 = PERSIST_COMMIT_VALID \<Longrightarrow> slot_at m t = committed img"
  unfolding committed_def by (rule last_byte) (simp_all add: is_image_def)

lemma holds_safe: "holds img m0 st c m \<Longrightarrow> is_image img \<Longrightarrow> length m = NV_SIZE \<Longrightarrow> safe img m0 m"
  by (cases st) (auto simp: safe_def aimed_def spoiled_def intro: whole_image)

text \<open>The device operations outside the service's buffers and the bookkeeping of the request.\<close>

definition same_data :: "storage_service_context \<Rightarrow> storage_service_context \<Rightarrow> bool" where
  "same_data c d \<longleftrightarrow> sc_scan_a c = sc_scan_a d \<and> sc_scan_b c = sc_scan_b d \<and> sc_readback c = sc_readback d \<and>
     sc_io_byte c = sc_io_byte d \<and> sc_target_slot c = sc_target_slot d \<and> sc_target_address c = sc_target_address d \<and>
     sc_slot_buffer c = sc_slot_buffer d \<and> sc_record_type c = sc_record_type d \<and> sc_slot_size c = sc_slot_size d"

lemma holds_same: "same_data c d \<Longrightarrow> sc_write_offset c = sc_write_offset d \<Longrightarrow> holds img m0 st c m = holds img m0 st d m"
  by (cases st) (simp_all add: same_data_def aimed_def)

lemma carries_same: "same_data c d \<Longrightarrow> carries img c = carries img d"
  by (simp add: same_data_def carries_def)

definition post :: "bytes \<Rightarrow> nv_array \<Rightarrow> storage_service_context \<Rightarrow> nv_array \<Rightarrow> bool" where
  "post img m0 c m \<longleftrightarrow>
     holds img m0 (sc_io_success_state c) (c\<lparr>sc_write_offset := sc_write_offset c + sc_io_advance_bytes c\<rparr>) m"

fun dest_fits :: "io_dest \<Rightarrow> nat \<Rightarrow> bool" where
  "dest_fits Into_scan_a n = (n \<le> 96)"
| "dest_fits Into_scan_b n = (n \<le> 96)"
| "dest_fits (Into_readback i) n = (i + n \<le> 96)"
| "dest_fits Into_io_byte n = (n = 1)"

fun flight :: "bytes \<Rightarrow> nv_array \<Rightarrow> storage_service_context \<Rightarrow> nv_array \<Rightarrow> io_request \<Rightarrow> bool" where
  "flight img m0 c m (Io_write a bs t d) =
     (a + length bs \<le> NV_SIZE \<and> (\<forall>m'. torn m a bs m' \<longrightarrow> safe img m0 m' \<and> post img m0 c m'))"
| "flight img m0 c m (Io_read a dest n t d) = (a + n \<le> NV_SIZE \<and> dest_fits dest n \<and> post img m0 (fill_dest dest (nv_load m a n) c) m)"

definition settled :: "bytes \<Rightarrow> nv_array \<Rightarrow> storage_service \<Rightarrow> nv_array \<Rightarrow> bool" where
  "settled img m0 s m \<longleftrightarrow> holds img m0 (sc_state (ss_context s)) (ss_context s) m \<and>
     (ss_completion_ready s \<longleftrightarrow> is_terminal (sc_state (ss_context s))) \<and>
     (ss_completion_ready s \<longrightarrow> (cp_status (ss_last_completion s) = STORAGE_COMMIT_OK \<longleftrightarrow>
        sc_state (ss_context s) = STORAGE_STATE_COMPLETE))"

definition waiting :: "bytes \<Rightarrow> nv_array \<Rightarrow> storage_service \<Rightarrow> nv_array \<Rightarrow> io_request option \<Rightarrow> bool" where
  "waiting img m0 s m f \<longleftrightarrow> (let c = ss_context s in
     safe img m0 m \<and> \<not> is_terminal (sc_state c) \<and> \<not> is_restore_state (sc_state c) \<and>
     \<not> is_terminal (sc_io_success_state c) \<and> \<not> ss_completion_ready s \<and>
     tk_owner_generation (sc_io_token c) = ss_generation s \<and>
     (case f of None \<Rightarrow> sc_io_completed c \<longrightarrow> completion_good (sc_io_completion c) \<longrightarrow> post img m0 c m
      | Some req \<Rightarrow> \<not> sc_io_completed c \<and> flight img m0 c m req))"

fun nv_inv :: "bytes \<Rightarrow> nv_array \<Rightarrow> nv_state \<Rightarrow> bool" where
  "nv_inv img m0 (s, m, f) \<longleftrightarrow> is_image img \<and> length m = NV_SIZE \<and> carries img (ss_context s) \<and>
     (if sc_io_pending (ss_context s) then waiting img m0 s m f else f = None \<and> settled img m0 s m)"

section \<open>Every step preserves the invariant\<close>

lemma post_same: "same_data c d \<Longrightarrow> sc_write_offset c = sc_write_offset d \<Longrightarrow> sc_io_success_state c = sc_io_success_state d \<Longrightarrow>
  sc_io_advance_bytes c = sc_io_advance_bytes d \<Longrightarrow> post img m0 c m = post img m0 d m"
  unfolding post_def by (simp, rule holds_same) (simp_all add: same_data_def)

lemma fill_dest_frame [simp]:
  "sc_state (fill_dest dest xs c) = sc_state c" "sc_io_pending (fill_dest dest xs c) = sc_io_pending c"
  "sc_io_completed (fill_dest dest xs c) = sc_io_completed c" "sc_io_token (fill_dest dest xs c) = sc_io_token c"
  "sc_io_success_state (fill_dest dest xs c) = sc_io_success_state c"
  "sc_io_advance_bytes (fill_dest dest xs c) = sc_io_advance_bytes c"
  "sc_write_offset (fill_dest dest xs c) = sc_write_offset c"
  by (cases dest; simp)+

lemma fill_dest_carries: "carries img c \<Longrightarrow> dest_fits dest (length xs) \<Longrightarrow> carries img (fill_dest dest xs c)"
  by (cases dest) (auto simp: carries_def)

lemma fill_dest_same: "same_data c d \<Longrightarrow> same_data (fill_dest dest xs c) (fill_dest dest xs d)"
  by (cases dest) (simp_all add: same_data_def)

lemma flight_same:
  assumes "same_data c d" "sc_write_offset c = sc_write_offset d" "sc_io_success_state c = sc_io_success_state d"
    "sc_io_advance_bytes c = sc_io_advance_bytes d"
  shows "flight img m0 c m req = flight img m0 d m req"
proof -
  have "post img m0 c m' = post img m0 d m'" for m' using assms by (rule post_same)
  moreover have "post img m0 (fill_dest dest xs c) m' = post img m0 (fill_dest dest xs d) m'" for dest xs m'
    using assms by (intro post_same fill_dest_same) simp_all
  ultimately show ?thesis by (cases req) simp_all
qed

lemma completion_inv:
  assumes "is_image img" "length m = NV_SIZE" "carries img (ss_context s)" "safe img m0 m"
    and "sc_io_pending (ss_context s)" "\<not> sc_io_completed (ss_context s)" "\<not> is_terminal (sc_state (ss_context s))"
    "\<not> is_restore_state (sc_state (ss_context s))" "\<not> is_terminal (sc_io_success_state (ss_context s))"
    "\<not> ss_completion_ready s" "tk_owner_generation (sc_io_token (ss_context s)) = ss_generation s"
    and "completion_good k \<Longrightarrow> post img m0 (ss_context s) m"
  shows "nv_inv img m0 (StorageService_OnIoCompletion k s, m, None)"
proof -
  let ?c = "ss_context s"
  let ?d = "?c\<lparr>sc_io_completion := k, sc_io_completed := True\<rparr>"
  have "carries img ?d" using carries_same [of ?d ?c img] assms(3) by (simp add: same_data_def)
  moreover have "completion_good k \<Longrightarrow> post img m0 ?d m" using post_same [of ?d ?c img m0 m] assms(12) by (simp add: same_data_def)
  ultimately show ?thesis using assms by (simp add: StorageService_OnIoCompletion_def Let_def waiting_def)
qed

lemma stale_rejected:
  "ic_token k \<noteq> sc_io_token (ss_context s) \<Longrightarrow> tk_owner_generation (sc_io_token (ss_context s)) = ss_generation s \<Longrightarrow>
   StorageService_OnIoCompletion k s = s\<lparr>ss_stale_completion_count := ss_stale_completion_count s + 1\<rparr>"
  by (cases "ic_token k"; cases "sc_io_token (ss_context s)") (auto simp: StorageService_OnIoCompletion_def Let_def)

lemma not_pending_rejected:
  "\<not> sc_io_pending (ss_context s) \<Longrightarrow>
   StorageService_OnIoCompletion k s = s\<lparr>ss_stale_completion_count := ss_stale_completion_count s + 1\<rparr>"
  by (simp add: StorageService_OnIoCompletion_def Let_def)

lemma inv_stale_count: "nv_inv img m0 (s\<lparr>ss_stale_completion_count := n\<rparr>, m, f) = nv_inv img m0 (s, m, f)"
  by (cases f) (simp_all add: waiting_def settled_def Let_def)

lemma stale_inv:
  assumes "nv_inv img m0 (s, m, f)" "ic_token k \<noteq> sc_io_token (ss_context s)"
  shows "nv_inv img m0 (StorageService_OnIoCompletion k s, m, f)"
proof (cases "sc_io_pending (ss_context s)")
  case True
  with assms(1) have "tk_owner_generation (sc_io_token (ss_context s)) = ss_generation s" by (simp add: waiting_def Let_def)
  then have "StorageService_OnIoCompletion k s = s\<lparr>ss_stale_completion_count := ss_stale_completion_count s + 1\<rparr>"
    using assms(2) by (intro stale_rejected)
  then show ?thesis using assms(1) by (simp only: inv_stale_count)
next
  case False
  then show ?thesis using assms(1) by (simp only: not_pending_rejected [OF False] inv_stale_count)
qed

lemma deliver_frame [simp]: "ss_context (deliver dest xs s) = fill_dest dest xs (ss_context s)"
  "ss_generation (deliver dest xs s) = ss_generation s" "ss_completion_ready (deliver dest xs s) = ss_completion_ready s"
  by (simp_all add: deliver_def)

lemma flight_pending: "nv_inv img m0 (s, m, Some req) \<Longrightarrow> sc_io_pending (ss_context s)"
  by (simp split: if_splits)

lemma write_done_inv:
  assumes "nv_inv img m0 (s, m, Some (Io_write a bs t d))"
  shows "nv_inv img m0 (StorageService_OnIoCompletion k s, m, None)"
  using assms flight_pending [OF assms] by (intro completion_inv) (auto simp: waiting_def Let_def)

lemma read_ok_inv:
  assumes "nv_inv img m0 (s, m, Some (Io_read a dest n t d))"
  shows "nv_inv img m0 (StorageService_OnIoCompletion k (deliver dest (nv_load m a n) s), m, None)"
  using assms flight_pending [OF assms] fill_dest_carries [of img "ss_context s" dest "nv_load m a n"]
    nv.load_length [of m a n]
  by (intro completion_inv) (auto simp: waiting_def Let_def nv_ok_def)

lemma read_fails_inv:
  assumes "nv_inv img m0 (s, m, Some (Io_read a dest n t d))" "length xs = n" "\<not> completion_good k"
  shows "nv_inv img m0 (StorageService_OnIoCompletion k (deliver dest xs s), m, None)"
  using assms flight_pending [OF assms(1)] fill_dest_carries [of img "ss_context s" dest xs]
  by (intro completion_inv) (auto simp: waiting_def Let_def)

lemma tear_inv:
  assumes "nv_inv img m0 (s, m, Some (Io_write a bs t d))"
  shows "nv_inv img m0 (s, torn_store sel m a bs, Some (Io_write a bs t d))"
proof -
  have fit: "length m = NV_SIZE" "a + length bs \<le> NV_SIZE" using assms flight_pending [OF assms] by (simp_all add: waiting_def Let_def)
  have t: "torn m a bs (torn_store sel m a bs)" by (rule torn_torn_store [OF fit])
  then show ?thesis using assms flight_pending [OF assms] torn_length [OF t] torn_trans [OF t]
    by (auto simp: waiting_def Let_def)
qed

lemma queue_inv:
  assumes "nv_inv img m0 (s, m, f)" "\<not> is_terminal (sc_state (ss_context s))"
  shows "nv_inv img m0 (snd (StorageService_SubmitCheckpoint ty sq enc len ver s), m, f)"
proof -
  let ?c = "ss_context s"
  let ?d = "?c\<lparr>sc_pending := True, sc_pending_type := ty, sc_pending_sequence := sq, sc_pending_version := ver,
    sc_pending_length := len, sc_pending_buffer := slot_of enc len\<rparr>"
  have sd: "same_data ?d ?c" by (simp add: same_data_def)
  have h: "holds img m0 st ?d m = holds img m0 st ?c m" "carries img ?d = carries img ?c"
    "post img m0 ?d m' = post img m0 ?c m'" for st m'
    using holds_same [OF sd] carries_same [OF sd] post_same [OF sd] by simp_all
  have fl: "flight img m0 ?d m req = flight img m0 ?c m req" for req
    using sd by (rule flight_same) simp_all
  show ?thesis using assms
    by (auto simp: StorageService_SubmitCheckpoint_def Let_def waiting_def settled_def h fl split: option.splits)
qed

lemma failed_inv:
  assumes "is_image img" "length m = NV_SIZE" "carries img (ss_context s)" "safe img m0 m" "\<not> sc_io_pending (ss_context s)"
    "status \<noteq> STORAGE_COMMIT_OK"
  shows "nv_inv img m0 (finish_commit status s, m, None)"
  using assms by (simp add: finish_commit_def settled_def carries_def Let_def)

lemma fail_io_inv:
  assumes "is_image img" "length m = NV_SIZE" "carries img (ss_context s)" "safe img m0 m" "\<not> sc_io_pending (ss_context s)"
    "\<not> is_restore_state (sc_state (ss_context s))"
  shows "nv_inv img m0 (fail_io r s, m, None)"
  unfolding fail_io_def using assms by (simp only: if_False) (rule failed_inv; simp)

lemma consume_inv:
  assumes "nv_inv img m0 (s, m, f)" "sc_io_pending (ss_context s)"
  shows "nv_inv img m0 (snd (consume_io_completion s), m, f)"
proof (cases "sc_io_completed (ss_context s)")
  case False
  then show ?thesis using assms(1) by (simp add: consume_io_completion_def Let_def)
next
  case True
  let ?c = "ss_context s" and ?k = "sc_io_completion (ss_context s)"
  let ?s = "s\<lparr>ss_context := ?c\<lparr>sc_io_pending := False, sc_io_completed := False\<rparr>\<rparr>"
  have i: "is_image img" "length m = NV_SIZE" "carries img ?c" "waiting img m0 s m f" using assms by simp_all
  have f: "f = None" using True i(4) by (auto simp: waiting_def Let_def split: option.splits)
  have w: "safe img m0 m" "\<not> is_restore_state (sc_state ?c)" "\<not> is_terminal (sc_io_success_state ?c)" "\<not> ss_completion_ready s"
    "completion_good ?k \<Longrightarrow> post img m0 ?c m" using i(4) True f by (simp_all add: waiting_def Let_def)
  show ?thesis
  proof (cases "completion_good ?k")
    case False
    have "nv_inv img m0 (fail_io r ?s, m, None)" for r
      using i w by (intro fail_io_inv) (simp_all add: carries_def)
    then show ?thesis using False True assms(2) f
      by (simp add: consume_io_completion_def completion_good_def Let_def)
  next
    case True
    let ?d = "?c\<lparr>sc_io_pending := False, sc_io_completed := False, sc_write_offset := sc_write_offset ?c + sc_io_advance_bytes ?c,
      sc_state := sc_io_success_state ?c\<rparr>"
    have h: "holds img m0 (sc_io_success_state ?c) ?d m"
      using w(5) [OF True] holds_same [of ?d "?c\<lparr>sc_write_offset := sc_write_offset ?c + sc_io_advance_bytes ?c\<rparr>" img m0 _ m]
      by (simp add: post_def same_data_def)
    have "carries img ?d" using i(3) by (simp add: carries_def)
    then show ?thesis using True \<open>sc_io_completed ?c\<close> assms(2) f i w h
      by (simp add: consume_io_completion_def completion_good_def Let_def settled_def)
  qed
qed

lemma next_token_frame:
  "ss_context (snd (next_token s)) = ss_context s" "ss_generation (snd (next_token s)) = ss_generation s"
  "ss_completion_ready (snd (next_token s)) = ss_completion_ready s"
  "tk_owner_generation (fst (next_token s)) = ss_generation s"
  by (simp_all add: next_token_def Let_def)

lemma submit_inv:
  assumes "is_image img" "length m = NV_SIZE" "carries img (ss_context s)" "safe img m0 m" "\<not> sc_io_pending (ss_context s)"
    "\<not> is_terminal (sc_state (ss_context s))" "\<not> is_restore_state (sc_state (ss_context s))" "\<not> is_terminal st"
    "\<not> ss_completion_ready s"
    and fl: "\<And>tok d. flight img m0 ((ss_context s)\<lparr>sc_io_success_state := st, sc_io_advance_bytes := adv\<rparr>) m (r tok d)"
  shows "nv_inv img m0 (fst (or_fail (submit_io r st adv now answer s)), m, snd (or_fail (submit_io r st adv now answer s)))"
proof -
  obtain tok s1 where n: "next_token s = (tok, s1)" by (cases "next_token s")
  have fr: "ss_context s1 = ss_context s" "ss_generation s1 = ss_generation s" "ss_completion_ready s1 = ss_completion_ready s"
    "tk_owner_generation tok = ss_generation s" using next_token_frame [of s] n by simp_all
  let ?c = "(ss_context s)\<lparr>sc_io_token := tok, sc_io_pending := True, sc_io_completed := False,
     sc_io_success_state := st, sc_io_advance_bytes := adv\<rparr>"
  consider (late) "UINT64_MAX - now < ucast (ss_io_timeout_us s)"
    | (refused) "\<not> UINT64_MAX - now < ucast (ss_io_timeout_us s)" "answer \<noteq> STORAGE_IO_SUBMIT_ACCEPTED"
    | (sent) "\<not> UINT64_MAX - now < ucast (ss_io_timeout_us s)" "answer = STORAGE_IO_SUBMIT_ACCEPTED" by blast
  then show ?thesis
  proof cases
    case late
    then show ?thesis using fail_io_inv [OF assms(1-5) assms(7)] by (simp add: submit_io_def or_fail_def)
  next
    case refused
    have "nv_inv img m0 (fail_io STORAGE_IO_RESULT_BUS_ERROR (s1\<lparr>ss_context := ?c\<lparr>sc_io_pending := False, sc_io_completed := False\<rparr>\<rparr>), m, None)"
      using assms by (intro fail_io_inv) (simp_all add: carries_def)
    then show ?thesis using refused n fr by (simp add: submit_io_def or_fail_def Let_def)
  next
    case sent
    have "flight img m0 ?c m (r tok d)" for d
      using fl [of tok d] by (rule iffD1 [OF flight_same, rotated -1]) (simp_all add: same_data_def)
    moreover have "carries img ?c" using assms(3) by (simp add: carries_def)
    ultimately show ?thesis using sent n fr assms(1-9) by (simp add: submit_io_def or_fail_def Let_def waiting_def)
  qed
qed

section \<open>The states\<close>

lemma slot_part: "length m = NV_SIZE \<Longrightarrow> off + n \<le> 64 \<Longrightarrow> nv_load m (slot_base t + off) n = take n (drop off (slot_at m t))"
  using slot_base_bound [of t] by (simp add: slot_at_def nv_load_def drop_take add.commute)

lemma aimed_torn:
  assumes "aimed m0 c m" "torn m a bs m'" "length m = NV_SIZE" "slot_base (target_of m0) \<le> a"
    "a + length bs \<le> slot_base (target_of m0) + 64"
  shows "aimed m0 c m'"
  using assms torn_elsewhere [OF assms(2) _ assms(3-5)] by (simp add: aimed_def)

lemma spoiled_torn:
  assumes "spoiled m0 m" "torn m a bs m'" "length m = NV_SIZE" "a + length bs \<le> slot_base (target_of m0) + 63"
  shows "spoiled m0 m'"
  using assms torn_slot [OF assms(2,3), of 63 "target_of m0"] by (simp add: spoiled_def)

lemma torn_commit:
  assumes "torn m (slot_base t + 63) [b] m'" "length m = NV_SIZE"
  shows "take 63 (slot_at m' t) = take 63 (slot_at m t)" "slot_at m' t = slot_at m t \<or> slot_at m' t ! 63 = b"
proof -
  have len: "length m' = NV_SIZE" using torn_length [OF assms(1)] assms(2) by simp
  have body: "slot_at m' t ! j = slot_at m t ! j" if "j < 63" for j using torn_slot [OF assms, of j] that by simp
  show "take 63 (slot_at m' t) = take 63 (slot_at m t)"
    using body len assms(2) by (intro nth_equalityI) simp_all
  have i: "slot_base t + 63 < length m" using slot_base_bound [of t] assms(2) by linarith
  then have "m' ! (slot_base t + 63) = m ! (slot_base t + 63) \<or> m' ! (slot_base t + 63) = b"
    using assms(1) unfolding torn_def by fastforce
  then show "slot_at m' t = slot_at m t \<or> slot_at m' t ! 63 = b"
  proof
    assume "m' ! (slot_base t + 63) = m ! (slot_base t + 63)"
    then have "slot_at m' t ! j = slot_at m t ! j" if "j < 64" for j
      using body that len assms(2) by (cases "j = 63") (simp_all add: slot_at_nth)
    then show ?thesis using len assms(2) by (intro disjI1 slot_at_eqI) simp_all
  next
    assume "m' ! (slot_base t + 63) = b"
    then show ?thesis using len by (simp add: slot_at_nth)
  qed
qed

lemma aimed_frame [simp]:
  "aimed m0 (c\<lparr>sc_io_byte := x\<rparr>) m = aimed m0 c m" "aimed m0 (c\<lparr>sc_write_offset := y\<rparr>) m = aimed m0 c m"
  "aimed m0 (c\<lparr>sc_readback := z\<rparr>) m = aimed m0 c m" "aimed m0 (c\<lparr>sc_state := st\<rparr>) m = aimed m0 c m"
  "aimed m0 (c\<lparr>sc_io_success_state := st\<rparr>) m = aimed m0 c m" "aimed m0 (c\<lparr>sc_io_advance_bytes := n\<rparr>) m = aimed m0 c m"
  by (simp_all add: aimed_def)

lemma aimed_commit_address: "carries img c \<Longrightarrow> aimed m0 c m \<Longrightarrow> commit_address c = slot_base (target_of m0) + 63"
  by (simp add: commit_address_def carries_def aimed_def)

text \<open>The requests of the states, as \<open>submit_inv\<close> wants them.\<close>

lemma flight_scan_a:
  assumes "m = m0" "length m = NV_SIZE" "carries img c"
  shows "flight img m0 (c\<lparr>sc_io_success_state := STORAGE_STATE_SCAN_B, sc_io_advance_bytes := 0\<rparr>) m
    (Io_read (slot_addr_for 0 (sc_record_type c)) Into_scan_a (sc_slot_size c) tok d)"
  using assms length_slot_at [of m 0] by (simp add: post_def carries_def put_block_def slot_at_def)

lemma flight_scan_b:
  assumes "m = m0" "take 64 (sc_scan_a c) = slot_at m0 0" "length m = NV_SIZE" "carries img c"
  shows "flight img m0 (c\<lparr>sc_io_success_state := STORAGE_STATE_PREPARE_TARGET, sc_io_advance_bytes := 0\<rparr>) m
    (Io_read (slot_addr_for 1 (sc_record_type c)) Into_scan_b (sc_slot_size c) tok d)"
  using assms length_slot_at [of m 1] by (simp add: post_def carries_def put_block_def slot_at_def)

lemma flight_invalidate:
  assumes "m = m0" "aimed m0 c m" "length m = NV_SIZE" "carries img c"
  shows "flight img m0 (c\<lparr>sc_io_byte := x, sc_io_success_state := STORAGE_STATE_VERIFY_INVALIDATE, sc_io_advance_bytes := 0\<rparr>) m
    (Io_write (commit_address c) [PERSIST_COMMIT_INVALID] tok d)"
proof -
  let ?t = "target_of m0"
  have "aimed m0 c m'" "target_image m0 m' = target_image m0 m0 \<or> spoiled m0 m'" "target_of m0 \<in> {0, 1} \<and> elsewhere ?t m0 m'"
    if "torn m (slot_base ?t + 63) [0] m'" for m'
  proof -
    show a: "aimed m0 c m'" using assms aimed_torn [OF assms(2) that assms(3)] by simp
    show "target_image m0 m' = target_image m0 m0 \<or> spoiled m0 m'"
      using torn_commit(2) [OF that assms(3)] assms(1) by (auto simp: spoiled_def)
    show "target_of m0 \<in> {0, 1} \<and> elsewhere ?t m0 m'" using a by (simp add: aimed_def)
  qed
  then show ?thesis
    using assms slot_base_bound [of ?t] aimed_commit_address [OF assms(4,2)] by (auto simp: post_def safe_def)
qed

lemma flight_commit:
  assumes "aimed m0 c m" "spoiled m0 m" "take 63 (target_image m0 m) = take 63 img" "length m = NV_SIZE" "carries img c" "is_image img"
  shows "flight img m0 (c\<lparr>sc_io_byte := x, sc_io_success_state := STORAGE_STATE_VERIFY_COMMIT, sc_io_advance_bytes := 0\<rparr>) m
    (Io_write (commit_address c) [PERSIST_COMMIT_VALID] tok d)"
proof -
  let ?t = "target_of m0"
  have h: "holds img m0 STORAGE_STATE_VERIFY_COMMIT c m'" "length m' = NV_SIZE" if "torn m (slot_base ?t + 63) [PERSIST_COMMIT_VALID] m'" for m'
    using assms aimed_torn [OF assms(1) that assms(4)] torn_commit(1) [OF that assms(4)] torn_length [OF that] by simp_all
  then have "post img m0 (c\<lparr>sc_io_byte := x, sc_io_success_state := STORAGE_STATE_VERIFY_COMMIT, sc_io_advance_bytes := 0\<rparr>) m' \<and> safe img m0 m'"
    if "torn m (slot_base ?t + 63) [PERSIST_COMMIT_VALID] m'" for m'
    using h [OF that] holds_safe [OF h(1) assms(6) h(2), OF that that] by (simp add: post_def)
  then show ?thesis
    using assms slot_base_bound [of ?t] aimed_commit_address [OF assms(5,1)] by simp
qed

lemma flight_read_commit:
  assumes "carries img c" "aimed m0 c m" "length m = NV_SIZE"
  and "\<And>x. x = target_image m0 m ! 63 \<Longrightarrow> holds img m0 st (c\<lparr>sc_io_byte := x\<rparr>) m"
  shows "flight img m0 (c\<lparr>sc_io_success_state := st, sc_io_advance_bytes := 0\<rparr>) m (Io_read (commit_address c) Into_io_byte 1 tok d)"
proof -
  let ?t = "target_of m0"
  have "nv_load m (slot_base ?t + 63) 1 ! 0 = slot_at m ?t ! 63"
    using slot_part [OF assms(3), of 63 1 ?t] assms(3) by simp
  then have h: "holds img m0 st (c\<lparr>sc_io_byte := nv_load m (slot_base ?t + 63) 1 ! 0\<rparr>) m" by (rule assms(4))
  have "post img m0 (fill_dest Into_io_byte (nv_load m (slot_base ?t + 63) 1) (c\<lparr>sc_io_success_state := st, sc_io_advance_bytes := 0\<rparr>)) m"
    using h by (simp add: post_def) (rule iffD1 [OF holds_same, rotated -1], assumption, simp_all add: same_data_def)
  then show ?thesis using slot_base_bound [of ?t] aimed_commit_address [OF assms(1,2)] by simp
qed

lemma chunk_bounds: "carries img c \<Longrightarrow> sc_write_offset c < 63 \<Longrightarrow> body_size c = 63 \<and> sc_write_offset c + chunk_size c \<le> 63"
  by (simp add: body_size_def chunk_size_def carries_def)

lemma flight_body:
  assumes "aimed m0 c m" "spoiled m0 m" "length m = NV_SIZE" "carries img c" "is_image img" "sc_write_offset c < 63"
  shows "flight img m0 (c\<lparr>sc_io_success_state := STORAGE_STATE_WRITE_BODY, sc_io_advance_bytes := chunk_size c\<rparr>) m
    (Io_write (sc_target_address c + sc_write_offset c) (take (chunk_size c) (drop (sc_write_offset c) (sc_slot_buffer c))) tok d)"
proof -
  let ?t = "target_of m0" and ?bs = "take (chunk_size c) (drop (sc_write_offset c) (sc_slot_buffer c))"
  have n: "sc_write_offset c + chunk_size c \<le> 63" using chunk_bounds [OF assms(4,6)] by simp
  have len: "length ?bs = chunk_size c" using n assms(4,5) by (simp add: carries_def is_image_def)
  have a: "sc_target_address c = slot_base ?t" using assms(1) by (simp add: aimed_def)
  have "aimed m0 c m'" "spoiled m0 m'" if "torn m (slot_base ?t + sc_write_offset c) ?bs m'" for m'
    using aimed_torn [OF assms(1) that assms(3)] spoiled_torn [OF assms(2) that assms(3)] n len by simp_all
  then show ?thesis using n len a slot_base_bound [of ?t] by (auto simp: post_def safe_def aimed_def)
qed

lemma flight_readback:
  assumes "holds img m0 STORAGE_STATE_READBACK_BODY c m" "length m = NV_SIZE" "carries img c" "sc_write_offset c < 63"
  shows "flight img m0 (c\<lparr>sc_io_success_state := STORAGE_STATE_READBACK_BODY, sc_io_advance_bytes := chunk_size c\<rparr>) m
    (Io_read (sc_target_address c + sc_write_offset c) (Into_readback (sc_write_offset c)) (chunk_size c) tok d)"
proof -
  let ?t = "target_of m0" and ?o = "sc_write_offset c" and ?n = "chunk_size c"
  have n: "?o + ?n \<le> 63" using chunk_bounds [OF assms(3,4)] by simp
  have a: "sc_target_address c = slot_base ?t" using assms(1) by (simp add: aimed_def)
  have x: "nv_load m (slot_base ?t + ?o) ?n = take ?n (drop ?o (slot_at m ?t))" using slot_part [OF assms(2)] n by simp
  have "length (take ?n (drop ?o (slot_at m ?t))) = ?n" using n assms(2) by simp
  then have "take (?o + ?n) (put_block ?o (nv_load m (slot_base ?t + ?o) ?n) (sc_readback c)) =
      take ?o (sc_readback c) @ take ?n (drop ?o (slot_at m ?t))"
    using n assms(3) by (simp add: x put_block_def carries_def)
  also have "\<dots> = take (?o + ?n) (slot_at m ?t)" using assms(1) by (simp add: take_add)
  finally show ?thesis using n a assms slot_base_bound [of ?t] by (simp add: post_def)
qed

lemma target_range: "ab_slot_choose_target (Some (select_volume a b)) = t \<Longrightarrow> t \<noteq> SLOT_INDEX_NONE \<Longrightarrow> t \<in> {0, 1}"
  by (auto simp: ab_slot_choose_target_def split: if_splits)

lemma image_reads: "is_image img \<Longrightarrow> (img @ xs) ! 5 = VOLUME_PAYLOAD_V1_SCHEMA \<and> le_read16 (img @ xs) 6 = VOLUME_PAYLOAD_V1_SIZE"
  by (simp add: is_image_def nth_append le_read16_prefix)

lemma choose_target_inv:
  assumes "is_image img" "length m = NV_SIZE" "carries img (ss_context s)" "\<not> sc_io_pending (ss_context s)" "\<not> ss_completion_ready s"
    and h: "holds img m0 STORAGE_STATE_PREPARE_TARGET (ss_context s) m"
  shows "nv_inv img m0 (choose_target s, m, None)"
proof -
  let ?c = "ss_context s" and ?t = "target_of m0"
  let ?sel = "ab_slot_select (Some (sc_scan_a ?c)) 64 (Some (sc_scan_b ?c)) 64 3
      (sc_slot_buffer ?c ! 5) (le_read16 (sc_slot_buffer ?c) 6)"
  have "?sel = select_volume (slot_at m0 0) (slot_at m0 1)"
    using assms image_reads [OF assms(1), of "replicate 32 0"] select_buffers [of "sc_scan_a ?c" _ "sc_scan_b ?c"]
    by (simp add: carries_def)
  then have t: "ab_slot_choose_target (Some ?sel) = ?t" by (simp add: target_of_def)
  show ?thesis
  proof (cases "?t = SLOT_INDEX_NONE")
    case True
    let ?s = "s\<lparr>ss_context := ?c\<lparr>sc_target_slot := ?t\<rparr>\<rparr>"
    have "nv_inv img m0 (finish_commit st ?s, m, None)" if "st \<noteq> STORAGE_COMMIT_OK" for st
      using assms that by (intro failed_inv) (simp_all add: carries_def safe_def)
    moreover have "sc_slot_size ?c = 64" "sc_record_type ?c = 3" using assms(3) by (simp_all add: carries_def)
    ultimately show ?thesis using True t by (simp add: choose_target_def Let_def del: nv_inv.simps)
  next
    case False
    have r: "?t = 0 \<or> ?t = 1" using target_range [of _ _ ?t] False by (auto simp: target_of_def)
    have "elsewhere ?t m0 m" using h by (simp add: elsewhere_def)
    then show ?thesis using False t r assms
      by (simp add: choose_target_def Let_def carries_def settled_def aimed_def)
  qed
qed

lemma body_eq:
  "length r = 96 \<Longrightarrow> length img = 64 \<Longrightarrow> length mt = 64 \<Longrightarrow> take 63 r = take 63 mt \<Longrightarrow>
   take 63 (img @ replicate 32 0) = take 63 r \<Longrightarrow> take 63 mt = take 63 img"
  by simp

lemma tick_state_inv:
  assumes "nv_inv img m0 (s, m, None)" "\<not> sc_io_pending (ss_context s)"
  shows "nv_inv img m0 (fst (tick_state now answer s), m, snd (tick_state now answer s))"
proof -
  let ?c = "ss_context s"
  have i: "is_image img" "length m = NV_SIZE" "carries img ?c" "settled img m0 s m" using assms by simp_all
  have h: "holds img m0 (sc_state ?c) ?c m" using i(4) by (simp only: settled_def)
  have sf: "safe img m0 m" by (rule holds_safe [OF h i(1,2)])
  have sub: "nv_inv img m0 (fst (or_fail (submit_io r st adv now answer (s\<lparr>ss_context := ?c\<lparr>sc_io_byte := x\<rparr>\<rparr>))), m,
      snd (or_fail (submit_io r st adv now answer (s\<lparr>ss_context := ?c\<lparr>sc_io_byte := x\<rparr>\<rparr>))))"
    if "\<not> is_terminal (sc_state ?c)" "\<not> is_restore_state (sc_state ?c)" "\<not> is_terminal st"
      "\<And>tok d. flight img m0 (?c\<lparr>sc_io_byte := x, sc_io_success_state := st, sc_io_advance_bytes := adv\<rparr>) m (r tok d)" for r st adv x
    using i sf assms(2) that by (intro submit_inv) (simp_all add: carries_def settled_def)
  have sub0: "nv_inv img m0 (fst (or_fail (submit_io r st adv now answer s)), m, snd (or_fail (submit_io r st adv now answer s)))"
    if "\<not> is_terminal (sc_state ?c)" "\<not> is_restore_state (sc_state ?c)" "\<not> is_terminal st"
      "\<And>tok d. flight img m0 (?c\<lparr>sc_io_success_state := st, sc_io_advance_bytes := adv\<rparr>) m (r tok d)" for r st adv
    using i sf assms(2) that by (intro submit_inv) (simp_all add: settled_def)
  have failed: "nv_inv img m0 (finish_commit st s, m, None)" if "st \<noteq> STORAGE_COMMIT_OK" for st
    using failed_inv [OF i(1-3) sf assms(2) that] .
  have moved: "nv_inv img m0 (s\<lparr>ss_context := ?c\<lparr>sc_write_offset := n, sc_state := st\<rparr>\<rparr>, m, None)"
    if "\<not> is_terminal (sc_state ?c)" "\<not> is_terminal st" "holds img m0 st (?c\<lparr>sc_write_offset := n, sc_state := st\<rparr>) m" for n st
    using that i assms(2) by (auto simp: settled_def carries_def)
  have stepped: "nv_inv img m0 (s\<lparr>ss_context := ?c\<lparr>sc_state := st\<rparr>\<rparr>, m, None)"
    if "\<not> is_terminal (sc_state ?c)" "\<not> is_terminal st" "holds img m0 st (?c\<lparr>sc_state := st\<rparr>) m" for st
    using that i assms(2) by (auto simp: settled_def carries_def)
  have b: "body_size ?c = 63" using i(3) by (simp add: body_size_def carries_def)
  show ?thesis
  proof (cases "sc_state ?c")
    case STORAGE_STATE_SCAN_A
    then show ?thesis unfolding tick_state_def Let_def using h i
      by (simp only: storage_service_state.case submit_read_def) (rule sub0; simp add: flight_scan_a del: flight.simps)
  next
    case STORAGE_STATE_SCAN_B
    then show ?thesis unfolding tick_state_def Let_def using h i
      by (simp only: storage_service_state.case submit_read_def) (rule sub0; simp add: flight_scan_b del: flight.simps)
  next
    case STORAGE_STATE_PREPARE_TARGET
    then show ?thesis using h i assms(2) choose_target_inv [of img m s m0]
      by (simp add: tick_state_def Let_def settled_def del: holds.simps nv_inv.simps)
  next
    case STORAGE_STATE_INVALIDATE
    then show ?thesis unfolding tick_state_def Let_def using h i
      by (simp only: storage_service_state.case submit_write_def) (rule sub; (rule flight_invalidate; auto | simp del: flight.simps))
  next
    case STORAGE_STATE_VERIFY_INVALIDATE
    then show ?thesis unfolding tick_state_def Let_def using h i
      by (simp only: storage_service_state.case submit_read_def) (rule sub0; (rule flight_read_commit; simp | simp del: flight.simps))
  next
    case STORAGE_STATE_CHECK_INVALIDATE
    moreover have "spoiled m0 m" if "sc_io_byte ?c \<noteq> PERSIST_COMMIT_VALID"
      using h that STORAGE_STATE_CHECK_INVALIDATE by (simp add: spoiled_def)
    ultimately show ?thesis using h failed moved [of STORAGE_STATE_WRITE_BODY 0]
      by (simp add: tick_state_def Let_def del: nv_inv.simps)
  next
    case STORAGE_STATE_WRITE_BODY
    show ?thesis
    proof (cases "sc_write_offset ?c < 63")
      case True
      then show ?thesis unfolding tick_state_def Let_def using h i STORAGE_STATE_WRITE_BODY b
        by (simp only: storage_service_state.case submit_write_def if_False not_le [symmetric])
          (rule sub0; (rule flight_body; simp | simp del: flight.simps))
    next
      case False
      then show ?thesis using h i assms(2) STORAGE_STATE_WRITE_BODY b
        by (simp add: tick_state_def Let_def settled_def carries_def)
    qed
  next
    case STORAGE_STATE_READBACK_BODY
    show ?thesis
    proof (cases "sc_write_offset ?c < 63")
      case True
      then show ?thesis unfolding tick_state_def Let_def using h i STORAGE_STATE_READBACK_BODY b
        by (simp only: storage_service_state.case submit_read_def if_False not_le [symmetric])
          (rule sub0; (rule flight_readback; simp del: holds.simps | simp del: flight.simps holds.simps))
    next
      case False
      then have "sc_write_offset ?c = 63" using h STORAGE_STATE_READBACK_BODY by simp
      then show ?thesis using h i assms(2) STORAGE_STATE_READBACK_BODY b
        by (simp add: tick_state_def Let_def settled_def carries_def)
    qed
  next
    case STORAGE_STATE_VERIFY_BODY
    have "take 63 (target_image m0 m) = take 63 img" if "take 63 (sc_slot_buffer ?c) = take 63 (sc_readback ?c)"
      using h i that STORAGE_STATE_VERIFY_BODY by (simp add: carries_def is_image_def)
    then show ?thesis using h i assms(2) STORAGE_STATE_VERIFY_BODY b failed
      by (simp add: tick_state_def Let_def settled_def carries_def del: nv_inv.simps) (simp add: settled_def carries_def)
  next
    case STORAGE_STATE_COMMIT
    then show ?thesis unfolding tick_state_def Let_def using h i
      by (simp only: storage_service_state.case submit_write_def) (rule sub; (rule flight_commit; simp | simp del: flight.simps))
  next
    case STORAGE_STATE_VERIFY_COMMIT
    then show ?thesis unfolding tick_state_def Let_def using h i
      by (simp only: storage_service_state.case submit_read_def) (rule sub0; (rule flight_read_commit; simp | simp del: flight.simps))
  next
    case STORAGE_STATE_CHECK_COMMIT
    have "target_image m0 m = committed img" if "sc_io_byte ?c = PERSIST_COMMIT_VALID"
      using h that STORAGE_STATE_CHECK_COMMIT by (intro whole_image [OF i(1,2)]) simp_all
    then show ?thesis using h i assms(2) STORAGE_STATE_CHECK_COMMIT failed
      by (simp add: tick_state_def Let_def del: nv_inv.simps) (simp add: finish_commit_def settled_def carries_def Let_def)
  qed (use assms h in \<open>simp_all add: tick_state_def Let_def\<close>)
qed

lemma tick_inv:
  assumes "nv_inv img m0 (s, m, f)"
  shows "nv_inv img m0 (fst (StorageService_Tick now answer s), m,
    if sc_io_pending (ss_context s) then f else snd (StorageService_Tick now answer s))"
proof (cases "ss_port_valid s")
  case False
  then show ?thesis using assms by (cases "sc_io_pending (ss_context s)") (simp_all add: StorageService_Tick_def Let_def)
next
  case True
  show ?thesis
  proof (cases "sc_io_pending (ss_context s)")
    case p: True
    then show ?thesis using consume_inv [OF assms p] True by (simp add: StorageService_Tick_def Let_def del: nv_inv.simps)
  next
    case p: False
    then have f: "f = None" "settled img m0 s m" using assms by simp_all
    then have "\<not> ((sc_state (ss_context s) = STORAGE_STATE_COMPLETE \<or> sc_state (ss_context s) = STORAGE_STATE_FAILED)
        \<and> sc_pending (ss_context s) \<and> \<not> ss_completion_ready s)"
      by (auto simp: settled_def)
    then have "StorageService_Tick now answer s = tick_state now answer s"
      unfolding StorageService_Tick_def Let_def using True p by (simp only: if_False simp_thms)
    then show ?thesis using tick_state_inv [of img m0 s m now answer] assms p f by (simp del: nv_inv.simps)
  qed
qed

lemma pending_tick: "sc_io_pending (ss_context s) \<Longrightarrow> snd (StorageService_Tick now answer s) = None"
  by (simp add: StorageService_Tick_def Let_def)

lemma nv_step_inv: "nv_step x y \<Longrightarrow> nv_inv img m0 x \<Longrightarrow> nv_inv img m0 y"
proof (induction rule: nv_step.induct)
  case (tick now answer s s' m f)
  have f: "(if sc_io_pending (ss_context s) then f else None) = f" using tick(2) by (cases "sc_io_pending (ss_context s)") simp_all
  show ?case using tick_inv [OF tick(2), of now answer] unfolding tick(1) fst_conv snd_conv f .
next
  case (submit now s s' req m)
  then have "\<not> sc_io_pending (ss_context s)" using pending_tick [of s now STORAGE_IO_SUBMIT_ACCEPTED] by force
  then show ?case using tick_inv [OF submit(2), of now STORAGE_IO_SUBMIT_ACCEPTED] submit(1) by (simp del: nv_inv.simps)
qed (blast intro: queue_inv tear_inv write_done_inv read_ok_inv read_fails_inv stale_inv)+

lemma nv_reach_inv: "nv_reach x y \<Longrightarrow> nv_inv img m0 x \<Longrightarrow> nv_inv img m0 y"
  by (induction rule: nv_reach.induct) (blast intro: nv_step_inv)+

lemma inv_safe: "nv_inv img m0 (s, m, f) \<Longrightarrow> safe img m0 m"
  using holds_safe [of img m0 "sc_state (ss_context s)" "ss_context s" m]
  by (cases "sc_io_pending (ss_context s)") (simp_all add: waiting_def settled_def Let_def)

lemma inv_success:
  assumes "nv_inv img m0 (s, m, f)" "ss_completion_ready s" "cp_status (ss_last_completion s) = STORAGE_COMMIT_OK"
  shows "aimed m0 (ss_context s) m" "target_image m0 m = committed img"
  using assms by (cases "sc_io_pending (ss_context s)"; simp add: waiting_def settled_def Let_def)+

section \<open>What boot finds\<close>

lemma durable_slots: "durable m = chosen (slot_at m 0) (slot_at m 1)"
  by (simp add: durable_def)

lemma elsewhere_other:
  assumes "elsewhere t m0 m" "length m = NV_SIZE" "length m0 = NV_SIZE" "t \<in> {0, 1}" "u \<in> {0, 1}" "u \<noteq> t"
  shows "slot_at m u = slot_at m0 u"
  using assms(2,3)
proof (rule slot_at_eqI)
  fix j :: nat assume j: "j < 64"
  have "slot_base u + j < slot_base t \<or> slot_base t + 64 \<le> slot_base u + j" "slot_base u + j < NV_SIZE"
    using assms(4-6) j by auto
  then show "slot_at m u ! j = slot_at m0 u ! j" using assms(1-3) j unfolding elsewhere_def by (simp only: slot_at_nth)
qed

lemma spoiled_invalid: "slot_at m t ! 63 \<noteq> PERSIST_COMMIT_VALID \<Longrightarrow> \<not> slot_valid (slot_at m t)"
  using uncommitted_not_valid [of "slot_at m t" 64 3 1 44] by auto

lemma chosen_valid: "chosen a b = Some r \<Longrightarrow> slot_valid r"
  by (auto simp: chosen_cases split: if_splits)

lemma valid_decodes: "slot_valid r \<Longrightarrow> StorageRecord_DecodeVolume (Some r) \<noteq> None"
  by (auto simp: StorageRecord_ClassifySlot_def StorageRecord_DecodeVolume_def Let_def not_le word_unat_eq_iff split: if_splits)

text \<open>The slot that is not the target decides what boot found before.\<close>

lemma target_0: "target_of m0 = 0 \<Longrightarrow> durable m0 = (if slot_valid (slot_at m0 1) then Some (slot_at m0 1) else None)"
  by (auto simp: target_of_def durable_def ab_slot_choose_target_def ab_slot_select_def Let_def chosen_cases compare_sequence_eq
      split: if_splits)

lemma target_1: "target_of m0 = 1 \<Longrightarrow> slot_valid (slot_at m0 0) \<and> durable m0 = Some (slot_at m0 0)"
  by (auto simp: target_of_def durable_def ab_slot_choose_target_def ab_slot_select_def Let_def chosen_cases compare_sequence_eq
      newer_asym split: if_splits)

lemma new_durable:
  assumes "target_image m0 m = committed img" "elsewhere (target_of m0) m0 m" "target_of m0 \<in> {0, 1}"
    "length m = NV_SIZE" "length m0 = NV_SIZE" "slot_valid (committed img)"
    "\<And>r. durable m0 = Some r \<Longrightarrow> newer (le_read32 (committed img) 8) (le_read32 r 8)"
  shows "durable m = Some (committed img)"
proof (cases "target_of m0 = 0")
  case True
  then have o: "slot_at m 1 = slot_at m0 1" using elsewhere_other [OF assms(2,4,5,3), of 1] by simp
  then show ?thesis using target_0 [OF True] True assms(1,6,7)
    by (cases "slot_valid (slot_at m0 1)") (simp_all add: durable_slots chosen_newer chosen_one_valid)
next
  case False
  then have t: "target_of m0 = 1" using assms(3) by simp
  then have o: "slot_at m 0 = slot_at m0 0" using elsewhere_other [OF assms(2,4,5,3), of 0] by simp
  then show ?thesis using target_1 [OF t] t assms(1,6,7) by (simp add: durable_slots chosen_newer)
qed

lemma safe_durable:
  assumes "safe img m0 m" "length m = NV_SIZE" "length m0 = NV_SIZE" "slot_valid (committed img)"
    "\<And>r. durable m0 = Some r \<Longrightarrow> newer (le_read32 (committed img) 8) (le_read32 r 8)"
  shows "durable m = durable m0 \<or> durable m = Some (committed img)"
proof -
  let ?t = "target_of m0"
  note new = new_durable [OF _ _ _ assms(2-5)]
  have spoilt: "durable m = durable m0" if "spoiled m0 m" "elsewhere ?t m0 m" "?t \<in> {0, 1}"
  proof (cases "?t = 0")
    case True
    then have o: "slot_at m 1 = slot_at m0 1" using elsewhere_other [OF that(2) assms(2,3) that(3), of 1] by simp
    have "\<not> slot_valid (slot_at m 0)" using that(1) True spoiled_invalid by (simp add: spoiled_def)
    then show ?thesis using target_0 [OF True] o by (simp add: durable_slots [of m] chosen_cases)
  next
    case False
    then have t: "?t = 1" using that(3) by simp
    then have o: "slot_at m 0 = slot_at m0 0" using elsewhere_other [OF that(2) assms(2,3) that(3), of 0] by simp
    have "\<not> slot_valid (slot_at m 1)" using that(1) t spoiled_invalid by (simp add: spoiled_def)
    then show ?thesis using target_1 [OF t] o by (simp add: durable_slots [of m] chosen_cases)
  qed
  have same: "durable m = durable m0" if "target_image m0 m = target_image m0 m0" "elsewhere ?t m0 m" "?t \<in> {0, 1}"
    using that elsewhere_other [OF that(2) assms(2,3) that(3), of 0] elsewhere_other [OF that(2) assms(2,3) that(3), of 1]
    by (cases "?t = 0") (auto simp: durable_slots)
  show ?thesis using assms(1) new spoilt same unfolding safe_def by blast
qed

section \<open>The checkpoint is atomic\<close>

text \<open>The record that a boot finds, decoded.\<close>

definition boot_volume :: "nv_array \<Rightarrow> (u32 \<times> volume_payload) option" where
  "boot_volume m = (case durable m of None \<Rightarrow> None
     | Some r \<Rightarrow> (case StorageRecord_DecodeVolume (Some r) of None \<Rightarrow> None | Some v \<Rightarrow> Some (le_read32 r 8, v)))"

lemma newer_stored: "\<forall>q w. boot_volume m0 = Some (q, w) \<longrightarrow> newer sq q \<Longrightarrow> durable m0 = Some r \<Longrightarrow> newer sq (le_read32 r 8)"
proof -
  assume n: "\<forall>q w. boot_volume m0 = Some (q, w) \<longrightarrow> newer sq q" and d: "durable m0 = Some r"
  have "slot_valid r" using d chosen_valid by (simp add: durable_def)
  then have "StorageRecord_DecodeVolume (Some r) \<noteq> None" by (rule valid_decodes)
  then show ?thesis using d n by (auto simp: boot_volume_def)
qed

lemma started_inv:
  assumes "StorageService_SubmitCheckpoint PERSIST_RECORD_VOLUME sq (volume_slot sq v crc b) 64 ver s0 = (STORAGE_OK, s)"
    "\<not> sc_io_pending (ss_context s0)" "length m0 = NV_SIZE"
  shows "nv_inv (volume_slot sq v crc b) m0 (s, m0, None)"
proof -
  let ?img = "volume_slot sq v crc b"
  have img: "is_image ?img" by (simp add: is_image_def)
  have p: "prepare_active_candidate 3 sq ?img 64 ver s0 = Some s" "\<not> ss_completion_ready s0"
    using assms(1) by (auto simp: StorageService_SubmitCheckpoint_def Let_def split: if_splits option.splits)
  then have s: "s = s0\<lparr>ss_request_count := ss_request_count s0 + 1, ss_context := (ss_context s0)
      \<lparr>sc_record_type := 3, sc_sequence := sq, sc_candidate_version := ver, sc_request_id := ss_request_count s0 + 1,
       sc_encoded_length := 64, sc_slot_size := 64, sc_write_offset := 0, sc_pending := False,
       sc_slot_buffer := slot_of ?img 64, sc_readback := zero_slot, sc_scan_a := zero_slot, sc_scan_b := zero_slot,
       sc_state := STORAGE_STATE_SCAN_A\<rparr>\<rparr>"
    by (simp add: prepare_active_candidate_def slot_size_for_def Let_def)
  show ?thesis using img assms(2,3) p(2) by (simp add: s settled_def carries_def slot_of_def zero_slot_def)
qed

text \<open>C1: power-loss atomicity of a checkpoint.  From the moment the service accepts an encoded volume
  record, after any sequence of ticks, torn writes, failed, partial, stale or falsely successful write
  completions and queued candidates, the record that a boot selects is the old one, unchanged, or the new
  one; when the service reports success it is the new one.  The configuration and calibration slots are
  never touched.  The caller's part is a sequence number newer than the stored one.\<close>

theorem checkpoint_is_atomic:
  assumes "length m0 = NV_SIZE" "\<not> sc_io_pending (ss_context s0)"
    and "StorageRecord_EncodeVolume sq v = Some img"
    and "StorageService_SubmitCheckpoint PERSIST_RECORD_VOLUME sq img SLOT_VOLUME_SIZE ver s0 = (STORAGE_OK, s)"
    and "\<forall>q w. boot_volume m0 = Some (q, w) \<longrightarrow> newer sq q"
    and "nv_reach (s, m0, None) (s', m, f)"
  shows "(boot_volume m = boot_volume m0 \<or> boot_volume m = Some (sq, v)) \<and>
    (ss_completion_ready s' \<and> cp_status (ss_last_completion s') = STORAGE_COMMIT_OK \<longrightarrow> boot_volume m = Some (sq, v)) \<and>
    (\<forall>i < 0x140. m ! i = m0 ! i)"
proof -
  have ok: "volume_payload_ok v" and img: "img = volume_slot sq v (volume_crc sq v) PERSIST_COMMIT_INVALID"
    using assms(3) by (auto simp: encode_volume_eq split: if_splits)
  have com: "committed img = volume_slot sq v (volume_crc sq v) PERSIST_COMMIT_VALID"
    by (simp add: img committed_def volume_slot_put_commit)
  have valid: "slot_valid (committed img)" using classify_volume_slot [OF ok] by (simp add: com)
  have inv: "nv_inv img m0 (s', m, f)"
    using started_inv [of sq v "volume_crc sq v" PERSIST_COMMIT_INVALID ver s0 s m0] assms img by (blast intro: nv_reach_inv)
  have len: "length m = NV_SIZE" "is_image img" using inv by simp_all
  have sf: "safe img m0 m" by (rule inv_safe [OF inv])
  have new: "newer (le_read32 (committed img) 8) (le_read32 r 8)" if "durable m0 = Some r" for r
    using newer_stored [OF assms(5) that] by (simp add: com)
  have boot: "durable m = Some (committed img) \<Longrightarrow> boot_volume m = Some (sq, v)"
    using ok by (simp add: boot_volume_def com decode_volume_slot)
  have "durable m = durable m0 \<or> durable m = Some (committed img)"
    by (rule safe_durable [OF sf len(1) assms(1) valid new])
  moreover have "durable m = Some (committed img)"
    if "ss_completion_ready s'" "cp_status (ss_last_completion s') = STORAGE_COMMIT_OK"
    using inv_success [OF inv that] new_durable [OF _ _ _ len(1) assms(1) valid new] by (auto simp: aimed_def)
  moreover have "\<forall>i < 0x140. m ! i = m0 ! i"
    using sf by (auto simp: safe_def elsewhere_def)
  ultimately show ?thesis using boot by (auto simp: boot_volume_def)
qed

text \<open>A first checkpoint into an empty memory, up to the first accepted read.\<close>

definition sample_image :: bytes where
  "sample_image = volume_slot 9 sample_volume (volume_crc 9 sample_volume) PERSIST_COMMIT_INVALID"

definition sample_service :: storage_service where
  "sample_service = the (StorageService_Init True 1000 True)"

definition sample_started :: storage_service where
  "sample_started = snd (StorageService_SubmitCheckpoint PERSIST_RECORD_VOLUME 9 sample_image SLOT_VOLUME_SIZE 1 sample_service)"

lemma boot_volume_blank: "boot_volume (replicate 512 0) = None"
proof -
  have "slot_at (replicate 512 0) t = replicate 64 0" for t
    using slot_base_bound [of t] by (simp add: slot_at_def nv_load_def)
  then show ?thesis by (simp add: boot_volume_def durable_def chosen_cases StorageRecord_ClassifySlot_def)
qed

lemma sample_submit:
  "\<exists>req. StorageService_Tick 5 STORAGE_IO_SUBMIT_ACCEPTED sample_started =
     (fst (StorageService_Tick 5 STORAGE_IO_SUBMIT_ACCEPTED sample_started), Some req)"
  by (simp add: sample_started_def sample_service_def StorageService_Init_def StorageService_SubmitCheckpoint_def Let_def
      prepare_active_candidate_def slot_size_for_def zero_context_def StorageService_Tick_def tick_state_def submit_read_def
      submit_io_def next_token_def or_fail_def)

lemma checkpoint_is_atomic_witness:
  "\<exists>s' req. nv_reach (sample_started, replicate 512 0, None) (s', replicate 512 0, Some req) \<and>
     boot_volume (replicate 512 0) \<in> {None, Some (9, sample_volume)}"
proof -
  obtain req where req: "StorageService_Tick 5 STORAGE_IO_SUBMIT_ACCEPTED sample_started =
      (fst (StorageService_Tick 5 STORAGE_IO_SUBMIT_ACCEPTED sample_started), Some req)" using sample_submit by blast
  have r: "nv_reach (sample_started, replicate 512 0, None)
      (fst (StorageService_Tick 5 STORAGE_IO_SUBMIT_ACCEPTED sample_started), replicate 512 0, Some req)"
    by (rule nv_reach.extend [OF nv_reach.start nv_step.submit [OF req]])
  have enc: "StorageRecord_EncodeVolume 9 sample_volume = Some sample_image"
    by (simp add: encode_volume_eq sample_image_def volume_payload_ok_def sample_volume_def)
  have idle: "\<not> sc_io_pending (ss_context sample_service)"
    by (simp add: sample_service_def StorageService_Init_def zero_context_def)
  have sub: "StorageService_SubmitCheckpoint PERSIST_RECORD_VOLUME 9 sample_image SLOT_VOLUME_SIZE 1 sample_service =
      (STORAGE_OK, sample_started)"
    by (simp add: sample_started_def sample_service_def StorageService_Init_def StorageService_SubmitCheckpoint_def Let_def
        prepare_active_candidate_def slot_size_for_def zero_context_def)
  show ?thesis
    using checkpoint_is_atomic [OF _ idle enc sub _ r] r boot_volume_blank by auto
qed

end
