(* ===== verification/Storage_Linux.thy ===== *)
theory Storage_Linux
  imports Checkpoint_Safety
begin

text \<open>
  The storage adapter of the Linux platform (platform/linux/adapters/storage_port_linux.c) and its
  composition with the storage service: a checkpoint completes within a fixed number of ticks, and the
  restore then finds what boot would find.

  The adapter completes inside the submission: the completion is delivered right after the tick, which
  is the same state because the service does nothing between the port's call and its return.
\<close>

unbundle bit_operations_syntax

section \<open>The adapter\<close>

record linux_storage_adapter =
  la_memory :: nv_array
  la_bound :: bool
  la_generation :: u32
  la_active :: bool

definition storage_port_linux_init :: linux_storage_adapter where
  "storage_port_linux_init = \<lparr>la_memory = replicate NV_SIZE 0, la_bound = False, la_generation = 1, la_active = False\<rparr>"

definition bind_completion :: "linux_storage_adapter \<Rightarrow> bool \<times> linux_storage_adapter" where
  "bind_completion a = (if la_active a then (False, a) else (True, a\<lparr>la_bound := True\<rparr>))"

definition cancel_generation :: "u32 \<Rightarrow> linux_storage_adapter \<Rightarrow> linux_storage_adapter" where
  "cancel_generation new_generation a =
     (if new_generation = 0 then a else a\<lparr>la_generation := new_generation, la_active := False\<rparr>)"

fun io_offset :: "io_request \<Rightarrow> nat" where
  "io_offset (Io_read a _ _ _ _) = a"
| "io_offset (Io_write a _ _ _) = a"

fun io_size :: "io_request \<Rightarrow> nat" where
  "io_size (Io_read _ _ n _ _) = n"
| "io_size (Io_write _ bs _ _) = length bs"

fun io_token :: "io_request \<Rightarrow> storage_operation_token" where
  "io_token (Io_read _ _ _ t _) = t"
| "io_token (Io_write _ _ t _) = t"

text \<open>The adapter copies the bytes and calls the completion function; the result is the answer, the
  adapter, and what happened to the service.\<close>

definition complete_operation ::
    "io_request \<Rightarrow> linux_storage_adapter \<Rightarrow> storage_service \<Rightarrow> storage_io_submit_result \<times> linux_storage_adapter \<times> storage_service" where
  "complete_operation req a s =
     (let t = io_token req
      in if \<not> la_bound a \<or> tk_operation_id t = 0 \<or> tk_correlation_id t = 0 \<or> tk_owner_generation t = 0
         then (STORAGE_IO_SUBMIT_INVALID_PARAM, a, s)
         else if la_active a then (STORAGE_IO_SUBMIT_BUSY, a, s)
         else if io_offset req > NV_SIZE \<or> io_size req > NV_SIZE - io_offset req
         then (STORAGE_IO_SUBMIT_OUT_OF_RANGE, a, s)
         else
           let (a', s') = (case req of
                 Io_read off dest n _ _ \<Rightarrow> (a, if n > 0 then deliver dest (nv_load (la_memory a) off n) s else s)
               | Io_write off bs _ _ \<Rightarrow> (if bs \<noteq> [] then a\<lparr>la_memory := nv_store (la_memory a) off bs\<rparr> else a, s));
               completion = (ok_completion t (io_size req))\<lparr>ic_client_generation := la_generation a, ic_bus_generation := 1\<rparr>
           in (STORAGE_IO_SUBMIT_ACCEPTED, a', StorageService_OnIoCompletion completion s'))"

text \<open>A tick of the service over the adapter.\<close>

definition linux_tick :: "u64 \<Rightarrow> storage_service \<times> linux_storage_adapter \<Rightarrow> storage_service \<times> linux_storage_adapter" where
  "linux_tick now x =
     (let (s, a) = x
      in case StorageService_Tick now STORAGE_IO_SUBMIT_ACCEPTED s of
           (s', None) \<Rightarrow> (s', a)
         | (s', Some req) \<Rightarrow>
             (case complete_operation req a s' of
                (answer, a', s'') \<Rightarrow> if answer = STORAGE_IO_SUBMIT_ACCEPTED then (s'', a')
                  else (fst (StorageService_Tick now answer s), a)))"

definition linux_run :: "u64 list \<Rightarrow> storage_service \<times> linux_storage_adapter \<Rightarrow> storage_service \<times> linux_storage_adapter" where
  "linux_run nows x = foldl (\<lambda>x now. linux_tick now x) x nows"

section \<open>One operation takes two ticks\<close>

definition good :: "storage_service \<Rightarrow> linux_storage_adapter \<Rightarrow> bool" where
  "good s a \<longleftrightarrow> ss_port_valid s \<and> \<not> sc_io_pending (ss_context s) \<and> ss_generation s \<noteq> 0 \<and> \<not> ss_completion_ready s \<and>
     la_bound a \<and> \<not> la_active a \<and> length (la_memory a) = NV_SIZE"

fun served :: "io_request \<Rightarrow> storage_service_context \<times> nv_array \<Rightarrow> storage_service_context \<times> nv_array" where
  "served (Io_read off dest n _ _) (c, m) = (fill_dest dest (nv_load m off n) c, m)"
| "served (Io_write off bs _ _) (c, m) = (c, nv_store m off bs)"

lemma next_token_nonzero:
  "next_token s = (tok, s1) \<Longrightarrow> tk_operation_id tok \<noteq> 0 \<and> tk_correlation_id tok \<noteq> 0 \<and> tk_owner_generation tok = ss_generation s \<and>
     ss_context s1 = ss_context s \<and> ss_generation s1 = ss_generation s \<and> ss_port_valid s1 = ss_port_valid s \<and>
     ss_completion_ready s1 = ss_completion_ready s \<and> ss_io_timeout_us s1 = ss_io_timeout_us s"
  by (auto simp: next_token_def Let_def split: if_splits)

lemma fill_dest_same_fields:
  "sc_io_completion (fill_dest dest xs c) = sc_io_completion c"
  "fill_dest dest xs (c\<lparr>sc_io_token := t, sc_io_pending := p, sc_io_completed := q, sc_io_success_state := st, sc_io_advance_bytes := n\<rparr>) =
   (fill_dest dest xs c)\<lparr>sc_io_token := t, sc_io_pending := p, sc_io_completed := q, sc_io_success_state := st, sc_io_advance_bytes := n\<rparr>"
  by (cases dest; simp)+

text \<open>What the service looks like after both ticks.\<close>

definition after_io :: "storage_service \<Rightarrow> storage_service_context \<Rightarrow> storage_service_state \<Rightarrow> nat \<Rightarrow> storage_service \<Rightarrow> bool" where
  "after_io s c st adv s' \<longleftrightarrow> same_data (ss_context s') c \<and> sc_write_offset (ss_context s') = sc_write_offset c + adv \<and>
     sc_state (ss_context s') = st \<and> \<not> sc_io_pending (ss_context s') \<and> ss_generation s' = ss_generation s \<and>
     ss_port_valid s' = ss_port_valid s \<and> ss_completion_ready s' = ss_completion_ready s \<and> ss_io_timeout_us s' = ss_io_timeout_us s"

lemma submitted:
  assumes "\<not> UINT64_MAX - now < ucast (ss_io_timeout_us s)"
  shows "\<exists>tok s1. next_token s = (tok, s1) \<and>
    or_fail (submit_io r st adv now STORAGE_IO_SUBMIT_ACCEPTED s) =
      (s1\<lparr>ss_context := (ss_context s1)\<lparr>sc_io_token := tok, sc_io_pending := True, sc_io_completed := False,
         sc_io_success_state := st, sc_io_advance_bytes := adv\<rparr>\<rparr>, Some (r tok (now + ucast (ss_io_timeout_us s))))"
  using assms by (cases "next_token s") (simp add: submit_io_def or_fail_def Let_def)

lemma completed_and_consumed:
  assumes "sc_io_pending (ss_context s)" "\<not> sc_io_completed (ss_context s)"
    "ic_token k = sc_io_token (ss_context s)" "tk_owner_generation (sc_io_token (ss_context s)) = ss_generation s"
    "completion_good k" "ss_port_valid s"
  shows "fst (StorageService_Tick now ans (StorageService_OnIoCompletion k s)) =
      s\<lparr>ss_context := (ss_context s)\<lparr>sc_io_completion := k, sc_io_pending := False, sc_io_completed := False,
        sc_write_offset := sc_write_offset (ss_context s) + sc_io_advance_bytes (ss_context s),
        sc_state := sc_io_success_state (ss_context s)\<rparr>\<rparr>"
    "snd (StorageService_Tick now ans (StorageService_OnIoCompletion k s)) = None"
  using assms
  by (simp_all add: StorageService_OnIoCompletion_def StorageService_Tick_def consume_io_completion_def completion_good_def Let_def)

lemma linux_io:
  assumes good: "good s a" and late: "\<not> UINT64_MAX - now < ucast (ss_io_timeout_us s)"
    and tick: "StorageService_Tick now STORAGE_IO_SUBMIT_ACCEPTED s =
      or_fail (submit_io r st adv now STORAGE_IO_SUBMIT_ACCEPTED (s\<lparr>ss_context := c\<rparr>))"
    and req: "\<And>tok d. io_token (r tok d) = tok" "\<And>tok d. io_offset (r tok d) + io_size (r tok d) \<le> NV_SIZE"
      "\<And>tok d. 0 < io_size (r tok d)"
  obtains s' a' tok d where "linux_tick now' (linux_tick now (s, a)) = (s', a')" "good s' a'"
    "after_io s (fst (served (r tok d) (c, la_memory a))) st adv s'" "la_memory a' = snd (served (r tok d) (c, la_memory a))"
proof -
  obtain tok s1 where n: "next_token (s\<lparr>ss_context := c\<rparr>) = (tok, s1)" and sub:
    "StorageService_Tick now STORAGE_IO_SUBMIT_ACCEPTED s =
      (s1\<lparr>ss_context := (ss_context s1)\<lparr>sc_io_token := tok, sc_io_pending := True, sc_io_completed := False,
         sc_io_success_state := st, sc_io_advance_bytes := adv\<rparr>\<rparr>, Some (r tok (now + ucast (ss_io_timeout_us s))))"
    using submitted [of now "s\<lparr>ss_context := c\<rparr>" r st adv] late tick by auto
  note nt = next_token_nonzero [OF n]
  let ?d = "now + ucast (ss_io_timeout_us s)"
  let ?s = "s1\<lparr>ss_context := (ss_context s1)\<lparr>sc_io_token := tok, sc_io_pending := True, sc_io_completed := False,
         sc_io_success_state := st, sc_io_advance_bytes := adv\<rparr>\<rparr>"
  let ?k = "(ok_completion tok (io_size (r tok ?d)))\<lparr>ic_client_generation := la_generation a, ic_bus_generation := 1\<rparr>"
  have kg: "completion_good ?k" "ic_token ?k = tok" by (simp_all add: completion_good_def ok_completion_def zero_io_completion_def)
  have fits: "\<not> NV_SIZE < io_offset (r tok ?d)" "\<not> NV_SIZE - io_offset (r tok ?d) < io_size (r tok ?d)"
    using req(2) [of tok ?d] by simp_all
  show ?thesis
  proof (cases "r tok ?d")
    case (Io_write off bs tok' d')
    then have e: "tok' = tok" "bs \<noteq> []" using req(1) [of tok ?d] req(3) [of tok ?d] by auto
    have one: "linux_tick now (s, a) = (StorageService_OnIoCompletion ?k ?s, a\<lparr>la_memory := nv_store (la_memory a) off bs\<rparr>)"
      using good nt fits Io_write e kg by (simp add: linux_tick_def sub complete_operation_def good_def)
    let ?t = "StorageService_Tick now' STORAGE_IO_SUBMIT_ACCEPTED (StorageService_OnIoCompletion ?k ?s)"
    define u where "u = fst ?t"
    have two: "?t = (u, None)" "u = ?s\<lparr>ss_context := (ss_context ?s)\<lparr>sc_io_completion := ?k, sc_io_pending := False,
        sc_io_completed := False, sc_write_offset := sc_write_offset c + adv, sc_state := st\<rparr>\<rparr>"
      using completed_and_consumed [of ?s ?k now' STORAGE_IO_SUBMIT_ACCEPTED] nt good kg
      by (simp_all add: good_def prod_eq_iff u_def)
    have "linux_tick now' (linux_tick now (s, a)) = (u, a\<lparr>la_memory := nv_store (la_memory a) off bs\<rparr>)"
      unfolding one by (subst linux_tick_def, simp only: Let_def prod.case, subst two(1)) simp
    moreover have "length (nv_store (la_memory a) off bs) = NV_SIZE"
      using nv.store_ok [of "la_memory a" off bs] good req(2) [of tok ?d] Io_write by (simp add: good_def nv_ok_def)
    ultimately show ?thesis
      using nt good Io_write by (intro that [of u "a\<lparr>la_memory := nv_store (la_memory a) off bs\<rparr>" tok ?d]) (simp_all add: two(2) good_def after_io_def same_data_def)
  next
    case (Io_read off dest n tok' d')
    then have e: "tok' = tok" "0 < n" using req(1) [of tok ?d] req(3) [of tok ?d] by auto
    let ?s2 = "deliver dest (nv_load (la_memory a) off n) ?s"
    have one: "linux_tick now (s, a) = (StorageService_OnIoCompletion ?k ?s2, a)"
      using good nt fits Io_read e kg by (simp add: linux_tick_def sub complete_operation_def good_def)
    let ?t = "StorageService_Tick now' STORAGE_IO_SUBMIT_ACCEPTED (StorageService_OnIoCompletion ?k ?s2)"
    define u where "u = fst ?t"
    have two: "?t = (u, None)" "u = ?s2\<lparr>ss_context := (ss_context ?s2)\<lparr>sc_io_completion := ?k, sc_io_pending := False,
        sc_io_completed := False, sc_write_offset := sc_write_offset c + adv, sc_state := st\<rparr>\<rparr>"
      using completed_and_consumed [of ?s2 ?k now' STORAGE_IO_SUBMIT_ACCEPTED] nt good kg
      by (simp_all add: good_def prod_eq_iff u_def) (simp_all add: deliver_def)
    have "linux_tick now' (linux_tick now (s, a)) = (u, a)"
      unfolding one by (subst linux_tick_def, simp only: Let_def prod.case, subst two(1)) simp
    then show ?thesis
      using nt good Io_read
      by (intro that [of u a tok ?d]) (simp_all add: two(2) good_def after_io_def same_data_def fill_dest_same_fields, simp_all add: deliver_def)
  qed
qed

section \<open>Progress of a checkpoint\<close>

text \<open>What the working device adds to \<open>holds\<close>.\<close>

fun also_holds :: "bytes \<Rightarrow> nv_array \<Rightarrow> storage_service_state \<Rightarrow> storage_service_context \<Rightarrow> nv_array \<Rightarrow> bool" where
  "also_holds img m0 STORAGE_STATE_VERIFY_INVALIDATE c m = (target_image m0 m ! 63 = 0)"
| "also_holds img m0 STORAGE_STATE_CHECK_INVALIDATE c m = (sc_io_byte c = 0)"
| "also_holds img m0 STORAGE_STATE_WRITE_BODY c m =
     (sc_write_offset c \<in> {0, 32, 63} \<and> take (sc_write_offset c) (target_image m0 m) = take (sc_write_offset c) img)"
| "also_holds img m0 STORAGE_STATE_READBACK_BODY c m =
     (sc_write_offset c \<in> {0, 32, 63} \<and> take 63 (target_image m0 m) = take 63 img)"
| "also_holds img m0 STORAGE_STATE_VERIFY_BODY c m = (take 63 (target_image m0 m) = take 63 img)"
| "also_holds img m0 STORAGE_STATE_VERIFY_COMMIT c m = (target_image m0 m ! 63 = PERSIST_COMMIT_VALID)"
| "also_holds img m0 STORAGE_STATE_CHECK_COMMIT c m = (sc_io_byte c = PERSIST_COMMIT_VALID)"
| "also_holds img m0 _ c m = True"

text \<open>The ticks that remain.\<close>

fun ticks_left :: "storage_service_state \<Rightarrow> nat \<Rightarrow> nat" where
  "ticks_left STORAGE_STATE_SCAN_A off = 26"
| "ticks_left STORAGE_STATE_SCAN_B off = 24"
| "ticks_left STORAGE_STATE_PREPARE_TARGET off = 22"
| "ticks_left STORAGE_STATE_INVALIDATE off = 21"
| "ticks_left STORAGE_STATE_VERIFY_INVALIDATE off = 19"
| "ticks_left STORAGE_STATE_CHECK_INVALIDATE off = 17"
| "ticks_left STORAGE_STATE_WRITE_BODY off = 12 + 2 * ((94 - off) div 32)"
| "ticks_left STORAGE_STATE_READBACK_BODY off = 7 + 2 * ((94 - off) div 32)"
| "ticks_left STORAGE_STATE_VERIFY_BODY off = 6"
| "ticks_left STORAGE_STATE_COMMIT off = 5"
| "ticks_left STORAGE_STATE_VERIFY_COMMIT off = 3"
| "ticks_left STORAGE_STATE_CHECK_COMMIT off = 1"
| "ticks_left _ off = 0"

definition finished :: "bytes \<Rightarrow> nv_array \<Rightarrow> storage_service \<times> linux_storage_adapter \<Rightarrow> bool" where
  "finished img m0 x \<longleftrightarrow> (case x of (s, a) \<Rightarrow>
     sc_state (ss_context s) = STORAGE_STATE_COMPLETE \<and> ss_completion_ready s \<and>
     cp_status (ss_last_completion s) = STORAGE_COMMIT_OK \<and> length (la_memory a) = NV_SIZE \<and>
     aimed m0 (ss_context s) (la_memory a) \<and> target_image m0 (la_memory a) = committed img)"

definition underway :: "bytes \<Rightarrow> nv_array \<Rightarrow> u32 \<Rightarrow> nat \<Rightarrow> storage_service \<times> linux_storage_adapter \<Rightarrow> bool" where
  "underway img m0 timeout n x \<longleftrightarrow> (case x of (s, a) \<Rightarrow>
     let c = ss_context s in good s a \<and> ss_io_timeout_us s = timeout \<and> carries img c \<and>
       holds img m0 (sc_state c) c (la_memory a) \<and> also_holds img m0 (sc_state c) c (la_memory a) \<and>
       n = ticks_left (sc_state c) (sc_write_offset c) \<and> \<not> is_terminal (sc_state c) \<and> \<not> is_restore_state (sc_state c))"

lemma also_same: "same_data c d \<Longrightarrow> sc_write_offset c = sc_write_offset d \<Longrightarrow> also_holds img m0 st c m = also_holds img m0 st d m"
  by (cases st) (simp_all add: same_data_def)

lemma nv_store_torn: "length m = NV_SIZE \<Longrightarrow> a + length bs \<le> NV_SIZE \<Longrightarrow> torn m a bs (nv_store m a bs)"
  using torn_torn_store [of m a bs "\<lambda>_. True"] by (simp add: torn_store_def torn_bytes_def map_nth)

lemma store_slot:
  assumes "length m = NV_SIZE" "off + length bs \<le> 64"
  shows "slot_at (nv_store m (slot_base t + off) bs) t = take off (slot_at m t) @ bs @ drop (off + length bs) (slot_at m t)"
  unfolding slot_at_def using nv.load_store_inside [of m "slot_base t" "slot_base t + off" bs 64] assms slot_base_bound [of t]
  by (simp add: nv_ok_def)

text \<open>Two ticks in a state with a request, one in the others.\<close>

lemma active_tick:
  "good s a \<Longrightarrow> \<not> is_terminal (sc_state (ss_context s)) \<Longrightarrow>
   StorageService_Tick now ans s = tick_state now ans s"
  by (cases "sc_state (ss_context s)") (simp_all add: StorageService_Tick_def good_def Let_def)

lemma io_progress:
  assumes u: "underway img m0 timeout n (s, a)" and late: "\<not> UINT64_MAX - now < ucast timeout"
    and tick: "StorageService_Tick now STORAGE_IO_SUBMIT_ACCEPTED s =
      or_fail (submit_io r st adv now STORAGE_IO_SUBMIT_ACCEPTED (s\<lparr>ss_context := (ss_context s)\<lparr>sc_io_byte := x\<rparr>\<rparr>))"
    and req: "\<And>tok d. io_token (r tok d) = tok" "\<And>tok d. 0 < io_size (r tok d)"
    and st: "\<not> is_terminal st" "\<not> is_restore_state st"
    and fl: "\<And>tok d. flight img m0 ((ss_context s)\<lparr>sc_io_byte := x, sc_io_success_state := st, sc_io_advance_bytes := adv\<rparr>) (la_memory a) (r tok d)"
    and pl: "\<And>tok d. let (c', m') = served (r tok d) ((ss_context s)\<lparr>sc_io_byte := x\<rparr>, la_memory a)
      in also_holds img m0 st (c'\<lparr>sc_write_offset := sc_write_offset (ss_context s) + adv\<rparr>) m'"
    and left: "n = ticks_left st (sc_write_offset (ss_context s) + adv) + 2"
  shows "underway img m0 timeout (n - 2) (linux_tick now' (linux_tick now (s, a)))"
proof -
  let ?c = "(ss_context s)\<lparr>sc_io_byte := x\<rparr>"
  have g: "good s a" "ss_io_timeout_us s = timeout" "carries img (ss_context s)" using u by (simp_all add: underway_def Let_def)
  have len: "length (la_memory a) = NV_SIZE" using g(1) by (simp add: good_def)
  have fit: "io_offset (r tok d) + io_size (r tok d) \<le> NV_SIZE" for tok d
    using fl [of tok d] by (cases "r tok d") simp_all
  obtain s' a' tok d where two: "linux_tick now' (linux_tick now (s, a)) = (s', a')" "good s' a'"
    "after_io s (fst (served (r tok d) (?c, la_memory a))) st adv s'" "la_memory a' = snd (served (r tok d) (?c, la_memory a))"
    using linux_io [OF g(1), of now r st adv ?c] late g(2) tick req fit by metis
  let ?c' = "fst (served (r tok d) (?c, la_memory a))"
  let ?d = "?c\<lparr>sc_io_success_state := st, sc_io_advance_bytes := adv\<rparr>"
  have off: "sc_write_offset ?c' = sc_write_offset (ss_context s)" by (cases "r tok d") simp_all
  have sd: "same_data (ss_context s') (?c'\<lparr>sc_write_offset := sc_write_offset (ss_context s) + adv\<rparr>)"
    "sc_write_offset (ss_context s') = sc_write_offset (ss_context s) + adv"
    using two(3) off by (simp_all add: after_io_def same_data_def)
  have h: "holds img m0 st (?c'\<lparr>sc_write_offset := sc_write_offset (ss_context s) + adv\<rparr>) (la_memory a')"
  proof (cases "r tok d")
    case (Io_write o' bs t' d')
    then have "post img m0 ?d (nv_store (la_memory a) o' bs)"
      using fl [of tok d] nv_store_torn [OF len, of o' bs] by simp
    then have "holds img m0 st (?d\<lparr>sc_write_offset := sc_write_offset (ss_context s) + adv\<rparr>) (nv_store (la_memory a) o' bs)"
      by (simp add: post_def)
    moreover have "holds img m0 st (?d\<lparr>sc_write_offset := sc_write_offset (ss_context s) + adv\<rparr>) m =
        holds img m0 st (?c\<lparr>sc_write_offset := sc_write_offset (ss_context s) + adv\<rparr>) m" for m
      by (rule holds_same) (simp_all add: same_data_def)
    ultimately show ?thesis using Io_write two(4) by simp
  next
    case (Io_read o' dest k t' d')
    then have "post img m0 (fill_dest dest (nv_load (la_memory a) o' k) ?d) (la_memory a)" using fl [of tok d] by simp
    then have "holds img m0 st ((fill_dest dest (nv_load (la_memory a) o' k) ?d)\<lparr>sc_write_offset := sc_write_offset (ss_context s) + adv\<rparr>) (la_memory a)"
      by (simp add: post_def)
    moreover have "same_data (fill_dest dest xs ?d) (fill_dest dest xs ?c)" for xs
      by (rule fill_dest_same) (simp add: same_data_def)
    then have "holds img m0 st ((fill_dest dest xs ?d)\<lparr>sc_write_offset := sc_write_offset (ss_context s) + adv\<rparr>) m =
        holds img m0 st ((fill_dest dest xs ?c)\<lparr>sc_write_offset := sc_write_offset (ss_context s) + adv\<rparr>) m" for xs m
      by (intro holds_same) (simp_all add: same_data_def)
    ultimately show ?thesis using Io_read two(4) by simp
  qed
  have ca: "carries img (?c'\<lparr>sc_write_offset := sc_write_offset (ss_context s) + adv\<rparr>)"
  proof (cases "r tok d")
    case (Io_read o' dest k t' d')
    then have "dest_fits dest (length (nv_load (la_memory a) o' k))" using fl [of tok d] nv.load_length [of "la_memory a" o' k] len
      by (simp add: nv_ok_def)
    then have "carries img (fill_dest dest (nv_load (la_memory a) o' k) ?c)" using g(3) by (intro fill_dest_carries) (simp add: carries_def)
    then show ?thesis using Io_read by (simp add: carries_def)
  qed (use g(3) in \<open>simp add: carries_def\<close>)
  have "also_holds img m0 st (?c'\<lparr>sc_write_offset := sc_write_offset (ss_context s) + adv\<rparr>) (la_memory a')"
    using pl [of tok d] two(4) by (simp add: case_prod_unfold Let_def)
  then show ?thesis
    using two holds_same [OF sd(1)] also_same [OF sd(1)] carries_same [OF sd(1)] sd(2) h ca st left g(2)
    by (simp add: underway_def after_io_def Let_def)
qed

lemma io_progress0:
  assumes "underway img m0 timeout n (s, a)" "\<not> UINT64_MAX - now < ucast timeout"
    "StorageService_Tick now STORAGE_IO_SUBMIT_ACCEPTED s = or_fail (submit_io r st adv now STORAGE_IO_SUBMIT_ACCEPTED s)"
    "\<And>tok d. io_token (r tok d) = tok" "\<And>tok d. 0 < io_size (r tok d)"
    "\<not> is_terminal st" "\<not> is_restore_state st"
    "\<And>tok d. flight img m0 ((ss_context s)\<lparr>sc_io_success_state := st, sc_io_advance_bytes := adv\<rparr>) (la_memory a) (r tok d)"
    "\<And>tok d. let (c', m') = served (r tok d) (ss_context s, la_memory a)
      in also_holds img m0 st (c'\<lparr>sc_write_offset := sc_write_offset (ss_context s) + adv\<rparr>) m'"
    "n = ticks_left st (sc_write_offset (ss_context s) + adv) + 2"
  shows "underway img m0 timeout (n - 2) (linux_tick now' (linux_tick now (s, a)))"
proof -
  have c: "(ss_context s)\<lparr>sc_io_byte := sc_io_byte (ss_context s)\<rparr> = ss_context s" "s\<lparr>ss_context := ss_context s\<rparr> = s" by simp_all
  show ?thesis
    by (rule io_progress [of img m0 timeout n s a now r st adv "sc_io_byte (ss_context s)", unfolded c, OF assms])
qed

lemma tick_no_request: "StorageService_Tick now STORAGE_IO_SUBMIT_ACCEPTED s = (s', None) \<Longrightarrow> linux_tick now (s, a) = (s', a)"
  by (simp add: linux_tick_def)

lemma still_underway:
  assumes "underway img m0 timeout n (s, a)"
    and "StorageService_Tick now STORAGE_IO_SUBMIT_ACCEPTED s = (s\<lparr>ss_context := c\<rparr>, None)"
    and "same_data c (ss_context s)" "\<not> sc_io_pending c" "\<not> is_terminal (sc_state c)" "\<not> is_restore_state (sc_state c)"
    and "holds img m0 (sc_state c) c (la_memory a)" "also_holds img m0 (sc_state c) c (la_memory a)"
    and "n = ticks_left (sc_state c) (sc_write_offset c) + 1"
  shows "underway img m0 timeout (n - 1) (linux_tick now (s, a))"
  using assms tick_no_request [OF assms(2)] carries_same [OF assms(3), of img]
  by (simp add: underway_def good_def Let_def) linarith

definition forward :: "bytes \<Rightarrow> nv_array \<Rightarrow> u32 \<Rightarrow> nat \<Rightarrow> u64 \<Rightarrow> u64 \<Rightarrow> storage_service \<times> linux_storage_adapter \<Rightarrow> bool" where
  "forward img m0 timeout n now now' x \<longleftrightarrow>
     2 \<le> n \<and> underway img m0 timeout (n - 2) (linux_tick now' (linux_tick now x)) \<or>
     2 \<le> n \<and> underway img m0 timeout (n - 1) (linux_tick now x) \<or> n = 1 \<and> finished img m0 (linux_tick now x)"

lemma scan_progress:
  assumes u: "underway img m0 timeout n (s, a)" and late: "\<not> UINT64_MAX - now < ucast timeout"
    and st: "sc_state (ss_context s) \<in> {STORAGE_STATE_SCAN_A, STORAGE_STATE_SCAN_B}"
  shows "forward img m0 timeout n now now' (s, a)"
proof -
  let ?c = "ss_context s"
  have g: "good s a" "carries img ?c" "length (la_memory a) = NV_SIZE" using u by (simp_all add: underway_def Let_def good_def)
  have sz: "sc_slot_size ?c = 64" using g(2) by (simp add: carries_def)
  consider "sc_state ?c = STORAGE_STATE_SCAN_A" | "sc_state ?c = STORAGE_STATE_SCAN_B" using st by auto
  then show ?thesis
  proof cases
    case 1
    note tk = active_tick [OF g(1), of now STORAGE_IO_SUBMIT_ACCEPTED, unfolded 1, simplified, unfolded tick_state_def 1 Let_def,
      simplified, unfolded submit_read_def]
    have h: "la_memory a = m0" "n = 26" using u 1 by (simp_all add: underway_def Let_def)
    have "underway img m0 timeout (n - 2) (linux_tick now' (linux_tick now (s, a)))"
      by (rule io_progress0 [OF u late tk]; (rule flight_scan_a [OF h(1) g(3,2)])?; simp add: sz h(2))
    then show ?thesis using h by (simp add: forward_def)
  next
    case 2
    note tk = active_tick [OF g(1), of now STORAGE_IO_SUBMIT_ACCEPTED, unfolded 2, simplified, unfolded tick_state_def 2 Let_def,
      simplified, unfolded submit_read_def]
    have h: "la_memory a = m0" "take 64 (sc_scan_a ?c) = slot_at m0 0" "n = 24" using u 2 by (simp_all add: underway_def Let_def)
    have "underway img m0 timeout (n - 2) (linux_tick now' (linux_tick now (s, a)))"
      by (rule io_progress0 [OF u late tk]; (rule flight_scan_b [OF h(1,2) g(3,2)])?; simp add: sz h(3))
    then show ?thesis using h by (simp add: forward_def)
  qed
qed

lemma prepare_progress:
  assumes u: "underway img m0 timeout n (s, a)" and img: "is_image img" and t: "target_of m0 \<noteq> SLOT_INDEX_NONE"
    and st: "sc_state (ss_context s) = STORAGE_STATE_PREPARE_TARGET"
  shows "forward img m0 timeout n now now' (s, a)"
proof -
  let ?c = "ss_context s"
  have g: "good s a" "carries img ?c" "length (la_memory a) = NV_SIZE" "holds img m0 STORAGE_STATE_PREPARE_TARGET ?c (la_memory a)" "n = 22"
    using u st by (auto simp: underway_def Let_def good_def)
  have ip: "\<not> sc_io_pending ?c" "\<not> ss_completion_ready s" using g(1) by (simp_all add: good_def)
  have inv: "nv_inv img m0 (choose_target s, la_memory a, None)" by (rule choose_target_inv [OF img g(3,2) ip g(4)])
  have "?c = (ss_context s)" ..
  define sel where "sel = ab_slot_select (Some (sc_scan_a ?c)) (sc_slot_size ?c) (Some (sc_scan_b ?c)) (sc_slot_size ?c)
      (sc_record_type ?c) (sc_slot_buffer ?c ! 5) (le_read16 (sc_slot_buffer ?c) 6)"
  have "sel = select_volume (slot_at m0 0) (slot_at m0 1)"
    using g img image_reads [OF img, of "replicate 32 0"] select_buffers [of "sc_scan_a ?c" _ "sc_scan_b ?c"]
    by (simp add: carries_def sel_def)
  then have ch: "ab_slot_choose_target (Some sel) = target_of m0" by (simp add: target_of_def)
  have ct: "choose_target s = s\<lparr>ss_context := ?c\<lparr>sc_target_slot := target_of m0,
      sc_target_address := slot_addr_for (target_of m0) (sc_record_type ?c), sc_write_offset := 0, sc_state := STORAGE_STATE_INVALIDATE\<rparr>\<rparr>"
    unfolding choose_target_def Let_def sel_def [symmetric] ch using t by simp
  have "StorageService_Tick now STORAGE_IO_SUBMIT_ACCEPTED s = (choose_target s, None)"
    using active_tick [OF g(1), of now STORAGE_IO_SUBMIT_ACCEPTED] st by (simp add: tick_state_def Let_def)
  then have tk: "linux_tick now (s, a) = (choose_target s, a)" by (rule tick_no_request)
  have "underway img m0 timeout 21 (choose_target s, a)"
    using inv u g(1) by (auto simp: ct underway_def good_def Let_def settled_def)
  then show ?thesis using g(5) by (simp add: forward_def tk)
qed

lemma forward_two: "underway img m0 timeout (n - 2) (linux_tick now' (linux_tick now x)) \<Longrightarrow> 2 \<le> n \<Longrightarrow> forward img m0 timeout n now now' x"
  by (simp add: forward_def)

lemma forward_one: "underway img m0 timeout (n - 1) (linux_tick now x) \<Longrightarrow> 2 \<le> n \<Longrightarrow> forward img m0 timeout n now now' x"
  by (simp add: forward_def)

lemma commit_byte_progress:
  assumes u: "underway img m0 timeout n (s, a)" and img: "is_image img" and late: "\<not> UINT64_MAX - now < ucast timeout"
    and st: "sc_state (ss_context s) \<in> {STORAGE_STATE_INVALIDATE, STORAGE_STATE_COMMIT}"
  shows "forward img m0 timeout n now now' (s, a)"
proof -
  let ?c = "ss_context s"
  have g: "good s a" "carries img ?c" "length (la_memory a) = NV_SIZE" using u by (simp_all add: underway_def Let_def good_def)
  have aim: "aimed m0 ?c (la_memory a)" using u st by (auto simp: underway_def Let_def)
  have byte: "target_image m0 (nv_store (la_memory a) (commit_address ?c) [b]) ! 63 = b" for b
    using store_slot [OF g(3), of 63 "[b]" "target_of m0"] g(3) by (simp add: aimed_commit_address [OF g(2) aim] nth_append)
  consider "sc_state ?c = STORAGE_STATE_INVALIDATE" | "sc_state ?c = STORAGE_STATE_COMMIT" using st by auto
  then show ?thesis
  proof cases
    case 1
    note tk = active_tick [OF g(1), of now STORAGE_IO_SUBMIT_ACCEPTED, unfolded 1, simplified, unfolded tick_state_def 1 Let_def,
      simplified, unfolded submit_write_def]
    have h: "la_memory a = m0" "n = 21" using u 1 by (simp_all add: underway_def Let_def)
    have "underway img m0 timeout (n - 2) (linux_tick now' (linux_tick now (s, a)))"
      by (rule io_progress [OF u late tk]; (rule flight_invalidate [OF h(1) aim g(3,2)])?; simp add: byte h(2))
    then show ?thesis using h by (intro forward_two) simp_all
  next
    case 2
    note tk = active_tick [OF g(1), of now STORAGE_IO_SUBMIT_ACCEPTED, unfolded 2, simplified, unfolded tick_state_def 2 Let_def,
      simplified, unfolded submit_write_def]
    have h: "spoiled m0 (la_memory a)" "take 63 (target_image m0 (la_memory a)) = take 63 img" "n = 5"
      using u 2 by (simp_all add: underway_def Let_def)
    have "underway img m0 timeout (n - 2) (linux_tick now' (linux_tick now (s, a)))"
      by (rule io_progress [OF u late tk]; (rule flight_commit [OF aim h(1,2) g(3,2) img])?; simp add: byte h(3))
    then show ?thesis using h by (intro forward_two) simp_all
  qed
qed

lemma read_byte_progress:
  assumes u: "underway img m0 timeout n (s, a)" and late: "\<not> UINT64_MAX - now < ucast timeout"
    and st: "sc_state (ss_context s) \<in> {STORAGE_STATE_VERIFY_INVALIDATE, STORAGE_STATE_VERIFY_COMMIT}"
  shows "forward img m0 timeout n now now' (s, a)"
proof -
  let ?c = "ss_context s"
  have g: "good s a" "carries img ?c" "length (la_memory a) = NV_SIZE" using u by (simp_all add: underway_def Let_def good_def)
  have aim: "aimed m0 ?c (la_memory a)" using u st by (auto simp: underway_def Let_def)
  have byte: "nv_load (la_memory a) (commit_address ?c) 1 ! 0 = target_image m0 (la_memory a) ! 63"
    using slot_part [OF g(3), of 63 1 "target_of m0"] g(3) by (simp add: aimed_commit_address [OF g(2) aim])
  consider "sc_state ?c = STORAGE_STATE_VERIFY_INVALIDATE" | "sc_state ?c = STORAGE_STATE_VERIFY_COMMIT" using st by auto
  then show ?thesis
  proof cases
    case 1
    note tk = active_tick [OF g(1), of now STORAGE_IO_SUBMIT_ACCEPTED, unfolded 1, simplified, unfolded tick_state_def 1 Let_def,
      simplified, unfolded submit_read_def]
    have h: "holds img m0 STORAGE_STATE_VERIFY_INVALIDATE ?c (la_memory a)" "target_image m0 (la_memory a) ! 63 = 0" "n = 19"
      using u 1 by (simp_all add: underway_def Let_def)
    have "underway img m0 timeout (n - 2) (linux_tick now' (linux_tick now (s, a)))"
      by (rule io_progress0 [OF u late tk]; (rule flight_read_commit [OF g(2) aim g(3), unfolded One_nat_def])?)
        (use h byte in simp_all)
    then show ?thesis using h by (intro forward_two) simp_all
  next
    case 2
    note tk = active_tick [OF g(1), of now STORAGE_IO_SUBMIT_ACCEPTED, unfolded 2, simplified, unfolded tick_state_def 2 Let_def,
      simplified, unfolded submit_read_def]
    have h: "holds img m0 STORAGE_STATE_VERIFY_COMMIT ?c (la_memory a)" "target_image m0 (la_memory a) ! 63 = PERSIST_COMMIT_VALID" "n = 3"
      using u 2 by (simp_all add: underway_def Let_def)
    have "underway img m0 timeout (n - 2) (linux_tick now' (linux_tick now (s, a)))"
      by (rule io_progress0 [OF u late tk]; (rule flight_read_commit [OF g(2) aim g(3), unfolded One_nat_def])?)
        (use h byte in simp_all)
    then show ?thesis using h by (intro forward_two) simp_all
  qed
qed

text \<open>The transfers of the body.\<close>

lemma chunk_at: "carries img c \<Longrightarrow> sc_write_offset c \<in> {0, 32} \<Longrightarrow>
    sc_write_offset c + chunk_size c \<in> {32, 63} \<and> 0 < chunk_size c \<and>
    ((94 - sc_write_offset c) div 32 :: nat) = (94 - (sc_write_offset c + chunk_size c)) div 32 + 1"
  by (auto simp: chunk_size_def body_size_def carries_def)

lemma body_progress:
  assumes u: "underway img m0 timeout n (s, a)" and img: "is_image img" and late: "\<not> UINT64_MAX - now < ucast timeout"
    and st: "sc_state (ss_context s) = STORAGE_STATE_WRITE_BODY"
  shows "forward img m0 timeout n now now' (s, a)"
proof -
  let ?c = "ss_context s" and ?o = "sc_write_offset (ss_context s)" and ?n = "chunk_size (ss_context s)" and ?t = "target_of m0"
  have g: "good s a" "carries img ?c" "length (la_memory a) = NV_SIZE" using u by (simp_all add: underway_def Let_def good_def)
  have h: "aimed m0 ?c (la_memory a)" "spoiled m0 (la_memory a)" "?o \<in> {0, 32, 63}"
    "take ?o (target_image m0 (la_memory a)) = take ?o img" "n = 12 + 2 * ((94 - ?o) div 32)"
    using u st by (simp_all add: underway_def Let_def)
  have b: "body_size ?c = 63" "sc_slot_buffer ?c = img @ replicate 32 0" using g(2) by (simp_all add: body_size_def carries_def)
  have tgt: "sc_target_address ?c = slot_base ?t" using h(1) by (simp add: aimed_def)
  note tk = active_tick [OF g(1), of now STORAGE_IO_SUBMIT_ACCEPTED, unfolded st, simplified, unfolded tick_state_def st Let_def,
      simplified, unfolded submit_write_def b(1)]
  show ?thesis
  proof (cases "?o = 63")
    case True
    let ?d = "?c\<lparr>sc_write_offset := 0, sc_state := STORAGE_STATE_READBACK_BODY\<rparr>"
    have "underway img m0 timeout (n - 1) (linux_tick now (s, a))"
    proof (rule still_underway [OF u, of now ?d])
      show "StorageService_Tick now STORAGE_IO_SUBMIT_ACCEPTED s = (s\<lparr>ss_context := ?d\<rparr>, None)" using tk True by simp
    qed (use g h True in \<open>simp_all add: same_data_def good_def\<close>)
    then show ?thesis using h(5) by (intro forward_one) simp_all
  next
    case False
    then have o: "?o < 63" "?o \<in> {0, 32}" using h(3) by auto
    have ch: "?o + ?n \<in> {32, 63}" "0 < ?n" "(94 - ?o) div 32 = (94 - (?o + ?n)) div 32 + 1" using chunk_at [OF g(2) o(2)] by simp_all
    let ?bs = "take ?n (drop ?o (sc_slot_buffer ?c))"
    have bs: "length ?bs = ?n" "?bs = take ?n (drop ?o img)" using ch(1) img by (auto simp: b(2) is_image_def)
    have "slot_at (nv_store (la_memory a) (slot_base ?t + ?o) ?bs) ?t = take ?o (target_image m0 (la_memory a)) @ ?bs @
        drop (?o + ?n) (target_image m0 (la_memory a))"
      using store_slot [OF g(3), of ?o ?bs ?t] ch(1) bs(1) by auto
    then have new: "take (?o + ?n) (slot_at (nv_store (la_memory a) (slot_base ?t + ?o) ?bs) ?t) = take (?o + ?n) img"
      using h(3,4) bs g(3) ch(1) by (auto simp: take_add min_def)
    have tk': "StorageService_Tick now STORAGE_IO_SUBMIT_ACCEPTED s =
        or_fail (submit_io (Io_write (sc_target_address ?c + ?o) ?bs) STORAGE_STATE_WRITE_BODY ?n now STORAGE_IO_SUBMIT_ACCEPTED s)"
      using tk o(1) by simp
    have "underway img m0 timeout (n - 2) (linux_tick now' (linux_tick now (s, a)))"
    proof (rule io_progress0 [OF u late tk'])
      fix tok :: storage_operation_token and d :: u64
      show "0 < io_size (Io_write (sc_target_address ?c + ?o) ?bs tok d)" unfolding io_size.simps bs(1) by (rule ch(2))
      show "flight img m0 (?c\<lparr>sc_io_success_state := STORAGE_STATE_WRITE_BODY, sc_io_advance_bytes := ?n\<rparr>) (la_memory a)
          (Io_write (sc_target_address ?c + ?o) ?bs tok d)"
        by (rule flight_body [OF h(1,2) g(3,2) img o(1)])
      show "let (c', m') = served (Io_write (sc_target_address ?c + ?o) ?bs tok d) (?c, la_memory a)
        in also_holds img m0 STORAGE_STATE_WRITE_BODY (c'\<lparr>sc_write_offset := ?o + ?n\<rparr>) m'"
        using new ch(1) by (auto simp: tgt)
      show "n = ticks_left STORAGE_STATE_WRITE_BODY (?o + ?n) + 2" using h(5) ch(3) by simp
    qed simp_all
    then show ?thesis using h(5) by (intro forward_two) simp_all
  qed
qed

lemma readback_progress:
  assumes u: "underway img m0 timeout n (s, a)" and img: "is_image img" and late: "\<not> UINT64_MAX - now < ucast timeout"
    and st: "sc_state (ss_context s) = STORAGE_STATE_READBACK_BODY"
  shows "forward img m0 timeout n now now' (s, a)"
proof -
  let ?c = "ss_context s" and ?o = "sc_write_offset (ss_context s)" and ?n = "chunk_size (ss_context s)"
  have g: "good s a" "carries img ?c" "length (la_memory a) = NV_SIZE" using u by (simp_all add: underway_def Let_def good_def)
  have h: "holds img m0 STORAGE_STATE_READBACK_BODY ?c (la_memory a)" "?o \<in> {0, 32, 63}"
    "take 63 (target_image m0 (la_memory a)) = take 63 img" "n = 7 + 2 * ((94 - ?o) div 32)"
    using u st by (simp_all add: underway_def Let_def)
  have b: "body_size ?c = 63" using g(2) by (simp add: body_size_def carries_def)
  note tk = active_tick [OF g(1), of now STORAGE_IO_SUBMIT_ACCEPTED, unfolded st, simplified, unfolded tick_state_def st Let_def,
      simplified, unfolded submit_read_def b]
  show ?thesis
  proof (cases "?o = 63")
    case True
    let ?d = "?c\<lparr>sc_state := STORAGE_STATE_VERIFY_BODY\<rparr>"
    have "underway img m0 timeout (n - 1) (linux_tick now (s, a))"
    proof (rule still_underway [OF u, of now ?d])
      show "StorageService_Tick now STORAGE_IO_SUBMIT_ACCEPTED s = (s\<lparr>ss_context := ?d\<rparr>, None)" using tk True by simp
    qed (use g h True in \<open>simp_all add: same_data_def good_def\<close>)
    then show ?thesis using h(4) True by (intro forward_one) simp_all
  next
    case False
    then have o: "?o < 63" "?o \<in> {0, 32}" using h(2) by auto
    have ch: "?o + ?n \<in> {32, 63}" "0 < ?n" "(94 - ?o) div 32 = (94 - (?o + ?n)) div 32 + 1" using chunk_at [OF g(2) o(2)] by simp_all
    have tk': "StorageService_Tick now STORAGE_IO_SUBMIT_ACCEPTED s =
        or_fail (submit_io (Io_read (sc_target_address ?c + ?o) (Into_readback ?o) ?n) STORAGE_STATE_READBACK_BODY ?n now
          STORAGE_IO_SUBMIT_ACCEPTED s)"
      using tk o(1) by simp
    have "underway img m0 timeout (n - 2) (linux_tick now' (linux_tick now (s, a)))"
    proof (rule io_progress0 [OF u late tk'])
      fix tok :: storage_operation_token and d :: u64
      show "0 < io_size (Io_read (sc_target_address ?c + ?o) (Into_readback ?o) ?n tok d)" unfolding io_size.simps by (rule ch(2))
      show "flight img m0 (?c\<lparr>sc_io_success_state := STORAGE_STATE_READBACK_BODY, sc_io_advance_bytes := ?n\<rparr>) (la_memory a)
          (Io_read (sc_target_address ?c + ?o) (Into_readback ?o) ?n tok d)"
        by (rule flight_readback [OF h(1) g(3,2) o(1)])
      show "let (c', m') = served (Io_read (sc_target_address ?c + ?o) (Into_readback ?o) ?n tok d) (?c, la_memory a)
        in also_holds img m0 STORAGE_STATE_READBACK_BODY (c'\<lparr>sc_write_offset := ?o + ?n\<rparr>) m'"
        using h(3) ch(1) by auto
      show "n = ticks_left STORAGE_STATE_READBACK_BODY (?o + ?n) + 2" using h(4) ch(3) by simp
    qed simp_all
    then show ?thesis using h(4) by (intro forward_two) simp_all
  qed
qed

lemma check_progress:
  assumes u: "underway img m0 timeout n (s, a)" and img: "is_image img"
    and st: "sc_state (ss_context s) \<in> {STORAGE_STATE_CHECK_INVALIDATE, STORAGE_STATE_VERIFY_BODY, STORAGE_STATE_CHECK_COMMIT}"
  shows "forward img m0 timeout n now now' (s, a)"
proof -
  let ?c = "ss_context s"
  have g: "good s a" "carries img ?c" "length (la_memory a) = NV_SIZE" using u by (simp_all add: underway_def Let_def good_def)
  have b: "body_size ?c = 63" "sc_slot_buffer ?c = img @ replicate 32 0" using g(2) by (simp_all add: body_size_def carries_def)
  consider "sc_state ?c = STORAGE_STATE_CHECK_INVALIDATE" | "sc_state ?c = STORAGE_STATE_VERIFY_BODY"
    | "sc_state ?c = STORAGE_STATE_CHECK_COMMIT" using st by auto
  then show ?thesis
  proof cases
    case 1
    let ?d = "?c\<lparr>sc_write_offset := 0, sc_state := STORAGE_STATE_WRITE_BODY\<rparr>"
    have h: "n = 17" "sc_io_byte ?c = 0" "holds img m0 STORAGE_STATE_CHECK_INVALIDATE ?c (la_memory a)"
      using u 1 by (auto simp: underway_def Let_def)
    have "spoiled m0 (la_memory a)" using h(2,3) by (auto simp: spoiled_def)
    then have "underway img m0 timeout (n - 1) (linux_tick now (s, a))"
      using h g active_tick [OF g(1), of now STORAGE_IO_SUBMIT_ACCEPTED] 1
      by (intro still_underway [OF u, of now ?d]) (simp_all add: same_data_def good_def tick_state_def)
    then show ?thesis using h(1) by (intro forward_one) simp_all
  next
    case 2
    let ?d = "?c\<lparr>sc_state := STORAGE_STATE_COMMIT\<rparr>"
    have h: "n = 6" "take 63 (target_image m0 (la_memory a)) = take 63 img" "holds img m0 STORAGE_STATE_VERIFY_BODY ?c (la_memory a)"
      using u 2 by (simp_all add: underway_def Let_def)
    have "take 63 (sc_slot_buffer ?c) = take 63 (sc_readback ?c)" using h(2,3) img by (simp add: b is_image_def)
    then have "underway img m0 timeout (n - 1) (linux_tick now (s, a))"
      using h g b(1) active_tick [OF g(1), of now STORAGE_IO_SUBMIT_ACCEPTED] 2
      by (intro still_underway [OF u, of now ?d]) (simp_all add: same_data_def good_def tick_state_def)
    then show ?thesis using h(1) by (intro forward_one) simp_all
  next
    case 3
    have h: "n = 1" "sc_io_byte ?c = PERSIST_COMMIT_VALID" "holds img m0 STORAGE_STATE_CHECK_COMMIT ?c (la_memory a)"
      using u 3 by (auto simp: underway_def Let_def)
    have "StorageService_Tick now STORAGE_IO_SUBMIT_ACCEPTED s = (finish_commit STORAGE_COMMIT_OK s, None)"
      using active_tick [OF g(1), of now STORAGE_IO_SUBMIT_ACCEPTED] 3 h(2) by (simp add: tick_state_def)
    then have t: "linux_tick now (s, a) = (finish_commit STORAGE_COMMIT_OK s, a)" by (rule tick_no_request)
    have "target_image m0 (la_memory a) = committed img" using whole_image [OF img g(3)] h(2,3) by simp
    then have "finished img m0 (linux_tick now (s, a))"
      using h(3) g(3) by (simp add: t finished_def finish_commit_def Let_def)
    then show ?thesis using h(1) by (simp add: forward_def)
  qed
qed

lemma progress:
  assumes u: "underway img m0 timeout n x" and "is_image img" and "target_of m0 \<noteq> SLOT_INDEX_NONE"
    and "\<not> UINT64_MAX - now < ucast timeout"
  shows "forward img m0 timeout n now now' x"
proof -
  obtain s a where x: "x = (s, a)" by (cases x)
  note p = scan_progress [of img m0 timeout n s a now now'] prepare_progress [of img m0 timeout n s a now now']
    commit_byte_progress [of img m0 timeout n s a now now'] read_byte_progress [of img m0 timeout n s a now now']
    body_progress [of img m0 timeout n s a now now'] readback_progress [of img m0 timeout n s a now now']
    check_progress [of img m0 timeout n s a now now']
  have "\<not> is_terminal (sc_state (ss_context s))" "\<not> is_restore_state (sc_state (ss_context s))"
    using u by (simp_all add: x underway_def Let_def)
  then show ?thesis using p assms unfolding x by (cases "sc_state (ss_context s)") simp_all
qed

lemma underway_left: "underway img m0 timeout n x \<Longrightarrow> 1 \<le> n"
  by (cases x, cases "sc_state (ss_context (fst x))") (simp_all add: underway_def Let_def)

lemma run_finishes:
  assumes "is_image img" "target_of m0 \<noteq> SLOT_INDEX_NONE"
  shows "underway img m0 timeout n x \<Longrightarrow> length nows = n \<Longrightarrow> \<forall>now \<in> set nows. \<not> UINT64_MAX - now < ucast timeout \<Longrightarrow>
    finished img m0 (linux_run nows x)"
proof (induction n arbitrary: x nows rule: less_induct)
  case (less n)
  obtain now rest where nows: "nows = now # rest" using less.prems(2) underway_left [OF less.prems(1)] by (cases nows) auto
  show ?case
  proof (cases rest)
    case Nil
    have "forward img m0 timeout n now 0 x" using less.prems assms nows by (intro progress) simp_all
    moreover have "n = 1" using less.prems(2) nows Nil by simp
    ultimately show ?thesis by (simp add: forward_def linux_run_def nows Nil)
  next
    case (Cons now' rest')
    have "forward img m0 timeout n now now' x" using less.prems assms nows by (intro progress) simp_all
    moreover have "finished img m0 (linux_run rest (linux_tick now x))"
      if "2 \<le> n" "underway img m0 timeout (n - 1) (linux_tick now x)"
      using less.IH [of "n - 1" "linux_tick now x" rest] that less.prems nows by simp
    moreover have "finished img m0 (linux_run rest' (linux_tick now' (linux_tick now x)))"
      if "2 \<le> n" "underway img m0 timeout (n - 2) (linux_tick now' (linux_tick now x))"
      using less.IH [of "n - 2" "linux_tick now' (linux_tick now x)" rest'] that less.prems nows Cons by simp
    moreover have "n \<noteq> 1" using less.prems(2) nows Cons by simp
    ultimately show ?thesis by (auto simp: forward_def linux_run_def nows Cons)
  qed
qed

lemma run_until_last:
  assumes "is_image img" "target_of m0 \<noteq> SLOT_INDEX_NONE"
  shows "underway img m0 timeout n x \<Longrightarrow> Suc (length nows) = n \<Longrightarrow> \<forall>now \<in> set nows. \<not> UINT64_MAX - now < ucast timeout \<Longrightarrow>
    underway img m0 timeout 1 (linux_run nows x)"
proof (induction n arbitrary: x nows rule: less_induct)
  case (less n)
  show ?case
  proof (cases nows)
    case Nil
    then show ?thesis using less.prems by (simp add: linux_run_def)
  next
    case now: (Cons now rest)
    have n: "2 \<le> n" "n \<noteq> 1" using less.prems(2) now by simp_all
    have one: "underway img m0 timeout 1 (linux_run rest (linux_tick now x))"
      if "underway img m0 timeout (n - 1) (linux_tick now x)"
      using less.IH [of "n - 1" "linux_tick now x" rest] that less.prems now n by simp
    show ?thesis
    proof (cases rest)
      case Nil
      have "forward img m0 timeout n now 0 x" using less.prems assms now by (intro progress) simp_all
      moreover have "n = 2" using less.prems(2) now Nil by simp
      ultimately show ?thesis using one underway_left [of img m0 timeout 0 "linux_tick 0 (linux_tick now x)"]
        by (auto simp: forward_def linux_run_def now Nil)
    next
      case (Cons now' rest')
      have "forward img m0 timeout n now now' x" using less.prems assms now by (intro progress) simp_all
      moreover have "underway img m0 timeout 1 (linux_run rest' (linux_tick now' (linux_tick now x)))"
        if "underway img m0 timeout (n - 2) (linux_tick now' (linux_tick now x))"
        using less.IH [of "n - 2" "linux_tick now' (linux_tick now x)" rest'] that less.prems now Cons n by simp
      ultimately show ?thesis using one n by (auto simp: forward_def linux_run_def now Cons)
    qed
  qed
qed

text \<open>Only taking the completion clears it: a tick keeps it.\<close>

lemma finish_commit_ready: "ss_completion_ready (finish_commit st s)"
  by (simp add: finish_commit_def Let_def)

lemma fail_io_ready: "ss_completion_ready s \<Longrightarrow> ss_completion_ready (fail_io result s)"
  by (simp add: fail_io_def finish_commit_ready)

lemma submit_io_ready:
  assumes "ss_completion_ready s"
  shows "ss_completion_ready (fst (or_fail (submit_io r st adv now ans s)))"
proof -
  have "ss_completion_ready (snd (next_token s))" using assms by (simp add: next_token_def Let_def)
  then show ?thesis using assms by (auto simp: or_fail_def submit_io_def Let_def fail_io_ready split: prod.split)
qed

lemma tick_keeps_ready: "ss_completion_ready s \<Longrightarrow> ss_completion_ready (fst (StorageService_Tick now ans s))"
proof -
  assume r: "ss_completion_ready s"
  have "ss_completion_ready (snd (consume_io_completion s))" using r by (simp add: consume_io_completion_def Let_def fail_io_ready)
  moreover have "ss_completion_ready (fst (tick_state now ans s))"
    using r by (cases "sc_state (ss_context s)")
      (simp_all add: tick_state_def Let_def submit_read_def submit_write_def submit_io_ready finish_commit_ready choose_target_def
        decode_restore_def split: prod.split)
  ultimately show ?thesis using r by (simp add: StorageService_Tick_def Let_def)
qed

lemma linux_tick_keeps_ready: "ss_completion_ready (fst x) \<Longrightarrow> ss_completion_ready (fst (linux_tick now x))"
proof -
  assume r: "ss_completion_ready (fst x)"
  have t: "ss_completion_ready (fst (StorageService_Tick now ans (fst x)))" for ans using r by (rule tick_keeps_ready)
  have d: "ss_completion_ready (deliver dest bs s) = ss_completion_ready s" for dest bs s by (simp add: deliver_def)
  have "ss_completion_ready (snd (snd (complete_operation req a s)))" if "ss_completion_ready s" for req a s
    using that by (cases req) (simp_all add: complete_operation_def StorageService_OnIoCompletion_def d Let_def)
  then show ?thesis using t [of STORAGE_IO_SUBMIT_ACCEPTED] t
    by (auto simp: linux_tick_def case_prod_unfold split: option.split)
qed

lemma linux_run_keeps_ready: "ss_completion_ready (fst x) \<Longrightarrow> ss_completion_ready (fst (linux_run nows x))"
  by (induction nows arbitrary: x) (simp_all add: linux_run_def linux_tick_keeps_ready)

lemma linux_run_append: "linux_run (xs @ ys) x = linux_run ys (linux_run xs x)"
  by (simp add: linux_run_def)

lemma not_late: "uint now + uint (t :: u32) < 2 ^ 64 \<Longrightarrow> \<not> UINT64_MAX - now < ucast t" for now :: u64
proof -
  assume *: "uint now + uint t < 2 ^ 64"
  have "uint (UINT64_MAX - now) = 2 ^ 64 - 1 - uint now"
    using uint_bounded [of now] uint_ge_0 [of now]
    by (simp add: uint_word_ariths) (subst mod_pos_pos_trivial, simp_all add: less_le_trans [of "- 1" 0])
  moreover have "take_bit 64 (uint t) = uint t"
    by (rule take_bit_int_eq_self) (use uint_ge_0 [of t] uint_bounded [of t] in simp_all)
  ultimately show ?thesis using * by (simp add: word_less_def unsigned_ucast_eq unsigned_take_bit_eq)
qed

section \<open>Restore\<close>

lemma restore_tick: "good s a \<Longrightarrow> sc_state (ss_context s) \<in> {STORAGE_STATE_RESTORE_SCAN_A, STORAGE_STATE_RESTORE_SCAN_B, STORAGE_STATE_RESTORE_DECODE} \<Longrightarrow>
  StorageService_Tick now ans s = tick_state now ans s"
  by (auto simp: StorageService_Tick_def good_def Let_def)

definition scanned :: "nv_array \<Rightarrow> storage_service_context \<Rightarrow> bool" where
  "scanned m c \<longleftrightarrow> length (sc_scan_a c) = 96 \<and> length (sc_scan_b c) = 96 \<and>
     (sc_state c \<in> {STORAGE_STATE_RESTORE_SCAN_B, STORAGE_STATE_RESTORE_DECODE} \<longrightarrow> take 64 (sc_scan_a c) = slot_at m 0) \<and>
     (sc_state c = STORAGE_STATE_RESTORE_DECODE \<longrightarrow> take 64 (sc_scan_b c) = slot_at m 1)"

lemma restore_scan:
  assumes g: "good s a" and late: "\<not> UINT64_MAX - now < ucast (ss_io_timeout_us s)" and sc: "scanned (la_memory a) (ss_context s)"
    and st: "(sc_state (ss_context s), st) \<in> {(STORAGE_STATE_RESTORE_SCAN_A, STORAGE_STATE_RESTORE_SCAN_B),
      (STORAGE_STATE_RESTORE_SCAN_B, STORAGE_STATE_RESTORE_DECODE)}"
  obtains s' a' where "linux_tick now' (linux_tick now (s, a)) = (s', a')" "good s' a'" "la_memory a' = la_memory a"
    "scanned (la_memory a') (ss_context s')" "sc_state (ss_context s') = st" "ss_io_timeout_us s' = ss_io_timeout_us s"
proof -
  let ?c = "ss_context s"
  have len: "length (la_memory a) = NV_SIZE" using g by (simp add: good_def)
  define r where "r = (if sc_state ?c = STORAGE_STATE_RESTORE_SCAN_A then Io_read 0x140 Into_scan_a 64 else Io_read 0x180 Into_scan_b 64)"
  have self: "s\<lparr>ss_context := ?c\<rparr> = s" by simp
  have tk: "StorageService_Tick now STORAGE_IO_SUBMIT_ACCEPTED s =
      or_fail (submit_io r st 0 now STORAGE_IO_SUBMIT_ACCEPTED (s\<lparr>ss_context := ?c\<rparr>))"
    using restore_tick [OF g, of now STORAGE_IO_SUBMIT_ACCEPTED] st unfolding self r_def
    by (auto simp: tick_state_def Let_def submit_read_def)
  obtain s' a' tok d where two: "linux_tick now' (linux_tick now (s, a)) = (s', a')" "good s' a'"
    "after_io s (fst (served (r tok d) (?c, la_memory a))) st 0 s'" "la_memory a' = snd (served (r tok d) (?c, la_memory a))"
    by (rule linux_io [OF g late tk]) (auto simp: r_def)
  have "la_memory a' = la_memory a" using two(4) by (simp add: r_def)
  moreover have "scanned (la_memory a) (ss_context s')"
    using two(3) sc st length_slot_at [OF len, of 0] length_slot_at [OF len, of 1]
    by (auto simp: scanned_def after_io_def same_data_def r_def put_block_def slot_at_def)
  ultimately show ?thesis using two(1-3) by (intro that [of s' a']) (simp_all add: after_io_def)
qed

lemma le_read64_prefix: "i + 8 \<le> length xs \<Longrightarrow> le_read64 (xs @ ys) i = le_read64 xs i"
  by (simp add: le_read64_def nth_append)

lemma decode_prefix: "length xs = 64 \<Longrightarrow> StorageRecord_DecodeVolume (Some (xs @ ys)) = StorageRecord_DecodeVolume (Some xs)"
  by (simp add: StorageRecord_DecodeVolume_def le_read32_prefix le_read16_prefix le_read64_prefix nth_append Let_def)

lemma decode_buffer: "take 64 p = b \<Longrightarrow> length p = 96 \<Longrightarrow>
  StorageRecord_DecodeVolume (Some p) = StorageRecord_DecodeVolume (Some b) \<and> le_read32 p 8 = le_read32 b 8"
proof -
  assume "take 64 p = b" "length p = 96"
  then have "p = b @ drop 64 p" "length b = 64" by (auto simp flip: \<open>take 64 p = b\<close>)
  then show ?thesis using decode_prefix [of b "drop 64 p"] le_read32_prefix [of 8 b "drop 64 p"] by simp
qed

lemma decode_restore_boot:
  assumes "scanned m (ss_context s)" "sc_state (ss_context s) = STORAGE_STATE_RESTORE_DECODE"
  shows "(ss_restore_status (decode_restore s) = STORAGE_RESTORE_OK \<longleftrightarrow> boot_volume m \<noteq> None) \<and>
    (\<forall>q v. boot_volume m = Some (q, v) \<longrightarrow>
       rv_record_sequence (ss_restored_volume (decode_restore s)) = q \<and> rv_payload (ss_restored_volume (decode_restore s)) = v)"
proof -
  let ?c = "ss_context s"
  have sc: "take 64 (sc_scan_a ?c) = slot_at m 0" "take 64 (sc_scan_b ?c) = slot_at m 1" "length (sc_scan_a ?c) = 96" "length (sc_scan_b ?c) = 96"
    using assms by (simp_all add: scanned_def)
  have sel: "select_volume (sc_scan_a ?c) (sc_scan_b ?c) = select_volume (slot_at m 0) (slot_at m 1)"
    by (rule select_buffers [OF sc])
  note da = decode_buffer [OF sc(1,3)] and db = decode_buffer [OF sc(2,4)]
  have nf: "classify_restore_failure x \<noteq> STORAGE_RESTORE_OK" for x by (simp add: classify_restore_failure_def Let_def)
  let ?sel = "select_volume (slot_at m 0) (slot_at m 1)"
  show ?thesis
  proof (cases "sel_status ?sel = SLOT_SELECTION_SELECTED")
    case False
    then show ?thesis using nf by (simp add: decode_restore_def sel boot_volume_def durable_def chosen_def Let_def)
  next
    case True
    let ?r = "if sel_selected_slot ?sel = 0 then slot_at m 0 else slot_at m 1"
    have ch: "durable m = Some ?r" using True by (simp add: durable_def chosen_def Let_def)
    have "slot_valid ?r" by (rule chosen_valid [of "slot_at m 0" "slot_at m 1"]) (use ch in \<open>simp only: durable_def\<close>)
    then have "StorageRecord_DecodeVolume (Some ?r) \<noteq> None" by (rule valid_decodes)
    then obtain v where v: "StorageRecord_DecodeVolume (Some ?r) = Some v" by auto
    then show ?thesis using True da db
      by (cases "sel_selected_slot ?sel = 0") (simp_all add: decode_restore_def sel boot_volume_def ch Let_def)
  qed
qed

section \<open>The service over the adapter\<close>

lemma submitted_underway:
  assumes "StorageService_SubmitCheckpoint PERSIST_RECORD_VOLUME sq (volume_slot sq v crc b) 64 ver s0 = (STORAGE_OK, s)"
    "good s0 a"
  shows "underway (volume_slot sq v crc b) (la_memory a) (ss_io_timeout_us s0) 26 (s, a)"
proof -
  have inv: "nv_inv (volume_slot sq v crc b) (la_memory a) (s, la_memory a, None)"
    using started_inv [OF assms(1), of "la_memory a"] assms(2) unfolding good_def by blast
  have "prepare_active_candidate 3 sq (volume_slot sq v crc b) 64 ver s0 = Some s"
    using assms(1) by (auto simp: StorageService_SubmitCheckpoint_def Let_def split: if_splits option.splits)
  then have "sc_state (ss_context s) = STORAGE_STATE_SCAN_A" "good s a" "ss_io_timeout_us s = ss_io_timeout_us s0"
    using assms(2) by (auto simp: prepare_active_candidate_def slot_size_for_def Let_def good_def)
  then show ?thesis using inv by (simp add: underway_def Let_def good_def settled_def)
qed

text \<open>C10: over the Linux adapter an accepted checkpoint completes in exactly 26 ticks.  Let the adapter be bound and idle, the
  slots writable (neither slot protected, no conflict of sequences), the record newer than the one boot would select, and no tick within the I/O
  timeout of the end of time.  Then the completion becomes ready with the 26th tick and no earlier, whatever the times of the ticks; it
  reports success, and boot then selects the new record.\<close>

theorem linux_checkpoint_completes:
  assumes "good s0 a" "target_of (la_memory a) \<noteq> SLOT_INDEX_NONE"
    and "StorageRecord_EncodeVolume sq v = Some img"
    and "StorageService_SubmitCheckpoint PERSIST_RECORD_VOLUME sq img SLOT_VOLUME_SIZE ver s0 = (STORAGE_OK, s)"
    and "\<forall>q w. boot_volume (la_memory a) = Some (q, w) \<longrightarrow> newer sq q"
    and "length nows = 26" "\<forall>now \<in> set nows. uint now + uint (ss_io_timeout_us s0) < 2 ^ 64"
  shows "(\<forall>k < 26. \<not> ss_completion_ready (fst (linux_run (take k nows) (s, a)))) \<and>
    (\<exists>s' a'. linux_run nows (s, a) = (s', a') \<and> sc_state (ss_context s') = STORAGE_STATE_COMPLETE \<and>
       ss_completion_ready s' \<and> cp_status (ss_last_completion s') = STORAGE_COMMIT_OK \<and> boot_volume (la_memory a') = Some (sq, v))"
proof -
  let ?m0 = "la_memory a"
  have ok: "volume_payload_ok v" and img: "img = volume_slot sq v (volume_crc sq v) PERSIST_COMMIT_INVALID"
    using assms(3) by (auto simp: encode_volume_eq split: if_splits)
  have com: "committed img = volume_slot sq v (volume_crc sq v) PERSIST_COMMIT_VALID"
    by (simp add: img committed_def volume_slot_put_commit)
  have valid: "slot_valid (committed img)" using classify_volume_slot [OF ok] by (simp add: com)
  have late: "\<forall>now \<in> set nows. \<not> UINT64_MAX - now < ucast (ss_io_timeout_us s0)"
    using assms(7) not_late by blast
  have u: "underway img ?m0 (ss_io_timeout_us s0) 26 (s, a)" using submitted_underway assms(1,4) unfolding img by blast
  have "is_image img" by (simp add: img is_image_def)
  then have fin: "finished img ?m0 (linux_run nows (s, a))" using run_finishes [OF _ assms(2) u assms(6) late] by blast
  obtain s' a' where r: "linux_run nows (s, a) = (s', a')" by (cases "linux_run nows (s, a)")
  have "durable (la_memory a') = Some (committed img)"
    using fin new_durable [of "la_memory a'" ?m0 img] newer_stored [OF assms(5)] valid assms(1)
    by (simp add: r finished_def aimed_def good_def com)
  then have "boot_volume (la_memory a') = Some (sq, v)" using ok by (simp add: boot_volume_def com decode_volume_slot)
  moreover have "\<not> ss_completion_ready (fst (linux_run (take k nows) (s, a)))" if "k < 26" for k
  proof
    assume "ss_completion_ready (fst (linux_run (take k nows) (s, a)))"
    then have "ss_completion_ready (fst (linux_run (take k nows @ drop k (take 25 nows)) (s, a)))"
      by (simp add: linux_run_append linux_run_keeps_ready)
    moreover have "take k nows @ drop k (take 25 nows) = take 25 nows"
      using that append_take_drop_id [of k "take 25 nows"] by (simp add: min_absorb1)
    moreover have "underway img ?m0 (ss_io_timeout_us s0) 1 (linux_run (take 25 nows) (s, a))"
      by (rule run_until_last [OF \<open>is_image img\<close> assms(2) u]) (use assms(6) late in \<open>auto dest: in_set_takeD\<close>)
    ultimately show False by (cases "linux_run (take 25 nows) (s, a)") (simp add: underway_def good_def Let_def)
  qed
  ultimately show ?thesis using fin r by (simp add: finished_def)
qed

definition sample_adapter :: linux_storage_adapter where
  "sample_adapter = snd (bind_completion storage_port_linux_init)"

lemma sample_adapter_good: "good sample_service sample_adapter" "la_memory sample_adapter = replicate 512 0"
  by (simp_all add: good_def sample_adapter_def bind_completion_def storage_port_linux_init_def sample_service_def
      StorageService_Init_def zero_context_def)

lemma blank_target: "target_of (replicate 512 0) = 0"
proof -
  have "slot_at (replicate 512 0) t = replicate 64 0" for t
    using slot_base_bound [of t] by (simp add: slot_at_def nv_load_def)
  then show ?thesis
    by (simp add: target_of_def ab_slot_choose_target_def ab_slot_select_def StorageRecord_ClassifySlot_def slot_reason_is_protected_def)
qed

lemma linux_checkpoint_completes_witness:
  "\<exists>s' a'. linux_run (replicate 26 7) (sample_started, sample_adapter) = (s', a') \<and> boot_volume (la_memory a') = Some (9, sample_volume)"
proof -
  have enc: "StorageRecord_EncodeVolume 9 sample_volume = Some sample_image"
    by (simp add: encode_volume_eq sample_image_def volume_payload_ok_def sample_volume_def)
  have sub: "StorageService_SubmitCheckpoint PERSIST_RECORD_VOLUME 9 sample_image SLOT_VOLUME_SIZE 1 sample_service =
      (STORAGE_OK, sample_started)"
    by (simp add: sample_started_def sample_service_def StorageService_Init_def StorageService_SubmitCheckpoint_def Let_def
        prepare_active_candidate_def slot_size_for_def zero_context_def)
  have "ss_io_timeout_us sample_service = 1000" by (simp add: sample_service_def StorageService_Init_def)
  then show ?thesis
    using linux_checkpoint_completes [OF sample_adapter_good(1) _ enc sub, of "replicate 26 7"] sample_adapter_good(2)
      boot_volume_blank blank_target by auto
qed

text \<open>Over the Linux adapter a restore takes five ticks and returns what boot selects: it succeeds
  exactly when a valid record is stored, and then delivers that record's sequence and values.\<close>

theorem linux_restore_returns_boot:
  assumes "good s0 a" "StorageService_StartRestoreVolume s0 = (STORAGE_OK, s)"
    and "uint t1 + uint (ss_io_timeout_us s0) < 2 ^ 64" "uint t3 + uint (ss_io_timeout_us s0) < 2 ^ 64"
  shows "\<exists>status restored s' a'.
    StorageService_TakeRestoredVolume (fst (linux_run [t1, t2, t3, t4, t5] (s, a))) = Some (status, restored, s') \<and>
    linux_run [t1, t2, t3, t4, t5] (s, a) = (fst (linux_run [t1, t2, t3, t4, t5] (s, a)), a') \<and>
    la_memory a' = la_memory a \<and> (status = STORAGE_RESTORE_OK \<longleftrightarrow> boot_volume (la_memory a) \<noteq> None) \<and>
    (\<forall>q v. boot_volume (la_memory a) = Some (q, v) \<longrightarrow> rv_record_sequence restored = q \<and> rv_payload restored = v)"
proof -
  have s: "good s a" "sc_state (ss_context s) = STORAGE_STATE_RESTORE_SCAN_A" "scanned (la_memory a) (ss_context s)"
    "ss_io_timeout_us s = ss_io_timeout_us s0"
    using assms(1,2) by (auto simp: StorageService_StartRestoreVolume_def good_def scanned_def zero_slot_def Let_def split: if_splits)
  obtain s1 a1 where one: "linux_tick t2 (linux_tick t1 (s, a)) = (s1, a1)" "good s1 a1" "la_memory a1 = la_memory a"
    "scanned (la_memory a1) (ss_context s1)" "sc_state (ss_context s1) = STORAGE_STATE_RESTORE_SCAN_B"
    "ss_io_timeout_us s1 = ss_io_timeout_us s"
    by (rule restore_scan [OF s(1) _ s(3), of t1 STORAGE_STATE_RESTORE_SCAN_B t2]) (use s assms(3) not_late in simp_all)
  obtain s2 a2 where two: "linux_tick t4 (linux_tick t3 (s1, a1)) = (s2, a2)" "good s2 a2" "la_memory a2 = la_memory a1"
    "scanned (la_memory a2) (ss_context s2)" "sc_state (ss_context s2) = STORAGE_STATE_RESTORE_DECODE"
    by (rule restore_scan [OF one(2) _ one(4), of t3 STORAGE_STATE_RESTORE_DECODE t4]) (use s one assms(4) not_late in simp_all)
  have "StorageService_Tick t5 STORAGE_IO_SUBMIT_ACCEPTED s2 = (decode_restore s2, None)"
    using restore_tick [OF two(2)] two(5) by (simp add: tick_state_def Let_def)
  then have "linux_tick t5 (s2, a2) = (decode_restore s2, a2)" by (rule tick_no_request)
  then have r: "linux_run [t1, t2, t3, t4, t5] (s, a) = (decode_restore s2, a2)" by (simp add: linux_run_def one two)
  have "ss_restore_ready (decode_restore s2)" by (simp add: decode_restore_def Let_def case_prod_unfold)
  then show ?thesis
    using decode_restore_boot [OF two(4,5)] two(3) one(3) by (simp add: r StorageService_TakeRestoredVolume_def)
qed

text \<open>A reboot on a memory that holds the sample record in slot A.\<close>

definition sample_memory :: nv_array where
  "sample_memory = nv_store (replicate 512 0) 0x140
     (volume_slot 9 sample_volume (volume_crc 9 sample_volume) PERSIST_COMMIT_VALID)"

lemma sample_memory_boot: "boot_volume sample_memory = Some (9, sample_volume)" "length sample_memory = NV_SIZE"
proof -
  let ?r = "volume_slot 9 sample_volume (volume_crc 9 sample_volume) PERSIST_COMMIT_VALID"
  have ok: "volume_payload_ok sample_volume" by (simp add: volume_payload_ok_def sample_volume_def)
  have a: "slot_at sample_memory 0 = ?r"
    using store_slot [where m = "replicate 512 0" and off = 0 and bs = ?r and t = 0] by (simp add: sample_memory_def)
  have "slot_at sample_memory 1 = slot_at (replicate 512 0) 1"
    using nv.load_store_apart [where m = "replicate 512 0" and a = 320 and bs = ?r and b = 384 and n = 64] by (simp add: sample_memory_def slot_at_def nv_ok_def)
  then have b: "slot_at sample_memory 1 = replicate 64 0" by (simp add: slot_at_def nv_load_def)
  have "slot_valid ?r" by (rule classify_volume_slot [OF ok])
  moreover have "\<not> slot_valid (replicate 64 0)" by (simp add: StorageRecord_ClassifySlot_def)
  ultimately have "durable sample_memory = Some ?r" by (simp add: durable_def a b chosen_one_valid)
  then show "boot_volume sample_memory = Some (9, sample_volume)" using ok by (simp add: boot_volume_def decode_volume_slot)
  show "length sample_memory = NV_SIZE" using nv.store_ok [where m = "replicate 512 0" and a = 320 and bs = ?r] by (simp add: sample_memory_def nv_ok_def)
qed

lemma linux_restore_returns_boot_witness:
  "\<exists>restored s'. StorageService_TakeRestoredVolume (fst (linux_run [1, 2, 3, 4, 5]
     (snd (StorageService_StartRestoreVolume sample_service), sample_adapter\<lparr>la_memory := sample_memory\<rparr>))) =
       Some (STORAGE_RESTORE_OK, restored, s') \<and> rv_payload restored = sample_volume"
proof -
  have g: "good sample_service (sample_adapter\<lparr>la_memory := sample_memory\<rparr>)"
    using sample_adapter_good(1) sample_memory_boot(2) by (simp add: good_def)
  have st: "StorageService_StartRestoreVolume sample_service = (STORAGE_OK, snd (StorageService_StartRestoreVolume sample_service))"
    by (simp add: StorageService_StartRestoreVolume_def sample_service_def StorageService_Init_def zero_context_def)
  have "ss_io_timeout_us sample_service = 1000" by (simp add: sample_service_def StorageService_Init_def)
  then show ?thesis using linux_restore_returns_boot [OF g st, of 1 3 2 4 5] sample_memory_boot(1) by auto
qed

end
