(* ===== verification/Volume.thy ===== *)
theory Volume
  imports Domain_Types
begin

text \<open>
  The volume accumulator (services/volume/volume_accumulator.c) and the checkpoint policy
  (services/storage/checkpoint_policy.c).

  A flow is integrated with the previous sample as anchor; \<open>\<bar>flow\<bar> * dt\<close> is in units of
  microlitres / 10^6, and the fraction below one microlitre is carried.  The specification is exact
  integration over the integers.
\<close>

unbundle bit_operations_syntax

section \<open>Data\<close>

datatype volume_consume_status =
    VOLUME_OK | VOLUME_ANCHORED | VOLUME_ZERO_INTERVAL | VOLUME_REJECTED_NON_PRODUCTION
  | VOLUME_REJECTED_INVALID | VOLUME_REJECTED_STALE | VOLUME_REJECTED_DUPLICATE | VOLUME_REJECTED_GENERATION
  | VOLUME_REJECTED_BINDING | VOLUME_REJECTED_TIME | VOLUME_OVERFLOW | VOLUME_INTERNAL_ERROR

datatype volume_checkpoint_status =
  VOLUME_CHECKPOINT_IDLE | VOLUME_CHECKPOINT_TRIGGERED | VOLUME_CHECKPOINT_IN_FLIGHT | VOLUME_CHECKPOINT_FAILED

record volume_config =
  vc_config_version :: u32
  vc_maximum_integration_gap_us :: u64
  vc_max_uncheckpointed_volume_ul :: u64
  vc_max_interval_s :: u32
  vc_min_spacing_s :: u32

record checkpoint_candidate =
  cc_checkpoint_sequence :: u64
  cc_state_version :: u64
  cc_forward_volume_ul :: u64
  cc_reverse_volume_ul :: u64
  cc_forward_remainder :: u64
  cc_reverse_remainder :: u64
  cc_last_consumed_flow_sequence :: u64
  cc_last_sample_monotonic_us :: u64
  cc_source_generation :: u32
  cc_binding_id :: u32

record volume_accumulator =
  va_config :: volume_config
  va_state :: volume_state
  va_anchor_valid :: bool
  va_anchor_sample_us :: u64
  va_anchor_flow_ul_per_s :: i64
  va_anchor_source_generation :: u32
  va_anchor_binding_id :: u32
  va_forward_rem :: u64
  va_reverse_rem :: u64
  va_last_gen :: u32
  va_last_seq :: u64
  va_last_ver :: u64
  va_source_generation :: u32
  va_diag_seen :: u64
  va_diag_consumed :: u64
  va_diag_nonprod_rejected :: u64
  va_diag_invalid_rejected :: u64
  va_diag_duplicate_rejected :: u64
  va_diag_stale_rejected :: u64
  va_diag_gap_reanchored :: u64
  va_diag_gen_reanchored :: u64
  va_diag_time_faults :: u64

section \<open>Operations\<close>

abbreviation VOLUME_TIME_SCALE_US_PER_S :: u64 where "VOLUME_TIME_SCALE_US_PER_S \<equiv> 1000000"

text \<open>None is overflow (the C functions return true and leave the result alone).\<close>

definition vol_checked_mul_u64 :: "u64 \<Rightarrow> u64 \<Rightarrow> u64 option" where
  "vol_checked_mul_u64 a b = (if a > 0 \<and> b > UINT64_MAX div a then None else Some (a * b))"

definition vol_checked_add_u64 :: "u64 \<Rightarrow> u64 \<Rightarrow> u64 option" where
  "vol_checked_add_u64 a b = (if a > UINT64_MAX - b then None else Some (a + b))"

definition state_bump :: "u64 \<Rightarrow> volume_accumulator \<Rightarrow> volume_accumulator" where
  "state_bump now s =
     s\<lparr>va_state := (va_state s)\<lparr>vs_state_version := vs_state_version (va_state s) + 1, vs_updated_monotonic_us := now\<rparr>\<rparr>"

definition state_publish_identity :: "result_metadata \<Rightarrow> u64 \<Rightarrow> volume_accumulator \<Rightarrow> volume_accumulator" where
  "state_publish_identity m now s =
     s\<lparr>va_state := (va_state s)\<lparr>vs_last_consumed_flow_sequence := md_sample_sequence m,
       vs_last_sample_monotonic_us := now, vs_anchor_sample_monotonic_us := va_anchor_sample_us s,
       vs_anchor_flow_ul_per_s := va_anchor_flow_ul_per_s s, vs_source_generation := md_source_generation m,
       vs_binding_id := mb_binding_id (md_binding m), vs_forward_remainder := va_forward_rem s,
       vs_reverse_remainder := va_reverse_rem s\<rparr>\<rparr>"

definition default_volume_config :: volume_config where
  "default_volume_config = \<lparr>vc_config_version = 0, vc_maximum_integration_gap_us = 5000000,
     vc_max_uncheckpointed_volume_ul = 100000, vc_max_interval_s = 3600, vc_min_spacing_s = 60\<rparr>"

definition VolumeAccumulator_Init :: "volume_config option \<Rightarrow> volume_accumulator" where
  "VolumeAccumulator_Init config =
     (let cfg = (case config of Some c \<Rightarrow> c | None \<Rightarrow> default_volume_config);
          version = (case config of Some c \<Rightarrow> vc_config_version c | None \<Rightarrow> 0)
      in \<lparr>va_config = cfg, va_state = zero_volume_state\<lparr>vs_config_version := version, vs_state_version := 1\<rparr>,
          va_anchor_valid = False, va_anchor_sample_us = 0, va_anchor_flow_ul_per_s = 0, va_anchor_source_generation = 0,
          va_anchor_binding_id = 0, va_forward_rem = 0, va_reverse_rem = 0, va_last_gen = 0, va_last_seq = 0,
          va_last_ver = 0, va_source_generation = 0, va_diag_seen = 0, va_diag_consumed = 0,
          va_diag_nonprod_rejected = 0, va_diag_invalid_rejected = 0, va_diag_duplicate_rejected = 0,
          va_diag_stale_rejected = 0, va_diag_gap_reanchored = 0, va_diag_gen_reanchored = 0, va_diag_time_faults = 0\<rparr>)"

text \<open>The statements that the accepting branches share: the new anchor, and the watermark with the
  published identity.\<close>

definition set_anchor :: "flow_result \<Rightarrow> volume_accumulator \<Rightarrow> volume_accumulator" where
  "set_anchor flow s =
     s\<lparr>va_anchor_sample_us := md_sample_monotonic_us (fl_meta flow), va_anchor_flow_ul_per_s := fl_flow_ul_per_s flow,
       va_anchor_source_generation := md_source_generation (fl_meta flow),
       va_anchor_binding_id := mb_binding_id (md_binding (fl_meta flow))\<rparr>"

definition note_consumed :: "flow_result \<Rightarrow> volume_accumulator \<Rightarrow> volume_accumulator" where
  "note_consumed flow s =
     (let m = fl_meta flow; now = md_sample_monotonic_us m
      in state_bump now (state_publish_identity m now
           (s\<lparr>va_last_gen := md_source_generation m, va_last_seq := md_sample_sequence m, va_last_ver := md_result_version m,
              va_diag_consumed := va_diag_consumed s + 1\<rparr>)))"

abbreviation set_generation :: "flow_result \<Rightarrow> volume_accumulator \<Rightarrow> volume_accumulator" where
  "set_generation flow s \<equiv> s\<lparr>va_source_generation := md_source_generation (fl_meta flow)\<rparr>"

text \<open>The integration over one interval; None is overflow.\<close>

definition integrate :: "u64 \<Rightarrow> volume_accumulator \<Rightarrow> volume_accumulator option" where
  "integrate dt s =
     (let q = va_anchor_flow_ul_per_s s; negative = (q < 0); abs_flow = (word_of_int (if negative then - q else q) :: u64)
      in case vol_checked_mul_u64 abs_flow dt of None \<Rightarrow> None
         | Some n1 \<Rightarrow>
            (case vol_checked_add_u64 n1 (if negative then va_reverse_rem s else va_forward_rem s) of None \<Rightarrow> None
             | Some numerator \<Rightarrow>
                 let delta = numerator div VOLUME_TIME_SCALE_US_PER_S; rem = numerator mod VOLUME_TIME_SCALE_US_PER_S
                 in if delta > 0 then
                      (if negative then
                         (case vol_checked_add_u64 (vs_reverse_volume_ul (va_state s)) delta of None \<Rightarrow> None
                          | Some r \<Rightarrow> Some (s\<lparr>va_state := (va_state s)\<lparr>vs_reverse_volume_ul := r\<rparr>, va_reverse_rem := rem\<rparr>))
                       else if q > 0 then
                         (case vol_checked_add_u64 (vs_forward_volume_ul (va_state s)) delta of None \<Rightarrow> None
                          | Some f \<Rightarrow> Some (s\<lparr>va_state := (va_state s)\<lparr>vs_forward_volume_ul := f\<rparr>, va_forward_rem := rem\<rparr>))
                       else Some s)
                    else if negative then Some (s\<lparr>va_reverse_rem := rem\<rparr>)
                    else if q > 0 then Some (s\<lparr>va_forward_rem := rem\<rparr>)
                    else Some s))"

definition set_flag :: "u32 \<Rightarrow> volume_accumulator \<Rightarrow> volume_accumulator" where
  "set_flag b s = s\<lparr>va_state := (va_state s)\<lparr>vs_flags := vs_flags (va_state s) OR b\<rparr>\<rparr>"

definition VolumeAccumulator_Consume :: "volume_accumulator \<Rightarrow> flow_result \<Rightarrow> volume_consume_status \<times> volume_accumulator" where
  "VolumeAccumulator_Consume self flow =
     (let s = self\<lparr>va_diag_seen := va_diag_seen self + 1\<rparr>; m = fl_meta flow; now = md_sample_monotonic_us m
      in if md_purpose m \<noteq> MEAS_PURPOSE_PRODUCTION \<or> md_origin m \<noteq> DATA_ORIGIN_LIVE_DEVICE \<or> md_provenance m \<noteq> PROVENANCE_MEASURED
         then (VOLUME_REJECTED_NON_PRODUCTION, s\<lparr>va_diag_nonprod_rejected := va_diag_nonprod_rejected s + 1\<rparr>)
         else if md_validity m \<noteq> DATA_VALID
         then (VOLUME_REJECTED_INVALID, s\<lparr>va_diag_invalid_rejected := va_diag_invalid_rejected s + 1\<rparr>)
         else if md_freshness m \<noteq> DATA_FRESH
         then (VOLUME_REJECTED_STALE, s\<lparr>va_diag_stale_rejected := va_diag_stale_rejected s + 1\<rparr>)
         else if md_acceptance m \<noteq> DATA_ACCEPTED then (VOLUME_REJECTED_INVALID, s)
         else if va_diag_consumed s > 0 \<and> md_source_generation m \<noteq> va_source_generation s
         then (VOLUME_REJECTED_GENERATION, s\<lparr>va_diag_stale_rejected := va_diag_stale_rejected s + 1\<rparr>)
         else if va_diag_consumed s > 0 \<and> md_source_generation m = va_last_gen s \<and> md_sample_sequence m = va_last_seq s
           \<and> md_result_version m = va_last_ver s
         then (VOLUME_REJECTED_DUPLICATE, s\<lparr>va_diag_duplicate_rejected := va_diag_duplicate_rejected s + 1\<rparr>)
         else if \<not> va_anchor_valid s
         then (VOLUME_ANCHORED, note_consumed flow (set_generation flow ((set_anchor flow s)\<lparr>va_anchor_valid := True\<rparr>)))
         else if now = va_anchor_sample_us s
         then (VOLUME_ZERO_INTERVAL, note_consumed flow (set_generation flow s))
         else if now < va_anchor_sample_us s
         then (VOLUME_REJECTED_TIME, note_consumed flow (set_generation flow (set_anchor flow
                (set_flag 4 (s\<lparr>va_diag_time_faults := va_diag_time_faults s + 1\<rparr>)))))
         else
           let dt = now - va_anchor_sample_us s
           in if dt > vc_maximum_integration_gap_us (va_config s)
              then (VOLUME_REJECTED_TIME, note_consumed flow (set_generation flow (set_anchor flow
                     (set_flag 8 (s\<lparr>va_diag_gap_reanchored := va_diag_gap_reanchored s + 1\<rparr>)))))
              else (case integrate dt s of None \<Rightarrow> (VOLUME_OVERFLOW, s)
                    | Some s' \<Rightarrow> (VOLUME_OK, note_consumed flow (set_anchor flow s'))))"

definition VolumeAccumulator_GetState :: "volume_accumulator \<Rightarrow> volume_state" where
  "VolumeAccumulator_GetState self = va_state self"

definition VolumeAccumulator_PrepareCheckpoint :: "volume_accumulator \<Rightarrow> checkpoint_candidate" where
  "VolumeAccumulator_PrepareCheckpoint self =
     (let st = va_state self
      in \<lparr>cc_checkpoint_sequence = vs_checkpoint_sequence st + 1, cc_state_version = vs_state_version st,
          cc_forward_volume_ul = vs_forward_volume_ul st, cc_reverse_volume_ul = vs_reverse_volume_ul st,
          cc_forward_remainder = va_forward_rem self, cc_reverse_remainder = va_reverse_rem self,
          cc_last_consumed_flow_sequence = vs_last_consumed_flow_sequence st,
          cc_last_sample_monotonic_us = vs_updated_monotonic_us st, cc_source_generation = va_source_generation self,
          cc_binding_id = va_anchor_binding_id self\<rparr>)"

definition VolumeAccumulator_OnCheckpointSuccess :: "volume_accumulator \<Rightarrow> checkpoint_candidate \<Rightarrow> volume_accumulator" where
  "VolumeAccumulator_OnCheckpointSuccess self c =
     self\<lparr>va_state := (va_state self)\<lparr>vs_checkpointed_forward_ul := cc_forward_volume_ul c,
       vs_checkpointed_reverse_ul := cc_reverse_volume_ul c, vs_checkpoint_sequence := cc_checkpoint_sequence c\<rparr>\<rparr>"

definition VolumeAccumulator_Restore :: "volume_accumulator \<Rightarrow> volume_state \<Rightarrow> volume_accumulator" where
  "VolumeAccumulator_Restore self r =
     self\<lparr>va_state := (va_state self)\<lparr>vs_forward_volume_ul := vs_forward_volume_ul r,
        vs_reverse_volume_ul := vs_reverse_volume_ul r, vs_checkpointed_forward_ul := vs_checkpointed_forward_ul r,
        vs_checkpointed_reverse_ul := vs_checkpointed_reverse_ul r, vs_checkpoint_sequence := vs_checkpoint_sequence r,
        vs_state_version := vs_state_version r + 1, vs_flags := vs_flags r OR 2\<rparr>,
       va_forward_rem := vs_forward_remainder r, va_reverse_rem := vs_reverse_remainder r,
       va_source_generation := vs_source_generation r, va_anchor_valid := False\<rparr>"

definition VolumeAccumulator_ClearAnchor :: "volume_accumulator \<Rightarrow> volume_accumulator" where
  "VolumeAccumulator_ClearAnchor self = self\<lparr>va_anchor_valid := False\<rparr>"

section \<open>Checkpoint policy\<close>

datatype checkpoint_reason = CP_NONE | CP_VOLUME_THRESHOLD | CP_TIME_THRESHOLD | CP_FORCED

record checkpoint_policy_config =
  pc_max_uncheckpointed_ul :: u64
  pc_max_interval_s :: u32
  pc_min_spacing_s :: u32

record checkpoint_policy =
  cpl_cfg :: checkpoint_policy_config
  cpl_last_checkpoint_monotonic_us :: u64
  cpl_in_flight :: bool

definition CheckpointPolicy_Init :: "checkpoint_policy_config option \<Rightarrow> checkpoint_policy" where
  "CheckpointPolicy_Init cfg =
     \<lparr>cpl_cfg = (case cfg of Some c \<Rightarrow> c | None \<Rightarrow> \<lparr>pc_max_uncheckpointed_ul = 0, pc_max_interval_s = 0, pc_min_spacing_s = 0\<rparr>),
      cpl_last_checkpoint_monotonic_us = 0, cpl_in_flight = False\<rparr>"

definition CheckpointPolicy_Evaluate :: "checkpoint_policy \<Rightarrow> volume_accumulator \<Rightarrow> u64 \<Rightarrow> checkpoint_reason" where
  "CheckpointPolicy_Evaluate self acc now =
     (if cpl_in_flight self then CP_NONE
      else
        let st = VolumeAccumulator_GetState acc;
            fwd = (if vs_forward_volume_ul st \<ge> vs_checkpointed_forward_ul st
                   then vs_forward_volume_ul st - vs_checkpointed_forward_ul st else 0);
            rev = (if vs_reverse_volume_ul st \<ge> vs_checkpointed_reverse_ul st
                   then vs_reverse_volume_ul st - vs_checkpointed_reverse_ul st else 0)
        in if fwd + rev \<ge> pc_max_uncheckpointed_ul (cpl_cfg self) then CP_VOLUME_THRESHOLD
           else if cpl_last_checkpoint_monotonic_us self > 0 \<and>
                   now - cpl_last_checkpoint_monotonic_us self \<ge> ucast (pc_max_interval_s (cpl_cfg self)) * 1000000
           then CP_TIME_THRESHOLD
           else CP_NONE)"

definition CheckpointPolicy_OnSubmitted :: "checkpoint_policy \<Rightarrow> checkpoint_policy" where
  "CheckpointPolicy_OnSubmitted self = self\<lparr>cpl_in_flight := True\<rparr>"

definition CheckpointPolicy_OnCompleted :: "checkpoint_policy \<Rightarrow> u64 \<Rightarrow> checkpoint_policy" where
  "CheckpointPolicy_OnCompleted self now = self\<lparr>cpl_in_flight := False, cpl_last_checkpoint_monotonic_us := now\<rparr>"

section \<open>Checked arithmetic\<close>

lemma uint_mult_lt: "uint a * uint b < 2 ^ 64 \<Longrightarrow> uint (a * b) = uint a * uint b" for a b :: u64
  by (simp add: uint_word_ariths)

lemma uint_plus_lt: "uint a + uint b < 2 ^ 64 \<Longrightarrow> uint (a + b) = uint a + uint b" for a b :: u64
  by (simp add: uint_word_ariths)

lemma vol_checked_mul_eq: "vol_checked_mul_u64 a b = (if uint a * uint b < 2 ^ 64 then Some (a * b) else None)"
proof (cases "a = 0")
  case True
  then show ?thesis by (simp add: vol_checked_mul_u64_def)
next
  case False
  then have a: "0 < uint a" "0 < a" using uint_ge_0 [of a] by (auto simp: less_le word_uint_eq_iff word_gt_0)
  have "b > UINT64_MAX div a \<longleftrightarrow> (2 ^ 64 - 1) div uint a < uint b"
    by (simp add: word_less_def uint_div)
  also have "\<dots> \<longleftrightarrow> \<not> uint a * uint b < 2 ^ 64"
    using zdiv_less_iff [OF a(1), of "2 ^ 64 - 1" "uint b"] by auto
  finally show ?thesis using a(2) by (simp add: vol_checked_mul_u64_def)
qed

lemma vol_checked_add_eq: "vol_checked_add_u64 a b = (if uint a + uint b < 2 ^ 64 then Some (a + b) else None)"
proof -
  have "uint (UINT64_MAX - b) = 2 ^ 64 - 1 - uint b"
    using uint_bounded [of b] uint_ge_0 [of b]
    by (simp add: uint_word_ariths) (subst mod_pos_pos_trivial, simp_all add: less_le_trans [of "- 1" 0])
  then show ?thesis by (auto simp: vol_checked_add_u64_def word_less_def)
qed

section \<open>Exact integration\<close>

text \<open>The specification state: the anchor, and the two totals in units of 10^-6 microlitres.\<close>

type_synonym vol_abs = "(int \<times> int) option \<times> int \<times> int"

definition forward_total :: "volume_accumulator \<Rightarrow> int" where
  "forward_total s = uint (vs_forward_volume_ul (va_state s)) * 1000000 + uint (va_forward_rem s)"

definition reverse_total :: "volume_accumulator \<Rightarrow> int" where
  "reverse_total s = uint (vs_reverse_volume_ul (va_state s)) * 1000000 + uint (va_reverse_rem s)"

definition vol_abs :: "volume_accumulator \<Rightarrow> vol_abs" where
  "vol_abs s = (if va_anchor_valid s then Some (uint (va_anchor_sample_us s), va_anchor_flow_ul_per_s s) else None,
     forward_total s, reverse_total s)"


definition vol_ok :: "volume_accumulator \<Rightarrow> bool" where
  "vol_ok s \<longleftrightarrow> va_forward_rem s < 1000000 \<and> va_reverse_rem s < 1000000 \<and> in_i64 (va_anchor_flow_ul_per_s s)"


text \<open>The carry: adding \<open>w\<close> to a total splits into whole units and a remainder.\<close>

lemma carry_split:
  assumes "uint (n :: u64) = uint w + uint rem"
  shows "(uint v + uint (n div 1000000)) * 1000000 + uint (n mod 1000000) = uint (v :: u64) * 1000000 + uint (rem :: u64) + uint (w :: u64)"
proof -
  have "uint (n div 1000000) * 1000000 + uint (n mod 1000000) = uint n"
    by (simp add: uint_div uint_mod)
  then show ?thesis using assms by (simp add: algebra_simps)
qed


lemma abs_flow: "in_i64 q \<Longrightarrow> uint (word_of_int (if q < 0 then - q else q) :: u64) = \<bar>q\<bar>"
  by (simp add: in_i64_def uint_word_of_int mod_pos_pos_trivial)



text \<open>When it overflows.\<close>

lemma whole_part: "d * 1000000 + r = n \<Longrightarrow> r < 1000000 \<Longrightarrow> 0 \<le> r \<Longrightarrow> 2 ^ 64 \<le> v + d \<longleftrightarrow> 2 ^ 64 * 1000000 \<le> v * 1000000 + n" for d r n v :: int
  by auto

lemma integrate_overflow:
  assumes ok: "vol_ok s"
  shows "integrate dt s = None \<longleftrightarrow>
    (let q = va_anchor_flow_ul_per_s s; total = (if q < 0 then reverse_total s else forward_total s);
         rem = (if q < 0 then uint (va_reverse_rem s) else uint (va_forward_rem s))
     in 2 ^ 64 \<le> \<bar>q\<bar> * uint dt + rem \<or> 2 ^ 64 * 1000000 \<le> total + \<bar>q\<bar> * uint dt)" (is "_ \<longleftrightarrow> ?over")
proof -
  let ?q = "va_anchor_flow_ul_per_s s" and ?rem = "if va_anchor_flow_ul_per_s s < 0 then va_reverse_rem s else va_forward_rem s"
  let ?vol = "if va_anchor_flow_ul_per_s s < 0 then vs_reverse_volume_ul (va_state s) else vs_forward_volume_ul (va_state s)"
  let ?a = "word_of_int (if ?q < 0 then - ?q else ?q) :: u64"
  have a: "uint ?a = \<bar>?q\<bar>" using abs_flow ok by (simp add: vol_ok_def)
  have over: "?over \<longleftrightarrow> 2 ^ 64 \<le> \<bar>?q\<bar> * uint dt + uint ?rem \<or> 2 ^ 64 * 1000000 \<le> uint ?vol * 1000000 + uint ?rem + \<bar>?q\<bar> * uint dt"
    by (auto simp: Let_def forward_total_def reverse_total_def)
  show ?thesis
  proof (cases "\<bar>?q\<bar> * uint dt + uint ?rem < 2 ^ 64")
    case False
    have "0 \<le> uint ?rem" "\<bar>?q\<bar> * uint dt < 2 ^ 64 \<or> 2 ^ 64 \<le> \<bar>?q\<bar> * uint dt" by auto
    then have "integrate dt s = None" using False a uint_mult_lt [of ?a dt]
      by (auto simp: integrate_def Let_def vol_checked_mul_eq vol_checked_add_eq)
    then show ?thesis using False over by simp
  next
    case True
    then have w: "uint ?a * uint dt < 2 ^ 64" using uint_ge_0 [of ?rem] by (simp only: a)
    let ?n = "?a * dt + ?rem"
    have un: "uint ?n = \<bar>?q\<bar> * uint dt + uint ?rem"
      using uint_plus_lt [of "?a * dt" ?rem] uint_mult_lt [OF w] True by (simp only: a)
    have dm: "uint (?n div 1000000) * 1000000 + uint (?n mod 1000000) = uint ?n" "uint (?n mod 1000000) < 1000000"
      by (simp_all add: uint_div uint_mod)
    have m: "vol_checked_mul_u64 ?a dt = Some (?a * dt)" using w by (simp add: vol_checked_mul_eq)
    have ad: "vol_checked_add_u64 (?a * dt) ?rem = Some ?n" using uint_mult_lt [OF w] True by (simp only: a vol_checked_add_eq if_True)
    have "integrate dt s = None \<longleftrightarrow> ?n div 1000000 > 0 \<and> vol_checked_add_u64 ?vol (?n div 1000000) = None \<and> ?q \<noteq> 0"
      using m ad by (auto simp: integrate_def Let_def split: option.splits)
    also have "\<dots> \<longleftrightarrow> ?n div 1000000 > 0 \<and> \<not> uint ?vol + uint (?n div 1000000) < 2 ^ 64 \<and> ?q \<noteq> 0"
      by (simp add: vol_checked_add_eq)
    also have "\<dots> \<longleftrightarrow> 2 ^ 64 \<le> uint ?vol + uint (?n div 1000000)"
    proof -
      have "uint ?vol < 2 ^ 64" using uint_bounded [of ?vol] by simp
      moreover have "?n div 1000000 > 0 \<longleftrightarrow> uint (?n div 1000000) \<noteq> 0" by (simp add: word_gt_0 word_uint_eq_iff)
      moreover have "?q = 0 \<Longrightarrow> uint (?n div 1000000) = 0"
        using un ok by (simp add: vol_ok_def word_less_def uint_div)
      ultimately show ?thesis by auto
    qed
    also have "\<dots> \<longleftrightarrow> 2 ^ 64 * 1000000 \<le> uint ?vol * 1000000 + uint ?n"
      by (rule whole_part [OF dm uint_ge_0])
    finally show ?thesis unfolding over un using True by auto
  qed
qed

section \<open>The accumulator integrates exactly\<close>

definition accepted :: "volume_consume_status \<Rightarrow> bool" where
  "accepted st \<longleftrightarrow> st \<in> {VOLUME_OK, VOLUME_ANCHORED, VOLUME_ZERO_INTERVAL, VOLUME_REJECTED_TIME}"

lemma note_consumed_frame [simp]:
  "va_anchor_valid (note_consumed f s) = va_anchor_valid s" "va_anchor_sample_us (note_consumed f s) = va_anchor_sample_us s"
  "va_anchor_flow_ul_per_s (note_consumed f s) = va_anchor_flow_ul_per_s s" "va_config (note_consumed f s) = va_config s"
  "va_forward_rem (note_consumed f s) = va_forward_rem s" "va_reverse_rem (note_consumed f s) = va_reverse_rem s"
  "vs_forward_volume_ul (va_state (note_consumed f s)) = vs_forward_volume_ul (va_state s)"
  "vs_reverse_volume_ul (va_state (note_consumed f s)) = vs_reverse_volume_ul (va_state s)"
  "va_source_generation (note_consumed f s) = va_source_generation s"
  "va_last_gen (note_consumed f s) = md_source_generation (fl_meta f)"
  "va_last_seq (note_consumed f s) = md_sample_sequence (fl_meta f)"
  "va_last_ver (note_consumed f s) = md_result_version (fl_meta f)"
  "va_diag_consumed (note_consumed f s) = va_diag_consumed s + 1"
  by (simp_all add: note_consumed_def state_bump_def state_publish_identity_def Let_def)

lemma set_flag_frame [simp]:
  "va_anchor_valid (set_flag b s) = va_anchor_valid s" "va_forward_rem (set_flag b s) = va_forward_rem s"
  "va_reverse_rem (set_flag b s) = va_reverse_rem s" "va_config (set_flag b s) = va_config s"
  "vs_forward_volume_ul (va_state (set_flag b s)) = vs_forward_volume_ul (va_state s)"
  "vs_reverse_volume_ul (va_state (set_flag b s)) = vs_reverse_volume_ul (va_state s)"
  by (simp_all add: set_flag_def)

lemma set_anchor_frame [simp]:
  "va_anchor_valid (set_anchor f s) = va_anchor_valid s" "va_forward_rem (set_anchor f s) = va_forward_rem s"
  "va_reverse_rem (set_anchor f s) = va_reverse_rem s" "va_config (set_anchor f s) = va_config s" "va_state (set_anchor f s) = va_state s"
  "va_anchor_sample_us (set_anchor f s) = md_sample_monotonic_us (fl_meta f)"
  "va_anchor_flow_ul_per_s (set_anchor f s) = fl_flow_ul_per_s f"
  by (simp_all add: set_anchor_def)

lemma uint_minus_lt: "b \<le> a \<Longrightarrow> uint (a - b) = uint a - uint b" for a b :: u64
  by (simp add: uint_minus_simple_alt [symmetric] word_le_def)


text \<open>A stream of flow results.\<close>

fun consume_all :: "volume_accumulator \<Rightarrow> flow_result list \<Rightarrow> volume_consume_status list \<times> volume_accumulator" where
  "consume_all s [] = ([], s)"
| "consume_all s (f # fs) =
     (let (st, s1) = VolumeAccumulator_Consume s f; (sts, s2) = consume_all s1 fs in (st # sts, s2))"



definition sample_flow :: "u64 \<Rightarrow> u64 \<Rightarrow> int \<Rightarrow> flow_result" where
  "sample_flow sq t q = zero_flow\<lparr>fl_meta := zero_metadata\<lparr>md_purpose := MEAS_PURPOSE_PRODUCTION, md_sample_sequence := sq,
     md_sample_monotonic_us := t\<rparr>, fl_flow_ul_per_s := q\<rparr>"



text \<open>A sample is refused for overflow exactly when the exact result cannot be represented: the
  product with the carry does not fit 64 bits, or the total volume would not; an accepted sample never
  wraps a counter.\<close>

theorem volume_overflow_iff_unrepresentable:
  assumes "vol_ok s" "in_i64 (fl_flow_ul_per_s f)" "va_anchor_valid s"
    and "md_sample_monotonic_us (fl_meta f) > va_anchor_sample_us s"
    and "md_sample_monotonic_us (fl_meta f) - va_anchor_sample_us s \<le> vc_maximum_integration_gap_us (va_config s)"
    and "VolumeAccumulator_Consume s f = (st, s')"
    and "st \<in> {VOLUME_OK, VOLUME_OVERFLOW}"
  shows "st = VOLUME_OVERFLOW \<longleftrightarrow>
    (let q = va_anchor_flow_ul_per_s s; dt = uint (md_sample_monotonic_us (fl_meta f)) - uint (va_anchor_sample_us s);
         total = (if q < 0 then reverse_total s else forward_total s);
         rem = (if q < 0 then uint (va_reverse_rem s) else uint (va_forward_rem s))
     in 2 ^ 64 \<le> \<bar>q\<bar> * dt + rem \<or> 2 ^ 64 * 1000000 \<le> total + \<bar>q\<bar> * dt)"
proof -
  let ?now = "md_sample_monotonic_us (fl_meta f)" and ?s = "s\<lparr>va_diag_seen := va_diag_seen s + 1\<rparr>"
  let ?dt = "?now - va_anchor_sample_us s"
  have u: "uint ?dt = uint ?now - uint (va_anchor_sample_us s)" using uint_minus_lt [of "va_anchor_sample_us s" ?now] assms(4) by simp
  have oks: "vol_ok ?s" "forward_total ?s = forward_total s" "reverse_total ?s = reverse_total s"
    using assms(1) by (simp_all add: vol_ok_def forward_total_def reverse_total_def)
  have "st = VOLUME_OVERFLOW \<longleftrightarrow> integrate ?dt ?s = None"
    using assms(3-7) by (auto simp: VolumeAccumulator_Consume_def Let_def split: if_splits option.splits)
  then show ?thesis using integrate_overflow [OF oks(1), of ?dt] oks(2,3) u by (simp add: Let_def)
qed

lemma volume_overflow_iff_unrepresentable_witness:
  "fst (VolumeAccumulator_Consume (snd (VolumeAccumulator_Consume (VolumeAccumulator_Init None) (sample_flow 1 10 INT64_MAX)))
     (sample_flow 2 13 0)) = VOLUME_OVERFLOW"
proof -
  let ?s = "snd (VolumeAccumulator_Consume (VolumeAccumulator_Init None) (sample_flow 1 10 INT64_MAX))" and ?f = "sample_flow 2 13 0"
  let ?c = "VolumeAccumulator_Consume ?s ?f"
  have s: "va_anchor_valid ?s" "va_anchor_sample_us ?s = 10" "va_anchor_flow_ul_per_s ?s = INT64_MAX"
    "va_forward_rem ?s = 0" "va_reverse_rem ?s = 0" "vc_maximum_integration_gap_us (va_config ?s) = 5000000"
    by (simp_all add: VolumeAccumulator_Consume_def VolumeAccumulator_Init_def sample_flow_def zero_metadata_def default_volume_config_def Let_def)
  have ok: "vol_ok ?s" using s by (simp add: vol_ok_def in_i64_def)
  have st: "fst ?c \<in> {VOLUME_OK, VOLUME_OVERFLOW}" by code_simp
  from volume_overflow_iff_unrepresentable [of ?s ?f "fst ?c" "snd ?c", OF ok _ s(1) _ _ _ st] s
  show ?thesis by (simp add: sample_flow_def in_i64_def)
qed

section \<open>Each result counts once\<close>

lemma word_inc_pos: "x < UINT64_MAX \<Longrightarrow> 0 < x + 1" for x :: u64
proof -
  assume "x < UINT64_MAX"
  then have "uint x < 2 ^ 64 - 1" by (simp add: word_less_def)
  then have "uint (x + 1) = uint x + 1" using uint_plus_lt [of x 1] by simp
  then show ?thesis using uint_ge_0 [of x] by (simp only: word_less_def uint_0_eq)
qed

lemma integrate_frame: "integrate dt s = Some s' \<Longrightarrow>
    va_source_generation s' = va_source_generation s \<and> va_diag_consumed s' = va_diag_consumed s"
  by (auto simp: integrate_def Let_def split: option.splits if_splits)

text \<open>A result delivered a second time is rejected as a duplicate and changes no volume, anchor or
  published state.\<close>

theorem volume_exactly_once:
  assumes "va_anchor_valid s \<longrightarrow> 0 < va_diag_consumed s" "va_diag_consumed s < UINT64_MAX"
    and "VolumeAccumulator_Consume s f = (st, s1)" "accepted st"
  shows "fst (VolumeAccumulator_Consume s1 f) = VOLUME_REJECTED_DUPLICATE \<and>
    va_state (snd (VolumeAccumulator_Consume s1 f)) = va_state s1 \<and> vol_abs (snd (VolumeAccumulator_Consume s1 f)) = vol_abs s1"
proof -
  let ?m = "fl_meta f"
  have prod: "md_purpose ?m = MEAS_PURPOSE_PRODUCTION" "md_origin ?m = DATA_ORIGIN_LIVE_DEVICE" "md_provenance ?m = PROVENANCE_MEASURED"
    "md_validity ?m = DATA_VALID" "md_freshness ?m = DATA_FRESH" "md_acceptance ?m = DATA_ACCEPTED"
    using assms(3,4) by (auto simp: VolumeAccumulator_Consume_def accepted_def Let_def split: if_splits)
  have "va_last_gen s1 = md_source_generation ?m \<and> va_last_seq s1 = md_sample_sequence ?m \<and> va_last_ver s1 = md_result_version ?m \<and>
      va_source_generation s1 = md_source_generation ?m \<and> va_diag_consumed s1 = va_diag_consumed s + 1"
    using assms(1,3,4)
    by (auto simp: VolumeAccumulator_Consume_def accepted_def Let_def set_anchor_def set_flag_def dest!: integrate_frame
        split: if_splits option.splits)
  then show ?thesis using prod word_inc_pos [OF assms(2)]
    by (simp add: VolumeAccumulator_Consume_def Let_def vol_abs_def forward_total_def reverse_total_def)
qed

lemma volume_exactly_once_witness:
  "fst (VolumeAccumulator_Consume (snd (VolumeAccumulator_Consume (VolumeAccumulator_Init None) (sample_flow 1 10 7))) (sample_flow 1 10 7))
     = VOLUME_REJECTED_DUPLICATE"
proof -
  have "VolumeAccumulator_Consume (VolumeAccumulator_Init None) (sample_flow 1 10 7) =
      (VOLUME_ANCHORED, snd (VolumeAccumulator_Consume (VolumeAccumulator_Init None) (sample_flow 1 10 7)))"
    by (simp add: VolumeAccumulator_Consume_def VolumeAccumulator_Init_def sample_flow_def zero_metadata_def Let_def)
  from volume_exactly_once [OF _ _ this] show ?thesis by (simp add: VolumeAccumulator_Init_def accepted_def Let_def)
qed

text \<open>After the first accepted sample every result of another source generation is rejected, for ever.\<close>

lemma generation_rejected:
  assumes "0 < va_diag_consumed s" "md_source_generation (fl_meta f) \<noteq> va_source_generation s"
    "VolumeAccumulator_Consume s f = (st, s1)"
  shows "\<not> accepted st \<and> va_diag_consumed s1 = va_diag_consumed s \<and> va_source_generation s1 = va_source_generation s \<and> va_state s1 = va_state s"
  using assms by (auto simp: VolumeAccumulator_Consume_def accepted_def Let_def split: if_splits)

lemma generation_locked:
  assumes "0 < va_diag_consumed s" "\<forall>f \<in> set fs. md_source_generation (fl_meta f) \<noteq> va_source_generation s"
    "consume_all s fs = (sts, s')"
  shows "(\<forall>st \<in> set sts. \<not> accepted st) \<and> va_state s' = va_state s"
  using assms
proof (induction fs arbitrary: s sts)
  case (Cons f fs)
  obtain st s1 where c: "VolumeAccumulator_Consume s f = (st, s1)" by (cases "VolumeAccumulator_Consume s f")
  obtain sts' where r: "consume_all s1 fs = (sts', s')" "sts = st # sts'"
    using Cons.prems(3) c by (auto simp: split: prod.splits)
  have g: "\<not> accepted st \<and> va_diag_consumed s1 = va_diag_consumed s \<and> va_source_generation s1 = va_source_generation s \<and> va_state s1 = va_state s"
    using generation_rejected [OF Cons.prems(1) _ c] Cons.prems(2) by simp
  then show ?case using Cons.IH [of s1 sts'] Cons.prems(1,2) r by simp
qed simp

section \<open>Checkpoint and restore\<close>

text \<open>Restoring the candidate's figures gives the totals back; only the anchor is gone.\<close>

definition candidate_state :: "checkpoint_candidate \<Rightarrow> volume_state" where
  "candidate_state c = zero_volume_state\<lparr>vs_forward_volume_ul := cc_forward_volume_ul c, vs_reverse_volume_ul := cc_reverse_volume_ul c,
     vs_forward_remainder := cc_forward_remainder c, vs_reverse_remainder := cc_reverse_remainder c,
     vs_state_version := cc_state_version c, vs_source_generation := cc_source_generation c,
     vs_last_consumed_flow_sequence := cc_last_consumed_flow_sequence c\<rparr>"

lemma restore_candidate:
  "vol_abs (VolumeAccumulator_Restore s0 (candidate_state (VolumeAccumulator_PrepareCheckpoint s))) = (None, forward_total s, reverse_total s)"
  by (simp add: VolumeAccumulator_Restore_def candidate_state_def VolumeAccumulator_PrepareCheckpoint_def vol_abs_def
      forward_total_def reverse_total_def Let_def)

section \<open>The policy\<close>

text \<open>While a checkpoint is in flight none is requested; otherwise one is requested as soon as the
  volume not yet checkpointed reaches the bound, so that at every evaluation that requests none, less
  than the bound of metered volume is unsaved.\<close>

theorem policy_bounds_unsaved_volume:
  assumes "vs_checkpointed_forward_ul (va_state acc) \<le> vs_forward_volume_ul (va_state acc)"
    and "vs_checkpointed_reverse_ul (va_state acc) \<le> vs_reverse_volume_ul (va_state acc)"
    and "uint (vs_forward_volume_ul (va_state acc)) + uint (vs_reverse_volume_ul (va_state acc)) < 2 ^ 64"
  shows "(cpl_in_flight p \<longrightarrow> CheckpointPolicy_Evaluate p acc now = CP_NONE) \<and>
    (\<not> cpl_in_flight p \<and> CheckpointPolicy_Evaluate p acc now = CP_NONE \<longrightarrow>
       (uint (vs_forward_volume_ul (va_state acc)) - uint (vs_checkpointed_forward_ul (va_state acc))) +
       (uint (vs_reverse_volume_ul (va_state acc)) - uint (vs_checkpointed_reverse_ul (va_state acc)))
         < uint (pc_max_uncheckpointed_ul (cpl_cfg p))) \<and>
    (\<not> cpl_in_flight p \<and> CheckpointPolicy_Evaluate p acc now = CP_VOLUME_THRESHOLD \<longrightarrow>
       uint (pc_max_uncheckpointed_ul (cpl_cfg p)) \<le>
       (uint (vs_forward_volume_ul (va_state acc)) - uint (vs_checkpointed_forward_ul (va_state acc))) +
       (uint (vs_reverse_volume_ul (va_state acc)) - uint (vs_checkpointed_reverse_ul (va_state acc))))"
proof -
  let ?f = "vs_forward_volume_ul (va_state acc) - vs_checkpointed_forward_ul (va_state acc)"
  let ?r = "vs_reverse_volume_ul (va_state acc) - vs_checkpointed_reverse_ul (va_state acc)"
  have u: "uint ?f = uint (vs_forward_volume_ul (va_state acc)) - uint (vs_checkpointed_forward_ul (va_state acc))"
    "uint ?r = uint (vs_reverse_volume_ul (va_state acc)) - uint (vs_checkpointed_reverse_ul (va_state acc))"
    using assms(1,2) by (simp_all add: uint_minus_lt)
  then have "uint (?f + ?r) = uint ?f + uint ?r"
    using assms(3) uint_ge_0 [of "vs_checkpointed_forward_ul (va_state acc)"] uint_ge_0 [of "vs_checkpointed_reverse_ul (va_state acc)"]
    by (intro uint_plus_lt) linarith
  then show ?thesis using u assms(1,2)
    by (auto simp: CheckpointPolicy_Evaluate_def VolumeAccumulator_GetState_def Let_def word_le_def not_le split: if_splits)
qed

definition sample_policy :: checkpoint_policy where
  "sample_policy = CheckpointPolicy_Init (Some \<lparr>pc_max_uncheckpointed_ul = 100, pc_max_interval_s = 3600, pc_min_spacing_s = 60\<rparr>)"

lemma policy_bounds_unsaved_volume_witness:
  "CheckpointPolicy_Evaluate sample_policy (VolumeAccumulator_Init None) 7 = CP_NONE \<and>
   (0 :: int) < uint (pc_max_uncheckpointed_ul (cpl_cfg sample_policy))"
proof -
  have st: "vs_checkpointed_forward_ul (va_state (VolumeAccumulator_Init None)) = 0"
    "vs_checkpointed_reverse_ul (va_state (VolumeAccumulator_Init None)) = 0"
    "vs_forward_volume_ul (va_state (VolumeAccumulator_Init None)) = 0" "vs_reverse_volume_ul (va_state (VolumeAccumulator_Init None)) = 0"
    by (simp_all add: VolumeAccumulator_Init_def zero_volume_state_def)
  have n: "CheckpointPolicy_Evaluate sample_policy (VolumeAccumulator_Init None) 7 = CP_NONE" "\<not> cpl_in_flight sample_policy"
    by (simp_all add: CheckpointPolicy_Evaluate_def sample_policy_def CheckpointPolicy_Init_def VolumeAccumulator_GetState_def st)
  show ?thesis using policy_bounds_unsaved_volume [of "VolumeAccumulator_Init None" sample_policy 7] n by (simp add: st)
qed

text \<open>Before the first completion the time bound is not looked at.\<close>

lemma policy_no_time_bound_before_first:
  "cpl_last_checkpoint_monotonic_us p = 0 \<Longrightarrow> CheckpointPolicy_Evaluate p acc now \<noteq> CP_TIME_THRESHOLD"
  by (simp add: CheckpointPolicy_Evaluate_def Let_def)

text \<open>The spacing is never looked at.\<close>

lemma policy_ignores_spacing:
  "CheckpointPolicy_Evaluate (p\<lparr>cpl_cfg := (cpl_cfg p)\<lparr>pc_min_spacing_s := n\<rparr>\<rparr>) acc now = CheckpointPolicy_Evaluate p acc now"
  by (simp add: CheckpointPolicy_Evaluate_def Let_def)

end
