(* ===== verification/Leak.thy ===== *)
theory Leak
  imports Domain_Types
begin

text \<open>
  Leak detection (services/leak: leak_config.c, leak_tracker.c, leak_detection.c).

  A tracker turns one entry and one clear condition into evidence with hysteresis in time; the service
  evaluates four of them on every flow and pressure input and moves the leak state.  An optional
  pointer is an option; the text of a configuration error is the result of the validation, its
  truncation to the caller's buffer is left out.
\<close>

unbundle bit_operations_syntax

section \<open>Configuration\<close>

abbreviation LEAK_ALGORITHM_VERSION :: u32 where "LEAK_ALGORITHM_VERSION \<equiv> 1"
abbreviation LEAK_CONFIG_FLAG_TEST_ONLY :: u32 where "LEAK_CONFIG_FLAG_TEST_ONLY \<equiv> 0x80000000"

record leak_detection_config =
  lc_schema_version :: u32
  lc_config_version :: u32
  lc_algorithm_version :: u32
  lc_profile_version :: u32
  lc_flags :: u32
  lc_continuous_entry_ul_per_s :: i64
  lc_continuous_clear_ul_per_s :: i64
  lc_continuous_suspect_duration_us :: u64
  lc_continuous_confirm_duration_us :: u64
  lc_continuous_clear_duration_us :: u64
  lc_burst_entry_ul_per_s :: i64
  lc_burst_clear_ul_per_s :: i64
  lc_burst_confirm_duration_us :: u64
  lc_burst_clear_duration_us :: u64
  lc_pressure_assist_enabled :: bool
  lc_low_pressure_entry_pa :: i32
  lc_low_pressure_clear_pa :: i32
  lc_high_pressure_entry_pa :: i32
  lc_high_pressure_clear_pa :: i32
  lc_pressure_activation_duration_us :: u64
  lc_pressure_clear_duration_us :: u64
  lc_pressure_drop_enabled :: bool
  lc_pressure_drop_entry_pa :: i32
  lc_pressure_drop_clear_pa :: i32
  lc_pressure_drop_window_us :: u64
  lc_pressure_drop_min_samples :: u32
  lc_maximum_flow_age_us :: u64
  lc_maximum_pressure_age_us :: u64
  lc_maximum_evidence_gap_us :: u64
  lc_correlation_window_us :: u64
  lc_confirmed_clear_duration_us :: u64
  lc_evaluation_period_us :: u64

text \<open>Inl is the failure with its message.\<close>

definition LeakConfig_Validate :: "leak_detection_config option \<Rightarrow> string + unit" where
  "LeakConfig_Validate c =
     (case c of None \<Rightarrow> Inl ''null config''
      | Some cfg \<Rightarrow>
          if lc_schema_version cfg = 0 \<or> lc_algorithm_version cfg = 0 then Inl ''version fields must be nonzero''
          else if lc_continuous_clear_ul_per_s cfg \<ge> lc_continuous_entry_ul_per_s cfg then Inl ''continuous clear >= entry''
          else if lc_continuous_entry_ul_per_s cfg \<ge> lc_burst_entry_ul_per_s cfg then Inl ''continuous entry >= burst entry''
          else if lc_burst_clear_ul_per_s cfg \<ge> lc_burst_entry_ul_per_s cfg then Inl ''burst clear >= burst entry''
          else if lc_continuous_suspect_duration_us cfg = 0 \<or> lc_continuous_confirm_duration_us cfg = 0 \<or>
                  lc_burst_confirm_duration_us cfg = 0 then Inl ''duration must be nonzero''
          else if lc_continuous_confirm_duration_us cfg < lc_continuous_suspect_duration_us cfg then Inl ''confirm < suspect duration''
          else if lc_maximum_flow_age_us cfg = 0 \<or> lc_maximum_pressure_age_us cfg = 0 then Inl ''max age must be nonzero''
          else if lc_low_pressure_entry_pa cfg \<ge> lc_high_pressure_entry_pa cfg then Inl ''low entry >= high entry''
          else Inr ())"

definition LeakConfig_GetTestDefaults :: leak_detection_config where
  "LeakConfig_GetTestDefaults =
     \<lparr>lc_schema_version = 1, lc_config_version = 1, lc_algorithm_version = LEAK_ALGORITHM_VERSION, lc_profile_version = 0,
      lc_flags = LEAK_CONFIG_FLAG_TEST_ONLY,
      lc_continuous_entry_ul_per_s = 83333, lc_continuous_clear_ul_per_s = 33333,
      lc_continuous_suspect_duration_us = 30000000, lc_continuous_confirm_duration_us = 120000000,
      lc_continuous_clear_duration_us = 60000000,
      lc_burst_entry_ul_per_s = 333333, lc_burst_clear_ul_per_s = 166666,
      lc_burst_confirm_duration_us = 5000000, lc_burst_clear_duration_us = 30000000,
      lc_pressure_assist_enabled = False, lc_low_pressure_entry_pa = 100000, lc_low_pressure_clear_pa = 150000,
      lc_high_pressure_entry_pa = 800000, lc_high_pressure_clear_pa = 700000,
      lc_pressure_activation_duration_us = 30000000, lc_pressure_clear_duration_us = 60000000,
      lc_pressure_drop_enabled = False, lc_pressure_drop_entry_pa = 50000, lc_pressure_drop_clear_pa = 20000,
      lc_pressure_drop_window_us = 60000000, lc_pressure_drop_min_samples = 3,
      lc_maximum_flow_age_us = 60000000, lc_maximum_pressure_age_us = 60000000,
      lc_maximum_evidence_gap_us = 120000000, lc_correlation_window_us = 30000000,
      lc_confirmed_clear_duration_us = 120000000, lc_evaluation_period_us = 1000000\<rparr>"

section \<open>Evidence trackers\<close>

datatype leak_evidence_phase =
  LEAK_PHASE_INACTIVE | LEAK_PHASE_PENDING | LEAK_PHASE_ACTIVE | LEAK_PHASE_CLEAR_PENDING | LEAK_PHASE_SUSPENDED

record leak_evidence_tracker =
  tr_phase :: leak_evidence_phase
  tr_suspended_from_phase :: leak_evidence_phase
  tr_entry_start_us :: u64
  tr_active_since_us :: u64
  tr_clear_start_us :: u64
  tr_last_usable_sample_us :: u64
  tr_last_source_sequence :: u64
  tr_last_result_version :: u64
  tr_source_generation :: u32
  tr_activation_count :: u32

definition LeakTracker_Init :: leak_evidence_tracker where
  "LeakTracker_Init = \<lparr>tr_phase = LEAK_PHASE_INACTIVE, tr_suspended_from_phase = LEAK_PHASE_INACTIVE, tr_entry_start_us = 0,
     tr_active_since_us = 0, tr_clear_start_us = 0, tr_last_usable_sample_us = 0, tr_last_source_sequence = 0,
     tr_last_result_version = 0, tr_source_generation = 0, tr_activation_count = 0\<rparr>"

text \<open>The two parts of an evaluation: the source is not usable, or is.\<close>

definition tracker_unusable :: "u64 \<Rightarrow> u64 \<Rightarrow> leak_evidence_tracker \<Rightarrow> leak_evidence_tracker" where
  "tracker_unusable now max_gap t =
     (if tr_phase t = LEAK_PHASE_INACTIVE then t
      else
        let t1 = (if tr_phase t \<noteq> LEAK_PHASE_SUSPENDED
                  then t\<lparr>tr_suspended_from_phase := tr_phase t, tr_phase := LEAK_PHASE_SUSPENDED\<rparr> else t)
        in if tr_last_usable_sample_us t1 > 0 \<and> now - tr_last_usable_sample_us t1 > max_gap
              \<and> tr_phase t1 = LEAK_PHASE_SUSPENDED \<and> tr_activation_count t1 = 0
           then LeakTracker_Init else t1)"

definition tracker_usable :: "bool \<Rightarrow> bool \<Rightarrow> u64 \<Rightarrow> u64 \<Rightarrow> u64 \<Rightarrow> leak_evidence_tracker \<Rightarrow> leak_evidence_tracker" where
  "tracker_usable entry_active clear_active now entry_duration clear_duration t =
     (let t1 = t\<lparr>tr_last_usable_sample_us := now\<rparr>;
          t2 = (if tr_phase t1 = LEAK_PHASE_SUSPENDED
                then t1\<lparr>tr_phase := tr_suspended_from_phase t1, tr_suspended_from_phase := LEAK_PHASE_INACTIVE\<rparr> else t1)
      in case tr_phase t2 of
           LEAK_PHASE_INACTIVE \<Rightarrow> if entry_active then t2\<lparr>tr_entry_start_us := now, tr_phase := LEAK_PHASE_PENDING\<rparr> else t2
         | LEAK_PHASE_PENDING \<Rightarrow>
             if \<not> entry_active then
               (if clear_active then t2\<lparr>tr_clear_start_us := now, tr_phase := LEAK_PHASE_CLEAR_PENDING\<rparr> else LeakTracker_Init)
             else if now - tr_entry_start_us t2 \<ge> entry_duration
             then t2\<lparr>tr_active_since_us := now, tr_activation_count := tr_activation_count t2 + 1, tr_phase := LEAK_PHASE_ACTIVE\<rparr>
             else t2
         | LEAK_PHASE_ACTIVE \<Rightarrow>
             if clear_active then t2\<lparr>tr_clear_start_us := now, tr_phase := LEAK_PHASE_CLEAR_PENDING\<rparr> else t2
         | LEAK_PHASE_CLEAR_PENDING \<Rightarrow>
             if entry_active then t2\<lparr>tr_phase := LEAK_PHASE_ACTIVE\<rparr>
             else if \<not> clear_active then t2\<lparr>tr_phase := LEAK_PHASE_ACTIVE\<rparr>
             else if now - tr_clear_start_us t2 \<ge> clear_duration then LeakTracker_Init
             else t2
         | LEAK_PHASE_SUSPENDED \<Rightarrow> t2)"

definition LeakTracker_Evaluate :: "leak_evidence_tracker \<Rightarrow> bool \<Rightarrow> bool \<Rightarrow> bool \<Rightarrow> u64 \<Rightarrow> u64 \<Rightarrow> u64 \<Rightarrow> u64 \<Rightarrow> leak_evidence_tracker" where
  "LeakTracker_Evaluate t entry_active clear_active source_usable now entry_duration clear_duration max_gap =
     (if \<not> source_usable then tracker_unusable now max_gap t
      else tracker_usable entry_active clear_active now entry_duration clear_duration t)"

section \<open>The service\<close>

record leak_input_view =
  li_evaluation_monotonic_us :: u64
  li_sample_sequence :: u64
  li_source_generation :: u32
  li_flow_usable :: bool
  li_flow_ul_per_s :: i64
  li_flow_direction :: flow_direction
  li_pressure_usable :: bool
  li_pressure_pa :: i32
  li_flow_result :: "flow_result option"
  li_pressure_result :: "pressure_result option"

datatype leak_update_status =
    LEAK_UPDATE_NO_CHANGE | LEAK_UPDATE_RESULT_CHANGED | LEAK_UPDATE_STATE_CHANGED | LEAK_UPDATE_REJECTED_DUPLICATE
  | LEAK_UPDATE_REJECTED_STALE | LEAK_UPDATE_CONFIG_ERROR | LEAK_UPDATE_INTERNAL_ERROR

record leak_detection_service =
  ls_cfg :: leak_detection_config
  ls_state :: leak_state
  ls_eval_status :: leak_evaluation_status
  ls_primary_reason :: leak_primary_reason
  ls_severity :: leak_severity
  ls_reason_flags :: u32
  ls_evidence_flags :: u32
  ls_quality_flags :: u32
  ls_state_version :: u64
  ls_state_change_sequence :: u64
  ls_state_entered_us :: u64
  ls_continuous_tracker :: leak_evidence_tracker
  ls_burst_tracker :: leak_evidence_tracker
  ls_low_pressure_tracker :: leak_evidence_tracker
  ls_high_pressure_tracker :: leak_evidence_tracker
  ls_last_flow_sequence :: u64
  ls_last_pressure_sequence :: u64
  ls_last_eval_us :: u64
  ls_runtime_generation :: u32
  ls_diag_evals :: u64
  ls_diag_updates :: u64
  ls_diag_duplicates :: u64
  ls_diag_stale :: u64
  ls_diag_flow_unusable :: u64
  ls_diag_pressure_unusable :: u64

definition zero_leak_config :: leak_detection_config where
  "zero_leak_config =
     \<lparr>lc_schema_version = 0, lc_config_version = 0, lc_algorithm_version = 0, lc_profile_version = 0, lc_flags = 0,
      lc_continuous_entry_ul_per_s = 0, lc_continuous_clear_ul_per_s = 0, lc_continuous_suspect_duration_us = 0,
      lc_continuous_confirm_duration_us = 0, lc_continuous_clear_duration_us = 0, lc_burst_entry_ul_per_s = 0,
      lc_burst_clear_ul_per_s = 0, lc_burst_confirm_duration_us = 0, lc_burst_clear_duration_us = 0,
      lc_pressure_assist_enabled = False, lc_low_pressure_entry_pa = 0, lc_low_pressure_clear_pa = 0,
      lc_high_pressure_entry_pa = 0, lc_high_pressure_clear_pa = 0, lc_pressure_activation_duration_us = 0,
      lc_pressure_clear_duration_us = 0, lc_pressure_drop_enabled = False, lc_pressure_drop_entry_pa = 0,
      lc_pressure_drop_clear_pa = 0, lc_pressure_drop_window_us = 0, lc_pressure_drop_min_samples = 0,
      lc_maximum_flow_age_us = 0, lc_maximum_pressure_age_us = 0, lc_maximum_evidence_gap_us = 0,
      lc_correlation_window_us = 0, lc_confirmed_clear_duration_us = 0, lc_evaluation_period_us = 0\<rparr>"

definition LeakDetection_Init :: "leak_detection_config option \<Rightarrow> u64 \<Rightarrow> leak_detection_service" where
  "LeakDetection_Init cfg now =
     \<lparr>ls_cfg = (case cfg of Some c \<Rightarrow> c | None \<Rightarrow> zero_leak_config), ls_state = LEAK_STATE_NORMAL,
      ls_eval_status = LEAK_EVAL_NOT_READY, ls_primary_reason = LEAK_REASON_NONE, ls_severity = LEAK_SEVERITY_NONE,
      ls_reason_flags = 0, ls_evidence_flags = 0, ls_quality_flags = 0, ls_state_version = 1, ls_state_change_sequence = 0,
      ls_state_entered_us = now, ls_continuous_tracker = LeakTracker_Init, ls_burst_tracker = LeakTracker_Init,
      ls_low_pressure_tracker = LeakTracker_Init, ls_high_pressure_tracker = LeakTracker_Init, ls_last_flow_sequence = 0,
      ls_last_pressure_sequence = 0, ls_last_eval_us = now, ls_runtime_generation = 1, ls_diag_evals = 0, ls_diag_updates = 0,
      ls_diag_duplicates = 0, ls_diag_stale = 0, ls_diag_flow_unusable = 0, ls_diag_pressure_unusable = 0\<rparr>"

text \<open>A change of the leak state.\<close>

definition enter_leak_state :: "leak_state \<Rightarrow> leak_primary_reason \<Rightarrow> leak_severity \<Rightarrow> u64 \<Rightarrow> leak_detection_service \<Rightarrow> leak_detection_service" where
  "enter_leak_state st r sev now s =
     s\<lparr>ls_state := st, ls_primary_reason := r, ls_severity := sev,
       ls_state_change_sequence := ls_state_change_sequence s + 1, ls_state_entered_us := now\<rparr>"

text \<open>The three blocks of \<open>build_result\<close>, executed in sequence.\<close>

definition from_normal :: "u64 \<Rightarrow> leak_detection_service \<Rightarrow> leak_detection_service" where
  "from_normal now s =
     (if ls_state s \<noteq> LEAK_STATE_NORMAL then s
      else if tr_phase (ls_burst_tracker s) = LEAK_PHASE_ACTIVE
      then enter_leak_state LEAK_STATE_CONFIRMED LEAK_REASON_HIGH_FLOW_BURST LEAK_SEVERITY_HIGH now s
      else if tr_phase (ls_continuous_tracker s) = LEAK_PHASE_ACTIVE
      then enter_leak_state LEAK_STATE_SUSPECTED LEAK_REASON_CONTINUOUS_FLOW LEAK_SEVERITY_LOW now s
      else s)"

definition from_suspected :: "u64 \<Rightarrow> leak_detection_service \<Rightarrow> leak_detection_service" where
  "from_suspected now s =
     (let ct = ls_continuous_tracker s
      in if ls_state s \<noteq> LEAK_STATE_SUSPECTED then s
         else if tr_phase (ls_burst_tracker s) = LEAK_PHASE_ACTIVE
         then enter_leak_state LEAK_STATE_CONFIRMED LEAK_REASON_HIGH_FLOW_BURST LEAK_SEVERITY_HIGH now s
         else if tr_phase ct = LEAK_PHASE_ACTIVE then
           (if tr_active_since_us ct > 0 \<and> now - tr_active_since_us ct \<ge> lc_continuous_confirm_duration_us (ls_cfg s)
            then enter_leak_state LEAK_STATE_CONFIRMED (ls_primary_reason s) LEAK_SEVERITY_MEDIUM now s else s)
         else if tr_phase ct = LEAK_PHASE_INACTIVE
         then enter_leak_state LEAK_STATE_NORMAL LEAK_REASON_NONE LEAK_SEVERITY_NONE now s
         else s)"

definition from_confirmed :: "u64 \<Rightarrow> leak_detection_service \<Rightarrow> leak_detection_service" where
  "from_confirmed now s =
     (if ls_state s = LEAK_STATE_CONFIRMED \<and> tr_phase (ls_continuous_tracker s) = LEAK_PHASE_INACTIVE
         \<and> tr_phase (ls_burst_tracker s) = LEAK_PHASE_INACTIVE
      then enter_leak_state LEAK_STATE_NORMAL LEAK_REASON_NONE LEAK_SEVERITY_NONE now s else s)"

definition build_result :: "leak_input_view option \<Rightarrow> leak_detection_service \<Rightarrow> leak_update_status \<times> leak_detection_service" where
  "build_result input svc =
     (let now = (case input of Some i \<Rightarrow> li_evaluation_monotonic_us i | None \<Rightarrow> ls_last_eval_us svc);
          s = from_confirmed now (from_suspected now (from_normal now (svc\<lparr>ls_last_eval_us := now\<rparr>)));
          status =
            (if ls_state_version s = 1 \<and> ls_diag_evals s = 0 then LEAK_EVAL_NOT_READY
             else case input of None \<Rightarrow> LEAK_EVAL_ACTIVE
                  | Some i \<Rightarrow> if \<not> li_flow_usable i then LEAK_EVAL_UNAVAILABLE
                              else if \<not> li_pressure_usable i \<and> lc_pressure_assist_enabled (ls_cfg s) then LEAK_EVAL_DEGRADED
                              else LEAK_EVAL_ACTIVE)
      in (LEAK_UPDATE_RESULT_CHANGED,
          s\<lparr>ls_eval_status := status, ls_state_version := ls_state_version s + 1, ls_diag_updates := ls_diag_updates s + 1\<rparr>))"

text \<open>The conditions of the trackers.\<close>

definition cont_entry :: "leak_detection_config \<Rightarrow> leak_input_view \<Rightarrow> bool" where
  "cont_entry cfg i \<longleftrightarrow> li_flow_usable i \<and> li_flow_direction i = FLOW_DIRECTION_FORWARD \<and>
     li_flow_ul_per_s i \<ge> lc_continuous_entry_ul_per_s cfg \<and> li_flow_ul_per_s i < lc_burst_entry_ul_per_s cfg"

definition cont_clear :: "leak_detection_config \<Rightarrow> leak_input_view \<Rightarrow> bool" where
  "cont_clear cfg i \<longleftrightarrow> li_flow_usable i \<and> li_flow_ul_per_s i \<le> lc_continuous_clear_ul_per_s cfg"

definition burst_entry :: "leak_detection_config \<Rightarrow> leak_input_view \<Rightarrow> bool" where
  "burst_entry cfg i \<longleftrightarrow> li_flow_usable i \<and> li_flow_direction i = FLOW_DIRECTION_FORWARD \<and>
     li_flow_ul_per_s i \<ge> lc_burst_entry_ul_per_s cfg"

definition burst_clear :: "leak_detection_config \<Rightarrow> leak_input_view \<Rightarrow> bool" where
  "burst_clear cfg i \<longleftrightarrow> li_flow_usable i \<and> li_flow_ul_per_s i \<le> lc_burst_clear_ul_per_s cfg"

definition update_trackers :: "leak_input_view \<Rightarrow> leak_detection_service \<Rightarrow> leak_detection_service" where
  "update_trackers i s =
     (let cfg = ls_cfg s; now = li_evaluation_monotonic_us i; gap = lc_maximum_evidence_gap_us cfg;
          fu = li_flow_usable i; pu = li_pressure_usable i; p = li_pressure_pa i
      in s\<lparr>ls_continuous_tracker := LeakTracker_Evaluate (ls_continuous_tracker s) (cont_entry cfg i) (cont_clear cfg i) fu now
             (lc_continuous_suspect_duration_us cfg) (lc_continuous_clear_duration_us cfg) gap,
           ls_burst_tracker := LeakTracker_Evaluate (ls_burst_tracker s) (burst_entry cfg i) (burst_clear cfg i) fu now
             (lc_burst_confirm_duration_us cfg) (lc_burst_clear_duration_us cfg) gap,
           ls_low_pressure_tracker := LeakTracker_Evaluate (ls_low_pressure_tracker s) (pu \<and> p \<le> lc_low_pressure_entry_pa cfg)
             (pu \<and> p \<ge> lc_low_pressure_clear_pa cfg) pu now (lc_pressure_activation_duration_us cfg)
             (lc_pressure_clear_duration_us cfg) gap,
           ls_high_pressure_tracker := LeakTracker_Evaluate (ls_high_pressure_tracker s) (pu \<and> p \<ge> lc_high_pressure_entry_pa cfg)
             (pu \<and> p \<le> lc_high_pressure_clear_pa cfg) pu now (lc_pressure_activation_duration_us cfg)
             (lc_pressure_clear_duration_us cfg) gap\<rparr>)"

definition flag_if :: "bool \<Rightarrow> u32 \<Rightarrow> u32" where
  "flag_if b f = (if b then f else 0)"

definition update_flags :: "leak_input_view \<Rightarrow> leak_detection_service \<Rightarrow> leak_detection_service" where
  "update_flags i s =
     s\<lparr>ls_evidence_flags := flag_if (tr_phase (ls_continuous_tracker s) = LEAK_PHASE_ACTIVE) LEAK_EVIDENCE_CONTINUOUS_FLOW
         OR flag_if (tr_phase (ls_burst_tracker s) = LEAK_PHASE_ACTIVE) LEAK_EVIDENCE_HIGH_FLOW
         OR flag_if (tr_phase (ls_low_pressure_tracker s) = LEAK_PHASE_ACTIVE) LEAK_EVIDENCE_LOW_PRESSURE
         OR flag_if (tr_phase (ls_high_pressure_tracker s) = LEAK_PHASE_ACTIVE) LEAK_EVIDENCE_HIGH_PRESSURE,
       ls_quality_flags := flag_if (\<not> li_flow_usable i) 1 OR flag_if (\<not> li_pressure_usable i) 2,
       ls_diag_flow_unusable := ls_diag_flow_unusable s + (if li_flow_usable i then 0 else 1),
       ls_diag_pressure_unusable := ls_diag_pressure_unusable s + (if li_pressure_usable i then 0 else 1)\<rparr>"

definition LeakDetection_Evaluate :: "leak_detection_service \<Rightarrow> leak_input_view \<Rightarrow> leak_update_status \<times> leak_detection_service" where
  "LeakDetection_Evaluate svc i =
     (let s = svc\<lparr>ls_diag_evals := ls_diag_evals svc + 1\<rparr>
      in if li_flow_result i \<noteq> None \<and> li_sample_sequence i > 0 \<and> li_sample_sequence i = ls_last_flow_sequence s
            \<and> li_source_generation i = ls_runtime_generation s
         then (LEAK_UPDATE_REJECTED_DUPLICATE, s\<lparr>ls_diag_duplicates := ls_diag_duplicates s + 1\<rparr>)
         else
           let s1 = (if li_sample_sequence i > 0 then s\<lparr>ls_last_flow_sequence := li_sample_sequence i\<rparr> else s);
               s2 = (case li_pressure_result i of None \<Rightarrow> s1
                     | Some p \<Rightarrow> if md_sample_sequence (pr_meta p) > 0
                                  then s1\<lparr>ls_last_pressure_sequence := md_sample_sequence (pr_meta p)\<rparr> else s1)
           in build_result (Some i) (update_flags i (update_trackers i s2)))"

definition LeakDetection_GetResult :: "leak_detection_service \<Rightarrow> leak_input_view option \<Rightarrow> volume_state option \<Rightarrow> u64 \<Rightarrow> leak_detection_result" where
  "LeakDetection_GetResult svc input volume source_snapshot_version =
     zero_leak_result\<lparr>lr_result_version := ls_state_version svc, lr_state_change_sequence := ls_state_change_sequence svc,
       lr_state := ls_state svc, lr_evaluation_status := ls_eval_status svc, lr_primary_reason := ls_primary_reason svc,
       lr_severity := ls_severity svc, lr_reason_flags := ls_reason_flags svc, lr_evidence_flags := ls_evidence_flags svc,
       lr_quality_flags := ls_quality_flags svc, lr_state_entered_monotonic_us := ls_state_entered_us svc,
       lr_latest_evidence_monotonic_us := ls_last_eval_us svc, lr_source_snapshot_version := source_snapshot_version,
       lr_runtime_generation := ls_runtime_generation svc, lr_config_version := lc_config_version (ls_cfg svc),
       lr_algorithm_version := lc_algorithm_version (ls_cfg svc), lr_profile_version := lc_profile_version (ls_cfg svc),
       lr_flow_result_version := (case Option.bind input li_flow_result of Some f \<Rightarrow> md_result_version (fl_meta f) | None \<Rightarrow> 0),
       lr_pressure_result_version := (case Option.bind input li_pressure_result of Some p \<Rightarrow> md_result_version (pr_meta p) | None \<Rightarrow> 0),
       lr_volume_state_version := (case volume of Some v \<Rightarrow> vs_state_version v | None \<Rightarrow> 0)\<rparr>"

definition LeakDetection_ApplyConfig :: "leak_detection_service \<Rightarrow> leak_detection_config option \<Rightarrow> u64 \<Rightarrow> bool \<times> leak_detection_service" where
  "LeakDetection_ApplyConfig svc cfg now =
     (case cfg of None \<Rightarrow> (False, svc)
      | Some c \<Rightarrow>
          (case LeakConfig_Validate (Some c) of Inl _ \<Rightarrow> (False, svc)
           | Inr _ \<Rightarrow>
               let s = svc\<lparr>ls_cfg := c\<rparr>;
                   s1 = (if ls_state s \<noteq> LEAK_STATE_CONFIRMED
                         then s\<lparr>ls_continuous_tracker := LeakTracker_Init, ls_burst_tracker := LeakTracker_Init\<rparr> else s)
               in (True, s1\<lparr>ls_low_pressure_tracker := LeakTracker_Init, ls_high_pressure_tracker := LeakTracker_Init,
                     ls_last_eval_us := now\<rparr>)))"

definition LeakDetection_Reset :: "leak_detection_service \<Rightarrow> u32 \<Rightarrow> u64 \<Rightarrow> leak_detection_service" where
  "LeakDetection_Reset svc new_generation now =
     svc\<lparr>ls_state := LEAK_STATE_NORMAL, ls_eval_status := LEAK_EVAL_NOT_READY, ls_primary_reason := LEAK_REASON_NONE,
       ls_severity := LEAK_SEVERITY_NONE, ls_reason_flags := 0, ls_evidence_flags := 0, ls_quality_flags := 0,
       ls_state_change_sequence := 0, ls_state_entered_us := now, ls_runtime_generation := new_generation,
       ls_continuous_tracker := LeakTracker_Init, ls_burst_tracker := LeakTracker_Init,
       ls_low_pressure_tracker := LeakTracker_Init, ls_high_pressure_tracker := LeakTracker_Init,
       ls_last_flow_sequence := 0, ls_last_pressure_sequence := 0, ls_last_eval_us := now\<rparr>"

section \<open>The published state is consistent\<close>

datatype leak_op = Op_evaluate leak_input_view | Op_apply_config "leak_detection_config option" u64 | Op_reset u32 u64

fun leak_step :: "leak_detection_service \<Rightarrow> leak_op \<Rightarrow> leak_detection_service" where
  "leak_step s (Op_evaluate i) = snd (LeakDetection_Evaluate s i)"
| "leak_step s (Op_apply_config c now) = snd (LeakDetection_ApplyConfig s c now)"
| "leak_step s (Op_reset g now) = LeakDetection_Reset s g now"

definition leak_verdict :: "leak_detection_service \<Rightarrow> leak_state \<times> leak_primary_reason \<times> leak_severity" where
  "leak_verdict s = (ls_state s, ls_primary_reason s, ls_severity s)"

definition verdict_ok :: "leak_detection_service \<Rightarrow> bool" where
  "verdict_ok s \<longleftrightarrow> leak_verdict s \<in>
     {(LEAK_STATE_NORMAL, LEAK_REASON_NONE, LEAK_SEVERITY_NONE),
      (LEAK_STATE_SUSPECTED, LEAK_REASON_CONTINUOUS_FLOW, LEAK_SEVERITY_LOW),
      (LEAK_STATE_CONFIRMED, LEAK_REASON_CONTINUOUS_FLOW, LEAK_SEVERITY_MEDIUM),
      (LEAK_STATE_CONFIRMED, LEAK_REASON_HIGH_FLOW_BURST, LEAK_SEVERITY_HIGH)}"

text \<open>The trackers do not depend on the verdict, and the verdict changes only in the three blocks.\<close>

lemma update_frame [simp]:
  "leak_verdict (update_trackers i s) = leak_verdict s" "leak_verdict (update_flags i s) = leak_verdict s"
  "ls_state (update_flags i s) = ls_state s" "ls_state (update_trackers i s) = ls_state s"
  "ls_continuous_tracker (update_flags i s) = ls_continuous_tracker s" "ls_burst_tracker (update_flags i s) = ls_burst_tracker s"
  "ls_cfg (update_flags i s) = ls_cfg s" "ls_cfg (update_trackers i s) = ls_cfg s"
  "ls_runtime_generation (update_flags i s) = ls_runtime_generation s" "ls_runtime_generation (update_trackers i s) = ls_runtime_generation s"
  "ls_last_flow_sequence (update_flags i s) = ls_last_flow_sequence s" "ls_last_flow_sequence (update_trackers i s) = ls_last_flow_sequence s"
  by (simp_all add: leak_verdict_def update_trackers_def update_flags_def Let_def)

lemma blocks_frame [simp]:
  "ls_continuous_tracker (from_normal now s) = ls_continuous_tracker s" "ls_burst_tracker (from_normal now s) = ls_burst_tracker s"
  "ls_continuous_tracker (from_suspected now s) = ls_continuous_tracker s" "ls_burst_tracker (from_suspected now s) = ls_burst_tracker s"
  "ls_continuous_tracker (from_confirmed now s) = ls_continuous_tracker s" "ls_burst_tracker (from_confirmed now s) = ls_burst_tracker s"
  "ls_cfg (from_normal now s) = ls_cfg s" "ls_cfg (from_suspected now s) = ls_cfg s" "ls_cfg (from_confirmed now s) = ls_cfg s"
  "ls_runtime_generation (from_normal now s) = ls_runtime_generation s"
  "ls_runtime_generation (from_suspected now s) = ls_runtime_generation s"
  "ls_runtime_generation (from_confirmed now s) = ls_runtime_generation s"
  "ls_last_flow_sequence (from_normal now s) = ls_last_flow_sequence s"
  "ls_last_flow_sequence (from_suspected now s) = ls_last_flow_sequence s"
  "ls_last_flow_sequence (from_confirmed now s) = ls_last_flow_sequence s"
  by (simp_all add: from_normal_def from_suspected_def from_confirmed_def enter_leak_state_def Let_def)

lemma blocks_verdict: "verdict_ok s \<Longrightarrow> verdict_ok (from_normal now s)" "verdict_ok s \<Longrightarrow> verdict_ok (from_suspected now s)"
  "verdict_ok s \<Longrightarrow> verdict_ok (from_confirmed now s)"
  by (auto simp: verdict_ok_def leak_verdict_def from_normal_def from_suspected_def from_confirmed_def enter_leak_state_def Let_def)

lemma build_result_verdict: "verdict_ok s \<Longrightarrow> verdict_ok (snd (build_result input s))"
proof -
  assume ok: "verdict_ok s"
  let ?now = "case input of Some i \<Rightarrow> li_evaluation_monotonic_us i | None \<Rightarrow> ls_last_eval_us s"
  have "verdict_ok (s\<lparr>ls_last_eval_us := ?now\<rparr>)" using ok by (simp add: verdict_ok_def leak_verdict_def)
  then have "verdict_ok (from_confirmed ?now (from_suspected ?now (from_normal ?now (s\<lparr>ls_last_eval_us := ?now\<rparr>))))"
    by (intro blocks_verdict)
  then show ?thesis by (simp add: build_result_def Let_def verdict_ok_def leak_verdict_def)
qed

lemma verdict_ok_cong: "leak_verdict s = leak_verdict s' \<Longrightarrow> verdict_ok s = verdict_ok s'"
  by (simp add: verdict_ok_def)

lemma evaluate_verdict: "verdict_ok s \<Longrightarrow> verdict_ok (snd (LeakDetection_Evaluate s i))"
proof -
  assume ok: "verdict_ok s"
  have "verdict_ok (snd (build_result (Some i) (update_flags i (update_trackers i s2))))" if "leak_verdict s2 = leak_verdict s" for s2
    using ok that by (intro build_result_verdict) (simp add: verdict_ok_def)
  then show ?thesis using ok
    by (simp add: LeakDetection_Evaluate_def Let_def leak_verdict_def split: option.splits) (simp add: verdict_ok_def leak_verdict_def)
qed

lemma config_verdict: "leak_verdict (snd (LeakDetection_ApplyConfig s c now)) = leak_verdict s"
  by (simp add: LeakDetection_ApplyConfig_def leak_verdict_def Let_def split: option.split sum.split)

lemma leak_step_verdict: "verdict_ok s \<Longrightarrow> verdict_ok (leak_step s e)"
proof (cases e)
  case (Op_apply_config c now)
  then show "verdict_ok s \<Longrightarrow> ?thesis" by (simp add: verdict_ok_def config_verdict)
next
  case (Op_reset g now)
  then show "verdict_ok s \<Longrightarrow> ?thesis" by (simp add: verdict_ok_def leak_verdict_def LeakDetection_Reset_def)
qed (simp add: evaluate_verdict)

interpretation leak: transition_system leak_step verdict_ok
  by unfold_locales (rule leak_step_verdict)

text \<open>C40: whatever sequence of inputs, configuration changes and resets the service has seen, the published
  state, reason and severity belong together: no alarm without a reason, none of the wrong severity.\<close>

theorem leak_verdict_consistent:
  "leak_verdict (foldl leak_step (LeakDetection_Init cfg now) ops) \<in>
     {(LEAK_STATE_NORMAL, LEAK_REASON_NONE, LEAK_SEVERITY_NONE),
      (LEAK_STATE_SUSPECTED, LEAK_REASON_CONTINUOUS_FLOW, LEAK_SEVERITY_LOW),
      (LEAK_STATE_CONFIRMED, LEAK_REASON_CONTINUOUS_FLOW, LEAK_SEVERITY_MEDIUM),
      (LEAK_STATE_CONFIRMED, LEAK_REASON_HIGH_FLOW_BURST, LEAK_SEVERITY_HIGH)}"
proof -
  have "verdict_ok (LeakDetection_Init cfg now)" by (simp add: verdict_ok_def leak_verdict_def LeakDetection_Init_def)
  then show ?thesis using leak.run_inv by (simp add: verdict_ok_def)
qed

section \<open>A sustained burst is confirmed\<close>

definition duplicate :: "leak_detection_service \<Rightarrow> leak_input_view \<Rightarrow> bool" where
  "duplicate s i \<longleftrightarrow> li_flow_result i \<noteq> None \<and> li_sample_sequence i > 0 \<and> li_sample_sequence i = ls_last_flow_sequence s
     \<and> li_source_generation i = ls_runtime_generation s"

text \<open>What an evaluation that is not a duplicate does to the trackers and the state.\<close>

lemma evaluate_parts:
  assumes "\<not> duplicate s i"
  obtains s3 where "ls_burst_tracker s3 = LeakTracker_Evaluate (ls_burst_tracker s) (burst_entry (ls_cfg s) i) (burst_clear (ls_cfg s) i)
      (li_flow_usable i) (li_evaluation_monotonic_us i) (lc_burst_confirm_duration_us (ls_cfg s)) (lc_burst_clear_duration_us (ls_cfg s))
      (lc_maximum_evidence_gap_us (ls_cfg s))"
    "ls_state s3 = ls_state s" "ls_cfg s3 = ls_cfg s" "ls_runtime_generation s3 = ls_runtime_generation s"
    "ls_last_flow_sequence s3 = (if li_sample_sequence i > 0 then li_sample_sequence i else ls_last_flow_sequence s)"
    "LeakDetection_Evaluate s i = build_result (Some i) s3"
proof -
  let ?s = "s\<lparr>ls_diag_evals := ls_diag_evals s + 1\<rparr>"
  let ?s1 = "if li_sample_sequence i > 0 then ?s\<lparr>ls_last_flow_sequence := li_sample_sequence i\<rparr> else ?s"
  let ?s2 = "case li_pressure_result i of None \<Rightarrow> ?s1
     | Some p \<Rightarrow> if md_sample_sequence (pr_meta p) > 0 then ?s1\<lparr>ls_last_pressure_sequence := md_sample_sequence (pr_meta p)\<rparr> else ?s1"
  have fr: "ls_burst_tracker ?s2 = ls_burst_tracker s" "ls_cfg ?s2 = ls_cfg s" "ls_state ?s2 = ls_state s"
    "ls_runtime_generation ?s2 = ls_runtime_generation s"
    "ls_last_flow_sequence ?s2 = (if li_sample_sequence i > 0 then li_sample_sequence i else ls_last_flow_sequence s)"
    by (simp_all split: option.split)
  have e: "LeakDetection_Evaluate s i = build_result (Some i) (update_flags i (update_trackers i ?s2))"
  proof -
    have "(li_flow_result i \<noteq> None \<and> li_sample_sequence i > 0 \<and> li_sample_sequence i = ls_last_flow_sequence ?s
        \<and> li_source_generation i = ls_runtime_generation ?s) = False" using assms by (auto simp: duplicate_def)
    then show ?thesis unfolding LeakDetection_Evaluate_def Let_def by (simp only: if_False)
  qed
  have bt: "ls_burst_tracker (update_trackers i x) = LeakTracker_Evaluate (ls_burst_tracker x) (burst_entry (ls_cfg x) i) (burst_clear (ls_cfg x) i)
      (li_flow_usable i) (li_evaluation_monotonic_us i) (lc_burst_confirm_duration_us (ls_cfg x)) (lc_burst_clear_duration_us (ls_cfg x))
      (lc_maximum_evidence_gap_us (ls_cfg x))" for x
    by (simp add: update_trackers_def Let_def)
  show ?thesis
    by (rule that [of "update_flags i (update_trackers i ?s2)"]) (simp_all only: update_frame bt fr e)
qed

lemma build_result_frame:
  "ls_burst_tracker (snd (build_result (Some i) s)) = ls_burst_tracker s" "ls_cfg (snd (build_result (Some i) s)) = ls_cfg s"
  "ls_runtime_generation (snd (build_result (Some i) s)) = ls_runtime_generation s"
  "ls_last_flow_sequence (snd (build_result (Some i) s)) = ls_last_flow_sequence s"
  by (simp_all add: build_result_def Let_def)

lemma build_result_burst: "tr_phase (ls_burst_tracker s) = LEAK_PHASE_ACTIVE \<Longrightarrow> ls_state (snd (build_result (Some i) s)) = LEAK_STATE_CONFIRMED"
  by (cases "ls_state s")
    (simp_all add: build_result_def from_normal_def from_suspected_def from_confirmed_def enter_leak_state_def Let_def)







definition sample_input :: "u64 \<Rightarrow> u64 \<Rightarrow> int \<Rightarrow> leak_input_view" where
  "sample_input sq now q = \<lparr>li_evaluation_monotonic_us = now, li_sample_sequence = sq, li_source_generation = 1,
     li_flow_usable = True, li_flow_ul_per_s = q, li_flow_direction = FLOW_DIRECTION_FORWARD, li_pressure_usable = False,
     li_pressure_pa = 0, li_flow_result = Some zero_flow, li_pressure_result = None\<rparr>"


section \<open>An alarm is not cleared early\<close>

record observation =
  ob_entry :: bool
  ob_clear :: bool
  ob_usable :: bool
  ob_now :: u64

definition track :: "u64 \<Rightarrow> u64 \<Rightarrow> u64 \<Rightarrow> leak_evidence_tracker \<Rightarrow> observation list \<Rightarrow> leak_evidence_tracker" where
  "track d cd gap t obs = foldl (\<lambda>t o'. LeakTracker_Evaluate t (ob_entry o') (ob_clear o') (ob_usable o') (ob_now o') d cd gap) t obs"

lemma track_snoc: "track d cd gap t (obs @ [x]) =
    LeakTracker_Evaluate (track d cd gap t obs) (ob_entry x) (ob_clear x) (ob_usable x) (ob_now x) d cd gap"
  by (simp add: track_def)

text \<open>Quiet: usable, clear and without entry condition; gaps in the source do not interrupt it.\<close>

definition quiet :: "observation \<Rightarrow> bool" where
  "quiet x \<longleftrightarrow> (ob_usable x \<longrightarrow> ob_clear x \<and> \<not> ob_entry x)"

definition quiet_since :: "u64 \<Rightarrow> observation list \<Rightarrow> bool" where
  "quiet_since t0 obs \<longleftrightarrow> (\<exists>pre x mid. obs = pre @ x # mid \<and> ob_usable x \<and> ob_clear x \<and> ob_now x = t0 \<and> list_all quiet mid)"

lemma quiet_since_start: "ob_usable x \<Longrightarrow> ob_clear x \<Longrightarrow> quiet_since (ob_now x) (obs @ [x])"
  unfolding quiet_since_def by (intro exI [of _ obs] exI [of _ x] exI [of _ "[]"]) simp

lemma quiet_since_more: "quiet_since t0 obs \<Longrightarrow> quiet x \<Longrightarrow> quiet_since t0 (obs @ [x])"
  unfolding quiet_since_def by (elim exE, rename_tac pre y mid, rule_tac x = pre in exI, rule_tac x = y in exI, rule_tac x = "mid @ [x]" in exI) simp

definition cleared_late :: "u64 \<Rightarrow> observation list \<Rightarrow> bool" where
  "cleared_late cd obs \<longleftrightarrow> (\<exists>pre post x t0. obs = pre @ x # post \<and> quiet_since t0 pre \<and> ob_usable x \<and> quiet x \<and> ob_now x - t0 \<ge> cd)"

lemma cleared_late_more: "cleared_late cd obs \<Longrightarrow> cleared_late cd (obs @ [x])"
  unfolding cleared_late_def by (elim exE, rename_tac pre post y t0, rule_tac x = pre in exI, rule_tac x = "post @ [x]" in exI) auto

lemma cleared_late_now: "quiet_since t0 obs \<Longrightarrow> ob_usable x \<Longrightarrow> quiet x \<Longrightarrow> ob_now x - t0 \<ge> cd \<Longrightarrow> cleared_late cd (obs @ [x])"
  unfolding cleared_late_def by (rule exI [of _ obs], rule exI [of _ "[]"], rule exI [of _ x], rule exI [of _ t0]) simp

definition effective_phase :: "leak_evidence_tracker \<Rightarrow> leak_evidence_phase" where
  "effective_phase t = (if tr_phase t = LEAK_PHASE_SUSPENDED then tr_suspended_from_phase t else tr_phase t)"

definition alarm_held :: "leak_evidence_tracker \<Rightarrow> observation list \<Rightarrow> bool" where
  "alarm_held t obs \<longleftrightarrow> 0 < tr_activation_count t \<and>
     (effective_phase t = LEAK_PHASE_ACTIVE \<or> effective_phase t = LEAK_PHASE_CLEAR_PENDING \<and> quiet_since (tr_clear_start_us t) obs)"

lemma alarm_step:
  assumes "alarm_held t obs"
  shows "alarm_held (LeakTracker_Evaluate t (ob_entry x) (ob_clear x) (ob_usable x) (ob_now x) d cd gap) (obs @ [x]) \<or>
    cleared_late cd (obs @ [x])"
proof (cases "ob_usable x")
  case False
  then have "quiet x" by (simp add: quiet_def)
  then show ?thesis using assms False quiet_since_more [of "tr_clear_start_us t" obs x]
    by (cases "tr_phase t") (auto simp: alarm_held_def effective_phase_def LeakTracker_Evaluate_def tracker_unusable_def Let_def)
next
  case True
  consider (act) "effective_phase t = LEAK_PHASE_ACTIVE"
    | (clr) "effective_phase t = LEAK_PHASE_CLEAR_PENDING" "quiet_since (tr_clear_start_us t) obs"
    using assms by (auto simp: alarm_held_def)
  then show ?thesis
  proof cases
    case act
    then show ?thesis using assms True quiet_since_start [of x obs]
      by (cases "tr_phase t") (auto simp: alarm_held_def effective_phase_def LeakTracker_Evaluate_def tracker_usable_def Let_def)
  next
    case clr
    have "quiet x" if "ob_clear x" "\<not> ob_entry x" using that by (simp add: quiet_def)
    then show ?thesis using clr assms True quiet_since_more [of "tr_clear_start_us t" obs x]
        cleared_late_now [of "tr_clear_start_us t" obs x cd]
      by (cases "tr_phase t") (auto simp: alarm_held_def effective_phase_def LeakTracker_Evaluate_def tracker_usable_def Let_def)
  qed
qed

lemma alarm_run:
  "tr_phase t = LEAK_PHASE_ACTIVE \<Longrightarrow> 0 < tr_activation_count t \<Longrightarrow>
   alarm_held (track d cd gap t obs) obs \<or> cleared_late cd obs"
proof (induction obs rule: rev_induct)
  case Nil
  then show ?case by (simp add: track_def alarm_held_def effective_phase_def)
next
  case (snoc x obs)
  then show ?case using alarm_step [of "track d cd gap t obs" obs x d cd gap] cleared_late_more [of cd obs x]
    by (auto simp: track_snoc)
qed

text \<open>Active evidence is never dropped early: if a tracker that was active is found at rest after any
  sequence of observations, then at some point the clear condition held at every usable sample for the
  whole clear duration; samples with the source unusable neither clear the evidence nor interrupt it.\<close>

theorem active_evidence_clears_only_after_quiet:
  assumes "tr_phase t = LEAK_PHASE_ACTIVE" "0 < tr_activation_count t"
    and "tr_phase (track d cd gap t obs) = LEAK_PHASE_INACTIVE"
  shows "\<exists>pre a mid b post. obs = pre @ a # mid @ b # post \<and> ob_usable a \<and> ob_clear a \<and> ob_usable b \<and>
    (\<forall>x \<in> set (mid @ [b]). ob_usable x \<longrightarrow> ob_clear x \<and> \<not> ob_entry x) \<and> ob_now b - ob_now a \<ge> cd"
proof -
  have "\<not> alarm_held (track d cd gap t obs) obs" using assms(3) by (simp add: alarm_held_def effective_phase_def)
  then have "cleared_late cd obs" using alarm_run [OF assms(1,2)] by blast
  then obtain pre post b t0 where o: "obs = pre @ b # post" "quiet_since t0 pre" "ob_usable b" "quiet b" "ob_now b - t0 \<ge> cd"
    by (auto simp: cleared_late_def)
  from o(2) obtain pre' a mid where p: "pre = pre' @ a # mid" "ob_usable a" "ob_clear a" "ob_now a = t0" "list_all quiet mid"
    by (auto simp: quiet_since_def)
  have "\<forall>x \<in> set (mid @ [b]). ob_usable x \<longrightarrow> ob_clear x \<and> \<not> ob_entry x"
    using o(4) p(5) by (auto simp: quiet_def list_all_iff)
  then show ?thesis using o p by (intro exI [of _ pre'] exI [of _ a] exI [of _ mid] exI [of _ b] exI [of _ post]) simp
qed

definition active_tracker :: leak_evidence_tracker where
  "active_tracker = LeakTracker_Init\<lparr>tr_phase := LEAK_PHASE_ACTIVE, tr_activation_count := 1\<rparr>"

lemma active_evidence_clears_only_after_quiet_witness:
  "\<exists>pre a mid b post. [\<lparr>ob_entry = False, ob_clear = True, ob_usable = True, ob_now = 5\<rparr>,
     \<lparr>ob_entry = False, ob_clear = False, ob_usable = False, ob_now = 9\<rparr>,
     \<lparr>ob_entry = False, ob_clear = True, ob_usable = True, ob_now = 15\<rparr>] = pre @ a # mid @ b # post \<and> ob_now b - ob_now a \<ge> (10 :: u64)"
proof -
  let ?obs = "[\<lparr>ob_entry = False, ob_clear = True, ob_usable = True, ob_now = 5\<rparr>,
     \<lparr>ob_entry = False, ob_clear = False, ob_usable = False, ob_now = 9\<rparr>,
     \<lparr>ob_entry = False, ob_clear = True, ob_usable = True, ob_now = 15\<rparr>]"
  have "tr_phase (track 3 10 7 active_tracker ?obs) = LEAK_PHASE_INACTIVE" by code_simp
  then show ?thesis using active_evidence_clears_only_after_quiet [of active_tracker 3 10 7 ?obs]
    by (simp add: active_tracker_def) metis
qed

section \<open>An alarm can be raised early\<close>

text \<open>The confirmation time is not always observed: from a state at rest one sample above the burst
  threshold, one below the clear threshold and one anywhere above the clear threshold (even below the
  entry threshold) raise a confirmed burst of high severity, however short the time between them and
  however long the configured confirmation time.\<close>

theorem spikes_raise_burst_alarm:
  assumes "ls_state s = LEAK_STATE_NORMAL" "tr_phase (ls_burst_tracker s) = LEAK_PHASE_INACTIVE"
    and "lc_burst_clear_ul_per_s (ls_cfg s) < lc_burst_entry_ul_per_s (ls_cfg s)"
    and "li_flow_usable a \<and> li_flow_usable b \<and> li_flow_usable c" "li_flow_direction a = FLOW_DIRECTION_FORWARD"
    and "lc_burst_entry_ul_per_s (ls_cfg s) \<le> li_flow_ul_per_s a" "li_flow_ul_per_s b \<le> lc_burst_clear_ul_per_s (ls_cfg s)"
    and "lc_burst_clear_ul_per_s (ls_cfg s) < li_flow_ul_per_s c"
    and "distinct (ls_last_flow_sequence s # map li_sample_sequence [a, b, c])" "\<forall>i \<in> {a, b, c}. li_sample_sequence i > 0"
  shows "ls_state (foldl (\<lambda>s i. snd (LeakDetection_Evaluate s i)) s [a, b, c]) = LEAK_STATE_CONFIRMED"
proof -
  let ?cfg = "ls_cfg s" and ?n = "\<lambda>i. li_evaluation_monotonic_us i"
  have conds: "burst_entry ?cfg a" "\<not> burst_entry ?cfg b" "burst_clear ?cfg b" "\<not> burst_clear ?cfg c"
    using assms by (auto simp: burst_entry_def burst_clear_def)
  have nd: "\<not> duplicate s a" using assms(9) by (auto simp: duplicate_def)
  define s1 where "s1 = snd (LeakDetection_Evaluate s a)"
  define s2 where "s2 = snd (LeakDetection_Evaluate s1 b)"
  have 1: "tr_phase (ls_burst_tracker s1) = LEAK_PHASE_PENDING" "ls_cfg s1 = ?cfg"
    "ls_runtime_generation s1 = ls_runtime_generation s" "ls_last_flow_sequence s1 = li_sample_sequence a"
    by (rule evaluate_parts [OF nd], insert assms conds,
      simp add: s1_def build_result_frame LeakTracker_Evaluate_def tracker_usable_def Let_def)+
  have nd2: "\<not> duplicate s1 b" using assms(9) 1(4) by (auto simp: duplicate_def)
  have 2: "tr_phase (ls_burst_tracker s2) = LEAK_PHASE_CLEAR_PENDING" "ls_cfg s2 = ?cfg" "ls_last_flow_sequence s2 = li_sample_sequence b"
    by (rule evaluate_parts [OF nd2], insert assms conds 1,
      simp add: s2_def build_result_frame LeakTracker_Evaluate_def tracker_usable_def Let_def)+
  have nd3: "\<not> duplicate s2 c" using assms(9) 2(3) by (auto simp: duplicate_def)
  obtain s3 where s3: "ls_burst_tracker s3 = LeakTracker_Evaluate (ls_burst_tracker s2) (burst_entry ?cfg c) (burst_clear ?cfg c)
      (li_flow_usable c) (?n c) (lc_burst_confirm_duration_us ?cfg) (lc_burst_clear_duration_us ?cfg) (lc_maximum_evidence_gap_us ?cfg)"
    "LeakDetection_Evaluate s2 c = build_result (Some c) s3"
    using evaluate_parts [OF nd3] 2(2) by metis
  have "tr_phase (ls_burst_tracker s3) = LEAK_PHASE_ACTIVE"
    using assms(4) conds(4) 2(1) by (simp add: s3(1) LeakTracker_Evaluate_def tracker_usable_def Let_def)
  then have "ls_state (snd (LeakDetection_Evaluate s2 c)) = LEAK_STATE_CONFIRMED" by (simp add: s3(2) build_result_burst)
  then show ?thesis by (simp add: s1_def s2_def)
qed

lemma spikes_raise_burst_alarm_witness:
  "ls_state (foldl (\<lambda>s i. snd (LeakDetection_Evaluate s i)) (LeakDetection_Init (Some LeakConfig_GetTestDefaults) 0)
     [sample_input 1 1 400000, sample_input 2 2 0, sample_input 3 3 170000]) = LEAK_STATE_CONFIRMED"
proof -
  let ?s = "LeakDetection_Init (Some LeakConfig_GetTestDefaults) 0"
  have s: "ls_cfg ?s = LeakConfig_GetTestDefaults" "tr_phase (ls_burst_tracker ?s) = LEAK_PHASE_INACTIVE" "ls_last_flow_sequence ?s = 0"
    "ls_state ?s = LEAK_STATE_NORMAL"
    by (simp_all add: LeakDetection_Init_def LeakTracker_Init_def)
  have cfg: "lc_burst_clear_ul_per_s LeakConfig_GetTestDefaults = 166666" "lc_burst_entry_ul_per_s LeakConfig_GetTestDefaults = 333333"
    by (simp_all add: LeakConfig_GetTestDefaults_def)
  show ?thesis
    by (rule spikes_raise_burst_alarm) (simp_all add: s cfg sample_input_def)
qed

end
