(* ===== verification/Telemetry.thy ===== *)
theory Telemetry
  imports Domain_Types
begin

text \<open>
  Telemetry: the record builder (protocols/telemetry/telemetry_builder.c), the bounded queue of
  records (services/connectivity/telemetry_queue.c) and the delivery service that sends them
  (services/connectivity/cellular_delivery.c).

  The queue is a fixed array of 64 entries.  A record stays in its entry while it is sent; an
  acknowledgement, expiry or the drop policy frees the entry.
\<close>

section \<open>Records and the builder\<close>

record telemetry_record =
  tr_record_sequence :: u64
  tr_schema_version :: u16
  tr_report_reason :: u16
  tr_schedule_version :: u32
  tr_window_id :: u8
  tr_slot_due_wall_s :: i64
  tr_slot_ordinal :: u16
  tr_source_snapshot_version :: u64
  tr_snapshot_generation :: u32
  tr_build_monotonic_us :: u64
  tr_build_wall_s :: i64
  tr_wall_time_quality :: u8
  tr_flow_ul_per_s :: i64
  tr_flow_direction :: u8
  tr_temperature_mdeg_c :: i32
  tr_pressure_pa :: i32
  tr_forward_volume_ul :: u64
  tr_reverse_volume_ul :: u64
  tr_leak_state :: u8
  tr_leak_eval_status :: u8
  tr_system_mode :: u8
  tr_battery_mv :: u16
  tr_config_version :: u32
  tr_calibration_version :: u32
  tr_diagnostic_flags :: u32

definition zero_telemetry_record :: telemetry_record where
  "zero_telemetry_record =
     \<lparr>tr_record_sequence = 0, tr_schema_version = 0, tr_report_reason = 0, tr_schedule_version = 0, tr_window_id = 0,
      tr_slot_due_wall_s = 0, tr_slot_ordinal = 0, tr_source_snapshot_version = 0, tr_snapshot_generation = 0,
      tr_build_monotonic_us = 0, tr_build_wall_s = 0, tr_wall_time_quality = 0, tr_flow_ul_per_s = 0,
      tr_flow_direction = 0, tr_temperature_mdeg_c = 0, tr_pressure_pa = 0, tr_forward_volume_ul = 0,
      tr_reverse_volume_ul = 0, tr_leak_state = 0, tr_leak_eval_status = 0, tr_system_mode = 0, tr_battery_mv = 0,
      tr_config_version = 0, tr_calibration_version = 0, tr_diagnostic_flags = 0\<rparr>"

text \<open>The enumerators cast to a byte.\<close>

fun direction_code :: "flow_direction \<Rightarrow> u8" where
  "direction_code FLOW_DIRECTION_FORWARD = 0"
| "direction_code FLOW_DIRECTION_REVERSE = 1"
| "direction_code FLOW_DIRECTION_NONE = 2"

fun leak_state_code :: "leak_state \<Rightarrow> u8" where
  "leak_state_code LEAK_STATE_NORMAL = 0"
| "leak_state_code LEAK_STATE_SUSPECTED = 1"
| "leak_state_code LEAK_STATE_CONFIRMED = 2"

fun leak_eval_code :: "leak_evaluation_status \<Rightarrow> u8" where
  "leak_eval_code LEAK_EVAL_NOT_READY = 0"
| "leak_eval_code LEAK_EVAL_ACTIVE = 1"
| "leak_eval_code LEAK_EVAL_DEGRADED = 2"
| "leak_eval_code LEAK_EVAL_UNAVAILABLE = 3"

fun mode_code :: "system_mode \<Rightarrow> u8" where
  "mode_code SYSTEM_MODE_INIT = 0"
| "mode_code SYSTEM_MODE_NORMAL = 1"
| "mode_code SYSTEM_MODE_LOW_POWER = 2"
| "mode_code SYSTEM_MODE_SERVICE = 3"
| "mode_code SYSTEM_MODE_RECOVERY = 4"
| "mode_code SYSTEM_MODE_ERROR = 5"

abbreviation TELEMETRY_SCHEMA_VERSION :: u16 where "TELEMETRY_SCHEMA_VERSION \<equiv> 1"
abbreviation TELEMETRY_REASON_SCHEDULED :: u16 where "TELEMETRY_REASON_SCHEDULED \<equiv> 1"
abbreviation TELEMETRY_BATTERY_MV_UNAVAILABLE :: u16 where "TELEMETRY_BATTERY_MV_UNAVAILABLE \<equiv> 0xFFFF"

record telemetry_builder =
  tb_next_sequence :: u64

definition TelemetryBuilder_Init :: telemetry_builder where
  "TelemetryBuilder_Init = \<lparr>tb_next_sequence = 1\<rparr>"

definition TelemetryBuilder_Build ::
  "telemetry_builder \<Rightarrow> runtime_snapshot \<Rightarrow> u8 \<Rightarrow> i64 \<Rightarrow> u16 \<Rightarrow> u64 \<Rightarrow> i64 \<Rightarrow> u8 \<Rightarrow> u32 \<Rightarrow> telemetry_record \<times> telemetry_builder" where
  "TelemetryBuilder_Build tb snap window_id slot_due slot_ordinal build_us build_wall quality schedule_version =
     (\<lparr>tr_record_sequence = tb_next_sequence tb, tr_schema_version = TELEMETRY_SCHEMA_VERSION,
       tr_report_reason = TELEMETRY_REASON_SCHEDULED, tr_schedule_version = schedule_version, tr_window_id = window_id,
       tr_slot_due_wall_s = slot_due, tr_slot_ordinal = slot_ordinal,
       tr_source_snapshot_version = rs_snapshot_version snap,
       tr_snapshot_generation = smc_mode_generation (rs_mode snap), tr_build_monotonic_us = build_us,
       tr_build_wall_s = build_wall, tr_wall_time_quality = quality,
       tr_flow_ul_per_s = fl_flow_ul_per_s (rs_flow snap), tr_flow_direction = direction_code (fl_direction (rs_flow snap)),
       tr_temperature_mdeg_c = tp_temperature_mdeg_c (rs_temperature snap),
       tr_pressure_pa = pr_pressure_pa (rs_pressure snap),
       tr_forward_volume_ul = vs_forward_volume_ul (rs_volume snap),
       tr_reverse_volume_ul = vs_reverse_volume_ul (rs_volume snap),
       tr_leak_state = leak_state_code (lr_state (rs_leak snap)),
       tr_leak_eval_status = leak_eval_code (lr_evaluation_status (rs_leak snap)),
       tr_system_mode = mode_code (smc_current_mode (rs_mode snap)),
       tr_battery_mv = (if ps_available (rs_power snap) then ps_battery_mv (rs_power snap) else TELEMETRY_BATTERY_MV_UNAVAILABLE),
       tr_config_version = rs_active_config_version snap, tr_calibration_version = rs_active_calibration_version snap,
       tr_diagnostic_flags = rs_diagnostic_summary_flags snap\<rparr>,
      tb\<lparr>tb_next_sequence := tb_next_sequence tb + 1\<rparr>)"

section \<open>The queue\<close>

abbreviation TELEMETRY_QUEUE_CAPACITY :: nat where "TELEMETRY_QUEUE_CAPACITY \<equiv> 64"
abbreviation TELEMETRY_TTL_US :: u64 where "TELEMETRY_TTL_US \<equiv> 86400000000"

datatype queue_status = QUEUE_OK | QUEUE_FULL | QUEUE_DUPLICATE
datatype queue_record_state = QREC_BUILT | QREC_QUEUED | QREC_IN_FLIGHT | QREC_ACKNOWLEDGED | QREC_DROPPED

record queue_entry =
  qe_record :: telemetry_record
  qe_enqueue_monotonic_us :: u64
  qe_state :: queue_record_state
  qe_retry_count :: u8
  qe_last_attempt_us :: u64

record telemetry_queue =
  tq_entries :: "queue_entry list"
  tq_count :: u16
  tq_head :: nat
  tq_tail :: nat
  tq_in_flight_idx :: nat
  tq_has_in_flight :: bool
  tq_drop_count :: u64

definition TelemetryQueue_Init :: telemetry_queue where
  "TelemetryQueue_Init =
     \<lparr>tq_entries = replicate TELEMETRY_QUEUE_CAPACITY
        \<lparr>qe_record = zero_telemetry_record, qe_enqueue_monotonic_us = 0, qe_state = QREC_BUILT, qe_retry_count = 0,
         qe_last_attempt_us = 0\<rparr>,
      tq_count = 0, tq_head = 0, tq_tail = 0, tq_in_flight_idx = 0, tq_has_in_flight = False, tq_drop_count = 0\<rparr>"

definition state_at :: "telemetry_queue \<Rightarrow> nat \<Rightarrow> queue_record_state" where
  "state_at q i = qe_state (tq_entries q ! i)"

definition set_state :: "nat \<Rightarrow> queue_record_state \<Rightarrow> telemetry_queue \<Rightarrow> telemetry_queue" where
  "set_state i st q = q\<lparr>tq_entries := (tq_entries q)[i := (tq_entries q ! i)\<lparr>qe_state := st\<rparr>]\<rparr>"

text \<open>The statements that give an entry up: state, drop counter, count.\<close>

definition drop_entry :: "nat \<Rightarrow> telemetry_queue \<Rightarrow> telemetry_queue" where
  "drop_entry i q = (set_state i QREC_DROPPED q)\<lparr>tq_drop_count := tq_drop_count q + 1, tq_count := tq_count q - 1\<rparr>"

definition expire_entry :: "u64 \<Rightarrow> telemetry_queue \<Rightarrow> nat \<Rightarrow> telemetry_queue" where
  "expire_entry now q i =
     (let e = tq_entries q ! i
      in if (qe_state e = QREC_QUEUED \<or> qe_state e = QREC_BUILT) \<and> qe_enqueue_monotonic_us e > 0 \<and>
            now - qe_enqueue_monotonic_us e \<ge> TELEMETRY_TTL_US
         then drop_entry i q else q)"

definition TelemetryQueue_Tick :: "telemetry_queue \<Rightarrow> u64 \<Rightarrow> telemetry_queue" where
  "TelemetryQueue_Tick q now = foldl (expire_entry now) q [0..<TELEMETRY_QUEUE_CAPACITY]"

text \<open>The scan for the oldest entry in one of the given states: strictly older than \<open>t\<close> so far.\<close>

fun scan_oldest :: "queue_record_state set \<Rightarrow> queue_entry list \<Rightarrow> nat \<Rightarrow> nat option \<Rightarrow> u64 \<Rightarrow> nat option" where
  "scan_oldest sts [] i best t = best"
| "scan_oldest sts (e # es) i best t =
     (if qe_state e \<in> sts \<and> qe_enqueue_monotonic_us e < t
      then scan_oldest sts es (Suc i) (Some i) (qe_enqueue_monotonic_us e)
      else scan_oldest sts es (Suc i) best t)"

definition is_duplicate :: "telemetry_queue \<Rightarrow> telemetry_record \<Rightarrow> bool" where
  "is_duplicate q rec \<longleftrightarrow>
     list_ex (\<lambda>e. qe_state e \<noteq> QREC_BUILT \<and> qe_state e \<noteq> QREC_DROPPED \<and>
       tr_record_sequence (qe_record e) = tr_record_sequence rec) (tq_entries q)"

definition put_at_tail :: "telemetry_record \<Rightarrow> u64 \<Rightarrow> telemetry_queue \<Rightarrow> telemetry_queue" where
  "put_at_tail rec now q =
     q\<lparr>tq_entries := (tq_entries q)[tq_tail q :=
          \<lparr>qe_record = rec, qe_enqueue_monotonic_us = now, qe_state = QREC_QUEUED, qe_retry_count = 0,
           qe_last_attempt_us = 0\<rparr>],
       tq_count := tq_count q + 1, tq_tail := (tq_tail q + 1) mod TELEMETRY_QUEUE_CAPACITY\<rparr>"

definition queue_full :: "telemetry_queue \<Rightarrow> bool" where
  "queue_full q \<longleftrightarrow> unat (tq_count q) \<ge> TELEMETRY_QUEUE_CAPACITY"

definition TelemetryQueue_Enqueue :: "telemetry_queue \<Rightarrow> telemetry_record \<Rightarrow> u64 \<Rightarrow> queue_status \<times> telemetry_queue" where
  "TelemetryQueue_Enqueue q rec now =
     (if is_duplicate q rec then (QUEUE_DUPLICATE, q)
      else
        let q1 = (if queue_full q then TelemetryQueue_Tick q now else q)
        in if queue_full q1 then
             (case scan_oldest {QREC_BUILT, QREC_QUEUED} (tq_entries q1) 0 None now of
                None \<Rightarrow> (QUEUE_FULL, q1)
              | Some i \<Rightarrow> (QUEUE_OK, put_at_tail rec now (drop_entry i q1)))
           else (QUEUE_OK, put_at_tail rec now q1))"

definition TelemetryQueue_Dequeue :: "telemetry_queue \<Rightarrow> (telemetry_record \<times> telemetry_queue) option" where
  "TelemetryQueue_Dequeue q =
     (if tq_has_in_flight q \<or> tq_count q = 0 then None
      else case scan_oldest {QREC_QUEUED} (tq_entries q) 0 None UINT64_MAX of
             None \<Rightarrow> None
           | Some i \<Rightarrow> Some (qe_record (tq_entries q ! i),
               (set_state i QREC_IN_FLIGHT q)\<lparr>tq_in_flight_idx := i, tq_has_in_flight := True\<rparr>))"

fun find_held :: "u64 \<Rightarrow> queue_entry list \<Rightarrow> nat \<Rightarrow> nat option" where
  "find_held s [] i = None"
| "find_held s (e # es) i =
     (if (qe_state e = QREC_IN_FLIGHT \<or> qe_state e = QREC_QUEUED) \<and> tr_record_sequence (qe_record e) = s then Some i
      else find_held s es (Suc i))"

definition TelemetryQueue_Ack :: "telemetry_queue \<Rightarrow> u64 \<Rightarrow> bool \<times> telemetry_queue" where
  "TelemetryQueue_Ack q s =
     (case find_held s (tq_entries q) 0 of
        None \<Rightarrow> (False, q)
      | Some i \<Rightarrow>
          let q1 = (set_state i QREC_ACKNOWLEDGED q)\<lparr>tq_count := tq_count q - 1\<rparr>
          in (True, if tq_has_in_flight q \<and> tq_in_flight_idx q = i then q1\<lparr>tq_has_in_flight := False\<rparr> else q1))"

definition TelemetryQueue_GetCount :: "telemetry_queue \<Rightarrow> u16" where
  "TelemetryQueue_GetCount q = tq_count q"

definition TelemetryQueue_HasInFlight :: "telemetry_queue \<Rightarrow> bool" where
  "TelemetryQueue_HasInFlight q = tq_has_in_flight q"

definition TelemetryQueue_GetDropCount :: "telemetry_queue \<Rightarrow> u64" where
  "TelemetryQueue_GetDropCount q = tq_drop_count q"

section \<open>The delivery service\<close>

abbreviation DELIVERY_RETRY_DELAY_US :: u64 where "DELIVERY_RETRY_DELAY_US \<equiv> 30000000"
abbreviation DELIVERY_MAX_RETRIES :: u8 where "DELIVERY_MAX_RETRIES \<equiv> 3"

datatype delivery_state =
  DEL_IDLE | DEL_CONNECTING | DEL_SENDING | DEL_WAIT_RESPONSE | DEL_RETRY_WAIT | DEL_COMPLETE | DEL_FAILED

record cellular_delivery =
  cd_state :: delivery_state
  cd_conn_status :: connectivity_status
  cd_connection_generation :: u32
  cd_current_record_seq :: u64
  cd_attempt_count :: u8
  cd_attempt_start_us :: u64
  cd_retry_at_us :: u64
  cd_diag_attempts :: u64
  cd_diag_success :: u64
  cd_diag_timeout :: u64
  cd_diag_rejected :: u64
  cd_diag_stale :: u64

definition CellularDelivery_Init :: cellular_delivery where
  "CellularDelivery_Init =
     \<lparr>cd_state = DEL_IDLE, cd_conn_status = CONN_NOT_READY, cd_connection_generation = 1, cd_current_record_seq = 0,
      cd_attempt_count = 0, cd_attempt_start_us = 0, cd_retry_at_us = 0, cd_diag_attempts = 0, cd_diag_success = 0,
      cd_diag_timeout = 0, cd_diag_rejected = 0, cd_diag_stale = 0\<rparr>"

definition CellularDelivery_Connect :: "cellular_delivery \<Rightarrow> cellular_delivery" where
  "CellularDelivery_Connect svc = svc\<lparr>cd_conn_status := CONN_ONLINE, cd_state := DEL_IDLE\<rparr>"

definition CellularDelivery_Disconnect :: "cellular_delivery \<Rightarrow> cellular_delivery" where
  "CellularDelivery_Disconnect svc =
     svc\<lparr>cd_conn_status := CONN_OFFLINE, cd_connection_generation := cd_connection_generation svc + 1, cd_state := DEL_IDLE\<rparr>"

definition CellularDelivery_StartAttempt ::
  "cellular_delivery \<Rightarrow> telemetry_queue \<Rightarrow> u64 \<Rightarrow> bool \<times> cellular_delivery \<times> telemetry_queue" where
  "CellularDelivery_StartAttempt svc q now =
     (if cd_state svc \<noteq> DEL_IDLE \<or> cd_conn_status svc \<noteq> CONN_ONLINE then (False, svc, q)
      else case TelemetryQueue_Dequeue q of
             None \<Rightarrow> (False, svc, q)
           | Some (rec, q') \<Rightarrow>
               (True, svc\<lparr>cd_state := DEL_SENDING, cd_current_record_seq := tr_record_sequence rec,
                  cd_attempt_count := cd_attempt_count svc + 1, cd_attempt_start_us := now,
                  cd_diag_attempts := cd_diag_attempts svc + 1\<rparr>, q'))"

definition ack_current :: "cellular_delivery \<Rightarrow> telemetry_queue \<Rightarrow> telemetry_queue" where
  "ack_current svc q = (if cd_current_record_seq svc > 0 then snd (TelemetryQueue_Ack q (cd_current_record_seq svc)) else q)"

definition CellularDelivery_Complete ::
  "cellular_delivery \<Rightarrow> u8 \<Rightarrow> telemetry_queue \<Rightarrow> u64 \<Rightarrow> cellular_delivery \<times> telemetry_queue" where
  "CellularDelivery_Complete svc outcome q now =
     (if outcome = 0 then
        (svc\<lparr>cd_diag_success := cd_diag_success svc + 1, cd_state := DEL_IDLE, cd_attempt_count := 0\<rparr>, ack_current svc q)
      else if outcome = 1 then
        (svc\<lparr>cd_diag_rejected := cd_diag_rejected svc + 1, cd_state := DEL_IDLE, cd_attempt_count := 0\<rparr>, ack_current svc q)
      else if outcome = 2 \<or> outcome = 3 then
        (let s1 = (if cd_attempt_count svc \<ge> DELIVERY_MAX_RETRIES then svc\<lparr>cd_state := DEL_IDLE, cd_attempt_count := 0\<rparr>
                   else svc\<lparr>cd_state := DEL_RETRY_WAIT, cd_retry_at_us := now + DELIVERY_RETRY_DELAY_US\<rparr>)
         in (if outcome = 3 then s1\<lparr>cd_diag_timeout := cd_diag_timeout s1 + 1\<rparr> else s1, q))
      else (svc\<lparr>cd_state := DEL_IDLE, cd_attempt_count := 0\<rparr>, q))"

definition CellularDelivery_Tick ::
  "cellular_delivery \<Rightarrow> telemetry_queue \<Rightarrow> u64 \<Rightarrow> cellular_delivery \<times> telemetry_queue" where
  "CellularDelivery_Tick svc q now =
     (if cd_state svc = DEL_RETRY_WAIT \<and> now \<ge> cd_retry_at_us svc
      then snd (CellularDelivery_StartAttempt (svc\<lparr>cd_state := DEL_IDLE\<rparr>) q now)
      else (svc, q))"

definition CellularDelivery_IsIdle :: "cellular_delivery \<Rightarrow> bool" where
  "CellularDelivery_IsIdle svc \<longleftrightarrow> cd_state svc = DEL_IDLE"

section \<open>The invariant of the queue\<close>

lemma length_filter_update:
  "i < length xs \<Longrightarrow> length (filter P (xs[i := x])) + (if P (xs ! i) then 1 else 0) =
     length (filter P xs) + (if P x then 1 else 0)"
  by (subst (3) id_take_nth_drop [of i xs]) (simp_all add: upd_conv_take_nth_drop)

lemma distinct_filter_map:
  assumes "\<And>i j. i < length xs \<Longrightarrow> j < length xs \<Longrightarrow> P (xs ! i) \<Longrightarrow> P (xs ! j) \<Longrightarrow> f (xs ! i) = f (xs ! j) \<Longrightarrow> i = j"
  shows "distinct (map f (filter P xs))"
  using assms
proof (induction xs)
  case (Cons x xs)
  have tail: "distinct (map f (filter P xs))"
  proof (rule Cons.IH)
    fix i j assume "i < length xs" "j < length xs" "P (xs ! i)" "P (xs ! j)" "f (xs ! i) = f (xs ! j)"
    then show "i = j" using Cons.prems [of "Suc i" "Suc j"] by simp
  qed
  have "P x \<Longrightarrow> f x \<notin> f ` {y \<in> set xs. P y}"
  proof
    assume x: "P x" and "f x \<in> f ` {y \<in> set xs. P y}"
    then obtain j where "j < length xs" "P (xs ! j)" "f x = f (xs ! j)" by (auto simp: in_set_conv_nth)
    then show False using x Cons.prems [of 0 "Suc j"] by simp
  qed
  then show ?case using tail by auto
qed simp

abbreviation held :: "queue_entry \<Rightarrow> bool" where
  "held e \<equiv> qe_state e = QREC_QUEUED \<or> qe_state e = QREC_IN_FLIGHT"

definition live_count :: "telemetry_queue \<Rightarrow> nat" where
  "live_count q = length (filter held (tq_entries q))"

definition fresh_count :: "telemetry_queue \<Rightarrow> nat" where
  "fresh_count q = length (filter (\<lambda>e. qe_state e = QREC_BUILT) (tq_entries q))"

text \<open>Entries are first used in order, so those never written are the ones from the tail on.\<close>

definition fresh_ok :: "telemetry_queue \<Rightarrow> bool" where
  "fresh_ok q \<longleftrightarrow>
     (\<forall>i < 64. state_at q i = QREC_BUILT \<longrightarrow> tq_tail q \<le> i \<and> qe_enqueue_monotonic_us (tq_entries q ! i) = 0) \<and>
     (\<forall>i < 64. \<forall>j < 64. state_at q i = QREC_BUILT \<and> tq_tail q \<le> j \<longrightarrow> state_at q j = QREC_BUILT)"

definition flight_ok :: "telemetry_queue \<Rightarrow> bool" where
  "flight_ok q \<longleftrightarrow> (\<forall>i < 64. state_at q i = QREC_IN_FLIGHT \<longrightarrow> tq_has_in_flight q \<and> tq_in_flight_idx q = i)"

abbreviation occupied :: "queue_entry \<Rightarrow> bool" where
  "occupied e \<equiv> qe_state e \<noteq> QREC_BUILT \<and> qe_state e \<noteq> QREC_DROPPED"

definition unique_ok :: "telemetry_queue \<Rightarrow> bool" where
  "unique_ok q \<longleftrightarrow> (\<forall>i < 64. \<forall>j < 64. occupied (tq_entries q ! i) \<and> occupied (tq_entries q ! j) \<and>
     tr_record_sequence (qe_record (tq_entries q ! i)) = tr_record_sequence (qe_record (tq_entries q ! j)) \<longrightarrow> i = j)"

definition tq_inv :: "telemetry_queue \<Rightarrow> bool" where
  "tq_inv q \<longleftrightarrow> length (tq_entries q) = 64 \<and> tq_tail q < 64 \<and> live_count q \<le> unat (tq_count q) \<and>
     unat (tq_count q) + fresh_count q \<le> 64 \<and> fresh_ok q \<and> flight_ok q \<and> unique_ok q"

lemma init_tq_inv: "tq_inv TelemetryQueue_Init"
  by (simp add: tq_inv_def TelemetryQueue_Init_def live_count_def fresh_count_def fresh_ok_def flight_ok_def
      unique_ok_def state_at_def)

text \<open>Changing the state of one entry, and the count with it.\<close>

lemma set_state_sel [simp]:
  "tq_count (set_state i st q) = tq_count q" "tq_tail (set_state i st q) = tq_tail q"
  "tq_in_flight_idx (set_state i st q) = tq_in_flight_idx q" "tq_has_in_flight (set_state i st q) = tq_has_in_flight q"
  "length (tq_entries (set_state i st q)) = length (tq_entries q)"
  by (simp_all add: set_state_def)

lemma set_state_nth:
  "i < length (tq_entries q) \<Longrightarrow> tq_entries (set_state i st q) ! j =
     (if i = j then (tq_entries q ! i)\<lparr>qe_state := st\<rparr> else tq_entries q ! j)"
  by (simp add: set_state_def nth_list_update)

lemma set_state_at:
  "i < length (tq_entries q) \<Longrightarrow> state_at (set_state i st q) j = (if i = j then st else state_at q j)"
  by (simp add: state_at_def set_state_nth)

lemma live_set_state:
  "i < length (tq_entries q) \<Longrightarrow> live_count (set_state i st q) + (if held (tq_entries q ! i) then 1 else 0) =
     live_count q + (if st = QREC_QUEUED \<or> st = QREC_IN_FLIGHT then 1 else 0)"
  by (simp add: live_count_def set_state_def length_filter_update [of i "tq_entries q" held, simplified])

lemma fresh_set_state:
  "i < length (tq_entries q) \<Longrightarrow> state_at q i \<noteq> QREC_BUILT \<Longrightarrow> st \<noteq> QREC_BUILT \<Longrightarrow>
     fresh_count (set_state i st q) = fresh_count q"
  using length_filter_update [of i "tq_entries q" "\<lambda>e. qe_state e = QREC_BUILT" "(tq_entries q ! i)\<lparr>qe_state := st\<rparr>"]
  by (simp add: fresh_count_def set_state_def state_at_def)

lemma unat_dec: "0 < unat c \<Longrightarrow> unat (c - 1) = unat c - 1" for c :: u16
  by (simp add: unat_minus_one unat_gt_0)

lemma live_pos:
  assumes "i < length (tq_entries q)" "held (tq_entries q ! i)"
  shows "0 < live_count q"
  using nth_mem [OF assms(1)] assms(2) by (auto simp: live_count_def filter_empty_conv)

text \<open>Giving up a live entry: its count goes with it.\<close>

lemma release_inv:
  assumes inv: "tq_inv q" and i: "i < 64" and h: "held (tq_entries q ! i)" and st: "st = QREC_DROPPED \<or> st = QREC_ACKNOWLEDGED"
    and q': "q' = (set_state i st q)\<lparr>tq_count := tq_count q - 1, tq_drop_count := d, tq_has_in_flight := f\<rparr>"
    and f: "tq_has_in_flight q \<Longrightarrow> \<not> f \<Longrightarrow> tq_in_flight_idx q = i"
  shows "tq_inv q'"
proof -
  have len: "i < length (tq_entries q)" and len': "length (tq_entries q) = 64" using inv i by (simp_all add: tq_inv_def)
  have e: "tq_entries q' = tq_entries (set_state i st q)" "tq_tail q' = tq_tail q" "tq_in_flight_idx q' = tq_in_flight_idx q"
    using q' by simp_all
  have live: "live_count q' + 1 = live_count q"
    using live_set_state [OF len, of st] h st by (auto simp: live_count_def e)
  have pos: "0 < unat (tq_count q)" using live_pos [OF len h] inv by (simp add: tq_inv_def)
  have cnt: "unat (tq_count q') + 1 = unat (tq_count q)" using unat_dec [OF pos] pos q' by simp
  have nb: "state_at q i \<noteq> QREC_BUILT" using h by (auto simp: state_at_def)
  have fresh: "fresh_count q' = fresh_count q" using fresh_set_state [OF len nb, of st] st by (auto simp: fresh_count_def e)
  have at: "state_at q' j = (if i = j then st else state_at q j)" for j
    using set_state_at [OF len, of st j] by (simp add: state_at_def e)
  have nth: "tq_entries q' ! j = (if i = j then (tq_entries q ! i)\<lparr>qe_state := st\<rparr> else tq_entries q ! j)" for j
    using set_state_nth [OF len, of st j] by (simp add: e)
  have fo: "fresh_ok q" and fl: "flight_ok q" and un: "unique_ok q" using inv by (simp_all add: tq_inv_def)
  have built: "state_at q' j = QREC_BUILT \<longleftrightarrow> state_at q j = QREC_BUILT" for j using st nb by (auto simp: at)
  have enq: "qe_enqueue_monotonic_us (tq_entries q' ! j) = qe_enqueue_monotonic_us (tq_entries q ! j)" for j by (simp add: nth)
  have "fresh_ok q'" using fo unfolding fresh_ok_def built enq e(2) .
  moreover have "flight_ok q'"
  proof (unfold flight_ok_def, intro allI impI)
    fix j assume j: "j < 64" and "state_at q' j = QREC_IN_FLIGHT"
    then have ij: "i \<noteq> j" and s: "state_at q j = QREC_IN_FLIGHT" using st by (auto simp: at split: if_splits)
    have "tq_has_in_flight q \<and> tq_in_flight_idx q = j" using fl j s by (simp add: flight_ok_def)
    then show "tq_has_in_flight q' \<and> tq_in_flight_idx q' = j" using f ij q' e by auto
  qed
  moreover have "unique_ok q'"
  proof (unfold unique_ok_def, intro allI impI, elim conjE)
    have occ: "occupied (tq_entries q' ! j) \<Longrightarrow> occupied (tq_entries q ! j)" for j
      using h by (auto simp: nth split: if_splits)
    have sq: "qe_record (tq_entries q' ! j) = qe_record (tq_entries q ! j)" for j by (simp add: nth)
    fix a b assume ab: "a < 64" "b < 64"
      "tr_record_sequence (qe_record (tq_entries q' ! a)) = tr_record_sequence (qe_record (tq_entries q' ! b))"
      and "qe_state (tq_entries q' ! a) \<noteq> QREC_BUILT" "qe_state (tq_entries q' ! a) \<noteq> QREC_DROPPED"
      and "qe_state (tq_entries q' ! b) \<noteq> QREC_BUILT" "qe_state (tq_entries q' ! b) \<noteq> QREC_DROPPED"
    then have "occupied (tq_entries q ! a)" "occupied (tq_entries q ! b)" using occ [of a] occ [of b] by simp_all
    then show "a = b" using ab un unfolding unique_ok_def sq by blast
  qed
  ultimately show ?thesis using inv live cnt fresh by (simp add: tq_inv_def e)
qed

lemma fresh_zero: "fresh_ok q \<Longrightarrow> i < 64 \<Longrightarrow> qe_state (tq_entries q ! i) = QREC_BUILT \<Longrightarrow> qe_enqueue_monotonic_us (tq_entries q ! i) = 0"
  unfolding fresh_ok_def state_at_def by blast

lemma expire_inv:
  assumes inv: "tq_inv q" and i: "i < 64"
  shows "tq_inv (expire_entry now q i)"
proof (cases "expire_entry now q i = q")
  case False
  then have *: "qe_state (tq_entries q ! i) = QREC_QUEUED \<or> qe_state (tq_entries q ! i) = QREC_BUILT"
      "0 < qe_enqueue_monotonic_us (tq_entries q ! i)"
    and e: "expire_entry now q i = drop_entry i q"
    by (auto simp: expire_entry_def Let_def split: if_splits)
  have "fresh_ok q" using inv by (simp add: tq_inv_def)
  then have "qe_state (tq_entries q ! i) \<noteq> QREC_BUILT" using fresh_zero [OF _ i] *(2) by fastforce
  then have q: "qe_state (tq_entries q ! i) = QREC_QUEUED" using *(1) by blast
  show ?thesis unfolding e drop_entry_def
    by (rule release_inv [OF inv i, where st = QREC_DROPPED and d = "tq_drop_count q + 1" and f = "tq_has_in_flight q"]) (simp_all add: q set_state_def)
next
  case True
  then show ?thesis using inv by simp
qed

lemma expire_run_inv: "tq_inv q \<Longrightarrow> \<forall>i \<in> set is. i < 64 \<Longrightarrow> tq_inv (foldl (expire_entry now) q is)"
  by (induction "is" arbitrary: q) (simp_all add: expire_inv)

lemma tick_tq_inv: "tq_inv q \<Longrightarrow> tq_inv (TelemetryQueue_Tick q now)"
  unfolding TelemetryQueue_Tick_def by (rule expire_run_inv) simp_all

text \<open>The scans.\<close>

lemma scan_oldest_spec:
  "scan_oldest sts es k best t = Some i \<Longrightarrow>
     best = Some i \<and> (\<forall>j < length es. qe_state (es ! j) \<in> sts \<longrightarrow> t \<le> qe_enqueue_monotonic_us (es ! j)) \<or>
     (\<exists>j < length es. i = k + j \<and> qe_state (es ! j) \<in> sts \<and> qe_enqueue_monotonic_us (es ! j) < t \<and>
        (\<forall>m < length es. qe_state (es ! m) \<in> sts \<longrightarrow> qe_enqueue_monotonic_us (es ! j) \<le> qe_enqueue_monotonic_us (es ! m)))"
proof (induction es arbitrary: k best t)
  case (Cons e es)
  show ?case
  proof (cases "qe_state e \<in> sts \<and> qe_enqueue_monotonic_us e < t")
    case True
    then have "scan_oldest sts es (Suc k) (Some k) (qe_enqueue_monotonic_us e) = Some i" using Cons.prems by simp
    from Cons.IH [OF this] show ?thesis
    proof
      assume "Some k = Some i \<and> (\<forall>j < length es. qe_state (es ! j) \<in> sts \<longrightarrow> qe_enqueue_monotonic_us e \<le> qe_enqueue_monotonic_us (es ! j))"
      then show ?thesis using True by (intro disjI2 exI [of _ 0]) (auto simp: nth_Cons split: nat.splits)
    next
      assume "\<exists>j < length es. i = Suc k + j \<and> qe_state (es ! j) \<in> sts \<and> qe_enqueue_monotonic_us (es ! j) < qe_enqueue_monotonic_us e \<and>
        (\<forall>m < length es. qe_state (es ! m) \<in> sts \<longrightarrow> qe_enqueue_monotonic_us (es ! j) \<le> qe_enqueue_monotonic_us (es ! m))"
      then obtain j where "j < length es" "i = Suc k + j" "qe_state (es ! j) \<in> sts" "qe_enqueue_monotonic_us (es ! j) < qe_enqueue_monotonic_us e"
        "\<forall>m < length es. qe_state (es ! m) \<in> sts \<longrightarrow> qe_enqueue_monotonic_us (es ! j) \<le> qe_enqueue_monotonic_us (es ! m)" by blast
      then show ?thesis using True by (intro disjI2 exI [of _ "Suc j"]) (auto simp: nth_Cons split: nat.splits)
    qed
  next
    case False
    then have "scan_oldest sts es (Suc k) best t = Some i" using Cons.prems by auto
    from Cons.IH [OF this] show ?thesis
    proof
      assume "best = Some i \<and> (\<forall>j < length es. qe_state (es ! j) \<in> sts \<longrightarrow> t \<le> qe_enqueue_monotonic_us (es ! j))"
      then show ?thesis using False by (intro disjI1) (auto simp: nth_Cons not_less split: nat.splits)
    next
      assume "\<exists>j < length es. i = Suc k + j \<and> qe_state (es ! j) \<in> sts \<and> qe_enqueue_monotonic_us (es ! j) < t \<and>
        (\<forall>m < length es. qe_state (es ! m) \<in> sts \<longrightarrow> qe_enqueue_monotonic_us (es ! j) \<le> qe_enqueue_monotonic_us (es ! m))"
      then obtain j where "j < length es" "i = Suc k + j" "qe_state (es ! j) \<in> sts" "qe_enqueue_monotonic_us (es ! j) < t"
        "\<forall>m < length es. qe_state (es ! m) \<in> sts \<longrightarrow> qe_enqueue_monotonic_us (es ! j) \<le> qe_enqueue_monotonic_us (es ! m)" by blast
      then show ?thesis using False
        by (intro disjI2 exI [of _ "Suc j"]) (auto simp: nth_Cons not_less split: nat.splits)
    qed
  qed
qed simp

lemma scan_oldest_Some:
  assumes "scan_oldest sts es 0 None t = Some i"
  shows "i < length es" "qe_state (es ! i) \<in> sts" "qe_enqueue_monotonic_us (es ! i) < t"
    "m < length es \<Longrightarrow> qe_state (es ! m) \<in> sts \<Longrightarrow> qe_enqueue_monotonic_us (es ! i) \<le> qe_enqueue_monotonic_us (es ! m)"
  using scan_oldest_spec [OF assms] by auto

lemma scan_oldest_None:
  "scan_oldest sts es k best t = None \<longleftrightarrow>
     best = None \<and> (\<forall>e \<in> set es. qe_state e \<in> sts \<longrightarrow> t \<le> qe_enqueue_monotonic_us e)"
  by (induction es arbitrary: k best t) auto

lemma find_held_Some:
  "find_held s es k = Some i \<Longrightarrow> k \<le> i \<and> i < k + length es \<and> held (es ! (i - k)) \<and> tr_record_sequence (qe_record (es ! (i - k))) = s"
proof (induction es arbitrary: k)
  case (Cons e es)
  show ?case
  proof (cases "held e \<and> tr_record_sequence (qe_record e) = s")
    case False
    then have "find_held s es (Suc k) = Some i" using Cons.prems by (auto split: if_splits)
    from Cons.IH [OF this] show ?thesis by (auto simp: nth_Cons' Suc_le_eq)
  qed (use Cons.prems in auto)
qed simp

lemma find_held_None: "find_held s es k = None \<longleftrightarrow> (\<forall>e \<in> set es. held e \<longrightarrow> tr_record_sequence (qe_record e) \<noteq> s)"
  by (induction es arbitrary: k) auto


text \<open>Writing at the tail.\<close>

definition unseen :: "u64 \<Rightarrow> telemetry_queue \<Rightarrow> bool" where
  "unseen s q \<longleftrightarrow> (\<forall>e \<in> set (tq_entries q). occupied e \<longrightarrow> tr_record_sequence (qe_record e) \<noteq> s)"

lemma not_duplicate: "\<not> is_duplicate q rec \<longleftrightarrow> unseen (tr_record_sequence rec) q"
  by (auto simp: is_duplicate_def unseen_def list_ex_iff)

lemma unseen_drop: "unseen s q \<Longrightarrow> unseen s (drop_entry i q)"
  using set_update_subset_insert [of "tq_entries q" i "(tq_entries q ! i)\<lparr>qe_state := QREC_DROPPED\<rparr>"]
  by (fastforce simp: unseen_def drop_entry_def set_state_def)

lemma unseen_tick: "unseen s q \<Longrightarrow> unseen s (TelemetryQueue_Tick q now)"
proof -
  have "unseen s q \<Longrightarrow> unseen s (foldl (expire_entry now) q is)" for "is"
    by (induction "is" arbitrary: q) (simp_all add: expire_entry_def Let_def unseen_drop)
  then show "unseen s q \<Longrightarrow> unseen s (TelemetryQueue_Tick q now)" by (simp add: TelemetryQueue_Tick_def)
qed

lemma no_fresh_unless_tail:
  assumes "fresh_ok q" "length (tq_entries q) = 64" "tq_tail q < 64" "state_at q (tq_tail q) \<noteq> QREC_BUILT"
  shows "i < 64 \<Longrightarrow> state_at q i \<noteq> QREC_BUILT" and "fresh_count q = 0"
proof -
  show *: "state_at q i \<noteq> QREC_BUILT" if "i < 64" for i
    using assms that unfolding fresh_ok_def by blast
  show "fresh_count q = 0"
    using * assms(2) by (auto simp: fresh_count_def filter_empty_conv in_set_conv_nth state_at_def)
qed

lemma put_at_tail_nth:
  assumes "length (tq_entries q) = 64" "tq_tail q < 64"
  shows "tq_entries (put_at_tail rec now q) ! j =
    (if tq_tail q = j then \<lparr>qe_record = rec, qe_enqueue_monotonic_us = now, qe_state = QREC_QUEUED, qe_retry_count = 0,
       qe_last_attempt_us = 0\<rparr> else tq_entries q ! j)"
  using assms by (simp add: put_at_tail_def nth_list_update)

lemma put_at_tail_inv:
  assumes inv: "tq_inv q" and room: "\<not> queue_full q" and new: "unseen (tr_record_sequence rec) q"
  shows "tq_inv (put_at_tail rec now q)"
proof -
  let ?q = "put_at_tail rec now q" and ?t = "tq_tail q"
  have len: "length (tq_entries q) = 64" and t: "?t < 64" and fo: "fresh_ok q" and fl: "flight_ok q" and un: "unique_ok q"
    using inv by (simp_all add: tq_inv_def)
  have nth: "tq_entries ?q ! j = (if ?t = j then \<lparr>qe_record = rec, qe_enqueue_monotonic_us = now, qe_state = QREC_QUEUED,
     qe_retry_count = 0, qe_last_attempt_us = 0\<rparr> else tq_entries q ! j)" for j by (rule put_at_tail_nth [OF len t])
  have at: "state_at ?q j = (if ?t = j then QREC_QUEUED else state_at q j)" for j by (simp add: state_at_def nth)
  have sel: "tq_tail ?q = (?t + 1) mod 64" "tq_in_flight_idx ?q = tq_in_flight_idx q" "tq_has_in_flight ?q = tq_has_in_flight q"
    "length (tq_entries ?q) = 64" using len by (simp_all add: put_at_tail_def)
  have "unat (tq_count q) < 64" using room by (simp add: queue_full_def)
  then have cnt: "unat (tq_count ?q) = unat (tq_count q) + 1"
    using unat_inc [of "tq_count q"] by (simp add: put_at_tail_def)
  have live: "live_count ?q \<le> live_count q + 1"
    using length_filter_update [of ?t "tq_entries q" held "\<lparr>qe_record = rec, qe_enqueue_monotonic_us = now,
      qe_state = QREC_QUEUED, qe_retry_count = 0, qe_last_attempt_us = 0\<rparr>"] t len
    by (simp add: live_count_def put_at_tail_def split: if_splits)
  have fresh: "fresh_count ?q + (if state_at q ?t = QREC_BUILT then 1 else 0) = fresh_count q"
    using length_filter_update [of ?t "tq_entries q" "\<lambda>e. qe_state e = QREC_BUILT"] t len
    by (simp add: fresh_count_def put_at_tail_def state_at_def)
  have sum: "unat (tq_count ?q) + fresh_count ?q \<le> 64"
  proof (cases "state_at q ?t = QREC_BUILT")
    case True
    then show ?thesis using fresh cnt inv by (simp add: tq_inv_def)
  next
    case False
    then show ?thesis using fresh cnt no_fresh_unless_tail(2) [OF fo len t] \<open>unat (tq_count q) < 64\<close> by simp
  qed
  have bt: "tq_tail ?q \<le> j" if "j < 64" "j \<noteq> ?t" "?t \<le> j" for j
    using that by (cases "?t = 63") (auto simp: sel)
  have tb: "?t \<le> j" if "j < 64" "tq_tail ?q \<le> j" "state_at q i = QREC_BUILT" "i < 64" "i \<noteq> ?t" for i j
  proof -
    have "?t \<le> i" using fo that unfolding fresh_ok_def by blast
    then have "?t < 63" using that by linarith
    then show ?thesis using that by (simp add: sel)
  qed
  have "fresh_ok ?q"
  proof (unfold fresh_ok_def, intro conjI allI impI; (elim conjE)?)
    fix i assume i: "i < 64" and "state_at ?q i = QREC_BUILT"
    then have b: "i \<noteq> ?t" "state_at q i = QREC_BUILT" by (auto simp: at split: if_splits)
    then have "?t \<le> i" using fo i unfolding fresh_ok_def by blast
    then show "tq_tail ?q \<le> i" using bt i b by blast
    show "qe_enqueue_monotonic_us (tq_entries ?q ! i) = 0"
      using fresh_zero [OF fo i] b by (simp add: nth state_at_def)
  next
    fix i j assume i: "i < 64" and j: "j < 64" and "state_at ?q i = QREC_BUILT" and tl: "tq_tail ?q \<le> j"
    then have b: "i \<noteq> ?t" "state_at q i = QREC_BUILT" by (auto simp: at split: if_splits)
    have "?t \<le> i" using fo i b unfolding fresh_ok_def by blast
    then have lt: "?t < 63" using i b by linarith
    then have "j \<noteq> ?t" using tl by (simp add: sel)
    moreover have "state_at q j = QREC_BUILT"
      using tb [OF j tl b(2) i b(1)] fo i j b(2) unfolding fresh_ok_def by blast
    ultimately show "state_at ?q j = QREC_BUILT" by (simp add: at)
  qed
  moreover have "flight_ok ?q"
    using fl unfolding flight_ok_def at sel by (simp split: if_splits)
  moreover have "unique_ok ?q"
  proof (unfold unique_ok_def, intro allI impI, elim conjE)
    have away: "tr_record_sequence (qe_record (tq_entries q ! c)) \<noteq> tr_record_sequence rec"
      if "c < 64" "occupied (tq_entries q ! c)" for c
      using new that len unfolding unseen_def by (metis nth_mem)
    fix a b assume ab: "a < 64" "b < 64"
      "tr_record_sequence (qe_record (tq_entries ?q ! a)) = tr_record_sequence (qe_record (tq_entries ?q ! b))"
      and oa: "qe_state (tq_entries ?q ! a) \<noteq> QREC_BUILT" "qe_state (tq_entries ?q ! a) \<noteq> QREC_DROPPED"
      and ob: "qe_state (tq_entries ?q ! b) \<noteq> QREC_BUILT" "qe_state (tq_entries ?q ! b) \<noteq> QREC_DROPPED"
    consider "a = ?t" "b = ?t" | "a = ?t" "b \<noteq> ?t" | "a \<noteq> ?t" "b = ?t" | "a \<noteq> ?t" "b \<noteq> ?t" by blast
    then show "a = b"
    proof cases
      case 2
      then show ?thesis using away [OF ab(2)] ab(3) ob by (simp add: nth)
    next
      case 3
      then show ?thesis using away [OF ab(1)] ab(3) oa by (simp add: nth)
    next
      case 4
      then have "tq_entries ?q ! a = tq_entries q ! a" "tq_entries ?q ! b = tq_entries q ! b" by (simp_all add: nth)
      then show ?thesis using ab oa ob un unfolding unique_ok_def by auto
    qed simp
  qed
  ultimately show ?thesis using inv live cnt sum t sel by (simp add: tq_inv_def)
qed

lemma full_no_fresh:
  assumes "tq_inv q" "queue_full q" "i < 64"
  shows "qe_state (tq_entries q ! i) \<noteq> QREC_BUILT"
proof -
  have "fresh_count q = 0" using assms by (simp add: tq_inv_def queue_full_def)
  then show ?thesis using assms nth_mem [of i "tq_entries q"] by (auto simp: fresh_count_def filter_empty_conv tq_inv_def)
qed

text \<open>What a full queue drops is a queued record, and that makes room.\<close>

lemma drop_oldest:
  assumes inv: "tq_inv q" and full: "queue_full q" and sc: "scan_oldest {QREC_BUILT, QREC_QUEUED} (tq_entries q) 0 None now = Some i"
  shows "i < 64" "qe_state (tq_entries q ! i) = QREC_QUEUED" "tq_inv (drop_entry i q)" "\<not> queue_full (drop_entry i q)"
proof -
  show i: "i < 64" using scan_oldest_Some(1) [OF sc] inv by (simp add: tq_inv_def)
  show q: "qe_state (tq_entries q ! i) = QREC_QUEUED"
    using scan_oldest_Some(2) [OF sc] full_no_fresh [OF inv full i] by auto
  show "tq_inv (drop_entry i q)" unfolding drop_entry_def
    by (rule release_inv [OF inv i, where st = QREC_DROPPED and d = "tq_drop_count q + 1" and f = "tq_has_in_flight q"])
      (simp_all add: q set_state_def)
  have "unat (tq_count q) \<le> 64" "0 < unat (tq_count q)" using inv full by (simp_all add: tq_inv_def queue_full_def)
  then show "\<not> queue_full (drop_entry i q)" using unat_dec [of "tq_count q"] by (simp add: queue_full_def drop_entry_def)
qed

lemma enqueue_inv:
  assumes inv: "tq_inv q"
  shows "tq_inv (snd (TelemetryQueue_Enqueue q rec now))"
proof (cases "is_duplicate q rec")
  case True
  then show ?thesis using inv by (simp add: TelemetryQueue_Enqueue_def)
next
  case False
  define q1 where "q1 = (if queue_full q then TelemetryQueue_Tick q now else q)"
  have inv1: "tq_inv q1" and new: "unseen (tr_record_sequence rec) q1"
    using inv False by (simp_all add: q1_def tick_tq_inv not_duplicate unseen_tick)
  have e: "TelemetryQueue_Enqueue q rec now = (if queue_full q1 then
      (case scan_oldest {QREC_BUILT, QREC_QUEUED} (tq_entries q1) 0 None now of
         None \<Rightarrow> (QUEUE_FULL, q1) | Some i \<Rightarrow> (QUEUE_OK, put_at_tail rec now (drop_entry i q1)))
      else (QUEUE_OK, put_at_tail rec now q1))"
    using False by (simp add: TelemetryQueue_Enqueue_def q1_def [symmetric] Let_def)
  show ?thesis
  proof (cases "queue_full q1")
    case True
    then show ?thesis
      using inv1 drop_oldest(3,4) [OF inv1 True] unseen_drop [OF new] by (auto simp: e put_at_tail_inv split: option.split)
  next
    case False
    then show ?thesis using put_at_tail_inv [OF inv1 False new] by (simp add: e)
  qed
qed

lemma dequeue_Some:
  assumes "TelemetryQueue_Dequeue q = Some (rec, q')" "length (tq_entries q) = 64"
  obtains i where "i < 64" "qe_state (tq_entries q ! i) = QREC_QUEUED" "rec = qe_record (tq_entries q ! i)" "\<not> tq_has_in_flight q"
    "q' = (set_state i QREC_IN_FLIGHT q)\<lparr>tq_in_flight_idx := i, tq_has_in_flight := True\<rparr>"
    "\<And>m. m < 64 \<Longrightarrow> qe_state (tq_entries q ! m) = QREC_QUEUED \<Longrightarrow> qe_enqueue_monotonic_us (tq_entries q ! i) \<le> qe_enqueue_monotonic_us (tq_entries q ! m)"
proof -
  obtain i where sc: "scan_oldest {QREC_QUEUED} (tq_entries q) 0 None UINT64_MAX = Some i" and "\<not> tq_has_in_flight q"
    and "rec = qe_record (tq_entries q ! i)" "q' = (set_state i QREC_IN_FLIGHT q)\<lparr>tq_in_flight_idx := i, tq_has_in_flight := True\<rparr>"
    using assms(1) by (auto simp: TelemetryQueue_Dequeue_def split: if_splits option.splits)
  then show thesis using that [of i] scan_oldest_Some [OF sc] assms(2) by simp
qed

lemma dequeue_inv:
  assumes inv: "tq_inv q" and d: "TelemetryQueue_Dequeue q = Some (rec, q')"
  shows "tq_inv q'"
proof -
  have len: "length (tq_entries q) = 64" and fo: "fresh_ok q" and fl: "flight_ok q" and un: "unique_ok q"
    using inv by (simp_all add: tq_inv_def)
  obtain i where i: "i < 64" and s: "qe_state (tq_entries q ! i) = QREC_QUEUED" and no: "\<not> tq_has_in_flight q"
    and q': "q' = (set_state i QREC_IN_FLIGHT q)\<lparr>tq_in_flight_idx := i, tq_has_in_flight := True\<rparr>"
    using dequeue_Some [OF d len] by blast
  have li: "i < length (tq_entries q)" using i len by simp
  have nb: "state_at q i \<noteq> QREC_BUILT" using s by (simp add: state_at_def)
  have nth: "tq_entries q' ! j = (if i = j then (tq_entries q ! i)\<lparr>qe_state := QREC_IN_FLIGHT\<rparr> else tq_entries q ! j)" for j
    using set_state_nth [OF li, of QREC_IN_FLIGHT j] by (simp add: q')
  have at: "state_at q' j = (if i = j then QREC_IN_FLIGHT else state_at q j)" for j by (simp add: state_at_def nth)
  have built: "state_at q' j = QREC_BUILT \<longleftrightarrow> state_at q j = QREC_BUILT" for j using nb by (auto simp: at)
  have enq: "qe_enqueue_monotonic_us (tq_entries q' ! j) = qe_enqueue_monotonic_us (tq_entries q ! j)"
    and rec: "qe_record (tq_entries q' ! j) = qe_record (tq_entries q ! j)" for j by (simp_all add: nth)
  have occ: "occupied (tq_entries q' ! j) \<longleftrightarrow> occupied (tq_entries q ! j)" for j using s by (auto simp: nth)
  have tl: "tq_tail q' = tq_tail q" "tq_count q' = tq_count q" "length (tq_entries q') = 64" using len by (simp_all add: q')
  have live: "live_count q' = live_count q" using live_set_state [OF li, of QREC_IN_FLIGHT] s by (simp add: q' live_count_def)
  have fresh: "fresh_count q' = fresh_count q" using fresh_set_state [OF li nb, of QREC_IN_FLIGHT] by (simp add: q' fresh_count_def)
  have "fresh_ok q'" using fo unfolding fresh_ok_def built enq tl .
  moreover have "flight_ok q'"
    using fl no unfolding flight_ok_def at by (simp add: q')
  moreover have "unique_ok q'" using un unfolding unique_ok_def occ rec .
  ultimately show ?thesis using inv live fresh by (simp add: tq_inv_def tl)
qed

lemma ack_inv:
  assumes inv: "tq_inv q"
  shows "tq_inv (snd (TelemetryQueue_Ack q s))"
proof (cases "find_held s (tq_entries q) 0")
  case None
  then show ?thesis using inv by (simp add: TelemetryQueue_Ack_def)
next
  case (Some i)
  have i: "i < 64" and h: "held (tq_entries q ! i)" using find_held_Some [OF Some] inv by (auto simp: tq_inv_def)
  let ?f = "tq_has_in_flight q \<and> tq_in_flight_idx q \<noteq> i"
  have "snd (TelemetryQueue_Ack q s) = (set_state i QREC_ACKNOWLEDGED q)\<lparr>tq_count := tq_count q - 1,
      tq_drop_count := tq_drop_count q, tq_has_in_flight := ?f\<rparr>"
    using Some by (auto simp: TelemetryQueue_Ack_def Let_def set_state_def)
  then show ?thesis by (rule release_inv [OF inv i h, rotated]) auto
qed

section \<open>Runs\<close>

datatype tq_op = QEnqueue telemetry_record u64 | QDequeue | QAck u64 | QTick u64

fun tq_step :: "telemetry_queue \<Rightarrow> tq_op \<Rightarrow> telemetry_queue" where
  "tq_step q (QEnqueue rec now) = snd (TelemetryQueue_Enqueue q rec now)"
| "tq_step q QDequeue = (case TelemetryQueue_Dequeue q of None \<Rightarrow> q | Some (rec, q') \<Rightarrow> q')"
| "tq_step q (QAck s) = snd (TelemetryQueue_Ack q s)"
| "tq_step q (QTick now) = TelemetryQueue_Tick q now"

lemma tq_step_inv: "tq_inv q \<Longrightarrow> tq_inv (tq_step q op)"
  by (cases op) (auto simp: enqueue_inv ack_inv tick_tq_inv dequeue_inv split: option.split)

interpretation telemetry: transition_system tq_step tq_inv
  by unfold_locales (rule tq_step_inv)

definition in_flight :: "telemetry_queue \<Rightarrow> queue_entry list" where
  "in_flight q = filter (\<lambda>e. qe_state e = QREC_IN_FLIGHT) (tq_entries q)"

definition known_sequences :: "telemetry_queue \<Rightarrow> u64 list" where
  "known_sequences q = map (\<lambda>e. tr_record_sequence (qe_record e)) (filter occupied (tq_entries q))"

lemma inv_in_flight:
  assumes "tq_inv q"
  shows "length (in_flight q) \<le> (if TelemetryQueue_HasInFlight q then 1 else 0)"
proof -
  have len: "length (tq_entries q) = 64" and fl: "flight_ok q" using assms by (simp_all add: tq_inv_def)
  have "distinct (map (\<lambda>e. ()) (in_flight q))" unfolding in_flight_def
    by (rule distinct_filter_map) (use fl len in \<open>auto simp: flight_ok_def state_at_def\<close>)
  then have "length (map (\<lambda>e. ()) (in_flight q)) \<le> 1"
    by (subst distinct_card [symmetric]) (auto intro: card_le_Suc0_iff_eq [THEN iffD2])
  moreover have "\<not> tq_has_in_flight q \<Longrightarrow> in_flight q = []"
    using fl len by (auto simp: flight_ok_def state_at_def in_flight_def filter_empty_conv in_set_conv_nth)
  ultimately show ?thesis by (auto simp: TelemetryQueue_HasInFlight_def)
qed

lemma inv_known:
  assumes "tq_inv q"
  shows "distinct (known_sequences q)"
  unfolding known_sequences_def
  by (rule distinct_filter_map) (use assms in \<open>auto simp: tq_inv_def unique_ok_def\<close>)

text \<open>C27: whatever the sequence of enqueues, dequeues, acknowledgements and expiries, the count stays
  within the capacity and covers the live records, at most one record is in flight and only while the
  flag is set, and no record sequence occurs twice among the entries in use.\<close>

theorem telemetry_queue_safe:
  "let q = foldl tq_step TelemetryQueue_Init ops
   in live_count q \<le> unat (TelemetryQueue_GetCount q) \<and> unat (TelemetryQueue_GetCount q) \<le> TELEMETRY_QUEUE_CAPACITY \<and>
      length (in_flight q) \<le> (if TelemetryQueue_HasInFlight q then 1 else 0) \<and> distinct (known_sequences q)"
proof -
  have inv: "tq_inv (foldl tq_step TelemetryQueue_Init ops)" by (rule telemetry.run_inv [OF init_tq_inv])
  then show ?thesis using inv_in_flight [OF inv] inv_known [OF inv] by (simp add: Let_def TelemetryQueue_GetCount_def tq_inv_def)
qed

section \<open>Delivery\<close>

datatype delivery_op =
    OpConnect | OpDisconnect | OpStart u64 | OpComplete u8 u64 | OpTick u64 | OpEnqueue telemetry_record u64 | OpExpire u64

fun delivery_step :: "cellular_delivery \<times> telemetry_queue \<Rightarrow> delivery_op \<Rightarrow> cellular_delivery \<times> telemetry_queue" where
  "delivery_step (svc, q) OpConnect = (CellularDelivery_Connect svc, q)"
| "delivery_step (svc, q) OpDisconnect = (CellularDelivery_Disconnect svc, q)"
| "delivery_step (svc, q) (OpStart now) = snd (CellularDelivery_StartAttempt svc q now)"
| "delivery_step (svc, q) (OpComplete outcome now) = CellularDelivery_Complete svc outcome q now"
| "delivery_step (svc, q) (OpTick now) = CellularDelivery_Tick svc q now"
| "delivery_step (svc, q) (OpEnqueue rec now) = (svc, snd (TelemetryQueue_Enqueue q rec now))"
| "delivery_step (svc, q) (OpExpire now) = (svc, TelemetryQueue_Tick q now)"

text \<open>Server answers (acknowledged, rejected) are the only completions that free the record.\<close>

fun answered :: "delivery_op \<Rightarrow> bool" where
  "answered (OpComplete outcome now) = (outcome = 0 \<or> outcome = 1)"
| "answered _ = False"

lemma start_blocked: "tq_has_in_flight q \<Longrightarrow> CellularDelivery_StartAttempt svc q now = (False, svc, q)"
  by (simp add: CellularDelivery_StartAttempt_def TelemetryQueue_Dequeue_def)

lemma drop_flag: "tq_has_in_flight (drop_entry i q) = tq_has_in_flight q"
  by (simp add: drop_entry_def)

lemma tick_flag: "tq_has_in_flight (TelemetryQueue_Tick q now) = tq_has_in_flight q"
proof -
  have "tq_has_in_flight (foldl (expire_entry now) q is) = tq_has_in_flight q" for "is"
    by (induction "is" arbitrary: q) (simp_all add: expire_entry_def Let_def drop_flag)
  then show ?thesis by (simp add: TelemetryQueue_Tick_def)
qed

lemma enqueue_flag: "tq_has_in_flight (snd (TelemetryQueue_Enqueue q rec now)) = tq_has_in_flight q"
  by (simp add: TelemetryQueue_Enqueue_def Let_def tick_flag drop_flag put_at_tail_def split: option.split)

lemma blocked_step:
  assumes "tq_has_in_flight (snd s)" "\<not> answered op"
  shows "tq_has_in_flight (snd (delivery_step s op)) \<and> cd_diag_attempts (fst (delivery_step s op)) = cd_diag_attempts (fst s)"
proof -
  obtain svc q where s: "s = (svc, q)" by (cases s)
  show ?thesis using assms unfolding s
    by (cases op) (auto simp: start_blocked enqueue_flag tick_flag CellularDelivery_Connect_def CellularDelivery_Disconnect_def
        CellularDelivery_Complete_def CellularDelivery_Tick_def Let_def)
qed

lemma blocked_run:
  "tq_has_in_flight (snd s) \<Longrightarrow> \<not> list_ex answered ops \<Longrightarrow>
     tq_has_in_flight (snd (foldl delivery_step s ops)) \<and> cd_diag_attempts (fst (foldl delivery_step s ops)) = cd_diag_attempts (fst s)"
  by (induction ops arbitrary: s) (simp_all add: blocked_step)

lemma start_takes:
  assumes "CellularDelivery_StartAttempt svc q now = (True, svc', q')"
  shows "\<exists>rec. TelemetryQueue_Dequeue q = Some (rec, q') \<and> cd_current_record_seq svc' = tr_record_sequence rec \<and>
    tq_has_in_flight q' \<and> cd_diag_attempts svc' = cd_diag_attempts svc + 1"
  using assms by (auto simp: CellularDelivery_StartAttempt_def TelemetryQueue_Dequeue_def split: if_splits option.splits)

lemma tick_entry:
  "i < 64 \<Longrightarrow> length (tq_entries q) = 64 \<Longrightarrow> qe_state (tq_entries q ! i) = QREC_IN_FLIGHT \<Longrightarrow>
     tq_entries (TelemetryQueue_Tick q now) ! i = tq_entries q ! i"
proof -
  have "length (tq_entries q) = 64 \<Longrightarrow> qe_state (tq_entries q ! i) = QREC_IN_FLIGHT \<Longrightarrow> \<forall>j \<in> set is. j < 64 \<Longrightarrow>
     tq_entries (foldl (expire_entry now) q is) ! i = tq_entries q ! i" for "is"
  proof (induction "is" arbitrary: q)
    case (Cons j js)
    have l: "length (tq_entries (expire_entry now q j)) = 64"
      using Cons.prems(1) by (simp add: expire_entry_def Let_def drop_entry_def)
    have same: "tq_entries (expire_entry now q j) ! i = tq_entries q ! i"
      using Cons.prems by (auto simp: expire_entry_def Let_def drop_entry_def set_state_nth)
    show ?case using Cons.IH [OF l] same Cons.prems by simp
  qed simp
  then show "i < 64 \<Longrightarrow> length (tq_entries q) = 64 \<Longrightarrow> qe_state (tq_entries q ! i) = QREC_IN_FLIGHT \<Longrightarrow>
     tq_entries (TelemetryQueue_Tick q now) ! i = tq_entries q ! i" by (simp add: TelemetryQueue_Tick_def)
qed

lemma kept_step:
  assumes "\<not> answered op" "\<nexists>rec t. op = OpEnqueue rec t" "tq_has_in_flight (snd s)"
    and "i < 64" "length (tq_entries (snd s)) = 64" "qe_state (tq_entries (snd s) ! i) = QREC_IN_FLIGHT"
  shows "tq_entries (snd (delivery_step s op)) ! i = tq_entries (snd s) ! i \<and> length (tq_entries (snd (delivery_step s op))) = 64"
proof -
  obtain svc q where s: "s = (svc, q)" by (cases s)
  have len: "length (tq_entries (TelemetryQueue_Tick q now)) = length (tq_entries q)" for now
  proof -
    have "length (tq_entries (foldl (expire_entry now) q is)) = length (tq_entries q)" for "is"
      by (induction "is" arbitrary: q) (simp_all add: expire_entry_def Let_def drop_entry_def)
    then show ?thesis by (simp add: TelemetryQueue_Tick_def)
  qed
  show ?thesis using assms unfolding s
    by (cases op) (auto simp: start_blocked len tick_entry CellularDelivery_Connect_def CellularDelivery_Disconnect_def
        CellularDelivery_Complete_def CellularDelivery_Tick_def Let_def)
qed

lemma kept_run:
  "\<not> list_ex answered ops \<Longrightarrow> \<forall>rec t. OpEnqueue rec t \<notin> set ops \<Longrightarrow> tq_has_in_flight (snd s) \<Longrightarrow> i < 64 \<Longrightarrow>
   length (tq_entries (snd s)) = 64 \<Longrightarrow> qe_state (tq_entries (snd s) ! i) = QREC_IN_FLIGHT \<Longrightarrow>
   tq_entries (snd (foldl delivery_step s ops)) ! i = tq_entries (snd s) ! i"
proof (induction ops arbitrary: s)
  case (Cons op ops)
  have k: "tq_entries (snd (delivery_step s op)) ! i = tq_entries (snd s) ! i" "length (tq_entries (snd (delivery_step s op))) = 64"
    using kept_step [of op s i] Cons.prems by auto
  have "tq_has_in_flight (snd (delivery_step s op))" using blocked_step [of s op] Cons.prems by simp
  then show ?case using Cons.IH [of "delivery_step s op"] Cons.prems k by simp
qed simp

text \<open>C26: once an attempt ends without an answer of the server (transport failure, timeout, unknown
  outcome or cancellation) and no answer comes in late, no attempt is ever started again, for that record or any other, whatever
  else happens: the queue keeps its mark that a record is in flight, and with the mark every dequeue is refused, that of a retry too.
  As long as nothing is enqueued, the record itself stays in its place, in flight (an enqueue to a full queue may overwrite it).\<close>

theorem failed_delivery_is_never_retried:
  assumes "CellularDelivery_StartAttempt svc q now = (True, svc1, q1)"
    and "outcome \<noteq> 0" "outcome \<noteq> 1"
    and "\<not> list_ex answered ops"
  shows "let (svc2, q2) = foldl delivery_step (svc1, q1) (OpComplete outcome t # ops)
     in cd_diag_attempts svc2 = cd_diag_attempts svc1 \<and> TelemetryQueue_HasInFlight q2 \<and> TelemetryQueue_Dequeue q2 = None \<and>
       (length (tq_entries q) = TELEMETRY_QUEUE_CAPACITY \<and> (\<forall>rec t. OpEnqueue rec t \<notin> set ops) \<longrightarrow>
          (\<exists>i < TELEMETRY_QUEUE_CAPACITY. qe_state (tq_entries q2 ! i) = QREC_IN_FLIGHT \<and>
             tr_record_sequence (qe_record (tq_entries q2 ! i)) = cd_current_record_seq svc1))"
proof -
  let ?ops = "OpComplete outcome t # ops"
  let ?r = "foldl delivery_step (svc1, q1) ?ops"
  obtain rec where d: "TelemetryQueue_Dequeue q = Some (rec, q1)" "cd_current_record_seq svc1 = tr_record_sequence rec" "tq_has_in_flight q1"
    using start_takes [OF assms(1)] by blast
  have na: "\<not> list_ex answered ?ops" using assms(2-4) by auto
  have "tq_has_in_flight (snd ?r) \<and> cd_diag_attempts (fst ?r) = cd_diag_attempts (fst (svc1, q1))"
    by (rule blocked_run) (use d(3) na in simp_all)
  moreover have "\<exists>i < 64. qe_state (tq_entries (snd ?r) ! i) = QREC_IN_FLIGHT \<and>
      tr_record_sequence (qe_record (tq_entries (snd ?r) ! i)) = cd_current_record_seq svc1"
    if len: "length (tq_entries q) = 64" and ne: "\<forall>rec t. OpEnqueue rec t \<notin> set ops"
  proof -
    obtain i where i: "i < 64" "rec = qe_record (tq_entries q ! i)"
      "q1 = (set_state i QREC_IN_FLIGHT q)\<lparr>tq_in_flight_idx := i, tq_has_in_flight := True\<rparr>"
      using dequeue_Some [OF d(1) len] by blast
    have e: "tq_entries q1 ! i = (tq_entries q ! i)\<lparr>qe_state := QREC_IN_FLIGHT\<rparr>" "length (tq_entries q1) = 64"
      using i(1) len by (simp_all add: i(3) set_state_nth)
    have "tq_entries (snd ?r) ! i = tq_entries q1 ! i"
      using kept_run [OF na, of "(svc1, q1)" i] ne d(3) i(1) e by simp
    then show ?thesis using i(1,2) e(1) d(2) by (intro exI [of _ i]) simp
  qed
  ultimately show ?thesis
    by (simp add: case_prod_beta TelemetryQueue_HasInFlight_def TelemetryQueue_Dequeue_def del: foldl_Cons)
qed

definition sample_record :: telemetry_record where
  "sample_record = zero_telemetry_record\<lparr>tr_record_sequence := 1\<rparr>"

definition sample_queue :: telemetry_queue where
  "sample_queue = snd (TelemetryQueue_Enqueue TelemetryQueue_Init sample_record 5)"

definition sample_online :: cellular_delivery where
  "sample_online = CellularDelivery_Connect CellularDelivery_Init"

lemma sample_start:
  "fst (CellularDelivery_StartAttempt sample_online sample_queue 7)"
  "cd_diag_attempts (fst (snd (CellularDelivery_StartAttempt sample_online sample_queue 7))) = 1"
  by code_simp+

lemma failed_delivery_is_never_retried_witness:
  "\<exists>svc1 q1. CellularDelivery_StartAttempt sample_online sample_queue 7 = (True, svc1, q1) \<and>
     (let (svc2, q2) = foldl delivery_step (svc1, q1) [OpComplete 3 10, OpTick 30000010, OpDisconnect, OpConnect, OpStart 40000000]
      in cd_diag_attempts svc2 = 1 \<and> TelemetryQueue_HasInFlight q2 \<and> TelemetryQueue_Dequeue q2 = None)"
proof -
  obtain svc1 q1 where s: "CellularDelivery_StartAttempt sample_online sample_queue 7 = (True, svc1, q1)" "cd_diag_attempts svc1 = 1"
    using sample_start by (cases "CellularDelivery_StartAttempt sample_online sample_queue 7") auto
  have "\<not> list_ex answered [OpTick 30000010, OpDisconnect, OpConnect, OpStart 40000000]" by simp
  from failed_delivery_is_never_retried [OF s(1), of 3, OF _ _ this, of 10] s show ?thesis
    by (intro exI [of _ svc1] exI [of _ q1]) (simp add: case_prod_beta Let_def)
qed

text \<open>An answered attempt, by contrast, frees the queue for the next record.\<close>

lemma held_unique:
  assumes inv: "tq_inv q" and i: "i < 64" and h: "held (tq_entries q ! i)"
  shows "find_held (tr_record_sequence (qe_record (tq_entries q ! i))) (tq_entries q) 0 = Some i"
proof (cases "find_held (tr_record_sequence (qe_record (tq_entries q ! i))) (tq_entries q) 0")
  case None
  then show ?thesis using h nth_mem [of i "tq_entries q"] i inv by (auto simp: find_held_None tq_inv_def)
next
  case (Some j)
  have "j < 64" "held (tq_entries q ! j)" "tr_record_sequence (qe_record (tq_entries q ! j)) = tr_record_sequence (qe_record (tq_entries q ! i))"
    using find_held_Some [OF Some] inv by (simp_all add: tq_inv_def)
  moreover have "unique_ok q" using inv by (simp add: tq_inv_def)
  ultimately have "i = j" using i h unfolding unique_ok_def by (metis queue_record_state.distinct)
  then show ?thesis using Some by simp
qed

lemma answered_delivery_releases:
  assumes inv: "tq_inv q" and st: "CellularDelivery_StartAttempt svc q now = (True, svc1, q1)"
    and seq: "cd_current_record_seq svc1 > 0" and o: "outcome = 0 \<or> outcome = 1"
  shows "let (svc2, q2) = CellularDelivery_Complete svc1 outcome q1 t
     in cd_state svc2 = DEL_IDLE \<and> \<not> TelemetryQueue_HasInFlight q2 \<and> in_flight q2 = [] \<and> live_count q2 + 1 = live_count q1"
proof -
  have len: "length (tq_entries q) = 64" using inv by (simp add: tq_inv_def)
  obtain rec where d: "TelemetryQueue_Dequeue q = Some (rec, q1)" and c: "cd_current_record_seq svc1 = tr_record_sequence rec"
    using start_takes [OF st] by blast
  have inv1: "tq_inv q1" by (rule dequeue_inv [OF inv d])
  obtain i where i: "i < 64" and r: "rec = qe_record (tq_entries q ! i)"
    and q1: "q1 = (set_state i QREC_IN_FLIGHT q)\<lparr>tq_in_flight_idx := i, tq_has_in_flight := True\<rparr>"
    using dequeue_Some [OF d len] by blast
  have len1: "i < length (tq_entries q1)" using i len by (simp add: q1)
  have e: "tq_entries q1 ! i = (tq_entries q ! i)\<lparr>qe_state := QREC_IN_FLIGHT\<rparr>" using i len by (simp add: q1 set_state_nth)
  have h: "held (tq_entries q1 ! i)" by (simp add: e)
  have f: "find_held (cd_current_record_seq svc1) (tq_entries q1) 0 = Some i"
    using held_unique [OF inv1 i h] by (simp add: c r e)
  define q2 where "q2 = snd (TelemetryQueue_Ack q1 (cd_current_record_seq svc1))"
  have q2: "q2 = (set_state i QREC_ACKNOWLEDGED q1)\<lparr>tq_count := tq_count q1 - 1, tq_has_in_flight := False\<rparr>"
    using f by (simp add: q2_def TelemetryQueue_Ack_def Let_def) (simp add: q1)
  have no: "\<not> TelemetryQueue_HasInFlight q2" by (simp add: q2 TelemetryQueue_HasInFlight_def)
  have inv2: "tq_inv q2" unfolding q2_def by (rule ack_inv [OF inv1])
  have live: "live_count q2 + 1 = live_count q1"
    using live_set_state [OF len1, of QREC_ACKNOWLEDGED] h by (simp add: q2 live_count_def)
  have "in_flight q2 = []" using inv_in_flight [OF inv2] no by simp
  then show ?thesis using o seq no live
    by (auto simp: CellularDelivery_Complete_def ack_current_def q2_def)
qed

section \<open>A full queue and the record in flight\<close>

text \<open>The full queue frees the oldest queued entry and then writes at the tail.  In first-in first-out
  use the tail of a full queue is the entry in flight.\<close>

lemma tick_frame: "tq_tail (TelemetryQueue_Tick q now) = tq_tail q" "tq_in_flight_idx (TelemetryQueue_Tick q now) = tq_in_flight_idx q"
proof -
  have "tq_tail (foldl (expire_entry now) q is) = tq_tail q \<and> tq_in_flight_idx (foldl (expire_entry now) q is) = tq_in_flight_idx q" for "is"
    by (induction "is" arbitrary: q) (simp_all add: expire_entry_def Let_def drop_entry_def)
  then show "tq_tail (TelemetryQueue_Tick q now) = tq_tail q" "tq_in_flight_idx (TelemetryQueue_Tick q now) = tq_in_flight_idx q"
    by (simp_all add: TelemetryQueue_Tick_def)
qed

text \<open>A full queue whose oldest record is being sent.\<close>

definition full_sample :: telemetry_queue where
  "full_sample = \<lparr>tq_entries = map (\<lambda>k. \<lparr>qe_record = zero_telemetry_record\<lparr>tr_record_sequence := of_nat k\<rparr>,
       qe_enqueue_monotonic_us = 0, qe_state = (if k = 0 then QREC_IN_FLIGHT else QREC_QUEUED), qe_retry_count = 0,
       qe_last_attempt_us = 0\<rparr>) [0..<64],
     tq_count = 64, tq_head = 0, tq_tail = 0, tq_in_flight_idx = 0, tq_has_in_flight = True, tq_drop_count = 0\<rparr>"

lemma full_sample_nth: "k < 64 \<Longrightarrow> tq_entries full_sample ! k = \<lparr>qe_record = zero_telemetry_record\<lparr>tr_record_sequence := of_nat k\<rparr>,
       qe_enqueue_monotonic_us = 0, qe_state = (if k = 0 then QREC_IN_FLIGHT else QREC_QUEUED), qe_retry_count = 0,
       qe_last_attempt_us = 0\<rparr>"
  by (simp add: full_sample_def)

lemma full_sample_inv: "tq_inv full_sample"
proof -
  have "live_count full_sample = 64" "fresh_count full_sample = 0"
    by (simp_all add: live_count_def fresh_count_def full_sample_def filter_map o_def)
  moreover have "i = j" if "i < 64" "j < 64" "(of_nat i :: u64) = of_nat j" for i j
    using that by (simp add: word_of_nat_eq_iff take_bit_nat_eq_self)
  then have "unique_ok full_sample" by (simp add: unique_ok_def full_sample_nth)
  moreover have "fresh_ok full_sample" "flight_ok full_sample"
    by (auto simp: fresh_ok_def flight_ok_def state_at_def full_sample_nth) (auto simp: full_sample_def)
  ultimately show ?thesis by (simp add: tq_inv_def full_sample_def)
qed

lemma full_sample_enqueue:
  "fst (TelemetryQueue_Enqueue full_sample (zero_telemetry_record\<lparr>tr_record_sequence := 64\<rparr>) 100) = QUEUE_OK"
  by code_simp

text \<open>When the entry in flight is the one at the tail, an enqueue that succeeds overwrites it.
  The record in flight is gone without being counted as dropped, its acknowledgement is refused, and
  the flag stays set, so that no record can be sent any more.\<close>

theorem enqueue_overwrites_record_in_flight:
  assumes inv: "tq_inv q" and fl: "state_at q (tq_tail q) = QREC_IN_FLIGHT"
    and ok: "TelemetryQueue_Enqueue q rec now = (QUEUE_OK, q')"
  shows "TelemetryQueue_HasInFlight q' \<and> in_flight q' = [] \<and> TelemetryQueue_Dequeue q' = None \<and>
    TelemetryQueue_Ack q' (tr_record_sequence (qe_record (tq_entries q ! tq_tail q))) = (False, q')"
proof -
  let ?t = "tq_tail q" and ?s = "tr_record_sequence (qe_record (tq_entries q ! tq_tail q))"
  have len: "length (tq_entries q) = 64" and t: "?t < 64" and flag: "tq_has_in_flight q" "tq_in_flight_idx q = ?t"
    using inv fl by (auto simp: tq_inv_def flight_ok_def)
  have st: "qe_state (tq_entries q ! ?t) = QREC_IN_FLIGHT" using fl by (simp add: state_at_def)
  define q1 where "q1 = (if queue_full q then TelemetryQueue_Tick q now else q)"
  have new: "unseen (tr_record_sequence rec) q"
    using ok by (auto simp: TelemetryQueue_Enqueue_def not_duplicate split: if_splits)
  have inv1: "tq_inv q1" and e1: "tq_entries q1 ! ?t = tq_entries q ! ?t" and tl1: "tq_tail q1 = ?t"
    and fl1: "tq_has_in_flight q1" "tq_in_flight_idx q1 = ?t"
    using inv tick_tq_inv tick_entry [OF t len st] tick_frame tick_flag flag by (auto simp: q1_def)
  obtain q2 where q': "q' = put_at_tail rec now q2" and inv2: "tq_inv q2" and e2: "tq_entries q2 ! ?t = tq_entries q ! ?t"
    and tl2: "tq_tail q2 = ?t" and fl2: "tq_has_in_flight q2" "tq_in_flight_idx q2 = ?t"
  proof (cases "queue_full q1")
    case False
    then have "q' = put_at_tail rec now q1" using ok new
      by (auto simp: TelemetryQueue_Enqueue_def not_duplicate [symmetric] q1_def [symmetric] Let_def)
    then show thesis using that [of q1] inv1 e1 tl1 fl1 by blast
  next
    case True
    obtain i where sc: "scan_oldest {QREC_BUILT, QREC_QUEUED} (tq_entries q1) 0 None now = Some i"
      and q2: "q' = put_at_tail rec now (drop_entry i q1)"
      using ok new True
      by (auto simp: TelemetryQueue_Enqueue_def not_duplicate [symmetric] q1_def [symmetric] Let_def split: option.splits)
    have i: "i < 64" "qe_state (tq_entries q1 ! i) = QREC_QUEUED" using drop_oldest(1,2) [OF inv1 True sc] .
    have "i \<noteq> ?t" using i(2) e1 st by auto
    moreover have "i < length (tq_entries q1)" using i inv1 by (simp add: tq_inv_def)
    ultimately have "tq_entries (drop_entry i q1) ! ?t = tq_entries q ! ?t" by (simp add: drop_entry_def set_state_nth e1)
    then show thesis using that [OF q2 drop_oldest(3) [OF inv1 True sc]] tl1 fl1 by (simp add: drop_entry_def)
  qed
  have len2: "length (tq_entries q2) = 64" and t2: "tq_tail q2 < 64" and un2: "unique_ok q2" and fo2: "flight_ok q2"
    using inv2 by (simp_all add: tq_inv_def)
  have nth: "tq_entries q' ! j = (if ?t = j then \<lparr>qe_record = rec, qe_enqueue_monotonic_us = now, qe_state = QREC_QUEUED,
     qe_retry_count = 0, qe_last_attempt_us = 0\<rparr> else tq_entries q2 ! j)" for j
    using put_at_tail_nth [OF len2 t2, of rec now j] by (simp add: q' tl2)
  have flag': "tq_has_in_flight q'" and len': "length (tq_entries q') = 64" using fl2 len2 by (simp_all add: q' put_at_tail_def)
  have other: "\<not> (j < 64 \<and> j \<noteq> ?t \<and> qe_state (tq_entries q2 ! j) = QREC_IN_FLIGHT)" for j
    using fo2 fl2 by (auto simp: flight_ok_def state_at_def)
  have none: "in_flight q' = []"
    unfolding in_flight_def filter_empty_conv
  proof
    fix e assume "e \<in> set (tq_entries q')"
    then obtain j where "j < 64" "e = tq_entries q' ! j" using len' by (auto simp: in_set_conv_nth)
    then show "qe_state e \<noteq> QREC_IN_FLIGHT" using other [of j] by (auto simp: nth)
  qed
  have gone: "held e \<Longrightarrow> tr_record_sequence (qe_record e) \<noteq> ?s" if "e \<in> set (tq_entries q')" for e
  proof -
    note mem = that
    assume h: "held e"
    obtain j where j: "j < 64" "e = tq_entries q' ! j" using mem len' by (auto simp: in_set_conv_nth)
    show ?thesis
    proof (cases "j = ?t")
      case True
      have "tr_record_sequence (qe_record (tq_entries q ! ?t)) \<noteq> tr_record_sequence rec"
        using new st len t nth_mem [of ?t "tq_entries q"] by (auto simp: unseen_def)
      then show ?thesis using True j by (simp add: nth)
    next
      case False
      then have "e = tq_entries q2 ! j" using j by (simp add: nth)
      moreover have "occupied (tq_entries q2 ! ?t)" using e2 st by simp
      ultimately show ?thesis using h False j t un2 e2 unfolding unique_ok_def
        by (metis queue_record_state.distinct)
    qed
  qed
  then have "find_held ?s (tq_entries q') 0 = None" by (simp add: find_held_None)
  then show ?thesis using flag' none
    by (simp add: TelemetryQueue_HasInFlight_def TelemetryQueue_Dequeue_def TelemetryQueue_Ack_def)
qed

lemma enqueue_overwrites_record_in_flight_witness:
  "let q' = snd (TelemetryQueue_Enqueue full_sample (zero_telemetry_record\<lparr>tr_record_sequence := 64\<rparr>) 100)
   in TelemetryQueue_HasInFlight q' \<and> in_flight q' = [] \<and> TelemetryQueue_Dequeue q' = None \<and>
      TelemetryQueue_Ack q' 0 = (False, q')"
proof -
  have fl: "state_at full_sample (tq_tail full_sample) = QREC_IN_FLIGHT" by (simp add: state_at_def full_sample_def)
  have seq: "tr_record_sequence (qe_record (tq_entries full_sample ! tq_tail full_sample)) = 0"
    by (simp add: full_sample_def)
  obtain q' where e: "TelemetryQueue_Enqueue full_sample (zero_telemetry_record\<lparr>tr_record_sequence := 64\<rparr>) 100 = (QUEUE_OK, q')"
    using full_sample_enqueue by (cases "TelemetryQueue_Enqueue full_sample (zero_telemetry_record\<lparr>tr_record_sequence := 64\<rparr>) 100") auto
  show ?thesis using enqueue_overwrites_record_in_flight [OF full_sample_inv fl e] seq by (simp add: e)
qed

text \<open>An acknowledged record still counts as a duplicate: its entry is not free until it is reused.\<close>

lemma acknowledged_is_duplicate:
  assumes "i < length (tq_entries q)" "state_at q i = QREC_ACKNOWLEDGED"
    "tr_record_sequence (qe_record (tq_entries q ! i)) = tr_record_sequence rec"
  shows "TelemetryQueue_Enqueue q rec now = (QUEUE_DUPLICATE, q)"
proof -
  have "is_duplicate q rec" using assms nth_mem [OF assms(1)]
    by (auto simp: is_duplicate_def list_ex_iff state_at_def intro!: bexI [of _ "tq_entries q ! i"])
  then show ?thesis by (simp add: TelemetryQueue_Enqueue_def)
qed

text \<open>A record enqueued at time zero never expires.\<close>

lemma time_zero_never_expires: "qe_enqueue_monotonic_us (tq_entries q ! i) = 0 \<Longrightarrow> expire_entry now q i = q"
  by (simp add: expire_entry_def Let_def)

end
