(* ===== verification/Reporting.thy ===== *)
theory Reporting
  imports Prelude
begin

text \<open>
  The reporting schedule (services/connectivity/reporting_schedule.c): two daily windows, each with
  a start minute and an interval; a window lasts until the other one starts.  Wall-clock seconds and
  the products computed with them are exact integers; C's division and remainder truncate.
\<close>

section \<open>Configuration\<close>

abbreviation RS_INTERVAL_MIN :: u16 where "RS_INTERVAL_MIN \<equiv> 5"
abbreviation RS_INTERVAL_MAX :: u16 where "RS_INTERVAL_MAX \<equiv> 60"
abbreviation RS_MIN_WINDOW_MIN :: u16 where "RS_MIN_WINDOW_MIN \<equiv> 30"
abbreviation RS_NUM_WINDOWS :: nat where "RS_NUM_WINDOWS \<equiv> 2"
abbreviation SECS_PER_MIN :: int where "SECS_PER_MIN \<equiv> 60"

record reporting_window_config =
  rw_start_minute :: u16
  rw_interval_minutes :: u16

record reporting_schedule_config =
  rc_schedule_version :: u32
  rc_schedule_generation :: u32
  rc_utc_offset_minutes :: int
  rc_windows :: "reporting_window_config list"

record report_slot_identity =
  sl_schedule_version :: u32
  sl_window_id :: u8
  sl_slot_due_wall_s :: i64

record reporting_schedule =
  rsch_cfg :: reporting_schedule_config
  rsch_generation :: u32
  rsch_last_accepted :: report_slot_identity
  rsch_has_accepted :: bool

definition ReportingSchedule_Init :: reporting_schedule where
  "ReportingSchedule_Init =
     \<lparr>rsch_cfg = \<lparr>rc_schedule_version = 1, rc_schedule_generation = 1, rc_utc_offset_minutes = 420,
        rc_windows = [\<lparr>rw_start_minute = 360, rw_interval_minutes = 15\<rparr>, \<lparr>rw_start_minute = 1320, rw_interval_minutes = 5\<rparr>]\<rparr>,
      rsch_generation = 1,
      rsch_last_accepted = \<lparr>sl_schedule_version = 0, sl_window_id = 0, sl_slot_due_wall_s = 0\<rparr>,
      rsch_has_accepted = False\<rparr>"

text \<open>The array has two elements.  The result is the error message, None when the configuration is valid;
  \<open>%d\<close> prints the index of the window.\<close>

definition window_error :: "string \<Rightarrow> reporting_window_config \<Rightarrow> string option" where
  "window_error i w =
     (if rw_start_minute w > 1439 then Some (''W'' @ i @ '' start > 1439'')
      else if rw_interval_minutes w < RS_INTERVAL_MIN \<or> rw_interval_minutes w > RS_INTERVAL_MAX
      then Some (''W'' @ i @ '' interval out of 5-60'') else None)"

definition window_start :: "reporting_schedule_config \<Rightarrow> nat \<Rightarrow> u16" where
  "window_start cfg w = rw_start_minute (rc_windows cfg ! w)"

definition window_interval :: "reporting_schedule_config \<Rightarrow> nat \<Rightarrow> u16" where
  "window_interval cfg w = rw_interval_minutes (rc_windows cfg ! w)"

definition RS_ValidateConfig :: "reporting_schedule_config \<Rightarrow> string option" where
  "RS_ValidateConfig cfg =
     (if rc_schedule_version cfg = 0 then Some ''version zero''
      else case window_error ''0'' (rc_windows cfg ! 0) of Some e \<Rightarrow> Some e
      | None \<Rightarrow> (case window_error ''1'' (rc_windows cfg ! 1) of Some e \<Rightarrow> Some e
      | None \<Rightarrow>
         if window_start cfg 0 = window_start cfg 1 then Some ''duplicate start''
         else
           let w0s = window_start cfg 0; w1s = window_start cfg 1;
               dur = (if w1s > w0s then w1s - w0s else 1440 - w0s + w1s)
           in if dur < RS_MIN_WINDOW_MIN then Some ''window < 30min'' else None))"

section \<open>Slots\<close>

definition minute_of_day :: "i64 \<Rightarrow> u16" where
  "minute_of_day wall_s =
     (let day_s = wall_s smod 86400; day_s = (if day_s < 0 then day_s + 86400 else day_s)
      in word_of_int (day_s sdiv 60))"

definition RS_GetActiveWindow :: "reporting_schedule_config \<Rightarrow> i64 \<Rightarrow> nat" where
  "RS_GetActiveWindow cfg wall_s =
     (let minute = minute_of_day wall_s; w0 = window_start cfg 0; w1 = window_start cfg 1
      in if w1 > w0 then (if minute \<ge> w0 \<and> minute < w1 then 0 else 1)
         else (if minute \<ge> w0 \<or> minute < w1 then 0 else 1))"

text \<open>Conversion to \<open>int16_t\<close>.\<close>

definition to_i16 :: "int \<Rightarrow> int" where
  "to_i16 x = sint (word_of_int x :: u16)"

definition RS_GetSlotOrdinal :: "reporting_schedule_config \<Rightarrow> nat \<Rightarrow> i64 \<Rightarrow> u16" where
  "RS_GetSlotOrdinal cfg win_id wall_s =
     (if win_id \<ge> RS_NUM_WINDOWS then 0
      else
        let minute = minute_of_day wall_s; start = window_start cfg win_id; interval = window_interval cfg win_id
        in if interval = 0 then 0
           else
             let diff = (if minute \<ge> start then to_i16 (uint minute - uint start) else to_i16 (1440 + uint minute - uint start))
             in word_of_int (diff sdiv uint interval))"

definition RS_GetSlotDueWall :: "reporting_schedule_config \<Rightarrow> nat \<Rightarrow> u16 \<Rightarrow> i64" where
  "RS_GetSlotDueWall cfg win_id ordinal =
     (if win_id \<ge> RS_NUM_WINDOWS then 0
      else (uint (window_start cfg win_id) + uint ordinal * uint (window_interval cfg win_id)) * SECS_PER_MIN)"

text \<open>One iteration of the first loop of \<open>RS_GetNextDue\<close>, and of the loop over tomorrow.\<close>

definition today_candidate :: "reporting_schedule_config \<Rightarrow> i64 \<Rightarrow> i64 \<Rightarrow> i64 \<Rightarrow> nat \<Rightarrow> i64" where
  "today_candidate cfg day_start wall_s earliest w =
     (let start = uint (window_start cfg w); interval = uint (window_interval cfg w)
      in if interval = 0 then earliest
         else
           let first_slot_s = day_start + start * SECS_PER_MIN
           in if first_slot_s \<ge> wall_s then (if first_slot_s < earliest then first_slot_s else earliest)
              else
                let elapsed = wall_s - first_slot_s;
                    ordinal = (word_of_int (elapsed sdiv (interval * SECS_PER_MIN)) :: u16) + 1;
                    next_s = first_slot_s + uint ordinal * interval * SECS_PER_MIN
                in if next_s < earliest then next_s else earliest)"

definition tomorrow_candidate :: "reporting_schedule_config \<Rightarrow> i64 \<Rightarrow> i64 \<Rightarrow> nat \<Rightarrow> i64" where
  "tomorrow_candidate cfg tomorrow earliest w =
     (let t = tomorrow + uint (window_start cfg w) * SECS_PER_MIN in if t < earliest then t else earliest)"

definition RS_GetNextDue :: "reporting_schedule_config \<Rightarrow> i64 \<Rightarrow> i64" where
  "RS_GetNextDue cfg wall_s =
     (let day_start = (wall_s sdiv 86400) * 86400;
          earliest = foldl (today_candidate cfg day_start wall_s) (wall_s + 86400) [0..<RS_NUM_WINDOWS]
      in if earliest \<ge> wall_s + 86400
         then foldl (tomorrow_candidate cfg (day_start + 86400)) earliest [0..<RS_NUM_WINDOWS]
         else earliest)"

definition RS_IsSlotAccepted :: "reporting_schedule \<Rightarrow> report_slot_identity \<Rightarrow> bool" where
  "RS_IsSlotAccepted rs slot \<longleftrightarrow>
     rsch_has_accepted rs \<and> sl_schedule_version (rsch_last_accepted rs) = sl_schedule_version slot \<and>
     sl_window_id (rsch_last_accepted rs) = sl_window_id slot \<and>
     sl_slot_due_wall_s (rsch_last_accepted rs) = sl_slot_due_wall_s slot"

definition RS_MarkSlotAccepted :: "reporting_schedule \<Rightarrow> report_slot_identity \<Rightarrow> reporting_schedule" where
  "RS_MarkSlotAccepted rs slot = rs\<lparr>rsch_last_accepted := slot, rsch_has_accepted := True\<rparr>"

definition RS_ApplyConfig :: "reporting_schedule \<Rightarrow> reporting_schedule_config \<Rightarrow> bool \<times> reporting_schedule" where
  "RS_ApplyConfig rs cfg =
     (if RS_ValidateConfig cfg \<noteq> None then (False, rs)
      else (True, rs\<lparr>rsch_cfg := cfg, rsch_generation := rsch_generation rs + 1, rsch_has_accepted := False\<rparr>))"

section \<open>The next due time\<close>

text \<open>Midnight before \<open>wall\<close>, and the slots of the day that starts there: the start of a window counts
  from its own second on, a later slot only after the previous second.\<close>

definition midnight :: "int \<Rightarrow> int" where
  "midnight wall = wall - wall mod 86400"

definition is_due :: "reporting_schedule_config \<Rightarrow> int \<Rightarrow> int \<Rightarrow> bool" where
  "is_due cfg wall t \<longleftrightarrow> (\<exists>w < 2.
     (wall \<le> t \<and> t = midnight wall + 60 * uint (window_start cfg w)) \<or>
     (wall < t \<and> (\<exists>k > 0. t = midnight wall + 60 * (uint (window_start cfg w) + k * uint (window_interval cfg w)))))"

text \<open>The candidate of one window.\<close>

definition slot_after :: "reporting_schedule_config \<Rightarrow> int \<Rightarrow> nat \<Rightarrow> int" where
  "slot_after cfg wall w =
     (let first = midnight wall + uint (window_start cfg w) * 60; step = uint (window_interval cfg w) * 60
      in if wall \<le> first then first else first + ((wall - first) div step + 1) * step)"

definition valid_windows :: "reporting_schedule_config \<Rightarrow> bool" where
  "valid_windows cfg \<longleftrightarrow> (\<forall>w < 2. uint (window_start cfg w) \<le> 1439 \<and> 5 \<le> uint (window_interval cfg w) \<and> uint (window_interval cfg w) \<le> 60)"

lemma all_two: "(\<forall>w < (2::nat). P w) \<longleftrightarrow> P 0 \<and> P 1"
  by (auto simp: numeral_2_eq_2 less_Suc_eq)

lemma ex_two: "(\<exists>w < (2::nat). P w) \<longleftrightarrow> P 0 \<or> P 1"
  by (auto simp: numeral_2_eq_2 less_Suc_eq)

lemma validated_windows:
  assumes "RS_ValidateConfig cfg = None"
  shows "valid_windows cfg" "window_start cfg 0 \<noteq> window_start cfg 1"
  using assms
  by (auto simp: RS_ValidateConfig_def window_error_def valid_windows_def all_two window_start_def window_interval_def
      word_less_def not_less Let_def split: if_splits option.splits)

lemma midnight_bounds: "midnight wall \<le> wall" "wall < midnight wall + 86400"
  by (simp_all add: midnight_def pos_mod_bound [of 86400 wall] less_diff_eq)

lemma day_start: "0 \<le> wall \<Longrightarrow> wall sdiv 86400 * 86400 = midnight wall"
  by (simp add: sdiv_nonneg midnight_def minus_mod_eq_div_mult)

lemma slot_after_bounds:
  assumes "valid_windows cfg" "w < 2"
  shows "wall \<le> slot_after cfg wall w" "slot_after cfg wall w < wall + 86400"
proof -
  have v: "uint (window_start cfg w) \<le> 1439" "5 \<le> uint (window_interval cfg w)" "uint (window_interval cfg w) \<le> 60"
    using assms by (auto simp: valid_windows_def)
  define first step where "first = midnight wall + uint (window_start cfg w) * 60" and "step = uint (window_interval cfg w) * 60"
  have e: "slot_after cfg wall w = (if wall \<le> first then first else first + ((wall - first) div step + 1) * step)"
    by (simp add: slot_after_def first_def step_def Let_def)
  have st: "0 < step" "step \<le> 3600" using v by (simp_all add: step_def)
  have "(wall - first) div step * step \<le> wall - first" "wall - first < (wall - first) div step * step + step"
    using div_mult_mod_eq [of "wall - first" step] pos_mod_bound [OF st(1), of "wall - first"] pos_mod_sign [OF st(1), of "wall - first"]
    by linarith+
  moreover have "first < wall + 86400" using v midnight_bounds [of wall] by (simp add: first_def)
  ultimately show "wall \<le> slot_after cfg wall w" "slot_after cfg wall w < wall + 86400"
    using st by (auto simp: e algebra_simps)
qed

lemma today_candidate_eq:
  assumes "valid_windows cfg" "w < 2" "0 \<le> wall"
  shows "today_candidate cfg (midnight wall) wall earliest w = min earliest (slot_after cfg wall w)"
proof -
  have v: "uint (window_start cfg w) \<le> 1439" "5 \<le> uint (window_interval cfg w)" "uint (window_interval cfg w) \<le> 60"
    using assms by (auto simp: valid_windows_def)
  define first step where "first = midnight wall + uint (window_start cfg w) * 60" and "step = uint (window_interval cfg w) * 60"
  have st: "300 \<le> step" using v by (simp add: step_def)
  show ?thesis
  proof (cases "wall \<le> first")
    case True
    then show ?thesis using v
      by (simp add: today_candidate_def slot_after_def first_def Let_def min_def)
  next
    case False
    let ?k = "(wall - first) div step"
    have "wall - first < 86400" using midnight_bounds(2) [of wall] uint_ge_0 [of "window_start cfg w"] unfolding first_def by linarith
    then have "?k < 289" using st by (subst zdiv_less_iff) simp_all
    then have k: "0 \<le> ?k" "?k < 65535" using False st by (simp_all add: pos_imp_zdiv_nonneg_iff)
    have o: "uint ((word_of_int ?k :: u16) + 1) = ?k + 1"
      using k by (simp add: uint_word_ariths uint_word_of_int mod_pos_pos_trivial)
    have q: "(wall - first) sdiv step = ?k" using False st by (intro sdiv_nonneg) simp_all
    have "today_candidate cfg (midnight wall) wall earliest w =
        (let next_s = first + uint ((word_of_int ((wall - first) sdiv step) :: u16) + 1) * uint (window_interval cfg w) * 60
         in if next_s < earliest then next_s else earliest)"
      using False v by (simp add: today_candidate_def first_def step_def Let_def)
    also have "\<dots> = min earliest (first + (?k + 1) * step)"
      unfolding q o Let_def by (simp add: step_def min_def mult.assoc)
    finally show ?thesis using False by (simp add: slot_after_def first_def step_def Let_def)
  qed
qed

lemma next_due_eq:
  assumes "valid_windows cfg" "0 \<le> wall"
  shows "RS_GetNextDue cfg wall = min (slot_after cfg wall 0) (slot_after cfg wall 1)"
proof -
  have two: "[0..<RS_NUM_WINDOWS] = [0, 1]" by (simp add: upt_rec)
  have "foldl (today_candidate cfg (midnight wall) wall) (wall + 86400) [0..<RS_NUM_WINDOWS] =
      min (slot_after cfg wall 0) (slot_after cfg wall 1)"
    unfolding two using slot_after_bounds [OF assms(1), of 0 wall] slot_after_bounds [OF assms(1), of 1 wall]
    by (simp add: today_candidate_eq [OF assms(1) _ assms(2)] min_def)
  moreover have "min (slot_after cfg wall 0) (slot_after cfg wall 1) < wall + 86400"
    using slot_after_bounds(2) [OF assms(1), of 0 wall] by (simp add: min_less_iff_disj)
  ultimately show ?thesis unfolding RS_GetNextDue_def Let_def day_start [OF assms(2)] by (simp only: not_le [symmetric] if_False)
qed

lemma slot_after_due:
  assumes "valid_windows cfg" "w < 2"
  shows "is_due cfg wall (slot_after cfg wall w)"
proof -
  let ?first = "midnight wall + uint (window_start cfg w) * 60" and ?step = "uint (window_interval cfg w) * 60"
  have st: "0 < ?step" using assms by (auto simp: valid_windows_def)
  show ?thesis
  proof (cases "wall \<le> ?first")
    case True
    then show ?thesis using assms(2) by (auto simp: is_due_def slot_after_def Let_def)
  next
    case False
    let ?k = "(wall - ?first) div ?step + 1"
    have e: "slot_after cfg wall w = midnight wall + 60 * (uint (window_start cfg w) + ?k * uint (window_interval cfg w))"
      using False by (simp add: slot_after_def Let_def algebra_simps)
    have k: "0 < ?k" using False st by (simp add: pos_imp_zdiv_nonneg_iff add_nonneg_pos)
    have "wall < slot_after cfg wall w"
      using False div_mult_mod_eq [of "wall - ?first" ?step] pos_mod_bound [OF st, of "wall - ?first"]
      by (simp add: slot_after_def Let_def algebra_simps)
    then show ?thesis using assms(2) e k unfolding is_due_def by blast
  qed
qed

lemma slot_after_least:
  assumes "valid_windows cfg" "is_due cfg wall t"
  shows "\<exists>w < 2. slot_after cfg wall w \<le> t"
proof -
  obtain w where w: "w < 2" and *: "(wall \<le> t \<and> t = midnight wall + 60 * uint (window_start cfg w)) \<or>
     (wall < t \<and> (\<exists>k > 0. t = midnight wall + 60 * (uint (window_start cfg w) + k * uint (window_interval cfg w))))"
    using assms(2) unfolding is_due_def by blast
  define first step where "first = midnight wall + uint (window_start cfg w) * 60" and "step = uint (window_interval cfg w) * 60"
  have st: "0 < step" using assms(1) w by (auto simp: valid_windows_def step_def)
  have e: "slot_after cfg wall w = (if wall \<le> first then first else first + ((wall - first) div step + 1) * step)"
    by (simp add: slot_after_def first_def step_def Let_def)
  from * have "slot_after cfg wall w \<le> t"
  proof (elim disjE conjE exE)
    assume "wall \<le> t" "t = midnight wall + 60 * uint (window_start cfg w)"
    then show ?thesis by (simp add: e first_def mult.commute)
  next
    fix k assume "wall < t" "0 < k" and t: "t = midnight wall + 60 * (uint (window_start cfg w) + k * uint (window_interval cfg w))"
    have t': "t = first + k * step" by (simp add: t first_def step_def algebra_simps)
    show ?thesis
    proof (cases "wall \<le> first")
      case True
      then show ?thesis using \<open>0 < k\<close> st by (simp add: e t')
    next
      case False
      have "(wall - first) div step < k" using \<open>wall < t\<close> st by (simp add: t' zdiv_less_iff mult.commute)
      then have "((wall - first) div step + 1) * step \<le> k * step" using st by (intro mult_right_mono) simp_all
      then show ?thesis using False by (simp add: e t')
    qed
  qed
  then show ?thesis using w by blast
qed

text \<open>For a valid configuration the next due time is the earliest slot of the current day that is
  still due; the 16-bit slot ordinal never wraps and the day bound is never reached.\<close>

theorem next_due_is_earliest_slot:
  assumes valid: "RS_ValidateConfig cfg = None" and wall: "0 \<le> wall"
  shows "is_due cfg wall (RS_GetNextDue cfg wall) \<and> (\<forall>t. is_due cfg wall t \<longrightarrow> RS_GetNextDue cfg wall \<le> t)"
proof -
  note v = validated_windows(1) [OF valid]
  have e: "RS_GetNextDue cfg wall = min (slot_after cfg wall 0) (slot_after cfg wall 1)" by (rule next_due_eq [OF v wall])
  then have "is_due cfg wall (RS_GetNextDue cfg wall)"
    using slot_after_due [OF v, of 0 wall] slot_after_due [OF v, of 1 wall] by (simp add: min_def)
  moreover have "RS_GetNextDue cfg wall \<le> t" if "is_due cfg wall t" for t
    using slot_after_least [OF v that] by (auto simp: e ex_two min_le_iff_disj)
  ultimately show ?thesis by blast
qed

lemma default_valid: "RS_ValidateConfig (rsch_cfg ReportingSchedule_Init) = None"
  by (simp add: RS_ValidateConfig_def ReportingSchedule_Init_def window_error_def window_start_def)

lemma next_due_is_earliest_slot_witness:
  "is_due (rsch_cfg ReportingSchedule_Init) 25000 (RS_GetNextDue (rsch_cfg ReportingSchedule_Init) 25000) \<and>
   RS_GetNextDue (rsch_cfg ReportingSchedule_Init) 25000 \<le> 25200"
proof -
  have "window_start (rsch_cfg ReportingSchedule_Init) 0 = 360" "window_interval (rsch_cfg ReportingSchedule_Init) 0 = 15"
    by (simp_all add: window_start_def window_interval_def ReportingSchedule_Init_def)
  then have "is_due (rsch_cfg ReportingSchedule_Init) 25000 25200"
    unfolding is_due_def by (intro exI [of _ 0] conjI disjI2 exI [of _ 4]) (simp_all add: midnight_def)
  then show ?thesis using next_due_is_earliest_slot [OF default_valid, of 25000] by simp
qed

lemma minute_of_day_eq: "0 \<le> wall \<Longrightarrow> uint (minute_of_day wall) = wall mod 86400 div 60"
proof -
  assume w: "0 \<le> wall"
  have b: "0 \<le> wall mod 86400 div 60" "wall mod 86400 div 60 < 65536"
    using pos_mod_bound [of 86400 wall] pos_mod_sign [of 86400 wall] by (auto simp: zdiv_less_iff pos_imp_zdiv_nonneg_iff)
  have "minute_of_day wall = word_of_int (wall mod 86400 div 60)"
    using w pos_mod_sign [of 86400 wall] by (simp add: minute_of_day_def smod_nonneg sdiv_nonneg Let_def)
  then show ?thesis using b by (simp add: uint_word_of_int mod_pos_pos_trivial)
qed

text \<open>C39: from midnight until the first window starts, the active window is the one that wraps over
  midnight, but none of its slots is ever due: the next due time is the start of the first window of the day.\<close>

theorem night_slots_are_skipped:
  assumes valid: "RS_ValidateConfig cfg = None" and wall: "0 \<le> wall"
    and night: "wall mod 86400 < 60 * min (uint (window_start cfg 0)) (uint (window_start cfg 1))"
  shows "RS_GetActiveWindow cfg wall = (if window_start cfg 0 < window_start cfg 1 then 1 else 0) \<and>
    RS_GetNextDue cfg wall = midnight wall + 60 * min (uint (window_start cfg 0)) (uint (window_start cfg 1))"
proof -
  note v = validated_windows(1) [OF valid]
  have s: "slot_after cfg wall w = midnight wall + uint (window_start cfg w) * 60" if "w < 2" for w
  proof -
    have "wall mod 86400 < 60 * uint (window_start cfg w)" using night that by (auto simp: min_def numeral_2_eq_2 less_Suc_eq split: if_splits)
    then show ?thesis by (simp add: slot_after_def midnight_def Let_def)
  qed
  have "RS_GetNextDue cfg wall = midnight wall + 60 * min (uint (window_start cfg 0)) (uint (window_start cfg 1))"
    using next_due_eq [OF v wall] s [of 0] s [of 1] by (simp add: min_def)
  moreover have "wall mod 86400 div 60 < min (uint (window_start cfg 0)) (uint (window_start cfg 1))"
    using night by (simp only: zdiv_less_iff)
  then have "minute_of_day wall < window_start cfg 0" "minute_of_day wall < window_start cfg 1"
    unfolding word_less_def minute_of_day_eq [OF wall] min_less_iff_conj by blast+
  then have "RS_GetActiveWindow cfg wall = (if window_start cfg 0 < window_start cfg 1 then 1 else 0)"
    by (auto simp: RS_GetActiveWindow_def Let_def dest: leD)
  ultimately show ?thesis by blast
qed

text \<open>The default schedule at one o'clock: window 1 reports every five minutes, the next report is due at six.\<close>

lemma night_slots_are_skipped_witness:
  "RS_GetActiveWindow (rsch_cfg ReportingSchedule_Init) 3600 = 1 \<and>
   RS_GetNextDue (rsch_cfg ReportingSchedule_Init) 3600 = 6 * 3600"
proof -
  have w: "window_start (rsch_cfg ReportingSchedule_Init) 0 = 360" "window_start (rsch_cfg ReportingSchedule_Init) 1 = 1320"
    by (simp_all add: window_start_def ReportingSchedule_Init_def)
  show ?thesis using night_slots_are_skipped [OF default_valid, of 3600] by (simp add: w [unfolded One_nat_def] midnight_def)
qed

text \<open>Only the duration from window 0 to window 1 is tested; the other window may be shorter than half an hour.\<close>

lemma short_second_window_accepted:
  "RS_ValidateConfig ((rsch_cfg ReportingSchedule_Init)
     \<lparr>rc_windows := [\<lparr>rw_start_minute = 360, rw_interval_minutes = 15\<rparr>, \<lparr>rw_start_minute = 359, rw_interval_minutes = 5\<rparr>]\<rparr>) = None"
  by (simp add: RS_ValidateConfig_def ReportingSchedule_Init_def window_error_def window_start_def)

text \<open>The offset of the configuration from UTC plays no part: the start minutes are minutes of the UTC day.\<close>

lemma utc_offset_ignored: "RS_GetNextDue (cfg\<lparr>rc_utc_offset_minutes := m\<rparr>) wall = RS_GetNextDue cfg wall"
proof -
  have "today_candidate (cfg\<lparr>rc_utc_offset_minutes := m\<rparr>) = today_candidate cfg"
    "tomorrow_candidate (cfg\<lparr>rc_utc_offset_minutes := m\<rparr>) = tomorrow_candidate cfg"
    by (simp_all add: fun_eq_iff today_candidate_def tomorrow_candidate_def window_start_def window_interval_def)
  then show ?thesis by (simp add: RS_GetNextDue_def Let_def)
qed

text \<open>A slot marked accepted is recognised until another one is marked or the configuration changes.\<close>

lemma accepted_slot: "RS_IsSlotAccepted (RS_MarkSlotAccepted rs slot) slot"
  by (simp add: RS_IsSlotAccepted_def RS_MarkSlotAccepted_def)

lemma apply_config_forgets: "RS_ApplyConfig rs cfg = (True, rs') \<Longrightarrow> \<not> RS_IsSlotAccepted rs' slot"
  by (auto simp: RS_ApplyConfig_def RS_IsSlotAccepted_def split: if_splits)

end
