(* ===== verification/I2c_Bus.thy ===== *)
theory I2c_Bus
  imports Prelude
begin

text \<open>
  The I2C bus manager (infrastructure/bus/i2c_bus_manager.c): one active transaction, a bounded list
  of pending ones ordered by priority and admission, and a callback per client that is called
  once for every accepted transaction.

  A callback may use the bus again.  It is an argument of the operations, a function on the state of
  the clients and the bus; what the port answers to a submission is another.  The bus record has one
  field that the code does not have, \<open>ib_trace\<close>: the calls that left the manager, and the
  submissions it accepted, in order.  The arrays with their counts are lists.
\<close>

unbundle bit_operations_syntax

section \<open>Data\<close>

datatype port_status =
    PORT_OK | PORT_STATUS_TIMEOUT | PORT_STATUS_UNAVAILABLE | PORT_STATUS_INVALID_PARAM
  | PORT_STATUS_HARDWARE_ERROR | PORT_STATUS_BUSY

abbreviation I2C_BUS_MAX_CLIENTS :: nat where "I2C_BUS_MAX_CLIENTS \<equiv> 4"
abbreviation I2C_BUS_PENDING_CAPACITY :: nat where "I2C_BUS_PENDING_CAPACITY \<equiv> 8"

datatype i2c_transaction_result =
    I2C_TRANSACTION_OK | I2C_TRANSACTION_BUSY | I2C_TRANSACTION_TIMEOUT | I2C_TRANSACTION_FAILED
  | I2C_TRANSACTION_CANCELLED | I2C_TRANSACTION_STALE

datatype i2c_submit_result =
    I2C_SUBMIT_ACCEPTED | I2C_SUBMIT_INVALID_PARAM | I2C_SUBMIT_NOT_READY | I2C_SUBMIT_UNKNOWN_CLIENT
  | I2C_SUBMIT_ADDRESS_REJECTED | I2C_SUBMIT_NO_CAPACITY | I2C_SUBMIT_PORT_ERROR

record i2c_completion =
  bn_client_id :: u32
  bn_transaction_id :: u32
  bn_correlation_id :: u32
  bn_client_generation :: u32
  bn_bus_generation :: u32
  bn_result :: i2c_transaction_result

record i2c_client =
  bc_client_id :: u32
  bc_client_generation :: u32
  bc_address_base :: u8
  bc_address_mask :: u8
  bc_on_complete :: bool

text \<open>A transmit buffer is the bytes in it, a receive buffer an address; None is NULL.\<close>

record i2c_bus_request =
  br_client_id :: u32
  br_correlation_id :: u32
  br_client_generation :: u32
  br_slave_address :: u8
  br_tx :: "bytes option"
  br_tx_length :: u16
  br_rx :: "u32 option"
  br_rx_length :: u16
  br_deadline_us :: u64
  br_priority :: u8

record i2c_pending =
  bp_client_id :: u32
  bp_transaction_id :: u32
  bp_correlation_id :: u32
  bp_client_generation :: u32
  bp_bus_generation :: u32
  bp_slave_address :: u8
  bp_tx :: "bytes option"
  bp_tx_len :: u16
  bp_rx :: "u32 option"
  bp_rx_len :: u16
  bp_deadline_us :: u64
  bp_priority :: u8
  bp_admission_sequence :: u64

record i2c_port_request =
  pq_transaction_id :: u32
  pq_correlation_id :: u32
  pq_client_generation :: u32
  pq_bus_generation :: u32
  pq_slave_address :: u8
  pq_tx :: "bytes option"
  pq_tx_length :: u16
  pq_rx :: "u32 option"
  pq_rx_length :: u16
  pq_deadline_us :: u64

datatype bus_event =
    Accepted u32
  | Port_submit i2c_port_request port_status
  | Port_cancel u32 u32
  | Port_recover u32
  | Notify i2c_completion

record i2c_bus =
  ib_port_bound :: bool
  ib_clients :: "i2c_client list"
  ib_busy :: bool
  ib_active :: i2c_pending
  ib_pending :: "i2c_pending list"
  ib_next_admission_sequence :: u64
  ib_next_transaction_id :: u32
  ib_bus_generation :: u32
  ib_arbitration_count :: u32
  ib_timeout_count :: u32
  ib_recovery_count :: u32
  ib_stale_completion_count :: u32
  ib_rejected_count :: u32
  ib_completed_count :: u32
  ib_trace :: "bus_event list"

type_synonym port_answer = "i2c_port_request \<Rightarrow> port_status"
type_synonym 'c callback = "i2c_completion \<Rightarrow> 'c \<Rightarrow> i2c_bus \<Rightarrow> 'c \<times> i2c_bus"

definition zero_pending :: i2c_pending where
  "zero_pending = \<lparr>bp_client_id = 0, bp_transaction_id = 0, bp_correlation_id = 0, bp_client_generation = 0,
     bp_bus_generation = 0, bp_slave_address = 0, bp_tx = None, bp_tx_len = 0, bp_rx = None, bp_rx_len = 0,
     bp_deadline_us = 0, bp_priority = 0, bp_admission_sequence = 0\<rparr>"

section \<open>Clients and notification\<close>

definition find_client :: "i2c_bus \<Rightarrow> u32 \<Rightarrow> i2c_client option" where
  "find_client b client_id = find (\<lambda>c. bc_client_id c = client_id) (ib_clients b)"

definition client_accepts_address :: "i2c_client \<Rightarrow> u8 \<Rightarrow> bool" where
  "client_accepts_address c address \<longleftrightarrow> address AND bc_address_mask c = bc_address_base c AND bc_address_mask c"

definition emit :: "bus_event \<Rightarrow> i2c_bus \<Rightarrow> i2c_bus" where
  "emit e b = b\<lparr>ib_trace := ib_trace b @ [e]\<rparr>"

definition completion_of :: "i2c_pending \<Rightarrow> i2c_transaction_result \<Rightarrow> i2c_completion" where
  "completion_of t r = \<lparr>bn_client_id = bp_client_id t, bn_transaction_id = bp_transaction_id t,
     bn_correlation_id = bp_correlation_id t, bn_client_generation = bp_client_generation t,
     bn_bus_generation = bp_bus_generation t, bn_result = r\<rparr>"

definition notify :: "'c callback \<Rightarrow> i2c_pending \<Rightarrow> i2c_transaction_result \<Rightarrow> 'c \<times> i2c_bus \<Rightarrow> 'c \<times> i2c_bus" where
  "notify cb t r = (\<lambda>(c, b).
     case find_client b (bp_client_id t) of
       None \<Rightarrow> (c, b)
     | Some cl \<Rightarrow> if \<not> bc_on_complete cl then (c, b)
         else cb (completion_of t r) c (emit (Notify (completion_of t r)) b))"

section \<open>Starting a transaction\<close>

definition port_request :: "i2c_pending \<Rightarrow> i2c_port_request" where
  "port_request t = \<lparr>pq_transaction_id = bp_transaction_id t, pq_correlation_id = bp_correlation_id t,
     pq_client_generation = bp_client_generation t, pq_bus_generation = bp_bus_generation t,
     pq_slave_address = bp_slave_address t, pq_tx = bp_tx t, pq_tx_length = bp_tx_len t, pq_rx = bp_rx t,
     pq_rx_length = bp_rx_len t, pq_deadline_us = bp_deadline_us t\<rparr>"

definition startable :: "i2c_pending \<Rightarrow> i2c_bus \<Rightarrow> bool" where
  "startable t b \<longleftrightarrow> ib_port_bound b \<and>
     (case find_client b (bp_client_id t) of None \<Rightarrow> False
      | Some cl \<Rightarrow> bc_client_generation cl = bp_client_generation t \<and> client_accepts_address cl (bp_slave_address t))"

definition start_transaction :: "port_answer \<Rightarrow> i2c_pending \<Rightarrow> i2c_bus \<Rightarrow> bool \<times> i2c_bus" where
  "start_transaction ans t b =
     (if \<not> startable t b then (False, b)
      else
        let active = t\<lparr>bp_bus_generation := ib_bus_generation b\<rparr>;
            answer = ans (port_request active);
            b1 = emit (Port_submit (port_request active) answer) b
        in if answer \<noteq> PORT_OK then (False, b1\<lparr>ib_busy := False, ib_active := zero_pending\<rparr>)
           else (True, b1\<lparr>ib_busy := True, ib_active := active\<rparr>))"

definition better :: "i2c_pending \<Rightarrow> i2c_pending \<Rightarrow> bool" where
  "better x y \<longleftrightarrow> bp_priority x < bp_priority y \<or>
     (bp_priority x = bp_priority y \<and> bp_admission_sequence x < bp_admission_sequence y)"

definition best_pending_index :: "i2c_pending list \<Rightarrow> nat" where
  "best_pending_index ps = foldl (\<lambda>best i. if better (ps ! i) (ps ! best) then i else best) 0 [1..<length ps]"

definition remove_pending :: "nat \<Rightarrow> i2c_bus \<Rightarrow> i2c_bus" where
  "remove_pending i b = b\<lparr>ib_pending := remove_nth i (ib_pending b)\<rparr>"

text \<open>The loop need not end when a callback submits again each time a start fails, so it is partial.\<close>

partial_function (option) start_next :: "port_answer \<Rightarrow> 'c callback \<Rightarrow> 'c \<times> i2c_bus \<Rightarrow> ('c \<times> i2c_bus) option" where
  "start_next ans cb x =
     (case x of (c, b) \<Rightarrow>
       if ib_busy b \<or> ib_pending b = [] then Some (c, b)
       else
         let i = best_pending_index (ib_pending b);
             t = ib_pending b ! i;
             (started, b1) = start_transaction ans t (remove_pending i b)
         in if started then Some (c, b1)
            else start_next ans cb (notify cb t I2C_TRANSACTION_FAILED (c, b1\<lparr>ib_rejected_count := ib_rejected_count b1 + 1\<rparr>)))"

declare start_next.simps [code]

section \<open>Operations\<close>

definition i2c_bus_init :: "bool \<Rightarrow> i2c_bus" where
  "i2c_bus_init port_valid =
     \<lparr>ib_port_bound = port_valid, ib_clients = [], ib_busy = False, ib_active = zero_pending, ib_pending = [],
      ib_next_admission_sequence = 1, ib_next_transaction_id = 1, ib_bus_generation = 1, ib_arbitration_count = 0,
      ib_timeout_count = 0, ib_recovery_count = 0, ib_stale_completion_count = 0, ib_rejected_count = 0,
      ib_completed_count = 0, ib_trace = []\<rparr>"

definition i2c_bus_bind_port :: "bool \<Rightarrow> i2c_bus \<Rightarrow> bool \<times> i2c_bus" where
  "i2c_bus_bind_port port_valid b =
     (if \<not> port_valid \<or> ib_busy b \<or> ib_pending b \<noteq> [] then (False, b) else (True, b\<lparr>ib_port_bound := True\<rparr>))"

definition i2c_bus_register_client :: "i2c_client \<Rightarrow> i2c_bus \<Rightarrow> bool \<times> i2c_bus" where
  "i2c_bus_register_client cl b =
     (if bc_client_id cl = 0 \<or> bc_client_generation cl = 0 \<or> bc_address_mask cl = 0 \<or> \<not> bc_on_complete cl
         \<or> length (ib_clients b) \<ge> I2C_BUS_MAX_CLIENTS \<or> find_client b (bc_client_id cl) \<noteq> None
      then (False, b) else (True, b\<lparr>ib_clients := ib_clients b @ [cl]\<rparr>))"

definition i2c_bus_set_client_generation :: "u32 \<Rightarrow> u32 \<Rightarrow> i2c_bus \<Rightarrow> bool \<times> i2c_bus" where
  "i2c_bus_set_client_generation client_id g b =
     (if find_client b client_id = None \<or> g = 0 then (False, b)
      else (True, b\<lparr>ib_clients := map (\<lambda>cl. if bc_client_id cl = client_id then cl\<lparr>bc_client_generation := g\<rparr> else cl) (ib_clients b)\<rparr>))"

definition request_invalid :: "i2c_bus_request \<Rightarrow> bool" where
  "request_invalid r \<longleftrightarrow> br_correlation_id r = 0 \<or> br_client_generation r = 0 \<or> br_deadline_us r = 0 \<or>
     (br_tx_length r > 0 \<and> br_tx r = None) \<or> (br_rx_length r > 0 \<and> br_rx r = None) \<or>
     (br_tx_length r = 0 \<and> br_rx_length r = 0)"

text \<open>The transaction id skips zero.\<close>

definition take_transaction_id :: "i2c_bus \<Rightarrow> u32 \<times> i2c_bus" where
  "take_transaction_id b =
     (if ib_next_transaction_id b = 0 then (1, b\<lparr>ib_next_transaction_id := 2\<rparr>)
      else (ib_next_transaction_id b, b\<lparr>ib_next_transaction_id := ib_next_transaction_id b + 1\<rparr>))"

definition new_pending :: "i2c_bus_request \<Rightarrow> u32 \<Rightarrow> i2c_bus \<Rightarrow> i2c_pending" where
  "new_pending r tid b =
     \<lparr>bp_client_id = br_client_id r, bp_transaction_id = tid, bp_correlation_id = br_correlation_id r,
      bp_client_generation = br_client_generation r, bp_bus_generation = ib_bus_generation b,
      bp_slave_address = br_slave_address r, bp_tx = br_tx r, bp_tx_len = br_tx_length r, bp_rx = br_rx r,
      bp_rx_len = br_rx_length r, bp_deadline_us = br_deadline_us r, bp_priority = br_priority r,
      bp_admission_sequence = ib_next_admission_sequence b\<rparr>"

definition admit :: "port_answer \<Rightarrow> i2c_bus_request \<Rightarrow> i2c_bus \<Rightarrow> i2c_submit_result \<times> u32 \<times> i2c_bus" where
  "admit ans r b =
     (let (tid, b1) = take_transaction_id b;
          t = new_pending r tid b1;
          b2 = b1\<lparr>ib_next_admission_sequence := ib_next_admission_sequence b1 + 1\<rparr>
      in if \<not> ib_busy b2 then
           (let (started, b3) = start_transaction ans t b2
            in if \<not> started then (I2C_SUBMIT_PORT_ERROR, 0, b3\<lparr>ib_rejected_count := ib_rejected_count b3 + 1\<rparr>)
               else (I2C_SUBMIT_ACCEPTED, tid, emit (Accepted tid) b3))
         else if length (ib_pending b2) \<ge> I2C_BUS_PENDING_CAPACITY
         then (I2C_SUBMIT_NO_CAPACITY, 0, b2\<lparr>ib_rejected_count := ib_rejected_count b2 + 1\<rparr>)
         else (I2C_SUBMIT_ACCEPTED, tid, emit (Accepted tid)
                (b2\<lparr>ib_pending := ib_pending b2 @ [t], ib_arbitration_count := ib_arbitration_count b2 + 1\<rparr>)))"

definition i2c_bus_submit :: "port_answer \<Rightarrow> i2c_bus_request \<Rightarrow> i2c_bus \<Rightarrow> i2c_submit_result \<times> u32 \<times> i2c_bus" where
  "i2c_bus_submit ans r b =
     (if request_invalid r then (I2C_SUBMIT_INVALID_PARAM, 0, b)
      else if \<not> ib_port_bound b then (I2C_SUBMIT_NOT_READY, 0, b)
      else case find_client b (br_client_id r) of
             None \<Rightarrow> (I2C_SUBMIT_UNKNOWN_CLIENT, 0, b)
           | Some cl \<Rightarrow>
               if br_client_generation r \<noteq> bc_client_generation cl then (I2C_SUBMIT_INVALID_PARAM, 0, b)
               else if \<not> client_accepts_address cl (br_slave_address r) then (I2C_SUBMIT_ADDRESS_REJECTED, 0, b)
               else admit ans r b)"

text \<open>The active transaction leaves the bus.\<close>

definition release :: "i2c_bus \<Rightarrow> i2c_bus" where
  "release b = b\<lparr>ib_busy := False, ib_active := zero_pending\<rparr>"

definition i2c_bus_complete ::
  "port_answer \<Rightarrow> 'c callback \<Rightarrow> u32 \<Rightarrow> u32 \<Rightarrow> u32 \<Rightarrow> u32 \<Rightarrow> i2c_transaction_result \<Rightarrow> 'c \<times> i2c_bus \<Rightarrow> (bool \<times> 'c \<times> i2c_bus) option" where
  "i2c_bus_complete ans cb tid corr cgen bgen r x =
     (case x of (c, b) \<Rightarrow>
       if \<not> ib_busy b \<or> bgen \<noteq> ib_bus_generation b \<or> tid \<noteq> bp_transaction_id (ib_active b)
          \<or> corr \<noteq> bp_correlation_id (ib_active b) \<or> cgen \<noteq> bp_client_generation (ib_active b)
       then Some (False, c, b\<lparr>ib_stale_completion_count := ib_stale_completion_count b + 1\<rparr>)
       else
         let b1 = release b;
             b2 = (if r = I2C_TRANSACTION_TIMEOUT then b1\<lparr>ib_timeout_count := ib_timeout_count b1 + 1\<rparr>
                   else if r = I2C_TRANSACTION_OK then b1\<lparr>ib_completed_count := ib_completed_count b1 + 1\<rparr> else b1)
         in map_option (Pair True) (start_next ans cb (notify cb (ib_active b) r (c, b2))))"

fun map_port_result :: "port_status \<Rightarrow> i2c_transaction_result" where
  "map_port_result PORT_OK = I2C_TRANSACTION_OK"
| "map_port_result PORT_STATUS_TIMEOUT = I2C_TRANSACTION_TIMEOUT"
| "map_port_result PORT_STATUS_BUSY = I2C_TRANSACTION_BUSY"
| "map_port_result _ = I2C_TRANSACTION_FAILED"

definition i2c_bus_on_port_completion ::
  "port_answer \<Rightarrow> 'c callback \<Rightarrow> i2c_port_request \<Rightarrow> port_status \<Rightarrow> 'c \<times> i2c_bus \<Rightarrow> (bool \<times> 'c \<times> i2c_bus) option" where
  "i2c_bus_on_port_completion ans cb q result =
     i2c_bus_complete ans cb (pq_transaction_id q) (pq_correlation_id q) (pq_client_generation q) (pq_bus_generation q)
       (map_port_result result)"

text \<open>\<open>can_cancel\<close> and \<open>can_recover\<close>: the port has the optional operation.\<close>

definition cancel_at_port :: "bool \<Rightarrow> i2c_pending \<Rightarrow> i2c_bus \<Rightarrow> i2c_bus" where
  "cancel_at_port can_cancel t b = (if can_cancel then emit (Port_cancel (bp_transaction_id t) (bp_bus_generation t)) b else b)"

definition i2c_bus_tick ::
  "port_answer \<Rightarrow> 'c callback \<Rightarrow> bool \<Rightarrow> u64 \<Rightarrow> 'c \<times> i2c_bus \<Rightarrow> (bool \<times> 'c \<times> i2c_bus) option" where
  "i2c_bus_tick ans cb can_cancel now x =
     (case x of (c, b) \<Rightarrow>
       if \<not> ib_busy b \<or> now < bp_deadline_us (ib_active b) then Some (False, c, b)
       else
         let t = ib_active b;
             b1 = release (cancel_at_port can_cancel t b);
             b2 = b1\<lparr>ib_bus_generation := ib_bus_generation b1 + 1, ib_timeout_count := ib_timeout_count b1 + 1\<rparr>
         in map_option (Pair True) (start_next ans cb (notify cb t I2C_TRANSACTION_TIMEOUT (c, b2))))"

text \<open>The loop of \<open>i2c_bus_cancel_client\<close> over the pending transactions; \<open>n\<close> counts the cancelled ones.\<close>

partial_function (option) cancel_pending ::
  "'c callback \<Rightarrow> u32 \<Rightarrow> nat \<Rightarrow> nat \<Rightarrow> 'c \<times> i2c_bus \<Rightarrow> (nat \<times> 'c \<times> i2c_bus) option" where
  "cancel_pending cb client_id i n x =
     (case x of (c, b) \<Rightarrow>
       if i \<ge> length (ib_pending b) then Some (n, c, b)
       else if bp_client_id (ib_pending b ! i) = client_id
       then cancel_pending cb client_id i (Suc n)
              (notify cb (ib_pending b ! i) I2C_TRANSACTION_CANCELLED (c, remove_pending i b))
       else cancel_pending cb client_id (Suc i) n (c, b))"

declare cancel_pending.simps [code]

definition i2c_bus_cancel_client ::
  "port_answer \<Rightarrow> 'c callback \<Rightarrow> bool \<Rightarrow> u32 \<Rightarrow> 'c \<times> i2c_bus \<Rightarrow> (nat \<times> 'c \<times> i2c_bus) option" where
  "i2c_bus_cancel_client ans cb can_cancel client_id x =
     (case cancel_pending cb client_id 0 0 x of None \<Rightarrow> None
      | Some (n, c, b) \<Rightarrow>
          if ib_busy b \<and> bp_client_id (ib_active b) = client_id then
            let t = ib_active b;
                b1 = release (cancel_at_port can_cancel t b);
                b2 = b1\<lparr>ib_bus_generation := ib_bus_generation b1 + 1\<rparr>
            in map_option (Pair (Suc n)) (start_next ans cb (notify cb t I2C_TRANSACTION_CANCELLED (c, b2)))
          else Some (n, c, b))"

definition i2c_bus_recover :: "port_answer \<Rightarrow> 'c callback \<Rightarrow> bool \<Rightarrow> 'c \<times> i2c_bus \<Rightarrow> ('c \<times> i2c_bus) option" where
  "i2c_bus_recover ans cb can_recover x =
     (case x of (c, b) \<Rightarrow>
       let t = ib_active b;
           b1 = (if can_recover then emit (Port_recover (ib_bus_generation b + 1)) b else b);
           b2 = (release b1)\<lparr>ib_bus_generation := ib_bus_generation b + 1, ib_recovery_count := ib_recovery_count b + 1\<rparr>
       in start_next ans cb (if ib_busy b then notify cb t I2C_TRANSACTION_CANCELLED (c, b2) else (c, b2)))"

definition i2c_bus_pending_count :: "i2c_bus \<Rightarrow> nat" where
  "i2c_bus_pending_count b = length (ib_pending b)"

definition i2c_bus_active :: "i2c_bus \<Rightarrow> i2c_pending option" where
  "i2c_bus_active b = (if ib_busy b then Some (ib_active b) else None)"

section \<open>Outstanding transactions\<close>

text \<open>What identifies a transaction to its client; the bus generation is assigned when it starts.\<close>

type_synonym transaction_key = "u32 \<times> u32 \<times> u32 \<times> u32"

definition key :: "i2c_pending \<Rightarrow> transaction_key" where
  "key t = (bp_client_id t, bp_transaction_id t, bp_correlation_id t, bp_client_generation t)"

definition keys :: "i2c_bus \<Rightarrow> transaction_key multiset" where
  "keys b = (if ib_busy b then {#key (ib_active b)#} else {#}) + mset (map key (ib_pending b))"

definition accepted_ids :: "i2c_bus \<Rightarrow> u32 list" where
  "accepted_ids b = List.map_filter (\<lambda>e. case e of Accepted i \<Rightarrow> Some i | _ \<Rightarrow> None) (ib_trace b)"

definition notified_ids :: "i2c_bus \<Rightarrow> u32 list" where
  "notified_ids b = List.map_filter (\<lambda>e. case e of Notify n \<Rightarrow> Some (bn_transaction_id n) | _ \<Rightarrow> None) (ib_trace b)"

text \<open>Every accepted transaction has been answered, is outstanding, or is one of \<open>K\<close>, whose answer is due now.\<close>

definition owing :: "transaction_key multiset \<Rightarrow> i2c_bus \<Rightarrow> bool" where
  "owing K b \<longleftrightarrow> mset (accepted_ids b) = mset (notified_ids b) + image_mset (fst \<circ> snd) (keys b + K) \<and>
     (\<forall>k \<in># keys b + K. find_client b (fst k) \<noteq> None) \<and> (\<forall>cl \<in> set (ib_clients b). bc_on_complete cl) \<and>
     length (ib_pending b) \<le> I2C_BUS_PENDING_CAPACITY"

lemma key_generation [simp]: "key (t\<lparr>bp_bus_generation := g\<rparr>) = key t"
  by (simp add: key_def)

lemma emit_sel [simp]:
  "ib_busy (emit e b) = ib_busy b" "ib_active (emit e b) = ib_active b" "ib_pending (emit e b) = ib_pending b"
  "ib_clients (emit e b) = ib_clients b" "ib_trace (emit e b) = ib_trace b @ [e]" "ib_bus_generation (emit e b) = ib_bus_generation b"
  "ib_port_bound (emit e b) = ib_port_bound b"
  by (simp_all add: emit_def)

lemma keys_emit [simp]: "keys (emit e b) = keys b"
  by (simp add: keys_def)

text \<open>Bookkeeping that keeps the transactions, the clients and the answers.\<close>

definition same_work :: "i2c_bus \<Rightarrow> i2c_bus \<Rightarrow> bool" where
  "same_work b b' \<longleftrightarrow> keys b' = keys b \<and> ib_clients b' = ib_clients b \<and> length (ib_pending b') = length (ib_pending b) \<and>
     accepted_ids b' = accepted_ids b \<and> notified_ids b' = notified_ids b"

lemma owing_same: "same_work b b' \<Longrightarrow> owing K b' = owing K b"
  by (simp add: same_work_def owing_def find_client_def)

lemma ids_emit [simp]:
  "accepted_ids (emit (Accepted i) b) = accepted_ids b @ [i]"
  "accepted_ids (emit (Notify n) b) = accepted_ids b"
  "accepted_ids (emit (Port_submit q a) b) = accepted_ids b"
  "accepted_ids (emit (Port_cancel u v) b) = accepted_ids b"
  "accepted_ids (emit (Port_recover u) b) = accepted_ids b"
  "notified_ids (emit (Accepted i) b) = notified_ids b"
  "notified_ids (emit (Notify n) b) = notified_ids b @ [bn_transaction_id n]"
  "notified_ids (emit (Port_submit q a) b) = notified_ids b"
  "notified_ids (emit (Port_cancel u v) b) = notified_ids b"
  "notified_ids (emit (Port_recover u) b) = notified_ids b"
  by (simp_all add: accepted_ids_def notified_ids_def map_filter_def)

lemma ids_trace: "ib_trace b' = ib_trace b \<Longrightarrow> accepted_ids b' = accepted_ids b \<and> notified_ids b' = notified_ids b"
  by (simp add: accepted_ids_def notified_ids_def)

text \<open>Starting.\<close>

lemma start_transaction_cases:
  assumes "start_transaction ans t b = (started, b')" "\<not> ib_busy b"
  shows "ib_clients b' = ib_clients b" "ib_pending b' = ib_pending b" "accepted_ids b' = accepted_ids b" "notified_ids b' = notified_ids b"
    "ib_busy b' = started" "keys b' = (if started then add_mset (key t) (keys b) else keys b)"
    "started \<Longrightarrow> find_client b (bp_client_id t) \<noteq> None"
  using assms
  by (auto simp: start_transaction_def startable_def Let_def keys_def ids_trace accepted_ids_def notified_ids_def map_filter_def
      split: if_splits option.splits)

lemma keys_remove:
  assumes "i < length (ib_pending b)"
  shows "keys b = add_mset (key (ib_pending b ! i)) (keys (remove_pending i b))"
  using mset_remove_nth [OF assms] by (simp add: keys_def remove_pending_def)

lemma remove_pending_sel [simp]:
  "ib_busy (remove_pending i b) = ib_busy b" "ib_clients (remove_pending i b) = ib_clients b"
  "accepted_ids (remove_pending i b) = accepted_ids b" "notified_ids (remove_pending i b) = notified_ids b"
  "ib_active (remove_pending i b) = ib_active b"
  by (simp_all add: remove_pending_def accepted_ids_def notified_ids_def)

lemma length_remove_pending: "i < length (ib_pending b) \<Longrightarrow> length (ib_pending (remove_pending i b)) = length (ib_pending b) - 1"
  by (simp add: remove_pending_def)

lemma owing_remove:
  assumes "i < length (ib_pending b)" "owing {#} b"
  shows "owing {#key (ib_pending b ! i)#} (remove_pending i b)"
  using assms keys_remove [OF assms(1)] length_remove_pending [OF assms(1)]
  by (auto simp: owing_def find_client_def)

lemma keys_release: "ib_busy b \<Longrightarrow> keys b = add_mset (key (ib_active b)) (keys (release b))"
  by (simp add: keys_def release_def)

lemma release_sel [simp]:
  "ib_clients (release b) = ib_clients b" "ib_pending (release b) = ib_pending b" "\<not> ib_busy (release b)"
  "accepted_ids (release b) = accepted_ids b" "notified_ids (release b) = notified_ids b"
  by (simp_all add: release_def accepted_ids_def notified_ids_def)

lemma owing_release: "ib_busy b \<Longrightarrow> owing {#} b \<Longrightarrow> owing {#key (ib_active b)#} (release b)"
  using keys_release [of b] by (auto simp: owing_def find_client_def)

lemma best_pending_lt: "ps \<noteq> [] \<Longrightarrow> best_pending_index ps < length ps"
proof -
  have "ps \<noteq> [] \<Longrightarrow> best < length ps \<Longrightarrow> \<forall>i \<in> set is. i < length ps \<Longrightarrow>
     foldl (\<lambda>best i. if better (ps ! i) (ps ! best) then i else best) best is < length ps" for "is" best
    by (induction "is" arbitrary: best) auto
  then show "ps \<noteq> [] \<Longrightarrow> best_pending_index ps < length ps" by (simp add: best_pending_index_def)
qed

section \<open>Submission\<close>

lemma take_id_same:
  "take_transaction_id b = (tid, b') \<Longrightarrow> same_work b b' \<and> ib_busy b' = ib_busy b \<and> ib_pending b' = ib_pending b"
  by (auto simp: take_transaction_id_def same_work_def keys_def accepted_ids_def notified_ids_def split: if_splits)

text \<open>An accepted submission adds one transaction of its client, a refused one adds nothing.\<close>

lemma submit_cases:
  assumes "i2c_bus_submit ans r b = (res, tid, b')"
  shows "ib_clients b' = ib_clients b" "notified_ids b' = notified_ids b"
    "res \<noteq> I2C_SUBMIT_ACCEPTED \<Longrightarrow> keys b' = keys b \<and> accepted_ids b' = accepted_ids b \<and> ib_pending b' = ib_pending b"
    "res = I2C_SUBMIT_ACCEPTED \<Longrightarrow> keys b' = add_mset (br_client_id r, tid, br_correlation_id r, br_client_generation r) (keys b) \<and>
       accepted_ids b' = accepted_ids b @ [tid] \<and> find_client b (br_client_id r) \<noteq> None"
    "length (ib_pending b) \<le> I2C_BUS_PENDING_CAPACITY \<Longrightarrow> length (ib_pending b') \<le> I2C_BUS_PENDING_CAPACITY"
    "ib_busy b \<Longrightarrow> ib_busy b'"
    "\<not> ib_busy b \<Longrightarrow> ib_pending b' = ib_pending b"
proof -
  have "ib_clients b' = ib_clients b \<and> notified_ids b' = notified_ids b \<and>
    (res \<noteq> I2C_SUBMIT_ACCEPTED \<longrightarrow> keys b' = keys b \<and> accepted_ids b' = accepted_ids b \<and> ib_pending b' = ib_pending b) \<and>
    (res = I2C_SUBMIT_ACCEPTED \<longrightarrow> keys b' = add_mset (br_client_id r, tid, br_correlation_id r, br_client_generation r) (keys b) \<and>
       accepted_ids b' = accepted_ids b @ [tid] \<and> find_client b (br_client_id r) \<noteq> None) \<and>
    (length (ib_pending b) \<le> I2C_BUS_PENDING_CAPACITY \<longrightarrow> length (ib_pending b') \<le> I2C_BUS_PENDING_CAPACITY) \<and>
    (ib_busy b \<longrightarrow> ib_busy b') \<and> (\<not> ib_busy b \<longrightarrow> ib_pending b' = ib_pending b)"
  proof (cases "\<exists>cl. find_client b (br_client_id r) = Some cl \<and> i2c_bus_submit ans r b = admit ans r b")
    case False
    then have "res \<noteq> I2C_SUBMIT_ACCEPTED \<and> b' = b"
      using assms by (auto simp: i2c_bus_submit_def split: if_splits option.splits)
    then show ?thesis by simp
  next
    case True
    then have cl: "find_client b (br_client_id r) \<noteq> None" and ad: "admit ans r b = (res, tid, b')" using assms by auto
    obtain i b1 where ti: "take_transaction_id b = (i, b1)" by fastforce
    let ?t = "new_pending r i b1" and ?b2 = "b1\<lparr>ib_next_admission_sequence := ib_next_admission_sequence b1 + 1\<rparr>"
    have s: "same_work b b1" "ib_busy b1 = ib_busy b" "ib_pending b1 = ib_pending b" using take_id_same [OF ti] by simp_all
    have k: "key ?t = (br_client_id r, i, br_correlation_id r, br_client_generation r)" by (simp add: key_def new_pending_def)
    have s2: "keys ?b2 = keys b" "ib_clients ?b2 = ib_clients b" "accepted_ids ?b2 = accepted_ids b" "notified_ids ?b2 = notified_ids b"
    proof -
      have "keys ?b2 = keys b1" "ib_clients ?b2 = ib_clients b1" "accepted_ids ?b2 = accepted_ids b1" "notified_ids ?b2 = notified_ids b1"
        by (simp_all add: keys_def accepted_ids_def notified_ids_def)
      then show "keys ?b2 = keys b" "ib_clients ?b2 = ib_clients b" "accepted_ids ?b2 = accepted_ids b" "notified_ids ?b2 = notified_ids b"
        using s(1) by (simp_all add: same_work_def)
    qed
    show ?thesis
    proof (cases "ib_busy b")
      case False
      obtain started b3 where st: "start_transaction ans ?t ?b2 = (started, b3)" by fastforce
      have nb: "\<not> ib_busy ?b2" using False s by simp
      note sc = start_transaction_cases [OF st nb]
      have ad': "(if \<not> started then (I2C_SUBMIT_PORT_ERROR, 0, b3\<lparr>ib_rejected_count := ib_rejected_count b3 + 1\<rparr>)
          else (I2C_SUBMIT_ACCEPTED, i, emit (Accepted i) b3)) = (res, tid, b')"
        using ad nb st by (simp add: admit_def ti)
      have tr: "keys (b3\<lparr>ib_rejected_count := n\<rparr>) = keys b3" "accepted_ids (b3\<lparr>ib_rejected_count := n\<rparr>) = accepted_ids b3"
        "notified_ids (b3\<lparr>ib_rejected_count := n\<rparr>) = notified_ids b3" for n
        by (simp_all add: keys_def accepted_ids_def notified_ids_def)
      show ?thesis using ad' sc s s2 k cl False tr by (auto split: if_splits)
    next
      case True
      have ad': "(if length (ib_pending b) \<ge> I2C_BUS_PENDING_CAPACITY
          then (I2C_SUBMIT_NO_CAPACITY, 0, ?b2\<lparr>ib_rejected_count := ib_rejected_count ?b2 + 1\<rparr>)
          else (I2C_SUBMIT_ACCEPTED, i, emit (Accepted i)
             (?b2\<lparr>ib_pending := ib_pending ?b2 @ [?t], ib_arbitration_count := ib_arbitration_count ?b2 + 1\<rparr>))) = (res, tid, b')"
        using ad True s by (simp add: admit_def ti Let_def)
      show ?thesis
      proof (cases "length (ib_pending b) \<ge> I2C_BUS_PENDING_CAPACITY")
        case full: True
        then have b': "res = I2C_SUBMIT_NO_CAPACITY" "b' = ?b2\<lparr>ib_rejected_count := ib_rejected_count ?b2 + 1\<rparr>" using ad' by auto
        have "keys b' = keys ?b2" "accepted_ids b' = accepted_ids ?b2" "notified_ids b' = notified_ids ?b2"
          by (simp_all add: b' keys_def accepted_ids_def notified_ids_def)
        then show ?thesis using b' s s2 True by simp
      next
        case room: False
        let ?b3 = "?b2\<lparr>ib_pending := ib_pending ?b2 @ [?t], ib_arbitration_count := ib_arbitration_count ?b2 + 1\<rparr>"
        have b': "res = I2C_SUBMIT_ACCEPTED" "tid = i" "b' = emit (Accepted i) ?b3" using ad' room by auto
        have "keys ?b3 = add_mset (key ?t) (keys ?b2)" "accepted_ids ?b3 = accepted_ids ?b2" "notified_ids ?b3 = notified_ids ?b2"
          by (simp_all add: keys_def accepted_ids_def notified_ids_def)
        then show ?thesis using b' s s2 True room k cl by simp
      qed
    qed
  qed
  then show "ib_clients b' = ib_clients b" "notified_ids b' = notified_ids b"
    "res \<noteq> I2C_SUBMIT_ACCEPTED \<Longrightarrow> keys b' = keys b \<and> accepted_ids b' = accepted_ids b \<and> ib_pending b' = ib_pending b"
    "res = I2C_SUBMIT_ACCEPTED \<Longrightarrow> keys b' = add_mset (br_client_id r, tid, br_correlation_id r, br_client_generation r) (keys b) \<and>
       accepted_ids b' = accepted_ids b @ [tid] \<and> find_client b (br_client_id r) \<noteq> None"
    "length (ib_pending b) \<le> I2C_BUS_PENDING_CAPACITY \<Longrightarrow> length (ib_pending b') \<le> I2C_BUS_PENDING_CAPACITY"
    "ib_busy b \<Longrightarrow> ib_busy b'"
    "\<not> ib_busy b \<Longrightarrow> ib_pending b' = ib_pending b" by blast+
qed

lemma owing_submit:
  assumes "i2c_bus_submit ans r b = (res, tid, b')" "owing K b"
  shows "owing K b'"
proof (cases "res = I2C_SUBMIT_ACCEPTED")
  case True
  then show ?thesis using submit_cases [OF assms(1)] assms(2) by (auto simp: owing_def find_client_def)
next
  case False
  then show ?thesis using submit_cases [OF assms(1)] assms(2) by (auto simp: owing_def find_client_def)
qed

section \<open>Clients that submit in their callbacks\<close>

text \<open>
  What the manager relies on: a callback uses the bus by submitting only, and only after a success.
  \<open>R\<close> relates the state of the clients to the transactions they wait for; a callback that is told the
  result of one of them keeps the relation for the others and those it submits.
\<close>

definition submitted :: "port_answer \<Rightarrow> i2c_bus_request list \<Rightarrow> i2c_bus \<Rightarrow> i2c_bus" where
  "submitted ans rs b = foldl (\<lambda>b r. snd (snd (i2c_bus_submit ans r b))) b rs"

lemma owing_submitted: "owing K b \<Longrightarrow> owing K (submitted ans rs b)"
proof (induction rs arbitrary: b)
  case (Cons r rs)
  have "owing K (snd (snd (i2c_bus_submit ans r b)))"
    using owing_submit [of ans r b] Cons.prems by (cases "i2c_bus_submit ans r b") auto
  then show ?case using Cons.IH by (simp add: submitted_def)
qed (simp add: submitted_def)

text \<open>At rest nothing is due and the bus is not idle while a transaction is pending.\<close>

definition working :: "i2c_bus \<Rightarrow> bool" where
  "working b \<longleftrightarrow> owing {#} b \<and> (ib_pending b \<noteq> [] \<longrightarrow> ib_busy b)"

locale bus_clients =
  fixes ans :: port_answer and cb :: "'c callback" and R :: "'c \<Rightarrow> transaction_key multiset \<Rightarrow> bool"
  assumes cb_answers: "R c (add_mset (key t) (keys b)) \<Longrightarrow> cb (completion_of t r) c b = (c', b') \<Longrightarrow> R c' (keys b')"
    and cb_submits: "\<exists>rs. snd (cb n c b) = submitted ans rs b"
    and cb_quiet: "bn_result n \<noteq> I2C_TRANSACTION_OK \<Longrightarrow> snd (cb n c b) = b"
begin

lemma notify_settles:
  assumes R: "R c (add_mset (key t) (keys b))" and ow: "owing {#key t#} b" and n: "notify cb t r (c, b) = (c', b')"
  shows "R c' (keys b')" "owing {#} b'"
    "r \<noteq> I2C_TRANSACTION_OK \<Longrightarrow> ib_pending b' = ib_pending b \<and> ib_busy b' = ib_busy b \<and> keys b' = keys b \<and> ib_active b' = ib_active b"
proof -
  let ?k = "completion_of t r"
  obtain cl where cl: "find_client b (bp_client_id t) = Some cl" using ow by (auto simp: owing_def key_def)
  then have "cl \<in> set (ib_clients b)" by (auto simp: find_client_def find_Some_iff)
  then have "bc_on_complete cl" using ow by (simp add: owing_def)
  then have e: "cb ?k c (emit (Notify ?k) b) = (c', b')" using n cl by (simp add: notify_def)
  show "R c' (keys b')" by (rule cb_answers [OF _ e]) (simp add: R)
  have "owing {#} (emit (Notify ?k) b)"
    using ow by (auto simp: owing_def find_client_def key_def completion_of_def)
  then show "owing {#} b'" using cb_submits [of ?k c "emit (Notify ?k) b"] owing_submitted e by auto
  show "ib_pending b' = ib_pending b \<and> ib_busy b' = ib_busy b \<and> keys b' = keys b \<and> ib_active b' = ib_active b"
    if "r \<noteq> I2C_TRANSACTION_OK"
    using cb_quiet [of ?k c "emit (Notify ?k) b"] that e by (simp add: completion_of_def)
qed

text \<open>The loop ends, and it ends with a busy bus or with nothing pending; it adds no transaction.\<close>

lemma start_next_settles:
  assumes "R c (keys b)" "owing {#} b"
  shows "\<exists>c' b'. start_next ans cb (c, b) = Some (c', b') \<and> R c' (keys b') \<and> working b' \<and> keys b' \<subseteq># keys b"
  using assms
proof (induction "length (ib_pending b)" arbitrary: c b rule: less_induct)
  case less
  show ?case
  proof (cases "ib_busy b \<or> ib_pending b = []")
    case True
    then show ?thesis using less.prems by (subst start_next.simps) (auto simp: working_def)
  next
    case False
    define i t b0 where "i = best_pending_index (ib_pending b)" and "t = ib_pending b ! i" and "b0 = remove_pending i b"
    have i: "i < length (ib_pending b)" using best_pending_lt False by (simp add: i_def)
    have ow0: "owing {#key t#} b0" unfolding t_def b0_def by (rule owing_remove [OF i less.prems(2)])
    have k0: "keys b = add_mset (key t) (keys b0)" unfolding t_def b0_def by (rule keys_remove [OF i])
    obtain started b1 where st: "start_transaction ans t b0 = (started, b1)" by fastforce
    have nb: "\<not> ib_busy b0" using False by (simp add: b0_def)
    note sc = start_transaction_cases [OF st nb]
    have step: "start_next ans cb (c, b) = (if started then Some (c, b1)
        else start_next ans cb (notify cb t I2C_TRANSACTION_FAILED (c, b1\<lparr>ib_rejected_count := ib_rejected_count b1 + 1\<rparr>)))"
      using False st by (subst start_next.simps) (simp add: i_def [symmetric] t_def [symmetric] b0_def [symmetric])
    show ?thesis
    proof (cases started)
      case True
      have "keys b1 = keys b" using sc(6) True k0 by simp
      moreover have "owing {#} b1" using ow0 sc True by (auto simp: owing_def find_client_def)
      ultimately show ?thesis using step True less.prems(1) sc(5) by (simp add: working_def)
    next
      case False
      let ?b2 = "b1\<lparr>ib_rejected_count := ib_rejected_count b1 + 1\<rparr>"
      have e2: "keys ?b2 = keys b0" "ib_pending ?b2 = ib_pending b0" "ib_clients ?b2 = ib_clients b0" "accepted_ids ?b2 = accepted_ids b0"
        "notified_ids ?b2 = notified_ids b0"
        using sc False by (simp_all add: keys_def accepted_ids_def notified_ids_def)
      obtain c' b' where n: "notify cb t I2C_TRANSACTION_FAILED (c, ?b2) = (c', b')" by fastforce
      have "owing {#key t#} ?b2" using ow0 e2 by (simp add: owing_def find_client_def)
      then have "R c' (keys b')" "owing {#} b'" "ib_pending b' = ib_pending b0"
        using notify_settles [OF _ _ n] less.prems(1) k0 e2 by auto
      moreover have "length (ib_pending b0) < length (ib_pending b)"
        using length_remove_pending [OF i] i by (simp add: b0_def)
      moreover have "keys b' = keys b0" using notify_settles(3) [OF _ _ n] less.prems(1) k0 e2 ow0 by (simp add: owing_def find_client_def)
      then have "keys b' \<subseteq># keys b" using k0 by simp
      ultimately show ?thesis using less.hyps [of b' c'] step False n by (auto intro: subset_mset.order_trans)
    qed
  qed
qed

lemma answer_settles:
  assumes "R c (add_mset (key t) (keys b))" "owing {#key t#} b"
  shows "\<exists>c' b'. start_next ans cb (notify cb t r (c, b)) = Some (c', b') \<and> R c' (keys b') \<and> working b' \<and>
    (r \<noteq> I2C_TRANSACTION_OK \<longrightarrow> keys b' \<subseteq># keys b)"
proof -
  obtain c1 b1 where n: "notify cb t r (c, b) = (c1, b1)" by fastforce
  show ?thesis using start_next_settles [of c1 b1] notify_settles [OF assms n] n by auto
qed

text \<open>The active transaction leaves the bus with a result.\<close>

lemma released_settles:
  assumes R: "R c (keys b)" and ow: "owing {#} b" and busy: "ib_busy b"
    and b2: "keys b2 = keys (release b)" "ib_clients b2 = ib_clients b" "ib_pending b2 = ib_pending b"
      "accepted_ids b2 = accepted_ids b" "notified_ids b2 = notified_ids b"
  shows "\<exists>c' b'. start_next ans cb (notify cb (ib_active b) r (c, b2)) = Some (c', b') \<and> R c' (keys b') \<and> working b' \<and>
    (r \<noteq> I2C_TRANSACTION_OK \<longrightarrow> keys b' \<subseteq># keys (release b))"
  unfolding b2(1) [symmetric]
proof (rule answer_settles)
  show "R c (add_mset (key (ib_active b)) (keys b2))" using R keys_release [OF busy] b2 by simp
  show "owing {#key (ib_active b)#} b2" using owing_release [OF busy ow] b2 by (simp add: owing_def find_client_def)
qed

lemma complete_settles:
  assumes R: "R c (keys b)" and w: "working b"
  shows "\<exists>ok c' b'. i2c_bus_complete ans cb tid corr cgen bgen r (c, b) = Some (ok, c', b') \<and> R c' (keys b') \<and> working b'"
proof (cases "\<not> ib_busy b \<or> bgen \<noteq> ib_bus_generation b \<or> tid \<noteq> bp_transaction_id (ib_active b)
          \<or> corr \<noteq> bp_correlation_id (ib_active b) \<or> cgen \<noteq> bp_client_generation (ib_active b)")
  case True
  let ?b = "b\<lparr>ib_stale_completion_count := ib_stale_completion_count b + 1\<rparr>"
  have "keys ?b = keys b" "accepted_ids ?b = accepted_ids b" "notified_ids ?b = notified_ids b"
    by (simp_all add: keys_def accepted_ids_def notified_ids_def)
  then have "R c (keys ?b)" "working ?b" using R w by (simp_all add: working_def owing_def find_client_def)
  then show ?thesis using True by (auto simp: i2c_bus_complete_def)
next
  case False
  let ?b1 = "release b"
  let ?b2 = "if r = I2C_TRANSACTION_TIMEOUT then ?b1\<lparr>ib_timeout_count := ib_timeout_count ?b1 + 1\<rparr>
                   else if r = I2C_TRANSACTION_OK then ?b1\<lparr>ib_completed_count := ib_completed_count ?b1 + 1\<rparr> else ?b1"
  have busy: "ib_busy b" using False by blast
  have "\<exists>c' b'. start_next ans cb (notify cb (ib_active b) r (c, ?b2)) = Some (c', b') \<and> R c' (keys b') \<and> working b' \<and>
    (r \<noteq> I2C_TRANSACTION_OK \<longrightarrow> keys b' \<subseteq># keys (release b))"
    by (rule released_settles [OF R _ busy]) (use w in \<open>auto simp: working_def keys_def release_def accepted_ids_def notified_ids_def\<close>)
  then show ?thesis using False by (auto simp: i2c_bus_complete_def Let_def)
qed

lemma tick_settles:
  assumes R: "R c (keys b)" and w: "working b"
  shows "\<exists>ok c' b'. i2c_bus_tick ans cb cancel now (c, b) = Some (ok, c', b') \<and> R c' (keys b') \<and> working b'"
proof (cases "\<not> ib_busy b \<or> now < bp_deadline_us (ib_active b)")
  case True
  then show ?thesis using R w by (auto simp: i2c_bus_tick_def)
next
  case False
  let ?b1 = "release (cancel_at_port cancel (ib_active b) b)"
  let ?b2 = "?b1\<lparr>ib_bus_generation := ib_bus_generation ?b1 + 1, ib_timeout_count := ib_timeout_count ?b1 + 1\<rparr>"
  have "\<exists>c' b'. start_next ans cb (notify cb (ib_active b) I2C_TRANSACTION_TIMEOUT (c, ?b2)) = Some (c', b') \<and> R c' (keys b') \<and> working b' \<and>
    (I2C_TRANSACTION_TIMEOUT \<noteq> I2C_TRANSACTION_OK \<longrightarrow> keys b' \<subseteq># keys (release b))"
    by (rule released_settles [OF R])
      (use w False in \<open>auto simp: working_def keys_def release_def accepted_ids_def notified_ids_def cancel_at_port_def emit_def map_filter_def\<close>)
  then show ?thesis using False by (auto simp: i2c_bus_tick_def Let_def)
qed

lemma recover_settles:
  assumes R: "R c (keys b)" and w: "working b"
  shows "\<exists>c' b'. i2c_bus_recover ans cb can (c, b) = Some (c', b') \<and> R c' (keys b') \<and> working b'"
proof -
  let ?b1 = "if can then emit (Port_recover (ib_bus_generation b + 1)) b else b"
  let ?b2 = "(release ?b1)\<lparr>ib_bus_generation := ib_bus_generation b + 1, ib_recovery_count := ib_recovery_count b + 1\<rparr>"
  have ow: "owing {#} b" using w by (simp add: working_def)
  have s: "keys ?b2 = keys (release b)" "ib_clients ?b2 = ib_clients b" "ib_pending ?b2 = ib_pending b"
      "accepted_ids ?b2 = accepted_ids b" "notified_ids ?b2 = notified_ids b"
    by (auto simp: keys_def release_def accepted_ids_def notified_ids_def emit_def map_filter_def)
  show ?thesis
  proof (cases "ib_busy b")
    case True
    then show ?thesis using released_settles [OF R ow True s, of I2C_TRANSACTION_CANCELLED] by (auto simp: i2c_bus_recover_def Let_def)
  next
    case False
    then have "keys ?b2 = keys b" by (simp add: keys_def release_def)
    then have "R c (keys ?b2)" "owing {#} ?b2" using R ow s by (simp_all add: owing_def find_client_def)
    then show ?thesis using start_next_settles [of c ?b2] False by (auto simp: i2c_bus_recover_def Let_def)
  qed
qed

lemma cancel_pending_settles:
  assumes "R c (keys b)" "working b" "\<forall>p \<in> set (take i (ib_pending b)). bp_client_id p \<noteq> cid"
  shows "\<exists>n' c' b'. cancel_pending cb cid i n (c, b) = Some (n', c', b') \<and> R c' (keys b') \<and> working b' \<and>
    (\<forall>p \<in> set (ib_pending b'). bp_client_id p \<noteq> cid)"
  using assms
proof (induction "length (ib_pending b) - i" arbitrary: c b i n rule: less_induct)
  case less
  show ?case
  proof (cases "i \<ge> length (ib_pending b)")
    case True
    then show ?thesis using less.prems by (subst cancel_pending.simps) auto
  next
    case False
    then have i: "i < length (ib_pending b)" by simp
    show ?thesis
    proof (cases "bp_client_id (ib_pending b ! i) = cid")
      case False
      then show ?thesis using less.hyps [of b "Suc i" c n] less.prems i
        by (subst cancel_pending.simps) (auto simp: take_Suc_conv_app_nth)
    next
      case True
      let ?t = "ib_pending b ! i" and ?b0 = "remove_pending i b"
      obtain c' b' where n: "notify cb ?t I2C_TRANSACTION_CANCELLED (c, ?b0) = (c', b')" by fastforce
      have ow: "owing {#} b" using less.prems by (simp add: working_def)
      have s: "R c' (keys b')" "owing {#} b'" "ib_pending b' = ib_pending ?b0" "ib_busy b' = ib_busy b"
        using notify_settles [OF _ owing_remove [OF i ow] n] less.prems(1) keys_remove [OF i] by auto
      have len: "length (ib_pending b') = length (ib_pending b) - 1" using s length_remove_pending [OF i] by simp
      have "working b'" using s less.prems(2) i by (auto simp: working_def)
      moreover have "length (ib_pending b') - i < length (ib_pending b) - i" using len i by linarith
      moreover have "take i (ib_pending b') = take i (ib_pending b)" using i s by (simp add: remove_pending_def remove_nth_def)
      ultimately have "\<exists>n' c'' b''. cancel_pending cb cid i (Suc n) (c', b') = Some (n', c'', b'') \<and> R c'' (keys b'') \<and> working b'' \<and>
          (\<forall>p \<in> set (ib_pending b''). bp_client_id p \<noteq> cid)"
        using less.hyps [of b' i c' "Suc n"] s less.prems(3) by auto
      then show ?thesis using True i n by (subst cancel_pending.simps) auto
    qed
  qed
qed

text \<open>After cancelling, the client has no transaction left.\<close>

lemma cancel_client_settles:
  assumes R: "R c (keys b)" and w: "working b"
  shows "\<exists>n c' b'. i2c_bus_cancel_client ans cb can cid (c, b) = Some (n, c', b') \<and> R c' (keys b') \<and> working b' \<and>
    (\<forall>k \<in># keys b'. fst k \<noteq> cid)"
proof -
  obtain n1 c1 b1 where p: "cancel_pending cb cid 0 0 (c, b) = Some (n1, c1, b1)" and R1: "R c1 (keys b1)" and w1: "working b1"
    and none: "\<forall>p \<in> set (ib_pending b1). bp_client_id p \<noteq> cid"
    using cancel_pending_settles [OF assms, of 0] by force
  have free: "\<forall>k \<in># keys (release b1). fst k \<noteq> cid" using none by (auto simp: keys_def key_def release_def)
  show ?thesis
  proof (cases "ib_busy b1 \<and> bp_client_id (ib_active b1) = cid")
    case True
    let ?b2 = "release (cancel_at_port can (ib_active b1) b1)"
    let ?b3 = "?b2\<lparr>ib_bus_generation := ib_bus_generation ?b2 + 1\<rparr>"
    have "\<exists>c' b'. start_next ans cb (notify cb (ib_active b1) I2C_TRANSACTION_CANCELLED (c1, ?b3)) = Some (c', b') \<and> R c' (keys b') \<and> working b' \<and>
       (I2C_TRANSACTION_CANCELLED \<noteq> I2C_TRANSACTION_OK \<longrightarrow> keys b' \<subseteq># keys (release b1))"
      by (rule released_settles [OF R1])
        (use w1 True in \<open>auto simp: working_def keys_def release_def accepted_ids_def notified_ids_def cancel_at_port_def emit_def map_filter_def\<close>)
    then obtain c' b' where *: "start_next ans cb (notify cb (ib_active b1) I2C_TRANSACTION_CANCELLED (c1, ?b3)) = Some (c', b')"
      "R c' (keys b')" "working b'" "keys b' \<subseteq># keys (release b1)" by auto
    then have "\<forall>k \<in># keys b'. fst k \<noteq> cid" using free by (meson mset_subset_eqD)
    then show ?thesis using True p * by (simp add: i2c_bus_cancel_client_def Let_def)
  next
    case False
    then have "\<forall>k \<in># keys b1. fst k \<noteq> cid" using none by (auto simp: keys_def key_def)
    then show ?thesis using p R1 w1 False by (auto simp: i2c_bus_cancel_client_def)
  qed
qed

end

text \<open>The remaining operations.\<close>

lemma submit_working:
  assumes "i2c_bus_submit ans r b = (res, tid, b')" "working b"
  shows "working b'"
  using owing_submit [OF assms(1)] submit_cases(6,7) [OF assms(1)] assms(2) by (cases "ib_busy b") (auto simp: working_def)

lemma clients_working:
  assumes w: "working b" and all: "\<forall>cl \<in> set cs. bc_on_complete cl"
    and known: "\<And>i. i \<in> bc_client_id ` set (ib_clients b) \<Longrightarrow> i \<in> bc_client_id ` set cs"
  shows "working (b\<lparr>ib_clients := cs\<rparr>)" "keys (b\<lparr>ib_clients := cs\<rparr>) = keys b"
proof -
  have e: "accepted_ids (b\<lparr>ib_clients := cs\<rparr>) = accepted_ids b" "notified_ids (b\<lparr>ib_clients := cs\<rparr>) = notified_ids b"
    by (simp_all add: accepted_ids_def notified_ids_def)
  show k: "keys (b\<lparr>ib_clients := cs\<rparr>) = keys b" by (simp add: keys_def)
  have f: "find (\<lambda>c. bc_client_id c = i) xs \<noteq> None \<longleftrightarrow> i \<in> bc_client_id ` set xs" for i xs
    by (auto simp: find_None_iff)
  have "find_client (b\<lparr>ib_clients := cs\<rparr>) (fst x) \<noteq> None" if "x \<in># keys b" for x
    using that w known [of "fst x"] unfolding working_def owing_def find_client_def f by simp
  then show "working (b\<lparr>ib_clients := cs\<rparr>)" using w all by (simp add: working_def owing_def e k)
qed

lemma register_working:
  assumes "i2c_bus_register_client cl b = (ok, b')" "working b"
  shows "working b'" "keys b' = keys b"
proof -
  have "b' = b \<or> b' = b\<lparr>ib_clients := ib_clients b @ [cl]\<rparr> \<and> bc_on_complete cl"
    using assms(1) by (auto simp: i2c_bus_register_client_def split: if_splits)
  then have "working b' \<and> keys b' = keys b"
  proof (elim disjE conjE)
    assume b': "b' = b\<lparr>ib_clients := ib_clients b @ [cl]\<rparr>" and "bc_on_complete cl"
    then have "\<forall>x \<in> set (ib_clients b @ [cl]). bc_on_complete x" using assms(2) by (simp add: working_def owing_def)
    then show ?thesis unfolding b' using clients_working [OF assms(2)] by simp
  qed (simp add: assms(2))
  then show "working b'" "keys b' = keys b" by simp_all
qed

lemma set_generation_working:
  assumes "i2c_bus_set_client_generation cid g b = (ok, b')" "working b"
  shows "working b'" "keys b' = keys b"
proof -
  let ?cs = "map (\<lambda>cl. if bc_client_id cl = cid then cl\<lparr>bc_client_generation := g\<rparr> else cl) (ib_clients b)"
  have "b' = b \<or> b' = b\<lparr>ib_clients := ?cs\<rparr>"
    using assms(1) by (auto simp: i2c_bus_set_client_generation_def split: if_splits)
  then have "working b' \<and> keys b' = keys b"
  proof (elim disjE)
    assume b': "b' = b\<lparr>ib_clients := ?cs\<rparr>"
    have "map bc_client_id ?cs = map bc_client_id (ib_clients b)" by (auto simp: list_eq_iff_nth_eq)
    then have "set (map bc_client_id ?cs) = set (map bc_client_id (ib_clients b))" by (simp only:)
    then have "bc_client_id ` set ?cs = bc_client_id ` set (ib_clients b)" by (simp only: set_map)
    moreover have "\<forall>x \<in> set ?cs. bc_on_complete x" using assms(2) by (auto simp: working_def owing_def)
    ultimately show ?thesis unfolding b' using clients_working [OF assms(2), of ?cs] by simp
  qed (simp add: assms(2))
  then show "working b'" "keys b' = keys b" by simp_all
qed

section \<open>Arbitration\<close>

lemma better_irrefl: "\<not> better x x"
  by (simp add: better_def)

lemma lex_trans: "p < q \<or> p = q \<and> a < b \<Longrightarrow> q < r \<or> q = r \<and> b < c \<Longrightarrow> p < r \<or> p = r \<and> a < c"
  for p q r :: "'a :: linorder" and a b c :: "'b :: linorder" by auto

lemma lex_cases: "p < r \<or> p = r \<and> a < c \<Longrightarrow> (p < q \<or> p = q \<and> a < b) \<or> (q < r \<or> q = r \<and> b < c)"
  for p q r :: "'a :: linorder" and a b c :: "'b :: linorder" by auto

lemma better_trans: "better x y \<Longrightarrow> better y z \<Longrightarrow> better x z"
  unfolding better_def by (rule lex_trans)

lemma better_cases: "better x z \<Longrightarrow> better x y \<or> better y z"
  unfolding better_def by (rule lex_cases)

lemma best_pending_scan:
  assumes "best < length ps" "\<forall>i \<in> set is. i < length ps"
    and "m = foldl (\<lambda>best i. if better (ps ! i) (ps ! best) then i else best) best is"
  shows "m < length ps \<and> \<not> better (ps ! best) (ps ! m) \<and> (\<forall>i \<in> set is. \<not> better (ps ! i) (ps ! m))"
  using assms
proof (induction "is" arbitrary: best)
  case Nil
  then show ?case by (simp add: better_irrefl)
next
  case (Cons i js)
  define k where "k = (if better (ps ! i) (ps ! best) then i else best)"
  have "k < length ps" "\<forall>i \<in> set js. i < length ps" using Cons.prems by (simp_all add: k_def)
  moreover have "m = foldl (\<lambda>best i. if better (ps ! i) (ps ! best) then i else best) k js"
    using Cons.prems(3) by (simp only: foldl_Cons k_def)
  ultimately have IH: "m < length ps" "\<not> better (ps ! k) (ps ! m)" "\<forall>i \<in> set js. \<not> better (ps ! i) (ps ! m)"
    using Cons.IH by blast+
  have "\<not> better (ps ! best) (ps ! m) \<and> \<not> better (ps ! i) (ps ! m)"
  proof (cases "better (ps ! i) (ps ! best)")
    case True
    then show ?thesis using IH(2) better_trans [OF True] by (auto simp: k_def)
  next
    case False
    then show ?thesis using IH(2) better_cases [of "ps ! i" "ps ! m" "ps ! best"] by (auto simp: k_def)
  qed
  then show ?case using IH by simp
qed

text \<open>No pending transaction is better than the chosen one.\<close>

lemma best_pending_least:
  assumes "i < length ps"
  shows "best_pending_index ps < length ps" "\<not> better (ps ! i) (ps ! best_pending_index ps)"
proof -
  have *: "best_pending_index ps < length ps \<and> \<not> better (ps ! 0) (ps ! best_pending_index ps) \<and>
      (\<forall>i \<in> set [1..<length ps]. \<not> better (ps ! i) (ps ! best_pending_index ps))"
    by (rule best_pending_scan) (use assms in \<open>auto simp: best_pending_index_def\<close>)
  then show "best_pending_index ps < length ps" by blast
  show "\<not> better (ps ! i) (ps ! best_pending_index ps)" using * assms by (cases i) auto
qed

text \<open>When the callback of a completion submits, the new transaction takes the free bus before the
  pending ones are looked at, whatever their priority.\<close>

lemma start_next_busy: "ib_busy b \<Longrightarrow> start_next ans cb (c, b) = Some (c, b)"
  by (subst start_next.simps) simp

end
