(* ===== verification/Fram.thy ===== *)
theory Fram
  imports I2c_Bus Storage_Service
begin

text \<open>
  The F-RAM driver (drivers/storage/fram_driver.c): storage operations split into I2C transactions of
  at most 32 bytes that do not cross a 256-byte page.  It is a client of the bus manager whose
  callback submits the next chunk.

  Addresses of buffers are numbers, the probe byte of the driver has address 0; the data of a write are
  the bytes in the buffer.  Two fields record what the code returns to its own client: the tokens of
  the accepted operations and the completions passed to the callback.
\<close>

unbundle bit_operations_syntax

section \<open>Data\<close>

abbreviation FM24CL04B_SIZE_U16 :: u16 where "FM24CL04B_SIZE_U16 \<equiv> 512"
abbreviation FM24CL04B_PAGE_BYTES :: u16 where "FM24CL04B_PAGE_BYTES \<equiv> 256"
abbreviation FM24CL04B_MAX_CHUNK_BYTES :: u16 where "FM24CL04B_MAX_CHUNK_BYTES \<equiv> 32"

record fram_config =
  fc_client_id :: u32
  fc_slave_address_base :: u8
  fc_capacity_bytes :: u16
  fc_max_chunk_bytes :: u16
  fc_bus_priority :: u8

datatype fram_state = FRAM_STATE_UNINITIALIZED | FRAM_STATE_IDLE | FRAM_STATE_WAITING_I2C | FRAM_STATE_FAULT
datatype fram_operation = FRAM_OPERATION_NONE | FRAM_OPERATION_PROBE | FRAM_OPERATION_READ | FRAM_OPERATION_WRITE

record fram_driver =
  fr_config :: fram_config
  fr_state :: fram_state
  fr_operation :: fram_operation
  fr_client_generation :: u32
  fr_token :: storage_operation_token
  fr_start_address :: u16
  fr_current_address :: u16
  fr_requested_length :: u16
  fr_transferred_length :: u16
  fr_active_chunk_length :: u16
  fr_deadline_us :: u64
  fr_active_transaction_id :: u32
  fr_last_bus_generation :: u32
  fr_read_buffer :: "u32 option"
  fr_write_buffer :: "bytes option"
  fr_tx_buffer :: bytes
  fr_probe_page :: u8
  fr_completion_bound :: bool
  fr_submitted_count :: u32
  fr_completed_count :: u32
  fr_timeout_count :: u32
  fr_bus_error_count :: u32
  fr_stale_count :: u32
  fr_cancelled_count :: u32
  fr_range_error_count :: u32
  fr_accepted :: "storage_operation_token list"
  fr_completions :: "storage_io_completion list"

definition token_is_valid :: "storage_operation_token \<Rightarrow> bool" where
  "token_is_valid t \<longleftrightarrow> tk_operation_id t \<noteq> 0 \<and> tk_correlation_id t \<noteq> 0 \<and> tk_owner_generation t \<noteq> 0"

definition config_is_valid :: "fram_config \<Rightarrow> bool" where
  "config_is_valid c \<longleftrightarrow> fc_client_id c \<noteq> 0 \<and> fc_capacity_bytes c = FM24CL04B_SIZE_U16 \<and> fc_max_chunk_bytes c \<noteq> 0 \<and>
     fc_max_chunk_bytes c \<le> FM24CL04B_MAX_CHUNK_BYTES \<and>
     fc_slave_address_base c AND 0x78 = 0x50 \<and> fc_slave_address_base c AND 1 = 0"

definition range_is_valid :: "u16 \<Rightarrow> u16 \<Rightarrow> bool" where
  "range_is_valid address len =
     (if len = 0 then address \<le> FM24CL04B_SIZE_U16
      else address < FM24CL04B_SIZE_U16 \<and> len \<le> FM24CL04B_SIZE_U16 - address)"

definition slave_address :: "fram_driver \<Rightarrow> u16 \<Rightarrow> u8" where
  "slave_address d address = fc_slave_address_base (fr_config d) OR ucast (drop_bit 8 address AND 1)"

definition chunk_length :: "fram_driver \<Rightarrow> u16" where
  "chunk_length d =
     (let remaining = fr_requested_length d - fr_transferred_length d;
          page_remaining = FM24CL04B_PAGE_BYTES - (fr_current_address d AND (FM24CL04B_PAGE_BYTES - 1));
          chunk = (if remaining > fc_max_chunk_bytes (fr_config d) then fc_max_chunk_bytes (fr_config d) else remaining)
      in if chunk > page_remaining then page_remaining else chunk)"

fun map_result :: "i2c_transaction_result \<Rightarrow> storage_io_result" where
  "map_result I2C_TRANSACTION_OK = STORAGE_IO_RESULT_OK"
| "map_result I2C_TRANSACTION_TIMEOUT = STORAGE_IO_RESULT_TIMEOUT"
| "map_result I2C_TRANSACTION_CANCELLED = STORAGE_IO_RESULT_CANCELLED"
| "map_result I2C_TRANSACTION_STALE = STORAGE_IO_RESULT_STALE"
| "map_result _ = STORAGE_IO_RESULT_BUS_ERROR"

definition reset_operation :: "fram_driver \<Rightarrow> fram_driver" where
  "reset_operation d =
     d\<lparr>fr_state := FRAM_STATE_IDLE, fr_operation := FRAM_OPERATION_NONE, fr_token := zero_token, fr_start_address := 0,
       fr_current_address := 0, fr_requested_length := 0, fr_transferred_length := 0, fr_active_chunk_length := 0,
       fr_deadline_us := 0, fr_active_transaction_id := 0, fr_read_buffer := None, fr_write_buffer := None,
       fr_probe_page := 0\<rparr>"

definition storage_completion :: "fram_driver \<Rightarrow> storage_io_result \<Rightarrow> storage_io_completion" where
  "storage_completion d r =
     \<lparr>ic_token = fr_token d, ic_result = r, ic_requested_length = unat (fr_requested_length d),
      ic_transferred_length = unat (fr_transferred_length d), ic_last_transaction_id = fr_active_transaction_id d,
      ic_client_generation = fr_client_generation d, ic_bus_generation = fr_last_bus_generation d\<rparr>"

fun count_result :: "storage_io_result \<Rightarrow> fram_driver \<Rightarrow> fram_driver" where
  "count_result STORAGE_IO_RESULT_OK d = d\<lparr>fr_completed_count := fr_completed_count d + 1\<rparr>"
| "count_result STORAGE_IO_RESULT_TIMEOUT d = d\<lparr>fr_timeout_count := fr_timeout_count d + 1\<rparr>"
| "count_result STORAGE_IO_RESULT_CANCELLED d = d\<lparr>fr_cancelled_count := fr_cancelled_count d + 1\<rparr>"
| "count_result STORAGE_IO_RESULT_STALE d = d\<lparr>fr_stale_count := fr_stale_count d + 1\<rparr>"
| "count_result _ d = d\<lparr>fr_bus_error_count := fr_bus_error_count d + 1\<rparr>"

definition emit_completion :: "storage_io_result \<Rightarrow> fram_driver \<Rightarrow> fram_driver" where
  "emit_completion r d =
     (let d1 = reset_operation (count_result r d)
      in if fr_completion_bound d1 then d1\<lparr>fr_completions := fr_completions d1 @ [storage_completion d r]\<rparr> else d1)"

fun map_submit_result :: "i2c_submit_result \<Rightarrow> storage_io_submit_result" where
  "map_submit_result I2C_SUBMIT_ACCEPTED = STORAGE_IO_SUBMIT_ACCEPTED"
| "map_submit_result I2C_SUBMIT_NO_CAPACITY = STORAGE_IO_SUBMIT_NO_CAPACITY"
| "map_submit_result I2C_SUBMIT_INVALID_PARAM = STORAGE_IO_SUBMIT_INVALID_PARAM"
| "map_submit_result I2C_SUBMIT_ADDRESS_REJECTED = STORAGE_IO_SUBMIT_INVALID_PARAM"
| "map_submit_result I2C_SUBMIT_NOT_READY = STORAGE_IO_SUBMIT_NOT_READY"
| "map_submit_result I2C_SUBMIT_UNKNOWN_CLIENT = STORAGE_IO_SUBMIT_NOT_READY"
| "map_submit_result I2C_SUBMIT_PORT_ERROR = STORAGE_IO_SUBMIT_BUSY"

section \<open>Operations\<close>

text \<open>The chunk that is about to be sent: the driver with its buffer filled, and the request.\<close>

definition current_address :: "fram_driver \<Rightarrow> u16" where
  "current_address d =
     (if fr_operation d = FRAM_OPERATION_PROBE then (if fr_probe_page d = 0 then 0 else FM24CL04B_PAGE_BYTES)
      else fr_current_address d)"

definition prepare_chunk :: "fram_driver \<Rightarrow> fram_driver" where
  "prepare_chunk d =
     (let n = (if fr_operation d = FRAM_OPERATION_PROBE then 1 else chunk_length d);
          body = (if fr_operation d = FRAM_OPERATION_PROBE \<or> fr_operation d = FRAM_OPERATION_READ then tl (fr_tx_buffer d)
                  else take (unat n) (drop (unat (fr_transferred_length d)) (the (fr_write_buffer d)))
                         @ drop (unat n) (tl (fr_tx_buffer d)))
      in d\<lparr>fr_active_chunk_length := n, fr_tx_buffer := ucast (current_address d AND 0xFF) # body\<rparr>)"

definition chunk_request :: "fram_driver \<Rightarrow> i2c_bus_request" where
  "chunk_request d =
     \<lparr>br_client_id = fc_client_id (fr_config d), br_correlation_id = tk_correlation_id (fr_token d),
      br_client_generation = fr_client_generation d, br_slave_address = slave_address d (current_address d),
      br_tx = Some (fr_tx_buffer d),
      br_tx_length = (if fr_operation d = FRAM_OPERATION_PROBE \<or> fr_operation d = FRAM_OPERATION_READ then 1
                      else 1 + fr_active_chunk_length d),
      br_rx = (if fr_operation d = FRAM_OPERATION_PROBE then Some 0
               else if fr_operation d = FRAM_OPERATION_READ then map_option (\<lambda>a. a + ucast (fr_transferred_length d)) (fr_read_buffer d)
               else None),
      br_rx_length = (if fr_operation d = FRAM_OPERATION_PROBE then 1
                      else if fr_operation d = FRAM_OPERATION_READ then fr_active_chunk_length d else 0),
      br_deadline_us = fr_deadline_us d, br_priority = fc_bus_priority (fr_config d)\<rparr>"

definition submit_current_chunk ::
  "port_answer \<Rightarrow> fram_driver \<Rightarrow> i2c_bus \<Rightarrow> storage_io_submit_result \<times> fram_driver \<times> i2c_bus" where
  "submit_current_chunk ans d b =
     (let d1 = prepare_chunk d
      in case i2c_bus_submit ans (chunk_request d1) b of
           (result, tid, b') \<Rightarrow>
             if result \<noteq> I2C_SUBMIT_ACCEPTED then (map_submit_result result, d1, b')
             else (STORAGE_IO_SUBMIT_ACCEPTED,
                   d1\<lparr>fr_active_transaction_id := tid,
                      fr_last_bus_generation :=
                        (case i2c_bus_active b' of
                           Some a \<Rightarrow> if bp_transaction_id a = tid then bp_bus_generation a else ib_bus_generation b'
                         | None \<Rightarrow> ib_bus_generation b'),
                      fr_state := FRAM_STATE_WAITING_I2C\<rparr>, b'))"

definition note_accepted :: "storage_operation_token \<Rightarrow> fram_driver \<Rightarrow> fram_driver" where
  "note_accepted t d = d\<lparr>fr_accepted := fr_accepted d @ [t]\<rparr>"

definition begin_operation ::
  "port_answer \<Rightarrow> fram_operation \<Rightarrow> u16 \<Rightarrow> u32 option \<Rightarrow> bytes option \<Rightarrow> u16 \<Rightarrow> storage_operation_token \<Rightarrow> u64 \<Rightarrow>
   fram_driver \<Rightarrow> i2c_bus \<Rightarrow> storage_io_submit_result \<times> fram_driver \<times> i2c_bus" where
  "begin_operation ans oper address rbuf wbuf len token deadline d b =
     (if fr_state d = FRAM_STATE_UNINITIALIZED \<or> fr_state d = FRAM_STATE_FAULT then (STORAGE_IO_SUBMIT_NOT_READY, d, b)
      else if fr_state d \<noteq> FRAM_STATE_IDLE then (STORAGE_IO_SUBMIT_BUSY, d, b)
      else if \<not> token_is_valid token \<or> deadline = 0 \<or> (len > 0 \<and> oper = FRAM_OPERATION_READ \<and> rbuf = None)
              \<or> (len > 0 \<and> oper = FRAM_OPERATION_WRITE \<and> wbuf = None)
      then (STORAGE_IO_SUBMIT_INVALID_PARAM, d, b)
      else if \<not> range_is_valid address len
      then (STORAGE_IO_SUBMIT_OUT_OF_RANGE, d\<lparr>fr_range_error_count := fr_range_error_count d + 1\<rparr>, b)
      else
        let d1 = d\<lparr>fr_operation := oper, fr_token := token, fr_start_address := address, fr_current_address := address,
                   fr_requested_length := len, fr_transferred_length := 0, fr_deadline_us := deadline,
                   fr_read_buffer := rbuf, fr_write_buffer := wbuf, fr_submitted_count := fr_submitted_count d + 1\<rparr>
        in if len = 0 then (STORAGE_IO_SUBMIT_ACCEPTED, emit_completion STORAGE_IO_RESULT_OK (note_accepted token d1), b)
           else case submit_current_chunk ans d1 b of
                  (result, d2, b') \<Rightarrow>
                    if result \<noteq> STORAGE_IO_SUBMIT_ACCEPTED then (result, reset_operation d2, b')
                    else (result, note_accepted token d2, b'))"

definition fram_init :: "fram_config \<Rightarrow> i2c_bus \<Rightarrow> storage_io_submit_result \<times> fram_driver option \<times> i2c_bus" where
  "fram_init c b =
     (if \<not> config_is_valid c then (STORAGE_IO_SUBMIT_INVALID_PARAM, None, b)
      else
        let d = \<lparr>fr_config = c, fr_state = FRAM_STATE_UNINITIALIZED, fr_operation = FRAM_OPERATION_NONE, fr_client_generation = 1,
                 fr_token = zero_token, fr_start_address = 0, fr_current_address = 0, fr_requested_length = 0,
                 fr_transferred_length = 0, fr_active_chunk_length = 0, fr_deadline_us = 0, fr_active_transaction_id = 0,
                 fr_last_bus_generation = 0, fr_read_buffer = None, fr_write_buffer = None, fr_tx_buffer = replicate 33 0,
                 fr_probe_page = 0, fr_completion_bound = False, fr_submitted_count = 0, fr_completed_count = 0,
                 fr_timeout_count = 0, fr_bus_error_count = 0, fr_stale_count = 0, fr_cancelled_count = 0,
                 fr_range_error_count = 0, fr_accepted = [], fr_completions = []\<rparr>;
            client = \<lparr>bc_client_id = fc_client_id c, bc_client_generation = 1, bc_address_base = fc_slave_address_base c,
                      bc_address_mask = 0x7E, bc_on_complete = True\<rparr>
        in case i2c_bus_register_client client b of
             (ok, b') \<Rightarrow> if \<not> ok then (STORAGE_IO_SUBMIT_NOT_READY, Some d, b')
                        else (STORAGE_IO_SUBMIT_ACCEPTED, Some (d\<lparr>fr_state := FRAM_STATE_IDLE\<rparr>), b'))"

definition fram_probe_async ::
  "port_answer \<Rightarrow> storage_operation_token \<Rightarrow> u64 \<Rightarrow> fram_driver \<Rightarrow> i2c_bus \<Rightarrow> storage_io_submit_result \<times> fram_driver \<times> i2c_bus" where
  "fram_probe_async ans token deadline d b =
     (case begin_operation ans FRAM_OPERATION_PROBE 0 None None 2 token deadline d b of
        (result, d', b') \<Rightarrow> (result, if result = STORAGE_IO_SUBMIT_ACCEPTED then d'\<lparr>fr_probe_page := 0\<rparr> else d', b'))"

definition fram_read_async ::
  "port_answer \<Rightarrow> u16 \<Rightarrow> u32 option \<Rightarrow> u16 \<Rightarrow> storage_operation_token \<Rightarrow> u64 \<Rightarrow> fram_driver \<Rightarrow> i2c_bus \<Rightarrow>
   storage_io_submit_result \<times> fram_driver \<times> i2c_bus" where
  "fram_read_async ans address buffer len token deadline =
     begin_operation ans FRAM_OPERATION_READ address buffer None len token deadline"

definition fram_write_async ::
  "port_answer \<Rightarrow> u16 \<Rightarrow> bytes option \<Rightarrow> u16 \<Rightarrow> storage_operation_token \<Rightarrow> u64 \<Rightarrow> fram_driver \<Rightarrow> i2c_bus \<Rightarrow>
   storage_io_submit_result \<times> fram_driver \<times> i2c_bus" where
  "fram_write_async ans address buffer len token deadline =
     begin_operation ans FRAM_OPERATION_WRITE address None buffer len token deadline"

definition next_chunk_or_fail :: "port_answer \<Rightarrow> fram_driver \<Rightarrow> i2c_bus \<Rightarrow> fram_driver \<times> i2c_bus" where
  "next_chunk_or_fail ans d b =
     (case submit_current_chunk ans d b of
        (result, d', b') \<Rightarrow>
          if result \<noteq> STORAGE_IO_SUBMIT_ACCEPTED then (emit_completion STORAGE_IO_RESULT_BUS_ERROR d', b') else (d', b'))"

definition fram_on_i2c_completion :: "port_answer \<Rightarrow> i2c_completion \<Rightarrow> fram_driver \<Rightarrow> i2c_bus \<Rightarrow> fram_driver \<times> i2c_bus" where
  "fram_on_i2c_completion ans n d b =
     (if fr_state d \<noteq> FRAM_STATE_WAITING_I2C \<or> bn_client_id n \<noteq> fc_client_id (fr_config d)
         \<or> bn_transaction_id n \<noteq> fr_active_transaction_id d \<or> bn_correlation_id n \<noteq> tk_correlation_id (fr_token d)
         \<or> bn_client_generation n \<noteq> fr_client_generation d
      then (d\<lparr>fr_stale_count := fr_stale_count d + 1\<rparr>, b)
      else
        let d1 = d\<lparr>fr_last_bus_generation := bn_bus_generation n\<rparr>
        in if map_result (bn_result n) \<noteq> STORAGE_IO_RESULT_OK then (emit_completion (map_result (bn_result n)) d1, b)
           else if fr_operation d1 = FRAM_OPERATION_PROBE then
             (let d2 = d1\<lparr>fr_transferred_length := fr_transferred_length d1 + 1\<rparr>
              in if fr_probe_page d2 = 0 then next_chunk_or_fail ans (d2\<lparr>fr_probe_page := 1\<rparr>) b
                 else (emit_completion STORAGE_IO_RESULT_OK d2, b))
           else
             let moved = fr_transferred_length d1 + fr_active_chunk_length d1;
                 d2 = d1\<lparr>fr_transferred_length := moved, fr_current_address := fr_start_address d1 + moved\<rparr>
             in if fr_transferred_length d2 < fr_requested_length d2 then next_chunk_or_fail ans d2 b
                else (emit_completion STORAGE_IO_RESULT_OK d2, b))"

definition fram_is_busy :: "fram_driver \<Rightarrow> bool" where
  "fram_is_busy d \<longleftrightarrow> fr_state d = FRAM_STATE_WAITING_I2C"

text \<open>The callback registered with the bus; the callbacks of other clients leave the bus and the driver alone.\<close>

definition fram_callback :: "port_answer \<Rightarrow> fram_driver callback" where
  "fram_callback ans n d b = (if bn_client_id n = fc_client_id (fr_config d) then fram_on_i2c_completion ans n d b else (d, b))"

definition fram_cancel_generation ::
  "port_answer \<Rightarrow> bool \<Rightarrow> u32 \<Rightarrow> fram_driver \<times> i2c_bus \<Rightarrow> (fram_driver \<times> i2c_bus) option" where
  "fram_cancel_generation ans can_cancel g x =
     (case x of (d, b) \<Rightarrow>
       if g = 0 \<or> fr_state d = FRAM_STATE_UNINITIALIZED then Some (d, b)
       else
         case (if fram_is_busy d
               then map_option snd (i2c_bus_cancel_client ans (fram_callback ans) can_cancel (fc_client_id (fr_config d)) (d, b))
               else Some (d, b)) of
           None \<Rightarrow> None
         | Some (d1, b1) \<Rightarrow>
             Some (d1\<lparr>fr_client_generation := g\<rparr>, snd (i2c_bus_set_client_generation (fc_client_id (fr_config d1)) g b1)))"

definition fram_bind_completion :: "bool \<Rightarrow> fram_driver \<Rightarrow> bool \<times> fram_driver" where
  "fram_bind_completion fn_valid d = (if \<not> fn_valid \<or> fram_is_busy d then (False, d) else (True, d\<lparr>fr_completion_bound := True\<rparr>))"

definition port_read ::
  "port_answer \<Rightarrow> u32 \<Rightarrow> u32 option \<Rightarrow> u16 \<Rightarrow> storage_operation_token \<Rightarrow> u64 \<Rightarrow> fram_driver \<Rightarrow> i2c_bus \<Rightarrow>
   storage_io_submit_result \<times> fram_driver \<times> i2c_bus" where
  "port_read ans offset buffer len token deadline d b =
     (if offset > 65535 then (STORAGE_IO_SUBMIT_OUT_OF_RANGE, d, b)
      else fram_read_async ans (ucast offset) buffer len token deadline d b)"

definition port_write ::
  "port_answer \<Rightarrow> u32 \<Rightarrow> bytes option \<Rightarrow> u16 \<Rightarrow> storage_operation_token \<Rightarrow> u64 \<Rightarrow> fram_driver \<Rightarrow> i2c_bus \<Rightarrow>
   storage_io_submit_result \<times> fram_driver \<times> i2c_bus" where
  "port_write ans offset data len token deadline d b =
     (if offset > 65535 then (STORAGE_IO_SUBMIT_OUT_OF_RANGE, d, b)
      else fram_write_async ans (ucast offset) data len token deadline d b)"

section \<open>What the driver waits for\<close>

definition waits_for :: "fram_driver \<Rightarrow> transaction_key" where
  "waits_for d = (fc_client_id (fr_config d), fr_active_transaction_id d, tk_correlation_id (fr_token d), fr_client_generation d)"

definition own_keys :: "fram_driver \<Rightarrow> transaction_key multiset \<Rightarrow> transaction_key multiset" where
  "own_keys d K = filter_mset (\<lambda>k. fst k = fc_client_id (fr_config d)) K"

text \<open>While it waits the driver has exactly one transaction on the bus, the one it waits for, otherwise
  none; the accepted operations are those completed and, while it waits, the current one.\<close>

definition fram_R :: "fram_config \<Rightarrow> fram_driver \<Rightarrow> transaction_key multiset \<Rightarrow> bool" where
  "fram_R c d K \<longleftrightarrow> fr_config d = c \<and> fr_completion_bound d \<and> (fr_state d = FRAM_STATE_IDLE \<or> fr_state d = FRAM_STATE_WAITING_I2C) \<and>
     own_keys d K = (if fram_is_busy d then {#waits_for d#} else {#}) \<and>
     fr_accepted d = map ic_token (fr_completions d) @ (if fram_is_busy d then [fr_token d] else [])"

lemma prepare_chunk_sel [simp]:
  "fr_config (prepare_chunk d) = fr_config d" "fr_state (prepare_chunk d) = fr_state d" "fr_token (prepare_chunk d) = fr_token d"
  "fr_client_generation (prepare_chunk d) = fr_client_generation d" "fr_completion_bound (prepare_chunk d) = fr_completion_bound d"
  "fr_accepted (prepare_chunk d) = fr_accepted d" "fr_completions (prepare_chunk d) = fr_completions d"
  "fr_operation (prepare_chunk d) = fr_operation d" "fr_transferred_length (prepare_chunk d) = fr_transferred_length d"
  "fr_requested_length (prepare_chunk d) = fr_requested_length d" "fr_start_address (prepare_chunk d) = fr_start_address d"
  "fr_current_address (prepare_chunk d) = fr_current_address d" "fr_write_buffer (prepare_chunk d) = fr_write_buffer d"
  "fr_read_buffer (prepare_chunk d) = fr_read_buffer d" "fr_probe_page (prepare_chunk d) = fr_probe_page d"
  "fr_deadline_us (prepare_chunk d) = fr_deadline_us d"
  by (simp_all add: prepare_chunk_def Let_def)

lemma emit_completion_sel [simp]:
  "fr_config (emit_completion r d) = fr_config d" "fr_state (emit_completion r d) = FRAM_STATE_IDLE"
  "fr_completion_bound (emit_completion r d) = fr_completion_bound d" "fr_accepted (emit_completion r d) = fr_accepted d"
  "fr_client_generation (emit_completion r d) = fr_client_generation d"
  "fr_completions (emit_completion r d) = fr_completions d @ (if fr_completion_bound d then [storage_completion d r] else [])"
  by (cases r; simp add: emit_completion_def reset_operation_def Let_def)+

lemma ic_token_completion [simp]: "ic_token (storage_completion d r) = fr_token d"
  by (simp add: storage_completion_def)

text \<open>Submitting a chunk puts one transaction of the driver on the bus, or nothing.\<close>

lemma submit_chunk_cases:
  assumes s: "submit_current_chunk ans d b = (res, d', b')"
  shows "fr_config d' = fr_config d" "fr_token d' = fr_token d" "fr_client_generation d' = fr_client_generation d"
    "fr_completion_bound d' = fr_completion_bound d" "fr_accepted d' = fr_accepted d" "fr_completions d' = fr_completions d"
    "res = STORAGE_IO_SUBMIT_ACCEPTED \<Longrightarrow> fr_state d' = FRAM_STATE_WAITING_I2C \<and> keys b' = add_mset (waits_for d') (keys b)"
    "res \<noteq> STORAGE_IO_SUBMIT_ACCEPTED \<Longrightarrow> fr_state d' = fr_state d \<and> keys b' = keys b"
    "b' = submitted ans [chunk_request (prepare_chunk d)] b"
proof -
  obtain r tid b1 where sub: "i2c_bus_submit ans (chunk_request (prepare_chunk d)) b = (r, tid, b1)" by (cases "i2c_bus_submit ans (chunk_request (prepare_chunk d)) b")
  note sc = submit_cases [OF sub]
  have m: "r \<noteq> I2C_SUBMIT_ACCEPTED \<Longrightarrow> map_submit_result r \<noteq> STORAGE_IO_SUBMIT_ACCEPTED" by (cases r) simp_all
  show "fr_config d' = fr_config d" "fr_token d' = fr_token d" "fr_client_generation d' = fr_client_generation d"
    "fr_completion_bound d' = fr_completion_bound d" "fr_accepted d' = fr_accepted d" "fr_completions d' = fr_completions d"
    using s sub by (auto simp: submit_current_chunk_def Let_def split: if_splits)
  show "res = STORAGE_IO_SUBMIT_ACCEPTED \<Longrightarrow> fr_state d' = FRAM_STATE_WAITING_I2C \<and> keys b' = add_mset (waits_for d') (keys b)"
    using s sub sc m by (auto simp: submit_current_chunk_def Let_def waits_for_def chunk_request_def split: if_splits)
  show "res \<noteq> STORAGE_IO_SUBMIT_ACCEPTED \<Longrightarrow> fr_state d' = fr_state d \<and> keys b' = keys b"
    using s sub sc by (auto simp: submit_current_chunk_def Let_def split: if_splits)
  show "b' = submitted ans [chunk_request (prepare_chunk d)] b"
    using s sub by (auto simp: submit_current_chunk_def Let_def submitted_def split: if_splits)
qed

lemma own_keys_config: "fr_config d' = fr_config d \<Longrightarrow> own_keys d' K = own_keys d K"
  by (simp add: own_keys_def)

lemma own_keys_none: "\<forall>k \<in># K. fst k \<noteq> fc_client_id (fr_config d) \<Longrightarrow> own_keys d K = {#}"
  by (auto simp: own_keys_def intro!: multiset_eqI simp: count_eq_zero_iff)

lemma own_keys_add: "own_keys d (add_mset k K) = (if fst k = fc_client_id (fr_config d) then add_mset k (own_keys d K) else own_keys d K)"
  by (simp add: own_keys_def)

text \<open>An answer to the transaction it waits for.\<close>

lemma next_chunk_R:
  assumes own: "own_keys d (keys b) = {#}" and st: "fr_completion_bound d" "fr_config d = c"
    and acc: "fr_accepted d = map ic_token (fr_completions d) @ [fr_token d]"
    and n: "next_chunk_or_fail ans d b = (d', b')"
  shows "fram_R c d' (keys b')"
proof -
  obtain res d1 b1 where s: "submit_current_chunk ans d b = (res, d1, b1)" by (cases "submit_current_chunk ans d b")
  note sc = submit_chunk_cases [OF s]
  show ?thesis
  proof (cases "res = STORAGE_IO_SUBMIT_ACCEPTED")
    case True
    then have e: "d' = d1" "b' = b1" using n s by (simp_all add: next_chunk_or_fail_def)
    have "fst (waits_for d1) = fc_client_id (fr_config d1)" by (simp add: waits_for_def)
    then show ?thesis using sc True own st acc e
      by (simp add: fram_R_def fram_is_busy_def own_keys_add own_keys_config [OF sc(1)])
  next
    case False
    then have e: "d' = emit_completion STORAGE_IO_RESULT_BUS_ERROR d1" "b' = b1" using n s by (simp_all add: next_chunk_or_fail_def)
    have "own_keys d' (keys b') = own_keys d (keys b)" using sc False e by (simp add: own_keys_def)
    then show ?thesis using sc False own st acc by (simp add: fram_R_def fram_is_busy_def e)
  qed
qed

lemma fram_answers:
  assumes R: "fram_R c d (add_mset (key t) (keys b))" and cb: "fram_callback ans (completion_of t r) d b = (d', b')"
  shows "fram_R c d' (keys b')"
proof (cases "bp_client_id t = fc_client_id (fr_config d)")
  case False
  then have "d' = d" "b' = b" using cb by (simp_all add: fram_callback_def completion_of_def)
  then show ?thesis using R False by (simp add: fram_R_def own_keys_add key_def)
next
  case True
  have own: "add_mset (key t) (own_keys d (keys b)) = (if fram_is_busy d then {#waits_for d#} else {#})"
  proof -
    have "fst (key t) = fc_client_id (fr_config d)" using True by (simp add: key_def)
    then have "own_keys d (add_mset (key t) (keys b)) = add_mset (key t) (own_keys d (keys b))" by (simp add: own_keys_add)
    moreover have "own_keys d (add_mset (key t) (keys b)) = (if fram_is_busy d then {#waits_for d#} else {#})"
      using R unfolding fram_R_def by blast
    ultimately show ?thesis by simp
  qed
  then have busy: "fram_is_busy d" and k: "key t = waits_for d" and none: "own_keys d (keys b) = {#}"
    by (auto split: if_splits)
  have st: "fr_completion_bound d" "fr_config d = c" and acc: "fr_accepted d = map ic_token (fr_completions d) @ [fr_token d]"
    using R busy by (simp_all add: fram_R_def)
  have match: "fr_state d = FRAM_STATE_WAITING_I2C" "bp_transaction_id t = fr_active_transaction_id d"
    "bp_correlation_id t = tk_correlation_id (fr_token d)" "bp_client_generation t = fr_client_generation d"
    using busy k by (auto simp: fram_is_busy_def key_def waits_for_def)
  have fin: "fram_R c (emit_completion q e) (keys b)"
    if "fr_config e = fr_config d" "fr_completion_bound e" "fr_accepted e = fr_accepted d" "fr_completions e = fr_completions d"
      "fr_token e = fr_token d" for e q
    using that none acc st by (simp add: fram_R_def fram_is_busy_def own_keys_def)
  have more: "fram_R c d' (keys b')" if "next_chunk_or_fail ans e b = (d', b')" and
      "fr_config e = fr_config d" "fr_completion_bound e" "fr_accepted e = fr_accepted d" "fr_completions e = fr_completions d"
      "fr_token e = fr_token d" for e
    by (rule next_chunk_R [OF _ _ _ _ that(1)]) (use that none acc st in \<open>simp_all add: own_keys_def\<close>)
  have "fram_on_i2c_completion ans (completion_of t r) d b = (d', b')" using cb True by (simp add: fram_callback_def completion_of_def)
  then show ?thesis
    using match True st fin more
    by (auto simp: fram_on_i2c_completion_def completion_of_def Let_def split: if_splits)
qed

lemma fram_submits: "\<exists>rs. snd (fram_callback ans n d b) = submitted ans rs b"
proof -
  have none: "b = submitted ans [] b" by (simp add: submitted_def)
  have n: "snd (next_chunk_or_fail ans e b) = submitted ans [chunk_request (prepare_chunk e)] b" for e
    using submit_chunk_cases(9) [of ans e b] by (cases "submit_current_chunk ans e b") (simp add: next_chunk_or_fail_def)
  show ?thesis
    unfolding fram_callback_def fram_on_i2c_completion_def Let_def
    using none n by (auto split: if_splits)
qed

lemma fram_quiet: "bn_result n \<noteq> I2C_TRANSACTION_OK \<Longrightarrow> snd (fram_callback ans n d b) = b"
  by (cases "bn_result n") (simp_all add: fram_callback_def fram_on_i2c_completion_def Let_def)

interpretation fram_bus: bus_clients ans "fram_callback ans" "fram_R c" for ans c
  by unfold_locales (rule fram_answers fram_submits fram_quiet; assumption)+

section \<open>The driver on the bus\<close>

lemma submit_R:
  assumes "fram_R c d (keys b)" "i2c_bus_submit ans r b = (res, tid, b')" "br_client_id r \<noteq> fc_client_id c"
  shows "fram_R c d (keys b')"
  using assms submit_cases(3,4) [OF assms(2)] by (cases "res = I2C_SUBMIT_ACCEPTED") (auto simp: fram_R_def own_keys_add)

lemma begin_R:
  assumes R: "fram_R c d (keys b)" and w: "working b"
    and s: "begin_operation ans oper address rbuf wbuf len token deadline d b = (res, d', b')"
  shows "fram_R c d' (keys b')" "working b'"
proof -
  have "fram_R c d' (keys b') \<and> working b'"
  proof (cases "fr_state d = FRAM_STATE_IDLE \<and> b' = b \<and> fr_state d' = FRAM_STATE_IDLE \<and> fr_config d' = fr_config d \<and>
      fr_completion_bound d' = fr_completion_bound d \<and>
      fr_accepted d' = map ic_token (fr_completions d') \<or> d' = d \<and> b' = b")
    case True
    then show ?thesis using R w own_keys_config [of d' d] by (auto simp: fram_R_def fram_is_busy_def)
  next
    case False
    let ?d1 = "d\<lparr>fr_operation := oper, fr_token := token, fr_start_address := address, fr_current_address := address,
                   fr_requested_length := len, fr_transferred_length := 0, fr_deadline_us := deadline,
                   fr_read_buffer := rbuf, fr_write_buffer := wbuf, fr_submitted_count := fr_submitted_count d + 1\<rparr>"
    obtain r d2 b2 where sub: "submit_current_chunk ans ?d1 b = (r, d2, b2)" by (cases "submit_current_chunk ans ?d1 b")
    have idle: "fr_state d = FRAM_STATE_IDLE"
    proof (rule ccontr)
      assume "fr_state d \<noteq> FRAM_STATE_IDLE"
      then have "d' = d \<and> b' = b" using s by (auto simp: begin_operation_def split: if_splits)
      then show False using False by blast
    qed
    have acc: "fr_accepted d = map ic_token (fr_completions d)" "fr_completion_bound d" using R idle by (simp_all add: fram_R_def fram_is_busy_def)
    have "len \<noteq> 0" and go: "begin_operation ans oper address rbuf wbuf len token deadline d b =
        (if r \<noteq> STORAGE_IO_SUBMIT_ACCEPTED then (r, reset_operation d2, b2) else (r, note_accepted token d2, b2))"
    proof -
      have zero: False if "len = 0"
        using s that False idle acc by (auto simp: begin_operation_def Let_def note_accepted_def split: if_splits)
      then show "len \<noteq> 0" by blast
      have "token_is_valid token" "deadline \<noteq> 0" "\<not> (oper = FRAM_OPERATION_READ \<and> rbuf = None)" "\<not> (oper = FRAM_OPERATION_WRITE \<and> wbuf = None)"
        "range_is_valid address len"
        using s False idle acc \<open>len \<noteq> 0\<close> by (auto simp: begin_operation_def word_gt_0 split: if_splits)
      then show "begin_operation ans oper address rbuf wbuf len token deadline d b =
          (if r \<noteq> STORAGE_IO_SUBMIT_ACCEPTED then (r, reset_operation d2, b2) else (r, note_accepted token d2, b2))"
        using idle sub \<open>len \<noteq> 0\<close> by (auto simp: begin_operation_def Let_def)
    qed
    then have e: "(if r \<noteq> STORAGE_IO_SUBMIT_ACCEPTED then (r, reset_operation d2, b2) else (r, note_accepted token d2, b2)) = (res, d', b')"
      using s by simp
    note sc = submit_chunk_cases [OF sub]
    have R0: "own_keys d (keys b) = {#}" "fr_completion_bound d" "fr_accepted d = map ic_token (fr_completions d)" "fr_config d = c"
      using R idle by (simp_all add: fram_R_def fram_is_busy_def)
    obtain rs where b2: "b2 = submitted ans rs b" using sc(9) by blast
    obtain r1 tid b3 where q: "i2c_bus_submit ans (chunk_request (prepare_chunk ?d1)) b = (r1, tid, b3)"
      by (cases "i2c_bus_submit ans (chunk_request (prepare_chunk ?d1)) b")
    then have "b2 = b3" using sc(9) by (simp add: submitted_def)
    then have w2: "working b2" using submit_working [OF q w] by simp
    show ?thesis
    proof (cases "r = STORAGE_IO_SUBMIT_ACCEPTED")
      case True
      then have d': "d' = note_accepted token d2" "b' = b2" using e by auto
      have f: "fst (waits_for d2) = fc_client_id c" using sc(1) R0(4) by (simp add: waits_for_def)
      have k: "waits_for d' = waits_for d2" by (simp add: d' waits_for_def note_accepted_def)
      have "own_keys d' (keys b2) = {#waits_for d2#}"
        using sc(1,7) True R0 f by (simp add: own_keys_def d' note_accepted_def)
      then show ?thesis using True sc R0 w2 k by (simp add: fram_R_def fram_is_busy_def d' note_accepted_def)
    next
      case False
      then have d': "d' = reset_operation d2" "b' = b2" using e by auto
      have "own_keys d' (keys b2) = {#}" using sc False R0 by (simp add: own_keys_def d' reset_operation_def)
      then show ?thesis using False sc R0 w2 by (simp add: fram_R_def fram_is_busy_def d' reset_operation_def)
    qed
  qed
  then show "fram_R c d' (keys b')" "working b'" by simp_all
qed

lemma probe_R:
  assumes "fram_R c d (keys b)" "working b" "fram_probe_async ans token deadline d b = (res, d', b')"
  shows "fram_R c d' (keys b')" "working b'"
proof -
  obtain r d1 b1 where s: "begin_operation ans FRAM_OPERATION_PROBE 0 None None 2 token deadline d b = (r, d1, b1)"
    by (cases "begin_operation ans FRAM_OPERATION_PROBE 0 None None 2 token deadline d b")
  have p: "fram_R c (d1\<lparr>fr_probe_page := 0\<rparr>) K = fram_R c d1 K" for K
    by (simp add: fram_R_def fram_is_busy_def own_keys_def waits_for_def)
  show "fram_R c d' (keys b')" "working b'"
    using assms(3) begin_R [OF assms(1,2) s] s p by (auto simp: fram_probe_async_def split: if_splits)
qed

lemma cancel_generation_R:
  assumes R: "fram_R c d (keys b)" and w: "working b"
  shows "\<exists>d' b'. fram_cancel_generation ans can g (d, b) = Some (d', b') \<and> fram_R c d' (keys b') \<and> working b'"
proof (cases "g = 0 \<or> fr_state d = FRAM_STATE_UNINITIALIZED")
  case True
  then show ?thesis using R w by (auto simp: fram_cancel_generation_def)
next
  case False
  have cid: "fc_client_id (fr_config d) = fc_client_id c" using R by (simp add: fram_R_def)
  obtain d1 b1 where x: "(if fram_is_busy d
       then map_option snd (i2c_bus_cancel_client ans (fram_callback ans) can (fc_client_id (fr_config d)) (d, b))
       else Some (d, b)) = Some (d1, b1)" and R1: "fram_R c d1 (keys b1)" and w1: "working b1" and idle: "\<not> fram_is_busy d1"
  proof (cases "fram_is_busy d")
    case True
    obtain n d1 b1 where *: "i2c_bus_cancel_client ans (fram_callback ans) can (fc_client_id c) (d, b) = Some (n, d1, b1)"
      "fram_R c d1 (keys b1)" "working b1" "\<forall>k \<in># keys b1. fst k \<noteq> fc_client_id c"
      using fram_bus.cancel_client_settles [OF R w] by blast
    then have "own_keys d1 (keys b1) = {#}" by (intro own_keys_none) (simp add: fram_R_def)
    then have "\<not> fram_is_busy d1" using *(2) by (auto simp: fram_R_def)
    then show thesis using that [of d1 b1] * True cid by simp
  next
    case False
    then show thesis using that [of d b] R w by simp
  qed
  obtain ok b2 where g: "i2c_bus_set_client_generation (fc_client_id (fr_config d1)) g b1 = (ok, b2)" by fastforce
  have "fram_R c (d1\<lparr>fr_client_generation := g\<rparr>) (keys b2)"
    using R1 idle set_generation_working(2) [OF g w1] own_keys_config [of "d1\<lparr>fr_client_generation := g\<rparr>" d1]
    by (simp add: fram_R_def fram_is_busy_def)
  then show ?thesis using False x g set_generation_working(1) [OF g w1] by (simp add: fram_cancel_generation_def)
qed

text \<open>Everything that can happen to the driver and its bus: requests of its own client, submissions of the
  other clients, completions (also late, repeated and forged ones), ticks, cancellation, recovery.\<close>

datatype fram_op =
    Op_read u32 "u32 option" u16 storage_operation_token u64
  | Op_write u32 "bytes option" u16 storage_operation_token u64
  | Op_probe storage_operation_token u64
  | Op_cancel_generation u32
  | Op_submit i2c_bus_request
  | Op_complete u32 u32 u32 u32 i2c_transaction_result
  | Op_tick u64
  | Op_cancel_client u32
  | Op_recover
  | Op_register i2c_client

fun fram_step :: "port_answer \<Rightarrow> bool \<Rightarrow> fram_op \<Rightarrow> fram_driver \<times> i2c_bus \<Rightarrow> (fram_driver \<times> i2c_bus) option" where
  "fram_step ans can (Op_read off buf len tok dl) (d, b) = Some (snd (port_read ans off buf len tok dl d b))"
| "fram_step ans can (Op_write off bs len tok dl) (d, b) = Some (snd (port_write ans off bs len tok dl d b))"
| "fram_step ans can (Op_probe tok dl) (d, b) = Some (snd (fram_probe_async ans tok dl d b))"
| "fram_step ans can (Op_cancel_generation g) (d, b) = fram_cancel_generation ans can g (d, b)"
| "fram_step ans can (Op_submit r) (d, b) = Some (d, snd (snd (i2c_bus_submit ans r b)))"
| "fram_step ans can (Op_complete tid corr cgen bgen r) (d, b) =
     map_option snd (i2c_bus_complete ans (fram_callback ans) tid corr cgen bgen r (d, b))"
| "fram_step ans can (Op_tick now) (d, b) = map_option snd (i2c_bus_tick ans (fram_callback ans) can now (d, b))"
| "fram_step ans can (Op_cancel_client cid) (d, b) = map_option snd (i2c_bus_cancel_client ans (fram_callback ans) can cid (d, b))"
| "fram_step ans can Op_recover (d, b) = i2c_bus_recover ans (fram_callback ans) can (d, b)"
| "fram_step ans can (Op_register cl) (d, b) = Some (d, snd (i2c_bus_register_client cl b))"

fun fram_run :: "port_answer \<Rightarrow> bool \<Rightarrow> fram_op list \<Rightarrow> fram_driver \<times> i2c_bus \<Rightarrow> (fram_driver \<times> i2c_bus) option" where
  "fram_run ans can [] x = Some x"
| "fram_run ans can (op # ops) x = (case fram_step ans can op x of None \<Rightarrow> None | Some y \<Rightarrow> fram_run ans can ops y)"

text \<open>Other clients do not submit under the driver's identity.\<close>

fun foreign :: "u32 \<Rightarrow> fram_op \<Rightarrow> bool" where
  "foreign cid (Op_submit r) = (br_client_id r \<noteq> cid)"
| "foreign cid _ = True"

lemma fram_step_R:
  assumes R: "fram_R c d (keys b)" and w: "working b" and f: "foreign (fc_client_id c) op"
  shows "\<exists>d' b'. fram_step ans can op (d, b) = Some (d', b') \<and> fram_R c d' (keys b') \<and> working b'"
proof (cases op)
  case (Op_read off buf len tok dl)
  show ?thesis
    using begin_R [OF R w, of ans FRAM_OPERATION_READ "ucast off" buf None len tok dl] R w
    by (cases "port_read ans off buf len tok dl d b") (auto simp: Op_read port_read_def fram_read_async_def split: if_splits)
next
  case (Op_write off bs len tok dl)
  show ?thesis
    using begin_R [OF R w, of ans FRAM_OPERATION_WRITE "ucast off" None bs len tok dl] R w
    by (cases "port_write ans off bs len tok dl d b") (auto simp: Op_write port_write_def fram_write_async_def split: if_splits)
next
  case (Op_probe tok dl)
  show ?thesis using probe_R [OF R w, of ans tok dl] by (cases "fram_probe_async ans tok dl d b") (auto simp: Op_probe)
next
  case (Op_cancel_generation g)
  then show ?thesis using cancel_generation_R [OF R w] by simp
next
  case (Op_submit r)
  obtain res tid b' where s: "i2c_bus_submit ans r b = (res, tid, b')" by (cases "i2c_bus_submit ans r b")
  show ?thesis using submit_R [OF R s] submit_working [OF s w] f by (simp add: Op_submit s)
next
  case (Op_complete tid corr cgen bgen r)
  then show ?thesis using fram_bus.complete_settles [OF R w, of ans tid corr cgen bgen r] by auto
next
  case (Op_tick now)
  then show ?thesis using fram_bus.tick_settles [OF R w, of ans can now] by auto
next
  case (Op_cancel_client cid)
  then show ?thesis using fram_bus.cancel_client_settles [OF R w, of ans can cid] by auto
next
  case Op_recover
  then show ?thesis using fram_bus.recover_settles [OF R w, of ans can] by auto
next
  case (Op_register cl)
  then show ?thesis using register_working [of cl b _ _, OF prod.collapse [symmetric] w] R by simp
qed

lemma fram_run_R:
  assumes "fram_R c d (keys b)" "working b" "list_all (foreign (fc_client_id c)) ops"
  shows "\<exists>d' b'. fram_run ans can ops (d, b) = Some (d', b') \<and> fram_R c d' (keys b') \<and> working b'"
  using assms
proof (induction ops arbitrary: d b)
  case (Cons op ops)
  have "foreign (fc_client_id c) op" using Cons.prems(3) by simp
  then obtain d1 b1 where "fram_step ans can op (d, b) = Some (d1, b1)" "fram_R c d1 (keys b1)" "working b1"
    using fram_step_R [OF Cons.prems(1,2)] by blast
  then show ?case using Cons.IH [of d1 b1] Cons.prems(3) by simp
qed simp

text \<open>The driver after start-up.\<close>

definition fram_start :: "fram_config \<Rightarrow> (fram_driver \<times> i2c_bus) option" where
  "fram_start c =
     (case fram_init c (i2c_bus_init True) of
        (STORAGE_IO_SUBMIT_ACCEPTED, Some d, b) \<Rightarrow> Some (snd (fram_bind_completion True d), b)
      | _ \<Rightarrow> None)"

lemma fram_start_R:
  assumes "fram_start c = Some (d, b)"
  shows "fram_R c d (keys b) \<and> working b"
proof -
  have "working (i2c_bus_init True)"
    by (simp add: working_def owing_def i2c_bus_init_def keys_def accepted_ids_def notified_ids_def map_filter_def)
  moreover have "keys (i2c_bus_init True) = {#}" by (simp add: keys_def i2c_bus_init_def)
  ultimately show ?thesis using assms register_working
    by (fastforce simp: fram_start_def fram_init_def fram_bind_completion_def fram_R_def fram_is_busy_def own_keys_def Let_def
        split: if_splits prod.splits storage_io_submit_result.splits option.splits)
qed

text \<open>C14: from start-up, whatever happens to the bus, every operation returns; each accepted storage operation
  is completed exactly once, in order, or is the one in progress; while it is in progress its transaction
  is on the bus and the bus is busy; every accepted bus transaction is answered once or outstanding.\<close>

theorem fram_completes_each_operation_once:
  assumes "fram_start c = Some (d0, b0)" "list_all (foreign (fc_client_id c)) ops"
  shows "\<exists>d b. fram_run ans can ops (d0, b0) = Some (d, b) \<and>
    fr_accepted d = map ic_token (fr_completions d) @ (if fram_is_busy d then [fr_token d] else []) \<and>
    (fram_is_busy d \<longrightarrow> waits_for d \<in># keys b \<and> i2c_bus_active b \<noteq> None) \<and>
    mset (accepted_ids b) = mset (notified_ids b) + image_mset (fst \<circ> snd) (keys b)"
proof -
  obtain d b where *: "fram_run ans can ops (d0, b0) = Some (d, b)" "fram_R c d (keys b)" "working b"
    using fram_run_R [of c d0 b0 ops ans can] fram_start_R [OF assms(1)] assms(2) by blast
  have own: "fram_is_busy d \<Longrightarrow> waits_for d \<in># keys b"
    using *(2) by (auto simp: fram_R_def own_keys_def dest: arg_cong [where f = "\<lambda>M. waits_for d \<in># M"])
  have "i2c_bus_active b \<noteq> None" if "waits_for d \<in># keys b"
    using *(3) that by (auto simp: working_def i2c_bus_active_def keys_def split: if_splits)
  then show ?thesis using * own by (auto simp: fram_R_def working_def owing_def)
qed

definition fram_sample :: fram_config where
  "fram_sample = \<lparr>fc_client_id = 2, fc_slave_address_base = 0x50, fc_capacity_bytes = 512, fc_max_chunk_bytes = 32, fc_bus_priority = 1\<rparr>"

definition fram_sample_token :: storage_operation_token where
  "fram_sample_token = \<lparr>tk_operation_id = 7, tk_correlation_id = 3, tk_owner_generation = 1\<rparr>"

lemma fram_sample_starts: "fram_start fram_sample = Some (the (fram_start fram_sample))"
  by code_simp

text \<open>A read whose submission the port accepts and whose deadline passes.\<close>

lemma fram_completes_each_operation_once_witness:
  "\<exists>d b. fram_run (\<lambda>_. PORT_OK) True [Op_read 0x140 (Some 1) 64 fram_sample_token 1000, Op_tick 5000] (the (fram_start fram_sample)) = Some (d, b) \<and>
    fr_accepted d = map ic_token (fr_completions d) @ (if fram_is_busy d then [fr_token d] else [])"
proof -
  let ?ops = "[Op_read 0x140 (Some 1) 64 fram_sample_token 1000, Op_tick 5000]"
  have s: "fram_start fram_sample = Some (fst (the (fram_start fram_sample)), snd (the (fram_start fram_sample)))"
    using fram_sample_starts by simp
  have f: "list_all (foreign (fc_client_id fram_sample)) ?ops" by simp
  show ?thesis using fram_completes_each_operation_once [OF s f, of "\<lambda>_. PORT_OK" True] unfolding prod.collapse by blast
qed

section \<open>A transfer\<close>

text \<open>The F-RAM cells a transaction addresses: the page is the lowest bit of the slave address, the first
  byte sent is the offset in the page; a write carries its data behind that byte.\<close>

definition touched :: "i2c_port_request \<Rightarrow> nat list" where
  "touched q =
     (let base = 256 * unat (pq_slave_address q AND 1) + unat (hd (the (pq_tx q)));
          n = (if pq_rx_length q > 0 then unat (pq_rx_length q) else unat (pq_tx_length q) - 1)
      in [base..<base + n])"

definition payload :: "i2c_port_request \<Rightarrow> bytes" where
  "payload q = (if pq_rx_length q > 0 then [] else tl (take (unat (pq_tx_length q)) (the (pq_tx q))))"

definition port_requests :: "i2c_bus \<Rightarrow> i2c_port_request list" where
  "port_requests b = List.map_filter (\<lambda>e. case e of Port_submit q a \<Rightarrow> Some q | _ \<Rightarrow> None) (ib_trace b)"

lemma port_requests_emit [simp]:
  "port_requests (emit (Port_submit q a) b) = port_requests b @ [q]"
  "port_requests (emit (Accepted i) b) = port_requests b"
  "port_requests (emit (Notify n) b) = port_requests b"
  by (simp_all add: port_requests_def emit_def map_filter_def)

text \<open>The port accepts everything and completes what is active.\<close>

abbreviation accepting :: port_answer where "accepting \<equiv> \<lambda>_. PORT_OK"

definition serve :: "fram_driver \<times> i2c_bus \<Rightarrow> (fram_driver \<times> i2c_bus) option" where
  "serve x =
     (case i2c_bus_active (snd x) of None \<Rightarrow> Some x
      | Some t \<Rightarrow> map_option snd (i2c_bus_on_port_completion accepting (fram_callback accepting) (port_request t) PORT_OK x))"

fun serve_n :: "nat \<Rightarrow> fram_driver \<times> i2c_bus \<Rightarrow> (fram_driver \<times> i2c_bus) option" where
  "serve_n 0 x = Some x"
| "serve_n (Suc n) x = (case serve x of None \<Rightarrow> None | Some y \<Rightarrow> serve_n n y)"

text \<open>Chunk arithmetic.\<close>

lemma unat_and_255: "unat (x AND 255) = unat x mod 256" for x :: u16
proof -
  have "x AND 255 = take_bit 8 x" by (simp add: take_bit_eq_mask mask_eq_exp_minus_1)
  then show ?thesis by (simp add: take_bit_eq_mod unat_mod)
qed

lemma unat_chunk:
  assumes "fr_transferred_length d \<le> fr_requested_length d"
  shows "unat (chunk_length d) = min (min (unat (fr_requested_length d) - unat (fr_transferred_length d)) (unat (fc_max_chunk_bytes (fr_config d))))
    (256 - unat (fr_current_address d) mod 256)"
proof -
  have "unat (256 - (fr_current_address d AND 255)) = 256 - unat (fr_current_address d) mod 256"
    by (subst unat_sub) (auto simp: word_le_nat_alt unat_and_255)
  moreover have "unat (fr_requested_length d - fr_transferred_length d) = unat (fr_requested_length d) - unat (fr_transferred_length d)"
    by (rule unat_sub [OF assms])
  ultimately show ?thesis by (auto simp: chunk_length_def Let_def word_less_nat_alt min_def)
qed

lemma slave_parts:
  assumes "base AND 1 = (0 :: u8)" "unat (a :: u16) < 512"
  shows "unat ((base OR ucast (drop_bit 8 a AND 1)) AND 1) = unat a div 256"
    "(base OR ucast (drop_bit 8 a AND 1)) AND 0x7E = base AND 0x7E"
proof -
  have "unat (drop_bit 8 a) = unat a div 256" by (simp add: drop_bit_eq_div unat_div)
  then have d: "unat (drop_bit 8 a) < 2" using assms(2) by (simp add: less_mult_imp_div_less)
  then have "drop_bit 8 a = 0 \<or> drop_bit 8 a = 1" unfolding word_unat_eq_iff by (simp only: unat_0 unat_1) linarith
  then show "unat ((base OR ucast (drop_bit 8 a AND 1)) AND 1) = unat a div 256"
    "(base OR ucast (drop_bit 8 a AND 1)) AND 0x7E = base AND 0x7E"
    using assms(1) \<open>unat (drop_bit 8 a) = unat a div 256\<close>
    by (auto simp: bit.conj_disj_distrib2)
qed

text \<open>A driver in the middle of a read or write.\<close>

definition transferring :: "fram_config \<Rightarrow> fram_driver \<Rightarrow> bool" where
  "transferring c d \<longleftrightarrow> fr_config d = c \<and> config_is_valid c \<and> fr_completion_bound d \<and> token_is_valid (fr_token d) \<and> fr_deadline_us d \<noteq> 0 \<and>
     fr_client_generation d \<noteq> 0 \<and> fr_transferred_length d < fr_requested_length d \<and>
     fr_current_address d = fr_start_address d + fr_transferred_length d \<and>
     unat (fr_start_address d) + unat (fr_requested_length d) \<le> 512 \<and> length (fr_tx_buffer d) = 33 \<and>
     (fr_operation d = FRAM_OPERATION_READ \<and> fr_read_buffer d \<noteq> None \<or>
      fr_operation d = FRAM_OPERATION_WRITE \<and> (\<exists>bs. fr_write_buffer d = Some bs \<and> unat (fr_requested_length d) \<le> length bs))"

definition known_to :: "i2c_bus \<Rightarrow> fram_driver \<Rightarrow> bool" where
  "known_to b d \<longleftrightarrow> ib_port_bound b \<and> (\<exists>cl. find_client b (fc_client_id (fr_config d)) = Some cl \<and> bc_on_complete cl \<and>
     bc_client_generation cl = fr_client_generation d \<and> bc_address_base cl = fc_slave_address_base (fr_config d) \<and> bc_address_mask cl = 0x7E)"

lemma transferring_facts:
  assumes "transferring c d"
  shows "unat (fr_current_address d) = unat (fr_start_address d) + unat (fr_transferred_length d)"
    "unat (fr_transferred_length d) < unat (fr_requested_length d)"
    "unat (fr_start_address d) + unat (fr_requested_length d) \<le> 512"
    "0 < unat (chunk_length d)" "unat (chunk_length d) \<le> 32"
    "unat (fr_transferred_length d) + unat (chunk_length d) \<le> unat (fr_requested_length d)"
    "unat (fr_current_address d) mod 256 + unat (chunk_length d) \<le> 256"
proof -
  have t: "fr_transferred_length d \<le> fr_requested_length d" "unat (fr_transferred_length d) < unat (fr_requested_length d)"
    "unat (fr_start_address d) + unat (fr_requested_length d) \<le> 512"
    "fc_max_chunk_bytes (fr_config d) \<noteq> 0" "unat (fc_max_chunk_bytes (fr_config d)) \<le> 32"
    using assms by (auto simp: transferring_def config_is_valid_def word_less_nat_alt word_le_nat_alt)
  show "unat (fr_current_address d) = unat (fr_start_address d) + unat (fr_transferred_length d)"
    using assms t unat_add_lt [of "fr_start_address d" "fr_transferred_length d"] by (simp add: transferring_def)
  show "unat (fr_transferred_length d) < unat (fr_requested_length d)" "unat (fr_start_address d) + unat (fr_requested_length d) \<le> 512"
    using t by simp_all
  have "0 < unat (fc_max_chunk_bytes (fr_config d))" using t(4) by (simp add: unat_gt_0)
  then show "0 < unat (chunk_length d)" "unat (chunk_length d) \<le> 32"
    "unat (fr_transferred_length d) + unat (chunk_length d) \<le> unat (fr_requested_length d)"
    "unat (fr_current_address d) mod 256 + unat (chunk_length d) \<le> 256"
    using t by (auto simp: unat_chunk [OF t(1)])
qed

text \<open>What the driver sends for a chunk.\<close>

definition chunk_port_request :: "fram_driver \<Rightarrow> u32 \<Rightarrow> u32 \<Rightarrow> i2c_port_request" where
  "chunk_port_request d tid g =
     (let r = chunk_request (prepare_chunk d)
      in \<lparr>pq_transaction_id = tid, pq_correlation_id = br_correlation_id r, pq_client_generation = br_client_generation r,
          pq_bus_generation = g, pq_slave_address = br_slave_address r, pq_tx = br_tx r, pq_tx_length = br_tx_length r,
          pq_rx = br_rx r, pq_rx_length = br_rx_length r, pq_deadline_us = br_deadline_us r\<rparr>)"

lemma chunk_touches:
  assumes "transferring c d"
  shows "touched (chunk_port_request d tid g) = [unat (fr_current_address d)..<unat (fr_current_address d) + unat (chunk_length d)]"
    "payload (chunk_port_request d tid g) = (if fr_operation d = FRAM_OPERATION_WRITE
       then take (unat (chunk_length d)) (drop (unat (fr_transferred_length d)) (the (fr_write_buffer d))) else [])"
proof -
  note f = transferring_facts [OF assms]
  let ?a = "fr_current_address d" and ?n = "chunk_length d"
  have oper: "fr_operation d = FRAM_OPERATION_READ \<or> fr_operation d = FRAM_OPERATION_WRITE" using assms by (auto simp: transferring_def)
  have ca: "current_address (prepare_chunk d) = ?a" "current_address d = ?a" using oper by (auto simp: current_address_def)
  have base: "fc_slave_address_base (fr_config d) AND 1 = 0" using assms by (simp add: transferring_def config_is_valid_def)
  have a: "unat ?a < 512" using f by linarith
  have low: "unat (ucast (?a AND 0xFF) :: u8) = unat ?a mod 256"
    by (simp add: unsigned_ucast_eq take_bit_eq_mod unat_and_255)
  have sum: "256 * (unat ?a div 256) + unat ?a mod 256 = unat ?a" by simp
  have n: "fr_active_chunk_length (prepare_chunk d) = ?n" using oper by (auto simp: prepare_chunk_def Let_def)
  have hd: "hd (fr_tx_buffer (prepare_chunk d)) = ucast (?a AND 0xFF)" using ca by (simp add: prepare_chunk_def Let_def)
  have "unat ?n + 1 < 2 ^ LENGTH(16)" using f(5) by simp
  then have n1: "unat (1 + ?n) = unat ?n + 1" unfolding add.commute [of 1 ?n] by (rule unat_inc)
  have nz: "0 < ?n" using f(4) by (simp add: word_gt_0 unat_gt_0)
  show "touched (chunk_port_request d tid g) = [unat ?a..<unat ?a + unat ?n]"
    using oper slave_parts(1) [OF base a] low sum n1 nz
    by (auto simp: touched_def chunk_port_request_def chunk_request_def Let_def n hd ca slave_address_def)
  have len: "length (fr_tx_buffer d) = 33" using assms by (simp add: transferring_def)
  have w: "fr_operation d = FRAM_OPERATION_WRITE \<Longrightarrow> unat ?n \<le> length (the (fr_write_buffer d)) - unat (fr_transferred_length d)"
    using assms f(6) by (auto simp: transferring_def)
  show "payload (chunk_port_request d tid g) = (if fr_operation d = FRAM_OPERATION_WRITE
       then take (unat ?n) (drop (unat (fr_transferred_length d)) (the (fr_write_buffer d))) else [])"
    using oper n1 nz w len by (auto simp: payload_def chunk_port_request_def chunk_request_def Let_def n prepare_chunk_def)
qed

lemma known_to_same:
  "ib_clients b' = ib_clients b \<Longrightarrow> ib_port_bound b' = ib_port_bound b \<Longrightarrow> fr_config d' = fr_config d \<Longrightarrow>
     fr_client_generation d' = fr_client_generation d \<Longrightarrow> known_to b' d' = known_to b d"
  by (simp add: known_to_def find_client_def)

lemma take_id_clients:
  "take_transaction_id b = (tid, b') \<Longrightarrow> ib_clients b' = ib_clients b \<and> ib_port_bound b' = ib_port_bound b \<and> ib_trace b' = ib_trace b \<and>
     ib_bus_generation b' = ib_bus_generation b"
  by (auto simp: take_transaction_id_def split: if_splits)

text \<open>On a free bus that accepts, the chunk becomes the active transaction.\<close>

definition sent :: "fram_driver \<Rightarrow> i2c_bus \<Rightarrow> fram_driver \<Rightarrow> i2c_bus \<Rightarrow> bool" where
  "sent d b d' b' \<longleftrightarrow>
     (\<exists>tid g. d' = (prepare_chunk d)\<lparr>fr_active_transaction_id := tid, fr_last_bus_generation := g, fr_state := FRAM_STATE_WAITING_I2C\<rparr> \<and>
        port_requests b' = port_requests b @ [chunk_port_request d tid (ib_bus_generation b)] \<and>
        key (ib_active b') = waits_for d' \<and> bp_bus_generation (ib_active b') = ib_bus_generation b') \<and>
     ib_busy b' \<and> ib_pending b' = [] \<and> ib_clients b' = ib_clients b \<and> ib_port_bound b' = ib_port_bound b"

lemma chunk_is_sent:
  assumes tr: "transferring c d" and kn: "known_to b d" and free: "\<not> ib_busy b" "ib_pending b = []"
  shows "\<exists>d' b'. submit_current_chunk accepting d b = (STORAGE_IO_SUBMIT_ACCEPTED, d', b') \<and> sent d b d' b'"
proof -
  let ?r = "chunk_request (prepare_chunk d)"
  note f = transferring_facts [OF tr]
  obtain cl where cl: "find_client b (fc_client_id (fr_config d)) = Some cl" "bc_client_generation cl = fr_client_generation d"
      "bc_address_base cl = fc_slave_address_base (fr_config d)" "bc_address_mask cl = 0x7E" and pb: "ib_port_bound b"
    using kn by (auto simp: known_to_def)
  have oper: "fr_operation d = FRAM_OPERATION_READ \<or> fr_operation d = FRAM_OPERATION_WRITE" using tr by (auto simp: transferring_def)
  have ca: "current_address (prepare_chunk d) = fr_current_address d" using oper by (auto simp: current_address_def)
  have n: "fr_active_chunk_length (prepare_chunk d) = chunk_length d" using oper by (auto simp: prepare_chunk_def Let_def)
  have "unat (chunk_length d) + 1 < 2 ^ LENGTH(16)" using f(5) by simp
  then have "unat (1 + chunk_length d) = unat (chunk_length d) + 1" unfolding add.commute [of 1 "chunk_length d"] by (rule unat_inc)
  then have n1: "1 + chunk_length d \<noteq> 0" by (metis Suc_eq_plus1 nat.distinct(1) unat_0)
  have valid: "\<not> request_invalid ?r"
    using tr oper n1 by (auto simp: request_invalid_def chunk_request_def transferring_def token_is_valid_def n)
  have ids: "br_client_id ?r = fc_client_id (fr_config d)" "br_client_generation ?r = fr_client_generation d"
    by (simp_all add: chunk_request_def)
  have addr: "client_accepts_address cl (br_slave_address ?r)"
    using slave_parts(2) [of "fc_slave_address_base (fr_config d)" "fr_current_address d"] tr f cl
    by (simp add: client_accepts_address_def chunk_request_def slave_address_def ca transferring_def config_is_valid_def)
  obtain tid b1 where ti: "take_transaction_id b = (tid, b1)" by fastforce
  note same = take_id_same [OF ti] take_id_clients [OF ti]
  let ?t = "new_pending ?r tid b1" and ?b2 = "b1\<lparr>ib_next_admission_sequence := ib_next_admission_sequence b1 + 1\<rparr>"
  have fc: "find_client ?b2 i = find_client b i" for i using same by (simp add: find_client_def)
  have start: "startable ?t ?b2"
    using cl pb addr same by (simp add: startable_def fc new_pending_def ids)
  let ?q = "port_request (?t\<lparr>bp_bus_generation := ib_bus_generation b\<rparr>)"
  let ?b3 = "emit (Accepted tid) ((emit (Port_submit ?q PORT_OK) ?b2)\<lparr>ib_busy := True, ib_active := ?t\<lparr>bp_bus_generation := ib_bus_generation b\<rparr>\<rparr>)"
  have ad: "admit accepting ?r b = (I2C_SUBMIT_ACCEPTED, tid, ?b3)"
    using start same free by (simp add: admit_def ti start_transaction_def Let_def)
  have sub: "i2c_bus_submit accepting ?r b = (I2C_SUBMIT_ACCEPTED, tid, ?b3)"
    using valid pb cl ids addr ad by (simp add: i2c_bus_submit_def)
  obtain g where s: "submit_current_chunk accepting d b = (STORAGE_IO_SUBMIT_ACCEPTED,
      (prepare_chunk d)\<lparr>fr_active_transaction_id := tid, fr_last_bus_generation := g, fr_state := FRAM_STATE_WAITING_I2C\<rparr>, ?b3)"
    using sub by (simp add: submit_current_chunk_def Let_def)
  have q: "?q = chunk_port_request d tid (ib_bus_generation b)"
    by (simp add: port_request_def new_pending_def chunk_port_request_def Let_def)
  have pr: "port_requests ?b3 = port_requests b @ [chunk_port_request d tid (ib_bus_generation b)]"
    unfolding q using same by (simp add: port_requests_def emit_def map_filter_def)
  have "sent d b ((prepare_chunk d)\<lparr>fr_active_transaction_id := tid, fr_last_bus_generation := g, fr_state := FRAM_STATE_WAITING_I2C\<rparr>) ?b3"
    unfolding sent_def
    by (intro conjI exI [of _ tid] exI [of _ g] refl pr)
      (use same free in \<open>simp_all add: key_def new_pending_def waits_for_def chunk_request_def\<close>)
  then show ?thesis using s by blast
qed

text \<open>The driver waits for the active transaction.\<close>

definition moving :: "fram_config \<Rightarrow> fram_driver \<Rightarrow> i2c_bus \<Rightarrow> bool" where
  "moving c d b \<longleftrightarrow> transferring c d \<and> known_to b d \<and> fr_state d = FRAM_STATE_WAITING_I2C \<and>
     fr_active_chunk_length d = chunk_length d \<and> ib_busy b \<and> ib_pending b = [] \<and>
     key (ib_active b) = waits_for d \<and> bp_bus_generation (ib_active b) = ib_bus_generation b"

definition same_operation :: "fram_driver \<Rightarrow> fram_driver \<Rightarrow> bool" where
  "same_operation d d' \<longleftrightarrow> fr_operation d' = fr_operation d \<and> fr_start_address d' = fr_start_address d \<and>
     fr_requested_length d' = fr_requested_length d \<and> fr_write_buffer d' = fr_write_buffer d \<and> fr_token d' = fr_token d \<and>
     fr_completions d' = fr_completions d"

lemma sent_moving:
  assumes tr: "transferring c d" and kn: "known_to b d" and s: "sent d b d' b'"
  shows "moving c d' b'" "same_operation d d'" "fr_transferred_length d' = fr_transferred_length d" "chunk_length d' = chunk_length d"
proof -
  obtain tid g where d': "d' = (prepare_chunk d)\<lparr>fr_active_transaction_id := tid, fr_last_bus_generation := g, fr_state := FRAM_STATE_WAITING_I2C\<rparr>"
    using s by (auto simp: sent_def)
  have oper: "fr_operation d = FRAM_OPERATION_READ \<or> fr_operation d = FRAM_OPERATION_WRITE" using tr by (auto simp: transferring_def)
  show cl: "chunk_length d' = chunk_length d" by (simp add: d' chunk_length_def Let_def)
  have "length (fr_tx_buffer (prepare_chunk d)) = 33"
    using tr transferring_facts(5,6) [OF tr] oper by (auto simp: prepare_chunk_def Let_def transferring_def)
  then have "transferring c d'" using tr by (simp add: transferring_def d')
  moreover have "known_to b' d'" using kn known_to_same [of b' b d' d] s by (simp add: sent_def d')
  moreover have "fr_active_chunk_length d' = chunk_length d'" using oper unfolding cl by (auto simp: d' prepare_chunk_def Let_def)
  ultimately show "moving c d' b'" using s by (auto simp: moving_def sent_def)
  show "same_operation d d'" "fr_transferred_length d' = fr_transferred_length d" by (simp_all add: d' same_operation_def)
qed

text \<open>Serving the active transaction: the next chunk is sent, or the operation is completed.\<close>

definition after_chunk :: "fram_driver \<Rightarrow> u32 \<Rightarrow> fram_driver" where
  "after_chunk d g = d\<lparr>fr_last_bus_generation := g, fr_transferred_length := fr_transferred_length d + chunk_length d,
     fr_current_address := fr_start_address d + (fr_transferred_length d + chunk_length d)\<rparr>"

lemma serve_callback:
  assumes m: "moving c d b"
  shows "serve (d, b) = start_next accepting (fram_callback accepting)
     (let d1 = after_chunk d (bp_bus_generation (ib_active b));
          b1 = emit (Notify (completion_of (ib_active b) I2C_TRANSACTION_OK)) ((release b)\<lparr>ib_completed_count := ib_completed_count b + 1\<rparr>)
      in if fr_transferred_length d1 < fr_requested_length d1 then next_chunk_or_fail accepting d1 b1
         else (emit_completion STORAGE_IO_RESULT_OK d1, b1))"
proof -
  have k: "bp_client_id (ib_active b) = fc_client_id (fr_config d)" "bp_transaction_id (ib_active b) = fr_active_transaction_id d"
      "bp_correlation_id (ib_active b) = tk_correlation_id (fr_token d)" "bp_client_generation (ib_active b) = fr_client_generation d"
    using m by (auto simp: moving_def key_def waits_for_def)
  have st: "ib_busy b" "bp_bus_generation (ib_active b) = ib_bus_generation b" "fr_state d = FRAM_STATE_WAITING_I2C"
      "fr_active_chunk_length d = chunk_length d" "fr_operation d \<noteq> FRAM_OPERATION_PROBE"
    using m by (auto simp: moving_def transferring_def)
  obtain cl where cl: "find_client b (fc_client_id (fr_config d)) = Some cl" "bc_on_complete cl"
    using m by (auto simp: moving_def known_to_def)
  let ?b1 = "(release b)\<lparr>ib_completed_count := ib_completed_count b + 1\<rparr>"
  have fc: "find_client ?b1 (bp_client_id (ib_active b)) = Some cl" using cl k by (simp add: find_client_def)
  have n: "notify (fram_callback accepting) (ib_active b) I2C_TRANSACTION_OK (d, ?b1) =
      fram_on_i2c_completion accepting (completion_of (ib_active b) I2C_TRANSACTION_OK) d
        (emit (Notify (completion_of (ib_active b) I2C_TRANSACTION_OK)) ?b1)"
    using fc cl k by (simp add: notify_def fram_callback_def completion_of_def)
  have "serve (d, b) = start_next accepting (fram_callback accepting) (notify (fram_callback accepting) (ib_active b) I2C_TRANSACTION_OK (d, ?b1))"
    using st by (simp add: serve_def i2c_bus_active_def i2c_bus_on_port_completion_def i2c_bus_complete_def port_request_def Let_def
        release_def option.map_comp o_def option.map_ident)
  then show ?thesis
    unfolding n using st k by (simp add: fram_on_i2c_completion_def completion_of_def Let_def after_chunk_def)
qed

lemma serve_moves:
  assumes m: "moving c d b"
    and more: "unat (fr_transferred_length d) + unat (chunk_length d) < unat (fr_requested_length d)"
  shows "\<exists>d1 d' b' tid g. serve (d, b) = Some (d', b') \<and> moving c d' b' \<and> same_operation d d' \<and> transferring c d1 \<and> same_operation d d1 \<and>
    unat (fr_transferred_length d') = unat (fr_transferred_length d) + unat (chunk_length d) \<and>
    fr_transferred_length d1 = fr_transferred_length d' \<and> chunk_length d' = chunk_length d1 \<and>
    port_requests b' = port_requests b @ [chunk_port_request d1 tid g]"
proof -
  have tr: "transferring c d" and kn: "known_to b d" using m by (simp_all add: moving_def)
  note f = transferring_facts [OF tr]
  define d1 where "d1 = after_chunk d (bp_bus_generation (ib_active b))"
  define b1 where "b1 = emit (Notify (completion_of (ib_active b) I2C_TRANSACTION_OK)) ((release b)\<lparr>ib_completed_count := ib_completed_count b + 1\<rparr>)"
  have sum: "unat (fr_transferred_length d + chunk_length d) = unat (fr_transferred_length d) + unat (chunk_length d)"
    using f(3) more by (intro unat_add_lt) simp
  have lt: "fr_transferred_length d1 < fr_requested_length d1" using sum more by (simp add: d1_def after_chunk_def word_less_nat_alt)
  have tr1: "transferring c d1" using tr lt by (auto simp: transferring_def d1_def after_chunk_def)
  have kn1: "known_to b1 d1" using kn known_to_same [of b1 b d1 d] by (simp add: b1_def d1_def after_chunk_def release_def)
  have free: "\<not> ib_busy b1" "ib_pending b1 = []" using m by (simp_all add: b1_def moving_def)
  obtain d' b' where s: "submit_current_chunk accepting d1 b1 = (STORAGE_IO_SUBMIT_ACCEPTED, d', b')" "sent d1 b1 d' b'"
    using chunk_is_sent [OF tr1 kn1 free] by blast
  note mv = sent_moving [OF tr1 kn1 s(2)]
  have "serve (d, b) = Some (d', b')"
    using serve_callback [OF m] lt s mv(1)
    by (simp add: d1_def [symmetric] b1_def [symmetric] Let_def next_chunk_or_fail_def start_next_busy moving_def)
  moreover obtain tid g where "port_requests b' = port_requests b1 @ [chunk_port_request d1 tid g]" using s(2) by (auto simp: sent_def)
  moreover have "port_requests b1 = port_requests b" by (simp add: b1_def port_requests_def release_def emit_def map_filter_def)
  moreover have so: "same_operation d d1" by (simp add: same_operation_def d1_def after_chunk_def)
  moreover have "same_operation d d'" using so mv(2) by (simp add: same_operation_def)
  moreover have "unat (fr_transferred_length d') = unat (fr_transferred_length d) + unat (chunk_length d)"
    using mv(3) sum by (simp add: d1_def after_chunk_def)
  ultimately show ?thesis using mv(1,3,4) tr1 by metis
qed

lemma serve_ends:
  assumes m: "moving c d b"
    and last: "unat (fr_transferred_length d) + unat (chunk_length d) = unat (fr_requested_length d)"
  shows "\<exists>d' b' k. serve (d, b) = Some (d', b') \<and> fr_state d' = FRAM_STATE_IDLE \<and> \<not> ib_busy b' \<and> port_requests b' = port_requests b \<and>
    fr_completions d' = fr_completions d @ [k] \<and> ic_token k = fr_token d \<and> ic_result k = STORAGE_IO_RESULT_OK \<and>
    ic_transferred_length k = unat (fr_requested_length d)"
proof -
  have tr: "transferring c d" using m by (simp add: moving_def)
  note f = transferring_facts [OF tr]
  define d1 where "d1 = after_chunk d (bp_bus_generation (ib_active b))"
  define b1 where "b1 = emit (Notify (completion_of (ib_active b) I2C_TRANSACTION_OK)) ((release b)\<lparr>ib_completed_count := ib_completed_count b + 1\<rparr>)"
  have sum: "unat (fr_transferred_length d + chunk_length d) = unat (fr_requested_length d)"
    using f(3) last unat_add_lt [of "fr_transferred_length d" "chunk_length d"] by simp
  have lt: "\<not> fr_transferred_length d1 < fr_requested_length d1" using sum by (simp add: d1_def after_chunk_def word_less_nat_alt)
  have idle: "\<not> ib_busy b1" "ib_pending b1 = []" using m by (simp_all add: b1_def moving_def)
  have "serve (d, b) = start_next accepting (fram_callback accepting) (emit_completion STORAGE_IO_RESULT_OK d1, b1)"
    using serve_callback [OF m] lt by (simp add: d1_def [symmetric] b1_def [symmetric] Let_def)
  also have "\<dots> = Some (emit_completion STORAGE_IO_RESULT_OK d1, b1)" using idle by (subst start_next.simps) simp
  finally have s: "serve (d, b) = Some (emit_completion STORAGE_IO_RESULT_OK d1, b1)" .
  have "fr_completion_bound d1" "fr_completions d1 = fr_completions d" "fr_token d1 = fr_token d"
    using tr by (simp_all add: transferring_def d1_def after_chunk_def)
  moreover have "port_requests b1 = port_requests b" by (simp add: b1_def port_requests_def release_def emit_def map_filter_def)
  moreover have "ic_transferred_length (storage_completion d1 STORAGE_IO_RESULT_OK) = unat (fr_requested_length d)"
    using sum by (simp add: storage_completion_def d1_def after_chunk_def)
  ultimately show ?thesis using s idle by (auto simp: storage_completion_def)
qed

text \<open>A transaction stays in its page and moves at most 32 bytes.\<close>

definition in_page :: "i2c_port_request \<Rightarrow> bool" where
  "in_page q \<longleftrightarrow> length (touched q) \<le> 32 \<and> unat (hd (the (pq_tx q))) + length (touched q) \<le> 256"

lemma chunk_in_page:
  assumes "transferring c d"
  shows "in_page (chunk_port_request d tid g)"
proof -
  note f = transferring_facts [OF assms]
  have oper: "fr_operation d = FRAM_OPERATION_READ \<or> fr_operation d = FRAM_OPERATION_WRITE" using assms by (auto simp: transferring_def)
  have ca: "current_address d = fr_current_address d" using oper by (auto simp: current_address_def)
  have "hd (the (pq_tx (chunk_port_request d tid g))) = ucast (fr_current_address d AND 0xFF)"
    by (simp add: chunk_port_request_def chunk_request_def prepare_chunk_def Let_def ca)
  then have "unat (hd (the (pq_tx (chunk_port_request d tid g)))) = unat (fr_current_address d) mod 256"
    by (simp add: unsigned_ucast_eq take_bit_eq_mod unat_and_255)
  then show ?thesis using f by (simp add: in_page_def chunk_touches(1) [OF assms])
qed

text \<open>What has been sent so far: all the chunks up to and including the active one.\<close>

definition sent_so_far :: "fram_driver \<Rightarrow> i2c_bus \<Rightarrow> nat \<Rightarrow> bool" where
  "sent_so_far d b n \<longleftrightarrow>
     concat (map touched (port_requests b)) = [unat (fr_start_address d)..<unat (fr_start_address d) + n] \<and>
     list_all in_page (port_requests b) \<and>
     (fr_operation d = FRAM_OPERATION_WRITE \<longrightarrow> concat (map payload (port_requests b)) = take n (the (fr_write_buffer d)))"

lemma sent_so_far_step:
  assumes tr: "transferring c d1" and so: "sent_so_far d b (unat (fr_transferred_length d1))" and same: "same_operation d d1" "same_operation d d'"
    and pr: "port_requests b' = port_requests b @ [chunk_port_request d1 tid g]"
  shows "sent_so_far d' b' (unat (fr_transferred_length d1) + unat (chunk_length d1))"
proof -
  note f = transferring_facts [OF tr]
  let ?s = "unat (fr_start_address d1)" and ?t = "unat (fr_transferred_length d1)" and ?n = "unat (chunk_length d1)"
  have e: "fr_start_address d = fr_start_address d1" "fr_start_address d' = fr_start_address d1" "fr_operation d = fr_operation d1"
      "fr_operation d' = fr_operation d1" "fr_write_buffer d = fr_write_buffer d1" "fr_write_buffer d' = fr_write_buffer d1"
    using same by (simp_all add: same_operation_def)
  have "concat (map touched (port_requests b')) = [?s..<?s + ?t] @ [?s + ?t..<?s + ?t + ?n]"
    using so f(1) chunk_touches(1) [OF tr] by (simp add: pr sent_so_far_def e)
  also have "\<dots> = [?s..<?s + (?t + ?n)]" using upt_add_eq_append [of ?s "?s + ?t" ?n] by (simp add: add.assoc)
  finally have 1: "concat (map touched (port_requests b')) = [?s..<?s + (?t + ?n)]" .
  have 2: "list_all in_page (port_requests b')" using so chunk_in_page [OF tr] by (simp add: pr sent_so_far_def)
  have 3: "concat (map payload (port_requests b')) = take (?t + ?n) (the (fr_write_buffer d1))" if "fr_operation d1 = FRAM_OPERATION_WRITE"
    using so chunk_touches(2) [OF tr] that by (simp add: pr sent_so_far_def e take_add)
  show ?thesis using 1 2 3 by (simp add: sent_so_far_def e)
qed

lemma moving_completes:
  assumes "moving c d b" "sent_so_far d b (unat (fr_transferred_length d) + unat (chunk_length d))"
  shows "\<exists>n d' b' k. n \<le> unat (fr_requested_length d) - unat (fr_transferred_length d) \<and> serve_n n (d, b) = Some (d', b') \<and>
    \<not> fram_is_busy d' \<and> fr_completions d' = fr_completions d @ [k] \<and> ic_token k = fr_token d \<and> ic_result k = STORAGE_IO_RESULT_OK \<and>
    ic_transferred_length k = unat (fr_requested_length d) \<and> sent_so_far d b' (unat (fr_requested_length d))"
  using assms
proof (induction "unat (fr_requested_length d) - unat (fr_transferred_length d)" arbitrary: d b rule: less_induct)
  case less
  have tr: "transferring c d" using less.prems(1) by (simp add: moving_def)
  note f = transferring_facts [OF tr]
  show ?case
  proof (cases "unat (fr_transferred_length d) + unat (chunk_length d) < unat (fr_requested_length d)")
    case True
    obtain d1 d2 b2 tid g where sv: "serve (d, b) = Some (d2, b2)" and mv: "moving c d2 b2" and so: "same_operation d d2"
        and tr1: "transferring c d1" and so1: "same_operation d d1"
        and t2: "unat (fr_transferred_length d2) = unat (fr_transferred_length d) + unat (chunk_length d)"
        and t1: "fr_transferred_length d1 = fr_transferred_length d2" "chunk_length d2 = chunk_length d1"
        and pr: "port_requests b2 = port_requests b @ [chunk_port_request d1 tid g]"
      using serve_moves [OF less.prems(1) True] by blast
    have "sent_so_far d b (unat (fr_transferred_length d1))" using less.prems(2) t1 t2 by simp
    then have ss: "sent_so_far d2 b2 (unat (fr_transferred_length d2) + unat (chunk_length d2))"
      using sent_so_far_step [OF tr1 _ so1 so pr] t1 by simp
    have e: "fr_requested_length d2 = fr_requested_length d" "fr_completions d2 = fr_completions d" "fr_token d2 = fr_token d"
      using so by (simp_all add: same_operation_def)
    have dec: "unat (fr_requested_length d2) - unat (fr_transferred_length d2) < unat (fr_requested_length d) - unat (fr_transferred_length d)"
      using t2 e(1) f by simp
    obtain n d' b' k where *: "n \<le> unat (fr_requested_length d2) - unat (fr_transferred_length d2)" "serve_n n (d2, b2) = Some (d', b')"
      "\<not> fram_is_busy d'" "fr_completions d' = fr_completions d2 @ [k]" "ic_token k = fr_token d2" "ic_result k = STORAGE_IO_RESULT_OK"
      "ic_transferred_length k = unat (fr_requested_length d2)" "sent_so_far d2 b' (unat (fr_requested_length d2))"
      using less.hyps [OF dec mv ss] by blast
    have "sent_so_far d b' (unat (fr_requested_length d))" using *(8) so by (simp add: sent_so_far_def same_operation_def)
    moreover have "serve_n (Suc n) (d, b) = Some (d', b')" using sv *(2) by simp
    moreover have "Suc n \<le> unat (fr_requested_length d) - unat (fr_transferred_length d)" using *(1) dec by linarith
    ultimately show ?thesis using * e by metis
  next
    case False
    then have last: "unat (fr_transferred_length d) + unat (chunk_length d) = unat (fr_requested_length d)" using f(6) by simp
    obtain d' b' k where *: "serve (d, b) = Some (d', b')" "fr_state d' = FRAM_STATE_IDLE" "port_requests b' = port_requests b"
      "fr_completions d' = fr_completions d @ [k]" "ic_token k = fr_token d" "ic_result k = STORAGE_IO_RESULT_OK"
      "ic_transferred_length k = unat (fr_requested_length d)"
      using serve_ends [OF less.prems(1) last] by blast
    have "serve_n 1 (d, b) = Some (d', b')" using *(1) by simp
    moreover have "sent_so_far d b' (unat (fr_requested_length d))" using less.prems(2) *(3) last by (simp add: sent_so_far_def)
    moreover have "1 \<le> unat (fr_requested_length d) - unat (fr_transferred_length d)" using f(2) by simp
    ultimately show ?thesis using * by (metis fram_is_busy_def fram_state.distinct(7))
  qed
qed

lemma begin_moves:
  assumes idle: "fr_state d = FRAM_STATE_IDLE" and c: "fr_config d = c" "config_is_valid c" and bd: "fr_completion_bound d"
    and gen: "fr_client_generation d \<noteq> 0" and tx: "length (fr_tx_buffer d) = 33" and kn: "known_to b d"
    and free: "\<not> ib_busy b" "ib_pending b = []" "port_requests b = []"
    and len: "len \<noteq> 0" "unat address + unat len \<le> 512" and tok: "token_is_valid token" "deadline \<noteq> 0"
    and oper: "oper = FRAM_OPERATION_READ \<and> rbuf \<noteq> None \<or> oper = FRAM_OPERATION_WRITE \<and> (\<exists>bs. wbuf = Some bs \<and> unat len \<le> length bs)"
  shows "\<exists>d' b'. begin_operation accepting oper address rbuf wbuf len token deadline d b = (STORAGE_IO_SUBMIT_ACCEPTED, d', b') \<and>
    moving c d' b' \<and> sent_so_far d' b' (unat (fr_transferred_length d') + unat (chunk_length d')) \<and>
    fr_start_address d' = address \<and> fr_requested_length d' = len \<and> fr_transferred_length d' = 0 \<and> fr_operation d' = oper \<and>
    fr_write_buffer d' = wbuf \<and> fr_token d' = token \<and> fr_completions d' = fr_completions d"
proof -
  define d1 where "d1 = d\<lparr>fr_operation := oper, fr_token := token, fr_start_address := address, fr_current_address := address,
                   fr_requested_length := len, fr_transferred_length := 0, fr_deadline_us := deadline,
                   fr_read_buffer := rbuf, fr_write_buffer := wbuf, fr_submitted_count := fr_submitted_count d + 1\<rparr>"
  have lz: "0 < unat len" using len(1) by (simp add: unat_gt_0)
  have range: "range_is_valid address len"
    using len lz by (simp add: range_is_valid_def word_less_nat_alt word_le_nat_alt unat_sub)
  have tr: "transferring c d1"
    using c bd gen tx len tok oper by (auto simp: transferring_def d1_def word_gt_0)
  have kn1: "known_to b d1" using kn known_to_same [of b b d1 d] by (simp add: d1_def)
  obtain d2 b2 where s: "submit_current_chunk accepting d1 b = (STORAGE_IO_SUBMIT_ACCEPTED, d2, b2)" "sent d1 b d2 b2"
    using chunk_is_sent [OF tr kn1 free(1,2)] by blast
  note mv = sent_moving [OF tr kn1 s(2)]
  have go: "begin_operation accepting oper address rbuf wbuf len token deadline d b = (STORAGE_IO_SUBMIT_ACCEPTED, note_accepted token d2, b2)"
    using idle tok range len s oper by (auto simp: begin_operation_def Let_def d1_def [symmetric])
  obtain tid g where pr: "port_requests b2 = port_requests b @ [chunk_port_request d1 tid g]" using s(2) by (auto simp: sent_def)
  have z: "fr_transferred_length d1 = 0" by (simp add: d1_def)
  have "sent_so_far d1 b (unat (fr_transferred_length d1))" by (simp add: sent_so_far_def free z)
  then have so: "sent_so_far d2 b2 (unat (fr_transferred_length d1) + unat (chunk_length d1))"
    using sent_so_far_step [OF tr _ _ mv(2) pr] by (simp add: same_operation_def)
  have n: "chunk_length (note_accepted token d2) = chunk_length d2" "waits_for (note_accepted token d2) = waits_for d2"
    by (simp_all add: note_accepted_def chunk_length_def Let_def waits_for_def)
  have "moving c (note_accepted token d2) b2"
    using mv(1) n known_to_same [of b2 b2 "note_accepted token d2" d2] by (auto simp: moving_def transferring_def note_accepted_def)
  moreover have "sent_so_far (note_accepted token d2) b2 (unat (fr_transferred_length d1) + unat (chunk_length d1))"
    using so by (simp add: sent_so_far_def note_accepted_def)
  moreover have "fr_transferred_length (note_accepted token d2) = fr_transferred_length d1" using mv(3) by (simp add: note_accepted_def)
  ultimately show ?thesis using go mv(2,4) n z by (auto simp: same_operation_def note_accepted_def d1_def)
qed

lemma fram_start_facts:
  assumes "fram_start c = Some (d, b)"
  shows "fr_state d = FRAM_STATE_IDLE" "fr_config d = c" "config_is_valid c" "fr_completion_bound d" "fr_client_generation d \<noteq> 0"
    "length (fr_tx_buffer d) = 33" "known_to b d" "\<not> ib_busy b" "ib_pending b = []" "port_requests b = []" "fr_completions d = []"
  using assms
  by (auto simp: fram_start_def fram_init_def fram_bind_completion_def fram_is_busy_def Let_def known_to_def find_client_def
      i2c_bus_register_client_def i2c_bus_init_def port_requests_def map_filter_def
      split: if_splits prod.splits storage_io_submit_result.splits option.splits)

text \<open>C15: a write that fits the memory is accepted and, served by a bus that completes its transactions,
  ends after at most one transaction per byte with exactly one completion, successful and of full length;
  the transactions cover the range once and in order, carry the data of the buffer, and none crosses
  a page or moves more than 32 bytes.\<close>

theorem fram_write_covers_range:
  assumes st: "fram_start c = Some (d0, b0)" and len: "len \<noteq> 0" "unat address + unat len \<le> 512" "unat len \<le> length bs"
    and tok: "token_is_valid token" "deadline \<noteq> 0"
  shows "\<exists>d1 b1 n d b k. fram_write_async accepting address (Some bs) len token deadline d0 b0 = (STORAGE_IO_SUBMIT_ACCEPTED, d1, b1) \<and>
    n \<le> unat len \<and> serve_n n (d1, b1) = Some (d, b) \<and> \<not> fram_is_busy d \<and>
    fr_completions d = [k] \<and> ic_token k = token \<and> ic_result k = STORAGE_IO_RESULT_OK \<and> ic_transferred_length k = unat len \<and>
    concat (map touched (port_requests b)) = [unat address..<unat address + unat len] \<and>
    concat (map payload (port_requests b)) = take (unat len) bs \<and> list_all in_page (port_requests b)"
proof -
  obtain d1 b1 where b: "begin_operation accepting FRAM_OPERATION_WRITE address None (Some bs) len token deadline d0 b0 = (STORAGE_IO_SUBMIT_ACCEPTED, d1, b1)"
    and mv: "moving c d1 b1" and so: "sent_so_far d1 b1 (unat (fr_transferred_length d1) + unat (chunk_length d1))"
    and e: "fr_start_address d1 = address" "fr_requested_length d1 = len" "fr_transferred_length d1 = 0" "fr_operation d1 = FRAM_OPERATION_WRITE"
      "fr_write_buffer d1 = Some bs" "fr_token d1 = token" "fr_completions d1 = fr_completions d0"
    using begin_moves [OF fram_start_facts(1-10) [OF st] len(1,2) tok, where oper = FRAM_OPERATION_WRITE and rbuf = None and wbuf = "Some bs"] len(3) by blast
  show ?thesis
    using moving_completes [OF mv so] b e fram_start_facts(11) [OF st] by (fastforce simp: fram_write_async_def sent_so_far_def)
qed

text \<open>Four bytes across the end of the first page.\<close>

lemma fram_write_covers_range_witness:
  "\<exists>d1 b1 n d b k. fram_write_async accepting 0xFE (Some [1, 2, 3, 4]) 4 fram_sample_token 1000
      (fst (the (fram_start fram_sample))) (snd (the (fram_start fram_sample))) = (STORAGE_IO_SUBMIT_ACCEPTED, d1, b1) \<and>
    serve_n n (d1, b1) = Some (d, b) \<and> fr_completions d = [k] \<and> ic_result k = STORAGE_IO_RESULT_OK \<and>
    concat (map touched (port_requests b)) = [254, 255, 256, 257] \<and> concat (map payload (port_requests b)) = [1, 2, 3, 4]"
proof -
  have "token_is_valid fram_sample_token" by code_simp
  moreover have "[unat (0xFE :: u16)..<unat (0xFE :: u16) + unat (4 :: u16)] = [254, 255, 256, 257]" by code_simp
  ultimately show ?thesis
    using fram_write_covers_range [of fram_sample "fst (the (fram_start fram_sample))" "snd (the (fram_start fram_sample))"
        4 "0xFE" "[1, 2, 3, 4]" fram_sample_token 1000] fram_sample_starts by fastforce
qed

lemma fram_read_covers_range:
  assumes st: "fram_start c = Some (d0, b0)" and len: "len \<noteq> 0" "unat address + unat len \<le> 512"
    and tok: "token_is_valid token" "deadline \<noteq> 0"
  shows "\<exists>d1 b1 n d b k. fram_read_async accepting address (Some buf) len token deadline d0 b0 = (STORAGE_IO_SUBMIT_ACCEPTED, d1, b1) \<and>
    n \<le> unat len \<and> serve_n n (d1, b1) = Some (d, b) \<and> \<not> fram_is_busy d \<and>
    fr_completions d = [k] \<and> ic_token k = token \<and> ic_result k = STORAGE_IO_RESULT_OK \<and> ic_transferred_length k = unat len \<and>
    concat (map touched (port_requests b)) = [unat address..<unat address + unat len] \<and> list_all in_page (port_requests b)"
proof -
  obtain d1 b1 where b: "begin_operation accepting FRAM_OPERATION_READ address (Some buf) None len token deadline d0 b0 = (STORAGE_IO_SUBMIT_ACCEPTED, d1, b1)"
    and mv: "moving c d1 b1" and so: "sent_so_far d1 b1 (unat (fr_transferred_length d1) + unat (chunk_length d1))"
    and e: "fr_start_address d1 = address" "fr_requested_length d1 = len" "fr_transferred_length d1 = 0" "fr_operation d1 = FRAM_OPERATION_READ"
      "fr_token d1 = token" "fr_completions d1 = fr_completions d0"
    using begin_moves [OF fram_start_facts(1-10) [OF st] len(1,2) tok, where oper = FRAM_OPERATION_READ and rbuf = "Some buf" and wbuf = None] by blast
  show ?thesis
    using moving_completes [OF mv so] b e fram_start_facts(11) [OF st] by (fastforce simp: fram_read_async_def sent_so_far_def)
qed

end
