(* ===== verification/Processing.thy ===== *)
theory Processing
  imports Checked_Math Event_Queue Repository
begin

text \<open>
  From raw samples to results: sensor profiles and their validation (services/configuration), the flow
  and pressure services (services/processing) and the temperature calibration (services/calibration).

  A conversion returns its candidate or the status of its failure.  The services write their result
  through a transaction of the repository; the transaction, the repository and the event queue are
  passed along.  A profile or calibration that is not configured is None.
\<close>

unbundle bit_operations_syntax

section \<open>Profiles\<close>

record profile_identity =
  pi_profile_id :: u32
  pi_schema_version :: u32
  pi_calibration_version :: u32
  pi_qualification_status :: u8

record temperature_profile =
  tpf_id :: profile_identity
  tpf_rtd_r0 :: i64
  tpf_rtd_table_size :: u16
  tpf_rtd_temp_table :: "i64 list"
  tpf_rtd_res_table :: "i64 list"

record flow_profile =
  fpf_id :: profile_identity
  fpf_pipe_area :: i64
  fpf_path_length :: i64
  fpf_acoustic_velocity :: i64

record pressure_profile =
  ppf_id :: profile_identity
  ppf_pa_min :: i32
  ppf_pa_max :: i32
  ppf_application_min :: i32
  ppf_application_max :: i32
  ppf_endpoint_lo_raw :: i64
  ppf_endpoint_hi_raw :: i64
  ppf_endpoint_lo_pa :: i32
  ppf_endpoint_hi_pa :: i32
  ppf_reference_type :: u8

record calibration_record =
  cr_record_version :: u32
  cr_gain :: i64
  cr_offset :: i64
  cr_shift :: u8

text \<open>Inl is the failure with its message.\<close>

definition profile_validate_temperature :: "temperature_profile option \<Rightarrow> string + unit" where
  "profile_validate_temperature q =
     (case q of None \<Rightarrow> Inl ''NULL profile''
      | Some p \<Rightarrow>
          if tpf_rtd_table_size p < 2 then Inl ''RTD table too small''
          else if \<not> table_is_monotonic (tpf_rtd_temp_table p) (tpf_rtd_res_table p) (unat (tpf_rtd_table_size p))
          then Inl ''RTD table not monotonic''
          else Inr ())"

definition profile_validate_flow :: "flow_profile option \<Rightarrow> string + unit" where
  "profile_validate_flow q =
     (case q of None \<Rightarrow> Inl ''NULL profile''
      | Some p \<Rightarrow>
          if fpf_pipe_area p \<le> 0 then Inl ''Invalid pipe area''
          else if fpf_path_length p \<le> 0 then Inl ''Invalid path length''
          else Inr ())"

definition profile_validate_pressure :: "pressure_profile option \<Rightarrow> string + unit" where
  "profile_validate_pressure q =
     (case q of None \<Rightarrow> Inl ''NULL profile''
      | Some p \<Rightarrow>
          if ppf_pa_max p \<le> ppf_pa_min p then Inl ''Invalid range''
          else if ppf_endpoint_hi_raw p \<le> ppf_endpoint_lo_raw p then Inl ''Invalid endpoint raw''
          else Inr ())"

text \<open>The cast to \<open>int32_t\<close>.\<close>

definition narrow_i32 :: "int \<Rightarrow> i32" where
  "narrow_i32 x = sint (word_of_int x :: u32)"

definition live_metadata :: result_metadata where
  "live_metadata = zero_metadata\<lparr>md_purpose := MEAS_PURPOSE_PRODUCTION, md_origin := DATA_ORIGIN_LIVE_DEVICE,
     md_provenance := PROVENANCE_MEASURED, md_validity := DATA_VALID, md_freshness := DATA_FRESH, md_acceptance := DATA_ACCEPTED\<rparr>"

definition result_event :: "event_id \<Rightarrow> u32 \<Rightarrow> app_event" where
  "result_event i correlation_id = zero_event\<lparr>ev_id := i, ev_priority := EVENT_PRIO_MEASUREMENT, ev_delivery := DELIVERY_EDGE,
     ev_correlation_id := correlation_id\<rparr>"

definition post :: "app_event \<Rightarrow> app_event_queue \<Rightarrow> app_event_queue" where
  "post e q = fst (snd (app_event_queue_post q (Some e)))"

section \<open>Flow\<close>

datatype flow_process_status =
    FLOW_OK | FLOW_INVALID_TOF | FLOW_TEMPERATURE_MISSING | FLOW_TEMPERATURE_STALE | FLOW_PROFILE_ERROR
  | FLOW_NUMERIC_ERROR | FLOW_INTERNAL_ERROR

record flow_candidate =
  fcn_source_id :: u32
  fcn_flow_ul_per_s :: i64
  fcn_direction :: flow_direction
  fcn_processing_flags :: u32
  fcn_meta :: result_metadata

record flow_service =
  fs_generation :: u32
  fs_active_profile :: "flow_profile option"
  fs_active_cal :: "calibration_record option"
  fs_accepted_count :: u32
  fs_rejected_stale_count :: u32

definition flow_service_init :: flow_service where
  "flow_service_init = \<lparr>fs_generation = 1, fs_active_profile = None, fs_active_cal = None, fs_accepted_count = 0,
     fs_rejected_stale_count = 0\<rparr>"

definition flow_service_set_profile :: "flow_profile option \<Rightarrow> flow_service \<Rightarrow> flow_service" where
  "flow_service_set_profile p s = s\<lparr>fs_active_profile := p\<rparr>"

definition flow_service_set_calibration :: "calibration_record option \<Rightarrow> flow_service \<Rightarrow> flow_service" where
  "flow_service_set_calibration c s = s\<lparr>fs_active_cal := c\<rparr>"

definition tof_invalid :: "i64 \<Rightarrow> i64 \<Rightarrow> flow_profile \<Rightarrow> bool" where
  "tof_invalid up down p \<longleftrightarrow> up < 8000000 \<or> down < 8000000 \<or> up > 8000000000 \<or> down > 8000000000 \<or>
     fpf_path_length p \<le> 0 \<or> fpf_pipe_area p \<le> 0 \<or> fpf_acoustic_velocity p \<le> 0"

definition flow_direction_of :: "i64 \<Rightarrow> flow_direction" where
  "flow_direction_of q = (if q > 0 then FLOW_DIRECTION_FORWARD else if q < 0 then FLOW_DIRECTION_REVERSE else FLOW_DIRECTION_NONE)"

text \<open>The checked steps from the time difference to the volumetric flow before calibration.\<close>

definition flow_raw :: "i64 \<Rightarrow> flow_profile \<Rightarrow> i64 option" where
  "flow_raw delta_tof p =
     (case checked_mul_i64 (fpf_acoustic_velocity p) (fpf_acoustic_velocity p) of None \<Rightarrow> None
      | Some c_squared \<Rightarrow>
     (case checked_mul_i64 c_squared delta_tof of None \<Rightarrow> None
      | Some n1 \<Rightarrow>
     (case checked_mul_i64 n1 1000 of None \<Rightarrow> None
      | Some numerator \<Rightarrow>
     (case checked_mul_i64 (fpf_path_length p) 2000000000000 of None \<Rightarrow> None
      | Some denominator \<Rightarrow>
          if denominator = 0 then None
          else
            let velocity_mm_per_s = numerator sdiv denominator
            in map_option (\<lambda>x. x sdiv 1000) (checked_mul_i64 velocity_mm_per_s (fpf_pipe_area p))))))"

definition flow_compute ::
  "i64 \<Rightarrow> i64 \<Rightarrow> i32 \<Rightarrow> flow_profile option \<Rightarrow> calibration_record option \<Rightarrow> flow_process_status + flow_candidate" where
  "flow_compute up down paired_temp profile cal =
     (case (profile, cal) of
        (Some p, Some c) \<Rightarrow>
          if tof_invalid up down p then Inl FLOW_INVALID_TOF
          else (case checked_sub_i64 down up of None \<Rightarrow> Inl FLOW_NUMERIC_ERROR
            | Some delta_tof \<Rightarrow>
                if paired_temp < -50000 \<or> paired_temp > 150000 then Inl FLOW_TEMPERATURE_MISSING
                else (case flow_raw delta_tof p of None \<Rightarrow> Inl FLOW_NUMERIC_ERROR
                  | Some raw \<Rightarrow>
                      (case apply_gain_offset raw (cr_gain c) (cr_offset c) (unat (cr_shift c)) of
                         None \<Rightarrow> Inl FLOW_NUMERIC_ERROR
                       | Some q \<Rightarrow> Inr \<lparr>fcn_source_id = 0, fcn_flow_ul_per_s = q, fcn_direction = flow_direction_of q,
                                       fcn_processing_flags = 0, fcn_meta = zero_metadata\<rparr>)))
      | _ \<Rightarrow> Inl FLOW_INTERNAL_ERROR)"

definition age_between :: "u64 \<Rightarrow> u64 \<Rightarrow> u64" where
  "age_between a b = (if a > b then a - b else b - a)"

definition temperature_usable :: "temperature_result \<Rightarrow> bool" where
  "temperature_usable t \<longleftrightarrow> md_validity (tp_meta t) = DATA_VALID \<and> md_freshness (tp_meta t) = DATA_FRESH \<and>
     md_acceptance (tp_meta t) = DATA_ACCEPTED"

definition flow_result_of :: "result_metadata \<Rightarrow> flow_profile \<Rightarrow> calibration_record \<Rightarrow> temperature_result \<Rightarrow> flow_candidate \<Rightarrow> flow_result" where
  "flow_result_of m p c t k =
     zero_flow\<lparr>fl_meta := m\<lparr>md_config_version := pi_schema_version (fpf_id p), md_calibration_version := cr_record_version c,
                            md_binding := (md_binding m)\<lparr>mb_profile_version := pi_schema_version (fpf_id p)\<rparr>\<rparr>,
       fl_flow_ul_per_s := fcn_flow_ul_per_s k, fl_direction := fcn_direction k,
       fl_paired_temperature_sequence := md_sample_sequence (tp_meta t)\<rparr>"

definition flow_service_accept_sample ::
  "flow_service \<Rightarrow> i64 \<Rightarrow> i64 \<Rightarrow> result_metadata \<Rightarrow> temperature_result \<Rightarrow> repo_write_txn \<Rightarrow> data_repository \<Rightarrow>
   flow_process_status \<times> flow_service \<times> repo_write_txn \<times> data_repository" where
  "flow_service_accept_sample s up down m t txn r =
     (case (fs_active_profile s, fs_active_cal s) of
        (Some p, Some c) \<Rightarrow>
          if \<not> temperature_usable t then (FLOW_TEMPERATURE_MISSING, s, txn, r)
          else if age_between (md_sample_monotonic_us m) (md_sample_monotonic_us (tp_meta t)) > 5000000
          then (FLOW_TEMPERATURE_STALE, s, txn, r)
          else (case flow_compute up down (tp_temperature_mdeg_c t) (Some p) (Some c) of
                  Inl status \<Rightarrow> (status, s\<lparr>fs_rejected_stale_count := fs_rejected_stale_count s + 1\<rparr>, txn, r)
                | Inr k \<Rightarrow>
                    (case txn_write_flow (flow_result_of m p c t k) txn r of
                       (ok, txn', r') \<Rightarrow>
                         if \<not> ok then (FLOW_INTERNAL_ERROR, s\<lparr>fs_rejected_stale_count := fs_rejected_stale_count s + 1\<rparr>, txn', r')
                         else (FLOW_OK, s\<lparr>fs_accepted_count := fs_accepted_count s + 1\<rparr>, txn', r')))
      | _ \<Rightarrow> (FLOW_PROFILE_ERROR, s, txn, r))"

text \<open>\<open>snapshot\<close> is what \<open>data_repository_snapshot_copy\<close> returned.\<close>

definition flow_service_accept_tof ::
  "flow_service \<Rightarrow> i64 \<Rightarrow> i64 \<Rightarrow> runtime_snapshot option \<Rightarrow> u32 \<Rightarrow> app_event_queue \<Rightarrow> repo_write_txn \<Rightarrow> data_repository \<Rightarrow>
   flow_process_status \<times> flow_service \<times> app_event_queue \<times> repo_write_txn \<times> data_repository" where
  "flow_service_accept_tof s up down snapshot correlation_id q txn r =
     (if fs_active_profile s = None \<or> fs_active_cal s = None then (FLOW_PROFILE_ERROR, s, q, txn, r)
      else case snapshot of None \<Rightarrow> (FLOW_TEMPERATURE_MISSING, s, q, txn, r)
           | Some snap \<Rightarrow>
               (case flow_service_accept_sample s up down live_metadata (rs_temperature snap) txn r of
                  (status, s', txn', r') \<Rightarrow>
                    (status, s', if status = FLOW_OK then post (result_event EVT_FLOW_RESULT_READY correlation_id) q else q, txn', r')))"

section \<open>Pressure\<close>

datatype pressure_process_status =
    PRESSURE_OK | PRESSURE_INVALID_RAW | PRESSURE_STATUS_INVALID | PRESSURE_MAPPING_ERROR | PRESSURE_PROFILE_ERROR
  | PRESSURE_NUMERIC_ERROR | PRESSURE_INTERNAL_ERROR

record pressure_candidate =
  pcn_source_id :: u32
  pcn_pressure_pa :: i32
  pcn_processing_flags :: u32
  pcn_meta :: result_metadata

record pressure_service =
  prs_generation :: u32
  prs_active_profile :: "pressure_profile option"
  prs_active_cal :: "calibration_record option"
  prs_accepted_count :: u32
  prs_rejected_count :: u32

definition pressure_service_init :: pressure_service where
  "pressure_service_init = \<lparr>prs_generation = 1, prs_active_profile = None, prs_active_cal = None, prs_accepted_count = 0,
     prs_rejected_count = 0\<rparr>"

definition pressure_service_set_profile :: "pressure_profile option \<Rightarrow> pressure_service \<Rightarrow> pressure_service" where
  "pressure_service_set_profile p s = s\<lparr>prs_active_profile := p\<rparr>"

definition pressure_service_set_calibration :: "calibration_record option \<Rightarrow> pressure_service \<Rightarrow> pressure_service" where
  "pressure_service_set_calibration c s = s\<lparr>prs_active_cal := c\<rparr>"

definition pressure_status_invalid :: "u8 \<Rightarrow> bool" where
  "pressure_status_invalid status \<longleftrightarrow>
     (let powered = (status AND 0x40 \<noteq> 0); reserved_mode = (status AND 0x18 = 0x18)
      in status AND 0x80 \<noteq> 0 \<or> \<not> powered \<or> reserved_mode \<or> status AND 0x27 \<noteq> 0)"

definition pressure_convert ::
  "u32 \<Rightarrow> u8 \<Rightarrow> pressure_profile option \<Rightarrow> calibration_record option \<Rightarrow> pressure_process_status + pressure_candidate" where
  "pressure_convert raw_u24 status profile cal =
     (case (profile, cal) of
        (Some p, Some c) \<Rightarrow>
          if pressure_status_invalid status then Inl PRESSURE_STATUS_INVALID
          else if raw_u24 > 0xFFFFFF then Inl PRESSURE_INVALID_RAW
          else if ppf_endpoint_hi_raw p \<le> ppf_endpoint_lo_raw p then Inl PRESSURE_MAPPING_ERROR
          else
            let raw_range = ppf_endpoint_hi_raw p - ppf_endpoint_lo_raw p;
                pa_range = ppf_endpoint_hi_pa p - ppf_endpoint_lo_pa p;
                raw_offset = uint raw_u24 - ppf_endpoint_lo_raw p
            in (case checked_mul_i64 raw_offset pa_range of None \<Rightarrow> Inl PRESSURE_NUMERIC_ERROR
                | Some x \<Rightarrow>
                    (case apply_gain_offset (x sdiv raw_range + ppf_endpoint_lo_pa p) (cr_gain c) (cr_offset c) (unat (cr_shift c)) of
                       None \<Rightarrow> Inl PRESSURE_NUMERIC_ERROR
                     | Some y \<Rightarrow> Inr \<lparr>pcn_source_id = 0, pcn_pressure_pa = narrow_i32 y, pcn_processing_flags = 0,
                                     pcn_meta = zero_metadata\<rparr>))
      | _ \<Rightarrow> Inl PRESSURE_INTERNAL_ERROR)"

definition pressure_result_of :: "result_metadata \<Rightarrow> pressure_profile \<Rightarrow> calibration_record \<Rightarrow> pressure_candidate \<Rightarrow> pressure_result" where
  "pressure_result_of m p c k =
     zero_pressure\<lparr>pr_meta := m\<lparr>md_config_version := pi_schema_version (ppf_id p), md_calibration_version := cr_record_version c,
                                md_binding := (md_binding m)\<lparr>mb_profile_version := pi_schema_version (ppf_id p)\<rparr>\<rparr>,
       pr_pressure_pa := pcn_pressure_pa k\<rparr>"

definition pressure_service_accept_sample ::
  "pressure_service \<Rightarrow> u32 \<Rightarrow> u8 \<Rightarrow> result_metadata \<Rightarrow> repo_write_txn \<Rightarrow> data_repository \<Rightarrow>
   pressure_process_status \<times> pressure_service \<times> repo_write_txn \<times> data_repository" where
  "pressure_service_accept_sample s raw_u24 status m txn r =
     (case (prs_active_profile s, prs_active_cal s) of
        (Some p, Some c) \<Rightarrow>
          (case pressure_convert raw_u24 status (Some p) (Some c) of
             Inl st \<Rightarrow> (st, s\<lparr>prs_rejected_count := prs_rejected_count s + 1\<rparr>, txn, r)
           | Inr k \<Rightarrow>
               (case txn_write_pressure (pressure_result_of m p c k) txn r of
                  (ok, txn', r') \<Rightarrow>
                    if \<not> ok then (PRESSURE_INTERNAL_ERROR, s\<lparr>prs_rejected_count := prs_rejected_count s + 1\<rparr>, txn', r')
                    else (PRESSURE_OK, s\<lparr>prs_accepted_count := prs_accepted_count s + 1\<rparr>, txn', r')))
      | _ \<Rightarrow> (PRESSURE_PROFILE_ERROR, s, txn, r))"

definition pressure_service_accept_raw ::
  "pressure_service \<Rightarrow> u32 \<Rightarrow> u8 \<Rightarrow> u32 \<Rightarrow> app_event_queue \<Rightarrow> repo_write_txn \<Rightarrow> data_repository \<Rightarrow>
   pressure_process_status \<times> pressure_service \<times> app_event_queue \<times> repo_write_txn \<times> data_repository" where
  "pressure_service_accept_raw s raw_u24 status correlation_id q txn r =
     (if prs_active_profile s = None \<or> prs_active_cal s = None then (PRESSURE_PROFILE_ERROR, s, q, txn, r)
      else case pressure_service_accept_sample s raw_u24 status live_metadata txn r of
             (st, s', txn', r') \<Rightarrow>
               (st, s', if st = PRESSURE_OK then post (result_event EVT_PRESSURE_RESULT_READY correlation_id) q else q, txn', r'))"

section \<open>Temperature\<close>

datatype temperature_source_role = TEMP_SOURCE_WATER | TEMP_SOURCE_METER_BODY | TEMP_SOURCE_AMBIENT | TEMP_SOURCE_REFERENCE_ONLY

record temperature_channel_binding =
  tcb_source_id :: u32
  tcb_role :: temperature_source_role
  tcb_probe_port :: u8
  tcb_reference_port :: u8

datatype temperature_process_status =
    TEMP_OK | TEMP_INVALID_SAMPLE | TEMP_STALE_SAMPLE | TEMP_PROFILE_ERROR | TEMP_NUMERIC_ERROR | TEMP_INTERNAL_ERROR

record temperature_candidate =
  tcn_source_id :: u32
  tcn_source_role :: temperature_source_role
  tcn_resistance_uohm :: i64
  tcn_unfiltered_temperature_mdeg_c :: i32
  tcn_processing_flags :: u32
  tcn_meta :: result_metadata

record calibration_service =
  cs_generation :: u32
  cs_active_profile :: "temperature_profile option"
  cs_active_cal :: "calibration_record option"
  cs_binding :: temperature_channel_binding
  cs_accepted_count :: u32
  cs_rejected_stale_count :: u32
  cs_rejected_invalid_count :: u32
  cs_numeric_error_count :: u32

definition calibration_service_init :: calibration_service where
  "calibration_service_init = \<lparr>cs_generation = 1, cs_active_profile = None, cs_active_cal = None,
     cs_binding = \<lparr>tcb_source_id = 0, tcb_role = TEMP_SOURCE_WATER, tcb_probe_port = 0, tcb_reference_port = 0\<rparr>,
     cs_accepted_count = 0, cs_rejected_stale_count = 0, cs_rejected_invalid_count = 0, cs_numeric_error_count = 0\<rparr>"

definition calibration_service_set_profile :: "temperature_profile option \<Rightarrow> calibration_service \<Rightarrow> calibration_service" where
  "calibration_service_set_profile p s = s\<lparr>cs_active_profile := p\<rparr>"

definition calibration_service_set_calibration :: "calibration_record option \<Rightarrow> calibration_service \<Rightarrow> calibration_service" where
  "calibration_service_set_calibration c s = s\<lparr>cs_active_cal := c\<rparr>"

definition q16_join :: "u16 \<Rightarrow> u16 \<Rightarrow> u32" where
  "q16_join i f = push_bit 16 (ucast i) OR ucast f"

definition ratio_resistance :: "u32 \<Rightarrow> u32 \<Rightarrow> i64 \<Rightarrow> i64" where
  "ratio_resistance n_probe n_ref r0 = sint (((ucast n_probe :: u64) * word_of_int r0) div ucast n_ref)"

definition temperature_convert_raw ::
  "u16 \<Rightarrow> u16 \<Rightarrow> u16 \<Rightarrow> u16 \<Rightarrow> temperature_profile option \<Rightarrow> calibration_record option \<Rightarrow>
   temperature_process_status + temperature_candidate" where
  "temperature_convert_raw probe_integer probe_fraction ref_integer ref_fraction profile cal =
     (case (profile, cal) of
        (Some p, Some c) \<Rightarrow>
          let n_probe = q16_join probe_integer probe_fraction; n_ref = q16_join ref_integer ref_fraction
          in if n_ref = 0 then Inl TEMP_INVALID_SAMPLE
             else (case apply_gain_offset (ratio_resistance n_probe n_ref (tpf_rtd_r0 p)) (cr_gain c) (cr_offset c) (unat (cr_shift c)) of
                     None \<Rightarrow> Inl TEMP_NUMERIC_ERROR
                   | Some res \<Rightarrow>
                       (case interpolate_i64 res (tpf_rtd_res_table p) (tpf_rtd_temp_table p) (unat (tpf_rtd_table_size p)) of
                          None \<Rightarrow> Inl TEMP_NUMERIC_ERROR
                        | Some temp \<Rightarrow> Inr \<lparr>tcn_source_id = 0, tcn_source_role = TEMP_SOURCE_WATER, tcn_resistance_uohm = res,
                                           tcn_unfiltered_temperature_mdeg_c = narrow_i32 temp, tcn_processing_flags = 0,
                                           tcn_meta = zero_metadata\<rparr>))
      | _ \<Rightarrow> Inl TEMP_INTERNAL_ERROR)"

definition temperature_result_of :: "temperature_candidate \<Rightarrow> temperature_result" where
  "temperature_result_of k =
     zero_temperature\<lparr>tp_meta := (tcn_meta k)\<lparr>md_purpose := MEAS_PURPOSE_PRODUCTION, md_origin := DATA_ORIGIN_LIVE_DEVICE,
         md_provenance := PROVENANCE_MEASURED, md_validity := DATA_VALID, md_freshness := DATA_FRESH, md_acceptance := DATA_ACCEPTED\<rparr>,
       tp_temperature_mdeg_c := tcn_unfiltered_temperature_mdeg_c k\<rparr>"

definition calibration_service_accept_raw ::
  "calibration_service \<Rightarrow> u16 \<Rightarrow> u16 \<Rightarrow> u16 \<Rightarrow> u16 \<Rightarrow> u32 \<Rightarrow> app_event_queue \<Rightarrow> repo_write_txn \<Rightarrow> data_repository \<Rightarrow>
   temperature_process_status \<times> calibration_service \<times> app_event_queue \<times> repo_write_txn \<times> data_repository" where
  "calibration_service_accept_raw s probe_integer probe_fraction ref_integer ref_fraction correlation_id q txn r =
     (if cs_active_profile s = None \<or> cs_active_cal s = None then (TEMP_PROFILE_ERROR, s, q, txn, r)
      else case temperature_convert_raw probe_integer probe_fraction ref_integer ref_fraction (cs_active_profile s) (cs_active_cal s) of
             Inl status \<Rightarrow> (status, s\<lparr>cs_rejected_invalid_count := cs_rejected_invalid_count s + 1\<rparr>, q, txn, r)
           | Inr k \<Rightarrow>
               (case txn_write_temperature (temperature_result_of k) txn r of
                  (ok, txn', r') \<Rightarrow>
                    if \<not> ok then (TEMP_STALE_SAMPLE, s\<lparr>cs_rejected_stale_count := cs_rejected_stale_count s + 1\<rparr>, q, txn', r')
                    else (TEMP_OK, s\<lparr>cs_accepted_count := cs_accepted_count s + 1\<rparr>,
                          post (result_event EVT_TEMPERATURE_RESULT_READY correlation_id) q, txn', r')))"


section \<open>Flow: accuracy\<close>







text \<open>Water flowing forward at 73 millimetres per second through a 20 mm pipe, with the identity calibration.\<close>

definition identity_calibration :: calibration_record where
  "identity_calibration = \<lparr>cr_record_version = 1, cr_gain = 1, cr_offset = 0, cr_shift = 0\<rparr>"

definition zero_identity :: profile_identity where
  "zero_identity = \<lparr>pi_profile_id = 0, pi_schema_version = 0, pi_calibration_version = 0, pi_qualification_status = 0\<rparr>"

definition sample_flow_profile :: flow_profile where
  "sample_flow_profile = \<lparr>fpf_id = zero_identity, fpf_pipe_area = 314000, fpf_path_length = 60000, fpf_acoustic_velocity = 1480000\<rparr>"

lemma apply_identity: "in_i64 x \<Longrightarrow> apply_gain_offset x 1 0 0 = Some x"
  by (simp add: apply_gain_offset_def checked_mul_i64_eq checked_add_i64_eq in_i64_def)


text \<open>C24: the intermediate product is 1000 times the squared velocity of sound times the time difference, and
  it must fit 64 bits; with a path of 100 mm or more every flow of 47 millimetres per second or faster,
  in either direction, is refused with a numeric error, whatever the other parameters are.\<close>

theorem fast_flow_is_refused:
  assumes v: "\<not> tof_invalid up down p" "-50000 \<le> temp" "temp \<le> 150000"
    and i64: "in_i64 (fpf_acoustic_velocity p)" "in_i64 (fpf_path_length p)"
    and path: "100000 \<le> fpf_path_length p"
    and fast: "47 * (fpf_path_length p * 2000000000000) \<le> fpf_acoustic_velocity p * fpf_acoustic_velocity p * \<bar>down - up\<bar> * 1000"
  shows "flow_compute up down temp (Some p) (Some c) = Inl FLOW_NUMERIC_ERROR"
proof -
  have big: "INT64_MAX + 1 < \<bar>fpf_acoustic_velocity p * fpf_acoustic_velocity p * (down - up) * 1000\<bar>"
    using path fast by (simp add: abs_mult)
  have sub: "checked_sub_i64 down up = Some (down - up)"
    using v(1) by (subst checked_sub_i64_eq) (auto simp: tof_invalid_def in_i64_def)
  have "flow_raw (down - up) p = None"
  proof (cases "checked_mul_i64 (fpf_acoustic_velocity p) (fpf_acoustic_velocity p)")
    case c2: (Some a)
    then have a: "a = fpf_acoustic_velocity p * fpf_acoustic_velocity p" "in_i64 a"
      using i64(1) by (auto simp: checked_mul_i64_eq split: if_splits)
    show ?thesis
    proof (cases "checked_mul_i64 a (down - up)")
      case (Some n)
      have d: "in_i64 (down - up)" using v(1) by (auto simp: tof_invalid_def in_i64_def)
      have n: "n = a * (down - up)" "in_i64 n" using Some checked_mul_i64_eq [OF a(2) d] by (auto split: if_splits)
      have "\<not> in_i64 (n * 1000)" using big unfolding n(1) a(1) in_i64_def by linarith
      then have "checked_mul_i64 n 1000 = None" using n(2) by (subst checked_mul_i64_eq) (auto simp: in_i64_def)
      then show ?thesis using c2 Some by (simp add: flow_raw_def)
    qed (use c2 in \<open>simp add: flow_raw_def\<close>)
  qed (simp add: flow_raw_def)
  then show ?thesis using v sub by (simp add: flow_compute_def)
qed

lemma fast_flow_is_refused_witness:
  "flow_compute 40000000 40004300 20000 (Some (sample_flow_profile\<lparr>fpf_path_length := 100000\<rparr>)) (Some identity_calibration) = Inl FLOW_NUMERIC_ERROR"
  by (rule fast_flow_is_refused) (simp_all add: tof_invalid_def sample_flow_profile_def in_i64_def)

section \<open>Pressure\<close>

text \<open>The general status byte: bit 7 is reserved, bit 6 powered, bit 5 busy, bits 4 and 3 the mode,
  bits 2 to 0 faults.\<close>

definition usable_status :: "u8 \<Rightarrow> bool" where
  "usable_status s \<longleftrightarrow> \<not> bit s 7 \<and> bit s 6 \<and> \<not> bit s 5 \<and> \<not> (bit s 4 \<and> bit s 3) \<and> \<not> bit s 2 \<and> \<not> bit s 1 \<and> \<not> bit s 0"

lemma pressure_convert_Inr:
  assumes "pressure_convert raw status (Some p) (Some c) = Inr k"
  shows "\<not> pressure_status_invalid status" "raw \<le> 0xFFFFFF" "ppf_endpoint_lo_raw p < ppf_endpoint_hi_raw p"
    "\<exists>y. apply_gain_offset (((uint raw - ppf_endpoint_lo_raw p) * (ppf_endpoint_hi_pa p - ppf_endpoint_lo_pa p))
          sdiv (ppf_endpoint_hi_raw p - ppf_endpoint_lo_raw p) + ppf_endpoint_lo_pa p) (cr_gain c) (cr_offset c) (unat (cr_shift c)) = Some y \<and>
       pcn_pressure_pa k = narrow_i32 y"
  using assms
  by (auto simp: pressure_convert_def Let_def linorder_not_less linorder_not_le dest!: checked_mul_i64_Some split: option.splits if_splits)

lemma narrow_i32_id: "in_i32 x \<Longrightarrow> narrow_i32 x = x"
  by (simp add: narrow_i32_def in_i32_def, transfer, simp add: signed_take_bit_int_eq_self)

text \<open>A value between the endpoints maps between the endpoint pressures.\<close>

lemma linear_map:
  fixes x lo hi a b :: int
  assumes "lo < hi" "lo \<le> x" "x \<le> hi" "a \<le> b"
  shows "a \<le> ((x - lo) * (b - a)) sdiv (hi - lo) + a" "((x - lo) * (b - a)) sdiv (hi - lo) + a \<le> b"
    "((x - lo) * (b - a)) sdiv (hi - lo) = ((x - lo) * (b - a)) div (hi - lo)"
proof -
  let ?n = "(x - lo) * (b - a)" and ?d = "hi - lo"
  have n: "0 \<le> ?n" and d: "0 < ?d" using assms by simp_all
  show e: "?n sdiv ?d = ?n div ?d" using n d by (rule sdiv_nonneg)
  have "0 \<le> ?n div ?d" using n d by (simp add: pos_imp_zdiv_nonneg_iff)
  then show "a \<le> ?n sdiv ?d + a" using e by simp
  have "?n \<le> ?d * (b - a)" using assms by (intro mult_right_mono) simp_all
  then have "?n < ?d * (b - a + 1)" using d by (simp add: distrib_left)
  then have "?n div ?d < b - a + 1" using zdiv_less_iff [OF d] by blast
  then show "?n sdiv ?d + a \<le> b" using e by simp
qed

text \<open>With a usable status, a code between the endpoints of a valid profile and no trim, the
  conversion succeeds; the pressure lies between the endpoint pressures, it is the linear map rounded
  down to a pascal, and a larger code never gives a smaller pressure.\<close>

theorem pressure_convert_linear:
  assumes v: "profile_validate_pressure (Some p) = Inr ()" and st: "\<not> pressure_status_invalid status"
    and lo: "0 \<le> ppf_endpoint_lo_raw p" and hi: "ppf_endpoint_hi_raw p \<le> 0xFFFFFF"
    and pa: "in_i32 (ppf_endpoint_lo_pa p)" "in_i32 (ppf_endpoint_hi_pa p)" "ppf_endpoint_lo_pa p \<le> ppf_endpoint_hi_pa p"
    and c: "cr_gain c = 1" "cr_offset c = 0" "cr_shift c = 0"
    and x: "ppf_endpoint_lo_raw p \<le> uint x" "x \<le> y" "uint y \<le> ppf_endpoint_hi_raw p"
  shows "\<exists>k k'. pressure_convert x status (Some p) (Some c) = Inr k \<and> pressure_convert y status (Some p) (Some c) = Inr k' \<and>
    pcn_pressure_pa k = (uint x - ppf_endpoint_lo_raw p) * (ppf_endpoint_hi_pa p - ppf_endpoint_lo_pa p)
        div (ppf_endpoint_hi_raw p - ppf_endpoint_lo_raw p) + ppf_endpoint_lo_pa p \<and>
    ppf_endpoint_lo_pa p \<le> pcn_pressure_pa k \<and> pcn_pressure_pa k \<le> pcn_pressure_pa k' \<and> pcn_pressure_pa k' \<le> ppf_endpoint_hi_pa p"
proof -
  let ?lo = "ppf_endpoint_lo_raw p" and ?hi = "ppf_endpoint_hi_raw p" and ?a = "ppf_endpoint_lo_pa p" and ?b = "ppf_endpoint_hi_pa p"
  let ?f = "\<lambda>z :: u32. (uint z - ?lo) * (?b - ?a) div (?hi - ?lo) + ?a"
  have r: "?lo < ?hi" using v by (simp add: profile_validate_pressure_def split: if_splits)
  have conv: "\<exists>k. pressure_convert z status (Some p) (Some c) = Inr k \<and> pcn_pressure_pa k = ?f z" "?a \<le> ?f z" "?f z \<le> ?b"
    if z: "?lo \<le> uint z" "uint z \<le> ?hi" for z
  proof -
    note m = linear_map [OF r z pa(3)]
    have n: "(uint z - ?lo) * (?b - ?a) \<le> 0xFFFFFF * 0xFFFFFFFF"
      using z lo hi pa by (intro mult_mono) (auto simp: in_i32_def)
    have n0: "0 \<le> (uint z - ?lo) * (?b - ?a)" using z pa(3) by (intro mult_nonneg_nonneg) simp_all
    have fits: "in_i64 ((uint z - ?lo) * (?b - ?a))" unfolding in_i64_def using n n0 by linarith
    have mul: "checked_mul_i64 (uint z - ?lo) (?b - ?a) = Some ((uint z - ?lo) * (?b - ?a))"
      using z lo hi pa fits by (subst checked_mul_i64_eq) (auto simp: in_i64_def in_i32_def)
    show bounds: "?a \<le> ?f z" "?f z \<le> ?b" using m by simp_all
    have "in_i32 (?f z)" using bounds pa by (simp add: in_i32_def)
    then have id: "narrow_i32 (?f z) = ?f z" "apply_gain_offset (?f z) 1 0 0 = Some (?f z)"
      by (auto simp: narrow_i32_id in_i32_def in_i64_def intro: apply_identity)
    have "\<not> 0xFFFFFF < z" using z(2) hi by (simp add: word_less_def)
    then show "\<exists>k. pressure_convert z status (Some p) (Some c) = Inr k \<and> pcn_pressure_pa k = ?f z"
      using st r mul id m(3) c by (simp add: pressure_convert_def Let_def)
  qed
  have xy: "uint x \<le> uint y" using x(2) by (simp add: word_le_def)
  have "?f x \<le> ?f y" using xy r pa(3) by (intro add_right_mono zdiv_mono1 mult_right_mono) simp_all
  then show ?thesis using conv [of x] conv [of y] x xy by fastforce
qed

definition sample_pressure_profile :: pressure_profile where
  "sample_pressure_profile = \<lparr>ppf_id = zero_identity, ppf_pa_min = 0, ppf_pa_max = 1000000, ppf_application_min = 0,
     ppf_application_max = 1000000, ppf_endpoint_lo_raw = 0x199999, ppf_endpoint_hi_raw = 0xE66666, ppf_endpoint_lo_pa = 0,
     ppf_endpoint_hi_pa = 1000000, ppf_reference_type = 1\<rparr>"

lemma pressure_convert_linear_witness:
  "\<exists>k. pressure_convert 0x800000 0x40 (Some sample_pressure_profile) (Some identity_calibration) = Inr k \<and>
     pcn_pressure_pa k = 500000 \<and> 0 \<le> pcn_pressure_pa k"
proof -
  have v: "profile_validate_pressure (Some sample_pressure_profile) = Inr ()" by code_simp
  have s: "\<not> pressure_status_invalid 0x40" by code_simp
  show ?thesis
    using pressure_convert_linear [OF v s, where c = identity_calibration and x = "0x800000" and y = "0x800000"]
    by (auto simp: sample_pressure_profile_def identity_calibration_def in_i32_def)
qed

text \<open>Outside the endpoints the map extrapolates, and the trimmed value is cut to 32 bits: a pressure far
  above the range can come out negative.\<close>

lemma pressure_narrowing_wraps:
  "(case pressure_convert 0xFFFFFF 0x40 (Some (sample_pressure_profile\<lparr>ppf_endpoint_hi_raw := 0x199A99\<rparr>)) (Some identity_calibration) of
      Inr k \<Rightarrow> pcn_pressure_pa k < 0 | Inl _ \<Rightarrow> False)"
  by code_simp

section \<open>Temperature\<close>

lemma temperature_convert_Inr:
  assumes "temperature_convert_raw pi pf ri rf (Some p) (Some c) = Inr k"
  obtains temp where
    "interpolate_i64 (tcn_resistance_uohm k) (tpf_rtd_res_table p) (tpf_rtd_temp_table p) (unat (tpf_rtd_table_size p)) = Some temp"
    "tcn_unfiltered_temperature_mdeg_c k = narrow_i32 temp" "q16_join ri rf \<noteq> 0" "tcn_meta k = zero_metadata"
  using assms by (auto simp: temperature_convert_raw_def Let_def split: option.splits if_splits)

text \<open>With a valid profile whose temperatures fit 32 bits, a converted temperature lies in the
  profile's table, on the same side of every knot as the corrected resistance; so it never extrapolates,
  and at a knot it is the knot's temperature.\<close>

theorem temperature_within_table:
  assumes v: "profile_validate_temperature (Some p) = Inr ()"
    and i32: "\<forall>t \<in> set (tpf_rtd_temp_table p). in_i32 t" and len: "unat (tpf_rtd_table_size p) \<le> length (tpf_rtd_temp_table p)"
    and conv: "temperature_convert_raw pi pf ri rf (Some p) (Some c) = Inr k"
  shows "tpf_rtd_temp_table p ! 0 \<le> tcn_unfiltered_temperature_mdeg_c k \<and>
    tcn_unfiltered_temperature_mdeg_c k \<le> tpf_rtd_temp_table p ! (unat (tpf_rtd_table_size p) - 1) \<and>
    (\<forall>i < unat (tpf_rtd_table_size p).
       (tpf_rtd_res_table p ! i \<le> tcn_resistance_uohm k \<longrightarrow> tpf_rtd_temp_table p ! i \<le> tcn_unfiltered_temperature_mdeg_c k) \<and>
       (tcn_resistance_uohm k \<le> tpf_rtd_res_table p ! i \<longrightarrow> tcn_unfiltered_temperature_mdeg_c k \<le> tpf_rtd_temp_table p ! i))"
proof -
  let ?n = "unat (tpf_rtd_table_size p)" and ?t = "tpf_rtd_temp_table p"
  have m: "table_is_monotonic (tpf_rtd_res_table p) ?t ?n"
    using v by (auto simp: profile_validate_temperature_def table_is_monotonic_swap split: if_splits)
  then have n: "2 \<le> ?n" by (simp add: table_is_monotonic_def split: if_splits)
  obtain temp where t: "interpolate_i64 (tcn_resistance_uohm k) (tpf_rtd_res_table p) ?t ?n = Some temp"
    "tcn_unfiltered_temperature_mdeg_c k = narrow_i32 temp" using temperature_convert_Inr [OF conv] .
  note b = interpolate_bracketed [OF m t(1)]
  have "in_i32 (?t ! 0)" "in_i32 (?t ! (?n - 1))" using i32 len n by (auto intro!: bspec [OF i32] nth_mem)
  then have "in_i32 temp" using b unfolding in_i32_def by linarith
  then have "tcn_unfiltered_temperature_mdeg_c k = temp" using t(2) by (simp add: narrow_i32_id)
  then show ?thesis using b by blast
qed

definition sample_rtd :: temperature_profile where
  "sample_rtd = \<lparr>tpf_id = zero_identity, tpf_rtd_r0 = 1000000, tpf_rtd_table_size = 3, tpf_rtd_temp_table = [0, 50000, 100000],
     tpf_rtd_res_table = [1000000, 1194000, 1385100]\<rparr>"

definition sample_rtd_candidate :: temperature_candidate where
  "sample_rtd_candidate = \<lparr>tcn_source_id = 0, tcn_source_role = TEMP_SOURCE_WATER, tcn_resistance_uohm = 1100000,
     tcn_unfiltered_temperature_mdeg_c = 25773, tcn_processing_flags = 0, tcn_meta = zero_metadata\<rparr>"

lemma sample_rtd_converts:
  "temperature_convert_raw 1100 0 1000 0 (Some sample_rtd) (Some identity_calibration) = Inr sample_rtd_candidate"
  by code_simp

lemma temperature_within_table_witness: "(0 :: int) \<le> 25773 \<and> (25773 :: int) \<le> 50000"
proof -
  have v: "profile_validate_temperature (Some sample_rtd) = Inr ()" by code_simp
  have n: "unat (3 :: u16) = 3" by code_simp
  have s: "tpf_rtd_table_size sample_rtd = 3" "length (tpf_rtd_temp_table sample_rtd) = 3" by (simp_all add: sample_rtd_def)
  have w: "\<forall>t \<in> set (tpf_rtd_temp_table sample_rtd). in_i32 t" by (simp add: sample_rtd_def in_i32_def)
  show ?thesis
    using temperature_within_table [OF v w _ sample_rtd_converts, unfolded s n]
    by (auto simp: sample_rtd_def sample_rtd_candidate_def dest: spec [of _ 1])
qed

text \<open>What the calibration service publishes carries no sample time.\<close>

lemma accept_raw_writes:
  assumes "calibration_service_accept_raw s pi pf ri rf corr q txn r = (TEMP_OK, s', q', txn', r')"
  obtains t where "txn_write (Write_temperature t) txn r = (True, txn', r')" "md_sample_monotonic_us (tp_meta t) = 0" "temperature_usable t"
proof -
  obtain p c where pc: "cs_active_profile s = Some p" "cs_active_cal s = Some c"
    using assms by (auto simp: calibration_service_accept_raw_def split: if_splits)
  show ?thesis
  proof (cases "temperature_convert_raw pi pf ri rf (Some p) (Some c)")
    case (Inr k)
    have "tcn_meta k = zero_metadata" using temperature_convert_Inr [OF Inr] .
    then show ?thesis
      using assms pc Inr
      by (intro that [of "temperature_result_of k"])
        (auto simp: calibration_service_accept_raw_def temperature_result_of_def zero_metadata_def temperature_usable_def
          split: prod.splits if_splits)
  next
    case (Inl st)
    have "st \<noteq> TEMP_OK" using Inl by (auto simp: temperature_convert_raw_def Let_def split: option.splits if_splits)
    then show ?thesis using assms pc Inl by (auto simp: calibration_service_accept_raw_def)
  qed
qed

text \<open>A temperature the calibration service accepted and published never pairs with a flow sample taken more
  than five seconds after power-up, however fresh it is: its metadata has sample time zero, and
  the flow service refuses the sample as stale without any effect.\<close>

theorem calibrated_temperature_is_stale:
  assumes ok: "repo_ok r" "owns txn r"
    and acc: "calibration_service_accept_raw s pi pf ri rf corr q txn r = (TEMP_OK, s', q', txn', r')"
    and commit: "txn_commit txn' r' = (True, txn'', r'')"
    and configured: "fs_active_profile fs \<noteq> None" "fs_active_cal fs \<noteq> None"
    and late: "5000000 < md_sample_monotonic_us m"
  shows "flow_service_accept_sample fs up down m (rs_temperature (published r'')) t2 r2 = (FLOW_TEMPERATURE_STALE, fs, t2, r2)"
proof -
  obtain t where t: "txn_write (Write_temperature t) txn r = (True, txn', r')" "md_sample_monotonic_us (tp_meta t) = 0" "temperature_usable t"
    using accept_raw_writes [OF acc] .
  have w: "repo_ok r'" "owns txn' r'" "buffer r' (tx_inactive_index txn') = apply_write (Write_temperature t) (buffer r (tx_inactive_index txn))"
    using write_owned [OF ok, of "Write_temperature t"] t(1) by auto
  have "rs_temperature (published r'') = t"
    using commit_owned [OF w(1,2)] commit w(3) by auto
  moreover have "age_between (md_sample_monotonic_us m) 0 = md_sample_monotonic_us m"
    using le_less_trans [OF word_zero_le late] by (simp add: age_between_def)
  ultimately show ?thesis using configured t(2,3) late by (auto simp: flow_service_accept_sample_def)
qed

definition sample_calibration_service :: calibration_service where
  "sample_calibration_service = calibration_service_set_calibration (Some identity_calibration)
     (calibration_service_set_profile (Some sample_rtd) calibration_service_init)"

definition sample_flow_service :: flow_service where
  "sample_flow_service = flow_service_set_calibration (Some identity_calibration)
     (flow_service_set_profile (Some sample_flow_profile) flow_service_init)"

lemma calibrated_temperature_is_stale_witness:
  "\<exists>r''. tp_temperature_mdeg_c (rs_temperature (published r'')) = 25773 \<and>
     flow_service_accept_sample sample_flow_service 40000000 40004000 (live_metadata\<lparr>md_sample_monotonic_us := 6000000\<rparr>)
       (rs_temperature (published r'')) txn_init r'' = (FLOW_TEMPERATURE_STALE, sample_flow_service, txn_init, r'')"
proof -
  obtain txn r where b: "txn_begin txn_init data_repository_init = (True, txn, r)" "repo_ok r" "owns txn r"
    using begin_owned [OF repo_init_ok, of txn_init] by (auto simp: data_repository_init_def txn_init_def)
  let ?t = "temperature_result_of sample_rtd_candidate"
  obtain txn' r' where w: "txn_write (Write_temperature ?t) txn r = (True, txn', r')" "repo_ok r'" "owns txn' r'"
      "buffer r' (tx_inactive_index txn') = apply_write (Write_temperature ?t) (buffer r (tx_inactive_index txn))"
    using write_owned [OF b(2,3)] by metis
  have acc: "calibration_service_accept_raw sample_calibration_service 1100 0 1000 0 1 q txn r =
      (TEMP_OK, sample_calibration_service\<lparr>cs_accepted_count := 1\<rparr>, post (result_event EVT_TEMPERATURE_RESULT_READY 1) q, txn', r')" for q
    using w(1) sample_rtd_converts
    by (simp add: calibration_service_accept_raw_def sample_calibration_service_def calibration_service_set_profile_def
        calibration_service_set_calibration_def calibration_service_init_def)
  obtain txn'' r'' where c: "txn_commit txn' r' = (True, txn'', r'')"
      "published r'' = (buffer r' (tx_inactive_index txn'))\<lparr>rs_snapshot_version := dr_snapshot_version r' + 1\<rparr>"
    using commit_owned [OF w(2,3)] by metis
  have "tp_temperature_mdeg_c (rs_temperature (published r'')) = 25773"
    using c(2) w(4) by (simp add: temperature_result_of_def sample_rtd_candidate_def)
  moreover have "fs_active_profile sample_flow_service \<noteq> None" "fs_active_cal sample_flow_service \<noteq> None"
    by (simp_all add: sample_flow_service_def flow_service_set_profile_def flow_service_set_calibration_def)
  ultimately show ?thesis
    using calibrated_temperature_is_stale [OF b(2,3) acc c(1), of sample_flow_service "live_metadata\<lparr>md_sample_monotonic_us := 6000000\<rparr>"]
    by fastforce
qed

end
