(* ===== verification/Sensors.thy ===== *)
theory Sensors
  imports Processing
begin

text \<open>
  The portable drivers of the MAX35103 flow sensor (drivers/max35103) and the ZSSC3241 pressure sensor
  (drivers/zssc3241).  Each keeps a mailbox with the last raw sample and posts an event when it is filled;
  the event queue is passed along.  The buffers of a transfer are byte lists, a NULL buffer is None.
\<close>

unbundle bit_operations_syntax

section \<open>MAX35103\<close>

datatype max_driver_state =
    MAX_STATE_IDLE | MAX_STATE_IRQ_RECEIVED | MAX_STATE_SPI_READ_STATUS | MAX_STATE_SPI_READ_RESULT
  | MAX_STATE_VALIDATING | MAX_STATE_RAW_READY | MAX_STATE_TIMEOUT | MAX_STATE_RECOVERY

record max35103_raw_flow_sample =
  mr_tof_up_ps :: i64
  mr_tof_down_ps :: i64
  mr_tof_diff_ps :: i64
  mr_valid_cycle_count :: u8
  mr_tof_range :: u8
  mr_meta :: result_metadata

record max35103_driver =
  mx_generation :: u32
  mx_sample_sequence :: u64
  mx_state :: max_driver_state
  mx_active_correlation_id :: u32
  mx_sample_monotonic_us :: u64
  mx_raw_flow_mailbox :: max35103_raw_flow_sample
  mx_raw_flow_mailbox_valid :: bool
  mx_spi_cs_gpio :: u8
  mx_supervision_timeout_us :: u32
  mx_irq_received_count :: u32
  mx_spi_completion_count :: u32
  mx_raw_ready_count :: u32
  mx_timeout_count :: u32
  mx_error_count :: u32

abbreviation MAX35103_FLOW_FRAME_SIZE :: nat where "MAX35103_FLOW_FRAME_SIZE \<equiv> 14"

definition zero_raw_flow :: max35103_raw_flow_sample where
  "zero_raw_flow = \<lparr>mr_tof_up_ps = 0, mr_tof_down_ps = 0, mr_tof_diff_ps = 0, mr_valid_cycle_count = 0, mr_tof_range = 0,
     mr_meta = zero_metadata\<rparr>"

definition be16 :: "bytes \<Rightarrow> nat \<Rightarrow> u16" where
  "be16 frame i = push_bit 8 (ucast (frame ! i)) OR ucast (frame ! (i + 1))"

definition q16 :: "u16 \<Rightarrow> u16 \<Rightarrow> u32" where
  "q16 integer fraction = push_bit 16 (ucast integer) OR ucast fraction"

definition absolute_q16_to_ps :: "u16 \<Rightarrow> u16 \<Rightarrow> i64 option" where
  "absolute_q16_to_ps integer fraction =
     (if integer > 0x7FFF then None
      else Some (sint ((ucast (q16 integer fraction) * 250000 + 32768) div (65536 :: u64))))"

definition signed_q16_to_ps :: "u16 \<Rightarrow> u16 \<Rightarrow> i64" where
  "signed_q16_to_ps integer fraction =
     (let joined = q16 integer fraction;
          signed_q16 = (if joined AND 0x80000000 \<noteq> 0 then uint joined - 0x100000000 else uint joined)
      in (signed_q16 * 250000) sdiv 65536)"

definition max35103_decode_flow_frame :: "bytes option \<Rightarrow> nat \<Rightarrow> max35103_raw_flow_sample option" where
  "max35103_decode_flow_frame frame len =
     (case frame of None \<Rightarrow> None
      | Some f \<Rightarrow>
          if len < MAX35103_FLOW_FRAME_SIZE then None
          else (case (absolute_q16_to_ps (be16 f 0) (be16 f 2), absolute_q16_to_ps (be16 f 4) (be16 f 6)) of
                  (Some up, Some down) \<Rightarrow>
                    (let diff = signed_q16_to_ps (be16 f 8) (be16 f 10);
                         coherence_error = \<bar>diff - (up - down)\<bar>;
                         cycle = be16 f 12
                     in if coherence_error > 4 then None
                        else if (ucast cycle :: u8) > 0
                        then Some \<lparr>mr_tof_up_ps = up, mr_tof_down_ps = down, mr_tof_diff_ps = diff, mr_valid_cycle_count = ucast cycle,
                                   mr_tof_range = ucast (drop_bit 8 cycle), mr_meta = zero_metadata\<rparr>
                        else None)
                | _ \<Rightarrow> None))"

definition max35103_init :: max35103_driver where
  "max35103_init =
     \<lparr>mx_generation = 1, mx_sample_sequence = 0, mx_state = MAX_STATE_IDLE, mx_active_correlation_id = 0,
      mx_sample_monotonic_us = 0, mx_raw_flow_mailbox = zero_raw_flow, mx_raw_flow_mailbox_valid = False, mx_spi_cs_gpio = 0,
      mx_supervision_timeout_us = 50000, mx_irq_received_count = 0, mx_spi_completion_count = 0, mx_raw_ready_count = 0,
      mx_timeout_count = 0, mx_error_count = 0\<rparr>"

definition max35103_on_irq :: "u64 \<Rightarrow> max35103_driver \<Rightarrow> max35103_driver" where
  "max35103_on_irq now d =
     d\<lparr>mx_irq_received_count := mx_irq_received_count d + 1, mx_state := MAX_STATE_IRQ_RECEIVED, mx_sample_monotonic_us := now,
       mx_sample_sequence := mx_sample_sequence d + 1, mx_raw_flow_mailbox_valid := False\<rparr>"

definition max_recovery :: "max35103_driver \<Rightarrow> max35103_driver" where
  "max_recovery d = d\<lparr>mx_error_count := mx_error_count d + 1, mx_state := MAX_STATE_RECOVERY\<rparr>"

definition max_sample_metadata :: "u64 \<Rightarrow> max35103_driver \<Rightarrow> result_metadata" where
  "max_sample_metadata now d =
     live_metadata\<lparr>md_source_generation := mx_generation d, md_sample_sequence := mx_sample_sequence d,
       md_result_version := ucast (mx_raw_ready_count d + 1), md_sample_monotonic_us := mx_sample_monotonic_us d,
       md_completion_monotonic_us := now\<rparr>"

definition raw_ready_event :: "event_id \<Rightarrow> u32 \<Rightarrow> u32 \<Rightarrow> u64 \<Rightarrow> app_event" where
  "raw_ready_event i correlation_id generation now =
     zero_event\<lparr>ev_id := i, ev_source_id := 0, ev_priority := EVENT_PRIO_MEASUREMENT, ev_delivery := DELIVERY_MAILBOX,
       ev_correlation_id := correlation_id, ev_source_generation := generation, ev_monotonic_timestamp_us := now\<rparr>"

definition max35103_on_spi_completion ::
  "u32 \<Rightarrow> bool \<Rightarrow> bytes option \<Rightarrow> nat \<Rightarrow> u64 \<Rightarrow> max35103_driver \<Rightarrow> app_event_queue \<Rightarrow> max35103_driver \<times> app_event_queue" where
  "max35103_on_spi_completion correlation_id success rx len now d q =
     (if \<not> success then (max_recovery d, q)
      else
        let d1 = d\<lparr>mx_spi_completion_count := mx_spi_completion_count d + 1, mx_state := MAX_STATE_VALIDATING\<rparr>
        in case max35103_decode_flow_frame rx len of
             None \<Rightarrow> (max_recovery d1, q)
           | Some decoded \<Rightarrow>
               (d1\<lparr>mx_active_correlation_id := correlation_id, mx_raw_flow_mailbox := decoded\<lparr>mr_meta := max_sample_metadata now d1\<rparr>,
                   mx_raw_flow_mailbox_valid := True, mx_raw_ready_count := mx_raw_ready_count d1 + 1, mx_state := MAX_STATE_RAW_READY\<rparr>,
                post (raw_ready_event EVT_MAX_RAW_READY correlation_id (mx_generation d1) now) q))"

definition max35103_on_timeout :: "max35103_driver \<Rightarrow> max35103_driver" where
  "max35103_on_timeout d = d\<lparr>mx_timeout_count := mx_timeout_count d + 1, mx_raw_flow_mailbox_valid := False, mx_state := MAX_STATE_TIMEOUT\<rparr>"

definition max35103_take_raw_flow :: "max35103_driver \<Rightarrow> max35103_raw_flow_sample option \<times> max35103_driver" where
  "max35103_take_raw_flow d =
     (if \<not> mx_raw_flow_mailbox_valid d then (None, d)
      else (Some (mx_raw_flow_mailbox d), d\<lparr>mx_raw_flow_mailbox_valid := False, mx_state := MAX_STATE_IDLE\<rparr>))"

section \<open>ZSSC3241\<close>

datatype zssc_driver_state =
    ZSSC_STATE_IDLE | ZSSC_STATE_SLEEP | ZSSC_STATE_STARTING | ZSSC_STATE_WAITING_EOC | ZSSC_STATE_POLLING
  | ZSSC_STATE_READING | ZSSC_STATE_RAW_READY | ZSSC_STATE_TIMEOUT | ZSSC_STATE_RECOVERY

abbreviation ZSSC3241_CMD_FULL_MEASURE :: u8 where "ZSSC3241_CMD_FULL_MEASURE \<equiv> 0xAA"
abbreviation ZSSC3241_FULL_RESPONSE_SIZE :: nat where "ZSSC3241_FULL_RESPONSE_SIZE \<equiv> 7"
abbreviation ZSSC3241_PRESSURE_RESPONSE_SIZE :: nat where "ZSSC3241_PRESSURE_RESPONSE_SIZE \<equiv> 4"
abbreviation ZSSC3241_STATUS_POWERED :: u8 where "ZSSC3241_STATUS_POWERED \<equiv> 0x40"
abbreviation ZSSC3241_STATUS_BUSY :: u8 where "ZSSC3241_STATUS_BUSY \<equiv> 0x20"
abbreviation ZSSC3241_STATUS_MODE_MASK :: u8 where "ZSSC3241_STATUS_MODE_MASK \<equiv> 0x18"
abbreviation ZSSC3241_STATUS_MODE_RESERVED :: u8 where "ZSSC3241_STATUS_MODE_RESERVED \<equiv> 0x18"
abbreviation ZSSC3241_STATUS_MEMORY_ERROR :: u8 where "ZSSC3241_STATUS_MEMORY_ERROR \<equiv> 4"
abbreviation ZSSC3241_STATUS_CONNECTION_FAULT :: u8 where "ZSSC3241_STATUS_CONNECTION_FAULT \<equiv> 2"
abbreviation ZSSC3241_STATUS_MATH_SATURATION :: u8 where "ZSSC3241_STATUS_MATH_SATURATION \<equiv> 1"

record zssc_raw_pressure_sample =
  zr_raw_u24 :: u32
  zr_status :: u8
  zr_meta :: result_metadata

record zssc3241_driver =
  zs_generation :: u32
  zs_sample_sequence :: u64
  zs_state :: zssc_driver_state
  zs_active_correlation_id :: u32
  zs_active_transaction_id :: u32
  zs_sample_monotonic_us :: u64
  zs_raw_mailbox :: zssc_raw_pressure_sample
  zs_raw_mailbox_valid :: bool
  zs_command_buffer :: bytes
  zs_response_buffer :: bytes
  zs_sample_due_count :: u32
  zs_eoc_received_count :: u32
  zs_raw_ready_count :: u32
  zs_timeout_count :: u32
  zs_error_count :: u32

definition zssc3241_init :: zssc3241_driver where
  "zssc3241_init =
     \<lparr>zs_generation = 1, zs_sample_sequence = 0, zs_state = ZSSC_STATE_IDLE, zs_active_correlation_id = 0, zs_active_transaction_id = 0,
      zs_sample_monotonic_us = 0, zs_raw_mailbox = \<lparr>zr_raw_u24 = 0, zr_status = 0, zr_meta = zero_metadata\<rparr>, zs_raw_mailbox_valid = False,
      zs_command_buffer = [0], zs_response_buffer = replicate 7 0, zs_sample_due_count = 0, zs_eoc_received_count = 0,
      zs_raw_ready_count = 0, zs_timeout_count = 0, zs_error_count = 0\<rparr>"

definition zssc3241_on_sample_due :: "u64 \<Rightarrow> zssc3241_driver \<Rightarrow> zssc3241_driver" where
  "zssc3241_on_sample_due now d =
     (if zs_state d \<noteq> ZSSC_STATE_IDLE \<and> zs_state d \<noteq> ZSSC_STATE_SLEEP then d
      else d\<lparr>zs_sample_due_count := zs_sample_due_count d + 1, zs_state := ZSSC_STATE_STARTING, zs_sample_monotonic_us := now,
             zs_raw_mailbox_valid := False\<rparr>)"

text \<open>The transmit buffer on success; its length is one.\<close>

definition zssc3241_prepare_start :: "u32 \<Rightarrow> zssc3241_driver \<Rightarrow> bytes option \<times> zssc3241_driver" where
  "zssc3241_prepare_start correlation_id d =
     (if zs_state d \<noteq> ZSSC_STATE_STARTING \<or> correlation_id = 0 then (None, d)
      else (Some [ZSSC3241_CMD_FULL_MEASURE],
            d\<lparr>zs_active_correlation_id := correlation_id, zs_active_transaction_id := 0, zs_sample_sequence := zs_sample_sequence d + 1,
              zs_command_buffer := [ZSSC3241_CMD_FULL_MEASURE]\<rparr>))"

definition zssc3241_on_eoc_asserted :: "zssc3241_driver \<Rightarrow> zssc3241_driver" where
  "zssc3241_on_eoc_asserted d = d\<lparr>zs_eoc_received_count := zs_eoc_received_count d + 1, zs_state := ZSSC_STATE_READING\<rparr>"

definition zssc3241_prepare_read :: "zssc3241_driver \<Rightarrow> bool \<times> zssc3241_driver" where
  "zssc3241_prepare_read d =
     (if zs_state d \<noteq> ZSSC_STATE_READING \<and> zs_state d \<noteq> ZSSC_STATE_POLLING then (False, d)
      else (True, d\<lparr>zs_response_buffer := replicate 7 0\<rparr>))"

definition zssc3241_on_poll_due :: "zssc3241_driver \<Rightarrow> zssc3241_driver" where
  "zssc3241_on_poll_due d = d\<lparr>zs_state := ZSSC_STATE_POLLING\<rparr>"

definition zssc3241_status_is_production_usable :: "u8 \<Rightarrow> bool" where
  "zssc3241_status_is_production_usable status \<longleftrightarrow>
     (let faults = ZSSC3241_STATUS_BUSY OR ZSSC3241_STATUS_MEMORY_ERROR OR ZSSC3241_STATUS_CONNECTION_FAULT
                   OR ZSSC3241_STATUS_MATH_SATURATION
      in status AND 0x80 = 0 \<and> status AND ZSSC3241_STATUS_POWERED \<noteq> 0 \<and> status AND faults = 0 \<and>
         status AND ZSSC3241_STATUS_MODE_MASK \<noteq> ZSSC3241_STATUS_MODE_RESERVED)"

definition zssc_error :: "zssc3241_driver \<Rightarrow> zssc3241_driver" where
  "zssc_error d = d\<lparr>zs_error_count := zs_error_count d + 1, zs_state := ZSSC_STATE_RECOVERY\<rparr>"

definition zssc_sample_metadata :: "u8 \<Rightarrow> u64 \<Rightarrow> zssc3241_driver \<Rightarrow> result_metadata" where
  "zssc_sample_metadata status now d =
     live_metadata\<lparr>md_source_generation := zs_generation d, md_sample_sequence := zs_sample_sequence d,
       md_result_version := ucast (zs_raw_ready_count d + 1), md_sample_monotonic_us := zs_sample_monotonic_us d,
       md_completion_monotonic_us := now,
       md_validity := (if zssc3241_status_is_production_usable status then DATA_VALID else DATA_INVALID),
       md_acceptance := (if zssc3241_status_is_production_usable status then DATA_ACCEPTED else DATA_REJECTED)\<rparr>"

definition zssc_decode :: "bytes \<Rightarrow> u64 \<Rightarrow> zssc3241_driver \<Rightarrow> zssc_raw_pressure_sample" where
  "zssc_decode rx now d =
     \<lparr>zr_raw_u24 = push_bit 16 (ucast (rx ! 1)) OR push_bit 8 (ucast (rx ! 2)) OR ucast (rx ! 3), zr_status = rx ! 0,
      zr_meta = zssc_sample_metadata (rx ! 0) now d\<rparr>"

definition zssc3241_on_i2c_completion ::
  "u32 \<Rightarrow> bool \<Rightarrow> bytes option \<Rightarrow> nat \<Rightarrow> u64 \<Rightarrow> zssc3241_driver \<Rightarrow> app_event_queue \<Rightarrow> zssc3241_driver \<times> app_event_queue" where
  "zssc3241_on_i2c_completion correlation_id success rx len now d q =
     (if correlation_id \<noteq> zs_active_correlation_id d then (d\<lparr>zs_error_count := zs_error_count d + 1\<rparr>, q)
      else if \<not> success then (zssc_error d, q)
      else if zs_state d = ZSSC_STATE_STARTING then (d\<lparr>zs_state := ZSSC_STATE_WAITING_EOC\<rparr>, q)
      else case rx of
             None \<Rightarrow> (zssc_error d, q)
           | Some bs \<Rightarrow>
               if (zs_state d \<noteq> ZSSC_STATE_READING \<and> zs_state d \<noteq> ZSSC_STATE_POLLING) \<or> len < ZSSC3241_PRESSURE_RESPONSE_SIZE
               then (zssc_error d, q)
               else if bs ! 0 AND ZSSC3241_STATUS_BUSY \<noteq> 0 then (d\<lparr>zs_state := ZSSC_STATE_POLLING\<rparr>, q)
               else (d\<lparr>zs_raw_mailbox := zssc_decode bs now d, zs_raw_mailbox_valid := True,
                       zs_raw_ready_count := zs_raw_ready_count d + 1, zs_state := ZSSC_STATE_RAW_READY\<rparr>,
                     post (raw_ready_event EVT_PRESSURE_RAW_READY (zs_active_correlation_id d) (zs_generation d) now) q))"

definition zssc3241_on_timeout :: "zssc3241_driver \<Rightarrow> zssc3241_driver" where
  "zssc3241_on_timeout d = d\<lparr>zs_timeout_count := zs_timeout_count d + 1, zs_raw_mailbox_valid := False, zs_state := ZSSC_STATE_TIMEOUT\<rparr>"

definition zssc3241_take_raw_pressure :: "zssc3241_driver \<Rightarrow> zssc_raw_pressure_sample option \<times> zssc3241_driver" where
  "zssc3241_take_raw_pressure d =
     (if \<not> zs_raw_mailbox_valid d then (None, d)
      else (Some (zs_raw_mailbox d), d\<lparr>zs_raw_mailbox_valid := False, zs_state := ZSSC_STATE_IDLE\<rparr>))"

section \<open>The pressure status\<close>

lemma and_mask_bit:
  "(s :: u8) AND 0x80 = 0 \<longleftrightarrow> \<not> bit s 7" "s AND 0x40 = 0 \<longleftrightarrow> \<not> bit s 6"
  using and_exp_eq_0_iff_not_bit [of s 7] and_exp_eq_0_iff_not_bit [of s 6] by simp_all

lemma and_or_0: "s AND (a OR b) = 0 \<longleftrightarrow> s AND a = 0 \<and> s AND b = 0" for s a b :: u8
  by (simp add: bit.conj_disj_distrib or_eq_0_iff)

lemma and_mask_faults: "(s :: u8) AND 0x27 = 0 \<longleftrightarrow> \<not> bit s 5 \<and> \<not> bit s 2 \<and> \<not> bit s 1 \<and> \<not> bit s 0"
proof -
  have "s AND (2 ^ 5 OR (2 ^ 2 OR (2 ^ 1 OR 2 ^ 0))) = 0 \<longleftrightarrow> \<not> bit s 5 \<and> \<not> bit s 2 \<and> \<not> bit s 1 \<and> \<not> bit s 0"
    by (simp only: and_or_0 and_exp_eq_0_iff_not_bit)
  moreover have "(2 ^ 5 OR (2 ^ 2 OR (2 ^ 1 OR 2 ^ 0))) = (0x27 :: u8)" by simp
  ultimately show ?thesis by simp
qed

lemma bit_mode_mask: "bit (0x18 :: u8) n \<longleftrightarrow> n = 3 \<or> n = 4"
proof -
  have m: "(0x18 :: u8) = 2 ^ 3 OR 2 ^ 4" by simp
  show ?thesis by (simp only: m bit_or_iff bit_exp_iff possible_bit_word) auto
qed

lemma and_mask_mode: "(s :: u8) AND 0x18 = 0x18 \<longleftrightarrow> bit s 4 \<and> bit s 3"
proof
  assume "s AND 0x18 = 0x18"
  then have "bit (s AND 0x18) n \<longleftrightarrow> bit (0x18 :: u8) n" for n by simp
  from this [of 3] this [of 4] show "bit s 4 \<and> bit s 3" unfolding bit_and_iff bit_mode_mask by simp
next
  assume "bit s 4 \<and> bit s 3"
  then show "s AND 0x18 = 0x18" by (intro bit_word_eqI) (unfold bit_and_iff bit_mode_mask, blast)
qed

text \<open>The driver's test of the status byte, the one the pressure conversion makes on its own, and the meaning of
  the bits agree on every byte: bit 7 and the busy and fault bits clear, powered set, mode not reserved.\<close>

theorem pressure_status_tests_agree:
  "zssc3241_status_is_production_usable status = usable_status status \<and>
   pressure_status_invalid status = (\<not> usable_status status)"
  by (auto simp: zssc3241_status_is_production_usable_def pressure_status_invalid_def usable_status_def Let_def
      and_mask_bit and_mask_faults and_mask_mode)

section \<open>A frame of the flow sensor\<close>

lemma uint_ucast_32_64: "uint (ucast x :: u64) = uint (x :: u32)"
  by (simp add: unsigned_ucast_eq take_bit_int_eq_self_iff) (use uint_bounded [of x] in simp)

lemma sint_small: "uint (w :: u64) < 2 ^ 63 \<Longrightarrow> sint w = uint w"
  by (simp add: sint_uint signed_take_bit_eq_take_bit_minus bit_uint_iff take_bit_int_eq_self_iff bit_iff_odd div_pos_pos_trivial uint_bounded)

definition ps_of_q16 :: "int \<Rightarrow> int" where
  "ps_of_q16 u = (u * 250000 + 32768) div 65536"

lemma absolute_ps: "absolute_q16_to_ps i f = (if i \<le> 0x7FFF then Some (ps_of_q16 (uint (q16 i f))) else None)"
proof -
  let ?x = "q16 i f"
  have b: "uint ?x < 2 ^ 32" "0 \<le> uint ?x" using uint_bounded [of ?x] by simp_all
  have "uint (ucast ?x * 250000 + 32768 :: u64) = uint ?x * 250000 + 32768"
    using b by (simp add: uint_word_ariths uint_ucast_32_64)
  then have e: "uint ((ucast ?x * 250000 + 32768) div 65536 :: u64) = ps_of_q16 (uint ?x)"
    by (simp add: uint_div ps_of_q16_def)
  have "ps_of_q16 (uint ?x) < 2 ^ 63" using b by (simp add: ps_of_q16_def zdiv_less_iff)
  then show ?thesis using e sint_small [of "(ucast ?x * 250000 + 32768) div 65536"]
    by (auto simp: absolute_q16_to_ps_def linorder_not_less)
qed

lemma signed_q16: "signed_q16_to_ps i f = (sint (q16 i f) * 250000) sdiv 65536"
proof -
  let ?x = "q16 i f"
  have b: "?x AND 0x80000000 = 0 \<longleftrightarrow> \<not> bit ?x 31" using and_exp_eq_0_iff_not_bit [of ?x 31] by simp
  have "sint ?x = (if bit ?x 31 then uint ?x - 0x100000000 else uint ?x)"
    by (simp add: sint_uint signed_take_bit_eq_take_bit_minus bit_uint_iff) (simp add: take_bit_int_eq_self_iff uint_bounded [of ?x, simplified])
  then show ?thesis using b by (simp add: signed_q16_to_ps_def Let_def)
qed

text \<open>Rounding: each absolute time is within half a picosecond of its value, the difference within one.\<close>

lemma ps_of_q16_error: "\<bar>65536 * ps_of_q16 u - 250000 * u\<bar> \<le> 32768"
  unfolding ps_of_q16_def using mult_div_mod_eq [of 65536 "u * 250000 + 32768"]
    pos_mod_bound [of 65536 "u * 250000 + 32768"] pos_mod_sign [of 65536 "u * 250000 + 32768"] by linarith

definition up_word :: "bytes \<Rightarrow> int" where "up_word f = uint (q16 (be16 f 0) (be16 f 2))"
definition down_word :: "bytes \<Rightarrow> int" where "down_word f = uint (q16 (be16 f 4) (be16 f 6))"
definition diff_word :: "bytes \<Rightarrow> int" where "diff_word f = sint (q16 (be16 f 8) (be16 f 10))"

lemma decode_frame:
  "max35103_decode_flow_frame (Some f) n =
     (if n < MAX35103_FLOW_FRAME_SIZE \<or> \<not> be16 f 0 \<le> 0x7FFF \<or> \<not> be16 f 4 \<le> 0x7FFF
         \<or> \<bar>(diff_word f * 250000) sdiv 65536 - (ps_of_q16 (up_word f) - ps_of_q16 (down_word f))\<bar> > 4 \<or> (ucast (be16 f 12) :: u8) = 0
      then None
      else Some \<lparr>mr_tof_up_ps = ps_of_q16 (up_word f), mr_tof_down_ps = ps_of_q16 (down_word f),
                 mr_tof_diff_ps = (diff_word f * 250000) sdiv 65536, mr_valid_cycle_count = ucast (be16 f 12),
                 mr_tof_range = ucast (drop_bit 8 (be16 f 12)), mr_meta = zero_metadata\<rparr>)"
  by (simp add: max35103_decode_flow_frame_def absolute_ps signed_q16 up_word_def down_word_def diff_word_def word_gt_0 Let_def)

text \<open>C23: a complete frame with positive times and a valid cycle count is accepted when its difference word is the
  difference of its two time words; a frame that is accepted has a difference word off by at most one unit (4 ps),
  so a read torn between the registers by more is refused; and the times of an accepted frame are the nearest
  picoseconds of the sensor's 4 MHz Q16 times.\<close>

theorem frame_accepted_iff_coherent:
  assumes "be16 f 0 \<le> 0x7FFF" "be16 f 4 \<le> 0x7FFF" "(ucast (be16 f 12) :: u8) \<noteq> 0" "14 \<le> n"
  shows "(diff_word f = up_word f - down_word f \<longrightarrow> max35103_decode_flow_frame (Some f) n \<noteq> None) \<and>
    (\<forall>s. max35103_decode_flow_frame (Some f) n = Some s \<longrightarrow>
       \<bar>diff_word f - (up_word f - down_word f)\<bar> \<le> 1 \<and>
       \<bar>65536 * mr_tof_up_ps s - 250000 * up_word f\<bar> \<le> 32768 \<and> \<bar>65536 * mr_tof_down_ps s - 250000 * down_word f\<bar> \<le> 32768)"
proof -
  let ?d = "(diff_word f * 250000) sdiv 65536"
  note e = ps_of_q16_error [of "up_word f"] ps_of_q16_error [of "down_word f"] sdiv_error [of 65536 "diff_word f * 250000"]
  let ?c = "\<bar>?d - (ps_of_q16 (up_word f) - ps_of_q16 (down_word f))\<bar> \<le> 4"
  have refuse: "max35103_decode_flow_frame (Some f) n = None" if "\<not> ?c" using that by (simp add: decode_frame)
  have accept: "\<exists>s. max35103_decode_flow_frame (Some f) n = Some s \<and> mr_tof_up_ps s = ps_of_q16 (up_word f) \<and>
      mr_tof_down_ps s = ps_of_q16 (down_word f)" if ?c
    using that assms unfolding decode_frame by simp
  have coherent: ?c if "diff_word f = up_word f - down_word f"
    using e that by (simp add: left_diff_distrib)
  have near: "\<bar>diff_word f - (up_word f - down_word f)\<bar> \<le> 1" if ?c
    using e that by linarith
  show ?thesis
  proof (cases ?c)
    case True
    then obtain s where s: "max35103_decode_flow_frame (Some f) n = Some s" "mr_tof_up_ps s = ps_of_q16 (up_word f)"
      "mr_tof_down_ps s = ps_of_q16 (down_word f)" using accept by blast
    show ?thesis using s near [OF True] e(1,2) by simp
  next
    case False
    then have "max35103_decode_flow_frame (Some f) n = None" "diff_word f \<noteq> up_word f - down_word f"
      using refuse coherent by argo+
    then show ?thesis by simp
  qed
qed

definition sample_frame :: bytes where
  "sample_frame = [0, 160, 0, 0, 0, 160, 4, 25, 0xFF, 0xFF, 0xFB, 0xE7, 0, 8]"

lemma frame_accepted_iff_coherent_witness:
  "max35103_decode_flow_frame (Some sample_frame) 14 \<noteq> None \<and> diff_word sample_frame = - 1049"
proof -
  have w: "be16 sample_frame 0 \<le> 0x7FFF" "be16 sample_frame 4 \<le> 0x7FFF" "(ucast (be16 sample_frame 12) :: u8) \<noteq> 0"
    "diff_word sample_frame = - 1049" "up_word sample_frame - down_word sample_frame = - 1049" by code_simp+
  show ?thesis using frame_accepted_iff_coherent [OF w(1-3), of 14] w(4,5) by simp
qed

section \<open>The pressure sensor after a failure\<close>

datatype zssc_op =
    Zs_due u64 | Zs_start u32 | Zs_eoc | Zs_read | Zs_poll | Zs_completion u32 bool "bytes option" nat u64 | Zs_timeout | Zs_take

fun zssc_step :: "zssc_op \<Rightarrow> zssc3241_driver \<times> app_event_queue \<Rightarrow> zssc3241_driver \<times> app_event_queue" where
  "zssc_step (Zs_due now) (d, q) = (zssc3241_on_sample_due now d, q)"
| "zssc_step (Zs_start corr) (d, q) = (snd (zssc3241_prepare_start corr d), q)"
| "zssc_step Zs_eoc (d, q) = (zssc3241_on_eoc_asserted d, q)"
| "zssc_step Zs_read (d, q) = (snd (zssc3241_prepare_read d), q)"
| "zssc_step Zs_poll (d, q) = (zssc3241_on_poll_due d, q)"
| "zssc_step (Zs_completion corr ok rx len now) (d, q) = zssc3241_on_i2c_completion corr ok rx len now d q"
| "zssc_step Zs_timeout (d, q) = (zssc3241_on_timeout d, q)"
| "zssc_step Zs_take (d, q) = (snd (zssc3241_take_raw_pressure d), q)"

definition zssc_failed :: "zssc3241_driver \<Rightarrow> bool" where
  "zssc_failed d \<longleftrightarrow> zs_state d = ZSSC_STATE_TIMEOUT \<or> zs_state d = ZSSC_STATE_RECOVERY"

lemma zssc_failed_step:
  assumes "zssc_failed d" "p \<noteq> Zs_eoc" "p \<noteq> Zs_poll" "\<not> zs_raw_mailbox_valid d \<or> p \<noteq> Zs_take" "zssc_step p (d, q) = (d', q')"
  shows "zssc_failed d' \<and> q' = q \<and> zs_sample_sequence d' = zs_sample_sequence d \<and> (zs_raw_mailbox_valid d' \<longrightarrow> zs_raw_mailbox_valid d)"
  using assms
  by (cases p) (auto simp: zssc_failed_def zssc3241_on_sample_due_def zssc3241_prepare_start_def zssc3241_prepare_read_def
      zssc3241_on_i2c_completion_def zssc_error_def zssc3241_on_timeout_def zssc3241_take_raw_pressure_def split: if_splits option.splits)

text \<open>C25: after a timeout or a failed transfer (state TIMEOUT or RECOVERY) the pressure driver does not recover on its own.  Take any sequence of
  sample requests, starts, reads, completions, timeouts and takes without an end-of-conversion interrupt and without a poll event (which no part of the
  firmware posts), in which no raw sample that was left unread before the failure is taken (if the mailbox is empty, takes are allowed).
  It never starts another measurement and posts no event.  Taking a sample that is still in the mailbox
  puts the driver back to IDLE.\<close>

theorem pressure_driver_stays_failed:
  assumes "zssc_failed d" "Zs_eoc \<notin> set ps" "Zs_poll \<notin> set ps" "\<not> zs_raw_mailbox_valid d \<or> Zs_take \<notin> set ps"
    and "fold zssc_step ps (d, q) = (d', q')"
  shows "zssc_failed d' \<and> q' = q \<and> zs_sample_sequence d' = zs_sample_sequence d \<and> fst (zssc3241_prepare_start corr d') = None \<and>
    (zs_raw_mailbox_valid d' \<longrightarrow> zs_raw_mailbox_valid d \<and> zs_state (snd (zssc3241_take_raw_pressure d')) = ZSSC_STATE_IDLE)"
proof -
  have "zssc_failed d' \<and> q' = q \<and> zs_sample_sequence d' = zs_sample_sequence d \<and> (zs_raw_mailbox_valid d' \<longrightarrow> zs_raw_mailbox_valid d)"
    using assms
  proof (induction ps arbitrary: d q)
    case (Cons p ps)
    obtain d1 q1 where s: "zssc_step p (d, q) = (d1, q1)" by (metis prod.exhaust)
    have "zssc_failed d1 \<and> q1 = q \<and> zs_sample_sequence d1 = zs_sample_sequence d \<and> (zs_raw_mailbox_valid d1 \<longrightarrow> zs_raw_mailbox_valid d)"
      by (rule zssc_failed_step [OF Cons.prems(1) _ _ _ s]) (use Cons.prems(2,3,4) in auto)
    then show ?case using Cons.IH [of d1 q1] Cons.prems s by simp
  qed simp
  then show ?thesis by (auto simp: zssc_failed_def zssc3241_prepare_start_def zssc3241_take_raw_pressure_def)
qed

lemma pressure_driver_stays_failed_witness:
  "zs_state (fst (fold zssc_step [Zs_timeout, Zs_due 2000000, Zs_start 7, Zs_due 3000000] (zssc3241_on_timeout zssc3241_init, app_event_queue_init None))) = ZSSC_STATE_TIMEOUT \<and>
   fst (zssc3241_prepare_start 9 (fst (fold zssc_step [Zs_timeout, Zs_due 2000000, Zs_start 7, Zs_due 3000000] (zssc3241_on_timeout zssc3241_init, app_event_queue_init None)))) = None"
proof -
  let ?ps = "[Zs_timeout, Zs_due 2000000, Zs_start 7, Zs_due 3000000]"
  have f: "zssc_failed (zssc3241_on_timeout zssc3241_init)" by (simp add: zssc_failed_def zssc3241_on_timeout_def zssc3241_init_def)
  have "fst (zssc3241_prepare_start 9 (fst (fold zssc_step ?ps (zssc3241_on_timeout zssc3241_init, app_event_queue_init None)))) = None"
    using pressure_driver_stays_failed [OF f, of ?ps "app_event_queue_init None" "fst (fold zssc_step ?ps (zssc3241_on_timeout zssc3241_init, app_event_queue_init None))"
        "snd (fold zssc_step ?ps (zssc3241_on_timeout zssc3241_init, app_event_queue_init None))" 9] by simp
  then show ?thesis
    by (simp add: zssc3241_on_timeout_def zssc3241_init_def zssc3241_on_sample_due_def zssc3241_prepare_start_def)
qed

end
