(* ===== verification/Measurement.thy ===== *)
theory Measurement
  imports Sensors I2c_Bus Volume Leak
begin

text \<open>
  The measurement manager (services/measurement/measurement_manager.c): it owns the drivers, the
  processing services, the volume accumulator and leak detection, and runs the registered services on
  each event under one repository transaction.

  Services registered by other code are tags whose behaviour is an argument; such a service may write
  fields through the transaction.  The copy of the snapshot at the start of a dispatch is not
  interleaved with other writers, so it is the published snapshot.
\<close>

unbundle bit_operations_syntax

section \<open>Data\<close>

abbreviation MEASUREMENT_MANAGER_MAX_SERVICES :: nat where "MEASUREMENT_MANAGER_MAX_SERVICES \<equiv> 16"
abbreviation MEASUREMENT_SERVICE_ID_MAX35103 :: u32 where "MEASUREMENT_SERVICE_ID_MAX35103 \<equiv> 1"
abbreviation MEASUREMENT_SERVICE_ID_ZSSC3241 :: u32 where "MEASUREMENT_SERVICE_ID_ZSSC3241 \<equiv> 2"
abbreviation PRESSURE_I2C_CLIENT_ID :: u32 where "PRESSURE_I2C_CLIENT_ID \<equiv> 1"
abbreviation PRESSURE_I2C_PRIORITY :: u8 where "PRESSURE_I2C_PRIORITY \<equiv> 1"
abbreviation PRESSURE_I2C_TIMEOUT_US :: u64 where "PRESSURE_I2C_TIMEOUT_US \<equiv> 50000"

datatype measurement_service_result =
    MEASUREMENT_SERVICE_IGNORED | MEASUREMENT_SERVICE_HANDLED | MEASUREMENT_SERVICE_OUTPUT_WRITTEN | MEASUREMENT_SERVICE_ERROR

datatype event_handler = Max_on_event | Zssc_on_event | External_on_event nat

record measurement_service =
  ms_service_id :: u32
  ms_on_event :: "event_handler option"
  ms_compute :: "nat option"
  ms_enabled :: bool

text \<open>What a compute callback sees: the input snapshot, the snapshot under construction, the event and its time.\<close>

record measurement_compute_context =
  cx_input :: runtime_snapshot
  cx_output :: "runtime_snapshot option"
  cx_event :: app_event
  cx_now_us :: u64

record measurement_manager =
  mm_max :: max35103_driver
  mm_zssc :: zssc3241_driver
  mm_pressure_service :: pressure_service
  mm_flow_service :: flow_service
  mm_volume_accumulator :: volume_accumulator
  mm_leak_detection :: leak_detection_service
  mm_i2c_bus :: bool
  mm_pressure_i2c_address :: u8
  mm_next_pressure_correlation_id :: u32
  mm_pressure_completion_now_us :: u64
  mm_pressure_pipeline_bound :: bool
  mm_flow_pipeline_bound :: bool
  mm_services :: "measurement_service list"
  mm_production_enabled :: bool
  mm_max_cycles :: u32
  mm_zssc_cycles :: u32

text \<open>The behaviour of external services, on a state of their own.\<close>

record 'x externals =
  ex_on_event :: "nat \<Rightarrow> app_event \<Rightarrow> 'x \<Rightarrow> measurement_service_result \<times> 'x"
  ex_compute :: "nat \<Rightarrow> measurement_compute_context \<Rightarrow> 'x \<Rightarrow> measurement_service_result \<times> field_write list \<times> 'x"

text \<open>The manager and what it works on.\<close>

record 'x measurement_world =
  w_manager :: measurement_manager
  w_queue :: app_event_queue
  w_bus :: i2c_bus
  w_external :: 'x

section \<open>The pressure sensor on the I2C bus\<close>

definition pressure_bus_complete :: "i2c_completion \<Rightarrow> measurement_manager \<times> app_event_queue \<Rightarrow> i2c_bus \<Rightarrow>
    (measurement_manager \<times> app_event_queue) \<times> i2c_bus" where
  "pressure_bus_complete n c b =
     (case c of (m, q) \<Rightarrow>
       let z = mm_zssc m;
           reading = (zs_state z = ZSSC_STATE_READING \<or> zs_state z = ZSSC_STATE_POLLING)
       in case zssc3241_on_i2c_completion (bn_correlation_id n) (bn_result n = I2C_TRANSACTION_OK)
                 (if reading then Some (zs_response_buffer z) else None) (if reading then ZSSC3241_FULL_RESPONSE_SIZE else 0)
                 (mm_pressure_completion_now_us m) z q of
            (z', q') \<Rightarrow> ((m\<lparr>mm_zssc := z'\<rparr>, q'), b))"

text \<open>The response buffer of the driver has address 16.\<close>

definition pressure_request :: "measurement_manager \<Rightarrow> u32 \<Rightarrow> bytes option \<Rightarrow> u16 \<Rightarrow> u32 option \<Rightarrow> u16 \<Rightarrow> u64 \<Rightarrow> i2c_bus_request" where
  "pressure_request m corr tx tx_len rx rx_len now =
     \<lparr>br_client_id = PRESSURE_I2C_CLIENT_ID, br_correlation_id = corr, br_client_generation = zs_generation (mm_zssc m),
      br_slave_address = mm_pressure_i2c_address m, br_tx = tx, br_tx_length = tx_len, br_rx = rx, br_rx_length = rx_len,
      br_deadline_us = now + PRESSURE_I2C_TIMEOUT_US, br_priority = PRESSURE_I2C_PRIORITY\<rparr>"

definition submit_request :: "port_answer \<Rightarrow> i2c_bus_request \<Rightarrow> measurement_manager \<Rightarrow> i2c_bus \<Rightarrow> bool \<times> measurement_manager \<times> i2c_bus" where
  "submit_request ans request m b =
     (case i2c_bus_submit ans request b of
        (result, tid, b') \<Rightarrow>
          if result \<noteq> I2C_SUBMIT_ACCEPTED then (False, m, b')
          else (True, m\<lparr>mm_zssc := (mm_zssc m)\<lparr>zs_active_transaction_id := tid\<rparr>\<rparr>, b'))"

definition submit_pressure_start :: "port_answer \<Rightarrow> u64 \<Rightarrow> measurement_manager \<Rightarrow> i2c_bus \<Rightarrow> bool \<times> measurement_manager \<times> i2c_bus" where
  "submit_pressure_start ans now m b =
     (let corr = mm_next_pressure_correlation_id m;
          (tx, z) = zssc3241_prepare_start corr (mm_zssc m);
          m1 = m\<lparr>mm_next_pressure_correlation_id := corr + 1, mm_zssc := z\<rparr>
      in if tx = None \<or> \<not> mm_i2c_bus m then (False, m1, b)
         else submit_request ans (pressure_request m1 corr tx 1 None 0 now) m1 b)"

definition submit_pressure_read :: "port_answer \<Rightarrow> u64 \<Rightarrow> measurement_manager \<Rightarrow> i2c_bus \<Rightarrow> bool \<times> measurement_manager \<times> i2c_bus" where
  "submit_pressure_read ans now m b =
     (let (ok, z) = zssc3241_prepare_read (mm_zssc m);
          m1 = m\<lparr>mm_zssc := z\<rparr>
      in if \<not> ok \<or> \<not> mm_i2c_bus m then (False, m1, b)
         else submit_request ans (pressure_request m1 (zs_active_correlation_id z) None 0 (Some 16) 7 now) m1 b)"

section \<open>The built-in services\<close>

definition max_on_event :: "app_event \<Rightarrow> 'x measurement_world \<Rightarrow> measurement_service_result \<times> 'x measurement_world" where
  "max_on_event e w =
     (let m = w_manager w
      in if ev_id e = EVT_MAX_IRQ_ASSERTED then
           (MEASUREMENT_SERVICE_HANDLED,
            w\<lparr>w_manager := m\<lparr>mm_max := max35103_on_irq (ev_monotonic_timestamp_us e) (mm_max m), mm_max_cycles := mm_max_cycles m + 1\<rparr>\<rparr>)
         else if ev_id e = EVT_MAX_SPI_COMPLETED \<or> ev_id e = EVT_MAX_SPI_FAILED then
           (let ok = (ev_id e = EVT_MAX_SPI_COMPLETED);
                (d, q) = max35103_on_spi_completion (ev_correlation_id e) ok (if ok then Some (ev_payload e) else None)
                           (if ok then unat (ev_payload_size e) else 0) (ev_monotonic_timestamp_us e) (mm_max m) (w_queue w)
            in (MEASUREMENT_SERVICE_HANDLED, w\<lparr>w_manager := m\<lparr>mm_max := d\<rparr>, w_queue := q\<rparr>))
         else if ev_id e = EVT_MAX_RESULT_TIMEOUT then
           (MEASUREMENT_SERVICE_HANDLED, w\<lparr>w_manager := m\<lparr>mm_max := max35103_on_timeout (mm_max m)\<rparr>\<rparr>)
         else if ev_id e = EVT_MAX_RAW_READY then (MEASUREMENT_SERVICE_HANDLED, w)
         else (MEASUREMENT_SERVICE_IGNORED, w))"

text \<open>A request to the bus after a change of the driver, when the pipeline is bound.\<close>

definition when_bound :: "(measurement_manager \<Rightarrow> i2c_bus \<Rightarrow> bool \<times> measurement_manager \<times> i2c_bus) \<Rightarrow> 'x measurement_world \<Rightarrow>
    measurement_service_result \<times> 'x measurement_world" where
  "when_bound submit w =
     (if \<not> mm_pressure_pipeline_bound (w_manager w) then (MEASUREMENT_SERVICE_HANDLED, w)
      else case submit (w_manager w) (w_bus w) of
             (ok, m, b) \<Rightarrow> (if ok then MEASUREMENT_SERVICE_HANDLED else MEASUREMENT_SERVICE_ERROR, w\<lparr>w_manager := m, w_bus := b\<rparr>))"

definition on_zssc :: "(zssc3241_driver \<Rightarrow> zssc3241_driver) \<Rightarrow> 'x measurement_world \<Rightarrow> 'x measurement_world" where
  "on_zssc f w = w\<lparr>w_manager := (w_manager w)\<lparr>mm_zssc := f (mm_zssc (w_manager w))\<rparr>\<rparr>"

definition zssc_on_event :: "port_answer \<Rightarrow> app_event \<Rightarrow> 'x measurement_world \<Rightarrow> measurement_service_result \<times> 'x measurement_world" where
  "zssc_on_event ans e w =
     (let now = ev_monotonic_timestamp_us e
      in if ev_id e = EVT_PRESSURE_SAMPLE_DUE then
           (let w1 = on_zssc (zssc3241_on_sample_due now) w;
                m = w_manager w1
            in when_bound (submit_pressure_start ans now) (w1\<lparr>w_manager := m\<lparr>mm_zssc_cycles := mm_zssc_cycles m + 1\<rparr>\<rparr>))
         else if ev_id e = EVT_PRESSURE_EOC_ASSERTED then when_bound (submit_pressure_read ans now) (on_zssc zssc3241_on_eoc_asserted w)
         else if ev_id e = EVT_PRESSURE_POLL_DUE then when_bound (submit_pressure_read ans now) (on_zssc zssc3241_on_poll_due w)
         else if ev_id e = EVT_PRESSURE_TIMEOUT then (MEASUREMENT_SERVICE_HANDLED, on_zssc zssc3241_on_timeout w)
         else if ev_id e = EVT_PRESSURE_RAW_READY then (MEASUREMENT_SERVICE_HANDLED, w)
         else (MEASUREMENT_SERVICE_IGNORED, w))"

section \<open>Registration\<close>

definition measurement_manager_register :: "measurement_service \<Rightarrow> measurement_manager \<Rightarrow> bool \<times> measurement_manager" where
  "measurement_manager_register s m =
     (if ms_service_id s = 0 \<or> (ms_on_event s = None \<and> ms_compute s = None)
         \<or> length (mm_services m) \<ge> MEASUREMENT_MANAGER_MAX_SERVICES
         \<or> (\<exists>x \<in> set (mm_services m). ms_service_id x = ms_service_id s)
      then (False, m) else (True, m\<lparr>mm_services := mm_services m @ [s]\<rparr>))"

fun enable_first :: "u32 \<Rightarrow> bool \<Rightarrow> measurement_service list \<Rightarrow> measurement_service list option" where
  "enable_first i v [] = None"
| "enable_first i v (s # ss) =
     (if ms_service_id s = i then Some (s\<lparr>ms_enabled := v\<rparr> # ss) else map_option ((#) s) (enable_first i v ss))"

definition measurement_manager_set_enabled :: "u32 \<Rightarrow> bool \<Rightarrow> measurement_manager \<Rightarrow> bool \<times> measurement_manager" where
  "measurement_manager_set_enabled i v m =
     (case enable_first i v (mm_services m) of None \<Rightarrow> (False, m) | Some ss \<Rightarrow> (True, m\<lparr>mm_services := ss\<rparr>))"

definition max_service :: measurement_service where
  "max_service = \<lparr>ms_service_id = MEASUREMENT_SERVICE_ID_MAX35103, ms_on_event = Some Max_on_event, ms_compute = None, ms_enabled = True\<rparr>"

definition zssc_service :: measurement_service where
  "zssc_service = \<lparr>ms_service_id = MEASUREMENT_SERVICE_ID_ZSSC3241, ms_on_event = Some Zssc_on_event, ms_compute = None, ms_enabled = True\<rparr>"

text \<open>The manager with its queue and repository bound.\<close>

definition measurement_manager_init :: measurement_manager where
  "measurement_manager_init =
     (let m = \<lparr>mm_max = max35103_init, mm_zssc = zssc3241_init, mm_pressure_service = pressure_service_init,
               mm_flow_service = flow_service_init, mm_volume_accumulator = VolumeAccumulator_Init None,
               mm_leak_detection = LeakDetection_Init (Some LeakConfig_GetTestDefaults) 0, mm_i2c_bus = False,
               mm_pressure_i2c_address = 0, mm_next_pressure_correlation_id = 1, mm_pressure_completion_now_us = 0,
               mm_pressure_pipeline_bound = False, mm_flow_pipeline_bound = False, mm_services = [], mm_production_enabled = True,
               mm_max_cycles = 0, mm_zssc_cycles = 0\<rparr>
      in snd (measurement_manager_register zssc_service (snd (measurement_manager_register max_service m))))"

definition measurement_manager_bind_flow_pipeline ::
  "flow_profile \<Rightarrow> calibration_record \<Rightarrow> volume_config \<Rightarrow> leak_detection_config \<Rightarrow> u64 \<Rightarrow> measurement_manager \<Rightarrow> bool \<times> measurement_manager" where
  "measurement_manager_bind_flow_pipeline profile calibration vcfg lcfg now m =
     (case LeakConfig_Validate (Some lcfg) of Inl _ \<Rightarrow> (False, m)
      | Inr _ \<Rightarrow>
          (True, m\<lparr>mm_flow_service := flow_service_set_calibration (Some calibration) (flow_service_set_profile (Some profile) (mm_flow_service m)),
                  mm_volume_accumulator := VolumeAccumulator_Init (Some vcfg), mm_leak_detection := LeakDetection_Init (Some lcfg) now,
                  mm_flow_pipeline_bound := True\<rparr>))"

definition measurement_manager_bind_pressure_pipeline ::
  "u8 \<Rightarrow> pressure_profile \<Rightarrow> calibration_record \<Rightarrow> measurement_manager \<Rightarrow> i2c_bus \<Rightarrow> bool \<times> measurement_manager \<times> i2c_bus" where
  "measurement_manager_bind_pressure_pipeline address profile calibration m b =
     (if \<not> ib_port_bound b then (False, m, b)
      else
        let m1 = m\<lparr>mm_i2c_bus := True, mm_pressure_i2c_address := address,
                   mm_pressure_service := pressure_service_set_calibration (Some calibration)
                      (pressure_service_set_profile (Some profile) (mm_pressure_service m))\<rparr>;
            client = \<lparr>bc_client_id = PRESSURE_I2C_CLIENT_ID, bc_client_generation = zs_generation (mm_zssc m), bc_address_base = address,
                      bc_address_mask = 0x7F, bc_on_complete = True\<rparr>
        in case i2c_bus_register_client client b of
             (ok, b') \<Rightarrow> if \<not> ok then (False, m1, b') else (True, m1\<lparr>mm_pressure_pipeline_bound := True\<rparr>, b'))"

definition measurement_manager_complete_i2c ::
  "port_answer \<Rightarrow> u32 \<Rightarrow> u32 \<Rightarrow> u32 \<Rightarrow> u32 \<Rightarrow> i2c_transaction_result \<Rightarrow> u64 \<Rightarrow> 'x measurement_world \<Rightarrow> (bool \<times> 'x measurement_world) option" where
  "measurement_manager_complete_i2c ans tid corr cgen bgen result now w =
     (if \<not> mm_i2c_bus (w_manager w) then Some (False, w)
      else case i2c_bus_complete ans pressure_bus_complete tid corr cgen bgen result
                  (((w_manager w)\<lparr>mm_pressure_completion_now_us := now\<rparr>, w_queue w), w_bus w) of
             None \<Rightarrow> None
           | Some (ok, (m, q), b) \<Rightarrow> Some (ok, w\<lparr>w_manager := m, w_queue := q, w_bus := b\<rparr>))"

section \<open>Processing an event\<close>

text \<open>The state of a dispatch: the world, the transaction and the repository.\<close>

type_synonym 'x dispatch = "'x measurement_world \<times> repo_write_txn \<times> data_repository"

definition call_on_event :: "port_answer \<Rightarrow> 'x externals \<Rightarrow> app_event \<Rightarrow> event_handler \<Rightarrow> 'x measurement_world \<Rightarrow>
    measurement_service_result \<times> 'x measurement_world" where
  "call_on_event ans ex e h w =
     (case h of
        Max_on_event \<Rightarrow> max_on_event e w
      | Zssc_on_event \<Rightarrow> zssc_on_event ans e w
      | External_on_event i \<Rightarrow> (case ex_on_event ex i e (w_external w) of (res, x) \<Rightarrow> (res, w\<lparr>w_external := x\<rparr>)))"

definition call_compute :: "'x externals \<Rightarrow> runtime_snapshot \<Rightarrow> app_event \<Rightarrow> nat \<Rightarrow> 'x dispatch \<Rightarrow> measurement_service_result \<times> 'x dispatch" where
  "call_compute ex input e i s =
     (case s of (w, t, r) \<Rightarrow>
       case ex_compute ex i \<lparr>cx_input = input, cx_output = txn_read_snapshot t r, cx_event = e, cx_now_us = ev_monotonic_timestamp_us e\<rparr>
              (w_external w) of
         (res, writes, x) \<Rightarrow> (case txn_writes writes t r of (t', r') \<Rightarrow> (res, w\<lparr>w_external := x\<rparr>, t', r')))"

text \<open>The loop over the services; the first result says that a service failed, the second that one consumed the event.\<close>

fun run_services :: "port_answer \<Rightarrow> 'x externals \<Rightarrow> runtime_snapshot \<Rightarrow> app_event \<Rightarrow> measurement_service list \<Rightarrow> bool \<Rightarrow> 'x dispatch \<Rightarrow>
    bool \<times> bool \<times> 'x dispatch" where
  "run_services ans ex input e [] consumed s = (False, consumed, s)"
| "run_services ans ex input e (v # vs) consumed s =
     (if \<not> ms_enabled v then run_services ans ex input e vs consumed s
      else case s of (w, t, r) \<Rightarrow>
        case (case ms_on_event v of None \<Rightarrow> (MEASUREMENT_SERVICE_IGNORED, w) | Some h \<Rightarrow> call_on_event ans ex e h w) of
          (res, w1) \<Rightarrow>
            if res = MEASUREMENT_SERVICE_ERROR then (True, consumed, (w1, t, r))
            else
              let consumed1 = (consumed \<or> res \<noteq> MEASUREMENT_SERVICE_IGNORED)
              in case ms_compute v of
                   None \<Rightarrow> run_services ans ex input e vs consumed1 (w1, t, r)
                 | Some i \<Rightarrow>
                     (case call_compute ex input e i (w1, t, r) of
                        (res2, s2) \<Rightarrow>
                          if res2 = MEASUREMENT_SERVICE_ERROR then (True, consumed1, s2)
                          else run_services ans ex input e vs (consumed1 \<or> res2 \<noteq> MEASUREMENT_SERVICE_IGNORED) s2))"

text \<open>The two pipelines on a raw sample.  The first result says that they succeeded.\<close>

definition pressure_pipeline :: "measurement_manager \<Rightarrow> repo_write_txn \<Rightarrow> data_repository \<Rightarrow>
    bool \<times> measurement_manager \<times> repo_write_txn \<times> data_repository" where
  "pressure_pipeline m t r =
     (case zssc3241_take_raw_pressure (mm_zssc m) of
        (None, z) \<Rightarrow> (False, m, t, r)
      | (Some sample, z) \<Rightarrow>
          (case pressure_service_accept_sample (mm_pressure_service m) (zr_raw_u24 sample) (zr_status sample) (zr_meta sample) t r of
             (status, p, t', r') \<Rightarrow> (status = PRESSURE_OK, m\<lparr>mm_zssc := z, mm_pressure_service := p\<rparr>, t', r')))"

definition usable :: "result_metadata \<Rightarrow> bool" where
  "usable m \<longleftrightarrow> md_validity m = DATA_VALID \<and> md_freshness m = DATA_FRESH \<and> md_acceptance m = DATA_ACCEPTED"

definition leak_input :: "max35103_raw_flow_sample \<Rightarrow> runtime_snapshot \<Rightarrow> leak_input_view" where
  "leak_input raw candidate =
     (let f = rs_flow candidate; p = rs_pressure candidate
      in \<lparr>li_evaluation_monotonic_us = md_completion_monotonic_us (mr_meta raw), li_sample_sequence = md_sample_sequence (mr_meta raw),
          li_source_generation = md_source_generation (mr_meta raw), li_flow_usable = usable (fl_meta f),
          li_flow_ul_per_s = fl_flow_ul_per_s f, li_flow_direction = fl_direction f, li_pressure_usable = usable (pr_meta p),
          li_pressure_pa = pr_pressure_pa p, li_flow_result = Some f, li_pressure_result = Some p\<rparr>)"

text \<open>Volume and leak detection on the candidate snapshot, on copies of their state.\<close>

definition volume_and_leak :: "max35103_raw_flow_sample \<Rightarrow> runtime_snapshot \<Rightarrow> measurement_manager \<Rightarrow> repo_write_txn \<Rightarrow> data_repository \<Rightarrow>
    (volume_accumulator \<times> leak_detection_service) option \<times> repo_write_txn \<times> data_repository" where
  "volume_and_leak raw input m t r =
     (case txn_read_snapshot t r of
        None \<Rightarrow> (None, t, r)
      | Some candidate \<Rightarrow>
          (case VolumeAccumulator_Consume (mm_volume_accumulator m) (rs_flow candidate) of
             (volume_status, next_volume) \<Rightarrow>
               if volume_status \<noteq> VOLUME_OK \<and> volume_status \<noteq> VOLUME_ANCHORED \<and> volume_status \<noteq> VOLUME_ZERO_INTERVAL then (None, t, r)
               else (case txn_write_volume (VolumeAccumulator_GetState next_volume) t r of
                       (ok, t1, r1) \<Rightarrow>
                         if \<not> ok then (None, t1, r1)
                         else
                           let view = leak_input raw candidate;
                               (leak_status, next_leak) = LeakDetection_Evaluate (mm_leak_detection m) view
                           in if leak_status = LEAK_UPDATE_INTERNAL_ERROR \<or> leak_status = LEAK_UPDATE_CONFIG_ERROR then (None, t1, r1)
                              else (case txn_write_leak (LeakDetection_GetResult next_leak (Some view)
                                           (Some (VolumeAccumulator_GetState next_volume)) (rs_snapshot_version input)) t1 r1 of
                                      (ok2, t2, r2) \<Rightarrow> (if ok2 then Some (next_volume, next_leak) else None, t2, r2)))))"

definition flow_pipeline :: "runtime_snapshot \<Rightarrow> measurement_manager \<Rightarrow> repo_write_txn \<Rightarrow> data_repository \<Rightarrow>
    (volume_accumulator \<times> leak_detection_service) option \<times> measurement_manager \<times> repo_write_txn \<times> data_repository" where
  "flow_pipeline input m t r =
     (if \<not> mm_flow_pipeline_bound m then (None, m, t, r)
      else case max35103_take_raw_flow (mm_max m) of
             (None, d) \<Rightarrow> (None, m, t, r)
           | (Some raw, d) \<Rightarrow>
               (case flow_service_accept_sample (mm_flow_service m) (mr_tof_up_ps raw) (mr_tof_down_ps raw) (mr_meta raw) (rs_temperature input) t r of
                  (status, fs, t1, r1) \<Rightarrow>
                    let m1 = m\<lparr>mm_max := d, mm_flow_service := fs\<rparr>
                    in if status \<noteq> FLOW_OK then (None, m1, t1, r1)
                       else (case volume_and_leak raw input m1 t1 r1 of (res, t2, r2) \<Rightarrow> (res, m1, t2, r2))))"

definition ready_event :: "app_event \<Rightarrow> event_id \<Rightarrow> app_event" where
  "ready_event e i = (result_event i (ev_correlation_id e))\<lparr>ev_monotonic_timestamp_us := ev_monotonic_timestamp_us e\<rparr>"

text \<open>After a commit: the prepared states become live, and the results are announced.\<close>

definition after_commit :: "app_event \<Rightarrow> (volume_accumulator \<times> leak_detection_service) option \<Rightarrow> 'x measurement_world \<Rightarrow> 'x measurement_world" where
  "after_commit e prepared w =
     (let w1 = (case prepared of
                  None \<Rightarrow> w
                | Some (next_volume, next_leak) \<Rightarrow>
                    w\<lparr>w_manager := (w_manager w)\<lparr>mm_volume_accumulator := next_volume, mm_leak_detection := next_leak\<rparr>,
                      w_queue := foldl (\<lambda>q i. post (ready_event e i) q) (w_queue w)
                                   [EVT_FLOW_RESULT_READY, EVT_VOLUME_UPDATED, EVT_LEAK_RESULT_UPDATED]\<rparr>)
      in if ev_id e = EVT_PRESSURE_RAW_READY then w1\<lparr>w_queue := post (ready_event e EVT_PRESSURE_RESULT_READY) (w_queue w1)\<rparr> else w1)"

definition measurement_manager_process_event ::
  "port_answer \<Rightarrow> 'x externals \<Rightarrow> app_event \<Rightarrow> 'x measurement_world \<Rightarrow> data_repository \<Rightarrow> bool \<times> 'x measurement_world \<times> data_repository" where
  "measurement_manager_process_event ans ex e w r =
     (let input = published r
      in case txn_begin txn_init r of
           (False, t, r0) \<Rightarrow> (False, w, r0)
         | (True, t, r0) \<Rightarrow>
             (case run_services ans ex input e (mm_services (w_manager w)) False (w, t, r0) of
                (failed, consumed, w1, t1, r1) \<Rightarrow>
                  let (failed2, w2, t2, r2) =
                        (if \<not> failed \<and> ev_id e = EVT_PRESSURE_RAW_READY
                         then case pressure_pipeline (w_manager w1) t1 r1 of (ok, m, t', r') \<Rightarrow> (\<not> ok, w1\<lparr>w_manager := m\<rparr>, t', r')
                         else (failed, w1, t1, r1));
                      (failed3, prepared, w3, t3, r3) =
                        (if \<not> failed2 \<and> ev_id e = EVT_MAX_RAW_READY
                         then case flow_pipeline input (w_manager w2) t2 r2 of (res, m, t', r') \<Rightarrow> (res = None, res, w2\<lparr>w_manager := m\<rparr>, t', r')
                         else (failed2, None, w2, t2, r2))
                  in if failed3 then (False, w3, snd (txn_abort t3 r3))
                     else if tx_written_fields_mask t3 \<noteq> 0 then
                       (case txn_commit t3 r3 of
                          (ok, t4, r4) \<Rightarrow> if \<not> ok then (False, w3, r4) else (consumed, after_commit e prepared w3, r4))
                     else (consumed, w3, snd (txn_abort t3 r3))))"

text \<open>What reaches the manager: an event from the event loop, bytes that the bus writes into the pressure
  driver's response buffer, or the completion of an I2C transaction.\<close>

datatype measurement_input =
    Event_input port_answer app_event
  | Receive_input bytes
  | Completion_input port_answer u32 u32 u32 u32 i2c_transaction_result u64

text \<open>None: the completion does not return.\<close>

definition measurement_step :: "'x externals \<Rightarrow> measurement_input \<Rightarrow> 'x measurement_world \<times> data_repository \<Rightarrow>
    ('x measurement_world \<times> data_repository) option" where
  "measurement_step ex i s =
     (case s of (w, r) \<Rightarrow>
       (case i of
          Event_input ans e \<Rightarrow> (case measurement_manager_process_event ans ex e w r of (result, w', r') \<Rightarrow> Some (w', r'))
        | Receive_input bs \<Rightarrow> Some (on_zssc (\<lambda>z. z\<lparr>zs_response_buffer := bs\<rparr>) w, r)
        | Completion_input ans tid corr cgen bgen res now \<Rightarrow>
            map_option (\<lambda>(ok, w'). (w', r)) (measurement_manager_complete_i2c ans tid corr cgen bgen res now w)))"

fun measurement_run :: "'x externals \<Rightarrow> measurement_input list \<Rightarrow> 'x measurement_world \<times> data_repository \<Rightarrow>
    ('x measurement_world \<times> data_repository) option" where
  "measurement_run ex [] s = Some s"
| "measurement_run ex (i # xs) s = (case measurement_step ex i s of None \<Rightarrow> None | Some s' \<Rightarrow> measurement_run ex xs s')"

text \<open>The flows that the run publishes, oldest first.\<close>

definition published_flow :: "measurement_input \<Rightarrow> data_repository \<Rightarrow> data_repository \<Rightarrow> flow_result list" where
  "published_flow i r r' =
     (case i of
        Event_input ans e \<Rightarrow>
          if ev_id e = EVT_MAX_RAW_READY \<and> dr_snapshot_version r' \<noteq> dr_snapshot_version r then [rs_flow (published r')] else []
      | _ \<Rightarrow> [])"

fun published_flows :: "'x externals \<Rightarrow> measurement_input list \<Rightarrow> 'x measurement_world \<times> data_repository \<Rightarrow> flow_result list" where
  "published_flows ex [] s = []"
| "published_flows ex (i # xs) s =
     (case measurement_step ex i s of None \<Rightarrow> [] | Some s' \<Rightarrow> published_flow i (snd s) (snd s') @ published_flows ex xs s')"

end
