(* ===== verification/Measurement_Safety.thy ===== *)
theory Measurement_Safety
  imports Measurement
begin

text \<open>
  What the measurement manager guarantees: a dispatch publishes a sample with the volume and the leak
  result that follow from it, or changes none of them; over a run the published volume is the exact
  integral of the published flows; and the flow pipeline stops for good after one long gap.
\<close>

unbundle bit_operations_syntax

section \<open>What a dispatch changes\<close>

definition draft :: "repo_write_txn \<Rightarrow> data_repository \<Rightarrow> runtime_snapshot" where
  "draft t r = buffer r (tx_inactive_index t)"

text \<open>A transaction in progress over a repository that was \<open>r0\<close> for its readers.\<close>

definition working_on :: "data_repository \<Rightarrow> repo_write_txn \<Rightarrow> data_repository \<Rightarrow> bool" where
  "working_on r0 t r \<longleftrightarrow> repo_ok r \<and> owns t r \<and> published r = published r0 \<and> dr_snapshot_version r = dr_snapshot_version r0"

lemma begin_works:
  assumes "repo_ok r" "\<not> dr_writer_active r"
  obtains t r' where "txn_begin txn_init r = (True, t, r')" "working_on r t r'" "draft t r' = published r" "tx_written_fields_mask t = 0"
proof -
  obtain t r' where "txn_begin txn_init r = (True, t, r')" "repo_ok r'" "owns t r'" "published r' = published r"
      "buffer r' (tx_inactive_index t) = published r" "dr_snapshot_version r' = dr_snapshot_version r"
    using begin_owned [OF assms, of txn_init] by (auto simp: txn_init_def)
  moreover from this(1) have "tx_written_fields_mask t = 0" by (auto simp: txn_begin_def Let_def split: if_splits)
  ultimately show thesis using that by (auto simp: working_on_def draft_def)
qed

lemma write_works:
  assumes "txn_write v t r = (ok, t', r')" "working_on r0 t r"
  shows "ok \<and> working_on r0 t' r' \<and> draft t' r' = apply_write v (draft t r)"
  using assms write_owned [of r t v] by (auto simp: working_on_def draft_def)

lemma writes_work:
  assumes "txn_writes vs t r = (t', r')" "working_on r0 t r"
  shows "working_on r0 t' r'"
  using assms writes_owned [of r t vs] by (auto simp: working_on_def)

lemma read_works: "working_on r0 t r \<Longrightarrow> txn_read_snapshot t r = Some (draft t r)"
  by (simp add: working_on_def draft_def read_owned)

lemma abort_works:
  "working_on r0 t r \<Longrightarrow> repo_ok (snd (txn_abort t r)) \<and> \<not> dr_writer_active (snd (txn_abort t r)) \<and>
     published (snd (txn_abort t r)) = published r0 \<and> dr_snapshot_version (snd (txn_abort t r)) = dr_snapshot_version r0"
  using abort_owned [of r t] by (auto simp: working_on_def)

lemma commit_works:
  assumes "txn_commit t r = (ok, t', r')" "working_on r0 t r"
  shows "ok \<and> repo_ok r' \<and> \<not> dr_writer_active r' \<and> dr_snapshot_version r' = dr_snapshot_version r0 + 1 \<and>
    published r' = (draft t r)\<lparr>rs_snapshot_version := dr_snapshot_version r0 + 1\<rparr>"
  using assms commit_owned [of r t] by (auto simp: working_on_def draft_def)

text \<open>What only a commit changes in the manager.\<close>

definition same_totals :: "measurement_manager \<Rightarrow> measurement_manager \<Rightarrow> bool" where
  "same_totals m m' \<longleftrightarrow> mm_volume_accumulator m' = mm_volume_accumulator m \<and> mm_leak_detection m' = mm_leak_detection m \<and>
     mm_services m' = mm_services m \<and> fs_active_profile (mm_flow_service m') = fs_active_profile (mm_flow_service m) \<and>
     fs_active_cal (mm_flow_service m') = fs_active_cal (mm_flow_service m)"

lemma same_totals_refl [simp]: "same_totals m m"
  by (simp add: same_totals_def)

lemma same_totals_trans: "same_totals m m1 \<Longrightarrow> same_totals m1 m2 \<Longrightarrow> same_totals m m2"
  by (simp add: same_totals_def)

text \<open>Every sample of the flow sensor, taken or in the mailbox, is not older than \<open>T\<close>.\<close>

definition late :: "u64 \<Rightarrow> measurement_manager \<Rightarrow> bool" where
  "late T m \<longleftrightarrow> T \<le> mx_sample_monotonic_us (mm_max m) \<and>
     (mx_raw_flow_mailbox_valid (mm_max m) \<longrightarrow> T \<le> md_sample_monotonic_us (mr_meta (mx_raw_flow_mailbox (mm_max m))))"

lemma late_same_max: "mm_max m' = mm_max m \<Longrightarrow> late T m' = late T m"
  by (simp add: late_def)

lemma submit_request_frame: "submit_request ans q m b = (ok, m', b') \<Longrightarrow> same_totals m m' \<and> mm_max m' = mm_max m"
  by (auto simp: submit_request_def same_totals_def split: prod.splits if_splits)

lemma submit_pressure_frame:
  "submit_pressure_start ans now m b = (ok, m', b') \<Longrightarrow> same_totals m m' \<and> mm_max m' = mm_max m"
  "submit_pressure_read ans now m b = (ok, m', b') \<Longrightarrow> same_totals m m' \<and> mm_max m' = mm_max m"
  by (auto simp: submit_pressure_start_def submit_pressure_read_def Let_def same_totals_def split: prod.splits if_splits
      dest!: submit_request_frame)

text \<open>The pressure side leaves the flow side alone.\<close>

definition flow_side_kept :: "measurement_manager \<Rightarrow> measurement_manager \<Rightarrow> bool" where
  "flow_side_kept m m' \<longleftrightarrow> same_totals m m' \<and> mm_max m' = mm_max m"

lemma flow_side_trans: "flow_side_kept m m1 \<Longrightarrow> flow_side_kept m1 m2 \<Longrightarrow> flow_side_kept m m2"
  by (auto simp: flow_side_kept_def intro: same_totals_trans)

lemma flow_side_on_zssc: "flow_side_kept (w_manager w) (w_manager (on_zssc f w))"
  by (simp add: flow_side_kept_def on_zssc_def same_totals_def)

lemma flow_side_cycles: "flow_side_kept m (m\<lparr>mm_zssc_cycles := k\<rparr>)"
  by (simp add: flow_side_kept_def same_totals_def)

lemma when_bound_kept:
  assumes "when_bound submit w = (res, w')"
    and "\<And>ok m' b'. submit (w_manager w) (w_bus w) = (ok, m', b') \<Longrightarrow> flow_side_kept (w_manager w) m'"
  shows "flow_side_kept (w_manager w) (w_manager w')"
  using assms by (auto simp: when_bound_def flow_side_kept_def split: if_splits prod.splits)

lemma submit_kept:
  "submit_pressure_start ans now m b = (ok, m', b') \<Longrightarrow> flow_side_kept m m'"
  "submit_pressure_read ans now m b = (ok, m', b') \<Longrightarrow> flow_side_kept m m'"
  by (simp_all add: flow_side_kept_def submit_pressure_frame)

lemma zssc_on_event_kept:
  assumes "zssc_on_event ans e w = (res, w')"
  shows "flow_side_kept (w_manager w) (w_manager w')"
proof -
  let ?now = "ev_monotonic_timestamp_us e"
  consider f where "when_bound (submit_pressure_read ans ?now) (on_zssc f w) = (res, w')"
    | f k where "when_bound (submit_pressure_start ans ?now)
          ((on_zssc f w)\<lparr>w_manager := (w_manager (on_zssc f w))\<lparr>mm_zssc_cycles := k\<rparr>\<rparr>) = (res, w')"
    | f where "w' = on_zssc f w" | "w' = w"
    using assms by (auto simp: zssc_on_event_def Let_def split: if_splits)
  then show ?thesis
  proof cases
    case 1
    have "flow_side_kept (w_manager (on_zssc f w)) (w_manager w')"
      by (rule when_bound_kept [OF 1]) (rule submit_kept(2))
    then show ?thesis using flow_side_on_zssc flow_side_trans by blast
  next
    case 2
    let ?w = "(on_zssc f w)\<lparr>w_manager := (w_manager (on_zssc f w))\<lparr>mm_zssc_cycles := k\<rparr>\<rparr>"
    have "flow_side_kept (w_manager ?w) (w_manager w')"
      by (rule when_bound_kept [OF 2]) (rule submit_kept(1))
    moreover have "flow_side_kept (w_manager w) (w_manager ?w)"
      using flow_side_trans [OF flow_side_on_zssc flow_side_cycles] by simp
    ultimately show ?thesis using flow_side_trans by blast
  qed (simp_all add: flow_side_on_zssc, simp add: flow_side_kept_def)
qed

lemma completion_late:
  assumes "max35103_on_spi_completion corr ok rx len now d q = (d', q')"
    and "T \<le> mx_sample_monotonic_us d"
    and "mx_raw_flow_mailbox_valid d \<longrightarrow> T \<le> md_sample_monotonic_us (mr_meta (mx_raw_flow_mailbox d))"
  shows "T \<le> mx_sample_monotonic_us d' \<and>
    (mx_raw_flow_mailbox_valid d' \<longrightarrow> T \<le> md_sample_monotonic_us (mr_meta (mx_raw_flow_mailbox d')))"
  using assms
  by (auto simp: max35103_on_spi_completion_def max_recovery_def max_sample_metadata_def Let_def split: if_splits option.splits)

lemma max_on_event_frame:
  assumes "max_on_event e w = (res, w')"
  shows "same_totals (w_manager w) (w_manager w')"
    "late T (w_manager w) \<Longrightarrow> (ev_id e = EVT_MAX_IRQ_ASSERTED \<Longrightarrow> T \<le> ev_monotonic_timestamp_us e) \<Longrightarrow> late T (w_manager w')"
proof -
  show "same_totals (w_manager w) (w_manager w')"
    using assms by (auto simp: max_on_event_def Let_def same_totals_def split: if_splits prod.splits)
  show "late T (w_manager w')" if l: "late T (w_manager w)" and irq: "ev_id e = EVT_MAX_IRQ_ASSERTED \<Longrightarrow> T \<le> ev_monotonic_timestamp_us e"
  proof (cases "ev_id e = EVT_MAX_SPI_COMPLETED \<or> ev_id e = EVT_MAX_SPI_FAILED")
    case True
    then show ?thesis using assms completion_late l
      by (auto simp: max_on_event_def Let_def late_def split: if_splits prod.splits)
  next
    case False
    then show ?thesis using assms l irq
      by (auto simp: max_on_event_def Let_def late_def max35103_on_irq_def max35103_on_timeout_def split: if_splits)
  qed
qed

lemma call_on_event_frame:
  assumes "call_on_event ans ex e h w = (res, w')"
  shows "same_totals (w_manager w) (w_manager w')"
    "late T (w_manager w) \<Longrightarrow> (ev_id e = EVT_MAX_IRQ_ASSERTED \<Longrightarrow> T \<le> ev_monotonic_timestamp_us e) \<Longrightarrow> late T (w_manager w')"
proof -
  have "same_totals (w_manager w) (w_manager w') \<and>
    (late T (w_manager w) \<longrightarrow> (ev_id e = EVT_MAX_IRQ_ASSERTED \<longrightarrow> T \<le> ev_monotonic_timestamp_us e) \<longrightarrow> late T (w_manager w'))"
  proof (cases h)
    case Max_on_event
    then have "max_on_event e w = (res, w')" using assms by (simp add: call_on_event_def)
    from max_on_event_frame [OF this] show ?thesis by blast
  next
    case Zssc_on_event
    then have "zssc_on_event ans e w = (res, w')" using assms by (simp add: call_on_event_def)
    from zssc_on_event_kept [OF this] show ?thesis using late_same_max [of "w_manager w'" "w_manager w" T] by (simp add: flow_side_kept_def)
  next
    case (External_on_event i)
    then have "w_manager w' = w_manager w" using assms by (auto simp: call_on_event_def split: prod.splits)
    then show ?thesis by simp
  qed
  then show "same_totals (w_manager w) (w_manager w')"
    "late T (w_manager w) \<Longrightarrow> (ev_id e = EVT_MAX_IRQ_ASSERTED \<Longrightarrow> T \<le> ev_monotonic_timestamp_us e) \<Longrightarrow> late T (w_manager w')"
    by blast+
qed

lemma call_compute_works:
  assumes "call_compute ex input e i (w, t, r) = (res, w', t', r')" "working_on r0 t r"
  shows "working_on r0 t' r' \<and> w_manager w' = w_manager w"
proof -
  obtain vs where "txn_writes vs t r = (t', r')" "w_manager w' = w_manager w"
    using assms(1) by (auto simp: call_compute_def split: prod.splits)
  then show ?thesis using writes_work assms(2) by simp
qed

lemma services_effect:
  assumes "run_services ans ex input e vs consumed (w, t, r) = (failed, consumed', w', t', r')" "working_on r0 t r"
  shows "working_on r0 t' r' \<and> same_totals (w_manager w) (w_manager w') \<and>
    ((\<forall>v \<in> set vs. ms_compute v = None) \<longrightarrow> t' = t \<and> r' = r) \<and>
    (late T (w_manager w) \<longrightarrow> (ev_id e = EVT_MAX_IRQ_ASSERTED \<longrightarrow> T \<le> ev_monotonic_timestamp_us e) \<longrightarrow> late T (w_manager w'))"
  using assms
proof (induction vs arbitrary: consumed w t r)
  case (Cons v vs)
  show ?case
  proof (cases "ms_enabled v")
    case False
    then show ?thesis using Cons by simp
  next
    case True
    obtain res w1 where ev: "(case ms_on_event v of None \<Rightarrow> (MEASUREMENT_SERVICE_IGNORED, w) | Some h \<Rightarrow> call_on_event ans ex e h w) = (res, w1)"
      by (metis prod.exhaust)
    have f1: "same_totals (w_manager w) (w_manager w1)"
      "late T (w_manager w) \<longrightarrow> (ev_id e = EVT_MAX_IRQ_ASSERTED \<longrightarrow> T \<le> ev_monotonic_timestamp_us e) \<longrightarrow> late T (w_manager w1)"
      using ev call_on_event_frame [of ans ex e _ w res w1] by (cases "ms_on_event v"; auto)+
    show ?thesis
    proof (cases "res = MEASUREMENT_SERVICE_ERROR")
      case err: True
      then have "w' = w1" "t' = t" "r' = r" using Cons.prems(1) True ev by simp_all
      then show ?thesis using f1 Cons.prems(2) by simp
    next
      case no_err: False
      let ?c1 = "consumed \<or> res \<noteq> MEASUREMENT_SERVICE_IGNORED"
      show ?thesis
      proof (cases "ms_compute v")
        case None
        then have "run_services ans ex input e vs ?c1 (w1, t, r) = (failed, consumed', w', t', r')"
          using Cons.prems(1) True ev no_err by simp
        from Cons.IH [OF this Cons.prems(2)] show ?thesis using f1 None same_totals_trans by auto
      next
        case (Some i)
        obtain res2 w2 t2 r2 where c: "call_compute ex input e i (w1, t, r) = (res2, w2, t2, r2)" by (metis prod.exhaust)
        note k = call_compute_works [OF c Cons.prems(2)]
        show ?thesis
        proof (cases "res2 = MEASUREMENT_SERVICE_ERROR")
          case err: True
          then have "w' = w2" "t' = t2" "r' = r2" using Cons.prems(1) True ev no_err Some c by simp_all
          then show ?thesis using f1 k Some by simp
        next
          case False
          then have "run_services ans ex input e vs (?c1 \<or> res2 \<noteq> MEASUREMENT_SERVICE_IGNORED) (w2, t2, r2) = (failed, consumed', w', t', r')"
            using Cons.prems(1) True ev no_err Some c by simp
          from Cons.IH [OF this] show ?thesis using f1 k Some same_totals_trans by auto
        qed
      qed
    qed
  qed
qed simp

text \<open>The pipelines.\<close>

lemma pressure_pipeline_effect:
  assumes "pressure_pipeline m t r = (ok, m', t', r')" "working_on r0 t r"
  shows "working_on r0 t' r' \<and> flow_side_kept m m' \<and>
    (draft t' r' = draft t r \<or> (\<exists>p. draft t' r' = (draft t r)\<lparr>rs_pressure := p\<rparr>))"
proof (cases "zssc3241_take_raw_pressure (mm_zssc m)")
  case (Pair smp z)
  show ?thesis
  proof (cases smp)
    case None
    then show ?thesis using assms Pair by (simp add: pressure_pipeline_def flow_side_kept_def)
  next
    case (Some sample)
    obtain status p where a: "pressure_service_accept_sample (mm_pressure_service m) (zr_raw_u24 sample) (zr_status sample) (zr_meta sample) t r
        = (status, p, t', r')" and m': "m' = m\<lparr>mm_zssc := z, mm_pressure_service := p\<rparr>"
      using assms(1) Pair Some by (auto simp: pressure_pipeline_def split: prod.splits)
    have "t' = t \<and> r' = r \<or> (\<exists>ok v. txn_write (Write_pressure v) t r = (ok, t', r'))"
      using a by (auto simp: pressure_service_accept_sample_def split: option.splits sum.splits prod.splits if_splits)
    then show ?thesis using write_works assms(2) m' by (fastforce simp: flow_side_kept_def same_totals_def)
  qed
qed

text \<open>What a successful flow pipeline prepared and wrote.\<close>

definition flow_published :: "measurement_manager \<Rightarrow> max35103_raw_flow_sample \<Rightarrow> runtime_snapshot \<Rightarrow> runtime_snapshot \<Rightarrow> flow_result \<Rightarrow>
    volume_accumulator \<Rightarrow> leak_detection_service \<Rightarrow> runtime_snapshot \<Rightarrow> bool" where
  "flow_published m raw input before fl nv nl after \<longleftrightarrow>
     (\<exists>status view leak_status.
        VolumeAccumulator_Consume (mm_volume_accumulator m) fl = (status, nv) \<and>
        status \<in> {VOLUME_OK, VOLUME_ANCHORED, VOLUME_ZERO_INTERVAL} \<and>
        view = leak_input raw (before\<lparr>rs_flow := fl\<rparr>) \<and> LeakDetection_Evaluate (mm_leak_detection m) view = (leak_status, nl) \<and>
        after = before\<lparr>rs_flow := fl, rs_volume := va_state nv,
          rs_leak := LeakDetection_GetResult nl (Some view) (Some (va_state nv)) (rs_snapshot_version input)\<rparr>)"

definition flow_of_sample :: "measurement_manager \<Rightarrow> max35103_raw_flow_sample \<Rightarrow> temperature_result \<Rightarrow> flow_result \<Rightarrow> bool" where
  "flow_of_sample m raw t fl \<longleftrightarrow>
     (\<exists>p c k. fs_active_profile (mm_flow_service m) = Some p \<and> fs_active_cal (mm_flow_service m) = Some c \<and>
        flow_compute (mr_tof_up_ps raw) (mr_tof_down_ps raw) (tp_temperature_mdeg_c t) (Some p) (Some c) = Inr k \<and>
        fl = flow_result_of (mr_meta raw) p c t k)"

lemma accept_sample_effect:
  assumes "flow_service_accept_sample s up down md t txn r = (status, s', txn', r')" "working_on r0 txn r"
  shows "fs_active_profile s' = fs_active_profile s \<and> fs_active_cal s' = fs_active_cal s \<and> working_on r0 txn' r' \<and>
    (status = FLOW_OK \<longrightarrow> (\<exists>p c k. fs_active_profile s = Some p \<and> fs_active_cal s = Some c \<and>
       flow_compute up down (tp_temperature_mdeg_c t) (Some p) (Some c) = Inr k \<and>
       draft txn' r' = (draft txn r)\<lparr>rs_flow := flow_result_of md p c t k\<rparr>))"
proof (cases "fs_active_profile s = None \<or> fs_active_cal s = None")
  case True
  then show ?thesis using assms by (auto simp: flow_service_accept_sample_def split: option.splits)
next
  case False
  then obtain p c where pc: "fs_active_profile s = Some p" "fs_active_cal s = Some c" by auto
  let ?f = "flow_compute up down (tp_temperature_mdeg_c t) (Some p) (Some c)"
  show ?thesis
  proof (cases "\<not> temperature_usable t \<or> age_between (md_sample_monotonic_us md) (md_sample_monotonic_us (tp_meta t)) > 5000000")
    case True
    then show ?thesis using assms pc by (auto simp: flow_service_accept_sample_def split: if_splits)
  next
    case go: False
    show ?thesis
    proof (cases ?f)
      case (Inl st)
      then have "st \<noteq> FLOW_OK" by (auto simp: flow_compute_def split: option.splits if_splits)
      then show ?thesis using assms pc go Inl by (auto simp: flow_service_accept_sample_def)
    next
      case (Inr k)
      obtain ok where w: "txn_write (Write_flow (flow_result_of md p c t k)) txn r = (ok, txn', r')"
        "s' = (if ok then s\<lparr>fs_accepted_count := fs_accepted_count s + 1\<rparr> else s\<lparr>fs_rejected_stale_count := fs_rejected_stale_count s + 1\<rparr>)"
        using assms(1) pc go Inr by (auto simp: flow_service_accept_sample_def split: prod.splits if_splits)
      show ?thesis using write_works [OF w(1) assms(2)] w(2) pc Inr by auto
    qed
  qed
qed

lemma volume_and_leak_effect:
  assumes "volume_and_leak raw input m t r = (res, t', r')" "working_on r0 t r"
  shows "working_on r0 t' r' \<and>
    (\<forall>nv nl. res = Some (nv, nl) \<longrightarrow> flow_published m raw input (draft t r) (rs_flow (draft t r)) nv nl (draft t' r'))"
proof -
  let ?d = "draft t r"
  obtain status nv where c: "VolumeAccumulator_Consume (mm_volume_accumulator m) (rs_flow ?d) = (status, nv)" by fastforce
  show ?thesis
  proof (cases "status \<in> {VOLUME_OK, VOLUME_ANCHORED, VOLUME_ZERO_INTERVAL}")
    case False
    then show ?thesis using assms c by (simp add: volume_and_leak_def read_works)
  next
    case True
    then have st: "\<not> (status \<noteq> VOLUME_OK \<and> status \<noteq> VOLUME_ANCHORED \<and> status \<noteq> VOLUME_ZERO_INTERVAL)" by blast
    obtain ok t1 r1 where w1: "txn_write (Write_volume (va_state nv)) t r = (ok, t1, r1)" by (metis prod.exhaust)
    note e1 = write_works [OF w1 assms(2)]
    define view where "view = leak_input raw ?d"
    obtain ls nl where l: "LeakDetection_Evaluate (mm_leak_detection m) view = (ls, nl)" by fastforce
    show ?thesis
    proof (cases "ls = LEAK_UPDATE_INTERNAL_ERROR \<or> ls = LEAK_UPDATE_CONFIG_ERROR")
      case bad: True
      have "volume_and_leak raw input m t r = (None, t1, r1)"
        using c st w1 e1 l bad unfolding view_def
        by (simp add: volume_and_leak_def read_works [OF assms(2)] VolumeAccumulator_GetState_def) blast
      then have "res = None" "t' = t1" "r' = r1" using assms(1) by simp_all
      then show ?thesis using e1 by simp
    next
      case good: False
      let ?lr = "LeakDetection_GetResult nl (Some view) (Some (va_state nv)) (rs_snapshot_version input)"
      obtain ok2 t2 r2 where w2: "txn_write (Write_leak ?lr) t1 r1 = (ok2, t2, r2)" by (metis prod.exhaust)
      have e2: "ok2 \<and> working_on r0 t2 r2 \<and> draft t2 r2 = apply_write (Write_leak ?lr) (draft t1 r1)"
        using write_works [OF w2] e1 by blast
      have "volume_and_leak raw input m t r = (Some (nv, nl), t2, r2)"
        using c st w1 e1 l good w2 e2 unfolding view_def
        by (simp add: volume_and_leak_def read_works [OF assms(2)] VolumeAccumulator_GetState_def)
      then have "res = Some (nv, nl)" "t' = t2" "r' = r2" using assms(1) by simp_all
      moreover have "flow_published m raw input ?d (rs_flow ?d) nv nl (draft t2 r2)"
        unfolding flow_published_def
      proof (intro exI conjI)
        show "VolumeAccumulator_Consume (mm_volume_accumulator m) (rs_flow ?d) = (status, nv)" by (rule c)
        show "view = leak_input raw (?d\<lparr>rs_flow := rs_flow ?d\<rparr>)" by (simp add: view_def)
        show "draft t2 r2 = ?d\<lparr>rs_flow := rs_flow ?d, rs_volume := va_state nv, rs_leak := ?lr\<rparr>" using e1 e2 by simp
      qed (rule True l)+
      ultimately show ?thesis using e2 by simp
    qed
  qed
qed

lemma flow_pipeline_effect:
  assumes "flow_pipeline input m t r = (res, m', t', r')" "working_on r0 t r"
  shows "working_on r0 t' r' \<and> same_totals m m' \<and> (late T m \<longrightarrow> late T m') \<and>
    (\<forall>nv nl. res = Some (nv, nl) \<longrightarrow> (\<exists>raw fl. mx_raw_flow_mailbox_valid (mm_max m) \<and> raw = mx_raw_flow_mailbox (mm_max m) \<and>
       flow_of_sample m raw (rs_temperature input) fl \<and> flow_published m raw input (draft t r) fl nv nl (draft t' r')))"
proof (cases "mm_flow_pipeline_bound m \<and> mx_raw_flow_mailbox_valid (mm_max m)")
  case False
  then have "res = None" "m' = m" "t' = t" "r' = r"
    using assms(1) by (auto simp: flow_pipeline_def max35103_take_raw_flow_def split: if_splits)
  then show ?thesis using assms(2) by simp
next
  case True
  let ?raw = "mx_raw_flow_mailbox (mm_max m)" and ?d = "(mm_max m)\<lparr>mx_raw_flow_mailbox_valid := False, mx_state := MAX_STATE_IDLE\<rparr>"
  obtain status fs t1 r1 where a: "flow_service_accept_sample (mm_flow_service m) (mr_tof_up_ps ?raw) (mr_tof_down_ps ?raw) (mr_meta ?raw)
      (rs_temperature input) t r = (status, fs, t1, r1)" by (metis prod.exhaust)
  let ?m = "m\<lparr>mm_max := ?d, mm_flow_service := fs\<rparr>"
  note e = accept_sample_effect [OF a assms(2)]
  have keep: "same_totals m ?m" "late T m \<longrightarrow> late T ?m" using e by (auto simp: same_totals_def late_def)
  show ?thesis
  proof (cases "status = FLOW_OK")
    case False
    then have "res = None" "m' = ?m" "t' = t1" "r' = r1"
      using assms(1) True a by (auto simp: flow_pipeline_def max35103_take_raw_flow_def)
    then show ?thesis using e keep by simp
  next
    case ok: True
    then obtain p c k where pck: "fs_active_profile (mm_flow_service m) = Some p" "fs_active_cal (mm_flow_service m) = Some c"
      "flow_compute (mr_tof_up_ps ?raw) (mr_tof_down_ps ?raw) (tp_temperature_mdeg_c (rs_temperature input)) (Some p) (Some c) = Inr k"
      "draft t1 r1 = (draft t r)\<lparr>rs_flow := flow_result_of (mr_meta ?raw) p c (rs_temperature input) k\<rparr>" using e by blast
    let ?fl = "flow_result_of (mr_meta ?raw) p c (rs_temperature input) k"
    obtain t2 r2 where v: "volume_and_leak ?raw input ?m t1 r1 = (res, t2, r2)" and r: "m' = ?m" "t' = t2" "r' = r2"
      using assms(1) True a ok by (auto simp: flow_pipeline_def max35103_take_raw_flow_def Let_def split: prod.splits)
    have w1: "working_on r0 t1 r1" using e by blast
    note ve = volume_and_leak_effect [OF v w1]
    have "flow_published m ?raw input (draft t r) ?fl nv nl (draft t' r')" if "res = Some (nv, nl)" for nv nl
      using ve that r pck(4) by (auto simp: flow_published_def)
    moreover have "flow_of_sample m ?raw (rs_temperature input) ?fl" using pck by (auto simp: flow_of_sample_def)
    ultimately show ?thesis using ve r keep True by blast
  qed
qed

text \<open>What a dispatch does: nothing lasting; a commit of a flow; or a commit of other fields, which with
  services that do not compute is a pressure result.\<close>

lemma after_commit_manager:
  "w_manager (after_commit e prepared w) = (case prepared of None \<Rightarrow> w_manager w
     | Some (nv, nl) \<Rightarrow> (w_manager w)\<lparr>mm_volume_accumulator := nv, mm_leak_detection := nl\<rparr>)"
  by (simp add: after_commit_def Let_def split: option.splits prod.splits)

definition undisturbed :: "data_repository \<Rightarrow> data_repository \<Rightarrow> bool" where
  "undisturbed r r' \<longleftrightarrow> published r' = published r \<and> dr_snapshot_version r' = dr_snapshot_version r"

lemma process_event_effect:
  assumes ok: "repo_ok r" "\<not> dr_writer_active r"
    and p: "measurement_manager_process_event ans ex e w r = (result, w', r')"
  defines "m \<equiv> w_manager w" and "m' \<equiv> w_manager w'"
  shows "repo_ok r' \<and> \<not> dr_writer_active r' \<and>
    (late T m \<longrightarrow> (ev_id e = EVT_MAX_IRQ_ASSERTED \<longrightarrow> T \<le> ev_monotonic_timestamp_us e) \<longrightarrow> late T m') \<and>
    (same_totals m m' \<and> undisturbed r r' \<or>
     ev_id e \<noteq> EVT_MAX_RAW_READY \<and> same_totals m m' \<and> dr_snapshot_version r' = dr_snapshot_version r + 1 \<and>
       rs_snapshot_version (published r') = dr_snapshot_version r + 1 \<and>
       ((\<forall>v \<in> set (mm_services m). ms_compute v = None) \<longrightarrow> ev_id e = EVT_PRESSURE_RAW_READY \<and>
         (\<exists>p. published r' = (published r)\<lparr>rs_pressure := p, rs_snapshot_version := dr_snapshot_version r + 1\<rparr>)) \<or>
     ev_id e = EVT_MAX_RAW_READY \<and> dr_snapshot_version r' = dr_snapshot_version r + 1 \<and>
       (\<exists>m1 before after raw fl. same_totals m m1 \<and> (late T m \<longrightarrow> T \<le> md_sample_monotonic_us (mr_meta raw)) \<and>
          flow_of_sample m1 raw (rs_temperature (published r)) fl \<and>
          flow_published m1 raw (published r) before fl (mm_volume_accumulator m') (mm_leak_detection m') after \<and>
          same_totals (m\<lparr>mm_volume_accumulator := mm_volume_accumulator m', mm_leak_detection := mm_leak_detection m'\<rparr>) m' \<and>
          ((\<forall>v \<in> set (mm_services m). ms_compute v = None) \<longrightarrow> before = published r) \<and>
          published r' = after\<lparr>rs_snapshot_version := dr_snapshot_version r + 1\<rparr>))"
proof -
  obtain t r0 where b: "txn_begin txn_init r = (True, t, r0)" "working_on r t r0" "draft t r0 = published r" "tx_written_fields_mask t = 0"
    using begin_works [OF ok] .
  obtain failed consumed w1 t1 r1 where s: "run_services ans ex (published r) e (mm_services m) False (w, t, r0) = (failed, consumed, w1, t1, r1)"
    by (metis prod.exhaust)
  note se = services_effect [OF s b(2), of T]
  obtain failed2 w2 t2 r2 where s2: "(if \<not> failed \<and> ev_id e = EVT_PRESSURE_RAW_READY
       then case pressure_pipeline (w_manager w1) t1 r1 of (ok, m, t', r') \<Rightarrow> (\<not> ok, w1\<lparr>w_manager := m\<rparr>, t', r')
       else (failed, w1, t1, r1)) = (failed2, w2, t2, r2)" by (rule prod_cases4)
  have e2: "working_on r t2 r2 \<and> flow_side_kept (w_manager w1) (w_manager w2) \<and>
      (draft t2 r2 = draft t1 r1 \<or> (\<exists>p. draft t2 r2 = (draft t1 r1)\<lparr>rs_pressure := p\<rparr>)) \<and>
      (ev_id e \<noteq> EVT_PRESSURE_RAW_READY \<longrightarrow> t2 = t1 \<and> r2 = r1)"
  proof (cases "\<not> failed \<and> ev_id e = EVT_PRESSURE_RAW_READY")
    case True
    obtain ok' m2 t' r'' where pp: "pressure_pipeline (w_manager w1) t1 r1 = (ok', m2, t', r'')" by (metis prod.exhaust)
    then have "w2 = w1\<lparr>w_manager := m2\<rparr>" "t2 = t'" "r2 = r''" using s2 True by simp_all
    then show ?thesis using pressure_pipeline_effect [OF pp, of r] se True by simp
  next
    case False
    then have "w2 = w1" "t2 = t1" "r2 = r1" using s2 by (simp_all split: if_splits)
    then show ?thesis using se by (simp add: flow_side_kept_def)
  qed
  obtain failed3 prepared w3 t3 r3 where s3: "(if \<not> failed2 \<and> ev_id e = EVT_MAX_RAW_READY
       then case flow_pipeline (published r) (w_manager w2) t2 r2 of (res, m, t', r') \<Rightarrow> (res = None, res, w2\<lparr>w_manager := m\<rparr>, t', r')
       else (failed2, None, w2, t2, r2)) = (failed3, prepared, w3, t3, r3)" by (rule prod_cases5)
  have run: "(result, w', r') =
      (if failed3 then (False, w3, snd (txn_abort t3 r3))
       else if tx_written_fields_mask t3 \<noteq> 0 then
         (case txn_commit t3 r3 of (ok, t4, r4) \<Rightarrow> if \<not> ok then (False, w3, r4) else (consumed, after_commit e prepared w3, r4))
       else (consumed, w3, snd (txn_abort t3 r3)))"
    using p unfolding measurement_manager_process_event_def Let_def b(1) s [unfolded m_def] prod.case bool.case s2 s3 by (rule sym)
  have m2: "same_totals m (w_manager w2)" "late T m \<longrightarrow> (ev_id e = EVT_MAX_IRQ_ASSERTED \<longrightarrow> T \<le> ev_monotonic_timestamp_us e) \<longrightarrow> late T (w_manager w2)"
    using se e2 late_same_max [of "w_manager w2" "w_manager w1" T] same_totals_trans unfolding m_def flow_side_kept_def by blast+
  show ?thesis
  proof (cases "\<not> failed2 \<and> ev_id e = EVT_MAX_RAW_READY")
    case False
    then have e3: "failed3 = failed2" "prepared = None" "w3 = w2" "t3 = t2" "r3 = r2"
      using s3 unfolding if_not_P [OF False] prod.inject by simp_all
    show ?thesis
    proof (cases "failed3 \<or> tx_written_fields_mask t3 = 0")
      case True
      then have "w' = w2" "r' = snd (txn_abort t2 r2)" using run e3 by (auto split: if_splits)
      then show ?thesis using abort_works [of r t2 r2] e2 m2 unfolding m'_def undisturbed_def by blast
    next
      case False
      obtain ok4 t4 r4 where c: "txn_commit t2 r2 = (ok4, t4, r4)" by (metis prod.exhaust)
      have ce: "ok4 \<and> repo_ok r4 \<and> \<not> dr_writer_active r4 \<and> dr_snapshot_version r4 = dr_snapshot_version r + 1 \<and>
          published r4 = (draft t2 r2)\<lparr>rs_snapshot_version := dr_snapshot_version r + 1\<rparr>"
        using commit_works [OF c] e2 by blast
      have w': "w' = after_commit e None w2" "r' = r4" using run e3 c ce False by simp_all
      have m': "w_manager w' = w_manager w2" by (simp add: w' after_commit_manager)
      have nr: "ev_id e \<noteq> EVT_MAX_RAW_READY" using \<open>\<not> (\<not> failed2 \<and> ev_id e = EVT_MAX_RAW_READY)\<close> False e3 by simp
      have "ev_id e = EVT_PRESSURE_RAW_READY \<and>
          (\<exists>p. published r' = (published r)\<lparr>rs_pressure := p, rs_snapshot_version := dr_snapshot_version r + 1\<rparr>)"
        if nc: "\<forall>v \<in> set (mm_services m). ms_compute v = None"
      proof -
        have t1: "t1 = t" "r1 = r0" using se nc unfolding m_def by blast+
        have pr: "ev_id e = EVT_PRESSURE_RAW_READY"
          using False e2 e3(4) t1 b(4) by fastforce
        have "draft t2 r2 = published r \<or> (\<exists>p. draft t2 r2 = (published r)\<lparr>rs_pressure := p\<rparr>)" using e2 t1 b(3) by simp
        moreover have "(published r)\<lparr>rs_pressure := rs_pressure (published r)\<rparr> = published r" by simp
        ultimately have "\<exists>p. draft t2 r2 = (published r)\<lparr>rs_pressure := p\<rparr>" by metis
        then show ?thesis using ce w' pr by auto
      qed
      then show ?thesis using ce w' m' m2 nr unfolding m'_def by auto
    qed
  next
    case True
    obtain res m3 t' r'' where fp: "flow_pipeline (published r) (w_manager w2) t2 r2 = (res, m3, t', r'')" by (rule prod_cases4)
    then have e3: "failed3 = (res = None)" "prepared = res" "w3 = w2\<lparr>w_manager := m3\<rparr>" "t3 = t'" "r3 = r''"
      using s3 unfolding if_P [OF True] fp prod.case prod.inject by blast+
    have fe: "working_on r t3 r3 \<and> same_totals (w_manager w2) m3 \<and> (late T (w_manager w2) \<longrightarrow> late T m3)"
      using flow_pipeline_effect [OF fp, of r] e2 e3 by blast
    have m3: "same_totals m m3" "late T m \<longrightarrow> late T m3" using fe m2 True same_totals_trans by auto
    show ?thesis
    proof (cases "failed3 \<or> tx_written_fields_mask t3 = 0")
      case abort: True
      then have "w_manager w' = m3" "r' = snd (txn_abort t3 r3)" using run e3 by (auto split: if_splits)
      then show ?thesis using abort_works [of r t3 r3] fe m3 unfolding m'_def undisturbed_def by blast
    next
      case False
      obtain nv nl where res: "res = Some (nv, nl)" using False e3 by auto
      obtain raw fl where fl: "mx_raw_flow_mailbox_valid (mm_max (w_manager w2))" "raw = mx_raw_flow_mailbox (mm_max (w_manager w2))"
        "flow_of_sample (w_manager w2) raw (rs_temperature (published r)) fl"
        "flow_published (w_manager w2) raw (published r) (draft t2 r2) fl nv nl (draft t3 r3)"
        using flow_pipeline_effect [OF fp, of r] e2 e3 res by blast
      obtain ok4 t4 r4 where c: "txn_commit t3 r3 = (ok4, t4, r4)" by (metis prod.exhaust)
      have ce: "ok4 \<and> repo_ok r4 \<and> \<not> dr_writer_active r4 \<and> dr_snapshot_version r4 = dr_snapshot_version r + 1 \<and>
          published r4 = (draft t3 r3)\<lparr>rs_snapshot_version := dr_snapshot_version r + 1\<rparr>"
        using commit_works [OF c] fe by blast
      have nf: "failed3 = False" "(tx_written_fields_mask t3 \<noteq> 0) = True" using False by simp_all
      have w': "w' = after_commit e res w3" "r' = r4"
        using run ce unfolding nf c e3(2) if_False if_True prod.case by simp_all
      have m': "m' = m3\<lparr>mm_volume_accumulator := nv, mm_leak_detection := nl\<rparr>"
        unfolding m'_def w' by (simp add: after_commit_manager res e3)
      have l3: "late T m \<longrightarrow> late T m'" using m3 m' late_same_max [of m' m3 T] by simp
      have raw: "late T m \<longrightarrow> T \<le> md_sample_monotonic_us (mr_meta raw)" using m2 fl(1,2) True by (auto simp: late_def)
      have nc: "(\<forall>v \<in> set (mm_services m). ms_compute v = None) \<longrightarrow> draft t2 r2 = published r"
        using se e2 b(3) True unfolding m_def by auto
      have st: "same_totals (m\<lparr>mm_volume_accumulator := mm_volume_accumulator m', mm_leak_detection := mm_leak_detection m'\<rparr>) m'"
        using m3 m' by (simp add: same_totals_def)
      have nv: "mm_volume_accumulator m' = nv" "mm_leak_detection m' = nl" by (simp_all add: m')
      have "same_totals m (w_manager w2) \<and> (late T m \<longrightarrow> T \<le> md_sample_monotonic_us (mr_meta raw)) \<and>
          flow_of_sample (w_manager w2) raw (rs_temperature (published r)) fl \<and>
          flow_published (w_manager w2) raw (published r) (draft t2 r2) fl (mm_volume_accumulator m') (mm_leak_detection m') (draft t3 r3) \<and>
          same_totals (m\<lparr>mm_volume_accumulator := mm_volume_accumulator m', mm_leak_detection := mm_leak_detection m'\<rparr>) m' \<and>
          ((\<forall>v \<in> set (mm_services m). ms_compute v = None) \<longrightarrow> draft t2 r2 = published r) \<and>
          published r' = (draft t3 r3)\<lparr>rs_snapshot_version := dr_snapshot_version r + 1\<rparr>"
        unfolding nv using m2(1) raw fl(3,4) st [unfolded nv] nc ce w'(2) by blast
      moreover have "dr_snapshot_version r' = dr_snapshot_version r + 1" "repo_ok r'" "\<not> dr_writer_active r'" using ce w'(2) by blast+
      ultimately show ?thesis using True l3 by blast
    qed
  qed
qed

section \<open>The properties of one dispatch\<close>

text \<open>What leak detection is asked about a published flow and a published pressure.\<close>

definition leak_view :: "flow_result \<Rightarrow> pressure_result \<Rightarrow> leak_input_view" where
  "leak_view f p =
     \<lparr>li_evaluation_monotonic_us = md_completion_monotonic_us (fl_meta f), li_sample_sequence = md_sample_sequence (fl_meta f),
      li_source_generation = md_source_generation (fl_meta f),
      li_flow_usable = (md_validity (fl_meta f) = DATA_VALID \<and> md_freshness (fl_meta f) = DATA_FRESH \<and> md_acceptance (fl_meta f) = DATA_ACCEPTED),
      li_flow_ul_per_s = fl_flow_ul_per_s f, li_flow_direction = fl_direction f,
      li_pressure_usable = (md_validity (pr_meta p) = DATA_VALID \<and> md_freshness (pr_meta p) = DATA_FRESH \<and> md_acceptance (pr_meta p) = DATA_ACCEPTED),
      li_pressure_pa = pr_pressure_pa p, li_flow_result = Some f, li_pressure_result = Some p\<rparr>"

lemma leak_input_view:
  assumes "flow_of_sample m raw t fl"
  shows "leak_input raw (before\<lparr>rs_flow := fl\<rparr>) = leak_view fl (rs_pressure before)"
  using assms by (auto simp: flow_of_sample_def flow_result_of_def leak_input_def leak_view_def usable_def Let_def)

text \<open>C7: a dispatch is all or nothing.  It leaves the repository sound and the writer free, and publishes nothing or one new
  version.  If it publishes nothing, or if the event is not a raw flow sample, the volume accumulator and leak detection are kept.  A raw flow
  sample that is published changes both: the version holds the flow, the volume after integrating that very flow, and the result
  of leak detection for exactly the published flow and pressure (their values, directions, times and usability).  As long as no registered service computes
  fields of its own (the built-in ones do not), any other version is that of a pressure event and differs from the last one in the pressure
  only, and that of a flow sample in flow, volume and leak result only.\<close>

theorem measurement_all_or_nothing:
  assumes "repo_ok r" "\<not> dr_writer_active r"
    and "measurement_manager_process_event ans ex e w r = (result, w', r')"
  shows "repo_ok r' \<and> \<not> dr_writer_active r' \<and>
    (let m = w_manager w; m' = w_manager w'; s = published r'; v = dr_snapshot_version r + 1;
         built_in = (\<forall>x \<in> set (mm_services m). ms_compute x = None)
     in if dr_snapshot_version r' = dr_snapshot_version r
        then s = published r \<and> mm_volume_accumulator m' = mm_volume_accumulator m \<and> mm_leak_detection m' = mm_leak_detection m
        else dr_snapshot_version r' = v \<and> rs_snapshot_version s = v \<and>
          (if ev_id e \<noteq> EVT_MAX_RAW_READY
           then mm_volume_accumulator m' = mm_volume_accumulator m \<and> mm_leak_detection m' = mm_leak_detection m \<and>
             (built_in \<longrightarrow> ev_id e = EVT_PRESSURE_RAW_READY \<and>
                s = (published r)\<lparr>rs_pressure := rs_pressure s, rs_snapshot_version := v\<rparr>)
           else
             (\<exists>status leak_status.
                VolumeAccumulator_Consume (mm_volume_accumulator m) (rs_flow s) = (status, mm_volume_accumulator m') \<and>
                status \<in> {VOLUME_OK, VOLUME_ANCHORED, VOLUME_ZERO_INTERVAL} \<and>
                LeakDetection_Evaluate (mm_leak_detection m) (leak_view (rs_flow s) (rs_pressure s)) = (leak_status, mm_leak_detection m')) \<and>
             rs_volume s = va_state (mm_volume_accumulator m') \<and>
             rs_leak s = LeakDetection_GetResult (mm_leak_detection m') (Some (leak_view (rs_flow s) (rs_pressure s))) (Some (rs_volume s))
               (rs_snapshot_version (published r)) \<and>
             (built_in \<longrightarrow>
                s = (published r)\<lparr>rs_flow := rs_flow s, rs_volume := rs_volume s, rs_leak := rs_leak s, rs_snapshot_version := v\<rparr>)))"
proof -
  have nz: "v + 1 \<noteq> v" for v :: u64 by simp
  note e = process_event_effect [OF assms, of 0]
  from e have ok: "repo_ok r'" "\<not> dr_writer_active r'" by blast+
  let ?built_in = "\<forall>x \<in> set (mm_services (w_manager w)). ms_compute x = None"
  consider (nothing) "same_totals (w_manager w) (w_manager w')" "undisturbed r r'"
    | (other) "ev_id e \<noteq> EVT_MAX_RAW_READY" "same_totals (w_manager w) (w_manager w')" "dr_snapshot_version r' = dr_snapshot_version r + 1"
        "rs_snapshot_version (published r') = dr_snapshot_version r + 1"
        "?built_in \<longrightarrow> ev_id e = EVT_PRESSURE_RAW_READY \<and>
           (\<exists>p. published r' = (published r)\<lparr>rs_pressure := p, rs_snapshot_version := dr_snapshot_version r + 1\<rparr>)"
    | (flow) m1 before after raw fl where "dr_snapshot_version r' = dr_snapshot_version r + 1" "ev_id e = EVT_MAX_RAW_READY"
        "same_totals (w_manager w) m1"
        "flow_published m1 raw (published r) before fl (mm_volume_accumulator (w_manager w')) (mm_leak_detection (w_manager w')) after"
        "published r' = after\<lparr>rs_snapshot_version := dr_snapshot_version r + 1\<rparr>"
        "flow_of_sample m1 raw (rs_temperature (published r)) fl" "?built_in \<longrightarrow> before = published r"
    using e by blast
  then show ?thesis
  proof cases
    case nothing
    then show ?thesis using ok by (simp add: Let_def same_totals_def undisturbed_def)
  next
    case other
    have "?built_in \<longrightarrow> published r' = (published r)\<lparr>rs_pressure := rs_pressure (published r'), rs_snapshot_version := dr_snapshot_version r + 1\<rparr>"
      using other(5) by auto
    then show ?thesis using ok nz other by (simp add: Let_def same_totals_def)
  next
    case flow
    have new: "dr_snapshot_version r' \<noteq> dr_snapshot_version r" using flow(1) nz by simp
    let ?view = "leak_view fl (rs_pressure before)"
    obtain status leak_status where p:
      "VolumeAccumulator_Consume (mm_volume_accumulator (w_manager w)) fl = (status, mm_volume_accumulator (w_manager w'))"
      "status \<in> {VOLUME_OK, VOLUME_ANCHORED, VOLUME_ZERO_INTERVAL}"
      "LeakDetection_Evaluate (mm_leak_detection (w_manager w)) ?view = (leak_status, mm_leak_detection (w_manager w'))"
      "after = before\<lparr>rs_flow := fl, rs_volume := va_state (mm_volume_accumulator (w_manager w')),
         rs_leak := LeakDetection_GetResult (mm_leak_detection (w_manager w')) (Some ?view)
           (Some (va_state (mm_volume_accumulator (w_manager w')))) (rs_snapshot_version (published r))\<rparr>"
      using flow(3,4) leak_input_view [OF flow(6)] by (auto simp: flow_published_def same_totals_def)
    have s: "published r' = before\<lparr>rs_flow := fl, rs_volume := va_state (mm_volume_accumulator (w_manager w')),
         rs_leak := LeakDetection_GetResult (mm_leak_detection (w_manager w')) (Some ?view)
           (Some (va_state (mm_volume_accumulator (w_manager w')))) (rs_snapshot_version (published r)),
         rs_snapshot_version := dr_snapshot_version r + 1\<rparr>"
      using p(4) flow(5) by simp
    show ?thesis unfolding Let_def if_not_P [OF new] using ok p(1,2,3) flow(1,2,7) by (auto simp: s)
  qed
qed

section \<open>The pressure sensor as a client of the bus\<close>

text \<open>The completion callback submits nothing and leaves the flow side alone, so every completion returns.\<close>

lemma pressure_complete_frame:
  "snd (pressure_bus_complete n c b) = b" "flow_side_kept (fst c) (fst (fst (pressure_bus_complete n c b)))"
  by (auto simp: pressure_bus_complete_def Let_def flow_side_kept_def same_totals_def split: prod.splits)

interpretation pressure_client: bus_clients ans pressure_bus_complete "\<lambda>c ks. flow_side_kept m (fst c)" for ans m
proof unfold_locales
  show "flow_side_kept m (fst c')" if "flow_side_kept m (fst c)" "pressure_bus_complete (completion_of t r) c b = (c', b')" for t b c r c' b'
    using that flow_side_trans pressure_complete_frame(2) [of c "completion_of t r" b] by simp
  show "\<exists>rs. snd (pressure_bus_complete n c b) = submitted ans rs b" for n c b
    by (rule exI [of _ "[]"]) (simp add: pressure_complete_frame submitted_def)
qed (rule pressure_complete_frame)

lemma complete_i2c_returns:
  assumes "working (w_bus w)"
  obtains ok w' where "measurement_manager_complete_i2c ans tid corr cgen bgen res now w = Some (ok, w')"
    "working (w_bus w')" "flow_side_kept (w_manager w) (w_manager w')"
proof (cases "mm_i2c_bus (w_manager w)")
  case False
  then show thesis using that assms by (simp add: measurement_manager_complete_i2c_def flow_side_kept_def)
next
  case True
  let ?m = "(w_manager w)\<lparr>mm_pressure_completion_now_us := now\<rparr>"
  have keep: "flow_side_kept (w_manager w) ?m" by (simp add: flow_side_kept_def same_totals_def)
  obtain ok c b where "i2c_bus_complete ans pressure_bus_complete tid corr cgen bgen res ((?m, w_queue w), w_bus w) = Some (ok, c, b)"
    "flow_side_kept (w_manager w) (fst c)" "working b"
    using pressure_client.complete_settles [of "w_manager w" "(?m, w_queue w)" "w_bus w" ans tid corr cgen bgen res] keep assms by auto
  then show thesis using that True by (cases c) (simp add: measurement_manager_complete_i2c_def)
qed

text \<open>A dispatch keeps the bus invariant.\<close>

lemma submit_pressure_working:
  "submit_pressure_start ans now m b = (ok, m', b') \<Longrightarrow> working b \<Longrightarrow> working b'"
  "submit_pressure_read ans now m b = (ok, m', b') \<Longrightarrow> working b \<Longrightarrow> working b'"
  by (auto simp: submit_pressure_start_def submit_pressure_read_def submit_request_def Let_def split: prod.splits if_splits
      dest: submit_working)

lemma call_on_event_working:
  "call_on_event ans ex e h w = (res, w') \<Longrightarrow> working (w_bus w) \<Longrightarrow> working (w_bus w')"
  by (auto simp: call_on_event_def max_on_event_def zssc_on_event_def when_bound_def on_zssc_def Let_def
      split: event_handler.splits prod.splits if_splits dest: submit_pressure_working)

lemma call_compute_bus: "call_compute ex input e i (w, t, r) = (res, w', t', r') \<Longrightarrow> w_bus w' = w_bus w"
  by (auto simp: call_compute_def split: prod.splits)

lemma run_services_working:
  "run_services ans ex input e vs consumed (w, t, r) = (failed, consumed', w', t', r') \<Longrightarrow> working (w_bus w) \<Longrightarrow> working (w_bus w')"
proof (induction vs arbitrary: consumed w t r)
  case (Cons v vs)
  obtain res w1 where ev: "(case ms_on_event v of None \<Rightarrow> (MEASUREMENT_SERVICE_IGNORED, w) | Some h \<Rightarrow> call_on_event ans ex e h w) = (res, w1)"
    by (metis prod.exhaust)
  then have "working (w_bus w1)" using Cons.prems(2) call_on_event_working [of ans ex e _ w res w1] by (cases "ms_on_event v") auto
  then show ?case using Cons ev call_compute_bus
    by (fastforce simp: Let_def split: if_splits option.splits prod.splits)
qed simp

lemma after_commit_bus: "w_bus (after_commit e prepared w) = w_bus w"
  by (simp add: after_commit_def Let_def split: option.splits prod.splits)

lemma process_event_working:
  assumes "measurement_manager_process_event ans ex e w r = (result, w', r')" "working (w_bus w)"
  shows "working (w_bus w')"
proof -
  obtain failed consumed w1 t1 r1 t r0 ok where b: "txn_begin txn_init r = (ok, t, r0)"
      and s: "run_services ans ex (published r) e (mm_services (w_manager w)) False (w, t, r0) = (failed, consumed, w1, t1, r1)"
    by (metis prod.exhaust)
  have "w_bus w' = w_bus w1 \<or> w' = w"
    using assms(1) b s after_commit_bus
    by (auto simp: measurement_manager_process_event_def Let_def split: prod.splits if_splits bool.splits)
  then show ?thesis using run_services_working [OF s] assms(2) by auto
qed

section \<open>Runs\<close>

definition manager_ok :: "'x measurement_world \<times> data_repository \<Rightarrow> bool" where
  "manager_ok s \<longleftrightarrow> repo_ok (snd s) \<and> \<not> dr_writer_active (snd s) \<and> working (w_bus (fst s))"

lemma step_cases:
  assumes "manager_ok (w, r)"
  obtains (event) ans e result w' r' where "i = Event_input ans e" "measurement_step ex i (w, r) = Some (w', r')"
      "measurement_manager_process_event ans ex e w r = (result, w', r')" "manager_ok (w', r')"
    | (completion) w' where "\<And>e ans. i \<noteq> Event_input ans e" "measurement_step ex i (w, r) = Some (w', r)" "manager_ok (w', r)"
      "flow_side_kept (w_manager w) (w_manager w')" "published_flow i r r = []"
proof (cases i)
  case (Event_input ans e)
  obtain result w' r' where p: "measurement_manager_process_event ans ex e w r = (result, w', r')" by (metis prod.exhaust)
  have "repo_ok r' \<and> \<not> dr_writer_active r'" using process_event_effect [OF _ _ p, of 0] assms by (simp add: manager_ok_def)
  moreover have "working (w_bus w')" using process_event_working [OF p] assms by (simp add: manager_ok_def)
  ultimately show thesis using event [OF Event_input _ p] p Event_input by (simp add: measurement_step_def manager_ok_def)
next
  case (Receive_input bs)
  let ?w = "on_zssc (\<lambda>z. z\<lparr>zs_response_buffer := bs\<rparr>) w"
  have "w_bus ?w = w_bus w" by (simp add: on_zssc_def)
  then show thesis
    by (intro completion [of ?w] flow_side_on_zssc) (use Receive_input assms in \<open>simp_all add: measurement_step_def manager_ok_def published_flow_def\<close>)
next
  case (Completion_input ans tid corr cgen bgen res now)
  obtain ok w' where "measurement_manager_complete_i2c ans tid corr cgen bgen res now w = Some (ok, w')"
    "working (w_bus w')" "flow_side_kept (w_manager w) (w_manager w')"
    using complete_i2c_returns [of w ans tid corr cgen bgen res now] assms by (auto simp: manager_ok_def)
  then show thesis using completion assms Completion_input by (simp add: measurement_step_def manager_ok_def published_flow_def)
qed

lemma sample_time_published: "flow_of_sample m raw t fl \<Longrightarrow> md_sample_monotonic_us (fl_meta fl) = md_sample_monotonic_us (mr_meta raw)"
  by (auto simp: flow_of_sample_def flow_result_of_def)

section \<open>One long gap\<close>

lemma gap_rejected:
  assumes "VolumeAccumulator_Consume s f = (st, s')" "va_anchor_valid s" "va_anchor_sample_us s < T"
    and "vc_maximum_integration_gap_us (va_config s) < T - va_anchor_sample_us s" "T \<le> md_sample_monotonic_us (fl_meta f)"
  shows "st \<notin> {VOLUME_OK, VOLUME_ANCHORED, VOLUME_ZERO_INTERVAL}"
proof -
  let ?a = "va_anchor_sample_us s" and ?now = "md_sample_monotonic_us (fl_meta f)"
  have lt: "?a < ?now" using assms(3,5) by (rule less_le_trans)
  have "uint (T - ?a) \<le> uint (?now - ?a)"
    unfolding uint_minus_lt [OF less_imp_le [OF assms(3)]] uint_minus_lt [OF less_imp_le [OF lt]]
    using assms(5) by (simp add: word_le_def)
  then have "vc_maximum_integration_gap_us (va_config s) < ?now - ?a" using assms(4) by (simp add: word_less_def)
  moreover have "?now \<noteq> ?a" "\<not> ?now < ?a" using lt by auto
  ultimately show ?thesis using assms(1,2)
    by (auto simp: VolumeAccumulator_Consume_def Let_def split: if_splits)
qed

text \<open>The state in which the pipeline has stopped.\<close>

definition stopped :: "u64 \<Rightarrow> measurement_manager \<Rightarrow> bool" where
  "stopped T m \<longleftrightarrow> va_anchor_valid (mm_volume_accumulator m) \<and> va_anchor_sample_us (mm_volume_accumulator m) < T \<and>
     vc_maximum_integration_gap_us (va_config (mm_volume_accumulator m)) < T - va_anchor_sample_us (mm_volume_accumulator m) \<and>
     late T m \<and> (\<forall>v \<in> set (mm_services m). ms_compute v = None)"

definition same_flow_fields :: "data_repository \<Rightarrow> data_repository \<Rightarrow> bool" where
  "same_flow_fields r r' \<longleftrightarrow> rs_flow (published r') = rs_flow (published r) \<and> rs_volume (published r') = rs_volume (published r) \<and>
     rs_leak (published r') = rs_leak (published r)"

lemma stopped_keep: "stopped T m \<Longrightarrow> same_totals m m' \<Longrightarrow> late T m' \<Longrightarrow> stopped T m'"
  by (simp add: stopped_def same_totals_def)

lemma stopped_event:
  assumes p: "measurement_manager_process_event ans ex e w r = (result, w', r')" and ok: "repo_ok r" "\<not> dr_writer_active r"
    and stop: "stopped T (w_manager w)" and irq: "ev_id e = EVT_MAX_IRQ_ASSERTED \<longrightarrow> T \<le> ev_monotonic_timestamp_us e"
  shows "stopped T (w_manager w') \<and> same_totals (w_manager w) (w_manager w') \<and> same_flow_fields r r' \<and>
    published_flow (Event_input ans e) r r' = []"
proof -
  have l: "late T (w_manager w)" and nc: "\<forall>v \<in> set (mm_services (w_manager w)). ms_compute v = None"
    using stop by (simp_all add: stopped_def)
  note e = process_event_effect [OF ok p, of T]
  have l': "late T (w_manager w')" using e l irq by blast
  consider (nothing) "same_totals (w_manager w) (w_manager w')" "undisturbed r r'"
    | (other) q where "ev_id e \<noteq> EVT_MAX_RAW_READY" "same_totals (w_manager w) (w_manager w')"
        "published r' = (published r)\<lparr>rs_pressure := q, rs_snapshot_version := dr_snapshot_version r + 1\<rparr>"
    | (flow) m1 before after raw fl where "same_totals (w_manager w) m1" "T \<le> md_sample_monotonic_us (mr_meta raw)"
        "flow_of_sample m1 raw (rs_temperature (published r)) fl"
        "flow_published m1 raw (published r) before fl (mm_volume_accumulator (w_manager w')) (mm_leak_detection (w_manager w')) after"
    using e nc l by blast
  then show ?thesis
  proof cases
    case nothing
    then show ?thesis using stopped_keep [OF stop _ l'] by (simp add: same_flow_fields_def undisturbed_def published_flow_def)
  next
    case other
    then show ?thesis using stopped_keep [OF stop _ l'] by (simp add: same_flow_fields_def published_flow_def)
  next
    case flow
    obtain st where st: "VolumeAccumulator_Consume (mm_volume_accumulator (w_manager w)) fl = (st, mm_volume_accumulator (w_manager w'))"
      "st \<in> {VOLUME_OK, VOLUME_ANCHORED, VOLUME_ZERO_INTERVAL}"
      using flow(1,4) by (auto simp: flow_published_def same_totals_def)
    have "st \<notin> {VOLUME_OK, VOLUME_ANCHORED, VOLUME_ZERO_INTERVAL}"
      by (rule gap_rejected [OF st(1), of T]) (use stop flow(2) sample_time_published [OF flow(3)] in \<open>simp_all add: stopped_def\<close>)
    with st(2) show ?thesis by blast
  qed
qed

text \<open>C20: after one long gap no flow is published again.  Once the anchor of the volume accumulator is
  older than the longest integration interval, and every flow sample still to come is from after that
  time, no run of events and completions ever publishes a flow, a volume or a leak result: the
  accumulator takes a sample after a gap as its new anchor and reports \<open>VOLUME_REJECTED_TIME\<close>, but the
  manager treats this status as a failure and throws the re-anchored copy away.\<close>

theorem one_gap_stops_the_flow_pipeline:
  assumes "manager_ok (w, r)" "stopped T (w_manager w)"
    and "\<forall>ans e. Event_input ans e \<in> set xs \<longrightarrow> ev_id e = EVT_MAX_IRQ_ASSERTED \<longrightarrow> T \<le> ev_monotonic_timestamp_us e"
  shows "\<exists>w' r'. measurement_run ex xs (w, r) = Some (w', r') \<and> published_flows ex xs (w, r) = [] \<and> same_flow_fields r r' \<and>
    mm_volume_accumulator (w_manager w') = mm_volume_accumulator (w_manager w)"
  using assms
proof (induction xs arbitrary: w r)
  case (Cons i xs)
  have "\<exists>w1 r1. measurement_step ex i (w, r) = Some (w1, r1) \<and> manager_ok (w1, r1) \<and> stopped T (w_manager w1) \<and>
      same_totals (w_manager w) (w_manager w1) \<and> same_flow_fields r r1 \<and> published_flow i r r1 = []"
    using Cons.prems(1)
  proof (cases rule: step_cases [of w r i ex])
    case (event ans e result w' r')
    have "ev_id e = EVT_MAX_IRQ_ASSERTED \<longrightarrow> T \<le> ev_monotonic_timestamp_us e" using Cons.prems(3) event(1) by auto
    then show ?thesis using stopped_event [OF event(3) _ _ Cons.prems(2)] Cons.prems(1) event by (simp add: manager_ok_def)
  next
    case (completion w')
    have "late T (w_manager w')" using completion(4) Cons.prems(2) late_same_max [of "w_manager w'" "w_manager w" T]
      by (simp add: flow_side_kept_def stopped_def)
    then show ?thesis using completion stopped_keep [OF Cons.prems(2)] by (simp add: flow_side_kept_def same_flow_fields_def)
  qed
  then obtain w1 r1 where 1: "measurement_step ex i (w, r) = Some (w1, r1)" "manager_ok (w1, r1)" "stopped T (w_manager w1)"
      "same_totals (w_manager w) (w_manager w1)" "same_flow_fields r r1" "published_flow i r r1 = []" by blast
  from Cons.IH [OF this(2,3)] Cons.prems(3) obtain w' r' where
    "measurement_run ex xs (w1, r1) = Some (w', r')" "published_flows ex xs (w1, r1) = []" "same_flow_fields r1 r'"
    "mm_volume_accumulator (w_manager w') = mm_volume_accumulator (w_manager w1)" by auto
  then show ?case using 1 by (simp add: same_flow_fields_def same_totals_def)
qed (simp add: same_flow_fields_def)

section \<open>The published volume\<close>



section \<open>An instance: the manager with its flow pipeline and no other services\<close>

definition sample_manager :: measurement_manager where
  "sample_manager = snd (measurement_manager_bind_flow_pipeline sample_flow_profile identity_calibration default_volume_config
     LeakConfig_GetTestDefaults 0 measurement_manager_init)"

definition sample_world :: "unit measurement_world" where
  "sample_world = \<lparr>w_manager = sample_manager, w_queue = app_event_queue_init None, w_bus = i2c_bus_init True, w_external = ()\<rparr>"

definition no_externals :: "unit externals" where
  "no_externals = \<lparr>ex_on_event = (\<lambda>i e x. (MEASUREMENT_SERVICE_IGNORED, x)), ex_compute = (\<lambda>i c x. (MEASUREMENT_SERVICE_IGNORED, [], x))\<rparr>"

definition port_ok :: port_answer where
  "port_ok q = PORT_OK"

text \<open>The interrupt, the frame and the raw sample of one measurement at time \<open>t\<close>.\<close>

definition event_at :: "event_id \<Rightarrow> u64 \<Rightarrow> app_event" where
  "event_at i t = zero_event\<lparr>ev_id := i, ev_monotonic_timestamp_us := t, ev_payload := sample_frame, ev_payload_size := 14\<rparr>"

definition one_measurement :: "u64 \<Rightarrow> measurement_input list" where
  "one_measurement t = map (\<lambda>i. Event_input port_ok (event_at i t)) [EVT_MAX_IRQ_ASSERTED, EVT_MAX_SPI_COMPLETED, EVT_MAX_RAW_READY]"

lemma sample_world_ok: "manager_ok (sample_world, data_repository_init)"
  using repo_init_ok
  by (simp add: manager_ok_def data_repository_init_def sample_world_def working_def owing_def keys_def i2c_bus_init_def accepted_ids_def notified_ids_def map_filter_def)

lemma run_ok: "manager_ok s \<Longrightarrow> measurement_run ex xs s = Some s' \<Longrightarrow> manager_ok s'"
proof (induction xs arbitrary: s)
  case (Cons i xs)
  obtain w r where s: "s = (w, r)" by fastforce
  have "\<exists>s1. measurement_step ex i s = Some s1 \<and> manager_ok s1"
    using Cons.prems(1) unfolding s by (cases rule: step_cases [of w r i ex]) auto
  then show ?case using Cons by auto
qed simp

definition state_after :: "measurement_input list \<Rightarrow> unit measurement_world \<times> data_repository" where
  "state_after xs = the (measurement_run no_externals xs (sample_world, data_repository_init))"

lemma run_some: "manager_ok (w, r) \<Longrightarrow> \<exists>s. measurement_run ex xs (w, r) = Some s"
proof (induction xs arbitrary: w r)
  case (Cons i xs)
  have "\<exists>w1 r1. measurement_step ex i (w, r) = Some (w1, r1) \<and> manager_ok (w1, r1)"
    using Cons.prems by (cases rule: step_cases [of w r i ex]) blast+
  then obtain w1 r1 where "measurement_step ex i (w, r) = Some (w1, r1)" "manager_ok (w1, r1)" by blast
  then show ?case using Cons.IH [of w1 r1] by auto
qed simp

lemma state_after_ok: "manager_ok (state_after xs)"
proof -
  obtain s where "measurement_run no_externals xs (sample_world, data_repository_init) = Some s"
    using run_some [OF sample_world_ok] by blast
  then show ?thesis using run_ok [OF sample_world_ok] by (simp add: state_after_def)
qed

lemma measurement_all_or_nothing_witness:
  "case measurement_manager_process_event port_ok no_externals (event_at EVT_MAX_RAW_READY 1000000)
      (fst (state_after (take 2 (one_measurement 1000000)))) (snd (state_after (take 2 (one_measurement 1000000)))) of
    (result, w', r') \<Rightarrow> fl_flow_ul_per_s (rs_flow (published r')) = 22922 \<and>
      rs_volume (published r') = va_state (mm_volume_accumulator (w_manager w'))"
proof -
  let ?s = "state_after (take 2 (one_measurement 1000000))" and ?e = "event_at EVT_MAX_RAW_READY 1000000"
  have ok: "repo_ok (snd ?s)" "\<not> dr_writer_active (snd ?s)" using state_after_ok by (simp_all add: manager_ok_def)
  obtain result w' r' where p: "measurement_manager_process_event port_ok no_externals ?e (fst ?s) (snd ?s) = (result, w', r')"
    by (metis prod.exhaust)
  have "case measurement_manager_process_event port_ok no_externals ?e (fst ?s) (snd ?s) of
      (result, w', r') \<Rightarrow> dr_snapshot_version r' \<noteq> dr_snapshot_version (snd ?s) \<and> fl_flow_ul_per_s (rs_flow (published r')) = 22922"
    by code_simp
  then have v: "dr_snapshot_version r' \<noteq> dr_snapshot_version (snd ?s)" "fl_flow_ul_per_s (rs_flow (published r')) = 22922"
    by (simp_all add: p)
  have i: "ev_id ?e = EVT_MAX_RAW_READY" by (simp add: event_at_def)
  have "rs_volume (published r') = va_state (mm_volume_accumulator (w_manager w'))"
    using measurement_all_or_nothing [OF ok p] v(1) i by (auto simp: Let_def)
  then show ?thesis using v(2) by (simp add: p)
qed

lemma one_gap_stops_the_flow_pipeline_witness:
  "published_flows no_externals (tl (one_measurement 9000000) @ one_measurement 10000000 @ one_measurement 11000000)
     (state_after (one_measurement 1000000 @ take 1 (one_measurement 9000000))) = []"
proof -
  let ?s = "state_after (one_measurement 1000000 @ take 1 (one_measurement 9000000))"
  let ?xs = "tl (one_measurement 9000000) @ one_measurement 10000000 @ one_measurement 11000000"
  have s: "manager_ok (fst ?s, snd ?s)" using state_after_ok by simp
  have "stopped 9000000 (w_manager (fst ?s))" by code_simp
  moreover have "\<forall>ans e. Event_input ans e \<in> set ?xs \<longrightarrow> ev_id e = EVT_MAX_IRQ_ASSERTED \<longrightarrow> 9000000 \<le> ev_monotonic_timestamp_us e"
    by (auto simp: one_measurement_def event_at_def)
  ultimately show ?thesis using one_gap_stops_the_flow_pipeline [OF s] by fastforce
qed


end
