(* ===== verification/Power_Service.thy ===== *)
theory Power_Service
  imports Processing I2c_Bus
begin

text \<open>
  Battery supervision: conversion of the ADC reading (services/power/power_converter.c), the health with
  hysteresis (services/power/power_service.c) and its publication (facades/power/power_facade.c).

  A read of the ADC port is an argument: its status and, when that is OK, the raw value.
\<close>

unbundle bit_operations_syntax

section \<open>The power service\<close>

record power_config =
  pc_vref_mv :: u16
  pc_divider_ratio :: u8
  pc_low_threshold_mv :: u16
  pc_critical_threshold_mv :: u16
  pc_hysteresis_mv :: u16
  pc_sample_period_s :: u16
  pc_stale_count_max :: u8

definition POWER_CONFIG_DEFAULT :: power_config where
  "POWER_CONFIG_DEFAULT = \<lparr>pc_vref_mv = 3300, pc_divider_ratio = 3, pc_low_threshold_mv = 3600, pc_critical_threshold_mv = 3200,
     pc_hysteresis_mv = 100, pc_sample_period_s = 60, pc_stale_count_max = 3\<rparr>"

abbreviation POWER_QUALITY_ADC_FAULT :: u8 where "POWER_QUALITY_ADC_FAULT \<equiv> 1"
abbreviation POWER_QUALITY_STALE :: u8 where "POWER_QUALITY_STALE \<equiv> 2"

record power_service =
  pw_config :: power_config
  pw_current :: power_snapshot
  pw_stale_count :: u8
  pw_sample_sequence :: u64

definition power_adc_to_mv :: "u16 \<Rightarrow> u16 \<Rightarrow> u8 \<Rightarrow> i32" where
  "power_adc_to_mv raw vref_mv divider =
     (if divider = 0 then -1
      else let num = (ucast raw :: u64) * ucast vref_mv * ucast divider
           in narrow_i32 (uint ((num + 2048) div 4096)))"

definition power_config_is_valid :: "power_config \<Rightarrow> bool" where
  "power_config_is_valid c \<longleftrightarrow>
     \<not> (pc_vref_mv c = 0 \<or> pc_divider_ratio c = 0 \<or> pc_sample_period_s c = 0 \<or> pc_stale_count_max c = 0) \<and>
     \<not> pc_critical_threshold_mv c \<ge> pc_low_threshold_mv c \<and>
     \<not> (ucast (pc_low_threshold_mv c) :: u32) + ucast (pc_hysteresis_mv c) > 0xFFFF"

text \<open>None: PORT_STATUS_INVALID_PARAM.\<close>

definition power_service_init :: "power_config \<Rightarrow> power_service option" where
  "power_service_init c =
     (if \<not> power_config_is_valid c then None
      else Some \<lparr>pw_config = c, pw_current = zero_power\<lparr>ps_health := POWER_STATE_UNKNOWN, ps_available := False\<rparr>,
                 pw_stale_count = 0, pw_sample_sequence = 0\<rparr>)"

definition determine_health :: "u16 \<Rightarrow> power_health \<Rightarrow> power_config \<Rightarrow> power_health" where
  "determine_health mv current c =
     (case current of
        POWER_STATE_LOW \<Rightarrow>
          if mv < pc_critical_threshold_mv c then POWER_STATE_CRITICAL
          else if (ucast mv :: u32) > ucast (pc_low_threshold_mv c) + ucast (pc_hysteresis_mv c) then POWER_STATE_NORMAL
          else POWER_STATE_LOW
      | POWER_STATE_CRITICAL \<Rightarrow>
          if (ucast mv :: u32) > ucast (pc_critical_threshold_mv c) + ucast (pc_hysteresis_mv c) then POWER_STATE_LOW
          else POWER_STATE_CRITICAL
      | _ \<Rightarrow>
          if mv < pc_critical_threshold_mv c then POWER_STATE_CRITICAL
          else if mv < pc_low_threshold_mv c then POWER_STATE_LOW
          else POWER_STATE_NORMAL)"

definition power_service_sample_at :: "u16 \<Rightarrow> u64 \<Rightarrow> power_service \<Rightarrow> port_status \<times> power_service" where
  "power_service_sample_at raw sample_us s =
     (let mv = power_adc_to_mv raw (pc_vref_mv (pw_config s)) (pc_divider_ratio (pw_config s))
      in if mv < 0 then (PORT_STATUS_INVALID_PARAM, s)
         else
           let sequence = pw_sample_sequence s + 1;
               c = (pw_current s)\<lparr>ps_raw_adc := raw, ps_battery_mv := word_of_int mv, ps_sample_sequence := sequence,
                     ps_sample_monotonic_us := sample_us, ps_available := True, ps_quality_flags := 0\<rparr>
           in (PORT_OK, s\<lparr>pw_current := c\<lparr>ps_health := determine_health (ps_battery_mv c) (ps_health c) (pw_config s)\<rparr>,
                          pw_sample_sequence := sequence, pw_stale_count := 0\<rparr>))"

definition power_service_sample :: "u16 \<Rightarrow> power_service \<Rightarrow> port_status \<times> power_service" where
  "power_service_sample raw s = power_service_sample_at raw 0 s"

definition power_service_mark_read_failure :: "power_service \<Rightarrow> bool \<times> power_service" where
  "power_service_mark_read_failure s =
     (let n = (if pw_stale_count s < 0xFF then pw_stale_count s + 1 else pw_stale_count s);
          s1 = s\<lparr>pw_stale_count := n\<rparr>;
          c = pw_current s
      in if n < pc_stale_count_max (pw_config s) then (False, s1)
         else (ps_available c \<or> ps_health c \<noteq> POWER_STATE_UNKNOWN \<or>
                 ps_quality_flags c \<noteq> (POWER_QUALITY_ADC_FAULT OR POWER_QUALITY_STALE),
               s1\<lparr>pw_current := c\<lparr>ps_available := False, ps_health := POWER_STATE_UNKNOWN,
                                  ps_quality_flags := POWER_QUALITY_ADC_FAULT OR POWER_QUALITY_STALE\<rparr>\<rparr>))"

definition power_service_get_health :: "power_service \<Rightarrow> power_health" where
  "power_service_get_health s = ps_health (pw_current s)"

definition power_service_get_mv :: "power_service \<Rightarrow> u16" where
  "power_service_get_mv s = (if \<not> ps_available (pw_current s) then 0xFFFF else ps_battery_mv (pw_current s))"

section \<open>The facade\<close>

record power_facade =
  pf_svc :: power_service
  pf_config :: power_config
  pf_initialized :: bool

text \<open>\<open>PowerHealth\<close> as the integer of the C enumeration.\<close>

definition health_byte :: "power_health \<Rightarrow> u8" where
  "health_byte h = (case h of POWER_STATE_UNKNOWN \<Rightarrow> 0 | POWER_STATE_NORMAL \<Rightarrow> 1 | POWER_STATE_LOW \<Rightarrow> 2 | POWER_STATE_CRITICAL \<Rightarrow> 3)"

definition power_event :: "power_snapshot \<Rightarrow> app_event" where
  "power_event c = zero_event\<lparr>ev_id := EVT_POWER_STATUS_CHANGED, ev_priority := EVENT_PRIO_BACKGROUND, ev_delivery := DELIVERY_LEVEL,
     ev_monotonic_timestamp_us := ps_sample_monotonic_us c, ev_payload := (ev_payload zero_event)[0 := health_byte (ps_health c)],
     ev_payload_size := 1\<rparr>"

definition publish_power_snapshot :: "power_facade \<Rightarrow> power_health \<Rightarrow> app_event_queue \<Rightarrow> data_repository \<Rightarrow>
    port_status \<times> app_event_queue \<times> data_repository" where
  "publish_power_snapshot f previous_health q r =
     (let c = pw_current (pf_svc f)
      in case txn_begin txn_init r of
           (False, t, r1) \<Rightarrow> (PORT_STATUS_BUSY, q, r1)
         | (True, t, r1) \<Rightarrow>
             (case txn_write_power c t r1 of
                (False, t2, r2) \<Rightarrow> (PORT_STATUS_HARDWARE_ERROR, q, snd (txn_abort t2 r2))
              | (True, t2, r2) \<Rightarrow>
                  (case txn_commit t2 r2 of
                     (False, t3, r3) \<Rightarrow> (PORT_STATUS_HARDWARE_ERROR, q, snd (txn_abort t3 r3))
                   | (True, t3, r3) \<Rightarrow>
                       if ps_health c \<noteq> previous_health then
                         (case app_event_queue_post q (Some (power_event c)) of
                            (result, q', calls) \<Rightarrow>
                              (if result \<noteq> EVENT_POST_OK \<and> result \<noteq> EVENT_POST_COALESCED then PORT_STATUS_BUSY else PORT_OK, q', r3))
                       else (PORT_OK, q, r3))))"

definition power_facade_init :: "power_config option \<Rightarrow> power_facade option" where
  "power_facade_init cfg =
     (let c = (case cfg of Some c \<Rightarrow> c | None \<Rightarrow> POWER_CONFIG_DEFAULT)
      in map_option (\<lambda>s. \<lparr>pf_svc = s, pf_config = c, pf_initialized = True\<rparr>) (power_service_init c))"

definition power_facade_sample :: "u16 \<Rightarrow> power_facade \<Rightarrow> port_status \<times> power_facade" where
  "power_facade_sample raw f =
     (if \<not> pf_initialized f then (PORT_STATUS_UNAVAILABLE, f)
      else case power_service_sample raw (pf_svc f) of (st, s) \<Rightarrow> (st, f\<lparr>pf_svc := s\<rparr>))"

definition power_facade_process_sample :: "port_status \<times> u16 \<Rightarrow> u64 \<Rightarrow> power_facade \<Rightarrow> app_event_queue \<Rightarrow> data_repository \<Rightarrow>
    port_status \<times> power_facade \<times> app_event_queue \<times> data_repository" where
  "power_facade_process_sample reading sample_us f q r =
     (if \<not> pf_initialized f then (PORT_STATUS_UNAVAILABLE, f, q, r)
      else
        let previous = ps_health (pw_current (pf_svc f))
        in if fst reading \<noteq> PORT_OK then
             (case power_service_mark_read_failure (pf_svc f) of
                (changed, s) \<Rightarrow>
                  let f1 = f\<lparr>pf_svc := s\<rparr>
                  in if changed then (case publish_power_snapshot f1 previous q r of (st, q', r') \<Rightarrow> (fst reading, f1, q', r'))
                     else (fst reading, f1, q, r))
           else
             (case power_service_sample_at (snd reading) sample_us (pf_svc f) of
                (st, s) \<Rightarrow>
                  let f1 = f\<lparr>pf_svc := s\<rparr>
                  in if st \<noteq> PORT_OK then (st, f1, q, r)
                     else (case publish_power_snapshot f1 previous q r of (st', q', r') \<Rightarrow> (st', f1, q', r'))))"

definition power_facade_get_status :: "power_facade \<Rightarrow> port_status" where
  "power_facade_get_status f = (if \<not> pf_initialized f then PORT_STATUS_UNAVAILABLE else PORT_OK)"

definition power_facade_get_health :: "power_facade \<Rightarrow> power_health" where
  "power_facade_get_health f = (if \<not> pf_initialized f then POWER_STATE_UNKNOWN else power_service_get_health (pf_svc f))"

definition power_facade_get_mv :: "power_facade \<Rightarrow> u16" where
  "power_facade_get_mv f = (if \<not> pf_initialized f then 0xFFFF else power_service_get_mv (pf_svc f))"

section \<open>The conversion\<close>

lemma narrow_i32_small: "0 \<le> x \<Longrightarrow> x < 2 ^ 31 \<Longrightarrow> narrow_i32 x = x"
  by (rule narrow_i32_id) (simp add: in_i32_def)

lemma zdiv_nonneg: "0 \<le> n \<Longrightarrow> 0 \<le> (n + 2048) div (4096 :: int)"
  by (simp add: pos_imp_zdiv_nonneg_iff)

lemma uint_u16_less: "uint (x :: u16) < 65536" and uint_u8_less: "uint (y :: u8) < 256"
  using uint_lt2p [of x] uint_lt2p [of y] by simp_all

lemma unat_u8_less: "unat (x :: u8) < 256"
  by (rule order_less_le_trans [OF unsigned_less]) simp

text \<open>The numerator never wraps, so the result is exact.\<close>

lemma power_adc_to_mv_eq:
  assumes "divider \<noteq> 0"
  shows "power_adc_to_mv raw vref divider = (uint raw * uint vref * uint divider + 2048) div 4096"
proof -
  let ?num = "(ucast raw :: u64) * ucast vref * ucast divider"
  have u: "uint (ucast raw :: u64) = uint raw" "uint (ucast vref :: u64) = uint vref" "uint (ucast divider :: u64) = uint divider"
    by (simp_all add: unsigned_ucast_eq take_bit_int_eq_self_iff uint_lt2p [THEN less_le_trans])
  have p: "uint raw * uint vref \<le> 65535 * 65535"
    using uint_u16_less [of raw] uint_u16_less [of vref] by (intro mult_mono) simp_all
  then have b: "uint raw * uint vref * uint divider \<le> 65535 * 65535 * 255"
    using mult_mono [OF p, of "uint divider" 255] uint_u8_less [of divider] by simp
  have z: "0 \<le> uint raw * uint vref * uint divider" by simp
  have "uint ((ucast raw :: u64) * ucast vref) = uint raw * uint vref"
    using p by (simp add: uint_word_ariths u)
  then have n: "uint ?num = uint raw * uint vref * uint divider"
    using b z by (simp add: uint_word_ariths u)
  then have "uint (?num + 2048) = uint raw * uint vref * uint divider + 2048"
    using b z by (simp add: uint_word_ariths)
  then have "uint ((?num + 2048) div 4096) = (uint raw * uint vref * uint divider + 2048) div 4096"
    by (simp add: uint_div)
  moreover have "(uint raw * uint vref * uint divider + 2048) div 4096 < 2 ^ 31" using b by simp
  ultimately show ?thesis using assms z by (simp add: power_adc_to_mv_def Let_def narrow_i32_small pos_imp_zdiv_nonneg_iff)
qed

text \<open>With a full scale that fits 16 bits, a 12-bit reading is converted to the nearest millivolt
  (halves upwards), and a larger reading never gives a smaller voltage.\<close>

theorem battery_voltage_is_rounded:
  assumes "power_config_is_valid (pw_config s)" "uint raw < 4096"
    and "uint (pc_vref_mv (pw_config s)) * uint (pc_divider_ratio (pw_config s)) \<le> 65535" "raw0 \<le> raw"
  shows "\<exists>s' s0. power_service_sample_at raw t s = (PORT_OK, s') \<and> power_service_sample_at raw0 t s = (PORT_OK, s0) \<and>
    (let exact = uint raw * uint (pc_vref_mv (pw_config s)) * uint (pc_divider_ratio (pw_config s))
     in 4096 * uint (ps_battery_mv (pw_current s')) - 2048 \<le> exact \<and> exact < 4096 * uint (ps_battery_mv (pw_current s')) + 2048) \<and>
    ps_battery_mv (pw_current s0) \<le> ps_battery_mv (pw_current s')"
proof -
  let ?k = "uint (pc_vref_mv (pw_config s)) * uint (pc_divider_ratio (pw_config s))"
  let ?mv = "\<lambda>x :: u16. (uint x * ?k + 2048) div 4096"
  have d: "pc_divider_ratio (pw_config s) \<noteq> 0" using assms(1) by (simp add: power_config_is_valid_def)
  have le: "uint raw0 \<le> uint raw" using assms(4) by (simp add: word_le_def)
  have conv: "power_adc_to_mv x (pc_vref_mv (pw_config s)) (pc_divider_ratio (pw_config s)) = ?mv x" for x
    using power_adc_to_mv_eq [OF d] by (simp add: mult.assoc)
  have fit: "0 \<le> ?mv x" "?mv x < 65536" if "uint x < 4096" for x
  proof -
    have "uint x * ?k \<le> 4095 * 65535" by (rule mult_mono) (use that assms(3) in simp_all)
    then show "?mv x < 65536" by simp
    show "0 \<le> ?mv x" by (intro zdiv_nonneg) simp
  qed
  have u: "uint (word_of_int (?mv x) :: u16) = ?mv x" if "uint x < 4096" for x
    using fit [OF that] by (simp add: uint_word_of_int_eq take_bit_int_eq_self)
  have ok: "\<exists>s'. power_service_sample_at x t s = (PORT_OK, s') \<and> uint (ps_battery_mv (pw_current s')) = ?mv x" if "uint x < 4096" for x
    using fit(1) [OF that] u [OF that] by (simp add: power_service_sample_at_def conv Let_def del: uint_word_of_int_eq)
  obtain s' s0 where s: "power_service_sample_at raw t s = (PORT_OK, s')" "uint (ps_battery_mv (pw_current s')) = ?mv raw"
    "power_service_sample_at raw0 t s = (PORT_OK, s0)" "uint (ps_battery_mv (pw_current s0)) = ?mv raw0"
    using ok [OF assms(2)] ok [of raw0] le assms(2) by auto
  have "uint raw0 * ?k \<le> uint raw * ?k" by (rule mult_right_mono) (use le in simp_all)
  then have "?mv raw0 \<le> ?mv raw" by (intro zdiv_mono1) simp_all
  moreover have "4096 * ?mv raw - 2048 \<le> uint raw * ?k \<and> uint raw * ?k < 4096 * ?mv raw + 2048" by linarith
  ultimately show ?thesis using s by (intro exI [of _ s'] exI [of _ s0]) (simp add: Let_def word_le_def mult.assoc)
qed

definition sample_power_service :: power_service where
  "sample_power_service = the (power_service_init POWER_CONFIG_DEFAULT)"

lemma battery_voltage_is_rounded_witness:
  "ps_battery_mv (pw_current (snd (power_service_sample_at 1400 0 sample_power_service)))
     \<le> ps_battery_mv (pw_current (snd (power_service_sample_at 1500 0 sample_power_service)))"
proof -
  have "power_config_is_valid (pw_config sample_power_service)" "uint (1500 :: u16) < 4096" "(1400 :: u16) \<le> 1500"
    "uint (pc_vref_mv (pw_config sample_power_service)) * uint (pc_divider_ratio (pw_config sample_power_service)) \<le> 65535"
    by code_simp+
  from battery_voltage_is_rounded [OF this(1,2,4,3), of 0] show ?thesis by auto
qed

text \<open>Nothing bounds the full scale: with a divider of 30 a reading of 67.7 V becomes 2.1 V, and the battery
  is reported as critical.\<close>

lemma battery_voltage_wraps:
  "power_config_is_valid (POWER_CONFIG_DEFAULT\<lparr>pc_divider_ratio := 30\<rparr>)"
  "ps_health (pw_current (snd (power_service_sample_at 2800 0
     (sample_power_service\<lparr>pw_config := POWER_CONFIG_DEFAULT\<lparr>pc_divider_ratio := 30\<rparr>\<rparr>)))) = POWER_STATE_CRITICAL"
  by code_simp+

section \<open>Hysteresis\<close>

fun health_rank :: "power_health \<Rightarrow> nat" where
  "health_rank POWER_STATE_UNKNOWN = 0"
| "health_rank POWER_STATE_CRITICAL = 1"
| "health_rank POWER_STATE_LOW = 2"
| "health_rank POWER_STATE_NORMAL = 3"

text \<open>The health before the first and after each sample of a list of readings with their times.\<close>

fun health_trace :: "power_service \<Rightarrow> (u16 \<times> u64) list \<Rightarrow> power_health list" where
  "health_trace s [] = [power_service_get_health s]"
| "health_trace s ((raw, t) # xs) = power_service_get_health s # health_trace (snd (power_service_sample_at raw t s)) xs"

definition battery_mv :: "power_config \<Rightarrow> u16 \<Rightarrow> u16" where
  "battery_mv c raw = word_of_int (power_adc_to_mv raw (pc_vref_mv c) (pc_divider_ratio c))"

lemma sample_at_health:
  assumes "power_config_is_valid (pw_config s)"
  shows "power_service_get_health (snd (power_service_sample_at raw t s)) =
      determine_health (battery_mv (pw_config s) raw) (power_service_get_health s) (pw_config s)"
    "pw_config (snd (power_service_sample_at raw t s)) = pw_config s"
  using assms power_adc_to_mv_eq [of "pc_divider_ratio (pw_config s)" raw "pc_vref_mv (pw_config s)"]
    zdiv_nonneg [of "uint raw * uint (pc_vref_mv (pw_config s)) * uint (pc_divider_ratio (pw_config s))"]
  by (simp_all add: power_config_is_valid_def power_service_sample_at_def power_service_get_health_def battery_mv_def Let_def)

text \<open>If every step from a state of \<open>H\<close> stays in \<open>H\<close> and does not go against the order, the trace is ordered.\<close>

lemma ordered_trace:
  assumes "power_config_is_valid (pw_config s)" "power_service_get_health s \<in> H" "transp le"
    and "\<forall>(raw, t) \<in> set xs. \<forall>h \<in> H. determine_health (battery_mv (pw_config s) raw) h (pw_config s) \<in> H \<and>
      le (health_rank h) (health_rank (determine_health (battery_mv (pw_config s) raw) h (pw_config s)))"
  shows "sorted_wrt le (map health_rank (health_trace s xs)) \<and> hd (health_trace s xs) = power_service_get_health s"
  using assms
proof (induction xs arbitrary: s)
  case (Cons x xs)
  obtain raw t where x: "x = (raw, t)" by fastforce
  let ?s = "snd (power_service_sample_at raw t s)"
  note h = sample_at_health [OF Cons.prems(1), of raw t]
  have "sorted_wrt le (map health_rank (health_trace ?s xs)) \<and> hd (health_trace ?s xs) = power_service_get_health ?s"
    by (rule Cons.IH) (use Cons.prems h x in auto)
  moreover have "le (health_rank (power_service_get_health s)) (health_rank (power_service_get_health ?s))"
    using Cons.prems(2,4) h x by auto
  moreover obtain r rs where "health_trace ?s xs = r # rs" by (cases "(?s, xs)" rule: health_trace.cases) auto
  ultimately show ?case using Cons.prems(3) x by (auto dest: transpD)
qed simp

lemma u16_order:
  fixes x y z :: u16
  shows "x < y \<longleftrightarrow> uint x < uint y" "(ucast x :: u32) > ucast y + ucast z \<longleftrightarrow> uint x > uint y + uint z"
proof -
  show "x < y \<longleftrightarrow> uint x < uint y" by (rule word_less_def)
  have u: "uint (ucast v :: u32) = uint v" for v :: u16
    by (simp add: unsigned_ucast_eq take_bit_int_eq_self_iff uint_lt2p [THEN less_le_trans])
  have "uint ((ucast y :: u32) + ucast z) = uint y + uint z"
    using uint_u16_less [of y] uint_u16_less [of z] by (simp add: uint_word_ariths u)
  then show "(ucast x :: u32) > ucast y + ucast z \<longleftrightarrow> uint x > uint y + uint z" by (simp add: word_less_def u)
qed

text \<open>C30: the hysteresis works.  While the battery voltage stays in a window no wider than the hysteresis,
  the health never turns back: once it is known it only falls or only rises, so it changes at
  most twice however the readings fluctuate.\<close>

theorem health_does_not_chatter:
  assumes "power_config_is_valid (pw_config s)" "power_service_get_health s \<noteq> POWER_STATE_UNKNOWN"
    and "\<forall>(raw, t) \<in> set xs. a \<le> uint (battery_mv (pw_config s) raw) \<and>
      uint (battery_mv (pw_config s) raw) \<le> a + uint (pc_hysteresis_mv (pw_config s))"
  shows "sorted_wrt (\<le>) (map health_rank (health_trace s xs)) \<or> sorted_wrt (\<ge>) (map health_rank (health_trace s xs))"
proof -
  let ?c = "pw_config s" and ?h = "power_service_get_health s"
  let ?low = "uint (pc_low_threshold_mv ?c)" and ?crit = "uint (pc_critical_threshold_mv ?c)"
  have lt: "?crit < ?low" using assms(1) by (simp add: power_config_is_valid_def u16_order(1) not_le)
  have t: "transp ((\<le>) :: nat \<Rightarrow> nat \<Rightarrow> bool)" "transp ((\<ge>) :: nat \<Rightarrow> nat \<Rightarrow> bool)" by (auto intro: transpI)
  note dh = determine_health_def u16_order
  consider "?low < a" | "a \<le> ?low" "?crit < a" "?h = POWER_STATE_CRITICAL" | "a \<le> ?low" "?crit < a" "?h \<noteq> POWER_STATE_CRITICAL"
    | "a \<le> ?crit" by linarith
  then show ?thesis
  proof cases
    case 1
    let ?H = "{POWER_STATE_CRITICAL, POWER_STATE_LOW, POWER_STATE_NORMAL}"
    have step: "\<forall>h \<in> ?H. determine_health m h ?c \<in> ?H \<and> health_rank h \<le> health_rank (determine_health m h ?c)"
      if "a \<le> uint m" "uint m \<le> a + uint (pc_hysteresis_mv ?c)" for m
      using 1 lt that by (auto simp: dh)
    have h: "?h \<in> ?H" using 1 assms(2) by (cases ?h) auto
    have "sorted_wrt (\<le>) (map health_rank (health_trace s xs)) \<and> hd (health_trace s xs) = ?h"
      by (rule ordered_trace [OF assms(1) h]) (use assms(3) step t in \<open>auto\<close>)
    then show ?thesis by blast
  next
    case 2
    let ?H = "{POWER_STATE_CRITICAL, POWER_STATE_LOW}"
    have step: "\<forall>h \<in> ?H. determine_health m h ?c \<in> ?H \<and> health_rank h \<le> health_rank (determine_health m h ?c)"
      if "a \<le> uint m" "uint m \<le> a + uint (pc_hysteresis_mv ?c)" for m
      using 2 lt that by (auto simp: dh)
    have h: "?h \<in> ?H" using 2 assms(2) by (cases ?h) auto
    have "sorted_wrt (\<le>) (map health_rank (health_trace s xs)) \<and> hd (health_trace s xs) = ?h"
      by (rule ordered_trace [OF assms(1) h]) (use assms(3) step t in \<open>auto\<close>)
    then show ?thesis by blast
  next
    case 3
    let ?H = "{POWER_STATE_NORMAL, POWER_STATE_LOW}"
    have step: "\<forall>h \<in> ?H. determine_health m h ?c \<in> ?H \<and> health_rank h \<ge> health_rank (determine_health m h ?c)"
      if "a \<le> uint m" "uint m \<le> a + uint (pc_hysteresis_mv ?c)" for m
      using 3 lt that by (auto simp: dh)
    have h: "?h \<in> ?H" using 3 assms(2) by (cases ?h) auto
    have "sorted_wrt (\<ge>) (map health_rank (health_trace s xs)) \<and> hd (health_trace s xs) = ?h"
      by (rule ordered_trace [OF assms(1) h]) (use assms(3) step t in \<open>auto\<close>)
    then show ?thesis by blast
  next
    case 4
    let ?H = "{POWER_STATE_CRITICAL, POWER_STATE_LOW, POWER_STATE_NORMAL}"
    have step: "\<forall>h \<in> ?H. determine_health m h ?c \<in> ?H \<and> health_rank h \<ge> health_rank (determine_health m h ?c)"
      if "a \<le> uint m" "uint m \<le> a + uint (pc_hysteresis_mv ?c)" for m
      using 4 lt that by (auto simp: dh)
    have h: "?h \<in> ?H" using 4 assms(2) by (cases ?h) auto
    have "sorted_wrt (\<ge>) (map health_rank (health_trace s xs)) \<and> hd (health_trace s xs) = ?h"
      by (rule ordered_trace [OF assms(1) h]) (use assms(3) step t in \<open>auto\<close>)
    then show ?thesis by blast
  qed
qed

lemma health_does_not_chatter_witness:
  "sorted_wrt (\<ge>) (map health_rank (health_trace (snd (power_service_sample_at 1600 0 sample_power_service))
     [(1485, 1), (1500, 2), (1487, 3), (1500, 4)])) \<and>
   last (health_trace (snd (power_service_sample_at 1600 0 sample_power_service)) [(1485, 1), (1500, 2), (1487, 3), (1500, 4)]) = POWER_STATE_LOW"
proof -
  let ?s = "snd (power_service_sample_at 1600 0 sample_power_service)" and ?xs = "[(1485, 1), (1500, 2), (1487, 3), (1500, 4)] :: (u16 \<times> u64) list"
  have v: "power_config_is_valid (pw_config ?s)" by code_simp
  have k: "power_service_get_health ?s \<noteq> POWER_STATE_UNKNOWN" by code_simp
  have w: "\<forall>(raw, t) \<in> set ?xs. 3585 \<le> uint (battery_mv (pw_config ?s) raw) \<and>
      uint (battery_mv (pw_config ?s) raw) \<le> 3585 + uint (pc_hysteresis_mv (pw_config ?s))" by code_simp
  have h: "map health_rank (health_trace ?s ?xs) = [3, 2, 2, 2, 2]" by code_simp
  have l: "last (health_trace ?s ?xs) = POWER_STATE_LOW" by code_simp
  have "sorted_wrt (\<le>) [3, 2, 2, 2, 2 :: nat] \<or> sorted_wrt (\<ge>) [3, 2, 2, 2, 2 :: nat]"
    using health_does_not_chatter [OF v k w] unfolding h .
  then show ?thesis using l h by simp
qed

section \<open>Publication\<close>

text \<open>Samples, each a reading of the ADC port and its time.\<close>

fun power_run :: "((port_status \<times> u16) \<times> u64) list \<Rightarrow> power_facade \<times> app_event_queue \<times> data_repository \<Rightarrow>
    power_facade \<times> app_event_queue \<times> data_repository" where
  "power_run [] s = s"
| "power_run ((reading, t) # xs) (f, q, r) =
     (case power_facade_process_sample reading t f q r of (st, f', q', r') \<Rightarrow> power_run xs (f', q', r'))"

lemma publish_effect:
  assumes "repo_ok r" "\<not> dr_writer_active r" "publish_power_snapshot f previous q r = (st, q', r')"
  shows "repo_ok r' \<and> \<not> dr_writer_active r' \<and> rs_power (published r') = pw_current (pf_svc f)"
proof -
  obtain t r1 where b: "txn_begin txn_init r = (True, t, r1)" "repo_ok r1" "owns t r1"
    using begin_owned [OF assms(1,2), of txn_init] by (auto simp: txn_init_def)
  obtain t2 r2 where w: "txn_write (Write_power (pw_current (pf_svc f))) t r1 = (True, t2, r2)" "repo_ok r2" "owns t2 r2"
    "rs_power (buffer r2 (tx_inactive_index t2)) = pw_current (pf_svc f)"
    using write_owned [OF b(2,3), of "Write_power (pw_current (pf_svc f))"] by auto
  obtain t3 r3 where c: "txn_commit t2 r2 = (True, t3, r3)" "repo_ok r3" "\<not> dr_writer_active r3"
    "rs_power (published r3) = pw_current (pf_svc f)"
    using commit_owned [OF w(2,3)] w(4) by auto
  have "r' = r3" using assms(3) b(1) w(1) c(1) by (auto simp: publish_power_snapshot_def Let_def split: if_splits prod.splits)
  then show ?thesis using c by simp
qed

text \<open>The two kinds of sample.\<close>

lemma process_sample_effect:
  assumes "repo_ok r" "\<not> dr_writer_active r" "rs_power (published r) = pw_current (pf_svc f)"
    and "power_facade_process_sample reading t f q r = (st, f', q', r')"
  shows "repo_ok r' \<and> \<not> dr_writer_active r' \<and> rs_power (published r') = pw_current (pf_svc f')"
proof (cases "pf_initialized f")
  case False
  then show ?thesis using assms by (simp add: power_facade_process_sample_def)
next
  case init: True
  show ?thesis
  proof (cases "fst reading = PORT_OK")
    case False
    obtain changed s where m: "power_service_mark_read_failure (pf_svc f) = (changed, s)" by fastforce
    show ?thesis
    proof (cases changed)
      case True
      obtain st2 q2 r2 where p: "publish_power_snapshot (f\<lparr>pf_svc := s\<rparr>) (ps_health (pw_current (pf_svc f))) q r = (st2, q2, r2)" by (metis prod.exhaust)
      then have "r' = r2" "f' = f\<lparr>pf_svc := s\<rparr>" using assms(4) init False m True by (simp_all add: power_facade_process_sample_def Let_def)
      then show ?thesis using publish_effect [OF assms(1,2) p] by simp
    next
      case unchanged: False
      then have "pw_current s = pw_current (pf_svc f)"
        using m by (auto simp: power_service_mark_read_failure_def Let_def split: if_splits)
      then show ?thesis using assms init False m unchanged by (auto simp: power_facade_process_sample_def Let_def)
    qed
  next
    case True
    obtain st1 s where m: "power_service_sample_at (snd reading) t (pf_svc f) = (st1, s)" by fastforce
    show ?thesis
    proof (cases "st1 = PORT_OK")
      case False
      then have "s = pf_svc f" using m by (auto simp: power_service_sample_at_def Let_def split: if_splits)
      then show ?thesis using assms init True m False by (auto simp: power_facade_process_sample_def Let_def)
    next
      case ok: True
      obtain st2 q2 r2 where p: "publish_power_snapshot (f\<lparr>pf_svc := s\<rparr>) (ps_health (pw_current (pf_svc f))) q r = (st2, q2, r2)" by (metis prod.exhaust)
      then have "r' = r2" "f' = f\<lparr>pf_svc := s\<rparr>" using assms(4) init True m ok by (simp_all add: power_facade_process_sample_def Let_def)
      then show ?thesis using publish_effect [OF assms(1,2) p] by simp
    qed
  qed
qed

text \<open>Failures in a row: the counter follows their number, and the snapshot is given up when it reaches the limit.\<close>

definition given_up :: "power_service \<Rightarrow> bool" where
  "given_up s \<longleftrightarrow> \<not> ps_available (pw_current s) \<and> ps_health (pw_current s) = POWER_STATE_UNKNOWN \<and>
     ps_quality_flags (pw_current s) = (POWER_QUALITY_ADC_FAULT OR POWER_QUALITY_STALE)"

lemma process_failure:
  assumes "pf_initialized f" "fst reading \<noteq> PORT_OK"
  obtains st q' r' where "power_facade_process_sample reading t f q r = (st, f\<lparr>pf_svc := snd (power_service_mark_read_failure (pf_svc f))\<rparr>, q', r')"
proof -
  obtain changed s where m: "power_service_mark_read_failure (pf_svc f) = (changed, s)" by fastforce
  obtain st q2 r2 where "publish_power_snapshot (f\<lparr>pf_svc := s\<rparr>) (ps_health (pw_current (pf_svc f))) q r = (st, q2, r2)" by (metis prod.exhaust)
  then show thesis using that m assms by (cases changed) (simp_all add: power_facade_process_sample_def Let_def)
qed

lemma mark_failure_effect:
  "unat (pw_stale_count (snd (power_service_mark_read_failure s))) = min 255 (Suc (unat (pw_stale_count s)))"
  "pw_config (snd (power_service_mark_read_failure s)) = pw_config s"
  "pc_stale_count_max (pw_config s) \<le> pw_stale_count (snd (power_service_mark_read_failure s)) \<Longrightarrow>
     given_up (snd (power_service_mark_read_failure s))"
proof -
  let ?n = "pw_stale_count s"
  have e: "pw_stale_count (snd (power_service_mark_read_failure s)) = (if ?n < 0xFF then ?n + 1 else ?n)"
    by (simp add: power_service_mark_read_failure_def Let_def)
  have "unat (if ?n < 0xFF then ?n + 1 else ?n) = min 255 (Suc (unat ?n))"
    using unat_u8_less [of ?n] unat_word_ariths(1) [of ?n 1] by (auto simp: word_less_nat_alt)
  then show "unat (pw_stale_count (snd (power_service_mark_read_failure s))) = min 255 (Suc (unat ?n))" by (simp only: e)
  show "pw_config (snd (power_service_mark_read_failure s)) = pw_config s" by (simp add: power_service_mark_read_failure_def Let_def)
  show "given_up (snd (power_service_mark_read_failure s))"
    if "pc_stale_count_max (pw_config s) \<le> pw_stale_count (snd (power_service_mark_read_failure s))"
    using that unfolding e by (auto simp: power_service_mark_read_failure_def Let_def given_up_def)
qed

lemma failures_give_up:
  assumes "pf_initialized f" "\<forall>x \<in> set xs. fst (fst x) \<noteq> PORT_OK" "power_run xs (f, q, r) = (f', q', r')" "xs \<noteq> []"
    and "unat (pc_stale_count_max (pw_config (pf_svc f))) \<le> unat (pw_stale_count (pf_svc f)) + length xs"
  shows "given_up (pf_svc f')"
  using assms
proof (induction xs arbitrary: f q r)
  case (Cons x xs)
  obtain reading t where x: "x = (reading, t)" by fastforce
  let ?s = "snd (power_service_mark_read_failure (pf_svc f))"
  obtain st q1 r1 where p: "power_facade_process_sample reading t f q r = (st, f\<lparr>pf_svc := ?s\<rparr>, q1, r1)"
    using process_failure [of f reading t q r] Cons.prems(1,2) x by auto
  have run: "power_run xs (f\<lparr>pf_svc := ?s\<rparr>, q1, r1) = (f', q', r')" using Cons.prems(3) x p by simp
  note m = mark_failure_effect [of "pf_svc f"]
  have max: "unat (pc_stale_count_max (pw_config (pf_svc f))) \<le> 255"
    using unat_u8_less [of "pc_stale_count_max (pw_config (pf_svc f))"] by simp
  show ?case
  proof (cases "xs = []")
    case True
    have "pc_stale_count_max (pw_config (pf_svc f)) \<le> pw_stale_count ?s"
      using Cons.prems(5) True m(1) max by (simp add: word_le_nat_alt)
    then show ?thesis using m(3) run True by auto
  next
    case False
    show ?thesis
      by (rule Cons.IH [OF _ _ run False]) (use Cons.prems m(1,2) max in auto)
  qed
qed simp

lemma power_run_append: "power_run (xs @ ys) s = power_run ys (power_run xs s)"
  by (induction xs s rule: power_run.induct) (auto split: prod.splits)

lemma run_keeps_config:
  "power_run xs (f, q, r) = (f', q', r') \<Longrightarrow> pf_initialized f' = pf_initialized f \<and> pw_config (pf_svc f') = pw_config (pf_svc f)"
proof (induction xs arbitrary: f q r)
  case (Cons x xs)
  obtain reading t where x: "x = (reading, t)" by fastforce
  obtain st f1 q1 r1 where p: "power_facade_process_sample reading t f q r = (st, f1, q1, r1)" by (metis prod.exhaust)
  have "pf_initialized f1 = pf_initialized f \<and> pw_config (pf_svc f1) = pw_config (pf_svc f)"
    using p by (auto simp: power_facade_process_sample_def power_service_sample_at_def power_service_mark_read_failure_def Let_def
        split: if_splits prod.splits)
  then show ?case using Cons x p by simp
qed simp

text \<open>C29: readers of the repository see the battery as the service knows it.  Over every run of samples
  with a free repository the published power snapshot is the service's, and when the last readings, as many
  as the configured limit, all failed, it is unavailable with unknown health.\<close>

theorem published_power_is_current:
  assumes "repo_ok r" "\<not> dr_writer_active r" "rs_power (published r) = pw_current (pf_svc f)" "pf_initialized f"
    and "power_run xs (f, q, r) = (f', q', r')"
  shows "repo_ok r' \<and> \<not> dr_writer_active r' \<and> rs_power (published r') = pw_current (pf_svc f') \<and>
    (\<forall>ys zs. xs = ys @ zs \<longrightarrow> zs \<noteq> [] \<longrightarrow> unat (pc_stale_count_max (pw_config (pf_svc f))) \<le> length zs \<longrightarrow>
      (\<forall>z \<in> set zs. fst (fst z) \<noteq> PORT_OK) \<longrightarrow>
      \<not> ps_available (rs_power (published r')) \<and> ps_health (rs_power (published r')) = POWER_STATE_UNKNOWN)"
proof -
  have ok: "repo_ok r' \<and> \<not> dr_writer_active r' \<and> rs_power (published r') = pw_current (pf_svc f')"
    using assms(1-3,5)
  proof (induction xs arbitrary: f q r)
    case (Cons x xs)
    obtain reading t where x: "x = (reading, t)" by fastforce
    obtain st f1 q1 r1 where p: "power_facade_process_sample reading t f q r = (st, f1, q1, r1)" by (metis prod.exhaust)
    show ?case
      using process_sample_effect [OF Cons.prems(1-3) p] Cons.IH [of r1 f1 q1] Cons.prems(4) x p by simp
  qed simp
  have "given_up (pf_svc f')"
    if "xs = ys @ zs" "zs \<noteq> []" "unat (pc_stale_count_max (pw_config (pf_svc f))) \<le> length zs" "\<forall>z \<in> set zs. fst (fst z) \<noteq> PORT_OK" for ys zs
  proof -
    obtain f1 q1 r1 where y: "power_run ys (f, q, r) = (f1, q1, r1)" by (metis prod.exhaust)
    then have z: "power_run zs (f1, q1, r1) = (f', q', r')" using assms(5) that(1) by (simp add: power_run_append)
    show ?thesis by (rule failures_give_up [OF _ that(4) z that(2)]) (use run_keeps_config [OF y] that(3) assms(4) in simp_all)
  qed
  then show ?thesis using ok by (auto simp: given_up_def)
qed

text \<open>A publication that failed is not repeated.  Once the service has given up the battery (its
  own snapshot is unavailable and unknown), further failed readings publish nothing and post nothing, whatever the
  repository holds; so when the repository was locked at the reading that reached the limit, the
  old voltage stays published as available for as long as the ADC fails.\<close>

theorem failed_publication_is_not_repeated:
  assumes "given_up (pf_svc f)" "pc_stale_count_max (pw_config (pf_svc f)) \<le> pw_stale_count (pf_svc f)"
    and "\<forall>x \<in> set xs. fst (fst x) \<noteq> PORT_OK"
  shows "snd (power_run xs (f, q, r)) = (q, r)"
  using assms
proof (induction xs arbitrary: f)
  case (Cons x xs)
  obtain reading t where x: "x = (reading, t)" by fastforce
  let ?s = "snd (power_service_mark_read_failure (pf_svc f))"
  note m = mark_failure_effect [of "pf_svc f"]
  have max: "unat (pc_stale_count_max (pw_config (pf_svc f))) \<le> 255"
    using unat_u8_less [of "pc_stale_count_max (pw_config (pf_svc f))"] by simp
  have le: "pc_stale_count_max (pw_config (pf_svc f)) \<le> pw_stale_count ?s"
    using Cons.prems(2) max m(1) by (simp add: word_le_nat_alt)
  have "\<not> fst (power_service_mark_read_failure (pf_svc f))"
    using Cons.prems(1) by (auto simp: power_service_mark_read_failure_def Let_def given_up_def)
  then have "power_facade_process_sample reading t f q r = (if pf_initialized f then (fst reading, f\<lparr>pf_svc := ?s\<rparr>, q, r) else (PORT_STATUS_UNAVAILABLE, f, q, r))"
    using Cons.prems(3) x by (cases "power_service_mark_read_failure (pf_svc f)") (simp add: power_facade_process_sample_def Let_def)
  then show ?case
    using Cons.IH [of f] Cons.IH [of "f\<lparr>pf_svc := ?s\<rparr>"] Cons.prems m(2,3) le x by (cases "pf_initialized f") auto
qed simp

text \<open>An ADC that fails for good, with the repository free or locked at the third failure.\<close>

definition good :: "u64 \<Rightarrow> (port_status \<times> u16) \<times> u64" where
  "good t = ((PORT_OK, 1600), t)"

definition bad :: "u64 \<Rightarrow> (port_status \<times> u16) \<times> u64" where
  "bad t = ((PORT_STATUS_TIMEOUT, 0), t)"

definition sample_power_facade :: power_facade where
  "sample_power_facade = the (power_facade_init None)"

lemma published_power_is_current_witness:
  "case power_run [good 1, bad 2, bad 3, bad 4] (sample_power_facade, app_event_queue_init None, data_repository_init) of
    (f', q', r') \<Rightarrow> \<not> ps_available (rs_power (published r'))"
proof -
  obtain f' q' r' where run: "power_run ([good 1] @ [bad 2, bad 3, bad 4]) (sample_power_facade, app_event_queue_init None, data_repository_init) = (f', q', r')"
    by (metis prod.exhaust)
  have i: "\<not> dr_writer_active data_repository_init" by (simp add: data_repository_init_def)
  have c: "rs_power (published data_repository_init) = pw_current (pf_svc sample_power_facade)" "pf_initialized sample_power_facade"
    "unat (pc_stale_count_max (pw_config (pf_svc sample_power_facade))) = 3" by code_simp+
  have b: "\<forall>z \<in> set [bad 2, bad 3, bad 4]. fst (fst z) \<noteq> PORT_OK" by (simp add: bad_def)
  have n: "unat (pc_stale_count_max (pw_config (pf_svc sample_power_facade))) \<le> length [bad 2, bad 3, bad 4]" unfolding c(3) by simp
  have "\<not> ps_available (rs_power (published r'))"
    using published_power_is_current [OF repo_init_ok i c(1,2) run] b n by (metis list.distinct(1))
  then show ?thesis using run by simp
qed

text \<open>The same run, but another writer holds the repository at the third failure.\<close>

definition locked_at_limit :: "power_facade \<times> app_event_queue \<times> data_repository" where
  "locked_at_limit =
     (case power_run [good 1, bad 2, bad 3] (sample_power_facade, app_event_queue_init None, data_repository_init) of
        (f, q, r) \<Rightarrow>
          (case txn_begin txn_init r of (ok, t, r1) \<Rightarrow>
            (case power_run [bad 4] (f, q, r1) of (f', q', r2) \<Rightarrow> (f', q', snd (txn_abort t r2)))))"

lemma failed_publication_is_not_repeated_witness:
  "ps_available (rs_power (published (snd (snd (power_run [bad 5, bad 6, bad 7] locked_at_limit)))))"
proof -
  obtain f q r where l: "locked_at_limit = (f, q, r)" by (metis prod.exhaust)
  have "case locked_at_limit of (f, q, r) \<Rightarrow> given_up (pf_svc f) \<and> pc_stale_count_max (pw_config (pf_svc f)) \<le> pw_stale_count (pf_svc f) \<and>
      ps_available (rs_power (published r))" by code_simp
  then have g: "given_up (pf_svc f)" "pc_stale_count_max (pw_config (pf_svc f)) \<le> pw_stale_count (pf_svc f)"
    "ps_available (rs_power (published r))" by (simp_all add: l)
  have "\<forall>x \<in> set [bad 5, bad 6, bad 7]. fst (fst x) \<noteq> PORT_OK" by (simp add: bad_def)
  from failed_publication_is_not_repeated [OF g(1,2) this] show ?thesis using g(3) by (simp add: l)
qed

end
