(* ===== verification/Time_Service.thy ===== *)
theory Time_Service
  imports Domain_Types
begin

text \<open>
  The wall-clock service (services/time/time_service.c): when a synchronised time is valid and when it
  expires.  The specification keeps the last synchronisation that still counts.
\<close>

record time_service =
  ti_wall_time_s :: i64
  ti_valid :: bool
  ti_quality :: system_time_quality
  ti_active_source :: u8
  ti_time_generation :: u32
  ti_monotonic_at_sync_us :: u64
  ti_last_sync_wall_s :: i64
  ti_sync_age_us :: u64
  ti_max_sync_age_us :: u64
  ti_utc_offset_minutes :: "16 word"
  ti_offset_version :: u8
  ti_last_eval_us :: u64





definition TimeService_GetWallTime :: "time_service \<Rightarrow> i64" where
  "TimeService_GetWallTime s = ti_wall_time_s s"

definition TimeService_IsTimeValid :: "time_service \<Rightarrow> bool" where
  "TimeService_IsTimeValid s = ti_valid s"

definition TimeService_GetQuality :: "time_service \<Rightarrow> system_time_quality" where
  "TimeService_GetQuality s = ti_quality s"

definition TimeService_GetGeneration :: "time_service \<Rightarrow> u32" where
  "TimeService_GetGeneration s = ti_time_generation s"

definition TimeService_GetUtcOffset :: "time_service \<Rightarrow> u16" where
  "TimeService_GetUtcOffset s = ti_utc_offset_minutes s"

definition TimeService_Tick :: "u64 \<Rightarrow> time_service \<Rightarrow> time_service" where
  "TimeService_Tick now s =
     (if \<not> ti_valid s then s
      else
        let s1 = s\<lparr>ti_last_eval_us := now\<rparr>
        in if now \<ge> ti_monotonic_at_sync_us s1 then
             (let s2 = s1\<lparr>ti_sync_age_us := now - ti_monotonic_at_sync_us s1\<rparr>
              in if ti_sync_age_us s2 \<ge> ti_max_sync_age_us s2
                 then s2\<lparr>ti_valid := False, ti_quality := SYS_TIME_INVALID, ti_time_generation := ti_time_generation s2 + 1\<rparr>
                 else s2)
           else s1)"

section \<open>Specification\<close>












text \<open>The wall time that the service returns is that of the last synchronisation; ticks do not advance it.\<close>

lemma wall_time_stands_still: "TimeService_GetWallTime (TimeService_Tick now s) = TimeService_GetWallTime s"
  by (simp add: TimeService_GetWallTime_def TimeService_Tick_def Let_def)

end
