(* ===== verification/Action_Queue.thy ===== *)
theory Action_Queue
  imports Prelude "HOL-Library.Multiset" "HOL-Library.Product_Lexorder"
begin

text \<open>
  The scheduled-action queue of the Linux platform (platform/linux/linux_scheduled_action_queue.c): a
  binary heap in an array of 64 actions, ordered by due time, class, resource, generation, source
  sequence and insertion sequence.

  The array keeps its length; the entries from \<open>aq_count\<close> on are left over.  The count is at most 64, so
  the index arithmetic in 16 and 32 bits does not wrap.
\<close>

section \<open>Data\<close>

abbreviation ACTION_QUEUE_MAX_CAPACITY :: nat where "ACTION_QUEUE_MAX_CAPACITY \<equiv> 64"

datatype action_class =
    ACTION_CLASS_SPI_COMPLETION | ACTION_CLASS_I2C_COMPLETION | ACTION_CLASS_GPIO_EVIDENCE | ACTION_CLASS_RTC_ALARM
  | ACTION_CLASS_WAKE | ACTION_CLASS_RESET | ACTION_CLASS_USER_0 | ACTION_CLASS_USER_1

text \<open>The integer of the C enumeration, and its order.\<close>

fun class_index :: "action_class \<Rightarrow> nat" where
  "class_index ACTION_CLASS_SPI_COMPLETION = 0"
| "class_index ACTION_CLASS_I2C_COMPLETION = 1"
| "class_index ACTION_CLASS_GPIO_EVIDENCE = 2"
| "class_index ACTION_CLASS_RTC_ALARM = 3"
| "class_index ACTION_CLASS_WAKE = 4"
| "class_index ACTION_CLASS_RESET = 5"
| "class_index ACTION_CLASS_USER_0 = 6"
| "class_index ACTION_CLASS_USER_1 = 7"

lemma class_index_inj: "class_index a = class_index b \<Longrightarrow> a = b"
  by (cases a; cases b) simp_all

instantiation action_class :: linorder
begin

definition less_eq_action_class :: "action_class \<Rightarrow> action_class \<Rightarrow> bool" where
  "less_eq_action_class a b \<longleftrightarrow> class_index a \<le> class_index b"

definition less_action_class :: "action_class \<Rightarrow> action_class \<Rightarrow> bool" where
  "less_action_class a b \<longleftrightarrow> class_index a < class_index b"

instance
  by standard (auto simp: less_eq_action_class_def less_action_class_def intro: class_index_inj)

end

record scheduled_action =
  sa_due_us :: u64
  sa_action_class :: action_class
  sa_resource_id :: u32
  sa_resource_generation :: u32
  sa_source_sequence :: u32
  sa_insertion_sequence :: u64
  sa_operation_id :: u32
  sa_correlation_id :: u32
  sa_owner_generation :: u32
  sa_detail_flags :: u32
  sa_payload :: bytes
  sa_payload_size :: u8

record action_queue =
  aq_actions :: "scheduled_action list"
  aq_count :: nat
  aq_next_insertion_seq :: u64
  aq_total_dispatched :: u64
  aq_overflow_count :: u32
  aq_cancel_count :: u32
  aq_stale_cancel_count :: u32

definition zero_action :: scheduled_action where
  "zero_action = \<lparr>sa_due_us = 0, sa_action_class = ACTION_CLASS_SPI_COMPLETION, sa_resource_id = 0, sa_resource_generation = 0,
     sa_source_sequence = 0, sa_insertion_sequence = 0, sa_operation_id = 0, sa_correlation_id = 0, sa_owner_generation = 0,
     sa_detail_flags = 0, sa_payload = replicate 16 0, sa_payload_size = 0\<rparr>"

definition action_queue_init :: action_queue where
  "action_queue_init = \<lparr>aq_actions = replicate ACTION_QUEUE_MAX_CAPACITY zero_action, aq_count = 0, aq_next_insertion_seq = 0,
     aq_total_dispatched = 0, aq_overflow_count = 0, aq_cancel_count = 0, aq_stale_cancel_count = 0\<rparr>"

section \<open>The heap\<close>

definition action_lt :: "scheduled_action \<Rightarrow> scheduled_action \<Rightarrow> bool" where
  "action_lt a b =
     (if sa_due_us a \<noteq> sa_due_us b then sa_due_us a < sa_due_us b
      else if sa_action_class a \<noteq> sa_action_class b then sa_action_class a < sa_action_class b
      else if sa_resource_id a \<noteq> sa_resource_id b then sa_resource_id a < sa_resource_id b
      else if sa_resource_generation a \<noteq> sa_resource_generation b then sa_resource_generation a < sa_resource_generation b
      else if sa_source_sequence a \<noteq> sa_source_sequence b then sa_source_sequence a < sa_source_sequence b
      else sa_insertion_sequence a < sa_insertion_sequence b)"

definition heap_swap :: "nat \<Rightarrow> nat \<Rightarrow> scheduled_action list \<Rightarrow> scheduled_action list" where
  "heap_swap i j h = h[i := h ! j, j := h ! i]"

fun heap_sift_up :: "scheduled_action list \<Rightarrow> nat \<Rightarrow> scheduled_action list" where
  "heap_sift_up h idx =
     (if idx > 0 then
        let parent = (idx - 1) div 2
        in if action_lt (h ! idx) (h ! parent) then heap_sift_up (heap_swap idx parent h) parent else h
      else h)"

definition smallest_child :: "scheduled_action list \<Rightarrow> nat \<Rightarrow> nat \<Rightarrow> nat" where
  "smallest_child h n idx =
     (let left = 2 * idx + 1; right = 2 * idx + 2;
          s1 = (if left < n \<and> action_lt (h ! left) (h ! idx) then left else idx)
      in if right < n \<and> action_lt (h ! right) (h ! s1) then right else s1)"

lemma smallest_child_cases:
  "smallest_child h n idx = idx \<or> idx < smallest_child h n idx \<and> smallest_child h n idx < n"
  by (simp add: smallest_child_def Let_def)

function heap_sift_down :: "scheduled_action list \<Rightarrow> nat \<Rightarrow> nat \<Rightarrow> scheduled_action list" where
  "heap_sift_down h n idx =
     (let smallest = smallest_child h n idx
      in if smallest \<noteq> idx then heap_sift_down (heap_swap idx smallest h) n smallest else h)"
  by pat_completeness auto
termination
  by (relation "measure (\<lambda>(h, n, idx). n - idx)") (use smallest_child_cases in \<open>fastforce simp: Let_def\<close>)+

declare heap_sift_up.simps [simp del] heap_sift_down.simps [simp del]

section \<open>Operations\<close>

definition action_queue_schedule :: "scheduled_action \<Rightarrow> action_queue \<Rightarrow> bool \<times> action_queue" where
  "action_queue_schedule a q =
     (if aq_count q \<ge> ACTION_QUEUE_MAX_CAPACITY then (False, q\<lparr>aq_overflow_count := aq_overflow_count q + 1\<rparr>)
      else
        let idx = aq_count q;
            h = (aq_actions q)[idx := a\<lparr>sa_insertion_sequence := aq_next_insertion_seq q\<rparr>]
        in (True, q\<lparr>aq_actions := heap_sift_up h idx, aq_next_insertion_seq := aq_next_insertion_seq q + 1, aq_count := idx + 1\<rparr>))"

text \<open>The removal of the entry at \<open>i\<close>: the last entry takes its place and sifts down.\<close>

definition remove_at :: "nat \<Rightarrow> action_queue \<Rightarrow> action_queue" where
  "remove_at i q =
     (let h = (aq_actions q)[i := aq_actions q ! (aq_count q - 1)]; n = aq_count q - 1
      in q\<lparr>aq_actions := (if i < n then heap_sift_down h n i else h), aq_count := n\<rparr>)"

fun cancel_scan :: "u32 \<Rightarrow> u32 \<Rightarrow> nat \<Rightarrow> nat \<Rightarrow> action_queue \<Rightarrow> bool \<times> action_queue" where
  "cancel_scan operation_id expected_generation i 0 q = (False, q)"
| "cancel_scan operation_id expected_generation i (Suc n) q =
     (let a = aq_actions q ! i
      in if sa_operation_id a = operation_id then
           (if sa_owner_generation a \<noteq> expected_generation then (False, q\<lparr>aq_stale_cancel_count := aq_stale_cancel_count q + 1\<rparr>)
            else (True, remove_at i (q\<lparr>aq_cancel_count := aq_cancel_count q + 1\<rparr>)))
         else cancel_scan operation_id expected_generation (i + 1) n q)"

definition action_queue_cancel :: "u32 \<Rightarrow> u32 \<Rightarrow> action_queue \<Rightarrow> bool \<times> action_queue" where
  "action_queue_cancel operation_id expected_generation q = cancel_scan operation_id expected_generation 0 (aq_count q) q"

text \<open>The loop of the dispatch; its bound counts the free places of the output.\<close>

fun dispatch_actions :: "u64 \<Rightarrow> nat \<Rightarrow> action_queue \<Rightarrow> scheduled_action list \<times> action_queue" where
  "dispatch_actions now 0 q = ([], q)"
| "dispatch_actions now (Suc free) q =
     (if aq_count q = 0 then ([], q)
      else
        let top = aq_actions q ! 0
        in if sa_due_us top > now then ([], q)
           else (case dispatch_actions now free (remove_at 0 (q\<lparr>aq_total_dispatched := aq_total_dispatched q + 1\<rparr>)) of
                   (out, q') \<Rightarrow> (top # out, q')))"

definition action_queue_dispatch_due :: "u64 \<Rightarrow> nat \<Rightarrow> action_queue \<Rightarrow> scheduled_action list \<times> action_queue" where
  "action_queue_dispatch_due now max_out q = dispatch_actions now max_out q"

definition action_queue_next_deadline :: "action_queue \<Rightarrow> u64 option" where
  "action_queue_next_deadline q = (if aq_count q = 0 then None else Some (sa_due_us (aq_actions q ! 0)))"

definition action_queue_get_count :: "action_queue \<Rightarrow> nat" where
  "action_queue_get_count q = aq_count q"

definition action_queue_get_overflow :: "action_queue \<Rightarrow> u32" where
  "action_queue_get_overflow q = aq_overflow_count q"

section \<open>The order\<close>

type_synonym action_key = "u64 \<times> action_class \<times> u32 \<times> u32 \<times> u32"

definition action_key :: "scheduled_action \<Rightarrow> action_key" where
  "action_key a = (sa_due_us a, sa_action_class a, sa_resource_id a, sa_resource_generation a, sa_source_sequence a)"

definition full_key :: "scheduled_action \<Rightarrow> action_key \<times> u64" where
  "full_key a = (action_key a, sa_insertion_sequence a)"

lemma action_lt_key: "action_lt a b \<longleftrightarrow> full_key a < full_key b"
  by (auto simp: action_lt_def full_key_def action_key_def less_prod_def less_eq_prod_def)

section \<open>The heap property\<close>

abbreviation parent :: "nat \<Rightarrow> nat" where "parent j \<equiv> (j - 1) div 2"

definition ordered_at :: "scheduled_action list \<Rightarrow> nat \<Rightarrow> bool" where
  "ordered_at h j \<longleftrightarrow> full_key (h ! parent j) \<le> full_key (h ! j)"

definition heap_ok :: "scheduled_action list \<Rightarrow> nat \<Rightarrow> bool" where
  "heap_ok h n \<longleftrightarrow> n \<le> length h \<and> (\<forall>j<n. 0 < j \<longrightarrow> ordered_at h j)"

lemma length_heap_swap [simp]: "length (heap_swap i j h) = length h"
  by (simp add: heap_swap_def)

lemma nth_heap_swap:
  "i < length h \<Longrightarrow> j < length h \<Longrightarrow> heap_swap i j h ! k = (if k = j then h ! i else if k = i then h ! j else h ! k)"
  by (simp add: heap_swap_def nth_list_update)

lemma mset_heap_swap:
  assumes "i < n" "j < n" "n \<le> length h"
  shows "mset (take n (heap_swap i j h)) = mset (take n h)"
proof -
  have "take n (heap_swap i j h) = (take n h)[i := take n h ! j, j := take n h ! i]"
    using assms by (simp add: heap_swap_def take_update_swap)
  then show ?thesis using mset_swap [of j "take n h" i] assms by simp
qed

text \<open>Sifting up: only the entry at \<open>i\<close> may be smaller than its parent, and its children are not smaller than that parent.\<close>

lemma sift_up:
  assumes "i < n" "n \<le> length h" "\<forall>j<n. 0 < j \<longrightarrow> j \<noteq> i \<longrightarrow> ordered_at h j"
    and "\<forall>j<n. 0 < j \<longrightarrow> 0 < i \<longrightarrow> parent j = i \<longrightarrow> full_key (h ! parent i) \<le> full_key (h ! j)"
  shows "heap_ok (heap_sift_up h i) n \<and> mset (take n (heap_sift_up h i)) = mset (take n h) \<and> length (heap_sift_up h i) = length h"
  using assms
proof (induction h i rule: heap_sift_up.induct)
  case (1 h i)
  define p where "p = parent i"
  show ?case
  proof (cases "0 < i \<and> action_lt (h ! i) (h ! p)")
    case False
    then have "heap_sift_up h i = h" by (subst heap_sift_up.simps) (auto simp: Let_def p_def)
    moreover have "0 < i \<longrightarrow> ordered_at h i" using False by (auto simp: ordered_at_def action_lt_key p_def)
    ultimately show ?thesis using "1.prems" by (auto simp: heap_ok_def)
  next
    case True
    let ?h = "heap_swap i p h"
    have p: "p < i" "p < n" using True "1.prems"(1) by (auto simp: p_def)
    have e: "heap_sift_up h i = heap_sift_up ?h p" using True by (subst heap_sift_up.simps) (simp add: Let_def p_def)
    have lt: "full_key (h ! i) < full_key (h ! p)" using True by (simp add: action_lt_key)
    have nth: "?h ! k = (if k = p then h ! i else if k = i then h ! p else h ! k)" for k
      using "1.prems"(1,2) p by (intro nth_heap_swap) auto
    have "heap_ok (heap_sift_up ?h p) n \<and> mset (take n (heap_sift_up ?h p)) = mset (take n ?h) \<and>
        length (heap_sift_up ?h p) = length ?h"
    proof (rule "1.IH" [OF _ p_def])
      show "\<forall>j<n. 0 < j \<longrightarrow> j \<noteq> p \<longrightarrow> ordered_at ?h j"
      proof (intro allI impI)
        fix j assume j: "j < n" "0 < j" "j \<noteq> p"
        show "ordered_at ?h j"
        proof (cases "j = i")
          case True
          then show ?thesis using lt p unfolding True ordered_at_def p_def [symmetric] nth by simp
        next
          case False
          have o: "full_key (h ! parent j) \<le> full_key (h ! j)" using "1.prems"(3) j False by (simp add: ordered_at_def)
          consider (1) "parent j = i" | (2) "parent j = p" | (3) "parent j \<noteq> i" "parent j \<noteq> p" by blast
          then show ?thesis
          proof cases
            case 1
            then have "full_key (h ! p) \<le> full_key (h ! j)" using "1.prems"(4) j True unfolding p_def by blast
            then show ?thesis using False j p unfolding ordered_at_def 1 nth by simp
          next
            case 2
            have "full_key (h ! i) \<le> full_key (h ! j)" by (rule order.trans [OF less_imp_le [OF lt] o [unfolded 2]])
            then show ?thesis using False j unfolding ordered_at_def 2 nth by simp
          next
            case 3
            then show ?thesis using o False j unfolding ordered_at_def nth by simp
          qed
        qed
      qed
      show "\<forall>j<n. 0 < j \<longrightarrow> 0 < p \<longrightarrow> parent j = p \<longrightarrow> full_key (?h ! parent p) \<le> full_key (?h ! j)"
      proof (intro allI impI)
        fix j assume j: "j < n" "0 < j" "0 < p" "parent j = p"
        have q: "full_key (h ! parent p) \<le> full_key (h ! p)" using "1.prems"(3) p j(3) by (auto simp: ordered_at_def)
        have pp: "parent p \<noteq> p" "parent p \<noteq> i" using j(3) p by auto
        have "j \<noteq> p" using j by auto
        moreover have "j \<noteq> i \<Longrightarrow> full_key (h ! p) \<le> full_key (h ! j)" using "1.prems"(3) j by (auto simp: ordered_at_def)
        ultimately show "full_key (?h ! parent p) \<le> full_key (?h ! j)"
          using q pp by (cases "j = i") (auto simp: nth intro: order.trans)
      qed
    qed (use True p "1.prems"(2) in \<open>simp_all add: Let_def p_def\<close>)
    then show ?thesis using mset_heap_swap [of i n p h] p "1.prems"(1,2) by (simp add: e)
  qed
qed

text \<open>Sifting down: only the entry at \<open>i\<close> may be larger than its children, and they are not smaller than its parent.\<close>

lemma children: "0 < j \<Longrightarrow> parent j = i \<longleftrightarrow> j = 2 * i + 1 \<or> j = 2 * i + 2"
  by presburger

lemma smallest_child_stays:
  assumes "smallest_child h n i = i" "j < n" "0 < j" "parent j = i"
  shows "ordered_at h j"
proof -
  have "j = 2 * i + 1 \<or> j = 2 * i + 2" using children [OF assms(3)] assms(4) by blast
  then show ?thesis using assms(1,2,4) by (auto simp: smallest_child_def Let_def ordered_at_def action_lt_key not_less split: if_splits)
qed

lemma smallest_child_moves:
  assumes "smallest_child h n i = s" "s \<noteq> i"
  shows "s < n" "0 < s" "parent s = i" "full_key (h ! s) < full_key (h ! i)"
    "j < n \<Longrightarrow> 0 < j \<Longrightarrow> parent j = i \<Longrightarrow> full_key (h ! s) \<le> full_key (h ! j)"
proof -
  show "s < n" "0 < s" "parent s = i" "full_key (h ! s) < full_key (h ! i)"
    using assms by (auto simp: smallest_child_def Let_def action_lt_key split: if_splits)
  show "full_key (h ! s) \<le> full_key (h ! j)" if "j < n" "0 < j" "parent j = i"
  proof -
    have "j = 2 * i + 1 \<or> j = 2 * i + 2" using children [OF that(2)] that(3) by blast
    then show ?thesis using assms that(1)
      by (auto simp: smallest_child_def Let_def action_lt_key not_less split: if_splits)
  qed
qed

lemma sift_down:
  assumes "i < n" "n \<le> length h" "\<forall>j<n. 0 < j \<longrightarrow> parent j \<noteq> i \<longrightarrow> ordered_at h j"
    and "\<forall>j<n. 0 < j \<longrightarrow> 0 < i \<longrightarrow> parent j = i \<longrightarrow> full_key (h ! parent i) \<le> full_key (h ! j)"
  shows "heap_ok (heap_sift_down h n i) n \<and> mset (take n (heap_sift_down h n i)) = mset (take n h) \<and>
    length (heap_sift_down h n i) = length h"
  using assms
proof (induction h n i rule: heap_sift_down.induct)
  case (1 h n i)
  define s where "s = smallest_child h n i"
  show ?case
  proof (cases "s = i")
    case True
    then have "heap_sift_down h n i = h" by (subst heap_sift_down.simps) (simp add: Let_def s_def)
    then show ?thesis using "1.prems" smallest_child_stays [of h n i] True by (auto simp: heap_ok_def s_def)
  next
    case False
    let ?h = "heap_swap i s h"
    note m = smallest_child_moves [OF s_def [symmetric] False]
    have e: "heap_sift_down h n i = heap_sift_down ?h n s" using False by (subst heap_sift_down.simps) (simp add: Let_def s_def)
    have nth: "?h ! k = (if k = s then h ! i else if k = i then h ! s else h ! k)" for k
      using "1.prems"(1,2) m(1) by (intro nth_heap_swap) auto
    have si: "i < s" using m(2,3) by auto
    have "heap_ok (heap_sift_down ?h n s) n \<and> mset (take n (heap_sift_down ?h n s)) = mset (take n ?h) \<and>
        length (heap_sift_down ?h n s) = length ?h"
    proof (rule "1.IH" [OF s_def])
      show "\<forall>j<n. 0 < j \<longrightarrow> parent j \<noteq> s \<longrightarrow> ordered_at ?h j"
      proof (intro allI impI)
        fix j assume j: "j < n" "0 < j" "parent j \<noteq> s"
        consider (i) "j = i" | (child) "j \<noteq> i" "parent j = i" | (other) "j \<noteq> i" "parent j \<noteq> i" by blast
        then show "ordered_at ?h j"
        proof cases
          case i
          have "full_key (h ! parent i) \<le> full_key (h ! s)" using "1.prems"(4) m(1-3) j i by blast
          then show ?thesis using i j si unfolding ordered_at_def nth by auto
        next
          case child
          have "full_key (h ! s) \<le> full_key (h ! j)" by (rule m(5) [OF j(1,2) child(2)])
          then show ?thesis using child(1) False less_imp_le [OF m(4)] unfolding ordered_at_def child(2) nth by simp
        next
          case other
          then have "j \<noteq> s" using m(3) by blast
          moreover have "full_key (h ! parent j) \<le> full_key (h ! j)" using "1.prems"(3) j other by (simp add: ordered_at_def)
          ultimately show ?thesis using other j(3) unfolding ordered_at_def nth by simp
        qed
      qed
      show "\<forall>j<n. 0 < j \<longrightarrow> 0 < s \<longrightarrow> parent j = s \<longrightarrow> full_key (?h ! parent s) \<le> full_key (?h ! j)"
      proof (intro allI impI)
        fix j assume j: "j < n" "0 < j" "parent j = s"
        have "ordered_at h j" using "1.prems"(3) j False by blast
        then have "full_key (h ! s) \<le> full_key (h ! j)" unfolding ordered_at_def j(3) .
        moreover have "j \<noteq> i" "j \<noteq> s" using j si by auto
        ultimately show "full_key (?h ! parent s) \<le> full_key (?h ! j)" using False unfolding m(3) nth by simp
      qed
    qed (use False m(1) "1.prems"(2) in simp_all)
    then show ?thesis using mset_heap_swap [of i n s h] m(1) "1.prems"(1,2) by (simp add: e)
  qed
qed

lemma heap_root_least:
  assumes "heap_ok h n" "j < n"
  shows "full_key (h ! 0) \<le> full_key (h ! j)"
  using assms(2)
proof (induction j rule: less_induct)
  case (less j)
  show ?case
  proof (cases "j = 0")
    case False
    then have "parent j < j" "ordered_at h j" using assms(1) less.prems by (auto simp: heap_ok_def)
    then show ?thesis using less.IH [of "parent j"] less.prems by (auto simp: ordered_at_def intro: order.trans)
  qed simp
qed

section \<open>The queue refines a multiset\<close>

definition pending :: "action_queue \<Rightarrow> scheduled_action multiset" where
  "pending q = mset (take (aq_count q) (aq_actions q))"

definition queue_ok :: "action_queue \<Rightarrow> bool" where
  "queue_ok q \<longleftrightarrow> length (aq_actions q) = ACTION_QUEUE_MAX_CAPACITY \<and> heap_ok (aq_actions q) (aq_count q)"

lemma init_ok: "queue_ok action_queue_init" "pending action_queue_init = {#}"
  by (simp_all add: queue_ok_def heap_ok_def pending_def action_queue_init_def)

lemma schedule_refines:
  assumes "queue_ok q" "action_queue_schedule a q = (ok, q')"
  shows "queue_ok q' \<and> ok = (size (pending q) < ACTION_QUEUE_MAX_CAPACITY) \<and>
    pending q' = (if ok then add_mset (a\<lparr>sa_insertion_sequence := aq_next_insertion_seq q\<rparr>) (pending q) else pending q) \<and>
    aq_next_insertion_seq q' = (if ok then aq_next_insertion_seq q + 1 else aq_next_insertion_seq q)"
proof -
  let ?n = "aq_count q" and ?a = "a\<lparr>sa_insertion_sequence := aq_next_insertion_seq q\<rparr>"
  have n: "?n \<le> length (aq_actions q)" and len: "length (aq_actions q) = ACTION_QUEUE_MAX_CAPACITY"
    using assms(1) by (simp_all add: queue_ok_def heap_ok_def)
  then have sz: "size (pending q) = ?n" by (simp add: pending_def)
  show ?thesis
  proof (cases "?n \<ge> ACTION_QUEUE_MAX_CAPACITY")
    case True
    then have "ok = False" "q' = q\<lparr>aq_overflow_count := aq_overflow_count q + 1\<rparr>" using assms(2) by (simp_all add: action_queue_schedule_def)
    then show ?thesis using assms(1) True sz by (simp add: queue_ok_def pending_def)
  next
    case False
    let ?h = "(aq_actions q)[?n := ?a]"
    have r: "ok" "q' = q\<lparr>aq_actions := heap_sift_up ?h ?n, aq_next_insertion_seq := aq_next_insertion_seq q + 1, aq_count := ?n + 1\<rparr>"
      using assms(2) False by (simp_all add: action_queue_schedule_def Let_def)
    have o: "ordered_at ?h j" if "j < ?n" "0 < j" for j
    proof -
      have "parent j \<noteq> ?n" using that by simp
      then show ?thesis using assms(1) that by (simp add: queue_ok_def heap_ok_def ordered_at_def)
    qed
    have "heap_ok (heap_sift_up ?h ?n) (Suc ?n) \<and> mset (take (Suc ?n) (heap_sift_up ?h ?n)) = mset (take (Suc ?n) ?h) \<and>
        length (heap_sift_up ?h ?n) = length ?h"
      by (rule sift_up) (use False len o in \<open>auto simp: less_Suc_eq\<close>)
    moreover have "take (Suc ?n) ?h = take ?n (aq_actions q) @ [?a]" using False len by (simp add: take_Suc_conv_app_nth)
    ultimately show ?thesis using r len False sz by (simp add: queue_ok_def pending_def)
  qed
qed

text \<open>A removal keeps the heap when the last entry may stand below the parent of the removed one.\<close>

lemma take_last: "0 < n \<Longrightarrow> n \<le> length h \<Longrightarrow> take n h = take (n - 1) h @ [h ! (n - 1)]"
  by (cases n) (simp_all add: take_Suc_conv_app_nth)

lemma remove_at_refines:
  assumes "queue_ok q" "i < aq_count q"
    and "0 < i \<longrightarrow> full_key (aq_actions q ! parent i) \<le> full_key (aq_actions q ! (aq_count q - 1))"
  shows "queue_ok (remove_at i q) \<and> pending q = add_mset (aq_actions q ! i) (pending (remove_at i q)) \<and>
    aq_count (remove_at i q) = aq_count q - 1"
proof -
  define n where "n = aq_count q - 1"
  let ?h = "aq_actions q"
  let ?h1 = "?h[i := ?h ! n]"
  have len: "length ?h = ACTION_QUEUE_MAX_CAPACITY" "aq_count q = Suc n" "Suc n \<le> length ?h" "i \<le> n"
    and heap: "\<forall>j<Suc n. 0 < j \<longrightarrow> ordered_at ?h j"
    using assms(1,2) by (simp_all add: queue_ok_def heap_ok_def n_def)
  have r: "remove_at i q = q\<lparr>aq_actions := (if i < n then heap_sift_down ?h1 n i else ?h1), aq_count := n\<rparr>"
    by (simp add: remove_at_def Let_def n_def)
  have all: "take (Suc n) ?h = take n ?h @ [?h ! n]" using len by (simp add: take_Suc_conv_app_nth)
  show ?thesis
  proof (cases "i < n")
    case False
    then have "i = n" using len by simp
    then have "?h1 = ?h" by simp
    then show ?thesis using r len heap all \<open>i = n\<close> by (simp add: queue_ok_def heap_ok_def pending_def)
  next
    case True
    have nth: "?h1 ! k = (if k = i then ?h ! n else ?h ! k)" for k using True len by (simp add: nth_list_update)
    have "heap_ok (heap_sift_down ?h1 n i) n \<and> mset (take n (heap_sift_down ?h1 n i)) = mset (take n ?h1) \<and>
        length (heap_sift_down ?h1 n i) = length ?h1"
    proof (rule sift_down [OF True])
      show "n \<le> length ?h1" using len by simp
      show "\<forall>j<n. 0 < j \<longrightarrow> parent j \<noteq> i \<longrightarrow> ordered_at ?h1 j"
      proof (intro allI impI)
        fix j assume j: "j < n" "0 < j" "parent j \<noteq> i"
        show "ordered_at ?h1 j"
        proof (cases "j = i")
          case True
          have "full_key (?h ! parent i) \<le> full_key (?h ! n)" using assms(3) j(2) True unfolding n_def by blast
          then show ?thesis using j(3) unfolding ordered_at_def nth True by simp
        next
          case False
          have "full_key (?h ! parent j) \<le> full_key (?h ! j)" using heap j unfolding ordered_at_def by simp
          then show ?thesis using j(3) False unfolding ordered_at_def nth by simp
        qed
      qed
      show "\<forall>j<n. 0 < j \<longrightarrow> 0 < i \<longrightarrow> parent j = i \<longrightarrow> full_key (?h1 ! parent i) \<le> full_key (?h1 ! j)"
      proof (intro allI impI)
        fix j assume j: "j < n" "0 < j" "0 < i" "parent j = i"
        have o: "ordered_at ?h i" "ordered_at ?h j" using heap j len by auto
        have "full_key (?h ! parent i) \<le> full_key (?h ! j)"
          by (rule order.trans [OF o(1) [unfolded ordered_at_def] o(2) [unfolded ordered_at_def j(4)]])
        moreover have "j \<noteq> i" "parent i \<noteq> i" using j by auto
        ultimately show "full_key (?h1 ! parent i) \<le> full_key (?h1 ! j)" unfolding nth by simp
      qed
    qed
    moreover have "?h ! i \<in># mset (take n ?h)"
      using nth_mem_mset [of i "take n ?h"] True len by simp
    then have "add_mset (?h ! i) (mset (take n ?h1)) = mset (take (Suc n) ?h)"
      using True len by (simp add: all mset_update take_update_swap)
    ultimately show ?thesis using r len True by (simp add: queue_ok_def pending_def)
  qed
qed

section \<open>Dispatch in order\<close>

text \<open>The keys of the pending actions, sorted.\<close>

definition sorted_keys :: "scheduled_action multiset \<Rightarrow> (action_key \<times> u64) list" where
  "sorted_keys M = sorted_list_of_multiset (image_mset full_key M)"

lemma sorted_keys_least:
  assumes "\<forall>b \<in># M. full_key a \<le> full_key b"
  shows "sorted_keys (add_mset a M) = full_key a # sorted_keys M"
proof -
  have "\<forall>k \<in> set (sorted_list_of_multiset (image_mset full_key M)). full_key a \<le> k" using assms by auto
  then show ?thesis by (cases "sorted_list_of_multiset (image_mset full_key M)") (simp_all add: sorted_keys_def)
qed

lemma root_least:
  assumes "queue_ok q" "b \<in># pending q"
  shows "full_key (aq_actions q ! 0) \<le> full_key b"
proof -
  obtain j where j: "j < aq_count q" "b = aq_actions q ! j"
    using assms by (auto simp: pending_def in_set_conv_nth queue_ok_def heap_ok_def)
  then show ?thesis using heap_root_least [of "aq_actions q" "aq_count q" j] assms(1) by (simp add: queue_ok_def)
qed

lemma pending_empty: "queue_ok q \<Longrightarrow> pending q = {#} \<longleftrightarrow> aq_count q = 0"
  by (auto simp: pending_def queue_ok_def heap_ok_def)

abbreviation due :: "u64 \<Rightarrow> action_key \<times> u64 \<Rightarrow> bool" where "due now k \<equiv> fst (fst k) \<le> now"

lemma dispatch_in_order:
  assumes "queue_ok q" "dispatch_actions now free q = (out, q')"
  shows "queue_ok q' \<and> pending q = mset out + pending q' \<and>
    map full_key out = take free (takeWhile (due now) (sorted_keys (pending q)))"
  using assms
proof (induction free arbitrary: q out)
  case (Suc free)
  show ?case
  proof (cases "aq_count q = 0")
    case True
    then have "pending q = {#}" using pending_empty [OF Suc.prems(1)] by simp
    then show ?thesis using Suc.prems True by (simp add: sorted_keys_def)
  next
    case False
    let ?top = "aq_actions q ! 0" and ?q = "q\<lparr>aq_total_dispatched := aq_total_dispatched q + 1\<rparr>"
    have ok: "queue_ok ?q" "pending ?q = pending q" using Suc.prems(1) by (simp_all add: queue_ok_def pending_def)
    then have r: "queue_ok (remove_at 0 ?q)" "pending q = add_mset ?top (pending (remove_at 0 ?q))"
      using remove_at_refines [of ?q 0] False by simp_all
    then have least: "\<forall>b \<in># pending (remove_at 0 ?q). full_key ?top \<le> full_key b" using root_least [OF Suc.prems(1)] by auto
    have keys: "sorted_keys (pending q) = full_key ?top # sorted_keys (pending (remove_at 0 ?q))"
      unfolding r(2) by (rule sorted_keys_least [OF least])
    have d: "due now (full_key ?top) \<longleftrightarrow> \<not> sa_due_us ?top > now" by (simp add: full_key_def action_key_def not_less)
    show ?thesis
    proof (cases "sa_due_us ?top > now")
      case True
      then have "takeWhile (due now) (sorted_keys (pending q)) = []" using d unfolding keys by simp
      then show ?thesis using Suc.prems True False by simp
    next
      case due: False
      obtain out1 where o: "dispatch_actions now free (remove_at 0 ?q) = (out1, q')" "out = ?top # out1"
        using Suc.prems(2) False due by (auto simp: Let_def split: prod.splits)
      have "due now (full_key ?top)" using d due by blast
      then show ?thesis using Suc.IH [OF r(1) o(1)] r(2) o(2) keys by simp
    qed
  qed
qed simp

text \<open>Scheduling a list of actions into a queue; the insertion sequence of an action is its number.\<close>

definition schedule_all :: "scheduled_action list \<Rightarrow> action_queue \<Rightarrow> action_queue" where
  "schedule_all xs q = fold (\<lambda>a q. snd (action_queue_schedule a q)) xs q"

fun numbered :: "u64 \<Rightarrow> scheduled_action list \<Rightarrow> scheduled_action list" where
  "numbered k [] = []"
| "numbered k (a # xs) = a\<lparr>sa_insertion_sequence := k\<rparr> # numbered (k + 1) xs"

lemma schedule_all_refines:
  assumes "queue_ok q" "size (pending q) + length xs \<le> ACTION_QUEUE_MAX_CAPACITY"
  shows "queue_ok (schedule_all xs q) \<and> pending (schedule_all xs q) = pending q + mset (numbered (aq_next_insertion_seq q) xs)"
  using assms
proof (induction xs arbitrary: q)
  case (Cons a xs)
  obtain ok q1 where s: "action_queue_schedule a q = (ok, q1)" by fastforce
  note r = schedule_refines [OF Cons.prems(1) s]
  have "ok" using r Cons.prems(2) by simp
  then show ?case using r s Cons.IH [of q1] Cons.prems(2) by (simp add: schedule_all_def)
qed (simp add: schedule_all_def)

text \<open>A stable sort by the first five components orders numbered actions by all six.\<close>

lemma numbered_key: "map action_key (numbered k xs) = map action_key xs"
  by (induction xs arbitrary: k) (simp_all add: action_key_def)

lemma numbered_seq:
  assumes "uint k + int (length xs) < 2 ^ 64" "a \<in> set (numbered k xs)"
  shows "k \<le> sa_insertion_sequence a"
  using assms
proof (induction xs arbitrary: k)
  case (Cons x xs)
  have s: "uint (k + 1) = uint k + 1" using Cons.prems(1) by (simp add: uint_word_ariths)
  then have "k \<le> k + 1" by (simp add: word_le_def)
  then show ?case using Cons.IH [of "k + 1"] Cons.prems s by (auto intro: order.trans)
qed simp

lemma full_key_le:
  "full_key a \<le> full_key b \<longleftrightarrow>
    action_key a < action_key b \<or> action_key a \<le> action_key b \<and> sa_insertion_sequence a \<le> sa_insertion_sequence b"
  unfolding full_key_def by (subst less_eq_prod_def) (simp only: fst_conv snd_conv)

lemma insort_full:
  assumes "sorted (map full_key ys)" "\<forall>b \<in> set ys. sa_insertion_sequence a \<le> sa_insertion_sequence b"
  shows "sorted (map full_key (insort_key action_key a ys))"
  using assms
proof (induction ys)
  case (Cons y ys)
  show ?case
  proof (cases "action_key a \<le> action_key y")
    case True
    have le: "full_key a \<le> full_key z" if "z \<in> set (y # ys)" for z
    proof -
      have "full_key y \<le> full_key z" using Cons.prems(1) that by auto
      then have "action_key y \<le> action_key z" unfolding full_key_le by (blast intro: less_imp_le)
      then have "action_key a \<le> action_key z" using True by (rule order.trans [rotated])
      then show ?thesis using Cons.prems(2) that unfolding full_key_le by blast
    qed
    then show ?thesis using True Cons.prems(1) by simp
  next
    case False
    then have lt: "full_key y \<le> full_key a" unfolding full_key_le not_le by (rule disjI1)
    have "sorted (map full_key (insort_key action_key a ys))" using Cons by simp
    then show ?thesis using False lt Cons.prems(1) by (auto simp: set_insort_key)
  qed
qed simp

lemma sort_numbered_full:
  assumes "uint k + int (length xs) < 2 ^ 64"
  shows "sorted (map full_key (sort_key action_key (numbered k xs)))"
  using assms
proof (induction xs arbitrary: k)
  case (Cons x xs)
  have s: "uint (k + 1) = uint k + 1" using Cons.prems by (simp add: uint_word_ariths)
  then have le: "k \<le> k + 1" by (simp add: word_le_def)
  have "\<forall>b \<in> set (numbered (k + 1) xs). k \<le> sa_insertion_sequence b"
    using numbered_seq [of "k + 1" xs] s Cons.prems le by (auto intro: order.trans)
  then show ?case using insort_full [of "sort_key action_key (numbered (k + 1) xs)" "x\<lparr>sa_insertion_sequence := k\<rparr>"]
      Cons.IH [of "k + 1"] s Cons.prems by simp
qed simp

definition strip :: "scheduled_action \<Rightarrow> scheduled_action" where
  "strip a = a\<lparr>sa_insertion_sequence := 0\<rparr>"

lemma strip_key: "action_key (strip a) = action_key a"
  by (simp add: strip_def action_key_def)

lemma sort_strip: "map strip (sort_key action_key xs) = sort_key action_key (map strip xs)"
proof (induction xs)
  case (Cons x xs)
  have "map strip (insort_key action_key x ys) = insort_key action_key (strip x) (map strip ys)" for ys
    by (induction ys) (simp_all add: strip_key)
  then show ?case using Cons by simp
qed simp

lemma strip_numbered: "map strip (numbered k xs) = map strip xs"
  by (induction xs arbitrary: k) (simp_all add: strip_def)

lemma numbered_inj: "uint k + int (length xs) < 2 ^ 64 \<Longrightarrow> distinct (map full_key (numbered k xs))"
proof (induction xs arbitrary: k)
  case (Cons x xs)
  have s: "uint (k + 1) = uint k + 1" using Cons.prems by (simp add: uint_word_ariths)
  have "sa_insertion_sequence b \<noteq> k" if "b \<in> set (numbered (k + 1) xs)" for b
    using numbered_seq [of "k + 1" xs b] that s Cons.prems by (auto simp: word_le_def)
  then show ?case using Cons.IH [of "k + 1"] s Cons.prems by (auto simp: full_key_def)
qed simp

lemma sorted_keys_numbered:
  assumes "uint k + int (length xs) < 2 ^ 64"
  shows "sorted_keys (mset (numbered k xs)) = map full_key (sort_key action_key (numbered k xs))"
proof -
  have "mset (map full_key (sort_key action_key (numbered k xs))) = mset (map full_key (numbered k xs))" by simp
  from properties_for_sort [OF this sort_numbered_full [OF assms]] show ?thesis
    unfolding sorted_keys_def by (metis mset_map sorted_list_of_multiset_mset)
qed

section \<open>The properties\<close>

text \<open>C19: the queue is a stable sort.  After scheduling up to 64 actions into an empty queue, a dispatch returns,
  up to the room of the caller, the due ones in the order of due time, class, resource, generation and source
  sequence, and in the order of their scheduling where these agree.\<close>

theorem dispatch_is_stable_sort:
  assumes "length xs \<le> ACTION_QUEUE_MAX_CAPACITY"
    and "action_queue_dispatch_due now max_out (schedule_all xs action_queue_init) = (out, q')"
  shows "map strip out = take max_out (takeWhile (\<lambda>a. sa_due_us a \<le> now) (sort_key action_key (map strip xs)))"
proof -
  let ?q = "schedule_all xs action_queue_init" and ?ys = "sort_key action_key (numbered 0 xs)"
  have len: "uint (0 :: u64) + int (length xs) < 2 ^ 64" using assms(1) by simp
  have q: "queue_ok ?q" "pending ?q = mset (numbered 0 xs)"
    using schedule_all_refines [OF init_ok(1), of xs] init_ok(2) assms(1) by (simp_all add: action_queue_init_def)
  note d = dispatch_in_order [OF q(1) assms(2) [unfolded action_queue_dispatch_due_def]]
  let ?zs = "take max_out (takeWhile (\<lambda>a. sa_due_us a \<le> now) ?ys)"
  have t: "takeWhile (due now) (map full_key ?ys) = map full_key (takeWhile (\<lambda>a. sa_due_us a \<le> now) ?ys)"
    by (simp add: takeWhile_map comp_def full_key_def action_key_def)
  have "map full_key out = map full_key ?zs"
    using d unfolding q(2) sorted_keys_numbered [OF len] t by (simp add: take_map)
  moreover have "set out \<union> set ?zs \<subseteq> set (numbered 0 xs)"
  proof -
    have "mset (numbered 0 xs) = mset out + pending q'" using d q(2) by simp
    from arg_cong [OF this, of set_mset] have "set out \<subseteq> set (numbered 0 xs)" by auto
    moreover have "set ?zs \<subseteq> set ?ys" by (auto dest!: in_set_takeD set_takeWhileD)
    ultimately show ?thesis by simp
  qed
  then have "inj_on full_key (set out \<union> set ?zs)"
    using numbered_inj [OF len] unfolding distinct_map by (blast intro: inj_on_subset)
  ultimately have "out = ?zs" by (rule map_inj_on)
  moreover have "map strip ?zs = take max_out (takeWhile (\<lambda>a. sa_due_us a \<le> now) (map strip ?ys))"
    by (simp add: takeWhile_map comp_def strip_def take_map)
  ultimately show ?thesis by (simp add: sort_strip strip_numbered)
qed

definition action_at :: "u64 \<Rightarrow> u32 \<Rightarrow> scheduled_action" where
  "action_at t i = zero_action\<lparr>sa_due_us := t, sa_operation_id := i\<rparr>"

lemma dispatch_is_stable_sort_witness:
  "map sa_operation_id (map strip (fst (action_queue_dispatch_due 5 3
     (schedule_all [action_at 5 1, action_at 9 2, action_at 2 3, action_at 5 4, action_at 1 5] action_queue_init)))) = [5, 3, 1]"
proof -
  let ?xs = "[action_at 5 1, action_at 9 2, action_at 2 3, action_at 5 4, action_at 1 5]"
  have l: "length ?xs \<le> ACTION_QUEUE_MAX_CAPACITY" by simp
  have s: "map sa_operation_id (take 3 (takeWhile (\<lambda>a. sa_due_us a \<le> 5) (sort_key action_key (map strip ?xs)))) = [5, 3, 1]"
    by code_simp
  obtain out q' where e: "action_queue_dispatch_due 5 3 (schedule_all ?xs action_queue_init) = (out, q')" by (rule prod.exhaust)
  show ?thesis unfolding e fst_conv dispatch_is_stable_sort [OF l e] by (rule s)
qed

text \<open>Runs of schedules, dispatches and cancellations.\<close>

datatype queue_op = Schedule scheduled_action | Dispatch u64 nat | Cancel u32 u32

fun queue_step :: "queue_op \<Rightarrow> action_queue \<Rightarrow> action_queue" where
  "queue_step (Schedule a) q = snd (action_queue_schedule a q)"
| "queue_step (Dispatch now n) q = snd (action_queue_dispatch_due now n q)"
| "queue_step (Cancel i g) q = snd (action_queue_cancel i g q)"

text \<open>The next deadline is the least one.\<close>

lemma next_deadline_least:
  assumes "queue_ok q"
  shows "case action_queue_next_deadline q of None \<Rightarrow> pending q = {#}
     | Some t \<Rightarrow> t \<in># image_mset sa_due_us (pending q) \<and> (\<forall>b \<in># pending q. t \<le> sa_due_us b)"
proof (cases "aq_count q = 0")
  case True
  then show ?thesis using pending_empty [OF assms] by (simp add: action_queue_next_deadline_def)
next
  case False
  let ?top = "aq_actions q ! 0"
  have "?top \<in># pending q" using False assms
    by (auto simp: pending_def in_set_conv_nth queue_ok_def heap_ok_def intro!: exI [of _ 0])
  moreover have "sa_due_us ?top \<le> sa_due_us b" if "b \<in># pending q" for b
  proof -
    have "action_key ?top \<le> action_key b" using root_least [OF assms that] unfolding full_key_le by (blast intro: less_imp_le)
    then show ?thesis unfolding action_key_def by (subst (asm) less_eq_prod_def) (auto intro: less_imp_le)
  qed
  ultimately show ?thesis using False by (auto simp: action_queue_next_deadline_def)
qed

text \<open>As long as nothing is cancelled, every dispatch returns the least pending actions that are due, in order,
  leaves the others, and the next deadline is the earliest one.\<close>

theorem dispatch_returns_least_due:
  assumes "\<forall>op \<in> set ops. \<forall>i g. op \<noteq> Cancel i g" "q = fold queue_step ops action_queue_init"
    and "action_queue_dispatch_due now max_out q = (out, q')"
  shows "pending q = mset out + pending q' \<and>
    map full_key out = take max_out (takeWhile (\<lambda>k. fst (fst k) \<le> now) (sorted_keys (pending q))) \<and>
    (case action_queue_next_deadline q' of None \<Rightarrow> pending q' = {#}
     | Some t \<Rightarrow> t \<in># image_mset sa_due_us (pending q') \<and> (\<forall>b \<in># pending q'. t \<le> sa_due_us b))"
proof -
  have "queue_ok (fold queue_step ops q0)" if "queue_ok q0" for q0
    using that assms(1)
  proof (induction ops arbitrary: q0)
    case (Cons op ops)
    have "queue_ok (queue_step op q0)"
    proof (cases op)
      case (Schedule a)
      then show ?thesis using schedule_refines [OF Cons.prems(1), of a] by (cases "action_queue_schedule a q0") auto
    next
      case (Dispatch now n)
      then show ?thesis using dispatch_in_order [OF Cons.prems(1), of now n]
        by (cases "dispatch_actions now n q0") (auto simp: action_queue_dispatch_due_def)
    qed (use Cons.prems(2) in simp)
    then show ?case using Cons by simp
  qed simp
  then have q: "queue_ok q" using init_ok(1) assms(2) by blast
  note d = dispatch_in_order [OF q assms(3) [unfolded action_queue_dispatch_due_def]]
  show ?thesis using d next_deadline_least [of q'] by blast
qed

lemma dispatch_returns_least_due_witness:
  "action_queue_next_deadline (snd (action_queue_dispatch_due 5 1
     (fold queue_step [Schedule (action_at 5 1), Schedule (action_at 2 2), Dispatch 1 4, Schedule (action_at 9 3)] action_queue_init))) = Some 5"
proof -
  let ?ops = "[Schedule (action_at 5 1), Schedule (action_at 2 2), Dispatch 1 4, Schedule (action_at 9 3)]"
  let ?q = "fold queue_step ?ops action_queue_init"
  have ops: "\<forall>op \<in> set ?ops. \<forall>i g. op \<noteq> Cancel i g" by simp
  obtain out q' where e: "action_queue_dispatch_due 5 1 ?q = (out, q')" by (rule prod.exhaust)
  have "map sa_due_us (fst (action_queue_dispatch_due 5 1 ?q)) = [2]" "image_mset sa_due_us (pending ?q) = {#2, 5, 9#}" by code_simp+
  then have p: "map sa_due_us out = [2]" "image_mset sa_due_us (pending ?q) = {#2, 5, 9#}" unfolding e by simp_all
  have r: "pending ?q = mset out + pending q'" and n: "case action_queue_next_deadline q' of None \<Rightarrow> pending q' = {#}
     | Some t \<Rightarrow> t \<in># image_mset sa_due_us (pending q') \<and> (\<forall>b \<in># pending q'. t \<le> sa_due_us b)"
    using dispatch_returns_least_due [OF ops refl e] by blast+
  have "mset (map sa_due_us out) + image_mset sa_due_us (pending q') = {#2, 5, 9#}" using p(2) unfolding r by simp
  then have rest: "image_mset sa_due_us (pending q') = {#5, 9#}" unfolding p(1) by simp
  then have "(5 :: u64) \<in># image_mset sa_due_us (pending q')" by simp
  then obtain b where "b \<in># pending q'" "sa_due_us b = 5" by auto
  then show ?thesis using n rest unfolding e snd_conv by (cases "action_queue_next_deadline q'") auto
qed

section \<open>Cancellation\<close>

lemma sift_down_mset:
  assumes "i < n" "n \<le> length h"
  shows "mset (take n (heap_sift_down h n i)) = mset (take n h) \<and> length (heap_sift_down h n i) = length h"
  using assms
proof (induction h n i rule: heap_sift_down.induct)
  case (1 h n i)
  define s where "s = smallest_child h n i"
  show ?case
  proof (cases "s = i")
    case True
    then show ?thesis by (subst (1 2) heap_sift_down.simps) (simp add: Let_def s_def)
  next
    case False
    have s: "s < n" using smallest_child_cases [of h n i] False by (auto simp: s_def)
    have "heap_sift_down h n i = heap_sift_down (heap_swap i s h) n s" using False by (subst heap_sift_down.simps) (simp add: Let_def s_def)
    then show ?thesis using "1.IH" [OF s_def] False s "1.prems" mset_heap_swap [of i n s h] by simp
  qed
qed

lemma remove_at_mset:
  assumes "i < aq_count q" "aq_count q \<le> length (aq_actions q)"
  shows "pending q = add_mset (aq_actions q ! i) (pending (remove_at i q))"
proof -
  obtain n where n: "aq_count q = Suc n" using assms(1) by (cases "aq_count q") auto
  let ?h = "aq_actions q"
  have all: "take (Suc n) ?h = take n ?h @ [?h ! n]" using assms n by (simp add: take_Suc_conv_app_nth)
  show ?thesis
  proof (cases "i < n")
    case True
    have "?h ! i \<in># mset (take n ?h)" using nth_mem_mset [of i "take n ?h"] True assms n by simp
    then show ?thesis using sift_down_mset [of i n "?h[i := ?h ! n]"] True assms n
      by (simp add: pending_def remove_at_def Let_def all mset_update take_update_swap)
  next
    case False
    then have "i = n" using assms n by simp
    then show ?thesis using n by (simp add: pending_def remove_at_def Let_def all)
  qed
qed

lemma cancel_scan_effect:
  assumes "cancel_scan oid g i n q = (ok, q')" "i + n = aq_count q" "aq_count q \<le> length (aq_actions q)"
  shows "if ok then \<exists>a. sa_operation_id a = oid \<and> sa_owner_generation a = g \<and> pending q = add_mset a (pending q')
    else pending q' = pending q \<and> aq_actions q' = aq_actions q"
  using assms
proof (induction n arbitrary: i)
  case (Suc n)
  show ?case
  proof (cases "sa_operation_id (aq_actions q ! i) = oid")
    case False
    then show ?thesis using Suc.IH [of "i + 1"] Suc.prems by simp
  next
    case True
    show ?thesis
    proof (cases "sa_owner_generation (aq_actions q ! i) = g")
      case False
      then show ?thesis using Suc.prems True by (auto simp: pending_def)
    next
      case gen: True
      let ?q = "q\<lparr>aq_cancel_count := aq_cancel_count q + 1\<rparr>"
      have "ok" "q' = remove_at i ?q" using Suc.prems(1) True gen by simp_all
      moreover have "pending q = add_mset (aq_actions q ! i) (pending (remove_at i ?q))"
        using remove_at_mset [of i ?q] Suc.prems(2,3) by (simp add: pending_def)
      ultimately show ?thesis using True gen by auto
    qed
  qed
qed simp

text \<open>A cancellation removes one action with the given operation and generation, or nothing.\<close>

lemma cancel_removes_one:
  assumes "queue_ok q" "action_queue_cancel oid g q = (ok, q')"
  shows "if ok then \<exists>a. sa_operation_id a = oid \<and> sa_owner_generation a = g \<and> pending q = add_mset a (pending q')
    else pending q' = pending q"
  using cancel_scan_effect [of oid g 0 "aq_count q" q ok q'] assms
  by (auto simp: action_queue_cancel_def queue_ok_def heap_ok_def split: if_splits)

lemma heap_sift_down_stays:
  assumes "smallest_child h n i = i"
  shows "heap_sift_down h n i = h"
  using assms by (subst heap_sift_down.simps) (simp add: Let_def)

lemma no_smaller_child:
  assumes "\<And>j. j < n \<Longrightarrow> j = 2 * i + 1 \<or> j = 2 * i + 2 \<Longrightarrow> \<not> action_lt (h ! j) (h ! i)"
  shows "smallest_child h n i = i"
  using assms [of "2 * i + 1"] assms [of "2 * i + 2"] by (simp add: smallest_child_def Let_def)

lemma remove_at_breaks:
  assumes "queue_ok q" "i < aq_count q" "0 < i" "full_key (aq_actions q ! (aq_count q - 1)) < full_key (aq_actions q ! parent i)"
  shows "i < aq_count (remove_at i q) \<and> full_key (aq_actions (remove_at i q) ! i) < full_key (aq_actions (remove_at i q) ! parent i)"
proof -
  define n where "n = aq_count q - 1"
  let ?h = "aq_actions q" and ?h' = "(aq_actions q)[i := aq_actions q ! n]"
  have ord: "full_key (?h ! parent j) \<le> full_key (?h ! j)" if "j < aq_count q" "0 < j" for j
    using assms(1) that by (simp add: queue_ok_def heap_ok_def ordered_at_def)
  have len: "aq_count q \<le> length ?h" using assms(1) by (simp add: queue_ok_def heap_ok_def)
  have lt: "full_key (?h ! n) < full_key (?h ! parent i)" using assms(4) by (simp add: n_def)
  have "i \<noteq> n" using ord [OF assms(2,3)] lt by auto
  then have i: "i < n" using assms(2) by (simp add: n_def)
  have above: "full_key (?h ! n) < full_key (?h ! j)" if "j < n" "0 < j" "parent j = i" for j
    using lt ord [OF assms(2,3)] ord [of j] that by (auto simp: n_def intro: less_le_trans)
  have "\<not> action_lt (?h' ! j) (?h' ! i)" if "j < n" "j = 2 * i + 1 \<or> j = 2 * i + 2" for j
  proof -
    have "0 < j" "parent j = i" "j \<noteq> i" using that children [of j i] by auto
    then show ?thesis using above [of j] that(1) i len by (simp add: action_lt_key n_def)
  qed
  then have "smallest_child ?h' n i = i" by (rule no_smaller_child)
  then have "heap_sift_down ?h' n i = ?h'" by (rule heap_sift_down_stays)
  then have r: "aq_actions (remove_at i q) = ?h'" "aq_count (remove_at i q) = n" using i by (simp_all add: remove_at_def n_def Let_def)
  have "parent i \<noteq> i" "i < length ?h" using assms(2,3) len by auto
  then show ?thesis using lt i by (simp add: r)
qed

text \<open>The entry that a cancellation finds.\<close>

definition first_with :: "u32 \<Rightarrow> action_queue \<Rightarrow> nat \<Rightarrow> bool" where
  "first_with oid q i \<longleftrightarrow> i < aq_count q \<and> sa_operation_id (aq_actions q ! i) = oid \<and> (\<forall>j<i. sa_operation_id (aq_actions q ! j) \<noteq> oid)"

lemma cancel_scan_finds:
  assumes "cancel_scan oid g i n q = (ok, q')" "i + n = aq_count q" "\<forall>j<i. sa_operation_id (aq_actions q ! j) \<noteq> oid"
  shows "ok \<and> (\<exists>k. first_with oid q k \<and> sa_owner_generation (aq_actions q ! k) = g \<and> q' = remove_at k (q\<lparr>aq_cancel_count := aq_cancel_count q + 1\<rparr>))
    \<or> \<not> ok \<and> aq_actions q' = aq_actions q \<and> aq_count q' = aq_count q \<and>
      (\<forall>k. first_with oid q k \<longrightarrow> sa_owner_generation (aq_actions q ! k) \<noteq> g)"
  using assms
proof (induction n arbitrary: i)
  case 0
  then show ?case by (auto simp: first_with_def)
next
  case (Suc n)
  show ?case
  proof (cases "sa_operation_id (aq_actions q ! i) = oid")
    case False
    then show ?thesis using Suc.IH [of "i + 1"] Suc.prems by (simp add: less_Suc_eq)
  next
    case True
    have f: "first_with oid q k \<longleftrightarrow> k = i" for k
      using True Suc.prems(2,3) by (auto simp: first_with_def) (metis linorder_neqE_nat)
    show ?thesis using Suc.prems(1) True by (auto simp: f split: if_splits)
  qed
qed

text \<open>The entry that takes the place of a removed one is smaller than the parent of that place.\<close>

definition last_below_parent :: "action_queue \<Rightarrow> nat \<Rightarrow> bool" where
  "last_below_parent q i \<longleftrightarrow> 0 < i \<and> full_key (aq_actions q ! (aq_count q - 1)) < full_key (aq_actions q ! parent i)"

lemma sound_queue_dispatches:
  "queue_ok q \<Longrightarrow> map full_key (fst (action_queue_dispatch_due now max_out q)) =
     take max_out (takeWhile (\<lambda>k. fst (fst k) \<le> now) (sorted_keys (pending q)))"
  using dispatch_in_order [of q now max_out] by (cases "dispatch_actions now max_out q") (auto simp: action_queue_dispatch_due_def)

lemma unsound_at:
  "i < aq_count q \<Longrightarrow> 0 < i \<Longrightarrow> full_key (aq_actions q ! i) < full_key (aq_actions q ! parent i) \<Longrightarrow> \<not> queue_ok q"
  by (auto simp: queue_ok_def heap_ok_def ordered_at_def)

text \<open>C21: a cancellation of a sound queue removes the first action with the given operation, if its generation is the expected
  one, and otherwise nothing.  The queue stays sound exactly when the last entry, which takes the freed place and only sifts down, is not smaller
  than the parent of that place; then every dispatch goes on to return the least due actions in order.  When it is smaller, it stays
  below its larger parent (code bug: it has to sift up, and a due action can be withheld, as the lemma after the witness shows).\<close>

theorem cancel_breaks_order_iff:
  assumes "queue_ok q" "action_queue_cancel oid g q = (ok, q')"
  shows "(ok \<longleftrightarrow> (\<exists>i. first_with oid q i \<and> sa_owner_generation (aq_actions q ! i) = g)) \<and>
    (\<not> ok \<longrightarrow> pending q' = pending q) \<and>
    (\<forall>i. ok \<and> first_with oid q i \<longrightarrow> pending q = add_mset (aq_actions q ! i) (pending q')) \<and>
    (queue_ok q' \<longleftrightarrow> \<not> (\<exists>i. ok \<and> first_with oid q i \<and> last_below_parent q i)) \<and>
    (\<forall>i. ok \<and> first_with oid q i \<and> last_below_parent q i \<longrightarrow>
       i < aq_count q' \<and> full_key (aq_actions q' ! i) < full_key (aq_actions q' ! parent i)) \<and>
    (queue_ok q' \<longrightarrow> (\<forall>now max_out. map full_key (fst (action_queue_dispatch_due now max_out q')) =
       take max_out (takeWhile (\<lambda>k. fst (fst k) \<le> now) (sorted_keys (pending q')))))"
proof -
  have uniq: "i = j" if "first_with oid q i" "first_with oid q j" for i j
    using that by (auto simp: first_with_def) (metis linorder_neqE_nat)
  have "\<forall>j<0. sa_operation_id (aq_actions q ! j) \<noteq> oid" by simp
  from cancel_scan_finds [OF assms(2) [unfolded action_queue_cancel_def] _ this]
  consider (found) k where "ok" "first_with oid q k" "sa_owner_generation (aq_actions q ! k) = g"
      "q' = remove_at k (q\<lparr>aq_cancel_count := aq_cancel_count q + 1\<rparr>)"
    | (refused) "\<not> ok" "aq_actions q' = aq_actions q" "aq_count q' = aq_count q" "\<forall>k. first_with oid q k \<longrightarrow> sa_owner_generation (aq_actions q ! k) \<noteq> g"
    by auto
  then show ?thesis
  proof cases
    case refused
    then have "queue_ok q'" "pending q' = pending q" using assms(1) by (auto simp: pending_def queue_ok_def)
    then show ?thesis using refused sound_queue_dispatches by blast
  next
    case found
    let ?q = "q\<lparr>aq_cancel_count := aq_cancel_count q + 1\<rparr>"
    have k: "k < aq_count ?q" "queue_ok ?q" using found(2) assms(1) by (simp_all add: first_with_def queue_ok_def)
    have p: "pending q = add_mset (aq_actions q ! k) (pending q')"
      using remove_at_mset [OF k(1)] k(2) by (simp add: found(4) pending_def queue_ok_def heap_ok_def)
    have broken: "k < aq_count q' \<and> full_key (aq_actions q' ! k) < full_key (aq_actions q' ! parent k)" "0 < k"
      if "last_below_parent q k"
      using remove_at_breaks [OF k(2,1)] that by (simp_all add: found(4) last_below_parent_def)
    have "queue_ok q'" if "\<not> last_below_parent q k"
      using remove_at_refines [OF k(2,1)] that by (auto simp: found(4) not_less last_below_parent_def)
    then have sound: "queue_ok q' \<longleftrightarrow> \<not> last_below_parent q k" using broken unsound_at by blast
    have "i = k" if "first_with oid q i" for i using uniq found(2) that by blast
    then show ?thesis using found(1-3) p broken sound sound_queue_dispatches by blast
  qed
qed

definition seven_actions :: action_queue where
  "seven_actions = schedule_all [action_at 1 1, action_at 10 2, action_at 2 3, action_at 11 4, action_at 12 5, action_at 20 6, action_at 3 7] action_queue_init"

lemma cancel_breaks_order_iff_witness:
  "let q' = snd (action_queue_cancel 4 0 seven_actions)
   in \<not> queue_ok q' \<and> 3 < aq_count q' \<and> full_key (aq_actions q' ! 3) < full_key (aq_actions q' ! parent 3)"
proof -
  have q: "queue_ok seven_actions"
    unfolding seven_actions_def by (rule schedule_all_refines [OF init_ok(1), THEN conjunct1]) (simp add: init_ok(2))
  have f: "first_with 4 seven_actions 3 \<and> last_below_parent seven_actions 3" by code_simp
  obtain ok q' where c: "action_queue_cancel 4 0 seven_actions = (ok, q')" by (rule prod.exhaust)
  have "fst (action_queue_cancel 4 0 seven_actions)" by code_simp
  then have ok: "ok" by (simp add: c)
  have "\<not> queue_ok q' \<and> 3 < aq_count q' \<and> full_key (aq_actions q' ! 3) < full_key (aq_actions q' ! parent 3)"
    using cancel_breaks_order_iff [OF q c] f ok by blast
  then show ?thesis unfolding c snd_conv Let_def .
qed

text \<open>What follows from the broken order: after the seven schedules, the cancellation and a
  dispatch an action that is due is pending, but a dispatch returns nothing and the next deadline is later.\<close>

lemma cancel_withholds_due_action:
  "let q = fold queue_step
      [Schedule (action_at 1 1), Schedule (action_at 10 2), Schedule (action_at 2 3), Schedule (action_at 11 4),
       Schedule (action_at 12 5), Schedule (action_at 20 6), Schedule (action_at 3 7), Cancel 4 0, Dispatch 2 2] action_queue_init
   in (\<exists>a \<in># pending q. sa_due_us a \<le> 5) \<and>
      fst (action_queue_dispatch_due 5 ACTION_QUEUE_MAX_CAPACITY q) = [] \<and> action_queue_next_deadline q = Some 10"
  by code_simp

end
