(* ===== verification/Spi_Bus.thy ===== *)
theory Spi_Bus
  imports Prelude "HOL-Library.Multiset"
begin

text \<open>
  The SPI bus manager (infrastructure/bus/spi_bus_manager.c): transactions of several clients, one
  active and up to eight pending.  It differs from the I2C manager: clients choose the transaction ids,
  start the transfers themselves, and a timeout does not change the generation of the bus.

  The answer of a client's start function is an argument, and so is the completion callback, which works on the
  state of the clients and the bus; a start function that calls the bus itself is left out.  The trace records which transactions were accepted and which
  completions were delivered.
\<close>

section \<open>Data\<close>

abbreviation SPI_BUS_MAX_CLIENTS :: nat where "SPI_BUS_MAX_CLIENTS \<equiv> 4"
abbreviation SPI_BUS_PENDING_CAPACITY :: nat where "SPI_BUS_PENDING_CAPACITY \<equiv> 8"

datatype spi_transaction_result =
  SPI_TRANSACTION_OK | SPI_TRANSACTION_TIMEOUT | SPI_TRANSACTION_FAILED | SPI_TRANSACTION_CANCELLED

record spi_completion =
  sn_client_id :: u32
  sn_transaction_id :: u32
  sn_correlation_id :: u32
  sn_client_generation :: u32
  sn_bus_generation :: u32
  sn_result :: spi_transaction_result

record spi_client =
  sc_client_id :: u32
  sc_chip_select :: u8
  sc_client_generation :: u32
  sc_start :: bool
  sc_complete :: bool

record spi_pending =
  sp_client_id :: u32
  sp_transaction_id :: u32
  sp_correlation_id :: u32
  sp_client_generation :: u32
  sp_chip_select :: u8
  sp_tx :: "bytes option"
  sp_rx :: "u32 option"
  sp_length :: u16
  sp_deadline_us :: u64
  sp_priority :: u8
  sp_admission_sequence :: u64

text \<open>The arguments of \<open>spi_bus_submit\<close>.\<close>

record spi_request =
  sr_client_id :: u32
  sr_transaction_id :: u32
  sr_correlation_id :: u32
  sr_tx :: "bytes option"
  sr_rx :: "u32 option"
  sr_length :: u16
  sr_deadline_us :: u64
  sr_priority :: u8

datatype spi_event = Spi_accepted u32 | Spi_started u32 u32 bool | Spi_notified spi_completion

record spi_bus =
  sb_clients :: "spi_client list"
  sb_active :: spi_pending
  sb_pending :: "spi_pending list"
  sb_busy :: bool
  sb_bus_generation :: u32
  sb_next_admission_sequence :: u64
  sb_completed_count :: u32
  sb_timeout_count :: u32
  sb_stale_completion_count :: u32
  sb_rejected_count :: u32
  sb_trace :: "spi_event list"

text \<open>The start function of a client on a transaction, with the generation of the bus.\<close>

type_synonym spi_starter = "spi_pending \<Rightarrow> u32 \<Rightarrow> bool"
type_synonym 'c spi_callback = "spi_completion \<Rightarrow> 'c \<Rightarrow> spi_bus \<Rightarrow> 'c \<times> spi_bus"

definition zero_spi :: spi_pending where
  "zero_spi = \<lparr>sp_client_id = 0, sp_transaction_id = 0, sp_correlation_id = 0, sp_client_generation = 0, sp_chip_select = 0,
     sp_tx = None, sp_rx = None, sp_length = 0, sp_deadline_us = 0, sp_priority = 0, sp_admission_sequence = 0\<rparr>"

section \<open>Clients, starting and arbitration\<close>

definition spi_find_client :: "spi_bus \<Rightarrow> u32 \<Rightarrow> spi_client option" where
  "spi_find_client b client_id = find (\<lambda>c. sc_client_id c = client_id) (sb_clients b)"

definition spi_emit :: "spi_event \<Rightarrow> spi_bus \<Rightarrow> spi_bus" where
  "spi_emit e b = b\<lparr>sb_trace := sb_trace b @ [e]\<rparr>"

definition spi_completion_of :: "spi_bus \<Rightarrow> spi_pending \<Rightarrow> spi_transaction_result \<Rightarrow> spi_completion" where
  "spi_completion_of b t r = \<lparr>sn_client_id = sp_client_id t, sn_transaction_id = sp_transaction_id t,
     sn_correlation_id = sp_correlation_id t, sn_client_generation = sp_client_generation t,
     sn_bus_generation = sb_bus_generation b, sn_result = r\<rparr>"

definition spi_notify :: "'c spi_callback \<Rightarrow> spi_pending \<Rightarrow> spi_transaction_result \<Rightarrow> 'c \<times> spi_bus \<Rightarrow> 'c \<times> spi_bus" where
  "spi_notify cb t r x =
     (case x of (c, b) \<Rightarrow>
       (case spi_find_client b (sp_client_id t) of
          None \<Rightarrow> (c, b)
        | Some cl \<Rightarrow>
            if \<not> sc_complete cl then (c, b)
            else let n = spi_completion_of b t r in cb n c (spi_emit (Spi_notified n) b)))"

definition spi_start :: "spi_starter \<Rightarrow> spi_pending \<Rightarrow> spi_bus \<Rightarrow> bool \<times> spi_bus" where
  "spi_start starter t b =
     (case spi_find_client b (sp_client_id t) of
        None \<Rightarrow> (False, b)
      | Some cl \<Rightarrow>
          if sc_client_generation cl \<noteq> sp_client_generation t then (False, b)
          else
            let ok = starter t (sb_bus_generation b);
                b1 = spi_emit (Spi_started (sp_transaction_id t) (sb_bus_generation b) ok) (b\<lparr>sb_active := t, sb_busy := True\<rparr>)
            in if \<not> ok then (False, b1\<lparr>sb_busy := False, sb_active := zero_spi\<rparr>) else (True, b1))"

definition spi_better :: "spi_pending \<Rightarrow> spi_pending \<Rightarrow> bool" where
  "spi_better x y \<longleftrightarrow> sp_priority x < sp_priority y \<or>
     (sp_priority x = sp_priority y \<and> sp_admission_sequence x < sp_admission_sequence y)"

definition spi_best :: "spi_pending list \<Rightarrow> nat" where
  "spi_best ps = foldl (\<lambda>selected i. if spi_better (ps ! i) (ps ! selected) then i else selected) 0 [1..<length ps]"

definition spi_remove_pending :: "nat \<Rightarrow> spi_bus \<Rightarrow> spi_bus" where
  "spi_remove_pending i b = b\<lparr>sb_pending := remove_nth i (sb_pending b)\<rparr>"

text \<open>Whether the loop ends depends on the callbacks; with callbacks that only submit it does (shown below).\<close>

partial_function (option) spi_start_next :: "spi_starter \<Rightarrow> 'c spi_callback \<Rightarrow> 'c \<times> spi_bus \<Rightarrow> ('c \<times> spi_bus) option" where
  "spi_start_next starter cb x =
     (case x of (c, b) \<Rightarrow>
       if sb_busy b \<or> sb_pending b = [] then Some (c, b)
       else
         let i = spi_best (sb_pending b);
             t = sb_pending b ! i;
             (started, b1) = spi_start starter t (spi_remove_pending i b)
         in if started then Some (c, b1)
            else spi_start_next starter cb (spi_notify cb t SPI_TRANSACTION_FAILED (c, b1\<lparr>sb_rejected_count := sb_rejected_count b1 + 1\<rparr>)))"

declare spi_start_next.simps [code]

section \<open>Operations\<close>

definition spi_bus_init :: spi_bus where
  "spi_bus_init = \<lparr>sb_clients = [], sb_active = zero_spi, sb_pending = [], sb_busy = False, sb_bus_generation = 1,
     sb_next_admission_sequence = 1, sb_completed_count = 0, sb_timeout_count = 0, sb_stale_completion_count = 0,
     sb_rejected_count = 0, sb_trace = []\<rparr>"

definition spi_bus_register_client :: "spi_client \<Rightarrow> spi_bus \<Rightarrow> bool \<times> spi_bus" where
  "spi_bus_register_client cl b =
     (if sc_client_id cl = 0 \<or> \<not> sc_start cl \<or> length (sb_clients b) \<ge> SPI_BUS_MAX_CLIENTS \<or> spi_find_client b (sc_client_id cl) \<noteq> None
      then (False, b) else (True, b\<lparr>sb_clients := sb_clients b @ [cl]\<rparr>))"

definition id_exists :: "spi_bus \<Rightarrow> u32 \<Rightarrow> bool" where
  "id_exists b i \<longleftrightarrow> sb_busy b \<and> sp_transaction_id (sb_active b) = i \<or> (\<exists>t \<in> set (sb_pending b). sp_transaction_id t = i)"

definition spi_bus_submit :: "spi_starter \<Rightarrow> spi_request \<Rightarrow> spi_bus \<Rightarrow> bool \<times> spi_bus" where
  "spi_bus_submit starter r b =
     (if sr_transaction_id r = 0 \<or> sr_length r = 0 \<or> sr_tx r = None \<or> sr_rx r = None \<or> sr_deadline_us r = 0
         \<or> id_exists b (sr_transaction_id r)
      then (False, b)
      else (case spi_find_client b (sr_client_id r) of
              None \<Rightarrow> (False, b)
            | Some cl \<Rightarrow>
                let t = \<lparr>sp_client_id = sr_client_id r, sp_transaction_id = sr_transaction_id r, sp_correlation_id = sr_correlation_id r,
                         sp_client_generation = sc_client_generation cl, sp_chip_select = sc_chip_select cl, sp_tx = sr_tx r, sp_rx = sr_rx r,
                         sp_length = sr_length r, sp_deadline_us = sr_deadline_us r, sp_priority = sr_priority r,
                         sp_admission_sequence = sb_next_admission_sequence b\<rparr>;
                    b1 = b\<lparr>sb_next_admission_sequence := sb_next_admission_sequence b + 1\<rparr>
                in if \<not> sb_busy b1 then
                     (case spi_start starter t b1 of
                        (True, b2) \<Rightarrow> (True, spi_emit (Spi_accepted (sr_transaction_id r)) b2)
                      | (False, b2) \<Rightarrow> (False, b2\<lparr>sb_rejected_count := sb_rejected_count b2 + 1\<rparr>))
                   else if length (sb_pending b1) \<ge> SPI_BUS_PENDING_CAPACITY
                   then (False, b1\<lparr>sb_rejected_count := sb_rejected_count b1 + 1\<rparr>)
                   else (True, spi_emit (Spi_accepted (sr_transaction_id r)) (b1\<lparr>sb_pending := sb_pending b1 @ [t]\<rparr>))))"

definition spi_release :: "spi_bus \<Rightarrow> spi_bus" where
  "spi_release b = b\<lparr>sb_active := zero_spi, sb_busy := False\<rparr>"

definition spi_bus_complete ::
  "spi_starter \<Rightarrow> 'c spi_callback \<Rightarrow> u32 \<Rightarrow> u32 \<Rightarrow> u32 \<Rightarrow> u32 \<Rightarrow> spi_transaction_result \<Rightarrow> 'c \<times> spi_bus \<Rightarrow> (bool \<times> 'c \<times> spi_bus) option" where
  "spi_bus_complete starter cb tid corr cgen bgen r x =
     (case x of (c, b) \<Rightarrow>
       if \<not> sb_busy b \<or> bgen \<noteq> sb_bus_generation b \<or> tid \<noteq> sp_transaction_id (sb_active b)
          \<or> corr \<noteq> sp_correlation_id (sb_active b) \<or> cgen \<noteq> sp_client_generation (sb_active b)
       then Some (False, c, b\<lparr>sb_stale_completion_count := sb_stale_completion_count b + 1\<rparr>)
       else
         let b1 = spi_release b;
             b2 = (if r = SPI_TRANSACTION_OK then b1\<lparr>sb_completed_count := sb_completed_count b1 + 1\<rparr> else b1);
             b3 = (if r = SPI_TRANSACTION_TIMEOUT then b2\<lparr>sb_timeout_count := sb_timeout_count b2 + 1\<rparr> else b2)
         in map_option (Pair True) (spi_start_next starter cb (spi_notify cb (sb_active b) r (c, b3))))"

definition spi_bus_tick :: "spi_starter \<Rightarrow> 'c spi_callback \<Rightarrow> u64 \<Rightarrow> 'c \<times> spi_bus \<Rightarrow> (bool \<times> 'c \<times> spi_bus) option" where
  "spi_bus_tick starter cb now x =
     (case x of (c, b) \<Rightarrow>
       if \<not> sb_busy b \<or> now < sp_deadline_us (sb_active b) then Some (False, c, b)
       else spi_bus_complete starter cb (sp_transaction_id (sb_active b)) (sp_correlation_id (sb_active b))
              (sp_client_generation (sb_active b)) (sb_bus_generation b) SPI_TRANSACTION_TIMEOUT (c, b))"

definition spi_bus_recover :: "spi_starter \<Rightarrow> 'c spi_callback \<Rightarrow> 'c \<times> spi_bus \<Rightarrow> ('c \<times> spi_bus) option" where
  "spi_bus_recover starter cb x =
     (case x of (c, b) \<Rightarrow>
       if sb_busy b then
         let b1 = (spi_release b)\<lparr>sb_bus_generation := sb_bus_generation b + 1\<rparr>
         in spi_start_next starter cb (spi_notify cb (sb_active b) SPI_TRANSACTION_CANCELLED (c, b1))
       else spi_start_next starter cb (c, b\<lparr>sb_bus_generation := sb_bus_generation b + 1\<rparr>))"

definition spi_bus_active :: "spi_bus \<Rightarrow> spi_pending option" where
  "spi_bus_active b = (if sb_busy b then Some (sb_active b) else None)"

section \<open>Open transactions\<close>

definition open_ids :: "spi_bus \<Rightarrow> u32 multiset" where
  "open_ids b = (if sb_busy b then {#sp_transaction_id (sb_active b)#} else {#}) + mset (map sp_transaction_id (sb_pending b))"

definition ids_accepted :: "spi_bus \<Rightarrow> u32 multiset" where
  "ids_accepted b = mset (List.map_filter (\<lambda>e. case e of Spi_accepted i \<Rightarrow> Some i | _ \<Rightarrow> None) (sb_trace b))"

definition ids_notified :: "spi_bus \<Rightarrow> u32 multiset" where
  "ids_notified b = mset (List.map_filter (\<lambda>e. case e of Spi_notified n \<Rightarrow> Some (sn_transaction_id n) | _ \<Rightarrow> None) (sb_trace b))"

text \<open>Every accepted transaction has been notified, is open, or is one of \<open>K\<close>; open ids are different, and the clients
  exist and have a callback.\<close>

definition balanced :: "u32 multiset \<Rightarrow> spi_bus \<Rightarrow> bool" where
  "balanced K b \<longleftrightarrow> ids_accepted b = ids_notified b + open_ids b + K \<and>
     (\<forall>i. count (open_ids b) i \<le> 1) \<and>
     (\<forall>t \<in> set (sb_pending b). spi_find_client b (sp_client_id t) \<noteq> None) \<and>
     (sb_busy b \<longrightarrow> spi_find_client b (sp_client_id (sb_active b)) \<noteq> None) \<and>
     (\<forall>cl \<in> set (sb_clients b). sc_complete cl) \<and> length (sb_pending b) \<le> SPI_BUS_PENDING_CAPACITY"

lemma spi_emit_sel [simp]:
  "sb_busy (spi_emit e b) = sb_busy b" "sb_active (spi_emit e b) = sb_active b" "sb_pending (spi_emit e b) = sb_pending b"
  "sb_clients (spi_emit e b) = sb_clients b" "sb_trace (spi_emit e b) = sb_trace b @ [e]" "sb_bus_generation (spi_emit e b) = sb_bus_generation b"
  by (simp_all add: spi_emit_def)

lemma spi_ids_emit [simp]:
  "ids_accepted (spi_emit (Spi_accepted i) b) = add_mset i (ids_accepted b)"
  "ids_accepted (spi_emit (Spi_started i g ok) b) = ids_accepted b"
  "ids_accepted (spi_emit (Spi_notified n) b) = ids_accepted b"
  "ids_notified (spi_emit (Spi_accepted i) b) = ids_notified b"
  "ids_notified (spi_emit (Spi_started i g ok) b) = ids_notified b"
  "ids_notified (spi_emit (Spi_notified n) b) = add_mset (sn_transaction_id n) (ids_notified b)"
  by (simp_all add: ids_accepted_def ids_notified_def map_filter_def)

lemma spi_ids_trace: "sb_trace b' = sb_trace b \<Longrightarrow> ids_accepted b' = ids_accepted b \<and> ids_notified b' = ids_notified b"
  by (simp add: ids_accepted_def ids_notified_def)

lemma open_emit [simp]: "open_ids (spi_emit e b) = open_ids b"
  by (simp add: open_ids_def)

lemma find_emit [simp]: "spi_find_client (spi_emit e b) i = spi_find_client b i"
  by (simp add: spi_find_client_def)

lemma id_exists_open: "id_exists b i \<longleftrightarrow> i \<in># open_ids b"
  by (auto simp: id_exists_def open_ids_def)


lemma find_unchanged [simp]:
  "spi_find_client (b\<lparr>sb_active := t\<rparr>) i = spi_find_client b i" "spi_find_client (b\<lparr>sb_busy := y\<rparr>) i = spi_find_client b i"
  "spi_find_client (b\<lparr>sb_pending := ps\<rparr>) i = spi_find_client b i" "spi_find_client (b\<lparr>sb_next_admission_sequence := k\<rparr>) i = spi_find_client b i"
  "spi_find_client (b\<lparr>sb_rejected_count := n\<rparr>) i = spi_find_client b i" "spi_find_client (b\<lparr>sb_bus_generation := g\<rparr>) i = spi_find_client b i"
  "spi_find_client (b\<lparr>sb_completed_count := n\<rparr>) i = spi_find_client b i" "spi_find_client (b\<lparr>sb_timeout_count := n\<rparr>) i = spi_find_client b i"
  "spi_find_client (b\<lparr>sb_stale_completion_count := n\<rparr>) i = spi_find_client b i"
  by (simp_all add: spi_find_client_def)

text \<open>The parts of the state that the accounting reads.\<close>

lemma balanced_cong:
  assumes "sb_trace b' = sb_trace b" "sb_busy b' = sb_busy b" "sb_active b' = sb_active b" "sb_pending b' = sb_pending b" "sb_clients b' = sb_clients b"
  shows "balanced K b' = balanced K b"
  using assms by (simp add: balanced_def ids_accepted_def ids_notified_def open_ids_def spi_find_client_def)

lemma found_client_complete:
  "\<lbrakk>balanced K b; spi_find_client b i = Some cl\<rbrakk> \<Longrightarrow> sc_complete cl"
  by (auto simp: balanced_def spi_find_client_def find_Some_iff)

text \<open>The loop picks a transaction that no other goes before.\<close>

lemma spi_best_least:
  assumes "ps \<noteq> []"
  shows "spi_best ps < length ps \<and> (\<forall>j < length ps. \<not> spi_better (ps ! j) (ps ! spi_best ps))"
proof -
  have "m < length ps \<and> \<not> spi_better (ps ! k) (ps ! m) \<and> (\<forall>j \<in> set is. \<not> spi_better (ps ! j) (ps ! m))"
    if "k < length ps" "\<forall>j \<in> set is. j < length ps" "m = foldl (\<lambda>k j. if spi_better (ps ! j) (ps ! k) then j else k) k is" for k m "is"
    using that
  proof (induction "is" arbitrary: k)
    case Nil
    then show ?case by (simp add: spi_better_def)
  next
    case (Cons j js)
    define l where "l = (if spi_better (ps ! j) (ps ! k) then j else k)"
    have "l < length ps" "m = foldl (\<lambda>k j. if spi_better (ps ! j) (ps ! k) then j else k) l js"
      using Cons.prems by (auto simp: l_def)
    then have m: "m < length ps" "\<not> spi_better (ps ! l) (ps ! m)" "\<forall>j \<in> set js. \<not> spi_better (ps ! j) (ps ! m)"
      using Cons.IH [of l] Cons.prems(2) by auto
    have "\<not> spi_better (ps ! k) (ps ! m) \<and> \<not> spi_better (ps ! j) (ps ! m)"
      using m(2) by (auto simp: l_def spi_better_def split: if_splits)
    then show ?case using m by simp
  qed
  from this [of 0 "[1..<length ps]" "spi_best ps"] assms
  have b: "spi_best ps < length ps" "\<not> spi_better (ps ! 0) (ps ! spi_best ps)"
    "\<forall>j \<in> set [1..<length ps]. \<not> spi_better (ps ! j) (ps ! spi_best ps)"
    by (auto simp: spi_best_def)
  have "\<not> spi_better (ps ! j) (ps ! spi_best ps)" if "j < length ps" for j
    using b(2,3) that by (cases j) auto
  then show ?thesis using b(1) by blast
qed

section \<open>Starting\<close>

lemma start_fields:
  "spi_start starter t b = (ok, b') \<Longrightarrow> sb_pending b' = sb_pending b \<and> sb_clients b' = sb_clients b \<and>
     ids_accepted b' = ids_accepted b \<and> ids_notified b' = ids_notified b \<and> (ok \<longrightarrow> sb_busy b' \<and> sb_active b' = t)
     \<and> (\<not> ok \<longrightarrow> \<not> sb_busy b \<longrightarrow> \<not> sb_busy b') \<and> (ok \<longrightarrow> spi_find_client b (sp_client_id t) \<noteq> None)"
  by (auto simp: spi_start_def Let_def spi_emit_def ids_accepted_def ids_notified_def map_filter_def split: option.splits if_splits)

text \<open>A transaction that is accounted for outside the bus and is started.\<close>

lemma start_balanced:
  assumes "balanced (add_mset (sp_transaction_id t) K) b" "\<not> sb_busy b" "spi_start starter t b = (ok, b')" "sp_transaction_id t \<notin># open_ids b"
  shows "balanced (if ok then K else add_mset (sp_transaction_id t) K) b' \<and> sb_busy b' = ok"
proof -
  note f = start_fields [OF assms(3)]
  have c: "spi_find_client b' i = spi_find_client b i" for i using f by (simp add: spi_find_client_def)
  have o: "open_ids b' = (if ok then add_mset (sp_transaction_id t) (open_ids b) else open_ids b)" and y: "sb_busy b' = ok"
    using f assms(2) by (auto simp: open_ids_def)
  show ?thesis using assms(1,2,4) f by (auto simp: balanced_def o y c count_eq_zero_iff)
qed

section \<open>Submitting\<close>

lemma submit_balanced:
  assumes "balanced K b" "spi_bus_submit starter r b = (ok, b')"
  shows "balanced K b' \<and> (\<not> sb_busy b \<longrightarrow> \<not> sb_busy b' \<longrightarrow> sb_pending b' = sb_pending b) \<and> (sb_busy b \<longrightarrow> sb_busy b')
    \<and> (\<not> sb_busy b \<longrightarrow> sb_busy b' \<longrightarrow> sb_pending b' = sb_pending b)"
proof (cases "fst (spi_bus_submit starter r b) \<or> b' \<noteq> b")
  case False
  then show ?thesis using assms by auto
next
  case True
  let ?i = "sr_transaction_id r"
  have fresh: "?i \<notin># open_ids b" using True assms(2) by (auto simp: spi_bus_submit_def id_exists_open split: if_splits)
  obtain cl where cl: "spi_find_client b (sr_client_id r) = Some cl"
    using True assms(2) by (auto simp: spi_bus_submit_def split: if_splits option.splits)
  define b1 where "b1 = b\<lparr>sb_next_admission_sequence := sb_next_admission_sequence b + 1\<rparr>"
  define t where "t = \<lparr>sp_client_id = sr_client_id r, sp_transaction_id = ?i, sp_correlation_id = sr_correlation_id r,
      sp_client_generation = sc_client_generation cl, sp_chip_select = sc_chip_select cl, sp_tx = sr_tx r, sp_rx = sr_rx r,
      sp_length = sr_length r, sp_deadline_us = sr_deadline_us r, sp_priority = sr_priority r,
      sp_admission_sequence = sb_next_admission_sequence b\<rparr>"
  have t: "sp_transaction_id t = ?i" "sp_client_id t = sr_client_id r" by (simp_all add: t_def)
  have b1: "balanced K b1" "sb_busy b1 = sb_busy b" "sb_pending b1 = sb_pending b" "open_ids b1 = open_ids b"
    using assms(1) balanced_cong [of b1 b K] by (simp_all add: b1_def open_ids_def)
  have s: "(ok, b') = (if \<not> sb_busy b1 then
                     (case spi_start starter t b1 of
                        (True, b2) \<Rightarrow> (True, spi_emit (Spi_accepted ?i) b2)
                      | (False, b2) \<Rightarrow> (False, b2\<lparr>sb_rejected_count := sb_rejected_count b2 + 1\<rparr>))
                   else if length (sb_pending b1) \<ge> SPI_BUS_PENDING_CAPACITY
                   then (False, b1\<lparr>sb_rejected_count := sb_rejected_count b1 + 1\<rparr>)
                   else (True, spi_emit (Spi_accepted ?i) (b1\<lparr>sb_pending := sb_pending b1 @ [t]\<rparr>)))"
    using True assms(2) cl unfolding spi_bus_submit_def t_def b1_def Let_def by (simp split: if_splits)
  show ?thesis
  proof (cases "sb_busy b")
    case False
    obtain ok2 b2 where st: "spi_start starter t b1 = (ok2, b2)" by (metis prod.exhaust)
    note f = start_fields [OF st]
    have c: "spi_find_client b2 i = spi_find_client b1 i" for i using f by (simp add: spi_find_client_def)
    have o: "open_ids b2 = (if ok2 then add_mset ?i (open_ids b1) else open_ids b1)" and y: "sb_busy b2 = ok2"
      using f False b1 by (auto simp: open_ids_def t)
    have b': "b' = (if ok2 then spi_emit (Spi_accepted ?i) b2 else b2\<lparr>sb_rejected_count := sb_rejected_count b2 + 1\<rparr>)"
      using s False b1(2) st by (cases ok2) simp_all
    have "balanced K b'"
    proof (cases ok2)
      case True
      have "count (open_ids b) j \<le> 1" for j using b1 by (simp add: balanced_def)
      then show ?thesis using b1 f fresh cl True y by (auto simp: balanced_def b' o c t count_eq_zero_iff)
    next
      case nok: False
      then have "balanced K b2" using b1 f y False by (simp add: balanced_def o c)
      then show ?thesis using nok balanced_cong [of b' b2 K] by (simp add: b')
    qed
    moreover have "sb_busy b' = ok2" "sb_pending b' = sb_pending b" using b1 y f by (simp_all add: b')
    ultimately show ?thesis using False by simp
  next
    case busy: True
    show ?thesis
    proof (cases "length (sb_pending b1) \<ge> SPI_BUS_PENDING_CAPACITY")
      case True
      then have "b' = b1\<lparr>sb_rejected_count := sb_rejected_count b1 + 1\<rparr>" using s busy b1 by simp
      then show ?thesis using busy b1 balanced_cong [of b' b1 K] by simp
    next
      case room: False
      have b': "b' = spi_emit (Spi_accepted ?i) (b1\<lparr>sb_pending := sb_pending b1 @ [t]\<rparr>)" using s busy b1 room by simp
      have o: "open_ids b' = add_mset ?i (open_ids b)" using b1 by (simp add: b' open_ids_def t b1_def)
      have i: "ids_accepted b' = add_mset ?i (ids_accepted b)" "ids_notified b' = ids_notified b"
        using spi_ids_trace [of "b1\<lparr>sb_pending := sb_pending b1 @ [t]\<rparr>" b] by (simp_all add: b' b1_def)
      have c: "spi_find_client b' j = spi_find_client b j" for j by (simp add: b' b1_def)
      have f: "sb_pending b' = sb_pending b @ [t]" "sb_busy b' = sb_busy b" "sb_active b' = sb_active b" "sb_clients b' = sb_clients b"
        by (simp_all add: b' b1_def)
      have "length (sb_pending b) < SPI_BUS_PENDING_CAPACITY" using room b1 by simp
      then have "balanced K b'" using assms(1) fresh cl
        by (auto simp: balanced_def o i c f count_eq_zero_iff t)
      then show ?thesis using busy f by simp
    qed
  qed
qed

definition submit_all :: "spi_starter \<Rightarrow> spi_request list \<Rightarrow> spi_bus \<Rightarrow> spi_bus" where
  "submit_all starter rs b = fold (\<lambda>r b. snd (spi_bus_submit starter r b)) rs b"

text \<open>The callbacks do nothing to the bus but submit.\<close>

definition submits_only :: "spi_starter \<Rightarrow> 'c spi_callback \<Rightarrow> bool" where
  "submits_only starter cb \<longleftrightarrow> (\<forall>n c b. \<exists>rs. snd (cb n c b) = submit_all starter rs b)"

lemma submit_all_balanced:
  assumes "balanced K b"
  shows "balanced K (submit_all starter rs b) \<and> (sb_busy (submit_all starter rs b) \<or> sb_pending (submit_all starter rs b) = sb_pending b)"
  using assms
proof (induction rs arbitrary: b)
  case (Cons r rs)
  obtain ok b1 where s: "spi_bus_submit starter r b = (ok, b1)" by (metis prod.exhaust)
  have busy: "sb_busy (submit_all starter rs b)" if "sb_busy b" "balanced K b" for rs b
    using that
  proof (induction rs arbitrary: b)
    case (Cons r rs)
    then show ?case using submit_balanced [OF Cons.prems(2), of starter r]
      by (cases "spi_bus_submit starter r b") (simp add: submit_all_def)
  qed (simp add: submit_all_def)
  note n = submit_balanced [OF Cons.prems s]
  have "submit_all starter (r # rs) b = submit_all starter rs b1" by (simp add: submit_all_def s)
  then show ?case using n Cons.IH [of b1] busy [of b1 rs] by (cases "sb_busy b") auto
qed (simp add: submit_all_def)

section \<open>Completions\<close>

lemma notify_balanced:
  assumes "submits_only starter cb" "balanced (add_mset (sp_transaction_id t) K) b" "spi_find_client b (sp_client_id t) \<noteq> None"
    and "spi_notify cb t r (c, b) = (c', b')"
  shows "balanced K b' \<and> (sb_busy b' \<or> sb_pending b' = sb_pending b)"
proof -
  obtain cl where cl: "spi_find_client b (sp_client_id t) = Some cl" using assms(3) by auto
  let ?n = "spi_completion_of b t r"
  let ?b = "spi_emit (Spi_notified ?n) b"
  have "balanced K ?b" using assms(2) by (auto simp: balanced_def spi_completion_of_def)
  moreover obtain rs where "snd (cb ?n c ?b) = submit_all starter rs ?b" using assms(1) unfolding submits_only_def by blast
  moreover have "(c', b') = cb ?n c ?b" using assms(4) cl found_client_complete [OF assms(2) cl] by (simp add: spi_notify_def Let_def)
  ultimately show ?thesis using submit_all_balanced [of K ?b starter rs] by (metis spi_emit_sel(3) snd_conv)
qed

text \<open>The loop ends: a callback on a free bus either makes it busy or adds nothing to the pending transactions.\<close>

lemma start_next_returns:
  assumes "submits_only starter cb" "balanced K b"
  shows "\<exists>c' b'. spi_start_next starter cb (c, b) = Some (c', b') \<and> balanced K b' \<and> (sb_busy b' \<or> sb_pending b' = [])"
  using assms(2)
proof (induction "length (sb_pending b)" arbitrary: b c rule: less_induct)
  case less
  show ?case
  proof (cases "sb_busy b \<or> sb_pending b = []")
    case True
    then show ?thesis using less.prems by (subst spi_start_next.simps) auto
  next
    case False
    let ?i = "spi_best (sb_pending b)"
    let ?t = "sb_pending b ! ?i" and ?b = "spi_remove_pending ?i b"
    have i: "?i < length (sb_pending b)" using spi_best_least False by blast
    obtain ok b1 where st: "spi_start starter ?t ?b = (ok, b1)" by (metis prod.exhaust)
    have m: "mset (sb_pending b) = add_mset ?t (mset (remove_nth ?i (sb_pending b)))" using mset_remove_nth [OF i] .
    then have o: "open_ids b = add_mset (sp_transaction_id ?t) (open_ids ?b)"
      using False by (simp add: open_ids_def spi_remove_pending_def)
    have c: "spi_find_client ?b j = spi_find_client b j" for j by (simp add: spi_remove_pending_def)
    have ids: "ids_accepted ?b = ids_accepted b" "ids_notified ?b = ids_notified b"
      using spi_ids_trace [of ?b b] by (simp_all add: spi_remove_pending_def)
    have sub: "set (sb_pending ?b) \<subseteq> set (sb_pending b)" using set_remove_nth_subset by (simp add: spi_remove_pending_def)
    have len: "length (sb_pending ?b) < length (sb_pending b)" using i by (simp add: spi_remove_pending_def)
    have ndup: "count (open_ids b) j \<le> 1" for j using less.prems by (simp add: balanced_def)
    have f: "spi_find_client ?b (sp_client_id ?t) \<noteq> None" using less.prems nth_mem [OF i] by (simp add: balanced_def c)
    have b: "balanced (add_mset (sp_transaction_id ?t) K) ?b"
      unfolding balanced_def
    proof (intro conjI allI)
      show "ids_accepted ?b = ids_notified ?b + open_ids ?b + add_mset (sp_transaction_id ?t) K"
        using less.prems by (simp add: balanced_def o ids)
      show "count (open_ids ?b) j \<le> 1" for j using ndup [of j] by (simp add: o split: if_splits)
      show "\<forall>t \<in> set (sb_pending ?b). spi_find_client ?b (sp_client_id t) \<noteq> None"
        using less.prems sub by (auto simp: balanced_def c)
      show "sb_busy ?b \<longrightarrow> spi_find_client ?b (sp_client_id (sb_active ?b)) \<noteq> None"
        using False by (simp add: spi_remove_pending_def)
      show "\<forall>cl \<in> set (sb_clients ?b). sc_complete cl" using less.prems by (simp add: balanced_def spi_remove_pending_def)
      show "length (sb_pending ?b) \<le> SPI_BUS_PENDING_CAPACITY" using less.prems len by (simp add: balanced_def)
    qed
    have "\<not> sb_busy ?b" "sp_transaction_id ?t \<notin># open_ids ?b"
      using False ndup [of "sp_transaction_id ?t"] by (auto simp: spi_remove_pending_def o count_eq_zero_iff)
    then have s: "balanced (if ok then K else add_mset (sp_transaction_id ?t) K) b1 \<and> sb_busy b1 = ok"
      using start_balanced [OF b _ st] by blast
    have step: "spi_start_next starter cb (c, b) = (if ok then Some (c, b1)
        else spi_start_next starter cb (spi_notify cb ?t SPI_TRANSACTION_FAILED (c, b1\<lparr>sb_rejected_count := sb_rejected_count b1 + 1\<rparr>)))"
      using False st by (subst spi_start_next.simps) (simp add: Let_def)
    show ?thesis
    proof (cases ok)
      case True
      then show ?thesis using s step by simp
    next
      case nok: False
      let ?b2 = "b1\<lparr>sb_rejected_count := sb_rejected_count b1 + 1\<rparr>"
      obtain c3 b3 where n: "spi_notify cb ?t SPI_TRANSACTION_FAILED (c, ?b2) = (c3, b3)" by (metis prod.exhaust)
      have b2: "balanced (add_mset (sp_transaction_id ?t) K) ?b2" using s nok balanced_cong [of ?b2 b1] by simp
      have "spi_find_client ?b2 (sp_client_id ?t) \<noteq> None"
        using f start_fields [OF st] by (simp add: spi_find_client_def)
      from notify_balanced [OF assms(1) b2 this n] have b3: "balanced K b3" "sb_busy b3 \<or> sb_pending b3 = sb_pending ?b" using start_fields [OF st] by auto
      have "\<exists>c' b'. spi_start_next starter cb (c3, b3) = Some (c', b') \<and> balanced K b' \<and> (sb_busy b' \<or> sb_pending b' = [])"
      proof (cases "sb_busy b3")
        case True
        then show ?thesis using b3 by (subst spi_start_next.simps) auto
      next
        case False
        then show ?thesis using less.hyps [OF _ b3(1)] b3(2) len by simp
      qed
      then show ?thesis using step nok n by simp
    qed
  qed
qed

section \<open>Runs\<close>

datatype spi_op =
  Op_submit spi_request
| Op_complete u32 u32 u32 u32 spi_transaction_result
| Op_tick u64
| Op_recover
| Op_register spi_client

fun spi_step :: "spi_starter \<Rightarrow> 'c spi_callback \<Rightarrow> spi_op \<Rightarrow> 'c \<times> spi_bus \<Rightarrow> ('c \<times> spi_bus) option" where
  "spi_step starter cb (Op_submit r) (c, b) = Some (c, snd (spi_bus_submit starter r b))"
| "spi_step starter cb (Op_complete tid corr cgen bgen r) x = map_option snd (spi_bus_complete starter cb tid corr cgen bgen r x)"
| "spi_step starter cb (Op_tick now) x = map_option snd (spi_bus_tick starter cb now x)"
| "spi_step starter cb Op_recover x = spi_bus_recover starter cb x"
| "spi_step starter cb (Op_register cl) (c, b) = Some (c, snd (spi_bus_register_client cl b))"

fun spi_run :: "spi_starter \<Rightarrow> 'c spi_callback \<Rightarrow> spi_op list \<Rightarrow> 'c \<times> spi_bus \<Rightarrow> ('c \<times> spi_bus) option" where
  "spi_run starter cb [] x = Some x"
| "spi_run starter cb (op # ops) x = (case spi_step starter cb op x of None \<Rightarrow> None | Some y \<Rightarrow> spi_run starter cb ops y)"

definition spi_ok :: "spi_bus \<Rightarrow> bool" where
  "spi_ok b \<longleftrightarrow> balanced {#} b \<and> (sb_busy b \<or> sb_pending b = [])"

lemma release_balanced:
  assumes "balanced {#} b" "sb_busy b" "sb_trace b' = sb_trace b" "\<not> sb_busy b'" "sb_pending b' = sb_pending b" "sb_clients b' = sb_clients b"
  shows "balanced (add_mset (sp_transaction_id (sb_active b)) {#}) b' \<and> spi_find_client b' (sp_client_id (sb_active b)) \<noteq> None"
proof -
  have o: "open_ids b = add_mset (sp_transaction_id (sb_active b)) (open_ids b')" using assms by (simp add: open_ids_def)
  have c: "spi_find_client b' j = spi_find_client b j" for j using assms(6) by (simp add: spi_find_client_def)
  have "count (open_ids b') j \<le> 1" for j
  proof -
    have "count (open_ids b) j \<le> 1" using assms(1) by (simp add: balanced_def)
    then show ?thesis by (simp add: o split: if_splits)
  qed
  then show ?thesis using assms spi_ids_trace [OF assms(3)] by (auto simp: balanced_def o c)
qed

lemma finish_active:
  assumes "submits_only starter cb" "balanced {#} b" "sb_busy b"
    and "sb_trace b1 = sb_trace b" "\<not> sb_busy b1" "sb_pending b1 = sb_pending b" "sb_clients b1 = sb_clients b"
  shows "\<exists>c' b'. spi_start_next starter cb (spi_notify cb (sb_active b) r (c, b1)) = Some (c', b') \<and> spi_ok b'"
proof -
  obtain c2 b2 where n: "spi_notify cb (sb_active b) r (c, b1) = (c2, b2)" by (metis prod.exhaust)
  note rel = release_balanced [OF assms(2-7)]
  have "balanced {#} b2" using notify_balanced [OF assms(1) rel [THEN conjunct1] rel [THEN conjunct2] n] by blast
  from start_next_returns [OF assms(1) this, of c2] show ?thesis unfolding n spi_ok_def by blast
qed

lemma complete_returns:
  assumes "submits_only starter cb" "spi_ok b"
  shows "\<exists>ok c' b'. spi_bus_complete starter cb tid corr cgen bgen r (c, b) = Some (ok, c', b') \<and> spi_ok b'"
proof -
  let ?b1 = "spi_release b"
  let ?b2 = "if r = SPI_TRANSACTION_OK then ?b1\<lparr>sb_completed_count := sb_completed_count ?b1 + 1\<rparr> else ?b1"
  let ?b3 = "if r = SPI_TRANSACTION_TIMEOUT then ?b2\<lparr>sb_timeout_count := sb_timeout_count ?b2 + 1\<rparr> else ?b2"
  show ?thesis
  proof (cases "\<not> sb_busy b \<or> bgen \<noteq> sb_bus_generation b \<or> tid \<noteq> sp_transaction_id (sb_active b)
          \<or> corr \<noteq> sp_correlation_id (sb_active b) \<or> cgen \<noteq> sp_client_generation (sb_active b)")
    case True
    then have "spi_bus_complete starter cb tid corr cgen bgen r (c, b) = Some (False, c, b\<lparr>sb_stale_completion_count := sb_stale_completion_count b + 1\<rparr>)"
      unfolding spi_bus_complete_def prod.case by (rule if_P)
    moreover have "spi_ok (b\<lparr>sb_stale_completion_count := sb_stale_completion_count b + 1\<rparr>)"
      using assms(2) balanced_cong [of "b\<lparr>sb_stale_completion_count := sb_stale_completion_count b + 1\<rparr>" b "{#}"] by (simp add: spi_ok_def)
    ultimately show ?thesis by blast
  next
    case False
    have "\<exists>c' b'. spi_start_next starter cb (spi_notify cb (sb_active b) r (c, ?b3)) = Some (c', b') \<and> spi_ok b'"
      by (rule finish_active [OF assms(1)]) (use assms(2) False in \<open>simp_all add: spi_ok_def spi_release_def\<close>)
    then show ?thesis using False by (auto simp: spi_bus_complete_def Let_def)
  qed
qed

lemma recover_returns:
  assumes "submits_only starter cb" "spi_ok b"
  shows "\<exists>c' b'. spi_bus_recover starter cb (c, b) = Some (c', b') \<and> spi_ok b'"
proof (cases "sb_busy b")
  case True
  have "\<exists>c' b'. spi_start_next starter cb (spi_notify cb (sb_active b) SPI_TRANSACTION_CANCELLED
      (c, (spi_release b)\<lparr>sb_bus_generation := sb_bus_generation b + 1\<rparr>)) = Some (c', b') \<and> spi_ok b'"
    by (rule finish_active [OF assms(1)]) (use assms(2) True in \<open>simp_all add: spi_ok_def spi_release_def\<close>)
  then show ?thesis using True by (simp add: spi_bus_recover_def Let_def)
next
  case False
  have "balanced {#} (b\<lparr>sb_bus_generation := sb_bus_generation b + 1\<rparr>)" using assms(2) balanced_cong [of "b\<lparr>sb_bus_generation := sb_bus_generation b + 1\<rparr>" b "{#}"] by (simp add: spi_ok_def)
  from start_next_returns [OF assms(1) this, of c] show ?thesis unfolding spi_bus_recover_def spi_ok_def prod.case if_not_P [OF False] .
qed

lemma register_ok:
  assumes "spi_ok b" "sc_complete cl"
  shows "spi_ok (snd (spi_bus_register_client cl b))"
proof -
  let ?b = "b\<lparr>sb_clients := sb_clients b @ [cl]\<rparr>"
  have i: "ids_accepted ?b = ids_accepted b" "ids_notified ?b = ids_notified b" "open_ids ?b = open_ids b"
    using spi_ids_trace [of ?b b] by (simp_all add: open_ids_def)
  have c: "spi_find_client b j \<noteq> None \<Longrightarrow> spi_find_client ?b j \<noteq> None" for j
    by (auto simp: spi_find_client_def find_None_iff)
  have "spi_ok ?b" using assms c by (auto simp: spi_ok_def balanced_def i)
  then show ?thesis using assms(1) by (simp add: spi_bus_register_client_def)
qed

lemma tick_returns:
  assumes "submits_only starter cb" "spi_ok b"
  shows "\<exists>ok c' b'. spi_bus_tick starter cb now (c, b) = Some (ok, c', b') \<and> spi_ok b'"
proof (cases "\<not> sb_busy b \<or> now < sp_deadline_us (sb_active b)")
  case True
  then show ?thesis using assms(2) unfolding spi_bus_tick_def prod.case if_P [OF True] by blast
next
  case False
  show ?thesis unfolding spi_bus_tick_def prod.case if_not_P [OF False] by (rule complete_returns [OF assms])
qed

lemma step_ok:
  assumes "submits_only starter cb" "spi_ok b" "\<forall>cl. op = Op_register cl \<longrightarrow> sc_complete cl"
  shows "\<exists>c' b'. spi_step starter cb op (c, b) = Some (c', b') \<and> spi_ok b'"
proof (cases op)
  case (Op_submit r)
  obtain ok b' where s: "spi_bus_submit starter r b = (ok, b')" by (rule prod.exhaust)
  have "spi_ok b'" using submit_balanced [OF assms(2) [unfolded spi_ok_def, THEN conjunct1] s] assms(2)
    unfolding spi_ok_def by (cases "sb_busy b'") simp_all
  then show ?thesis using s Op_submit by simp
next
  case (Op_complete tid corr cgen bgen r)
  obtain ok c' b' where "spi_bus_complete starter cb tid corr cgen bgen r (c, b) = Some (ok, c', b')" "spi_ok b'"
    using complete_returns [OF assms(1,2)] by blast
  then show ?thesis using Op_complete by simp
next
  case (Op_tick now)
  obtain ok c' b' where "spi_bus_tick starter cb now (c, b) = Some (ok, c', b')" "spi_ok b'"
    using tick_returns [OF assms(1,2)] by blast
  then show ?thesis using Op_tick by simp
next
  case Op_recover
  then show ?thesis using recover_returns [OF assms(1,2)] by simp
next
  case (Op_register cl)
  then show ?thesis using register_ok [OF assms(2)] assms(3) by simp
qed

text \<open>C16: with clients whose callbacks only submit, and under any sequence of registrations, submissions, completions
  (late, repeated or forged), timeouts and recoveries, every operation of the bus returns; each accepted transaction is
  answered exactly once or still open; the ids of the open transactions are different; and the bus never
  idles while transactions wait.\<close>

theorem spi_answers_each_transaction_once:
  assumes "submits_only starter cb" "\<forall>cl. Op_register cl \<in> set ops \<longrightarrow> sc_complete cl"
  shows "\<exists>c' b'. spi_run starter cb ops (c, spi_bus_init) = Some (c', b') \<and>
    ids_accepted b' = ids_notified b' + open_ids b' \<and> (\<forall>i. count (open_ids b') i \<le> 1) \<and>
    (sb_busy b' \<or> sb_pending b' = []) \<and> length (sb_pending b') \<le> SPI_BUS_PENDING_CAPACITY"
proof -
  have "\<exists>c' b'. spi_run starter cb ops (c, b) = Some (c', b') \<and> spi_ok b'" if "spi_ok b" for b
    using that assms(2)
  proof (induction ops arbitrary: b c)
    case (Cons op ops)
    obtain c1 b1 where "spi_step starter cb op (c, b) = Some (c1, b1)" "spi_ok b1"
      using step_ok [OF assms(1) Cons.prems(1), of op c] Cons.prems(2) by auto
    then show ?case using Cons.IH [of b1 c1] Cons.prems(2) by simp
  qed simp
  moreover have "spi_ok spi_bus_init"
    by (simp add: spi_ok_def balanced_def spi_bus_init_def open_ids_def ids_accepted_def ids_notified_def map_filter_def)
  ultimately obtain c' b' where "spi_run starter cb ops (c, spi_bus_init) = Some (c', b')" "spi_ok b'" by blast
  then show ?thesis by (intro exI [of _ c'] exI [of _ b']) (simp add: spi_ok_def balanced_def)
qed

text \<open>A client that answers each timeout with a new transaction of a larger id, at most three times.\<close>

definition retry_request :: "u32 \<Rightarrow> spi_request" where
  "retry_request i = \<lparr>sr_client_id = 7, sr_transaction_id = i, sr_correlation_id = 1, sr_tx = Some [0x80], sr_rx = Some 0,
     sr_length = 1, sr_deadline_us = 1000, sr_priority = 1\<rparr>"

definition retry_starter :: spi_starter where
  "retry_starter t g = (sp_transaction_id t \<noteq> 2)"

definition retry_callback :: "u32 spi_callback" where
  "retry_callback n c b = (if sn_result n = SPI_TRANSACTION_OK \<or> 3 \<le> c then (c, b)
     else (c + 1, snd (spi_bus_submit retry_starter (retry_request (10 + c)) b)))"

lemma retry_submits_only: "submits_only retry_starter retry_callback"
  unfolding submits_only_def
proof (intro allI)
  fix n c b
  show "\<exists>rs. snd (retry_callback n c b) = submit_all retry_starter rs b"
  proof (cases "sn_result n = SPI_TRANSACTION_OK \<or> 3 \<le> c")
    case True
    then show ?thesis by (intro exI [of _ "[]"]) (auto simp: retry_callback_def submit_all_def)
  next
    case False
    then show ?thesis by (intro exI [of _ "[retry_request (10 + c)]"]) (simp add: retry_callback_def submit_all_def)
  qed
qed

definition retry_ops :: "spi_op list" where
  "retry_ops = [Op_register \<lparr>sc_client_id = 7, sc_chip_select = 0, sc_client_generation = 1, sc_start = True, sc_complete = True\<rparr>,
     Op_submit (retry_request 1), Op_submit (retry_request 2), Op_submit (retry_request 3), Op_tick 1000,
     Op_complete 1 1 1 1 SPI_TRANSACTION_OK, Op_complete 10 1 1 1 SPI_TRANSACTION_OK]"

lemma spi_answers_each_transaction_once_witness:
  "\<exists>c' b'. spi_run retry_starter retry_callback retry_ops (0, spi_bus_init) = Some (c', b') \<and>
    ids_accepted b' = {#1, 2, 3, 10, 11#} \<and> ids_notified b' = {#1, 10, 2#} \<and> open_ids b' = {#3, 11#}"
proof -
  have "\<forall>cl. Op_register cl \<in> set retry_ops \<longrightarrow> sc_complete cl" by (auto simp: retry_ops_def)
  from spi_answers_each_transaction_once [OF retry_submits_only this, of 0]
  obtain c' b' where r: "spi_run retry_starter retry_callback retry_ops (0, spi_bus_init) = Some (c', b')"
    and e: "ids_accepted b' = ids_notified b' + open_ids b'" by blast
  have "case spi_run retry_starter retry_callback retry_ops (0, spi_bus_init) of None \<Rightarrow> False
     | Some (c, b) \<Rightarrow> ids_accepted b = {#1, 2, 3, 10, 11#} \<and> ids_notified b = {#1, 10, 2#}" by code_simp
  then have i: "ids_accepted b' = {#1, 2, 3, 10, 11#}" "ids_notified b' = {#1, 10, 2#}" by (simp_all add: r)
  have "{#1, 10, 2#} + open_ids b' = {#1, 10, 2#} + {#3, 11 :: u32#}" using e unfolding i by (simp add: add_mset_commute)
  then have "open_ids b' = {#3, 11#}" by (rule add_left_imp_eq)
  then show ?thesis using r i by blast
qed

text \<open>A timeout releases the bus under the same generation, so the late completion of a timed out transaction
  completes a new one that was given the same id.\<close>

lemma late_completion_hits_reused_id:
  "case spi_run retry_starter (\<lambda>n c b. (c, b)) [hd retry_ops, Op_submit (retry_request 1), Op_tick 1000, Op_submit (retry_request 1),
      Op_complete 1 1 1 1 SPI_TRANSACTION_OK] ((), spi_bus_init) of None \<Rightarrow> False
   | Some (c, b) \<Rightarrow> sb_completed_count b = 1 \<and> sb_timeout_count b = 1 \<and> sb_stale_completion_count b = 0 \<and> \<not> sb_busy b"
  by code_simp

end
