(* ===== verification/Linux_Clock.thy ===== *)
theory Linux_Clock
  imports I2c_Bus
begin

text \<open>
  The clocks and the ADC of the Linux platform: the virtual monotonic clock with the global clock behind the
  legacy interface (platform/linux/virtual_clock.c), the virtual wall clock with its alarm
  (platform/linux/virtual_wall_clock.c) and the ADC adapter (platform/linux/adapters/adc_port_linux.c).

  In real-time mode the clock reads the host; the reading (seconds and nanoseconds of
  \<open>clock_gettime\<close>) is an argument.  The global variables are states that the operations take and return.
\<close>

section \<open>The virtual clock\<close>

text \<open>The C enumeration has two values; a cast can make others, which behave like the second.\<close>

datatype linux_clock_mode = LINUX_CLOCK_MODE_DETERMINISTIC | LINUX_CLOCK_MODE_REALTIME | Other_clock_mode int

record linux_virtual_clock =
  lc_now_us :: u64
  lc_boot_origin_us :: u64
  lc_boot_generation :: u32
  lc_wall_base_s :: i64
  lc_wall_subsecond_us :: u32
  lc_time_generation :: u32
  lc_wall_time_valid :: bool
  lc_mode :: linux_clock_mode

record timespec =
  tv_sec :: u64
  tv_nsec :: u64

definition linux_clock_init :: "linux_clock_mode \<Rightarrow> linux_virtual_clock" where
  "linux_clock_init mode = \<lparr>lc_now_us = 0, lc_boot_origin_us = 0, lc_boot_generation = 1, lc_wall_base_s = 0,
     lc_wall_subsecond_us = 0, lc_time_generation = 0, lc_wall_time_valid = False, lc_mode = mode\<rparr>"

definition linux_clock_reset :: "bool \<Rightarrow> linux_virtual_clock \<Rightarrow> linux_virtual_clock" where
  "linux_clock_reset preserve_wall c =
     (let c1 = c\<lparr>lc_now_us := 0, lc_boot_origin_us := 0, lc_boot_generation := lc_boot_generation c + 1\<rparr>
      in if \<not> preserve_wall
         then c1\<lparr>lc_wall_base_s := 0, lc_wall_subsecond_us := 0, lc_time_generation := 0, lc_wall_time_valid := False\<rparr>
         else c1)"

definition linux_clock_now_us :: "timespec \<Rightarrow> linux_virtual_clock \<Rightarrow> u64" where
  "linux_clock_now_us host c =
     (if lc_mode c = LINUX_CLOCK_MODE_DETERMINISTIC then lc_now_us c
      else tv_sec host * 1000000 + tv_nsec host div 1000)"

definition linux_clock_advance_by :: "u64 \<Rightarrow> linux_virtual_clock \<Rightarrow> linux_virtual_clock" where
  "linux_clock_advance_by delta_us c =
     (if lc_mode c \<noteq> LINUX_CLOCK_MODE_DETERMINISTIC then c else c\<lparr>lc_now_us := lc_now_us c + delta_us\<rparr>)"

definition linux_clock_advance_to :: "u64 \<Rightarrow> linux_virtual_clock \<Rightarrow> bool \<times> linux_virtual_clock" where
  "linux_clock_advance_to target_us c =
     (if lc_mode c \<noteq> LINUX_CLOCK_MODE_DETERMINISTIC then (False, c)
      else if target_us < lc_now_us c then (False, c)
      else (True, c\<lparr>lc_now_us := target_us\<rparr>))"

definition linux_clock_set_wall :: "i64 \<Rightarrow> u32 \<Rightarrow> bool \<Rightarrow> linux_virtual_clock \<Rightarrow> linux_virtual_clock" where
  "linux_clock_set_wall wall_s subsecond_us valid c =
     c\<lparr>lc_wall_base_s := wall_s, lc_wall_subsecond_us := subsecond_us, lc_wall_time_valid := valid,
       lc_time_generation := lc_time_generation c + 1\<rparr>"

section \<open>The legacy interface\<close>

text \<open>The static clock and its flag.\<close>

record legacy_state =
  lg_clock :: linux_virtual_clock
  lg_inited :: bool

abbreviation CLOCK_MODE_REAL :: int where "CLOCK_MODE_REAL \<equiv> 0"
abbreviation CLOCK_MODE_VIRTUAL :: int where "CLOCK_MODE_VIRTUAL \<equiv> 1"

text \<open>The cast of an integer to the enumeration.\<close>

definition clock_mode_of :: "int \<Rightarrow> linux_clock_mode" where
  "clock_mode_of mode =
     (if mode = 0 then LINUX_CLOCK_MODE_DETERMINISTIC else if mode = 1 then LINUX_CLOCK_MODE_REALTIME else Other_clock_mode mode)"

definition ensure_legacy_clock :: "legacy_state \<Rightarrow> legacy_state" where
  "ensure_legacy_clock g =
     (if \<not> lg_inited g then \<lparr>lg_clock = linux_clock_init LINUX_CLOCK_MODE_DETERMINISTIC, lg_inited = True\<rparr> else g)"

definition virtual_clock_set_mode :: "int \<Rightarrow> legacy_state \<Rightarrow> legacy_state" where
  "virtual_clock_set_mode mode g0 =
     (let g = ensure_legacy_clock g0 in g\<lparr>lg_clock := (lg_clock g)\<lparr>lc_mode := clock_mode_of mode\<rparr>\<rparr>)"

definition virtual_clock_set :: "u64 \<Rightarrow> legacy_state \<Rightarrow> legacy_state" where
  "virtual_clock_set now_us g0 =
     (let g = ensure_legacy_clock g0
      in g\<lparr>lg_clock := (lg_clock g)\<lparr>lc_now_us := now_us, lc_mode := LINUX_CLOCK_MODE_DETERMINISTIC\<rparr>\<rparr>)"

definition virtual_clock_advance :: "u64 \<Rightarrow> legacy_state \<Rightarrow> legacy_state" where
  "virtual_clock_advance delta_us g0 =
     (let g = ensure_legacy_clock g0
      in g\<lparr>lg_clock := (lg_clock g)\<lparr>lc_now_us := lc_now_us (lg_clock g) + delta_us, lc_mode := LINUX_CLOCK_MODE_DETERMINISTIC\<rparr>\<rparr>)"

definition monotonic_now_us :: "timespec \<Rightarrow> legacy_state \<Rightarrow> u64 \<times> legacy_state" where
  "monotonic_now_us host g0 = (let g = ensure_legacy_clock g0 in (linux_clock_now_us host (lg_clock g), g))"

section \<open>The wall clock\<close>

text \<open>Signed 64-bit seconds as exact integers.\<close>

record virtual_wall_clock =
  wc_wall_s :: i64
  wc_continuity_valid :: bool
  wc_alarm_s :: i64
  wc_alarm_armed :: bool

definition virtual_wall_clock_init :: virtual_wall_clock where
  "virtual_wall_clock_init = \<lparr>wc_wall_s = 0, wc_continuity_valid = True, wc_alarm_s = 0, wc_alarm_armed = False\<rparr>"

definition virtual_wall_clock_set :: "i64 \<Rightarrow> virtual_wall_clock \<Rightarrow> virtual_wall_clock" where
  "virtual_wall_clock_set wall_s c = c\<lparr>wc_wall_s := wall_s\<rparr>"

definition virtual_wall_clock_advance :: "i64 \<Rightarrow> virtual_wall_clock \<Rightarrow> virtual_wall_clock" where
  "virtual_wall_clock_advance delta_s c = c\<lparr>wc_wall_s := wc_wall_s c + delta_s\<rparr>"

definition virtual_wall_clock_now_s :: "virtual_wall_clock \<Rightarrow> i64" where
  "virtual_wall_clock_now_s c = wc_wall_s c"

definition virtual_wall_clock_set_continuity :: "bool \<Rightarrow> virtual_wall_clock \<Rightarrow> virtual_wall_clock" where
  "virtual_wall_clock_set_continuity valid c = c\<lparr>wc_continuity_valid := valid\<rparr>"

definition virtual_wall_clock_get_continuity :: "virtual_wall_clock \<Rightarrow> bool" where
  "virtual_wall_clock_get_continuity c = wc_continuity_valid c"

definition virtual_wall_clock_set_alarm :: "i64 \<Rightarrow> virtual_wall_clock \<Rightarrow> virtual_wall_clock" where
  "virtual_wall_clock_set_alarm wall_s c = c\<lparr>wc_alarm_s := wall_s, wc_alarm_armed := True\<rparr>"

definition virtual_wall_clock_get_alarm :: "virtual_wall_clock \<Rightarrow> i64" where
  "virtual_wall_clock_get_alarm c = wc_alarm_s c"

definition virtual_wall_clock_is_alarm_triggered :: "virtual_wall_clock \<Rightarrow> bool \<times> virtual_wall_clock" where
  "virtual_wall_clock_is_alarm_triggered c =
     (if \<not> wc_alarm_armed c then (False, c)
      else if wc_wall_s c \<ge> wc_alarm_s c then (True, c\<lparr>wc_alarm_armed := False\<rparr>)
      else (False, c))"

section \<open>The ADC\<close>

datatype adc_channel = ADC_CHANNEL_BATTERY | ADC_CHANNEL_COUNT

record linux_adc_adapter =
  ad_value :: u16
  ad_fault :: port_status

text \<open>The status and, when it is \<open>PORT_OK\<close>, the reading.\<close>

definition linux_adc_read :: "adc_channel \<Rightarrow> linux_adc_adapter \<Rightarrow> port_status \<times> u16 option" where
  "linux_adc_read channel a =
     (if channel = ADC_CHANNEL_COUNT then (PORT_STATUS_INVALID_PARAM, None)
      else if ad_fault a \<noteq> PORT_OK then (ad_fault a, None)
      else (PORT_OK, Some (ad_value a)))"

definition adc_port_linux_init :: linux_adc_adapter where
  "adc_port_linux_init = \<lparr>ad_value = 2048, ad_fault = PORT_OK\<rparr>"

definition adc_port_linux_set_value :: "u16 \<Rightarrow> linux_adc_adapter \<Rightarrow> linux_adc_adapter" where
  "adc_port_linux_set_value value a = a\<lparr>ad_value := value\<rparr>"

definition adc_port_linux_set_fault :: "port_status \<Rightarrow> linux_adc_adapter \<Rightarrow> linux_adc_adapter" where
  "adc_port_linux_set_fault fault a = a\<lparr>ad_fault := fault\<rparr>"

section \<open>Lemmas\<close>

text \<open>The only moves of the deterministic clock; without wrap-around and reset it never goes back.\<close>

lemma advance_by_forward:
  assumes "uint (lc_now_us c) + uint delta < 2 ^ 64"
  shows "lc_now_us c \<le> lc_now_us (linux_clock_advance_by delta c)"
proof -
  have "uint (lc_now_us c + delta) = uint (lc_now_us c) + uint delta"
    using assms by (simp add: uint_word_ariths take_bit_int_eq_self)
  then show ?thesis by (simp add: linux_clock_advance_by_def word_le_def)
qed

lemma advance_to_forward: "linux_clock_advance_to target c = (ok, c') \<Longrightarrow>
    lc_now_us c \<le> lc_now_us c' \<and> lc_mode c' = lc_mode c \<and> (ok \<longrightarrow> lc_now_us c' = target)"
  by (auto simp: linux_clock_advance_to_def split: if_splits)

text \<open>The constants of the legacy interface are the other way round: the mode called virtual is the real-time mode.\<close>

lemma virtual_mode_reads_the_host:
  "fst (monotonic_now_us host (virtual_clock_set_mode CLOCK_MODE_VIRTUAL g)) = tv_sec host * 1000000 + tv_nsec host div 1000"
  "fst (monotonic_now_us host (virtual_clock_set_mode CLOCK_MODE_REAL g)) = lc_now_us (lg_clock (ensure_legacy_clock g))"
  by (simp_all add: monotonic_now_us_def virtual_clock_set_mode_def ensure_legacy_clock_def linux_clock_now_us_def clock_mode_of_def Let_def)

text \<open>An armed alarm is reported at the first query at or after its time, and once.\<close>

lemma alarm_fires_once:
  assumes "wc_alarm_armed c"
  shows "virtual_wall_clock_is_alarm_triggered c = (wc_alarm_s c \<le> wc_wall_s c, c\<lparr>wc_alarm_armed := wc_wall_s c < wc_alarm_s c\<rparr>)"
    "wc_alarm_s c \<le> wc_wall_s c \<Longrightarrow>
      fst (virtual_wall_clock_is_alarm_triggered (virtual_wall_clock_advance d (snd (virtual_wall_clock_is_alarm_triggered c)))) = False"
  using assms by (auto simp: virtual_wall_clock_is_alarm_triggered_def virtual_wall_clock_advance_def)

end
