(* ===== verification/Run_Controller.thy ===== *)
theory Run_Controller
  imports Event_Dispatch Linux_Clock Action_Queue
begin

text \<open>
  The run controller of the Linux simulation (platform/linux/linux_run_controller.c): turns that dispatch due
  actions and jobs into events, run the event loop, and advance the virtual clock to the next deadline.

  The record holds the objects the controller points to.  The readings of the host clock (used in
  real-time mode only) and of the scheduler's clock are arguments.  A reset request ends the process
  (platform/linux/linux_system_control.c): the result is then None.
\<close>

section \<open>Data\<close>

datatype run_status = RUN_PROGRESS | RUN_IDLE | RUN_STEP_LIMIT | RUN_LIVELOCK | RUN_ERROR

record run_controller_limits =
  rl_max_turns :: u32
  rl_max_actions_per_turn :: u32
  rl_max_same_time_progress_repeats :: u32
  rl_max_virtual_time_us :: u64

definition RUN_CONTROLLER_DEFAULT :: run_controller_limits where
  "RUN_CONTROLLER_DEFAULT = \<lparr>rl_max_turns = 1000, rl_max_actions_per_turn = 16, rl_max_same_time_progress_repeats = 5,
     rl_max_virtual_time_us = 100000000\<rparr>"

record run_controller =
  rc_clock :: linux_virtual_clock
  rc_action_queue :: action_queue
  rc_event_queue :: app_event_queue
  rc_scheduler :: scheduler
  rc_fsm :: system_mode_manager
  rc_repo :: data_repository
  rc_limits :: run_controller_limits
  rc_progress_signature :: u64
  rc_same_time_progress_count :: u32
  rc_last_progress_time_us :: u64
  rc_turn_count :: u32

section \<open>A turn\<close>

definition compute_signature :: "timespec \<Rightarrow> run_controller \<Rightarrow> u64" where
  "compute_signature host c =
     linux_clock_now_us host (rc_clock c) + of_nat (app_event_queue_get_count (rc_event_queue c))
     + of_nat (action_queue_get_count (rc_action_queue c)) + smc_transition_sequence (system_fsm_get_context (rc_fsm c))"

definition run_controller_init ::
  "linux_virtual_clock \<Rightarrow> action_queue \<Rightarrow> app_event_queue \<Rightarrow> scheduler \<Rightarrow> system_mode_manager \<Rightarrow> data_repository \<Rightarrow>
   run_controller_limits option \<Rightarrow> run_controller" where
  "run_controller_init clock aq eq sch fsm repo limits =
     \<lparr>rc_clock = clock, rc_action_queue = aq, rc_event_queue = eq, rc_scheduler = sch, rc_fsm = fsm, rc_repo = repo,
      rc_limits = (case limits of Some l \<Rightarrow> l | None \<Rightarrow> RUN_CONTROLLER_DEFAULT),
      rc_progress_signature = 0, rc_same_time_progress_count = 0, rc_last_progress_time_us = 0, rc_turn_count = 0\<rparr>"

text \<open>The event for a dispatched action.\<close>

definition action_event :: "u64 \<Rightarrow> scheduled_action \<Rightarrow> app_event" where
  "action_event now a =
     zero_event\<lparr>ev_id := 0x0380 + of_nat (class_index (sa_action_class a)), ev_source_id := sa_resource_id a,
       ev_priority := EVENT_PRIO_MEASUREMENT, ev_delivery := DELIVERY_COMPLETION, ev_correlation_id := sa_correlation_id a,
       ev_source_generation := sa_resource_generation a, ev_monotonic_timestamp_us := now\<rparr>"

text \<open>The first two parts of a turn: due actions and due jobs become events.\<close>

definition ingest :: "(nat \<Rightarrow> u64) \<Rightarrow> u64 \<Rightarrow> run_controller \<Rightarrow> nat \<times> run_controller" where
  "ingest due_clock now c =
     (let (actions, aq) = action_queue_dispatch_due now (unat (ucast (rl_max_actions_per_turn (rc_limits c)) :: u16)) (rc_action_queue c);
          eq = post_all (rc_event_queue c) (map (action_event now) actions);
          (due, sch) = scheduler_dispatch_due due_clock (rc_scheduler c) now 16
      in (length actions, c\<lparr>rc_action_queue := aq, rc_event_queue := post_all eq due, rc_scheduler := sch\<rparr>))"

text \<open>The event loop.\<close>

definition loop_turn :: "run_controller \<Rightarrow> run_controller" where
  "loop_turn c =
     (case app_event_loop_run_once_raw (rc_event_queue c) (rc_fsm c) (rc_repo c) (rc_scheduler c) of
        (eq, fsm, repo, sch) \<Rightarrow> c\<lparr>rc_event_queue := eq, rc_fsm := fsm, rc_repo := repo, rc_scheduler := sch\<rparr>)"

text \<open>The pending actions; a reset request ends the process.\<close>

definition execute_actions :: "run_controller \<Rightarrow> run_controller option" where
  "execute_actions c =
     (let mask = system_fsm_get_pending_actions (rc_fsm c)
      in if mask AND ACTION_REQUEST_RESET \<noteq> 0 then None
         else if mask \<noteq> ACTION_NONE then Some (c\<lparr>rc_fsm := system_fsm_clear_actions (rc_fsm c)\<rparr>)
         else Some c)"

text \<open>The next deadline; the variable of the caller keeps its value when there is none.\<close>

definition turn_deadline :: "u64 \<Rightarrow> run_controller \<Rightarrow> u64" where
  "turn_deadline next_deadline_us c =
     (case (scheduler_get_next_deadline (rc_scheduler c), action_queue_next_deadline (rc_action_queue c)) of
        (Some sched_dl, Some act_dl) \<Rightarrow> if sched_dl < act_dl then sched_dl else act_dl
      | (Some sched_dl, None) \<Rightarrow> sched_dl
      | (None, Some act_dl) \<Rightarrow> act_dl
      | (None, None) \<Rightarrow> next_deadline_us)"

definition run_controller_one_turn ::
  "timespec \<Rightarrow> timespec \<Rightarrow> (nat \<Rightarrow> u64) \<Rightarrow> u64 \<Rightarrow> run_controller \<Rightarrow> (run_status \<times> u64 \<times> run_controller) option" where
  "run_controller_one_turn host1 host2 due_clock next_deadline_us c0 =
     (let now = linux_clock_now_us host1 (rc_clock c0);
          (num_actions, c1) = ingest due_clock now c0
      in case execute_actions (loop_turn c1) of
           None \<Rightarrow> None
         | Some c2 \<Rightarrow>
             let new_sig = compute_signature host2 c2;
                 made_progress = (new_sig \<noteq> rc_progress_signature c2);
                 c3 = c2\<lparr>rc_progress_signature := new_sig, rc_turn_count := rc_turn_count c2 + 1\<rparr>;
                 has_queue_work = (app_event_queue_get_count (rc_event_queue c3) > 0);
                 dl = turn_deadline next_deadline_us c3
             in if made_progress \<or> has_queue_work \<or> num_actions > 0 then Some (RUN_PROGRESS, dl, c3)
                else if now = rc_last_progress_time_us c3 then
                  (let c4 = c3\<lparr>rc_same_time_progress_count := rc_same_time_progress_count c3 + 1\<rparr>
                   in if rc_same_time_progress_count c4 \<ge> rl_max_same_time_progress_repeats (rc_limits c4)
                      then Some (RUN_LIVELOCK, dl, c4) else Some (RUN_IDLE, dl, c4))
                else Some (RUN_IDLE, dl, c3\<lparr>rc_same_time_progress_count := 0, rc_last_progress_time_us := now\<rparr>))"

section \<open>A run\<close>

text \<open>The clocks of a run: the host reading at the start, and per turn the readings of the turn, of the idle case, and
  of the scheduler's clock.\<close>

record run_clocks =
  rk_start :: timespec
  rk_turn :: "nat \<Rightarrow> timespec"
  rk_signature :: "nat \<Rightarrow> timespec"
  rk_idle :: "nat \<Rightarrow> timespec"
  rk_due :: "nat \<Rightarrow> nat \<Rightarrow> u64"

text \<open>The loop: \<open>n\<close> turns left, \<open>k\<close> done.\<close>

fun until_idle_loop :: "run_clocks \<Rightarrow> u64 \<Rightarrow> nat \<Rightarrow> nat \<Rightarrow> run_controller \<Rightarrow> (run_status \<times> run_controller) option" where
  "until_idle_loop clk start 0 k c = Some (RUN_STEP_LIMIT, c)"
| "until_idle_loop clk start (Suc n) k c =
     (case run_controller_one_turn (rk_turn clk k) (rk_signature clk k) (rk_due clk k) 0 c of
        None \<Rightarrow> None
      | Some (status, next_dl, c1) \<Rightarrow>
          (case status of
             RUN_PROGRESS \<Rightarrow> until_idle_loop clk start n (Suc k) c1
           | RUN_IDLE \<Rightarrow>
               if next_dl > 0 then
                 (if next_dl \<le> linux_clock_now_us (rk_idle clk k) (rc_clock c1) then until_idle_loop clk start n (Suc k) c1
                  else if next_dl > start + rl_max_virtual_time_us (rc_limits c1) then Some (RUN_IDLE, c1)
                  else until_idle_loop clk start n (Suc k) (c1\<lparr>rc_clock := snd (linux_clock_advance_to next_dl (rc_clock c1))\<rparr>))
               else Some (RUN_IDLE, c1)
           | _ \<Rightarrow> Some (status, c1)))"

definition run_controller_until_idle :: "run_clocks \<Rightarrow> run_controller \<Rightarrow> (run_status \<times> run_controller) option" where
  "run_controller_until_idle clk c =
     until_idle_loop clk (linux_clock_now_us (rk_start clk) (rc_clock c)) (unat (rl_max_turns (rc_limits c))) 0 c"

section \<open>Facts of a turn\<close>

lemma ingest_frame:
  "ingest due_clock now c = (n, c1) \<Longrightarrow> rc_clock c1 = rc_clock c \<and> rc_limits c1 = rc_limits c \<and>
     rc_last_progress_time_us c1 = rc_last_progress_time_us c \<and> rc_same_time_progress_count c1 = rc_same_time_progress_count c
     \<and> rc_progress_signature c1 = rc_progress_signature c \<and> rc_fsm c1 = rc_fsm c \<and> rc_repo c1 = rc_repo c"
  by (auto simp: ingest_def Let_def split: prod.splits)

lemma loop_turn_frame [simp]:
  "rc_clock (loop_turn c) = rc_clock c" "rc_limits (loop_turn c) = rc_limits c" "rc_action_queue (loop_turn c) = rc_action_queue c"
  "rc_last_progress_time_us (loop_turn c) = rc_last_progress_time_us c" "rc_progress_signature (loop_turn c) = rc_progress_signature c"
  "rc_same_time_progress_count (loop_turn c) = rc_same_time_progress_count c"
  by (simp_all add: loop_turn_def split: prod.splits)

lemma execute_frame:
  "execute_actions c = Some c1 \<Longrightarrow> rc_clock c1 = rc_clock c \<and> rc_limits c1 = rc_limits c \<and> rc_action_queue c1 = rc_action_queue c \<and>
     rc_event_queue c1 = rc_event_queue c \<and> rc_scheduler c1 = rc_scheduler c \<and> rc_repo c1 = rc_repo c \<and>
     rc_last_progress_time_us c1 = rc_last_progress_time_us c \<and> rc_progress_signature c1 = rc_progress_signature c \<and>
     rc_same_time_progress_count c1 = rc_same_time_progress_count c"
  by (auto simp: execute_actions_def Let_def split: if_splits)

lemma turn_frame:
  assumes "run_controller_one_turn h1 h2 dc nd c = Some (status, dl, c1)"
  shows "rc_clock c1 = rc_clock c \<and> rc_limits c1 = rc_limits c \<and> dl = turn_deadline nd c1 \<and>
    (status = RUN_IDLE \<or> status = RUN_LIVELOCK \<longrightarrow> app_event_queue_get_count (rc_event_queue c1) = 0) \<and>
    status \<noteq> RUN_STEP_LIMIT \<and> status \<noteq> RUN_ERROR"
proof -
  obtain n ci where i: "ingest dc (linux_clock_now_us h1 (rc_clock c)) c = (n, ci)" by (rule prod.exhaust)
  obtain c2 where e: "execute_actions (loop_turn ci) = Some c2"
    using assms i by (auto simp: run_controller_one_turn_def Let_def split: option.splits)
  have d: "turn_deadline nd (c2\<lparr>rc_progress_signature := s, rc_turn_count := t\<rparr>) = turn_deadline nd c2"
    "turn_deadline nd (c2\<lparr>rc_progress_signature := s, rc_turn_count := t, rc_same_time_progress_count := m\<rparr>) = turn_deadline nd c2"
    "turn_deadline nd (c2\<lparr>rc_progress_signature := s, rc_turn_count := t, rc_same_time_progress_count := m, rc_last_progress_time_us := l\<rparr>) = turn_deadline nd c2"
    for s t m l by (simp_all add: turn_deadline_def)
  show ?thesis using assms i e execute_frame [OF e] ingest_frame [OF i]
    by (auto simp: run_controller_one_turn_def Let_def d split: if_splits)
qed

section \<open>What an idle run leaves\<close>

abbreviation deterministic :: "run_controller \<Rightarrow> bool" where
  "deterministic c \<equiv> lc_mode (rc_clock c) = LINUX_CLOCK_MODE_DETERMINISTIC"

lemma turn_keeps_queue:
  assumes "run_controller_one_turn h1 h2 dc nd c = Some (status, dl, c1)" "queue_ok (rc_action_queue c)"
  shows "queue_ok (rc_action_queue c1)"
proof -
  obtain n ci where i: "ingest dc (linux_clock_now_us h1 (rc_clock c)) c = (n, ci)" by (rule prod.exhaust)
  obtain c2 where e: "execute_actions (loop_turn ci) = Some c2"
    using assms i by (auto simp: run_controller_one_turn_def Let_def split: option.splits)
  have "queue_ok (rc_action_queue ci)"
    using i dispatch_in_order [OF assms(2)] by (auto simp: ingest_def action_queue_dispatch_due_def Let_def split: prod.splits)
  then show ?thesis using assms(1) i e execute_frame [OF e]
    by (auto simp: run_controller_one_turn_def Let_def split: if_splits)
qed

lemma until_idle_time:
  assumes "until_idle_loop clk start n k c = Some (status, c')" "deterministic c" "queue_ok (rc_action_queue c)"
    and "start \<le> lc_now_us (rc_clock c)" "lc_now_us (rc_clock c) \<le> start + rl_max_virtual_time_us (rc_limits c)"
  shows "start \<le> lc_now_us (rc_clock c') \<and> lc_now_us (rc_clock c') \<le> start + rl_max_virtual_time_us (rc_limits c) \<and>
    (status = RUN_IDLE \<longrightarrow> app_event_queue_get_count (rc_event_queue c') = 0 \<and> queue_ok (rc_action_queue c') \<and>
      (turn_deadline 0 c' = 0 \<or> start + rl_max_virtual_time_us (rc_limits c) < turn_deadline 0 c'))"
  using assms
proof (induction n arbitrary: k c)
  case 0
  then show ?case by auto
next
  case (Suc n)
  let ?t = "run_controller_one_turn (rk_turn clk k) (rk_signature clk k) (rk_due clk k) 0 c"
  obtain st dl c1 where t: "?t = Some (st, dl, c1)" using Suc.prems(1) by (auto split: option.splits)
  note f = turn_frame [OF t] and q = turn_keeps_queue [OF t Suc.prems(3)]
  have c1: "deterministic c1" "start \<le> lc_now_us (rc_clock c1)" "lc_now_us (rc_clock c1) \<le> start + rl_max_virtual_time_us (rc_limits c1)"
    "rc_limits c1 = rc_limits c" using f Suc.prems by simp_all
  show ?case
  proof (cases st)
    case RUN_PROGRESS
    then have "until_idle_loop clk start n (Suc k) c1 = Some (status, c')" using Suc.prems(1) t by simp
    from Suc.IH [OF this c1(1) q c1(2,3)] show ?thesis using c1(4) by simp
  next
    case RUN_IDLE
    show ?thesis
    proof (cases "dl = 0 \<or> \<not> dl \<le> linux_clock_now_us (rk_idle clk k) (rc_clock c1) \<and> start + rl_max_virtual_time_us (rc_limits c1) < dl")
      case True
      moreover have "0 < dl" if "h < dl" for h using order_le_less_trans [OF word_zero_le that] .
      ultimately have "status = RUN_IDLE" "c' = c1" using Suc.prems(1) t RUN_IDLE by (auto split: if_splits)
      then show ?thesis using True f q c1 RUN_IDLE by auto
    next
      case False
      define c2 where "c2 = (if dl \<le> linux_clock_now_us (rk_idle clk k) (rc_clock c1) then c1
        else c1\<lparr>rc_clock := snd (linux_clock_advance_to dl (rc_clock c1))\<rparr>)"
      have r: "until_idle_loop clk start n (Suc k) c2 = Some (status, c')"
        using Suc.prems(1) t RUN_IDLE False by (auto simp: c2_def word_neq_0_conv split: if_splits)
      have now: "linux_clock_now_us h (rc_clock c1) = lc_now_us (rc_clock c1)" for h using c1 by (simp add: linux_clock_now_us_def)
      have "start \<le> dl" if "\<not> dl \<le> lc_now_us (rc_clock c1)"
        by (rule order.trans [OF c1(2)]) (use that in simp)
      then have "deterministic c2" "queue_ok (rc_action_queue c2)" "start \<le> lc_now_us (rc_clock c2)"
        "lc_now_us (rc_clock c2) \<le> start + rl_max_virtual_time_us (rc_limits c2)" "rc_limits c2 = rc_limits c1"
        using c1 q False by (auto simp: c2_def linux_clock_advance_to_def now not_le not_less)
      from Suc.IH [OF r this(1-4)] show ?thesis using c1(4) \<open>rc_limits c2 = rc_limits c1\<close> by simp
    qed
  qed (use Suc.prems(1) t f q c1 in auto)
qed

lemma earlier_deadline:
  fixes A B :: "'a :: linorder set"
  assumes "case x of None \<Rightarrow> A = {} | Some t \<Rightarrow> t \<in> A \<and> (\<forall>b \<in> A. t \<le> b)"
    and "case y of None \<Rightarrow> B = {} | Some t \<Rightarrow> t \<in> B \<and> (\<forall>b \<in> B. t \<le> b)" and "A \<union> B \<noteq> {}"
    and "d = (case (y, x) of (Some s, Some a) \<Rightarrow> if s < a then s else a | (Some s, None) \<Rightarrow> s | (None, Some a) \<Rightarrow> a | (None, None) \<Rightarrow> z)"
  shows "d \<in> A \<union> B \<and> (\<forall>b \<in> A \<union> B. d \<le> b)"
  using assms by (cases x; cases y) (auto split: if_splits intro: order.trans less_imp_le)

text \<open>C32: what an idle simulation leaves.  A run on the deterministic clock keeps the time between its start and the
  horizon, and when it reports idle, no event is queued and every pending action and job is due after
  the horizon, unless one of them is due at time 0, which the loop takes for no deadline.\<close>

theorem idle_run_has_no_due_work:
  assumes "run_controller_until_idle clk c = Some (status, c')" "deterministic c" "queue_ok (rc_action_queue c)"
    and "horizon = lc_now_us (rc_clock c) + rl_max_virtual_time_us (rc_limits c)" "lc_now_us (rc_clock c) \<le> horizon"
  shows "lc_now_us (rc_clock c) \<le> lc_now_us (rc_clock c') \<and> lc_now_us (rc_clock c') \<le> horizon \<and>
    (status = RUN_IDLE \<longrightarrow> app_event_queue_get_count (rc_event_queue c') = 0 \<and>
      (let deadlines = sa_due_us ` set_mset (pending (rc_action_queue c')) \<union> sj_deadline_us ` set (rc_scheduler c')
       in 0 \<in> deadlines \<or> (\<forall>t \<in> deadlines. horizon < t)))"
proof -
  have now: "linux_clock_now_us h (rc_clock c) = lc_now_us (rc_clock c)" for h using assms(2) by (simp add: linux_clock_now_us_def)
  note l = until_idle_time [OF assms(1) [unfolded run_controller_until_idle_def now] assms(2,3) order.refl, folded assms(4), OF assms(5)]
  let ?A = "sa_due_us ` set_mset (pending (rc_action_queue c'))" and ?J = "sj_deadline_us ` set (rc_scheduler c')"
  have "0 \<in> ?A \<union> ?J \<or> (\<forall>t \<in> ?A \<union> ?J. horizon < t)"
    if q: "queue_ok (rc_action_queue c')" and d: "turn_deadline 0 c' = 0 \<or> horizon < turn_deadline 0 c'"
  proof (cases "?A \<union> ?J = {}")
    case False
    have a: "case action_queue_next_deadline (rc_action_queue c') of None \<Rightarrow> ?A = {} | Some t \<Rightarrow> t \<in> ?A \<and> (\<forall>b \<in> ?A. t \<le> b)"
      using next_deadline_least [OF q] by (auto split: option.splits)
    have j: "case scheduler_get_next_deadline (rc_scheduler c') of None \<Rightarrow> ?J = {} | Some t \<Rightarrow> t \<in> ?J \<and> (\<forall>b \<in> ?J. t \<le> b)"
      by (cases "rc_scheduler c' = []") (auto simp: next_deadline_min intro: Min_le Min_in simp del: set_empty)
    have "turn_deadline 0 c' \<in> ?A \<union> ?J \<and> (\<forall>b \<in> ?A \<union> ?J. turn_deadline 0 c' \<le> b)"
      by (rule earlier_deadline [OF a j False turn_deadline_def])
    then show ?thesis using d by (auto intro: order_less_le_trans)
  qed simp
  then show ?thesis using l unfolding Let_def by blast
qed

section \<open>Calls on an idle controller\<close>

text \<open>Nothing queued, scheduled or pending, and nothing changed since the last turn, which was at this time.\<close>

definition idle_controller :: "run_controller \<Rightarrow> bool" where
  "idle_controller c \<longleftrightarrow> q_count (rc_event_queue c) = 0 \<and> rc_scheduler c = [] \<and> aq_count (rc_action_queue c) = 0 \<and> deterministic c \<and>
     system_fsm_get_pending_actions (rc_fsm c) = ACTION_NONE \<and> rc_last_progress_time_us c = lc_now_us (rc_clock c) \<and>
     rc_progress_signature c = lc_now_us (rc_clock c) + smc_transition_sequence (system_fsm_get_context (rc_fsm c))"

lemma fresh_idle:
  "idle_controller (run_controller_init (linux_clock_init LINUX_CLOCK_MODE_DETERMINISTIC) action_queue_init (app_event_queue_init cfg)
     scheduler_init system_fsm_init data_repository_init limits)"
  by (simp add: idle_controller_def run_controller_init_def linux_clock_init_def action_queue_init_def app_event_queue_init_def
      scheduler_init_def system_fsm_init_def system_fsm_get_pending_actions_def system_fsm_get_context_def Let_def split: option.splits)

lemma no_event: "q_count q = 0 \<Longrightarrow> fst (app_event_queue_try_get q) = None \<and> fst (snd (app_event_queue_try_get q)) = q"
  using try_get_None_iff [of q] by (simp add: app_event_queue_try_get_def Let_def)

lemma idle_loop_turn:
  assumes "q_count (rc_event_queue c) = 0"
  shows "loop_turn c = c"
proof -
  obtain x y z where t: "app_event_queue_try_get (rc_event_queue c) = (x, y, z)" by (metis prod.exhaust)
  then have "x = None" "y = rc_event_queue c" using no_event [OF assms] by simp_all
  then have "run_once_raw_steps n (rc_event_queue c) f r js = (rc_event_queue c, f, r, js)" for n f r js
    using t by (cases n) simp_all
  then show ?thesis by (simp add: loop_turn_def app_event_loop_run_once_raw_def)
qed

definition count_idle_turn :: "run_controller \<Rightarrow> run_controller" where
  "count_idle_turn c = c\<lparr>rc_turn_count := rc_turn_count c + 1, rc_same_time_progress_count := rc_same_time_progress_count c + 1\<rparr>"

lemma idle_turn:
  assumes "idle_controller c"
  shows "run_controller_one_turn h1 h2 dc nd c =
    Some (if rl_max_same_time_progress_repeats (rc_limits c) \<le> rc_same_time_progress_count c + 1 then RUN_LIVELOCK else RUN_IDLE,
      nd, count_idle_turn c)"
proof -
  have now: "linux_clock_now_us h (rc_clock c) = lc_now_us (rc_clock c)" for h using assms by (simp add: idle_controller_def linux_clock_now_us_def)
  have d: "dispatch_actions t n (rc_action_queue c) = ([], rc_action_queue c)" for t n
    using assms by (cases n) (simp_all add: idle_controller_def)
  have s: "scheduler_dispatch_due dc [] t k = ([], [])" for t k
    by (simp add: scheduler_dispatch_due_def)
  have i: "ingest dc t c = (0, c)" for t
    using assms by (simp add: ingest_def action_queue_dispatch_due_def d s idle_controller_def post_all_def Let_def)
  have e: "execute_actions (loop_turn c) = Some c"
    using assms idle_loop_turn [of c] by (simp add: execute_actions_def idle_controller_def)
  have g: "compute_signature h2 c = rc_progress_signature c"
    using assms by (simp add: compute_signature_def now app_event_queue_get_count_def action_queue_get_count_def idle_controller_def)
  have "turn_deadline nd (c\<lparr>rc_progress_signature := x, rc_turn_count := rc_turn_count c + 1\<rparr>) = nd" for x
    using assms by (simp add: turn_deadline_def idle_controller_def action_queue_next_deadline_def scheduler_get_next_deadline_def)
  moreover have "c\<lparr>rc_progress_signature := lc_now_us (rc_clock c) + smc_transition_sequence (system_fsm_get_context (rc_fsm c)),
      rc_turn_count := t, rc_same_time_progress_count := m\<rparr> = c\<lparr>rc_turn_count := t, rc_same_time_progress_count := m\<rparr>" for t m
    using assms by (simp add: idle_controller_def)
  ultimately show ?thesis using assms
    by (simp add: run_controller_one_turn_def now i e g Let_def idle_controller_def app_event_queue_get_count_def count_idle_turn_def)
qed

lemma count_idle_turn_idle: "idle_controller c \<Longrightarrow> idle_controller (count_idle_turn c)"
  by (simp add: idle_controller_def count_idle_turn_def)

lemma idle_run:
  assumes "idle_controller c" "0 < rl_max_turns (rc_limits c)"
  shows "run_controller_until_idle clk c =
    Some (if rl_max_same_time_progress_repeats (rc_limits c) \<le> rc_same_time_progress_count c + 1 then RUN_LIVELOCK else RUN_IDLE,
      count_idle_turn c)"
proof -
  obtain n where "unat (rl_max_turns (rc_limits c)) = Suc n"
    using assms(2) by (cases "unat (rl_max_turns (rc_limits c))") (auto simp: unat_eq_0)
  then show ?thesis by (simp add: run_controller_until_idle_def idle_turn [OF assms(1)])
qed

text \<open>The status of the n-th of a sequence of runs, each with its clocks.\<close>

fun nth_run :: "(nat \<Rightarrow> run_clocks) \<Rightarrow> nat \<Rightarrow> run_controller \<Rightarrow> run_status option" where
  "nth_run clks 0 c = map_option fst (run_controller_until_idle (clks 0) c)"
| "nth_run clks (Suc n) c =
     (case run_controller_until_idle (clks 0) c of None \<Rightarrow> None | Some (_, c1) \<Rightarrow> nth_run (\<lambda>i. clks (Suc i)) n c1)"

text \<open>C33: an idle simulation ends in a livelock report.  When nothing is queued, scheduled or pending, each call that runs the
  simulation until it is idle adds one to a counter that only a change of time resets; as soon as the counter
  reaches the limit (by default in the fifth call) the call reports a livelock instead of idle.\<close>

theorem idle_controller_reports_livelock:
  assumes "idle_controller c" "0 < rl_max_turns (rc_limits c)" "unat (rc_same_time_progress_count c) + n + 1 < 2 ^ 32"
  shows "nth_run clks n c = Some
    (if unat (rl_max_same_time_progress_repeats (rc_limits c)) \<le> unat (rc_same_time_progress_count c) + n + 1
     then RUN_LIVELOCK else RUN_IDLE)"
  using assms
proof (induction n arbitrary: c clks)
  case 0
  then have "unat (rc_same_time_progress_count c + 1) = unat (rc_same_time_progress_count c) + 1" by (simp add: unat_inc)
  then show ?case using idle_run [OF 0(1,2)] by (simp add: word_le_nat_alt)
next
  case (Suc n)
  let ?c = "count_idle_turn c"
  have "unat (rc_same_time_progress_count c + 1) = unat (rc_same_time_progress_count c) + 1" using Suc.prems(3) by (simp add: unat_inc)
  then have "unat (rc_same_time_progress_count ?c) = unat (rc_same_time_progress_count c) + 1" "rc_limits ?c = rc_limits c"
    by (simp_all add: count_idle_turn_def)
  then show ?case using idle_run [OF Suc.prems(1,2)] Suc.IH [OF count_idle_turn_idle [OF Suc.prems(1)]] Suc.prems(2,3) by simp
qed

definition sample_run_controller :: run_controller where
  "sample_run_controller = run_controller_init (linux_clock_init LINUX_CLOCK_MODE_DETERMINISTIC) action_queue_init
     (app_event_queue_init None) scheduler_init system_fsm_init data_repository_init None"

definition sample_clocks :: run_clocks where
  "sample_clocks = (let t = \<lparr>tv_sec = 0, tv_nsec = 0\<rparr>
     in \<lparr>rk_start = t, rk_turn = (\<lambda>_. t), rk_signature = (\<lambda>_. t), rk_idle = (\<lambda>_. t), rk_due = (\<lambda>_ _. 0)\<rparr>)"

lemma idle_controller_reports_livelock_witness:
  "nth_run (\<lambda>_. sample_clocks) 3 sample_run_controller = Some RUN_IDLE \<and>
   nth_run (\<lambda>_. sample_clocks) 4 sample_run_controller = Some RUN_LIVELOCK"
proof -
  have c: "idle_controller sample_run_controller" unfolding sample_run_controller_def by (rule fresh_idle)
  have l: "rl_max_turns (rc_limits sample_run_controller) = 1000" "rc_same_time_progress_count sample_run_controller = 0"
    "rl_max_same_time_progress_repeats (rc_limits sample_run_controller) = 5"
    by (simp_all add: sample_run_controller_def run_controller_init_def RUN_CONTROLLER_DEFAULT_def)
  show ?thesis using idle_controller_reports_livelock [OF c, of 3 "\<lambda>_. sample_clocks"]
      idle_controller_reports_livelock [OF c, of 4 "\<lambda>_. sample_clocks"] unfolding l by simp
qed

text \<open>A job at 2000 and an action at 100000001, after the horizon.\<close>

definition busy_run_controller :: run_controller where
  "busy_run_controller = sample_run_controller\<lparr>
     rc_action_queue := snd (action_queue_schedule (zero_action\<lparr>sa_due_us := 100000001\<rparr>) action_queue_init),
     rc_scheduler := snd (scheduler_schedule_one_shot scheduler_init 1 1 EVT_POWER_SAMPLE_DUE 2000 1 EVENT_PRIO_BACKGROUND)\<rparr>"

lemma idle_run_has_no_due_work_witness:
  "case run_controller_until_idle sample_clocks busy_run_controller of None \<Rightarrow> False
   | Some (status, c') \<Rightarrow> status = RUN_IDLE \<and> lc_now_us (rc_clock c') = 2000 \<and>
       (\<forall>t \<in> sa_due_us ` set_mset (pending (rc_action_queue c')) \<union> sj_deadline_us ` set (rc_scheduler c'). 100000000 < t)"
proof -
  obtain status c' where r: "run_controller_until_idle sample_clocks busy_run_controller = Some (status, c')"
    and v: "status = RUN_IDLE" "lc_now_us (rc_clock c') = 2000"
      "0 \<notin> sa_due_us ` set_mset (pending (rc_action_queue c')) \<union> sj_deadline_us ` set (rc_scheduler c')"
  proof -
    have "case run_controller_until_idle sample_clocks busy_run_controller of None \<Rightarrow> False
      | Some (status, c') \<Rightarrow> status = RUN_IDLE \<and> lc_now_us (rc_clock c') = 2000 \<and>
          0 \<notin> sa_due_us ` set_mset (pending (rc_action_queue c')) \<union> sj_deadline_us ` set (rc_scheduler c')"
      by code_simp
    then show thesis using that by (auto split: option.splits)
  qed
  have q: "queue_ok (rc_action_queue busy_run_controller)"
    using schedule_refines [OF init_ok(1)] by (simp add: busy_run_controller_def) (metis prod.collapse)
  have l: "deterministic busy_run_controller" "rl_max_virtual_time_us (rc_limits busy_run_controller) = 100000000"
    "lc_now_us (rc_clock busy_run_controller) = 0"
    by (simp_all add: busy_run_controller_def sample_run_controller_def run_controller_init_def RUN_CONTROLLER_DEFAULT_def linux_clock_init_def)
  show ?thesis using idle_run_has_no_due_work [OF r l(1) q refl] v unfolding l r by (simp add: Let_def)
qed

text \<open>The events for completed transfers carry ids of other meanings: the completion of an I2C transfer arrives as the failure of one,
  and the completion of an SPI transfer as the completion of an I2C transfer.\<close>

lemma completions_are_misfiled:
  "sa_action_class a = ACTION_CLASS_I2C_COMPLETION \<Longrightarrow> ev_id (action_event now a) = EVT_I2C_TRANSACTION_FAILED"
  "sa_action_class a = ACTION_CLASS_SPI_COMPLETION \<Longrightarrow> ev_id (action_event now a) = EVT_I2C_TRANSACTION_COMPLETED"
  by (simp_all add: action_event_def)

end
