(* ===== verification/Linux_Peers.thy ===== *)
theory Linux_Peers
  imports Sensors
begin

text \<open>
  The simulated sensors of the host build: the flow sensor (platform/linux/peers/peer_max35103.c) and the
  pressure sensor (platform/linux/peers/peer_zssc3241.c).  A planned transfer takes the transmitted bytes and the
  contents of the receive buffer (None for a null pointer) and returns acceptance, the buffer afterwards, the
  latency, the status flags and the peer; latency and flags are 0 where the code leaves the caller's zeros.
\<close>

type_synonym plan_result = "bool \<times> bytes option \<times> u64 \<times> u32"

section \<open>The flow sensor\<close>

datatype max_peer_state =
  MAX_PEER_IDLE | MAX_PEER_RESET | MAX_PEER_CONFIGURED | MAX_PEER_EVENT_TIMING | MAX_PEER_CYCLE_PENDING
| MAX_PEER_RESULT_READY | MAX_PEER_FAULT

datatype max_peer_fault =
  MAX_FAULT_NONE | MAX_FAULT_NO_COMPLETION | MAX_FAULT_MISSING_INT | MAX_FAULT_DUPLICATE_INT | MAX_FAULT_INT_ALREADY_ACTIVE
| MAX_FAULT_INVALID_RESULT | MAX_FAULT_PARTIAL_RESULT | MAX_FAULT_UNEXPECTED_RESET

record max35103_peer =
  mp_state :: max_peer_state
  mp_fault :: max_peer_fault
  mp_generation :: u32
  mp_cycle_count :: u64
  mp_int_assert_count :: u64
  mp_cycle_latency_us :: u64
  mp_spi_latency_us :: u64
  mp_int_active :: bool
  mp_spi_operations :: u32
  mp_register_reads :: u32
  mp_unsupported_cmds :: u32

definition max_peer_init :: max35103_peer where
  "max_peer_init = \<lparr>mp_state = MAX_PEER_IDLE, mp_fault = MAX_FAULT_NONE, mp_generation = 1, mp_cycle_count = 0,
     mp_int_assert_count = 0, mp_cycle_latency_us = 40000, mp_spi_latency_us = 50, mp_int_active = False,
     mp_spi_operations = 0, mp_register_reads = 0, mp_unsupported_cmds = 0\<rparr>"

definition max_peer_reset :: "bool \<Rightarrow> max35103_peer \<Rightarrow> max35103_peer" where
  "max_peer_reset unexpected p =
     (let p1 = p\<lparr>mp_state := MAX_PEER_RESET, mp_generation := mp_generation p + 1, mp_int_active := False\<rparr>
      in if \<not> unexpected then p1\<lparr>mp_state := MAX_PEER_IDLE\<rparr> else p1)"

definition max_peer_configure :: "max35103_peer \<Rightarrow> max35103_peer" where
  "max_peer_configure p = p\<lparr>mp_state := MAX_PEER_CONFIGURED\<rparr>"

definition max_peer_schedule_cycle :: "u64 \<Rightarrow> max35103_peer \<Rightarrow> u64 \<times> max35103_peer" where
  "max_peer_schedule_cycle start_us p =
     (let p1 = p\<lparr>mp_state := MAX_PEER_CYCLE_PENDING, mp_cycle_count := mp_cycle_count p + 1\<rparr>
      in if mp_fault p1 = MAX_FAULT_MISSING_INT then (start_us + mp_cycle_latency_us p1, p1\<lparr>mp_int_active := False\<rparr>)
         else (start_us + 100, p1\<lparr>mp_int_active := True, mp_int_assert_count := mp_int_assert_count p1 + 1\<rparr>))"

definition max_peer_clear_int :: "max35103_peer \<Rightarrow> max35103_peer" where
  "max_peer_clear_int p = p\<lparr>mp_int_active := False\<rparr>"

definition max_peer_is_int_active :: "max35103_peer \<Rightarrow> bool" where
  "max_peer_is_int_active p = mp_int_active p"

definition max_peer_set_fault :: "max_peer_fault \<Rightarrow> max35103_peer \<Rightarrow> max35103_peer" where
  "max_peer_set_fault fault p = p\<lparr>mp_fault := fault\<rparr>"

text \<open>The receive buffer of a register read; transmit and receive buffer have one length.\<close>

definition max_peer_fill :: "max_peer_fault \<Rightarrow> bytes option \<Rightarrow> bytes option" where
  "max_peer_fill fault rx =
     (case rx of None \<Rightarrow> None
      | Some bs \<Rightarrow>
          if length bs < 2 then Some bs
          else if fault = MAX_FAULT_INVALID_RESULT then Some (bs[1 := 0xFF])
          else if fault = MAX_FAULT_PARTIAL_RESULT
          then Some (bs ! 0 # map (\<lambda>i. if i < length bs div 2 then 0xAA else 0) [1..<length bs])
          else Some (bs[1 := 0xAA]))"

definition max_peer_plan_spi :: "bytes option \<Rightarrow> bytes option \<Rightarrow> max35103_peer \<Rightarrow> plan_result \<times> max35103_peer" where
  "max_peer_plan_spi tx rx p =
     (if mp_fault p = MAX_FAULT_NO_COMPLETION then ((False, rx, 0, 0), p)
      else
        let p1 = p\<lparr>mp_spi_operations := mp_spi_operations p + 1\<rparr>;
            finish = (\<lambda>rx p. ((True, rx, mp_spi_latency_us p, 0),
              if mp_fault p = MAX_FAULT_DUPLICATE_INT then p\<lparr>mp_int_active := True\<rparr> else p))
        in case tx of
             None \<Rightarrow> finish rx p1
           | Some [] \<Rightarrow> finish rx p1
           | Some (cmd # _) \<Rightarrow>
               if cmd AND 0x80 = 0
               then finish (max_peer_fill (mp_fault p1) rx) (p1\<lparr>mp_register_reads := mp_register_reads p1 + 1\<rparr>)
               else if cmd = 0xFF
               then ((False, rx, mp_spi_latency_us p1, 1), p1\<lparr>mp_unsupported_cmds := mp_unsupported_cmds p1 + 1\<rparr>)
               else finish rx p1)"

section \<open>The pressure sensor\<close>

datatype zssc_peer_state = ZSSC_PEER_SLEEP | ZSSC_PEER_IDLE | ZSSC_PEER_CONVERTING | ZSSC_PEER_RESULT_READY | ZSSC_PEER_FAULT

datatype zssc_peer_fault =
  ZSSC_FAULT_NONE | ZSSC_FAULT_NO_COMPLETION | ZSSC_FAULT_MISSING_EOC | ZSSC_FAULT_DUPLICATE_EOC | ZSSC_FAULT_STUCK_BUSY
| ZSSC_FAULT_FATAL_STATUS | ZSSC_FAULT_TRUNCATED_RAW | ZSSC_FAULT_UNEXPECTED_RESET

record zssc3241_peer =
  zp_state :: zssc_peer_state
  zp_fault :: zssc_peer_fault
  zp_generation :: u32
  zp_conversion_count :: u64
  zp_conversion_latency_us :: u64
  zp_i2c_latency_us :: u64
  zp_eoc_active :: bool
  zp_i2c_operations :: u32
  zp_unsupported_cmds :: u32

definition zssc_peer_init :: zssc3241_peer where
  "zssc_peer_init = \<lparr>zp_state = ZSSC_PEER_SLEEP, zp_fault = ZSSC_FAULT_NONE, zp_generation = 1, zp_conversion_count = 0,
     zp_conversion_latency_us = 10000, zp_i2c_latency_us = 30, zp_eoc_active = False, zp_i2c_operations = 0, zp_unsupported_cmds = 0\<rparr>"

definition zssc_peer_reset :: "bool \<Rightarrow> zssc3241_peer \<Rightarrow> zssc3241_peer" where
  "zssc_peer_reset unexpected p =
     p\<lparr>zp_generation := zp_generation p + 1, zp_eoc_active := False,
       zp_state := (if unexpected then ZSSC_PEER_FAULT else ZSSC_PEER_SLEEP)\<rparr>"

definition zssc_peer_schedule_eoc :: "u64 \<Rightarrow> zssc3241_peer \<Rightarrow> u64 \<times> zssc3241_peer" where
  "zssc_peer_schedule_eoc start_us p =
     (let p1 = p\<lparr>zp_state := ZSSC_PEER_CONVERTING, zp_conversion_count := zp_conversion_count p + 1\<rparr>
      in if zp_fault p1 = ZSSC_FAULT_MISSING_EOC then (start_us + zp_conversion_latency_us p1, p1\<lparr>zp_eoc_active := False\<rparr>)
         else (start_us + zp_conversion_latency_us p1, p1\<lparr>zp_eoc_active := True\<rparr>))"

definition zssc_peer_clear_eoc :: "zssc3241_peer \<Rightarrow> zssc3241_peer" where
  "zssc_peer_clear_eoc p = p\<lparr>zp_eoc_active := False\<rparr>"

definition zssc_peer_is_eoc_active :: "zssc3241_peer \<Rightarrow> bool" where
  "zssc_peer_is_eoc_active p = zp_eoc_active p"

definition zssc_peer_set_fault :: "zssc_peer_fault \<Rightarrow> zssc3241_peer \<Rightarrow> zssc3241_peer" where
  "zssc_peer_set_fault fault p = p\<lparr>zp_fault := fault\<rparr>"

text \<open>The answer to a command: a status byte and two bytes of the result.\<close>

definition zssc_peer_fill :: "zssc_peer_fault \<Rightarrow> bytes \<Rightarrow> bytes" where
  "zssc_peer_fill fault bs =
     (if fault = ZSSC_FAULT_FATAL_STATUS then bs[0 := 0xFF]
      else if fault = ZSSC_FAULT_TRUNCATED_RAW then map (\<lambda>i. if i < 2 then 0xAA else 0) [0..<length bs]
      else (bs[0 := 0])[1 := 0xAA, 2 := 0x55])"

definition zssc_peer_plan_i2c :: "u8 \<Rightarrow> bytes option \<Rightarrow> bytes option \<Rightarrow> zssc3241_peer \<Rightarrow> plan_result \<times> zssc3241_peer" where
  "zssc_peer_plan_i2c slave_addr tx rx p =
     (if zp_fault p = ZSSC_FAULT_NO_COMPLETION then ((False, rx, 0, 0), p)
      else if zp_fault p = ZSSC_FAULT_STUCK_BUSY then ((True, rx, zp_i2c_latency_us p, 0x80), p)
      else
        let p1 = p\<lparr>zp_i2c_operations := zp_i2c_operations p + 1\<rparr>;
            rx1 = (case (tx, rx) of
                     (Some (cmd # _), Some (b # bs)) \<Rightarrow> Some (zssc_peer_fill (zp_fault p1) (b # bs))
                   | _ \<Rightarrow> rx)
        in ((True, rx1, zp_i2c_latency_us p1, 0),
            if zp_fault p1 = ZSSC_FAULT_DUPLICATE_EOC then p1\<lparr>zp_eoc_active := True\<rparr> else p1))"

text \<open>A transfer without bytes to send leaves the receive buffer as it is, and is refused with the fault that models a missing
  completion.\<close>

lemma planned_read:
  "zssc_peer_plan_i2c addr None rx p = ((ok, rx', lat, flags), p') \<Longrightarrow> rx' = rx \<and> ok = (zp_fault p \<noteq> ZSSC_FAULT_NO_COMPLETION)"
  by (auto simp: zssc_peer_plan_i2c_def Let_def split: if_splits)

end
