(* ===== verification/Linux_Providers.thy ===== *)
theory Linux_Providers
  imports Linux_Peers Action_Queue
begin

text \<open>
  The bus and line providers of the Linux platform (platform/linux/providers): each accepts one operation at a
  time, lets the simulated device plan it, and schedules its completion in the action queue.

  A device is a handle, the pair of plan function and context of the code, and None where the plan function is
  null; \<open>plan\<close> runs the plan function of a handle on the state of all devices.  The queue a provider points to is
  passed along.  The result of a submission is its answer and the receive buffer of the request.
\<close>

abbreviation LINUX_I2C_MAX_PEERS :: nat where "LINUX_I2C_MAX_PEERS \<equiv> 8"
abbreviation LINUX_GPIO_MAX_LINES :: nat where "LINUX_GPIO_MAX_LINES \<equiv> 8"

section \<open>I2C\<close>

type_synonym ('d, 'w) i2c_plan = "'d \<Rightarrow> u8 \<Rightarrow> bytes option \<Rightarrow> bytes option \<Rightarrow> 'w \<Rightarrow> plan_result \<times> 'w"

record linux_i2c_request =
  iq_operation_id :: u32
  iq_correlation_id :: u32
  iq_owner_generation :: u32
  iq_deadline_us :: u64
  iq_slave_address :: u8
  iq_tx_data :: "bytes option"
  iq_rx_data :: "bytes option"

record 'd linux_i2c_provider =
  ip_peers :: "(u8 \<times> 'd option) list"
  ip_resource_generation :: u32
  ip_active :: bool
  ip_active_op_id :: u32
  ip_admission_accepted :: u32
  ip_admission_rejected :: u32
  ip_completion_count :: u32

definition linux_i2c_init :: "'d linux_i2c_provider" where
  "linux_i2c_init = \<lparr>ip_peers = [], ip_resource_generation = 1, ip_active = False, ip_active_op_id = 0,
     ip_admission_accepted = 0, ip_admission_rejected = 0, ip_completion_count = 0\<rparr>"

definition linux_i2c_register_peer :: "u8 \<Rightarrow> 'd option \<Rightarrow> 'd linux_i2c_provider \<Rightarrow> bool \<times> 'd linux_i2c_provider" where
  "linux_i2c_register_peer address peer p =
     (if address \<in> fst ` set (ip_peers p) then (False, p)
      else if length (ip_peers p) \<ge> LINUX_I2C_MAX_PEERS then (False, p)
      else (True, p\<lparr>ip_peers := ip_peers p @ [(address, peer)]\<rparr>))"

text \<open>The first peer at the address; None when there is none or its plan function is null.\<close>

definition i2c_target :: "u8 \<Rightarrow> 'd linux_i2c_provider \<Rightarrow> 'd option" where
  "i2c_target address p = (case find (\<lambda>(a, d). a = address) (ip_peers p) of None \<Rightarrow> None | Some (a, d) \<Rightarrow> d)"

definition i2c_reject :: "'d linux_i2c_provider \<Rightarrow> 'd linux_i2c_provider" where
  "i2c_reject p = p\<lparr>ip_admission_rejected := ip_admission_rejected p + 1\<rparr>"

definition i2c_completion_action :: "linux_i2c_request \<Rightarrow> u64 \<Rightarrow> u32 \<Rightarrow> 'd linux_i2c_provider \<Rightarrow> scheduled_action" where
  "i2c_completion_action r latency status_flags p =
     zero_action\<lparr>sa_due_us := iq_deadline_us r + latency, sa_action_class := ACTION_CLASS_I2C_COMPLETION,
       sa_resource_id := ucast (iq_slave_address r), sa_resource_generation := ip_resource_generation p,
       sa_operation_id := iq_operation_id r, sa_correlation_id := iq_correlation_id r,
       sa_owner_generation := iq_owner_generation r, sa_detail_flags := status_flags\<rparr>"

definition linux_i2c_submit ::
  "('d, 'w) i2c_plan \<Rightarrow> linux_i2c_request \<Rightarrow> 'd linux_i2c_provider \<times> action_queue \<times> 'w \<Rightarrow>
   (bool \<times> bytes option) \<times> 'd linux_i2c_provider \<times> action_queue \<times> 'w" where
  "linux_i2c_submit plan r s =
     (case s of (p, q, w) \<Rightarrow>
        (case i2c_target (iq_slave_address r) p of
           None \<Rightarrow> ((False, iq_rx_data r), i2c_reject p, q, w)
         | Some target \<Rightarrow>
             if ip_active p then ((False, iq_rx_data r), i2c_reject p, q, w)
             else
               (case plan target (iq_slave_address r) (iq_tx_data r) (iq_rx_data r) w of
                  ((accepted, rx, latency, status_flags), w1) \<Rightarrow>
                    if \<not> accepted then ((False, rx), i2c_reject p, q, w1)
                    else
                      let p1 = p\<lparr>ip_active := True, ip_active_op_id := iq_operation_id r,
                                ip_admission_accepted := ip_admission_accepted p + 1\<rparr>;
                          (ok, q1) = action_queue_schedule (i2c_completion_action r latency status_flags p1) q
                      in ((ok, rx), p1, q1, w1))))"

definition linux_i2c_cancel :: "u32 \<Rightarrow> u32 \<Rightarrow> 'd linux_i2c_provider \<times> action_queue \<Rightarrow> bool \<times> 'd linux_i2c_provider \<times> action_queue" where
  "linux_i2c_cancel operation_id expected_generation s =
     (case s of (p, q) \<Rightarrow>
        (case action_queue_cancel operation_id expected_generation q of
           (cancelled, q1) \<Rightarrow>
             (cancelled, if cancelled \<and> ip_active p \<and> ip_active_op_id p = operation_id then p\<lparr>ip_active := False\<rparr> else p, q1)))"

definition linux_i2c_recover :: "'d linux_i2c_provider \<Rightarrow> 'd linux_i2c_provider" where
  "linux_i2c_recover p = p\<lparr>ip_resource_generation := ip_resource_generation p + 1, ip_active := False\<rparr>"

section \<open>SPI\<close>

type_synonym ('d, 'w) spi_plan = "'d \<Rightarrow> bytes option \<Rightarrow> bytes option \<Rightarrow> 'w \<Rightarrow> plan_result \<times> 'w"

record linux_spi_request =
  sq_operation_id :: u32
  sq_correlation_id :: u32
  sq_owner_generation :: u32
  sq_deadline_us :: u64
  sq_tx_data :: "bytes option"
  sq_rx_data :: "bytes option"
  sq_config_id :: u32

record 'd linux_spi_provider =
  sp_peer :: "'d option"
  sp_resource_generation :: u32
  sp_active_operation_id :: u32
  sp_active :: bool
  sp_admission_accepted :: u32
  sp_admission_rejected :: u32
  sp_completion_count :: u32

definition linux_spi_init :: "'d linux_spi_provider" where
  "linux_spi_init = \<lparr>sp_peer = None, sp_resource_generation = 1, sp_active_operation_id = 0, sp_active = False,
     sp_admission_accepted = 0, sp_admission_rejected = 0, sp_completion_count = 0\<rparr>"

definition linux_spi_register_peer :: "'d option \<Rightarrow> 'd linux_spi_provider \<Rightarrow> bool \<times> 'd linux_spi_provider" where
  "linux_spi_register_peer peer p = (True, p\<lparr>sp_peer := peer\<rparr>)"

definition spi_reject :: "'d linux_spi_provider \<Rightarrow> 'd linux_spi_provider" where
  "spi_reject p = p\<lparr>sp_admission_rejected := sp_admission_rejected p + 1\<rparr>"

definition spi_completion_action :: "linux_spi_request \<Rightarrow> u64 \<Rightarrow> u32 \<Rightarrow> 'd linux_spi_provider \<Rightarrow> scheduled_action" where
  "spi_completion_action r latency status_flags p =
     zero_action\<lparr>sa_due_us := sq_deadline_us r + latency, sa_action_class := ACTION_CLASS_SPI_COMPLETION,
       sa_resource_id := 0, sa_resource_generation := sp_resource_generation p, sa_operation_id := sq_operation_id r,
       sa_correlation_id := sq_correlation_id r, sa_owner_generation := sq_owner_generation r,
       sa_detail_flags := status_flags, sa_payload_size := 0\<rparr>"

definition linux_spi_submit ::
  "('d, 'w) spi_plan \<Rightarrow> linux_spi_request \<Rightarrow> 'd linux_spi_provider \<times> action_queue \<times> 'w \<Rightarrow>
   (bool \<times> bytes option) \<times> 'd linux_spi_provider \<times> action_queue \<times> 'w" where
  "linux_spi_submit plan r s =
     (case s of (p, q, w) \<Rightarrow>
        (case sp_peer p of
           None \<Rightarrow> ((False, sq_rx_data r), spi_reject p, q, w)
         | Some peer \<Rightarrow>
             if sp_active p then ((False, sq_rx_data r), spi_reject p, q, w)
             else
               (case plan peer (sq_tx_data r) (sq_rx_data r) w of
                  ((accepted, rx, latency, status_flags), w1) \<Rightarrow>
                    if \<not> accepted then ((False, rx), spi_reject p, q, w1)
                    else
                      let p1 = p\<lparr>sp_active := True, sp_active_operation_id := sq_operation_id r,
                                sp_admission_accepted := sp_admission_accepted p + 1\<rparr>;
                          (ok, q1) = action_queue_schedule (spi_completion_action r latency status_flags p1) q
                      in ((ok, rx), p1, q1, w1))))"

definition linux_spi_cancel :: "u32 \<Rightarrow> u32 \<Rightarrow> 'd linux_spi_provider \<times> action_queue \<Rightarrow> bool \<times> 'd linux_spi_provider \<times> action_queue" where
  "linux_spi_cancel operation_id expected_generation s =
     (case s of (p, q) \<Rightarrow>
        (case action_queue_cancel operation_id expected_generation q of
           (cancelled, q1) \<Rightarrow>
             (cancelled, if cancelled \<and> sp_active p \<and> sp_active_operation_id p = operation_id then p\<lparr>sp_active := False\<rparr> else p, q1)))"

definition linux_spi_recover :: "'d linux_spi_provider \<Rightarrow> 'd linux_spi_provider" where
  "linux_spi_recover p = p\<lparr>sp_resource_generation := sp_resource_generation p + 1, sp_active := False\<rparr>"

section \<open>Lines\<close>

datatype gpio_level = GPIO_LEVEL_LOW | GPIO_LEVEL_HIGH
datatype gpio_edge_type = GPIO_EDGE_NONE | GPIO_EDGE_RISING | GPIO_EDGE_FALLING | GPIO_EDGE_BOTH

fun edge_number :: "gpio_edge_type \<Rightarrow> u32" where
  "edge_number GPIO_EDGE_NONE = 0"
| "edge_number GPIO_EDGE_RISING = 1"
| "edge_number GPIO_EDGE_FALLING = 2"
| "edge_number GPIO_EDGE_BOTH = 3"

text \<open>The arrays have eight entries, of which the first \<open>gp_line_count\<close> are lines.\<close>

record linux_gpio_provider =
  gp_line_generation :: "u32 list"
  gp_line_level :: "gpio_level list"
  gp_armed_edge :: "gpio_edge_type list"
  gp_line_count :: u32

definition linux_gpio_init :: "u32 \<Rightarrow> linux_gpio_provider" where
  "linux_gpio_init num_lines =
     (let count = min num_lines (of_nat LINUX_GPIO_MAX_LINES)
      in \<lparr>gp_line_generation = replicate (unat count) 1 @ replicate (LINUX_GPIO_MAX_LINES - unat count) 0,
          gp_line_level = replicate LINUX_GPIO_MAX_LINES GPIO_LEVEL_LOW,
          gp_armed_edge = replicate LINUX_GPIO_MAX_LINES GPIO_EDGE_NONE, gp_line_count = count\<rparr>)"

definition linux_gpio_set_level :: "u32 \<Rightarrow> gpio_level \<Rightarrow> linux_gpio_provider \<Rightarrow> bool \<times> linux_gpio_provider" where
  "linux_gpio_set_level line_id level p =
     (if line_id \<ge> gp_line_count p then (False, p)
      else (True, p\<lparr>gp_line_level := (gp_line_level p)[unat line_id := level]\<rparr>))"

definition linux_gpio_get_level :: "u32 \<Rightarrow> linux_gpio_provider \<Rightarrow> gpio_level" where
  "linux_gpio_get_level line_id p =
     (if line_id \<ge> gp_line_count p then GPIO_LEVEL_LOW else gp_line_level p ! unat line_id)"

definition linux_gpio_arm_edge :: "u32 \<Rightarrow> gpio_edge_type \<Rightarrow> linux_gpio_provider \<Rightarrow> bool \<times> linux_gpio_provider" where
  "linux_gpio_arm_edge line_id edge p =
     (if line_id \<ge> gp_line_count p then (False, p)
      else (True, p\<lparr>gp_armed_edge := (gp_armed_edge p)[unat line_id := edge]\<rparr>))"

definition edge_action :: "u32 \<Rightarrow> gpio_edge_type \<Rightarrow> u64 \<Rightarrow> linux_gpio_provider \<Rightarrow> scheduled_action" where
  "edge_action line_id edge at_us p =
     zero_action\<lparr>sa_due_us := at_us, sa_action_class := ACTION_CLASS_GPIO_EVIDENCE, sa_resource_id := line_id,
       sa_resource_generation := gp_line_generation p ! unat line_id, sa_source_sequence := edge_number edge,
       sa_detail_flags := edge_number edge\<rparr>"

definition linux_gpio_assert_edge :: "u32 \<Rightarrow> gpio_edge_type \<Rightarrow> u64 \<Rightarrow> linux_gpio_provider \<Rightarrow> action_queue \<Rightarrow> bool \<times> action_queue" where
  "linux_gpio_assert_edge line_id edge at_us p q =
     (if line_id \<ge> gp_line_count p then (False, q) else action_queue_schedule (edge_action line_id edge at_us p) q)"

definition linux_gpio_recover_line :: "u32 \<Rightarrow> linux_gpio_provider \<Rightarrow> linux_gpio_provider" where
  "linux_gpio_recover_line line_id p =
     (if line_id \<ge> gp_line_count p then p
      else p\<lparr>gp_line_generation := (gp_line_generation p)[unat line_id := gp_line_generation p ! unat line_id + 1]\<rparr>)"

text \<open>The armed edge and the level of a line play no part when an edge is asserted.\<close>

lemma assert_edge_ignores_arming:
  "linux_gpio_assert_edge line_id edge at_us (snd (linux_gpio_arm_edge l e p)) q = linux_gpio_assert_edge line_id edge at_us p q"
  "linux_gpio_assert_edge line_id edge at_us (snd (linux_gpio_set_level l v p)) q = linux_gpio_assert_edge line_id edge at_us p q"
  by (simp_all add: linux_gpio_assert_edge_def linux_gpio_arm_edge_def linux_gpio_set_level_def edge_action_def)

section \<open>One operation at a time\<close>

text \<open>A provider with a busy flag, and everything else that may happen to its state.\<close>

locale busy_provider =
  fixes submit :: "'r \<Rightarrow> 's \<Rightarrow> (bool \<times> 'b) \<times> 's"
    and other :: "'o \<Rightarrow> 's \<Rightarrow> 's"
    and busy :: "'s \<Rightarrow> bool"
  assumes busy_refuses: "busy s \<Longrightarrow> \<not> fst (fst (submit r s)) \<and> busy (snd (submit r s))"
    and busy_stays: "busy s \<Longrightarrow> busy (other x s)"
begin

fun step :: "'r + 'o \<Rightarrow> 's \<Rightarrow> 's" where
  "step (Inl r) s = snd (submit r s)"
| "step (Inr x) s = other x s"

lemma stays_busy: "busy s \<Longrightarrow> busy (fold step xs s)"
proof (induction xs arbitrary: s)
  case (Cons x xs)
  then show ?case using busy_refuses busy_stays by (cases x) simp_all
qed simp

lemma refuses_for_ever: "busy s \<Longrightarrow> \<not> fst (fst (submit r (fold step xs s)))"
  using stays_busy busy_refuses by blast

end

text \<open>What else happens: actions are dispatched and scheduled, peers registered, devices changed.\<close>

datatype ('d, 'w) provider_event =
  Dispatch_due u64 nat | Schedule_action scheduled_action | Register_peer u8 "'d option" | Change_devices "'w \<Rightarrow> 'w"

fun queue_event :: "('d, 'w) provider_event \<Rightarrow> action_queue \<Rightarrow> action_queue" where
  "queue_event (Dispatch_due now n) q = snd (action_queue_dispatch_due now n q)"
| "queue_event (Schedule_action a) q = snd (action_queue_schedule a q)"
| "queue_event _ q = q"

fun device_event :: "('d, 'w) provider_event \<Rightarrow> 'w \<Rightarrow> 'w" where
  "device_event (Change_devices f) w = f w"
| "device_event _ w = w"

fun i2c_event :: "('d, 'w) provider_event \<Rightarrow> 'd linux_i2c_provider \<times> action_queue \<times> 'w \<Rightarrow> 'd linux_i2c_provider \<times> action_queue \<times> 'w" where
  "i2c_event e (p, q, w) =
     ((case e of Register_peer a d \<Rightarrow> snd (linux_i2c_register_peer a d p) | _ \<Rightarrow> p), queue_event e q, device_event e w)"

fun spi_event :: "('d, 'w) provider_event \<Rightarrow> 'd linux_spi_provider \<times> action_queue \<times> 'w \<Rightarrow> 'd linux_spi_provider \<times> action_queue \<times> 'w" where
  "spi_event e (p, q, w) =
     ((case e of Register_peer a d \<Rightarrow> snd (linux_spi_register_peer d p) | _ \<Rightarrow> p), queue_event e q, device_event e w)"

fun i2c_world_step :: "('d, 'w) i2c_plan \<Rightarrow> linux_i2c_request + ('d, 'w) provider_event \<Rightarrow>
    'd linux_i2c_provider \<times> action_queue \<times> 'w \<Rightarrow> 'd linux_i2c_provider \<times> action_queue \<times> 'w" where
  "i2c_world_step plan (Inl r) s = snd (linux_i2c_submit plan r s)"
| "i2c_world_step plan (Inr e) s = i2c_event e s"

fun spi_world_step :: "('d, 'w) spi_plan \<Rightarrow> linux_spi_request + ('d, 'w) provider_event \<Rightarrow>
    'd linux_spi_provider \<times> action_queue \<times> 'w \<Rightarrow> 'd linux_spi_provider \<times> action_queue \<times> 'w" where
  "spi_world_step plan (Inl r) s = snd (linux_spi_submit plan r s)"
| "spi_world_step plan (Inr e) s = spi_event e s"

interpretation i2cp: busy_provider "linux_i2c_submit plan" i2c_event "\<lambda>(p, q, w). ip_active p" for plan :: "('d, 'w) i2c_plan"
  by unfold_locales
    (auto simp: linux_i2c_submit_def i2c_reject_def linux_i2c_register_peer_def split: prod.splits option.splits provider_event.splits)

interpretation spip: busy_provider "linux_spi_submit plan" spi_event "\<lambda>(p, q, w). sp_active p" for plan :: "('d, 'w) spi_plan"
  by unfold_locales
    (auto simp: linux_spi_submit_def spi_reject_def linux_spi_register_peer_def split: prod.splits option.splits provider_event.splits)

lemma world_steps: "i2cp.step plan = i2c_world_step plan" "spip.step plan' = spi_world_step plan'"
proof -
  show "i2cp.step plan = i2c_world_step plan" by (intro ext, case_tac x) simp_all
  show "spip.step plan' = spi_world_step plan'" by (intro ext, case_tac x) simp_all
qed

lemma accepted_i2c:
  assumes "queue_ok q" "linux_i2c_submit plan r (p, q, w) = ((True, rx), p1, q1, w1)"
  shows "ip_active p1 \<and> (\<exists>latency flags. pending q1 =
    add_mset ((i2c_completion_action r latency flags p)\<lparr>sa_insertion_sequence := aq_next_insertion_seq q\<rparr>) (pending q))"
proof -
  have "\<exists>latency flags. action_queue_schedule (i2c_completion_action r latency flags p) q = (True, q1) \<and> ip_active p1"
    using assms(2) by (auto simp: linux_i2c_submit_def i2c_completion_action_def Let_def split: option.splits if_splits prod.splits)
  then obtain latency flags where a: "action_queue_schedule (i2c_completion_action r latency flags p) q = (True, q1)" "ip_active p1"
    by blast
  show ?thesis using schedule_refines [OF assms(1) a(1)] a(2) by auto
qed

lemma accepted_spi:
  assumes "queue_ok q" "linux_spi_submit plan r (p, q, w) = ((True, rx), p1, q1, w1)"
  shows "sp_active p1 \<and> (\<exists>latency flags. pending q1 =
    add_mset ((spi_completion_action r latency flags p)\<lparr>sa_insertion_sequence := aq_next_insertion_seq q\<rparr>) (pending q))"
proof -
  have "\<exists>latency flags. action_queue_schedule (spi_completion_action r latency flags p) q = (True, q1) \<and> sp_active p1"
    using assms(2) by (auto simp: linux_spi_submit_def spi_completion_action_def Let_def split: option.splits if_splits prod.splits)
  then obtain latency flags where a: "action_queue_schedule (spi_completion_action r latency flags p) q = (True, q1)" "sp_active p1"
    by blast
  show ?thesis using schedule_refines [OF assms(1) a(1)] a(2) by auto
qed

text \<open>C34: a provider serves one operation.  An accepted submission schedules exactly its completion, and from then on every
  submission is refused, whatever is dispatched (the completion included), scheduled, registered or changed in
  the devices: nothing but a cancellation or a recovery clears the busy flag.\<close>

theorem i2c_provider_serves_one_operation:
  assumes "queue_ok q" "linux_i2c_submit plan r (p, q, w) = ((True, rx), p1, q1, w1)"
  shows "(\<exists>latency flags. pending q1 =
      add_mset ((i2c_completion_action r latency flags p)\<lparr>sa_insertion_sequence := aq_next_insertion_seq q\<rparr>) (pending q)) \<and>
    \<not> fst (fst (linux_i2c_submit plan r2 (fold (i2c_world_step plan) xs (p1, q1, w1))))"
  using accepted_i2c [OF assms] i2cp.refuses_for_ever [of "(p1, q1, w1)" plan r2 xs] unfolding world_steps by simp

lemma spi_provider_serves_one_operation:
  assumes "queue_ok q" "linux_spi_submit plan r (p, q, w) = ((True, rx), p1, q1, w1)"
  shows "(\<exists>latency flags. pending q1 =
      add_mset ((spi_completion_action r latency flags p)\<lparr>sa_insertion_sequence := aq_next_insertion_seq q\<rparr>) (pending q)) \<and>
    \<not> fst (fst (linux_spi_submit plan r2 (fold (spi_world_step plan) xs (p1, q1, w1))))"
  using accepted_spi [OF assms] spip.refuses_for_ever [of "(p1, q1, w1)" plan r2 xs] unfolding world_steps by simp

text \<open>Even a submission that fails because the action queue is full keeps the provider busy.\<close>

lemma full_queue_blocks_provider:
  assumes "i2c_target (iq_slave_address r) p = Some d" "\<not> ip_active p" "aq_count q = ACTION_QUEUE_MAX_CAPACITY"
    and "plan d (iq_slave_address r) (iq_tx_data r) (iq_rx_data r) w = ((True, rx, latency, flags), w1)"
  shows "\<exists>p1 q1. linux_i2c_submit plan r (p, q, w) = ((False, rx), p1, q1, w1) \<and> ip_active p1"
  using assms by (simp add: linux_i2c_submit_def action_queue_schedule_def Let_def)

definition sample_i2c_request :: linux_i2c_request where
  "sample_i2c_request = \<lparr>iq_operation_id = 1, iq_correlation_id = 5, iq_owner_generation = 1, iq_deadline_us = 100,
     iq_slave_address = 0x28, iq_tx_data = Some [0xAA], iq_rx_data = None\<rparr>"

definition sample_i2c_plan :: "(unit, zssc3241_peer) i2c_plan" where
  "sample_i2c_plan d = zssc_peer_plan_i2c"

text \<open>The completion of the first operation is dispatched, and the second operation is still refused.\<close>

lemma i2c_provider_serves_one_operation_witness:
  "let p = snd (linux_i2c_register_peer 0x28 (Some ()) linux_i2c_init);
     s1 = snd (linux_i2c_submit sample_i2c_plan sample_i2c_request (p, action_queue_init, zssc_peer_init))
   in map sa_due_us (fst (action_queue_dispatch_due 1000 16 (fst (snd s1)))) = [130] \<and>
      \<not> fst (fst (linux_i2c_submit sample_i2c_plan sample_i2c_request (fold (i2c_world_step sample_i2c_plan) [Inr (Dispatch_due 1000 16)] s1)))"
proof -
  define p :: "unit linux_i2c_provider" where "p = snd (linux_i2c_register_peer 0x28 (Some ()) linux_i2c_init)"
  have "fst (fst (linux_i2c_submit sample_i2c_plan sample_i2c_request (p, action_queue_init, zssc_peer_init)))"
    unfolding p_def by code_simp
  moreover obtain ok rx p1 q1 w1 where s: "linux_i2c_submit sample_i2c_plan sample_i2c_request (p, action_queue_init, zssc_peer_init) =
      ((ok, rx), p1, q1, w1)" by (metis prod.exhaust)
  ultimately have "linux_i2c_submit sample_i2c_plan sample_i2c_request (p, action_queue_init, zssc_peer_init) = ((True, rx), p1, q1, w1)"
    by simp
  note t = i2c_provider_serves_one_operation [OF init_ok(1) this, of sample_i2c_request "[Inr (Dispatch_due 1000 16)]"]
  have d: "map sa_due_us (fst (action_queue_dispatch_due 1000 16 (fst (snd (snd
      (linux_i2c_submit sample_i2c_plan sample_i2c_request (p, action_queue_init, zssc_peer_init))))))) = [130]"
    unfolding p_def by code_simp
  show ?thesis unfolding p_def [symmetric] Let_def using t d s by simp
qed

section \<open>The pressure driver and the simulated pressure sensor\<close>

text \<open>A read request without bytes to send never changes its receive buffer.\<close>

lemma read_submission:
  assumes "linux_i2c_submit (\<lambda>_. zssc_peer_plan_i2c) r (p, q, w) = ((ok, rx), p1, q1, w1)" "iq_tx_data r = None"
  shows "rx = iq_rx_data r" "zp_fault w = ZSSC_FAULT_NO_COMPLETION \<Longrightarrow> \<not> ok \<and> q1 = q \<and> ip_active p1 = ip_active p"
proof -
  have "rx = iq_rx_data r \<and> (zp_fault w = ZSSC_FAULT_NO_COMPLETION \<longrightarrow> \<not> ok \<and> q1 = q \<and> ip_active p1 = ip_active p)"
  proof (cases "i2c_target (iq_slave_address r) p = None \<or> ip_active p")
    case True
    then show ?thesis using assms(1) by (auto simp: linux_i2c_submit_def i2c_reject_def split: option.splits)
  next
    case False
    obtain acc rx' lat flags w' where pl: "zssc_peer_plan_i2c (iq_slave_address r) None (iq_rx_data r) w = ((acc, rx', lat, flags), w')"
      by (metis prod.exhaust)
    note eq = planned_read [OF pl]
    show ?thesis using assms False eq
      by (auto simp: linux_i2c_submit_def pl i2c_reject_def Let_def split: if_splits prod.splits)
  qed
  then show "rx = iq_rx_data r" "zp_fault w = ZSSC_FAULT_NO_COMPLETION \<Longrightarrow> \<not> ok \<and> q1 = q \<and> ip_active p1 = ip_active p" by blast+
qed

text \<open>The sample a driver takes from the zeros it prepared.\<close>

lemma zero_frame_is_rejected:
  assumes "zssc3241_prepare_read d = (True, d1)"
    and "zssc3241_on_i2c_completion (zs_active_correlation_id d1) True (Some (zs_response_buffer d1)) ZSSC3241_FULL_RESPONSE_SIZE now d1 evq
      = (d2, evq2)"
  shows "zs_raw_mailbox_valid d2 \<and> zr_raw_u24 (zs_raw_mailbox d2) = 0 \<and> zr_status (zs_raw_mailbox d2) = 0 \<and>
      md_validity (zr_meta (zs_raw_mailbox d2)) = DATA_INVALID \<and> md_acceptance (zr_meta (zs_raw_mailbox d2)) = DATA_REJECTED"
proof -
  have d: "zs_state d = ZSSC_STATE_READING \<or> zs_state d = ZSSC_STATE_POLLING" "d1 = d\<lparr>zs_response_buffer := replicate 7 0\<rparr>"
    using assms(1) by (auto simp: zssc3241_prepare_read_def split: if_splits)
  define z :: bytes where "z = replicate 7 0"
  have z: "z ! 0 = 0" "z ! 1 = 0" "z ! 2 = 0" "z ! 3 = 0" "zs_response_buffer d1 = z" by (simp_all add: z_def d)
  have "zs_raw_mailbox d2 = zssc_decode z now d1" "zs_raw_mailbox_valid d2"
    using assms(2) d(1) z by (auto simp: zssc3241_on_i2c_completion_def d(2))
  then show ?thesis using z by (simp add: zssc_decode_def zssc_sample_metadata_def zssc3241_status_is_production_usable_def)
qed

text \<open>C35: no read of the simulated pressure sensor yields a usable sample.  The driver prepares its response buffer with zeros and
  reads without sending a command byte (the measurement manager submits the read with no bytes to send), and the simulated
  sensor fills a buffer only for a request that sends bytes.  So whatever the fault setting of the sensor and the
  state of the provider and of its queue, the buffer comes back as the driver prepared it.  With the fault for a missing completion
  the provider refuses the request and schedules nothing; every other request may be accepted, and when its
  completion is reported to the driver as a success with that buffer, the driver takes a raw value of 0 whose status
  lacks the powered bit, marks it invalid and rejected, and the pressure service refuses it with any profile and calibration.
  The sources hold no port that passes a request of the driver on to the provider, so the request and the report of its completion are
  hypotheses here: the request asks for the driver's buffer with no bytes to send, and the report hands the driver the buffer the
  submission returned.\<close>

theorem simulated_pressure_is_never_valid:
  assumes "zssc3241_prepare_read d = (True, d1)"
    and "iq_tx_data r = None" "iq_rx_data r = Some (zs_response_buffer d1)"
    and "linux_i2c_submit (\<lambda>_. zssc_peer_plan_i2c) r (p, q, w) = ((ok, rx), p1, q1, w1)"
    and "zssc3241_on_i2c_completion (zs_active_correlation_id d1) True rx ZSSC3241_FULL_RESPONSE_SIZE now d1 evq = (d2, evq2)"
  shows "rx = Some (replicate 7 0) \<and>
    (zp_fault w = ZSSC_FAULT_NO_COMPLETION \<longrightarrow> \<not> ok \<and> q1 = q) \<and>
    zs_raw_mailbox_valid d2 \<and> zr_raw_u24 (zs_raw_mailbox d2) = 0 \<and>
    md_validity (zr_meta (zs_raw_mailbox d2)) = DATA_INVALID \<and> md_acceptance (zr_meta (zs_raw_mailbox d2)) = DATA_REJECTED \<and>
    pressure_convert (zr_raw_u24 (zs_raw_mailbox d2)) (zr_status (zs_raw_mailbox d2)) (Some profile) (Some cal)
      = Inl PRESSURE_STATUS_INVALID"
proof -
  note s = read_submission [OF assms(4,2)]
  have rx: "rx = Some (zs_response_buffer d1)" using s(1) assms(3) by simp
  note z = zero_frame_is_rejected [OF assms(1) assms(5) [unfolded rx]]
  have "zs_response_buffer d1 = replicate 7 0" using assms(1) by (auto simp: zssc3241_prepare_read_def split: if_splits)
  moreover have "pressure_status_invalid 0" by (simp add: pressure_status_invalid_def Let_def)
  ultimately show ?thesis using z s(2) rx by (simp add: pressure_convert_def)
qed

definition read_request :: linux_i2c_request where
  "read_request = sample_i2c_request\<lparr>iq_tx_data := None, iq_rx_data := Some (replicate 7 0)\<rparr>"

text \<open>A reading driver, and the sensor registered at its address: the provider accepts the request.\<close>

lemma simulated_pressure_is_never_valid_witness:
  "let d1 = snd (zssc3241_prepare_read (zssc3241_init\<lparr>zs_state := ZSSC_STATE_READING\<rparr>));
     s1 = linux_i2c_submit (\<lambda>_. zssc_peer_plan_i2c) read_request
       (snd (linux_i2c_register_peer 0x28 (Some ()) linux_i2c_init), action_queue_init, zssc_peer_init);
     d2 = fst (zssc3241_on_i2c_completion (zs_active_correlation_id d1) True (snd (fst s1)) ZSSC3241_FULL_RESPONSE_SIZE 2000000 d1
       (app_event_queue_init None))
   in fst (fst s1) \<and> zs_raw_mailbox_valid d2 \<and> md_validity (zr_meta (zs_raw_mailbox d2)) = DATA_INVALID"
proof -
  let ?d = "zssc3241_init\<lparr>zs_state := ZSSC_STATE_READING\<rparr>"
  let ?s = "(snd (linux_i2c_register_peer 0x28 (Some ()) linux_i2c_init), action_queue_init, zssc_peer_init)"
  define d1 where "d1 = snd (zssc3241_prepare_read ?d)"
  have d1: "zssc3241_prepare_read ?d = (True, d1)" "zs_response_buffer d1 = replicate 7 0"
    by (simp_all add: d1_def zssc3241_prepare_read_def)
  have ok: "fst (fst (linux_i2c_submit (\<lambda>_. zssc_peer_plan_i2c) read_request ?s))" by code_simp
  obtain b rx p1 q1 w1 where s: "linux_i2c_submit (\<lambda>_. zssc_peer_plan_i2c) read_request ?s = ((b, rx), p1, q1, w1)"
    by (metis prod.exhaust)
  obtain d2 e2 where c: "zssc3241_on_i2c_completion (zs_active_correlation_id d1) True rx ZSSC3241_FULL_RESPONSE_SIZE 2000000 d1
      (app_event_queue_init None) = (d2, e2)" by (rule prod.exhaust)
  have "iq_tx_data read_request = None" "iq_rx_data read_request = Some (zs_response_buffer d1)"
    by (simp_all add: read_request_def d1)
  note t = simulated_pressure_is_never_valid [OF d1(1) this s c]
  have "b \<and> zs_raw_mailbox_valid d2 \<and> md_validity (zr_meta (zs_raw_mailbox d2)) = DATA_INVALID"
    using t ok by (simp only: s fst_conv simp_thms)
  then show ?thesis unfolding d1_def [symmetric] Let_def by (simp only: s c fst_conv snd_conv simp_thms)
qed

end
