(* ===== verification/Scenario_Manifest.thy ===== *)
theory Scenario_Manifest
  imports Prelude
begin

text \<open>
  The manifest of a simulation scenario (simulation/scenario_manifest.c): a small JSON reader and the
  validation of what it read.

  A text is the list of its characters up to the terminating zero, so \<open>[]\<close> stands for a pointer at the
  terminator and None for a null pointer.  \<open>strtoul\<close> and \<open>strtoull\<close> are written out (64-bit
  \<open>unsigned long\<close>).  Error messages are values; the partly written manifest of a failed call is left out.
\<close>

section \<open>Data\<close>

abbreviation MANIFEST_MAX_PEERS :: nat where "MANIFEST_MAX_PEERS \<equiv> 8"
abbreviation MANIFEST_MAX_ACTIONS :: nat where "MANIFEST_MAX_ACTIONS \<equiv> 64"
abbreviation MANIFEST_MAX_ASSERT :: nat where "MANIFEST_MAX_ASSERT \<equiv> 16"
abbreviation MANIFEST_NAME_LEN :: nat where "MANIFEST_NAME_LEN \<equiv> 64"

datatype peer_type = PEER_TYPE_MAX35103 | PEER_TYPE_ZSSC3241 | PEER_TYPE_FRAM

record manifest_peer =
  mfp_type :: peer_type
  mfp_i2c_address :: u8
  mfp_fixture_id :: u32
  mfp_fault_plan :: u32

datatype manifest_action_type =
  ACTION_SCHEDULE_SPI | ACTION_SCHEDULE_I2C | ACTION_SCHEDULE_GPIO | ACTION_SCHEDULE_RESET | ACTION_ADVANCE_TIME
| ACTION_POST_EVENT | ACTION_SET_FAULT | ACTION_ASSERT

record manifest_action =
  mfa_type :: manifest_action_type
  mfa_at_us :: u64
  mfa_resource_id :: u32
  mfa_value :: u32
  mfa_duration_us :: u32

datatype assert_type = ASSERT_MODE_EQUALS | ASSERT_TRACE_CONTAINS | ASSERT_COUNTER_GT

record manifest_assert =
  mft_type :: assert_type
  mft_target_id :: u32
  mft_expected_value :: u32

text \<open>The arrays have their full length; the counts say how many entries are used.\<close>

record scenario_manifest =
  mf_scenario_name :: string
  mf_schema_version :: u32
  mf_seed :: u32
  mf_max_turns :: u32
  mf_max_actions :: u32
  mf_max_time_us :: u64
  mf_num_spi_devices :: u32
  mf_num_i2c_peers :: u32
  mf_num_gpio_lines :: u32
  mf_num_peers :: u32
  mf_peers :: "manifest_peer list"
  mf_num_actions :: u32
  mf_actions :: "manifest_action list"
  mf_num_asserts :: u32
  mf_asserts :: "manifest_assert list"

definition zero_manifest :: scenario_manifest where
  "zero_manifest = \<lparr>mf_scenario_name = '''', mf_schema_version = 0, mf_seed = 0, mf_max_turns = 0, mf_max_actions = 0,
     mf_max_time_us = 0, mf_num_spi_devices = 0, mf_num_i2c_peers = 0, mf_num_gpio_lines = 0,
     mf_num_peers = 0,
     mf_peers = replicate MANIFEST_MAX_PEERS \<lparr>mfp_type = PEER_TYPE_MAX35103, mfp_i2c_address = 0, mfp_fixture_id = 0, mfp_fault_plan = 0\<rparr>,
     mf_num_actions = 0,
     mf_actions = replicate MANIFEST_MAX_ACTIONS
       \<lparr>mfa_type = ACTION_SCHEDULE_SPI, mfa_at_us = 0, mfa_resource_id = 0, mfa_value = 0, mfa_duration_us = 0\<rparr>,
     mf_num_asserts = 0,
     mf_asserts = replicate MANIFEST_MAX_ASSERT \<lparr>mft_type = ASSERT_MODE_EQUALS, mft_target_id = 0, mft_expected_value = 0\<rparr>\<rparr>"

datatype manifest_error =
  Expected_brace | Key_failed | Expected_colon string | Parse_error string
| Missing_name | Unsupported_schema | Too_many_actions | Too_many_peers | Duplicate_peer

section \<open>Scanning\<close>

abbreviation (input) QUOTE :: char where "QUOTE \<equiv> CHR 0x22"

definition is_blank :: "char \<Rightarrow> bool" where
  "is_blank c \<longleftrightarrow> c = CHR 0x20 \<or> c = CHR 0x09 \<or> c = CHR 0x0A \<or> c = CHR 0x0D"

definition is_digit :: "char \<Rightarrow> bool" where
  "is_digit c \<longleftrightarrow> 48 \<le> (of_char c :: nat) \<and> (of_char c :: nat) \<le> 57"

definition skip_space :: "string \<Rightarrow> string" where
  "skip_space p = dropWhile is_blank p"

text \<open>The characters copied, up to a quote, the end or the limit, and the rest.\<close>

fun scan_string :: "nat \<Rightarrow> string \<Rightarrow> string \<times> string" where
  "scan_string (Suc room) (c # p) = (if c = QUOTE then ([], c # p) else (case scan_string room p of (out, r) \<Rightarrow> (c # out, r)))"
| "scan_string _ p = ([], p)"

definition parse_string :: "nat \<Rightarrow> string \<Rightarrow> (string \<times> string) option" where
  "parse_string max_len p =
     (case skip_space p of
        [] \<Rightarrow> None
      | c # p1 \<Rightarrow>
          if c \<noteq> QUOTE then None
          else (case scan_string (max_len - 1) p1 of
                  (out, []) \<Rightarrow> None
                | (out, d # r) \<Rightarrow> if d \<noteq> QUOTE then None else Some (out, r)))"

text \<open>The standard conversion to an unsigned 64-bit integer in base 10: value and end.  Too large values
  saturate, a minus sign negates modulo \<open>2^64\<close>, and without digits the value is 0 and the end is the start.\<close>

definition c_isspace :: "char \<Rightarrow> bool" where
  "c_isspace c \<longleftrightarrow> is_blank c \<or> c = CHR 0x0B \<or> c = CHR 0x0C"

definition digits_value :: "string \<Rightarrow> nat" where
  "digits_value ds = foldl (\<lambda>v c. v * 10 + (of_char c - 48)) 0 ds"

definition strtoull :: "string \<Rightarrow> u64 \<times> string" where
  "strtoull p =
     (let p1 = dropWhile c_isspace p;
          (negative, p2) = (case p1 of
             c # r \<Rightarrow> if c = CHR ''-'' then (True, r) else if c = CHR ''+'' then (False, r) else (False, p1)
           | [] \<Rightarrow> (False, []));
          ds = takeWhile is_digit p2; v = digits_value ds
      in if ds = [] then (0, p)
         else (if v \<ge> 2 ^ 64 then - 1 else if negative then - of_nat v else of_nat v, dropWhile is_digit p2))"

definition parse_u32 :: "string \<Rightarrow> u32 \<times> string" where
  "parse_u32 p = (case strtoull (skip_space p) of (v, e) \<Rightarrow> (ucast v, e))"

definition parse_u64 :: "string \<Rightarrow> u64 \<times> string" where
  "parse_u64 p = strtoull (skip_space p)"

fun skip_nested :: "char \<Rightarrow> char \<Rightarrow> nat \<Rightarrow> string \<Rightarrow> string" where
  "skip_nested br match depth [] = []"
| "skip_nested br match depth (c # p) =
     (if depth = 0 then c # p
      else
        let d1 = (if c = br then depth + 1 else depth); d2 = (if c = match then d1 - 1 else d1)
        in skip_nested br match d2 p)"

text \<open>The value of an unknown key.  The loop for a string starts at its opening quote.\<close>

definition skip_value :: "string \<Rightarrow> string" where
  "skip_value p0 =
     (let p = skip_space p0
      in case p of
           [] \<Rightarrow> []
         | c # r \<Rightarrow>
             if c = QUOTE then (case dropWhile (\<lambda>x. x \<noteq> QUOTE) p of [] \<Rightarrow> [] | _ # r1 \<Rightarrow> r1)
             else if is_digit c then dropWhile is_digit p
             else if c = CHR ''{'' \<or> c = CHR ''['' then skip_nested c (if c = CHR ''{'' then CHR ''}'' else CHR '']'') 1 r
             else p)"

section \<open>Parsing\<close>

text \<open>The assignment after a key and its colon: the manifest and the rest, None for a null pointer.\<close>

definition parse_value :: "string \<Rightarrow> string \<Rightarrow> scenario_manifest \<Rightarrow> (scenario_manifest \<times> string) option" where
  "parse_value key p m =
     (if key = ''scenario_name'' then
        (case parse_string MANIFEST_NAME_LEN p of None \<Rightarrow> None | Some (s, r) \<Rightarrow> Some (m\<lparr>mf_scenario_name := s\<rparr>, r))
      else if key = ''schema_version'' then (case parse_u32 p of (v, r) \<Rightarrow> Some (m\<lparr>mf_schema_version := v\<rparr>, r))
      else if key = ''seed'' then (case parse_u32 p of (v, r) \<Rightarrow> Some (m\<lparr>mf_seed := v\<rparr>, r))
      else if key = ''max_turns'' then (case parse_u32 p of (v, r) \<Rightarrow> Some (m\<lparr>mf_max_turns := v\<rparr>, r))
      else if key = ''max_actions'' then (case parse_u32 p of (v, r) \<Rightarrow> Some (m\<lparr>mf_max_actions := v\<rparr>, r))
      else if key = ''max_time_us'' then (case parse_u64 p of (v, r) \<Rightarrow> Some (m\<lparr>mf_max_time_us := v\<rparr>, r))
      else Some (m, skip_value p))"

text \<open>One turn of the loop: a key, a colon, a value and a comma.\<close>

definition parse_field :: "string \<Rightarrow> scenario_manifest \<Rightarrow> manifest_error + (scenario_manifest \<times> string)" where
  "parse_field p m =
     (case parse_string 64 (skip_space p) of
        None \<Rightarrow> Inl Key_failed
      | Some (key, p1) \<Rightarrow>
          (case skip_space p1 of
             [] \<Rightarrow> Inl (Expected_colon key)
           | c # p2 \<Rightarrow>
               if c \<noteq> CHR '':'' then Inl (Expected_colon key)
               else (case parse_value key p2 m of
                       None \<Rightarrow> Inl (Parse_error key)
                     | Some (m1, p3) \<Rightarrow>
                         (let p4 = skip_space p3
                          in Inr (m1, case p4 of [] \<Rightarrow> [] | d # p5 \<Rightarrow> if d = CHR '','' then p5 else p4)))))"

subsection \<open>Every turn consumes text\<close>

lemma skip_space_length: "length (skip_space p) \<le> length p"
  by (simp add: skip_space_def length_dropWhile_le)

lemma scan_string_length: "scan_string n p = (out, r) \<Longrightarrow> length r \<le> length p"
proof (induction n p arbitrary: out r rule: scan_string.induct)
  case (1 room c p)
  obtain o1 r1 where "scan_string room p = (o1, r1)" by (rule prod.exhaust)
  then show ?case using 1 by (auto split: if_splits)
qed auto

lemma parse_string_length: "parse_string n p = Some (s, r) \<Longrightarrow> length r < length p"
  using skip_space_length [of p]
  by (fastforce simp: parse_string_def dest: scan_string_length split: list.splits prod.splits if_splits)

lemma strtoull_length: "strtoull p = (v, r) \<Longrightarrow> length r \<le> length p"
proof -
  have d: "length (dropWhile P q) \<le> length q" for P :: "char \<Rightarrow> bool" and q by (rule length_dropWhile_le)
  assume "strtoull p = (v, r)"
  moreover have "length (dropWhile is_digit q) \<le> length p" if "dropWhile c_isspace p = c # q \<or> dropWhile c_isspace p = q" for c q
    using that d [of is_digit q] d [of c_isspace p] by auto
  ultimately show ?thesis by (auto simp: strtoull_def Let_def split: list.splits if_splits)
qed

lemma skip_nested_length: "length (skip_nested br m d p) \<le> length p"
proof (induction p arbitrary: d)
  case (Cons c p)
  have "length (skip_nested br m d' p) \<le> Suc (length p)" for d' using Cons.IH [of d'] by simp
  then show ?case by (simp add: Let_def)
qed simp

lemma skip_value_length: "length (skip_value p) \<le> length p"
proof -
  have d: "length (dropWhile P q) \<le> length q" for P :: "char \<Rightarrow> bool" and q by (rule length_dropWhile_le)
  show ?thesis
  proof (cases "skip_space p")
    case (Cons c r)
    then have l: "length (c # r) \<le> length p" using skip_space_length [of p] by simp
    have q: "length (case dropWhile (\<lambda>x. x \<noteq> QUOTE) (c # r) of [] \<Rightarrow> [] | _ # r1 \<Rightarrow> r1) \<le> length (c # r)"
      using d [of "\<lambda>x. x \<noteq> QUOTE" "c # r"] by (cases "dropWhile (\<lambda>x. x \<noteq> QUOTE) (c # r)") auto
    have n: "length (skip_nested c m 1 r) \<le> length (c # r)" for m using skip_nested_length [of c m 1 r] by simp
    have "length (skip_value p) \<le> length (c # r)"
      unfolding skip_value_def Cons Let_def list.case using q n d [of is_digit "c # r"] by (simp only: split: if_splits) blast
    then show ?thesis using l by simp
  qed (simp add: skip_value_def)
qed

lemma parse_value_length: "parse_value key p m = Some (m1, r) \<Longrightarrow> length r \<le> length p"
  using skip_space_length [of p] skip_value_length [of p]
  by (fastforce simp: parse_value_def parse_u32_def parse_u64_def dest: parse_string_length strtoull_length split: if_splits option.splits prod.splits)

lemma parse_field_length:
  assumes "parse_field p m = Inr (m1, r)"
  shows "length r < length p"
proof -
  obtain key p1 where k: "parse_string 64 (skip_space p) = Some (key, p1)" using assms by (auto simp: parse_field_def split: option.splits)
  obtain p2 where c: "skip_space p1 = CHR '':'' # p2" using assms k by (auto simp: parse_field_def split: list.splits if_splits)
  obtain p3 where v: "parse_value key p2 m = Some (m1, p3)" and r: "length r \<le> length (skip_space p3)"
    using assms k c by (auto simp: parse_field_def Let_def split: option.splits list.splits if_splits)
  have "length p1 < length p" using parse_string_length [OF k] skip_space_length [of p] by simp
  moreover have "length p2 < length p1" using c skip_space_length [of p1] by simp
  ultimately show ?thesis using r skip_space_length [of p3] parse_value_length [OF v] by simp
qed

subsection \<open>The parser\<close>

function parse_fields :: "string \<Rightarrow> scenario_manifest \<Rightarrow> manifest_error + scenario_manifest" where
  "parse_fields p m =
     (if p = [] \<or> hd p = CHR ''}'' then Inr m
      else (case parse_field p m of Inl e \<Rightarrow> Inl e | Inr (m1, p1) \<Rightarrow> parse_fields p1 m1))"
  by pat_completeness auto
termination
  by (relation "measure (\<lambda>(p, m). length p)") (auto dest: parse_field_length)

declare parse_fields.simps [simp del]

definition manifest_defaults :: "scenario_manifest \<Rightarrow> scenario_manifest" where
  "manifest_defaults m0 =
     (let m1 = (if mf_schema_version m0 = 0 then m0\<lparr>mf_schema_version := 1\<rparr> else m0);
          m2 = (if mf_max_turns m1 = 0 then m1\<lparr>mf_max_turns := 500\<rparr> else m1);
          m3 = (if mf_max_actions m2 = 0 then m2\<lparr>mf_max_actions := 16\<rparr> else m2)
      in if mf_max_time_us m3 = 0 then m3\<lparr>mf_max_time_us := 10000000\<rparr> else m3)"

definition manifest_parse :: "string \<Rightarrow> manifest_error + scenario_manifest" where
  "manifest_parse json =
     (case skip_space json of
        [] \<Rightarrow> Inl Expected_brace
      | c # p \<Rightarrow>
          if c \<noteq> CHR ''{'' then Inl Expected_brace
          else (case parse_fields p zero_manifest of Inl e \<Rightarrow> Inl e | Inr m \<Rightarrow> Inr (manifest_defaults m)))"

section \<open>Validation\<close>

definition peers_clash :: "scenario_manifest \<Rightarrow> bool" where
  "peers_clash m \<longleftrightarrow>
     (\<exists>i \<in> set [0..<unat (mf_num_peers m)]. \<exists>j \<in> set [i + 1..<unat (mf_num_peers m)].
        mfp_i2c_address (mf_peers m ! i) = mfp_i2c_address (mf_peers m ! j) \<and> mfp_type (mf_peers m ! i) = mfp_type (mf_peers m ! j))"

definition manifest_validate :: "scenario_manifest \<Rightarrow> manifest_error option" where
  "manifest_validate m =
     (if mf_scenario_name m = [] then Some Missing_name
      else if mf_schema_version m \<noteq> 1 then Some Unsupported_schema
      else if mf_num_actions m > of_nat MANIFEST_MAX_ACTIONS then Some Too_many_actions
      else if mf_num_peers m > of_nat MANIFEST_MAX_PEERS then Some Too_many_peers
      else if peers_clash m then Some Duplicate_peer
      else None)"

section \<open>Printing and parsing\<close>

fun decimal :: "nat \<Rightarrow> string" where
  "decimal n = (if n < 10 then [char_of (48 + n)] else decimal (n div 10) @ [char_of (48 + n mod 10)])"

declare decimal.simps [simp del]

datatype manifest_field =
  Name_field string | Schema_field u32 | Seed_field u32 | Turns_field u32 | Actions_field u32 | Time_field u64 | Number_field string nat

definition known_keys :: "string list" where
  "known_keys = [''scenario_name'', ''schema_version'', ''seed'', ''max_turns'', ''max_actions'', ''max_time_us'']"

text \<open>Texts that fit a buffer and hold no quote; a number field has an unknown key.\<close>

definition plain :: "string \<Rightarrow> bool" where
  "plain s \<longleftrightarrow> QUOTE \<notin> set s \<and> CHR 0x00 \<notin> set s \<and> length s < MANIFEST_NAME_LEN"

fun field_ok :: "manifest_field \<Rightarrow> bool" where
  "field_ok (Name_field s) = plain s"
| "field_ok (Number_field key n) = (plain key \<and> key \<notin> set known_keys)"
| "field_ok _ = True"

fun field_key :: "manifest_field \<Rightarrow> string" where
  "field_key (Name_field s) = ''scenario_name''"
| "field_key (Schema_field v) = ''schema_version''"
| "field_key (Seed_field v) = ''seed''"
| "field_key (Turns_field v) = ''max_turns''"
| "field_key (Actions_field v) = ''max_actions''"
| "field_key (Time_field v) = ''max_time_us''"
| "field_key (Number_field key n) = key"

definition quoted :: "string \<Rightarrow> string" where
  "quoted s = QUOTE # s @ [QUOTE]"

fun field_value :: "manifest_field \<Rightarrow> string" where
  "field_value (Name_field s) = quoted s"
| "field_value (Schema_field v) = decimal (unat v)"
| "field_value (Seed_field v) = decimal (unat v)"
| "field_value (Turns_field v) = decimal (unat v)"
| "field_value (Actions_field v) = decimal (unat v)"
| "field_value (Time_field v) = decimal (unat v)"
| "field_value (Number_field key n) = decimal n"

fun set_field :: "manifest_field \<Rightarrow> scenario_manifest \<Rightarrow> scenario_manifest" where
  "set_field (Name_field s) m = m\<lparr>mf_scenario_name := s\<rparr>"
| "set_field (Schema_field v) m = m\<lparr>mf_schema_version := v\<rparr>"
| "set_field (Seed_field v) m = m\<lparr>mf_seed := v\<rparr>"
| "set_field (Turns_field v) m = m\<lparr>mf_max_turns := v\<rparr>"
| "set_field (Actions_field v) m = m\<lparr>mf_max_actions := v\<rparr>"
| "set_field (Time_field v) m = m\<lparr>mf_max_time_us := v\<rparr>"
| "set_field (Number_field key n) m = m"

text \<open>A manifest with the white space \<open>sp\<close> around its tokens.\<close>

definition field_text :: "string \<Rightarrow> manifest_field \<Rightarrow> string" where
  "field_text sp f = sp @ quoted (field_key f) @ sp @ '':'' @ sp @ field_value f @ sp"

fun fields_text :: "string \<Rightarrow> manifest_field list \<Rightarrow> string" where
  "fields_text sp [] = []"
| "fields_text sp [f] = field_text sp f"
| "fields_text sp (f # fs) = field_text sp f @ '','' @ fields_text sp fs"

definition manifest_text :: "string \<Rightarrow> manifest_field list \<Rightarrow> string" where
  "manifest_text sp fs = ''{'' @ fields_text sp fs @ ''}''"

subsection \<open>Tokens\<close>

lemma digit_char: "(n :: nat) < 10 \<Longrightarrow> is_digit (char_of (48 + n)) \<and> of_char (char_of (48 + n) :: char) = 48 + n"
  by (simp add: is_digit_def)

lemma decimal_digits: "decimal n \<noteq> [] \<and> (\<forall>c \<in> set (decimal n). is_digit c) \<and> digits_value (decimal n) = n"
proof (induction n rule: decimal.induct)
  case (1 n)
  show ?case
  proof (cases "n < 10")
    case True
    then show ?thesis using digit_char [OF True] by (simp add: decimal.simps [of n] digits_value_def)
  next
    case False
    then show ?thesis using 1 digit_char [of "n mod 10"] by (simp add: decimal.simps [of n] digits_value_def)
  qed
qed

lemma digit_not:
  assumes "is_digit c"
  shows "\<not> is_blank c \<and> \<not> c_isspace c \<and> c \<noteq> QUOTE \<and> c \<noteq> CHR ''-'' \<and> c \<noteq> CHR ''+''"
proof -
  have "c \<noteq> CHR 0x20" "c \<noteq> CHR 0x09" "c \<noteq> CHR 0x0A" "c \<noteq> CHR 0x0D" "c \<noteq> CHR 0x0B" "c \<noteq> CHR 0x0C" "c \<noteq> QUOTE"
    "c \<noteq> CHR ''-''" "c \<noteq> CHR ''+''"
    using assms by (auto simp: is_digit_def)
  then show ?thesis by (simp add: is_blank_def c_isspace_def)
qed

lemma skip_blanks: "\<forall>c \<in> set sp. is_blank c \<Longrightarrow> skip_space (sp @ p) = skip_space p"
  by (simp add: skip_space_def dropWhile_append1 dropWhile_append)

lemma skip_none: "\<not> is_blank c \<Longrightarrow> skip_space (c # p) = c # p"
  by (simp add: skip_space_def)

lemma punctuation: "\<not> is_blank QUOTE" "\<not> is_blank CHR '':''" "\<not> is_blank CHR '',''" "\<not> is_blank CHR ''}''" "\<not> is_blank CHR ''{''"
  "\<not> is_digit CHR '',''" "\<not> is_digit CHR ''}''" "\<not> is_digit QUOTE"
  by (simp_all add: is_blank_def is_digit_def)

lemma scan_plain: "QUOTE \<notin> set s \<Longrightarrow> length s \<le> n \<Longrightarrow> scan_string n (s @ QUOTE # r) = (s, QUOTE # r)"
proof (induction s arbitrary: n)
  case Nil
  then show ?case by (cases n) simp_all
next
  case (Cons c s)
  then show ?case by (cases n) auto
qed

lemma parse_quoted:
  assumes "plain s" "\<forall>c \<in> set sp. is_blank c"
  shows "parse_string 64 (sp @ quoted s @ r) = Some (s, r)"
  using assms scan_plain [of s 63 r] by (simp add: parse_string_def quoted_def skip_blanks skip_none punctuation plain_def)

text \<open>The text after a number: white space, a comma or a brace.\<close>

definition ends_number :: "string \<Rightarrow> bool" where
  "ends_number r \<longleftrightarrow> (case r of [] \<Rightarrow> True | c # _ \<Rightarrow> \<not> is_digit c)"

lemma number_split:
  assumes "ends_number r"
  shows "takeWhile is_digit (decimal n @ r) = decimal n \<and> dropWhile is_digit (decimal n @ r) = r"
proof -
  have "takeWhile is_digit r = [] \<and> dropWhile is_digit r = r" using assms by (cases r) (simp_all add: ends_number_def)
  then show ?thesis using decimal_digits [of n] by (simp add: takeWhile_append2 dropWhile_append2)
qed

lemma skip_to_number:
  assumes "\<forall>c \<in> set sp. is_blank c"
  shows "skip_space (sp @ decimal n @ r) = decimal n @ r"
proof -
  obtain c ds where "decimal n = c # ds" "is_digit c" using decimal_digits [of n] by (cases "decimal n") auto
  then show ?thesis using assms digit_not by (simp add: skip_blanks skip_none)
qed

lemma strtoull_decimal:
  assumes "n < 2 ^ 64" "ends_number r"
  shows "strtoull (decimal n @ r) = (of_nat n, r)"
proof -
  obtain c ds where d: "decimal n = c # ds" "is_digit c" using decimal_digits [of n] by (cases "decimal n") auto
  then have "dropWhile c_isspace (decimal n @ r) = decimal n @ r" using digit_not by simp
  moreover have "(case decimal n @ r of c # q \<Rightarrow> if c = CHR ''-'' then (True, q) else if c = CHR ''+'' then (False, q) else (False, decimal n @ r)
       | [] \<Rightarrow> (False, [])) = (False, decimal n @ r)" using d digit_not by simp
  ultimately show ?thesis using assms number_split [OF assms(2), of n] decimal_digits [of n] by (simp add: strtoull_def Let_def)
qed

lemma narrow_widened: "(ucast (ucast (v :: u32) :: u64) :: u32) = v"
  by (rule bit_word_eqI) (simp add: bit_simps)

lemma parse_number:
  assumes "\<forall>c \<in> set sp. is_blank c" "ends_number r"
  shows "parse_u32 (sp @ decimal (unat (v :: u32)) @ r) = (v, r)" "parse_u64 (sp @ decimal (unat (w :: u64)) @ r) = (w, r)"
    "skip_value (sp @ decimal n @ r) = r"
proof -
  have "unat v < 2 ^ 32" using unsigned_less [of v, where ?'a = nat] by simp
  then have "unat v < 2 ^ 64" by simp
  then show "parse_u32 (sp @ decimal (unat v) @ r) = (v, r)"
    using strtoull_decimal [OF _ assms(2)] by (simp add: parse_u32_def skip_to_number [OF assms(1)] narrow_widened)
  have "unat w < 2 ^ 64" using unsigned_less [of w, where ?'a = nat] by simp
  then show "parse_u64 (sp @ decimal (unat w) @ r) = (w, r)"
    using strtoull_decimal [OF _ assms(2)] by (simp add: parse_u64_def skip_to_number [OF assms(1)])
  obtain c ds where d: "decimal n = c # ds" "is_digit c" using decimal_digits [of n] by (cases "decimal n") auto
  then show "skip_value (sp @ decimal n @ r) = r"
    using digit_not [OF d(2)] number_split [OF assms(2), of n] skip_to_number [OF assms(1), of n r]
    by (simp add: skip_value_def Let_def)
qed

lemma parse_value_text:
  assumes "field_ok f" "\<forall>c \<in> set sp. is_blank c" "ends_number r"
  shows "parse_value (field_key f) (sp @ field_value f @ r) m = Some (set_field f m, r)"
  using assms parse_number [OF assms(2,3)] parse_quoted [OF _ assms(2)]
  by (cases f) (auto simp: parse_value_def known_keys_def)

lemma plain_key: "field_ok f \<Longrightarrow> plain (field_key f)"
  by (cases f) (simp_all add: plain_def)

text \<open>A field followed by a comma or the closing brace.\<close>

lemma parse_field_text:
  assumes "field_ok f" "\<forall>c \<in> set sp. is_blank c" "d = CHR '','' \<or> d = CHR ''}''"
  shows "parse_field (field_text sp f @ d # r) m = Inr (set_field f m, if d = CHR '','' then r else d # r)"
proof -
  have e: "ends_number (sp @ d # r)" using assms(2,3) digit_not by (cases sp) (auto simp: ends_number_def punctuation)
  have s: "skip_space (field_text sp f @ d # r) = quoted (field_key f) @ sp @ '':'' @ sp @ field_value f @ sp @ d # r"
    using assms(2) by (simp add: field_text_def skip_blanks skip_none punctuation quoted_def)
  have k: "parse_string 64 (skip_space (field_text sp f @ d # r)) = Some (field_key f, sp @ '':'' @ sp @ field_value f @ sp @ d # r)"
    unfolding s using parse_quoted [OF plain_key [OF assms(1)], of "[]"] by simp
  have c: "skip_space (sp @ '':'' @ sp @ field_value f @ sp @ d # r) = CHR '':'' # sp @ field_value f @ sp @ d # r"
    using assms(2) by (simp add: skip_blanks skip_none punctuation)
  have t: "skip_space (sp @ d # r) = d # r" using assms(2,3) by (auto simp: skip_blanks skip_none punctuation)
  show ?thesis unfolding parse_field_def k option.case prod.case c list.case Let_def
    using parse_value_text [OF assms(1,2) e] assms(3) by (auto simp: t)
qed

lemma parse_end: "parse_fields (CHR ''}'' # r) m = Inr m"
  by (subst parse_fields.simps) simp

lemma parse_first_field:
  assumes "field_ok f" "\<forall>c \<in> set sp. is_blank c" "d = CHR '','' \<or> d = CHR ''}''"
  shows "parse_fields (field_text sp f @ d # r) m = parse_fields (if d = CHR '','' then r else d # r) (set_field f m)"
proof -
  have "field_text sp f @ d # r \<noteq> []" "hd (field_text sp f @ d # r) \<noteq> CHR ''}''"
    using assms(2) by (cases sp; auto simp: field_text_def quoted_def is_blank_def)+
  then show ?thesis using parse_field_text [OF assms] by (subst parse_fields.simps) simp
qed

lemma parse_fields_text:
  assumes "\<forall>f \<in> set fs. field_ok f" "\<forall>c \<in> set sp. is_blank c"
  shows "parse_fields (fields_text sp fs @ ''}'') m = Inr (fold set_field fs m)"
  using assms
proof (induction sp fs arbitrary: m rule: fields_text.induct)
  case (1 sp)
  then show ?case by (simp add: parse_end)
next
  case (2 sp f)
  then show ?case using parse_first_field [OF _ "2.prems"(2), of f "CHR ''}''" "[]" m] by (simp add: parse_end)
next
  case (3 sp f g fs)
  then show ?case using parse_first_field [OF _ "3.prems"(2), of f "CHR '',''" "fields_text sp (g # fs) @ ''}''" m] by simp
qed

subsection \<open>Round trip\<close>

fun known_field :: "manifest_field \<Rightarrow> bool" where
  "known_field (Number_field key n) = False"
| "known_field _ = True"

lemma unknown_fields_leave_no_trace: "fold set_field (filter known_field fs) m = fold set_field fs m"
proof (induction fs arbitrary: m)
  case (Cons f fs)
  then show ?case by (cases f) simp_all
qed simp

text \<open>C36: parsing reads back what was printed.  A manifest text with any of the six fields the parser knows and of further fields
  with decimal numbers, in any order, repeated or not, with any white space around the tokens, parses to the manifest in which
  each known field has the last value given, and the defaults replace zeros; names and keys are C strings of at most
  63 characters without a quote or a zero character.  The further fields leave no trace: the parse is that of the text without them.
  There the code departs from the design (docs 05_firmware/90_implementation/93_linux_simulation_integration.md, section
  8.1, FW-SIM-REQ-041 and TC_SIM_MANIFEST_UNKNOWN_FIELD_REJECTED), whose strict mode rejects an unknown field: the code has no
  strict mode, and the fields it knows are not those of the design's table.\<close>

theorem manifest_roundtrip:
  assumes "\<forall>f \<in> set fs. field_ok f" "\<forall>c \<in> set sp. is_blank c"
  shows "manifest_parse (manifest_text sp fs) = Inr (manifest_defaults (fold set_field fs zero_manifest)) \<and>
    manifest_parse (manifest_text sp fs) = manifest_parse (manifest_text sp (filter known_field fs))"
  using parse_fields_text [OF assms, of zero_manifest] parse_fields_text [OF _ assms(2), of "filter known_field fs" zero_manifest] assms(1)
  by (simp add: manifest_parse_def manifest_text_def skip_none punctuation unknown_fields_leave_no_trace)

definition sample_fields :: "manifest_field list" where
  "sample_fields = [Name_field ''boot'', Number_field ''version'' 3, Seed_field 42, Time_field 5000000000]"

lemma manifest_roundtrip_witness:
  "case manifest_parse (manifest_text '' '' sample_fields) of Inl e \<Rightarrow> False
   | Inr m \<Rightarrow> mf_scenario_name m = ''boot'' \<and> mf_seed m = 42 \<and> mf_max_time_us m = 5000000000 \<and> mf_max_turns m = 500"
proof -
  have "\<forall>f \<in> set sample_fields. field_ok f" by (simp add: sample_fields_def plain_def known_keys_def)
  moreover have "\<forall>c \<in> set '' ''. is_blank c" by (simp add: is_blank_def)
  ultimately show ?thesis by (simp add: manifest_roundtrip sample_fields_def zero_manifest_def manifest_defaults_def Let_def)
qed

subsection \<open>What is refused and what is ignored\<close>

lemma parse_prefix:
  assumes "\<forall>f \<in> set fs. field_ok f" "\<forall>c \<in> set sp. is_blank c"
  shows "parse_fields (concat (map (\<lambda>f. field_text sp f @ '','') fs) @ r) m = parse_fields r (fold set_field fs m)"
  using assms
proof (induction fs arbitrary: m)
  case (Cons f fs)
  then show ?case using parse_first_field [of f sp "CHR '',''"] by simp
qed simp

text \<open>An unknown key with a string value is refused, though numbers, arrays and objects are skipped: the loop that
  should skip the string stops at its opening quote.\<close>

lemma unknown_string_refused:
  assumes "\<forall>f \<in> set fs. field_ok f" "\<forall>c \<in> set sp. is_blank c" "plain key" "key \<notin> set known_keys"
    and "\<not> is_blank c" "c \<noteq> CHR '',''" "c \<noteq> CHR ''}''" "c \<noteq> QUOTE"
  shows "manifest_parse (''{'' @ concat (map (\<lambda>f. field_text sp f @ '','') fs) @ quoted key @ '':'' @ quoted (c # v) @ r) = Inl Key_failed"
proof -
  have k: "parse_string 64 (skip_space (quoted key @ '':'' @ quoted (c # v) @ r)) = Some (key, '':'' @ quoted (c # v) @ r)"
    using parse_quoted [OF assms(3), of "[]"] by (simp add: quoted_def skip_none punctuation)
  have v: "parse_value key (quoted (c # v) @ r) m = Some (m, c # v @ QUOTE # r)" for m
    using assms(4,8) by (simp add: parse_value_def known_keys_def skip_value_def quoted_def skip_none punctuation Let_def)
  have "parse_field (quoted key @ '':'' @ quoted (c # v) @ r) m = Inr (m, c # v @ QUOTE # r)" for m
    unfolding parse_field_def k using assms(5,6) by (simp add: skip_none punctuation v Let_def)
  moreover have "parse_field (c # v @ QUOTE # r) m = Inl Key_failed" for m
    using assms(5,8) by (simp add: parse_field_def skip_none parse_string_def)
  ultimately have "parse_fields (quoted key @ '':'' @ quoted (c # v) @ r) m = Inl Key_failed" for m
    using assms(7) by (subst parse_fields.simps, simp add: quoted_def) (subst parse_fields.simps, simp)
  then show ?thesis using parse_prefix [OF assms(1,2)] by (simp add: manifest_parse_def skip_none punctuation)
qed

text \<open>Peers, actions and assertions of a text are skipped: no parsed manifest has any.\<close>

definition no_arrays :: "scenario_manifest \<Rightarrow> bool" where
  "no_arrays m \<longleftrightarrow> mf_num_peers m = 0 \<and> mf_num_actions m = 0 \<and> mf_num_asserts m = 0"

lemma parse_value_no_arrays: "parse_value key p m = Some (m1, r) \<Longrightarrow> no_arrays m \<Longrightarrow> no_arrays m1"
  by (auto simp: parse_value_def no_arrays_def split: if_splits option.splits prod.splits)

lemma parse_fields_no_arrays: "parse_fields p m = Inr m1 \<Longrightarrow> no_arrays m \<Longrightarrow> no_arrays m1"
proof (induction p m rule: parse_fields.induct)
  case (1 p m)
  show ?case
  proof (cases "p = [] \<or> hd p = CHR ''}''")
    case True
    then show ?thesis using 1 by (subst (asm) (2) parse_fields.simps) auto
  next
    case False
    then obtain m2 p2 where f: "parse_field p m = Inr (m2, p2)" "parse_fields p2 m2 = Inr m1"
      using "1.prems"(1) by (subst (asm) parse_fields.simps) (auto split: sum.splits)
    then have "no_arrays m2" using "1.prems"(2)
      by (auto simp: parse_field_def Let_def split: option.splits list.splits if_splits dest: parse_value_no_arrays)
    then show ?thesis using "1.IH" [OF False f(1) refl f(2)] by blast
  qed
qed

lemma parsed_has_no_arrays: "manifest_parse json = Inr m \<Longrightarrow> no_arrays m"
proof -
  assume "manifest_parse json = Inr m"
  then obtain p m0 where "parse_fields p zero_manifest = Inr m0" "m = manifest_defaults m0"
    by (auto simp: manifest_parse_def split: list.splits if_splits sum.splits)
  moreover have "no_arrays zero_manifest" by (simp add: no_arrays_def zero_manifest_def)
  ultimately show ?thesis using parse_fields_no_arrays [of p zero_manifest m0] by (simp add: no_arrays_def manifest_defaults_def Let_def)
qed

end
