(* ===== verification/Sim_Harness.thy ===== *)
theory Sim_Harness
  imports Run_Controller Linux_Providers Scenario_Manifest Nv_Memory
begin

text \<open>
  The simulation harness (directory simulation): the composition of the Linux platform and the firmware core
  (sim_harness.c), the trace (normalized_trace.c), the scenario runner (scenario_runner.c) and the processing stubs
  (stubs/processing_stubs.c).

  Clock, queues, scheduler, mode machine and repository are owned by the harness and pointed to by the controller; they stand in
  the controller's record.  A registered device is a handle into the list of devices the runner
  allocates; \<open>mem\<close> answers the allocations.  A run that ends the process is None.
\<close>

section \<open>The trace\<close>

abbreviation TRACE_MAX_RECORDS :: nat where "TRACE_MAX_RECORDS \<equiv> 1024"

record trace_record =
  tc_virtual_time_us :: u64
  tc_turn_number :: u32
  tc_event_id :: u32
  tc_delivery_class :: u8
  tc_correlation_id :: u32
  tc_source_generation :: u32
  tc_mode_generation :: u32
  tc_resource_generation :: u32
  tc_event_owner :: u8
  tc_dispatch_result :: u8
  tc_system_mode :: u8
  tc_transition_sequence :: u32
  tc_purpose :: u32
  tc_origin :: u32
  tc_provenance :: u32
  tc_diagnostic_flags :: u32

text \<open>The records in use; their number is the count.\<close>

record normalized_trace =
  nt_records :: "trace_record list"
  nt_schema_version :: u32

definition trace_init :: normalized_trace where
  "trace_init = \<lparr>nt_records = [], nt_schema_version = 1\<rparr>"

definition trace_append :: "trace_record \<Rightarrow> normalized_trace \<Rightarrow> bool \<times> normalized_trace" where
  "trace_append r t = (if length (nt_records t) \<ge> TRACE_MAX_RECORDS then (False, t) else (True, t\<lparr>nt_records := nt_records t @ [r]\<rparr>))"

definition trace_get_count :: "normalized_trace \<Rightarrow> nat" where
  "trace_get_count t = length (nt_records t)"

definition trace_get :: "normalized_trace \<Rightarrow> nat \<Rightarrow> trace_record option" where
  "trace_get t index = (if index \<ge> length (nt_records t) then None else Some (nt_records t ! index))"

text \<open>The fields that are compared.\<close>

definition same_record :: "trace_record \<Rightarrow> trace_record \<Rightarrow> bool" where
  "same_record a b \<longleftrightarrow>
     tc_virtual_time_us a = tc_virtual_time_us b \<and> tc_turn_number a = tc_turn_number b \<and> tc_event_id a = tc_event_id b \<and>
     tc_correlation_id a = tc_correlation_id b \<and> tc_source_generation a = tc_source_generation b \<and>
     tc_mode_generation a = tc_mode_generation b \<and> tc_resource_generation a = tc_resource_generation b \<and>
     tc_event_owner a = tc_event_owner b \<and> tc_system_mode a = tc_system_mode b \<and>
     tc_transition_sequence a = tc_transition_sequence b \<and> tc_purpose a = tc_purpose b \<and> tc_origin a = tc_origin b \<and>
     tc_provenance a = tc_provenance b"

definition trace_equals :: "normalized_trace \<Rightarrow> normalized_trace \<Rightarrow> bool" where
  "trace_equals a b \<longleftrightarrow> list_all2 same_record (nt_records a) (nt_records b)"

section \<open>The processing stubs\<close>

definition set_stub_metadata :: "result_metadata \<Rightarrow> result_metadata" where
  "set_stub_metadata source =
     zero_metadata\<lparr>md_purpose := md_purpose source, md_origin := md_origin source, md_provenance := PROVENANCE_ESTIMATED,
       md_binding := md_binding source, md_source_generation := md_source_generation source,
       md_sample_sequence := md_sample_sequence source, md_sample_monotonic_us := md_sample_monotonic_us source\<rparr>"

text \<open>Signed arithmetic is exact; the code is undefined where a result leaves 32 bits.\<close>

definition stub_process_temperature :: "result_metadata \<Rightarrow> i32 \<Rightarrow> temperature_result" where
  "stub_process_temperature source raw_tof =
     \<lparr>tp_meta = (set_stub_metadata source)\<lparr>md_reason_flags := 1\<rparr>, tp_temperature_mdeg_c = (raw_tof sdiv 10) * 25, tp_processing_flags = 0\<rparr>"

definition stub_process_flow :: "result_metadata \<Rightarrow> i32 \<Rightarrow> flow_direction \<Rightarrow> flow_result" where
  "stub_process_flow source delta_tof direction =
     \<lparr>fl_meta = (set_stub_metadata source)\<lparr>md_reason_flags := 1\<rparr>, fl_flow_ul_per_s = delta_tof * 10, fl_direction = direction,
      fl_compensation_flags = 0, fl_processing_flags = 0, fl_paired_temperature_sequence = 0\<rparr>"

definition stub_process_pressure :: "result_metadata \<Rightarrow> i32 \<Rightarrow> pressure_result" where
  "stub_process_pressure source raw_count =
     \<lparr>pr_meta = (set_stub_metadata source)\<lparr>md_reason_flags := 1\<rparr>, pr_pressure_pa = raw_count * 5, pr_processing_flags = 0\<rparr>"

section \<open>The harness\<close>

datatype sim_device = Max_device max35103_peer | Zssc_device zssc3241_peer | Fram_device fram_peer

record sim_harness =
  sh_controller :: run_controller
  sh_spi :: "nat linux_spi_provider"
  sh_i2c :: "nat linux_i2c_provider"
  sh_gpio :: linux_gpio_provider
  sh_devices :: "sim_device list"
  sh_boot_generation :: u32
  sh_initialized :: bool

definition sim_harness_limits :: run_controller_limits where
  "sim_harness_limits = \<lparr>rl_max_turns = 1000, rl_max_actions_per_turn = 16, rl_max_same_time_progress_repeats = 5,
     rl_max_virtual_time_us = 100000000\<rparr>"

definition sim_harness_init :: sim_harness where
  "sim_harness_init =
     \<lparr>sh_controller = run_controller_init (linux_clock_init LINUX_CLOCK_MODE_DETERMINISTIC) action_queue_init
        (app_event_queue_init (Some \<lparr>cfg_capacity = 32, cfg_reserved_critical = 4, cfg_reserved_measurement = 4\<rparr>))
        scheduler_init system_fsm_init data_repository_init (Some sim_harness_limits),
      sh_spi = linux_spi_init, sh_i2c = linux_i2c_init, sh_gpio = linux_gpio_init 8, sh_devices = [],
      sh_boot_generation = 1, sh_initialized = True\<rparr>"

definition sim_harness_reset :: "sim_harness \<Rightarrow> bool \<times> sim_harness" where
  "sim_harness_reset h = (True, sim_harness_init\<lparr>sh_boot_generation := sh_boot_generation h + 1\<rparr>)"

section \<open>The scenario runner\<close>

record scenario_result =
  sx_harness :: sim_harness
  sx_trace :: normalized_trace
  sx_final_status :: run_status
  sx_turns_executed :: u32
  sx_total_time_us :: u64

text \<open>One peer of the manifest; the answers of the registrations are ignored.\<close>

definition register_peer :: "manifest_peer \<Rightarrow> sim_harness \<Rightarrow> sim_harness" where
  "register_peer mp h =
     (let handle = length (sh_devices h);
          add = (\<lambda>d. h\<lparr>sh_devices := sh_devices h @ [d]\<rparr>)
      in case mfp_type mp of
           PEER_TYPE_MAX35103 \<Rightarrow>
             (add (Max_device max_peer_init))\<lparr>sh_spi := snd (linux_spi_register_peer (Some handle) (sh_spi h))\<rparr>
         | PEER_TYPE_ZSSC3241 \<Rightarrow>
             (add (Zssc_device zssc_peer_init))\<lparr>sh_i2c := snd (linux_i2c_register_peer (mfp_i2c_address mp) (Some handle) (sh_i2c h))\<rparr>
         | PEER_TYPE_FRAM \<Rightarrow>
             (add (Fram_device fram_peer_init))\<lparr>sh_i2c := snd (linux_i2c_register_peer (mfp_i2c_address mp) (Some handle) (sh_i2c h))\<rparr>)"

text \<open>The first peers of the array, while memory is available.\<close>

fun register_peers :: "(nat \<Rightarrow> bool) \<Rightarrow> manifest_peer list \<Rightarrow> sim_harness \<Rightarrow> bool \<times> sim_harness" where
  "register_peers mem [] h = (True, h)"
| "register_peers mem (mp # ps) h =
     (if \<not> mem (length (sh_devices h)) then (False, h) else register_peers mem ps (register_peer mp h))"

definition scenario_limits :: "scenario_manifest \<Rightarrow> run_controller_limits" where
  "scenario_limits m =
     \<lparr>rl_max_turns = (if mf_max_turns m \<noteq> 0 then mf_max_turns m else 500), rl_max_actions_per_turn = 16,
      rl_max_same_time_progress_repeats = 5,
      rl_max_virtual_time_us = (if mf_max_time_us m \<noteq> 0 then mf_max_time_us m else 10000000)\<rparr>"

definition manifest_peers :: "scenario_manifest \<Rightarrow> manifest_peer list" where
  "manifest_peers m = map (\<lambda>i. mf_peers m ! i) [0..<unat (mf_num_peers m)]"

definition scenario_run :: "(nat \<Rightarrow> bool) \<Rightarrow> run_clocks \<Rightarrow> timespec \<Rightarrow> scenario_manifest \<Rightarrow> (bool \<times> scenario_result) option" where
  "scenario_run mem clk host m =
     (let h0 = sim_harness_init\<lparr>sh_controller := (sh_controller sim_harness_init)\<lparr>rc_limits := scenario_limits m\<rparr>\<rparr>;
          result = (\<lambda>h. \<lparr>sx_harness = h, sx_trace = trace_init, sx_final_status = RUN_PROGRESS, sx_turns_executed = 0, sx_total_time_us = 0\<rparr>)
      in case register_peers mem (manifest_peers m) h0 of
           (False, h) \<Rightarrow> Some (False, result h)
         | (True, h) \<Rightarrow>
             (case run_controller_until_idle clk (sh_controller h) of
                None \<Rightarrow> None
              | Some (status, c) \<Rightarrow>
                  Some (True, (result (h\<lparr>sh_controller := c\<rparr>))\<lparr>sx_final_status := status, sx_turns_executed := rc_turn_count c,
                    sx_total_time_us := linux_clock_now_us host (rc_clock c)\<rparr>)))"

fun mode_number :: "system_mode \<Rightarrow> u32" where
  "mode_number SYSTEM_MODE_INIT = 0"
| "mode_number SYSTEM_MODE_NORMAL = 1"
| "mode_number SYSTEM_MODE_LOW_POWER = 2"
| "mode_number SYSTEM_MODE_SERVICE = 3"
| "mode_number SYSTEM_MODE_RECOVERY = 4"
| "mode_number SYSTEM_MODE_ERROR = 5"

definition assertion_holds :: "scenario_result \<Rightarrow> manifest_assert \<Rightarrow> bool" where
  "assertion_holds r a =
     (case mft_type a of
        ASSERT_MODE_EQUALS \<Rightarrow>
          mode_number (smc_current_mode (system_fsm_get_context (rc_fsm (sh_controller (sx_harness r))))) = mft_expected_value a
      | ASSERT_COUNTER_GT \<Rightarrow> \<not> (of_nat (trace_get_count (sx_trace r)) \<le> mft_expected_value a)
      | ASSERT_TRACE_CONTAINS \<Rightarrow> True)"

definition scenario_check_assertions :: "scenario_manifest \<Rightarrow> scenario_result \<Rightarrow> bool" where
  "scenario_check_assertions m r = list_all (\<lambda>i. assertion_holds r (mf_asserts m ! i)) [0..<unat (mf_num_asserts m)]"

section \<open>Traces\<close>

text \<open>Comparison is an equivalence, but it does not see how an event was delivered or what its dispatch returned.\<close>

lemma trace_equivalence:
  "trace_equals a a" "trace_equals a b \<Longrightarrow> trace_equals b a" "trace_equals a b \<Longrightarrow> trace_equals b c \<Longrightarrow> trace_equals a c"
proof -
  show "trace_equals a a" by (simp add: trace_equals_def list_all2_refl same_record_def)
  show "trace_equals b a" if "trace_equals a b"
    using that by (simp add: trace_equals_def list_all2_conv_all_nth same_record_def)
  show "trace_equals a c" if "trace_equals a b" "trace_equals b c"
    using that by (simp add: trace_equals_def list_all2_conv_all_nth same_record_def)
qed

lemma dispatch_result_not_compared:
  "trace_equals (t\<lparr>nt_records := [r]\<rparr>) (t\<lparr>nt_records := [r\<lparr>tc_dispatch_result := x, tc_delivery_class := y, tc_diagnostic_flags := z\<rparr>]\<rparr>)"
  by (simp add: trace_equals_def same_record_def)

section \<open>What a scenario does\<close>

lemma register_peer_controller [simp]: "sh_controller (register_peer mp h) = sh_controller h"
  by (simp add: register_peer_def Let_def split: peer_type.splits)

lemma register_peers_controller: "register_peers mem ps h = (ok, h') \<Longrightarrow> sh_controller h' = sh_controller h"
  by (induction ps arbitrary: h) (auto split: if_splits)

lemma register_peers_ok: "\<forall>i. mem i \<Longrightarrow> fst (register_peers mem ps h)"
  by (induction ps arbitrary: h) auto

lemma fresh_mode: "smc_current_mode (system_fsm_get_context (rc_fsm (count_idle_turn ((sh_controller sim_harness_init)\<lparr>rc_limits := l\<rparr>)))) = SYSTEM_MODE_INIT"
  by (simp add: count_idle_turn_def sim_harness_init_def run_controller_init_def system_fsm_get_context_def system_fsm_init_def)

lemma fresh_assertion:
  assumes "smc_current_mode (system_fsm_get_context (rc_fsm (sh_controller (sx_harness r)))) = SYSTEM_MODE_INIT"
    and "trace_get_count (sx_trace r) = 0"
  shows "assertion_holds r a = (case mft_type a of ASSERT_MODE_EQUALS \<Rightarrow> mft_expected_value a = 0
      | ASSERT_COUNTER_GT \<Rightarrow> False | ASSERT_TRACE_CONTAINS \<Rightarrow> True)"
  by (cases "mft_type a") (use assms in \<open>auto simp: assertion_holds_def\<close>)

text \<open>C37: every scenario does nothing.  The runner registers the peers of a manifest but schedules none of its actions, posts no event and never
  appends to the trace, so whatever the manifest says the run ends idle in its first turn, at time 0
  and in mode INIT, with an empty trace: an assertion on the mode holds exactly for INIT, one on the
  length of the trace never, and one on its contents always.\<close>

theorem every_scenario_does_nothing:
  assumes "\<forall>i. mem i"
  shows "\<exists>r. scenario_run mem clk host m = Some (True, r) \<and> sx_final_status r = RUN_IDLE \<and> sx_turns_executed r = 1 \<and>
    sx_total_time_us r = 0 \<and> trace_get_count (sx_trace r) = 0 \<and>
    scenario_check_assertions m r =
      list_all (\<lambda>i. case mft_type (mf_asserts m ! i) of ASSERT_MODE_EQUALS \<Rightarrow> mft_expected_value (mf_asserts m ! i) = 0
          | ASSERT_COUNTER_GT \<Rightarrow> False | ASSERT_TRACE_CONTAINS \<Rightarrow> True) [0..<unat (mf_num_asserts m)]"
proof -
  let ?c = "(sh_controller sim_harness_init)\<lparr>rc_limits := scenario_limits m\<rparr>"
  let ?h = "sim_harness_init\<lparr>sh_controller := ?c\<rparr>"
  obtain h where h: "register_peers mem (manifest_peers m) ?h = (True, h)"
    using register_peers_ok [OF assms, of "manifest_peers m" ?h] by (metis (full_types) prod.collapse)
  have hc: "sh_controller h = ?c" using register_peers_controller [OF h] by simp
  have idle: "idle_controller ?c"
    using fresh_idle by (simp add: sim_harness_init_def idle_controller_def)
  have l: "0 < rl_max_turns (rc_limits ?c)" "rl_max_same_time_progress_repeats (rc_limits ?c) = 5" "rc_same_time_progress_count ?c = 0"
    by (simp_all add: scenario_limits_def sim_harness_init_def run_controller_init_def word_neq_0_conv [symmetric])
  have five: "\<not> (5 :: u32) \<le> 0 + 1" by (simp add: word_le_nat_alt)
  have run: "run_controller_until_idle clk ?c = Some (RUN_IDLE, count_idle_turn ?c)"
    using idle_run [OF idle l(1)] unfolding l if_not_P [OF five] by blast
  let ?r = "\<lparr>sx_harness = h\<lparr>sh_controller := count_idle_turn ?c\<rparr>, sx_trace = trace_init, sx_final_status = RUN_IDLE,
    sx_turns_executed = 1, sx_total_time_us = 0\<rparr>"
  have "scenario_run mem clk host m = Some (True, ?r)"
    by (simp add: scenario_run_def h hc run Let_def)
      (simp add: count_idle_turn_def sim_harness_init_def run_controller_init_def linux_clock_init_def linux_clock_now_us_def)
  moreover have "assertion_holds ?r a = (case mft_type a of ASSERT_MODE_EQUALS \<Rightarrow> mft_expected_value a = 0
      | ASSERT_COUNTER_GT \<Rightarrow> False | ASSERT_TRACE_CONTAINS \<Rightarrow> True)" for a
    by (rule fresh_assertion) (simp_all add: trace_get_count_def trace_init_def fresh_mode)
  ultimately show ?thesis
    by (intro exI [of _ ?r]) (simp add: trace_get_count_def trace_init_def scenario_check_assertions_def)
qed

text \<open>A manifest with an action at time 10, two peers and an assertion on the trace.\<close>

definition sample_manifest :: scenario_manifest where
  "sample_manifest = zero_manifest\<lparr>mf_scenario_name := ''boot'', mf_num_peers := 2,
     mf_peers := (mf_peers zero_manifest)[1 := \<lparr>mfp_type = PEER_TYPE_ZSSC3241, mfp_i2c_address = 0x28, mfp_fixture_id = 0, mfp_fault_plan = 0\<rparr>],
     mf_num_actions := 1,
     mf_actions := (mf_actions zero_manifest)[0 := \<lparr>mfa_type = ACTION_POST_EVENT, mfa_at_us = 10, mfa_resource_id = 1, mfa_value = 0x101, mfa_duration_us = 0\<rparr>],
     mf_num_asserts := 1, mf_asserts := (mf_asserts zero_manifest)[0 := \<lparr>mft_type = ASSERT_COUNTER_GT, mft_target_id = 0, mft_expected_value = 0\<rparr>]\<rparr>"

lemma every_scenario_does_nothing_witness:
  "case scenario_run (\<lambda>_. True) sample_clocks \<lparr>tv_sec = 0, tv_nsec = 0\<rparr> sample_manifest of
     Some (True, r) \<Rightarrow> sx_turns_executed r = 1 \<and> \<not> scenario_check_assertions sample_manifest r
   | _ \<Rightarrow> False"
proof -
  have "\<forall>i. (\<lambda>_. True) (i :: nat)" by simp
  from every_scenario_does_nothing [OF this, of sample_clocks "\<lparr>tv_sec = 0, tv_nsec = 0\<rparr>" sample_manifest]
  show ?thesis by (auto simp: sample_manifest_def zero_manifest_def)
qed

end
