(* ===== verification/App_Composition.thy ===== *)
theory App_Composition
  imports Event_Dispatch Measurement Power_Service Linux_Clock
begin

text \<open>
  The composition of the application (app/app_composition.c) and the facades it contains (directory facades).

  The objects of the composition are the fields of the loop's record and of its client state.  The
  facades of measurement, storage and connectivity borrow the repository and the queue; their
  pointers are the flags that they were given.  The ADC port is a state with a function that reads it; the readings of the
  clock are arguments.  A failed start, after which the composition must not be used, is None.
\<close>

section \<open>Facades\<close>

record measurement_facade =
  mef_repo :: bool
  mef_queue :: bool
  mef_initialized :: bool

definition measurement_facade_init :: "bool \<Rightarrow> bool \<Rightarrow> port_status \<times> measurement_facade" where
  "measurement_facade_init repo queue = (PORT_OK, \<lparr>mef_repo = repo, mef_queue = queue, mef_initialized = True\<rparr>)"

definition measurement_facade_process_sample :: "measurement_facade \<Rightarrow> measurement_facade" where
  "measurement_facade_process_sample f = f"

definition measurement_facade_get_flow :: "measurement_facade \<Rightarrow> flow_result option" where
  "measurement_facade_get_flow f = None"

definition measurement_facade_get_pressure :: "measurement_facade \<Rightarrow> pressure_result option" where
  "measurement_facade_get_pressure f = None"

record storage_facade =
  stf_repo :: bool
  stf_initialized :: bool

definition storage_facade_init :: "bool \<Rightarrow> port_status \<times> storage_facade" where
  "storage_facade_init repo = (PORT_OK, \<lparr>stf_repo = repo, stf_initialized = True\<rparr>)"

definition storage_facade_get_status :: "storage_facade \<Rightarrow> port_status" where
  "storage_facade_get_status f = (if \<not> stf_initialized f then PORT_STATUS_UNAVAILABLE else PORT_OK)"

record connectivity_facade =
  cnf_repo :: bool
  cnf_queue :: bool
  cnf_initialized :: bool

definition connectivity_facade_init :: "bool \<Rightarrow> bool \<Rightarrow> port_status \<times> connectivity_facade" where
  "connectivity_facade_init repo queue = (PORT_OK, \<lparr>cnf_repo = repo, cnf_queue = queue, cnf_initialized = True\<rparr>)"

definition connectivity_facade_get_status :: "connectivity_facade \<Rightarrow> port_status" where
  "connectivity_facade_get_status f = (if \<not> cnf_initialized f then PORT_STATUS_UNAVAILABLE else PORT_OK)"

section \<open>The composition\<close>

abbreviation POWER_SCHEDULER_JOB_ID :: u16 where "POWER_SCHEDULER_JOB_ID \<equiv> 0x0706"
abbreviation POWER_SCHEDULER_OWNER_ID :: u32 where "POWER_SCHEDULER_OWNER_ID \<equiv> 7"
abbreviation POWER_SCHEDULER_GENERATION :: u32 where "POWER_SCHEDULER_GENERATION \<equiv> 1"
abbreviation MICROSECONDS_PER_SECOND :: u64 where "MICROSECONDS_PER_SECOND \<equiv> 1000000"

datatype composition_handler = Measurement_event_handler | Power_sample_due_handler

text \<open>What the handlers reach beside the loop's objects.\<close>

record ('x, 'p) composition_parts =
  ax_shared_i2c_bus :: i2c_bus
  ax_measurement :: measurement_facade
  ax_measurement_manager :: measurement_manager
  ax_storage :: storage_facade
  ax_connectivity :: connectivity_facade
  ax_power :: power_facade
  ax_initialized :: bool
  ax_adc_port :: 'p
  ax_external :: 'x

type_synonym ('x, 'p) app_composition = "(composition_handler, unit, ('x, 'p) composition_parts) app_event_loop"

text \<open>The world outside: the ADC port, the I2C port and the services registered by other code.\<close>

record ('x, 'p) environment =
  en_adc_read :: "'p \<Rightarrow> (port_status \<times> u16) \<times> 'p"
  en_i2c_port :: "app_event \<Rightarrow> port_answer"
  en_externals :: "'x externals"

definition power_sample_due_handler :: "('x, 'p) environment \<Rightarrow> app_event \<Rightarrow> ('x, 'p) app_composition \<Rightarrow> ('x, 'p) app_composition" where
  "power_sample_due_handler env event app =
     (let c = al_world app
      in if \<not> pf_initialized (ax_power c) then app
         else case en_adc_read env (ax_adc_port c) of
                (reading, p) \<Rightarrow>
                  (case power_facade_process_sample reading (ev_monotonic_timestamp_us event) (ax_power c) (al_queue app) (al_repo app) of
                     (_, f, q, r) \<Rightarrow> app\<lparr>al_queue := q, al_repo := r, al_world := c\<lparr>ax_power := f, ax_adc_port := p\<rparr>\<rparr>))"

definition measurement_event_handler :: "('x, 'p) environment \<Rightarrow> app_event \<Rightarrow> ('x, 'p) app_composition \<Rightarrow> ('x, 'p) app_composition" where
  "measurement_event_handler env event app =
     (let c = al_world app;
          w = \<lparr>w_manager = ax_measurement_manager c, w_queue = al_queue app, w_bus = ax_shared_i2c_bus c, w_external = ax_external c\<rparr>
      in case measurement_manager_process_event (en_i2c_port env event) (en_externals env) event w (al_repo app) of
           (_, w', r) \<Rightarrow>
             app\<lparr>al_queue := w_queue w', al_repo := r,
               al_world := c\<lparr>ax_measurement_manager := w_manager w', ax_shared_i2c_bus := w_bus w', ax_external := w_external w'\<rparr>\<rparr>)"

fun composition_client :: "('x, 'p) environment \<Rightarrow> composition_handler \<Rightarrow> app_event \<Rightarrow> ('x, 'p) app_composition \<Rightarrow> ('x, 'p) app_composition" where
  "composition_client env Measurement_event_handler = measurement_event_handler env"
| "composition_client env Power_sample_due_handler = power_sample_due_handler env"

definition measurement_event_ids :: "event_id list" where
  "measurement_event_ids = [EVT_MAX_IRQ_ASSERTED, EVT_MAX_SPI_COMPLETED, EVT_MAX_SPI_FAILED, EVT_MAX_RESULT_TIMEOUT, EVT_MAX_RAW_READY,
     EVT_PRESSURE_SAMPLE_DUE, EVT_PRESSURE_EOC_ASSERTED, EVT_PRESSURE_POLL_DUE, EVT_PRESSURE_TIMEOUT, EVT_PRESSURE_RAW_READY]"

definition register_measurement_events ::
  "composition_handler Event_Dispatch.event_handler event_mediator \<Rightarrow> bool \<times> composition_handler Event_Dispatch.event_handler event_mediator" where
  "register_measurement_events m = register_handlers m measurement_event_ids (Client_handler Measurement_event_handler)"

text \<open>The periodic job; \<open>now\<close> is the reading of the composition, \<open>sched_now\<close> that of the scheduler.\<close>

definition schedule_power_job :: "power_config \<Rightarrow> u64 \<Rightarrow> u64 \<Rightarrow> scheduler \<Rightarrow> scheduler option" where
  "schedule_power_job config now sched_now js =
     (let period_us = ucast (pc_sample_period_s config) * MICROSECONDS_PER_SECOND
      in if 0xFFFFFFFFFFFFFFFF - now < period_us then None
         else (case scheduler_schedule_periodic js POWER_SCHEDULER_JOB_ID POWER_SCHEDULER_OWNER_ID EVT_POWER_SAMPLE_DUE (now + period_us) period_us
                      POWER_SCHEDULER_GENERATION MISS_POLICY_SKIP EVENT_PRIO_BACKGROUND sched_now of
                 (SCHEDULE_OK, js') \<Rightarrow> Some js'
               | _ \<Rightarrow> None))"

definition app_composition_init ::
  "loop_budget_config option \<Rightarrow> 'p \<Rightarrow> power_config option \<Rightarrow> 'x \<Rightarrow> u64 \<Rightarrow> u64 \<Rightarrow> ('x, 'p) app_composition option" where
  "app_composition_init budget adc config ext now sched_now =
     (case power_facade_init config of
        None \<Rightarrow> None
      | Some pf \<Rightarrow>
          let parts = \<lparr>ax_shared_i2c_bus = i2c_bus_init False, ax_measurement = snd (measurement_facade_init True True),
                       ax_measurement_manager = measurement_manager_init, ax_storage = snd (storage_facade_init True),
                       ax_connectivity = snd (connectivity_facade_init True True), ax_power = pf, ax_initialized = False,
                       ax_adc_port = adc, ax_external = ext\<rparr>;
              loop = app_event_loop_init (app_event_queue_init (Some default_queue_config)) system_fsm_init data_repository_init
                       (Some event_mediator_init) scheduler_init budget parts
          in if \<not> al_initialized loop then None
             else (case al_mediator loop of
                     None \<Rightarrow> None
                   | Some m \<Rightarrow>
                       (case register_measurement_events m of
                          (False, _) \<Rightarrow> None
                        | (True, m1) \<Rightarrow>
                            (case event_mediator_register m1 EVT_POWER_SAMPLE_DUE (Client_handler Power_sample_due_handler) of
                               (EVENT_MEDIATOR_OK, m2) \<Rightarrow>
                                 (case schedule_power_job (pf_config pf) now sched_now (al_scheduler loop) of
                                    None \<Rightarrow> None
                                  | Some js \<Rightarrow> Some (loop\<lparr>al_mediator := Some m2, al_scheduler := js, al_world := parts\<lparr>ax_initialized := True\<rparr>\<rparr>))
                             | _ \<Rightarrow> None))))"

definition app_composition_bind_i2c_port :: "bool \<Rightarrow> ('x, 'p) app_composition \<Rightarrow> bool \<times> ('x, 'p) app_composition" where
  "app_composition_bind_i2c_port port_valid app =
     (if \<not> ax_initialized (al_world app) then (False, app)
      else case i2c_bus_bind_port port_valid (ax_shared_i2c_bus (al_world app)) of
             (ok, b) \<Rightarrow> (ok, app\<lparr>al_world := (al_world app)\<lparr>ax_shared_i2c_bus := b\<rparr>\<rparr>))"

text \<open>A turn of the composed application; no component binds an action.\<close>

definition composition_turn :: "('x, 'p) environment \<Rightarrow> ('x, 'p) app_composition \<Rightarrow> turn_clock \<Rightarrow> ('x, 'p) app_composition" where
  "composition_turn env app clk =
     app_event_loop_run_once (composition_client env) (\<lambda>_ _ l. (FSM_ACTION_EXEC_FAILED, l)) clk app"

section \<open>A successful start\<close>

definition composition_mediator :: "composition_handler Event_Dispatch.event_handler event_mediator" where
  "composition_mediator =
     map (\<lambda>i. \<lparr>he_event_id = i, he_handler = Fsm_event_handler, he_active = True\<rparr>) fsm_event_ids @
     map (\<lambda>i. \<lparr>he_event_id = i, he_handler = Client_handler Measurement_event_handler, he_active = True\<rparr>) measurement_event_ids @
     [\<lparr>he_event_id = EVT_POWER_SAMPLE_DUE, he_handler = Client_handler Power_sample_due_handler, he_active = True\<rparr>]"

lemma register_handlers_append:
  "distinct is \<Longrightarrow> \<forall>i \<in> set is. find_handler m i = None \<Longrightarrow> length m + length is \<le> EVENT_MEDIATOR_MAX_HANDLERS \<Longrightarrow>
   register_handlers m is h = (True, m @ map (\<lambda>i. \<lparr>he_event_id = i, he_handler = h, he_active = True\<rparr>) is)"
proof (induction "is" arbitrary: m)
  case (Cons i js)
  let ?m = "m @ [\<lparr>he_event_id = i, he_handler = h, he_active = True\<rparr>]"
  have "register_handlers ?m js h = (True, ?m @ map (\<lambda>i. \<lparr>he_event_id = i, he_handler = h, he_active = True\<rparr>) js)"
    by (rule Cons.IH) (use Cons.prems in \<open>auto simp: find_handler_append\<close>)
  with Cons.prems show ?case by (simp add: event_mediator_register_def)
qed simp

lemma find_handler_map: "find_handler (map (\<lambda>i. \<lparr>he_event_id = i, he_handler = h, he_active = True\<rparr>) is) j = (if j \<in> set is then Some h else None)"
  by (induction "is") auto

lemma composition_mediator_find:
  "find_handler composition_mediator i =
     (if i \<in> set fsm_event_ids then Some Fsm_event_handler
      else if i \<in> set measurement_event_ids then Some (Client_handler Measurement_event_handler)
      else if i = EVT_POWER_SAMPLE_DUE then Some (Client_handler Power_sample_due_handler) else None)"
  by (simp add: composition_mediator_def find_handler_append find_handler_map del: set_simps)

text \<open>The loop's own registration, and the two of the composition.\<close>

lemma registrations:
  "register_handlers event_mediator_init fsm_event_ids Fsm_event_handler =
     (True, map (\<lambda>i. \<lparr>he_event_id = i, he_handler = Fsm_event_handler, he_active = True\<rparr>) fsm_event_ids)"
  "register_measurement_events (map (\<lambda>i. \<lparr>he_event_id = i, he_handler = Fsm_event_handler, he_active = True\<rparr>) fsm_event_ids) =
     (True, map (\<lambda>i. \<lparr>he_event_id = i, he_handler = Fsm_event_handler, he_active = True\<rparr>) fsm_event_ids @
       map (\<lambda>i. \<lparr>he_event_id = i, he_handler = Client_handler Measurement_event_handler, he_active = True\<rparr>) measurement_event_ids)"
  "event_mediator_register (map (\<lambda>i. \<lparr>he_event_id = i, he_handler = Fsm_event_handler, he_active = True\<rparr>) fsm_event_ids @
       map (\<lambda>i. \<lparr>he_event_id = i, he_handler = Client_handler Measurement_event_handler, he_active = True\<rparr>) measurement_event_ids)
     EVT_POWER_SAMPLE_DUE (Client_handler Power_sample_due_handler) = (EVENT_MEDIATOR_OK, composition_mediator)"
proof -
  have d: "distinct fsm_event_ids" "distinct measurement_event_ids" "length fsm_event_ids = 14" "length measurement_event_ids = 10"
    by (simp_all add: fsm_event_ids_def measurement_event_ids_def)
  have disjoint: "\<forall>i \<in> set measurement_event_ids. i \<notin> set fsm_event_ids"
    "EVT_POWER_SAMPLE_DUE \<notin> set fsm_event_ids" "EVT_POWER_SAMPLE_DUE \<notin> set measurement_event_ids"
    by (simp_all add: fsm_event_ids_def measurement_event_ids_def)
  show "register_handlers event_mediator_init fsm_event_ids Fsm_event_handler =
     (True, map (\<lambda>i. \<lparr>he_event_id = i, he_handler = Fsm_event_handler, he_active = True\<rparr>) fsm_event_ids)"
    using register_handlers_append [OF d(1), of event_mediator_init Fsm_event_handler] d(3) by (simp add: event_mediator_init_def)
  show "register_measurement_events (map (\<lambda>i. \<lparr>he_event_id = i, he_handler = Fsm_event_handler, he_active = True\<rparr>) fsm_event_ids) =
     (True, map (\<lambda>i. \<lparr>he_event_id = i, he_handler = Fsm_event_handler, he_active = True\<rparr>) fsm_event_ids @
       map (\<lambda>i. \<lparr>he_event_id = i, he_handler = Client_handler Measurement_event_handler, he_active = True\<rparr>) measurement_event_ids)"
    unfolding register_measurement_events_def by (rule register_handlers_append) (use d disjoint in \<open>simp_all add: find_handler_map\<close>)
  show "event_mediator_register (map (\<lambda>i. \<lparr>he_event_id = i, he_handler = Fsm_event_handler, he_active = True\<rparr>) fsm_event_ids @
       map (\<lambda>i. \<lparr>he_event_id = i, he_handler = Client_handler Measurement_event_handler, he_active = True\<rparr>) measurement_event_ids)
     EVT_POWER_SAMPLE_DUE (Client_handler Power_sample_due_handler) = (EVENT_MEDIATOR_OK, composition_mediator)"
    using d disjoint by (simp add: event_mediator_register_def find_handler_append find_handler_map composition_mediator_def)
qed

definition power_job :: "u64 \<Rightarrow> u64 \<Rightarrow> u64 \<Rightarrow> scheduler_job" where
  "power_job anchor period deadline =
     \<lparr>sj_job_id = POWER_SCHEDULER_JOB_ID, sj_owner_id = POWER_SCHEDULER_OWNER_ID, sj_event_id = EVT_POWER_SAMPLE_DUE,
      sj_deadline_us = deadline, sj_anchor_us = anchor, sj_period_us = period, sj_generation = POWER_SCHEDULER_GENERATION,
      sj_mode_mask = 0xFFFFFFFF, sj_miss_policy = MISS_POLICY_SKIP, sj_priority = EVENT_PRIO_BACKGROUND, sj_pending = False\<rparr>"

definition sample_period :: "power_config \<Rightarrow> u64" where
  "sample_period c = ucast (pc_sample_period_s c) * MICROSECONDS_PER_SECOND"

lemma sample_period_eq: "unat (sample_period c) = unat (pc_sample_period_s c) * 1000000"
proof -
  have u: "unat (ucast (pc_sample_period_s c) :: u64) = unat (pc_sample_period_s c)" by (simp add: unsigned_ucast_eq take_bit_nat_eq_self_iff unsigned_less [THEN less_le_trans])
  have "unat (pc_sample_period_s c) < 2 ^ 16" by (rule order_less_le_trans [OF unsigned_less]) simp
  then have "unat (ucast (pc_sample_period_s c) :: u64) * unat (1000000 :: u64) < 2 ^ LENGTH(64)" unfolding u by simp
  then show ?thesis unfolding sample_period_def by (subst (asm) unat_mult_lem) (simp add: u)
qed

text \<open>The start succeeds exactly with a valid configuration and a first deadline that fits 64 bits.\<close>

definition config_or_default :: "power_config option \<Rightarrow> power_config" where
  "config_or_default config = (case config of Some c \<Rightarrow> c | None \<Rightarrow> POWER_CONFIG_DEFAULT)"

lemma app_composition_init_eq:
  assumes c: "c = config_or_default config"
  shows "app_composition_init budget adc config ext now sched_now =
    (if \<not> power_config_is_valid c \<or> 2 ^ 64 \<le> unat now + unat (sample_period c) then None
     else let parts = \<lparr>ax_shared_i2c_bus = i2c_bus_init False, ax_measurement = snd (measurement_facade_init True True),
                ax_measurement_manager = measurement_manager_init, ax_storage = snd (storage_facade_init True),
                ax_connectivity = snd (connectivity_facade_init True True),
                ax_power = \<lparr>pf_svc = the (power_service_init c), pf_config = c, pf_initialized = True\<rparr>, ax_initialized = True,
                ax_adc_port = adc, ax_external = ext\<rparr>
          in Some ((app_event_loop_init (app_event_queue_init (Some default_queue_config)) system_fsm_init data_repository_init
                      (Some event_mediator_init) scheduler_init budget parts)
                     \<lparr>al_mediator := Some composition_mediator,
                      al_scheduler := [power_job (now + sample_period c) (sample_period c)
                        (next_anchored (now + sample_period c) (sample_period c) sched_now)]\<rparr>))"
proof -
  have wrap: "0xFFFFFFFFFFFFFFFF - now < p \<longleftrightarrow> 2 ^ 64 \<le> unat now + unat p" for p :: u64
    using unsigned_less [of now, where ?'a = nat] by (simp add: word_less_nat_alt unat_sub word_le_nat_alt) linarith
  have p: "sample_period c \<noteq> 0" if "power_config_is_valid c"
    using that sample_period_eq [of c] by (auto simp: power_config_is_valid_def unat_eq_0)
  show ?thesis
    using p by (auto simp: app_composition_init_def power_facade_init_def power_service_init_def c config_or_default_def app_event_loop_init_def Let_def
        registrations schedule_power_job_def wrap [folded sample_period_def] sample_period_def [symmetric] scheduler_schedule_periodic_def
        scheduler_init_def power_job_def)
qed

section \<open>One event of an otherwise empty queue\<close>

definition empty_queue :: "app_event_queue \<Rightarrow> bool" where
  "empty_queue q \<longleftrightarrow> queue_inv q \<and> contents q = [] \<and> q_config q = default_queue_config"

definition holds_one :: "app_event \<Rightarrow> app_event_queue \<Rightarrow> bool" where
  "holds_one e q \<longleftrightarrow> queue_inv q \<and> contents q = [e] \<and> q_config q = default_queue_config"

lemma empty_queue_count: "empty_queue q \<Longrightarrow> q_count q = 0"
  unfolding empty_queue_def by (metis length_contents list.size(3))

lemma post_to_empty:
  assumes "empty_queue q"
  obtains q' where "post_unlocked q e = (EVENT_POST_OK, q')" "holds_one e q'"
proof -
  obtain res q' where p: "post_unlocked q e = (res, q')" by fastforce
  have "abs_post (q_config q) [] e = (res, contents q')" "queue_inv q'" "q_config q' = q_config q"
    using post_refines [OF _ p] assms by (auto simp: empty_queue_def)
  then show thesis using that p assms
    by (auto simp: abs_post_def admission_limit_def empty_queue_def holds_one_def default_queue_config_def split: if_splits)
qed

lemma get_the_one:
  assumes "holds_one e q"
  obtains q' where "try_get_unlocked q = Some (e, q')" "empty_queue q'"
proof -
  have "q_count q \<noteq> 0" using assms unfolding holds_one_def by (metis length_contents list.size(4) nat.distinct(1) One_nat_def add_Suc_right)
  then obtain x q' where g: "try_get_unlocked q = Some (x, q')" using try_get_None_iff [of q] by fastforce
  have "abs_get (4 \<le> q_consecutive_dequeue_count q) [e] = (x, contents q')" "queue_inv q'" "q_config q' = q_config q"
    using get_refinesD [OF _ g] assms by (auto simp: holds_one_def)
  then show thesis using that g assms
    by (auto simp: abs_get_def select_index_def empty_queue_def holds_one_def remove_nth_def Let_def split: if_splits)
qed

definition in_time :: "loop_budget_config \<Rightarrow> turn_clock \<Rightarrow> bool" where
  "in_time b clk \<longleftrightarrow> (\<forall>k. \<not> execution_budget_elapsed b (tc_started clk) (tc_check clk k))"

lemma steps_done:
  assumes "empty_queue (al_queue l)" "in_time (al_budget l) clk"
  shows "event_steps client (tc_started clk) (tc_check clk) n k l = (k, False, l)"
proof -
  have "try_get_unlocked (al_queue l) = None" using empty_queue_count [OF assms(1)] by (simp add: try_get_None_iff)
  then show ?thesis using assms(2) by (cases n) (simp_all add: app_event_queue_try_get_def in_time_def)
qed

definition after_event :: "(composition_handler \<Rightarrow> app_event \<Rightarrow> ('x, 'p) app_composition \<Rightarrow> ('x, 'p) app_composition) \<Rightarrow> app_event \<Rightarrow>
    ('x, 'p) app_composition \<Rightarrow> ('x, 'p) app_composition" where
  "after_event client e l =
     (let l1 = snd (dispatch_to_owner_guarded client e l)
      in l1\<lparr>al_scheduler := acknowledge_deadline e (al_scheduler l1), al_events_processed_last_turn := al_events_processed_last_turn l1 + 1\<rparr>)"

lemma steps_one:
  assumes "holds_one e (al_queue l)" "in_time (al_budget l) clk"
    and "al_events_processed_last_turn l < lb_max_events_per_turn (al_budget l)"
  obtains q where "empty_queue q" "event_steps client (tc_started clk) (tc_check clk) (Suc n) k l =
    event_steps client (tc_started clk) (tc_check clk) n (Suc k) (after_event client e (l\<lparr>al_queue := q\<rparr>))"
proof -
  obtain q where q: "try_get_unlocked (al_queue l) = Some (e, q)" "empty_queue q" using get_the_one [OF assms(1)] .
  show thesis by (rule that [OF q(2)])
      (use q(1) assms(2,3) in \<open>simp add: app_event_queue_try_get_def in_time_def after_event_def Let_def\<close>)
qed

text \<open>The announcement of a new health has no handler.\<close>

lemma power_event_ignored:
  assumes "al_mediator l = Some composition_mediator"
  shows "after_event client (power_event c) l = l\<lparr>al_events_processed_last_turn := al_events_processed_last_turn l + 1\<rparr>"
proof -
  have "find_handler composition_mediator EVT_POWER_STATUS_CHANGED = None"
    unfolding composition_mediator_find by (simp add: fsm_event_ids_def measurement_event_ids_def)
  moreover have "route_event (Some (power_event c)) = (EVENT_OWNER_DISPLAY_HEALTH, True)"
    by (simp add: route_event_def power_event_def)
  moreover have "ev_id (power_event c) = EVT_POWER_STATUS_CHANGED" "ev_delivery (power_event c) = DELIVERY_LEVEL" by (simp_all add: power_event_def)
  ultimately show ?thesis using assms
    by (simp add: after_event_def dispatch_to_owner_guarded_def event_mediator_dispatch_def legacy_dispatch_def acknowledge_deadline_def Let_def)
qed

section \<open>What a publication changes\<close>

definition free_repo :: "data_repository \<Rightarrow> bool" where
  "free_repo r \<longleftrightarrow> repo_ok r \<and> \<not> dr_writer_active r"

lemma publish_one:
  assumes "free_repo r" "txn_begin txn_init r = (True, t1, r1)" "txn_write v t1 r1 = (ok2, t2, r2)" "txn_commit t2 r2 = (ok3, t3, r3)"
  shows "ok2 \<and> ok3 \<and> free_repo r3 \<and> published r3 = (apply_write v (published r))\<lparr>rs_snapshot_version := dr_snapshot_version r + 1\<rparr>"
proof -
  have b: "repo_ok r1" "owns t1 r1" "buffer r1 (tx_inactive_index t1) = published r" "dr_snapshot_version r1 = dr_snapshot_version r"
    using begin_owned [of r txn_init] assms(1,2) by (auto simp: free_repo_def)
  have w: "ok2" "repo_ok r2" "owns t2 r2" "buffer r2 (tx_inactive_index t2) = apply_write v (published r)" "dr_snapshot_version r2 = dr_snapshot_version r"
    using write_owned [OF b(1,2), of v] assms(3) b(3,4) by auto
  show ?thesis using commit_owned [OF w(2,3)] assms(4) w by (auto simp: free_repo_def)
qed

text \<open>A snapshot but for its power and its version.\<close>

definition beside_power :: "runtime_snapshot \<Rightarrow> runtime_snapshot" where
  "beside_power s = s\<lparr>rs_power := zero_power, rs_snapshot_version := 0\<rparr>"

lemma process_sample_publishes:
  assumes "free_repo r" "power_facade_process_sample reading t f q r = (st, f', q', r')"
  shows "free_repo r' \<and> beside_power (published r') = beside_power (published r)"
proof -
  have pub: "free_repo r2 \<and> beside_power (published r2) = beside_power (published r)"
    if p: "publish_power_snapshot g previous q r = (st2, q2, r2)" for g previous st2 q2 r2
  proof -
    obtain t1 r1 where b: "txn_begin txn_init r = (True, t1, r1)" using begin_owned [of r txn_init] assms(1) by (auto simp: free_repo_def)
    obtain ok2 t2 s2 where w: "txn_write (Write_power (pw_current (pf_svc g))) t1 r1 = (ok2, t2, s2)" by (metis prod.exhaust)
    obtain ok3 t3 s3 where c: "txn_commit t2 s2 = (ok3, t3, s3)" by (metis prod.exhaust)
    note o = publish_one [OF assms(1) b w c]
    then have "r2 = s3" using p b w c by (auto simp: publish_power_snapshot_def Let_def split: if_splits prod.splits)
    then show ?thesis using o by (simp add: beside_power_def)
  qed
  show ?thesis using assms pub by (auto simp: power_facade_process_sample_def Let_def split: if_splits prod.splits)
qed

section \<open>Power sampling\<close>

text \<open>What a reading of the port does to the power service.\<close>

fun reading_effect :: "port_status \<times> u16 \<Rightarrow> u64 \<Rightarrow> power_service \<Rightarrow> power_service" where
  "reading_effect (st, raw) t s =
     (if st \<noteq> PORT_OK then snd (power_service_mark_read_failure s) else snd (power_service_sample_at raw t s))"

lemma publish_queue:
  assumes "empty_queue q" "publish_power_snapshot f previous q r = (st, q', r')"
  shows "empty_queue q' \<or> (\<exists>c. holds_one (power_event c) q')"
proof -
  obtain q1 where p: "post_unlocked q (power_event (pw_current (pf_svc f))) = (EVENT_POST_OK, q1)" "holds_one (power_event (pw_current (pf_svc f))) q1"
    using post_to_empty [OF assms(1)] .
  have "q' = q \<or> q' = q1"
    using assms(2) p(1) by (auto simp: publish_power_snapshot_def app_event_queue_post_def Let_def split: prod.splits if_splits bool.splits)
  then show ?thesis using assms(1) p(2) by auto
qed

lemma process_sample_parts:
  assumes "pf_initialized f" "empty_queue q" "power_facade_process_sample reading t f q r = (st, f', q', r')"
  shows "f' = f\<lparr>pf_svc := reading_effect reading t (pf_svc f)\<rparr> \<and> (empty_queue q' \<or> (\<exists>c. holds_one (power_event c) q'))"
proof (cases "fst reading = PORT_OK")
  case True
  obtain raw where r: "reading = (PORT_OK, raw)" using True by (cases reading) auto
  obtain st1 s where m: "power_service_sample_at raw t (pf_svc f) = (st1, s)" by fastforce
  obtain st2 q2 r2 where p: "publish_power_snapshot (f\<lparr>pf_svc := s\<rparr>) (ps_health (pw_current (pf_svc f))) q r = (st2, q2, r2)" by (metis prod.exhaust)
  show ?thesis using assms m p publish_queue [OF assms(2) p] unfolding r
    by (cases "st1 = PORT_OK") (simp_all add: power_facade_process_sample_def Let_def)
next
  case False
  obtain st0 raw where r: "reading = (st0, raw)" "st0 \<noteq> PORT_OK" using False by (cases reading) auto
  obtain changed s where m: "power_service_mark_read_failure (pf_svc f) = (changed, s)" by fastforce
  obtain st2 q2 r2 where p: "publish_power_snapshot (f\<lparr>pf_svc := s\<rparr>) (ps_health (pw_current (pf_svc f))) q r = (st2, q2, r2)" by (metis prod.exhaust)
  show ?thesis using assms r(2) m p publish_queue [OF assms(2) p] unfolding r(1)
    by (cases changed) (simp_all add: power_facade_process_sample_def Let_def)
qed

text \<open>The application at rest: nothing queued or pending, and the power job as its only job.\<close>

definition at_rest :: "u64 \<Rightarrow> u64 \<Rightarrow> u64 \<Rightarrow> ('x, 'p) app_composition \<Rightarrow> bool" where
  "at_rest anchor period deadline app \<longleftrightarrow>
     al_initialized app \<and> al_mediator app = Some composition_mediator \<and> empty_queue (al_queue app) \<and>
     repo_ok (al_repo app) \<and> \<not> dr_writer_active (al_repo app) \<and> pending_actions (al_fsm app) = ACTION_NONE \<and>
     al_scheduler app = [power_job anchor period deadline] \<and>
     pf_initialized (ax_power (al_world app)) \<and> rs_power (published (al_repo app)) = pw_current (pf_svc (ax_power (al_world app))) \<and>
     2 \<le> lb_max_events_per_turn (al_budget app) \<and> 2 \<le> lb_max_service_steps (al_budget app)"

text \<open>A sampler on its own: the deadline, the service and the ADC port.\<close>

record 'p sampler =
  sp_deadline :: u64
  sp_service :: power_service
  sp_adc :: 'p

definition sampler_turn :: "('p \<Rightarrow> (port_status \<times> u16) \<times> 'p) \<Rightarrow> u64 \<Rightarrow> u64 \<Rightarrow> 'p sampler \<Rightarrow> turn_clock \<Rightarrow> 'p sampler" where
  "sampler_turn read anchor period s clk =
     (if sp_deadline s \<le> tc_now clk
      then (case read (sp_adc s) of
              (reading, p) \<Rightarrow> \<lparr>sp_deadline = next_anchored anchor period (tc_now clk),
                               sp_service = reading_effect reading (tc_due clk 0) (sp_service s), sp_adc = p\<rparr>)
      else s)"

definition sampler_of :: "('x, 'p) app_composition \<Rightarrow> 'p sampler" where
  "sampler_of app = \<lparr>sp_deadline = sj_deadline_us (hd (al_scheduler app)), sp_service = pf_svc (ax_power (al_world app)),
     sp_adc = ax_adc_port (al_world app)\<rparr>"

text \<open>What power sampling leaves alone.\<close>

definition same_rest :: "('x, 'p) app_composition \<Rightarrow> ('x, 'p) app_composition \<Rightarrow> bool" where
  "same_rest a b \<longleftrightarrow>
     beside_power (published (al_repo a)) = beside_power (published (al_repo b)) \<and>
     al_fsm a = al_fsm b \<and> al_mediator a = al_mediator b \<and> al_guard_provider a = al_guard_provider b \<and>
     al_action_executor a = al_action_executor b \<and> al_budget a = al_budget b \<and> al_initialized a = al_initialized b \<and>
     al_budget_exhaustion_count a = al_budget_exhaustion_count b \<and> al_reset_requests a = al_reset_requests b \<and>
     ax_shared_i2c_bus (al_world a) = ax_shared_i2c_bus (al_world b) \<and> ax_measurement (al_world a) = ax_measurement (al_world b) \<and>
     ax_measurement_manager (al_world a) = ax_measurement_manager (al_world b) \<and> ax_storage (al_world a) = ax_storage (al_world b) \<and>
     ax_connectivity (al_world a) = ax_connectivity (al_world b) \<and> ax_initialized (al_world a) = ax_initialized (al_world b) \<and>
     ax_external (al_world a) = ax_external (al_world b) \<and> pf_config (ax_power (al_world a)) = pf_config (ax_power (al_world b)) \<and>
     pf_initialized (ax_power (al_world a)) = pf_initialized (ax_power (al_world b))"

lemma due_event_sampled:
  assumes "pf_initialized (ax_power (al_world l))" "empty_queue (al_queue l)" "al_mediator l = Some composition_mediator"
    and "repo_ok (al_repo l)" "\<not> dr_writer_active (al_repo l)" "rs_power (published (al_repo l)) = pw_current (pf_svc (ax_power (al_world l)))"
    and "al_scheduler l = [(power_job anchor period d)\<lparr>sj_pending := True\<rparr>]" "en_adc_read env (ax_adc_port (al_world l)) = (reading, p)"
  obtains q r f where "after_event (composition_client env) (due_event stamp (power_job anchor period d0)) l =
      l\<lparr>al_queue := q, al_repo := r, al_world := (al_world l)\<lparr>ax_power := f, ax_adc_port := p\<rparr>, al_scheduler := [power_job anchor period d],
        al_events_processed_last_turn := al_events_processed_last_turn l + 1\<rparr>"
    "empty_queue q \<or> (\<exists>c. holds_one (power_event c) q)" "f = (ax_power (al_world l))\<lparr>pf_svc := reading_effect reading stamp (pf_svc (ax_power (al_world l)))\<rparr>"
    "repo_ok r" "\<not> dr_writer_active r" "rs_power (published r) = pw_current (pf_svc f)"
    "beside_power (published r) = beside_power (published (al_repo l))"
proof -
  let ?e = "due_event stamp (power_job anchor period d0)" and ?c = "al_world l"
  obtain st f q r where s: "power_facade_process_sample reading stamp (ax_power ?c) (al_queue l) (al_repo l) = (st, f, q, r)" by (metis prod.exhaust)
  have e: "ev_id ?e = EVT_POWER_SAMPLE_DUE" "ev_delivery ?e = DELIVERY_DEADLINE" "ev_monotonic_timestamp_us ?e = stamp"
    "ev_correlation_id ?e = ucast POWER_SCHEDULER_JOB_ID" "ev_source_generation ?e = POWER_SCHEDULER_GENERATION"
    by (simp_all add: due_event_def power_job_def)
  have h: "find_handler composition_mediator EVT_POWER_SAMPLE_DUE = Some (Client_handler Power_sample_due_handler)"
    unfolding composition_mediator_find by (simp add: fsm_event_ids_def measurement_event_ids_def)
  have a: "acknowledge_deadline ?e [(power_job anchor period d)\<lparr>sj_pending := True\<rparr>] = [power_job anchor period d]"
    by (simp add: acknowledge_deadline_def e) (simp add: scheduler_acknowledge_def power_job_def)
  have "after_event (composition_client env) ?e l =
      l\<lparr>al_queue := q, al_repo := r, al_world := ?c\<lparr>ax_power := f, ax_adc_port := p\<rparr>, al_scheduler := [power_job anchor period d],
        al_events_processed_last_turn := al_events_processed_last_turn l + 1\<rparr>"
    using assms(1,3,7,8) s a
    by (simp add: after_event_def dispatch_to_owner_guarded_def event_mediator_dispatch_def e(1,3) h power_sample_due_handler_def Let_def)
  moreover have "free_repo (al_repo l)" using assms(4,5) by (simp add: free_repo_def)
  moreover note process_sample_parts [OF assms(1,2) s] process_sample_effect [OF assms(4,5,6) s] process_sample_publishes [OF this s]
  ultimately show thesis by (intro that [where q = q and r = r and f = f]) auto
qed

lemma dispatch_power_job:
  assumes "period \<noteq> 0" "0 < unat lim"
  shows "scheduler_dispatch_due clock [power_job anchor period d] now lim =
    (if d \<le> now then ([due_event (clock 0) (power_job anchor period d)],
        [(power_job anchor period (next_anchored anchor period now))\<lparr>sj_pending := True\<rparr>])
     else ([], [power_job anchor period d]))"
  using assms by (simp add: scheduler_dispatch_due_def visit_job_def is_deadline_passed_def power_job_def word_gt_0)

text \<open>A turn in time, to its end.\<close>

definition ends_in_time :: "loop_budget_config \<Rightarrow> turn_clock \<Rightarrow> bool" where
  "ends_in_time b clk \<longleftrightarrow> in_time b clk \<and> \<not> execution_budget_elapsed b (tc_started clk) (tc_end clk)"

lemma run_at_rest:
  assumes "al_initialized app" "ends_in_time (al_budget app) clk"
    and "scheduler_dispatch_due (tc_due clk) (al_scheduler app) (tc_now clk) (min (lb_max_events_per_turn (al_budget app)) LOOP_BUDGET_DEFAULT_MAX_EVENTS) = (due, js)"
    and "post_all (al_queue app) due = q"
    and "event_steps client (tc_started clk) (tc_check clk) (unat (lb_max_service_steps (al_budget app))) 0
      (app\<lparr>al_events_processed_last_turn := 0, al_scheduler := js, al_queue := q\<rparr>) = (k, False, l)"
    and "empty_queue (al_queue l)" "pending_actions (al_fsm l) = ACTION_NONE"
  shows "app_event_loop_run_once client act clk app = l"
proof -
  have "action_phase act (al_budget app) (tc_started clk) (tc_end clk) k False l = (False, l)"
    using assms(2,7) by (simp add: action_phase_def system_fsm_get_pending_actions_def ends_in_time_def Let_def)
  then show ?thesis using assms(1,3,4,5) empty_queue_count [OF assms(6)]
    by (simp add: app_event_loop_run_once_def app_event_queue_get_count_def Let_def)
qed

lemma composition_turn_at_rest:
  assumes "at_rest anchor period d app" "period \<noteq> 0" "ends_in_time (al_budget app) clk"
  shows "at_rest anchor period (sp_deadline (sampler_turn (en_adc_read env) anchor period (sampler_of app) clk)) (composition_turn env app clk) \<and>
    sampler_of (composition_turn env app clk) = sampler_turn (en_adc_read env) anchor period (sampler_of app) clk \<and>
    same_rest (composition_turn env app clk) app"
proof -
  let ?lim = "min (lb_max_events_per_turn (al_budget app)) LOOP_BUDGET_DEFAULT_MAX_EVENTS"
  let ?b = "al_budget app" and ?n = "unat (lb_max_service_steps (al_budget app))"
  note r = assms(1) [unfolded at_rest_def]
  from r have init: "al_initialized app" and empty: "empty_queue (al_queue app)" and idle: "pending_actions (al_fsm app) = ACTION_NONE"
    and sched: "al_scheduler app = [power_job anchor period d]" by blast+
  have two: "2 \<le> lb_max_events_per_turn ?b" "2 \<le> lb_max_service_steps ?b" using r by simp_all
  have lim: "0 < unat ?lim" using two by (simp add: min_def word_le_nat_alt)
  have "2 \<le> ?n" using two(2) by (simp add: word_le_nat_alt)
  then have "?n = Suc (Suc (?n - 2))" by simp
  then obtain n where n: "?n = Suc (Suc n)" by blast
  have time: "in_time ?b clk" using assms(3) by (simp add: ends_in_time_def)
  let ?read = "en_adc_read env (ax_adc_port (al_world app))"
  show ?thesis
  proof (cases "d \<le> tc_now clk")
    case False
    let ?l = "app\<lparr>al_events_processed_last_turn := 0, al_scheduler := [power_job anchor period d], al_queue := al_queue app\<rparr>"
    have due: "scheduler_dispatch_due (tc_due clk) (al_scheduler app) (tc_now clk) ?lim = ([], [power_job anchor period d])"
      unfolding sched using dispatch_power_job [OF assms(2) lim, of "tc_due clk" anchor d "tc_now clk"] False by simp
    have unposted: "post_all (al_queue app) [] = al_queue app" by (simp add: post_all_def)
    have steps: "event_steps (composition_client env) (tc_started clk) (tc_check clk) ?n 0 ?l = (0, False, ?l)"
      by (rule steps_done) (simp_all add: empty time)
    have "composition_turn env app clk = ?l"
      unfolding composition_turn_def
      by (rule run_at_rest [OF init assms(3) due unposted steps]) (simp_all add: empty idle)
    then show ?thesis using r False by (simp add: at_rest_def sampler_of_def sampler_turn_def same_rest_def power_job_def)
  next
    case True
    let ?d = "next_anchored anchor period (tc_now clk)" and ?e = "due_event (tc_due clk 0) (power_job anchor period d)"
    obtain reading p where read: "?read = (reading, p)" by fastforce
    obtain q1 where q1: "post_unlocked (al_queue app) ?e = (EVENT_POST_OK, q1)" "holds_one ?e q1" using post_to_empty r by blast
    have post: "post_all (al_queue app) [?e] = q1" by (simp add: post_all_def app_event_queue_post_def q1(1))
    let ?l1 = "app\<lparr>al_events_processed_last_turn := 0, al_scheduler := [(power_job anchor period ?d)\<lparr>sj_pending := True\<rparr>], al_queue := q1\<rparr>"
    have lt: "0 < lb_max_events_per_turn ?b" "0 + 1 < lb_max_events_per_turn ?b" using two(1) by (simp_all add: word_le_nat_alt word_less_nat_alt)
    obtain q2 where q2: "empty_queue q2" and s1: "event_steps (composition_client env) (tc_started clk) (tc_check clk) ?n 0 ?l1 =
        event_steps (composition_client env) (tc_started clk) (tc_check clk) (Suc n) (Suc 0) (after_event (composition_client env) ?e (?l1\<lparr>al_queue := q2\<rparr>))"
      using steps_one [of ?e ?l1 clk "composition_client env" "Suc n" 0] q1(2) time lt(1) unfolding n by auto
    obtain q3 r3 f where l3: "after_event (composition_client env) ?e (?l1\<lparr>al_queue := q2\<rparr>) =
        ?l1\<lparr>al_queue := q3, al_repo := r3, al_world := (al_world app)\<lparr>ax_power := f, ax_adc_port := p\<rparr>,
          al_scheduler := [power_job anchor period ?d], al_events_processed_last_turn := 0 + 1\<rparr>"
        (is "_ = ?l3") and q3: "empty_queue q3 \<or> (\<exists>c. holds_one (power_event c) q3)"
      and f: "f = (ax_power (al_world app))\<lparr>pf_svc := reading_effect reading (tc_due clk 0) (pf_svc (ax_power (al_world app)))\<rparr>"
      and r3: "repo_ok r3" "\<not> dr_writer_active r3" "rs_power (published r3) = pw_current (pf_svc f)"
        "beside_power (published r3) = beside_power (published (al_repo app))"
      by (rule due_event_sampled [of "?l1\<lparr>al_queue := q2\<rparr>" anchor period ?d env reading p "tc_due clk 0" d]) (use r q2 read in auto)
    obtain k q4 m where q4: "empty_queue q4" and s2: "event_steps (composition_client env) (tc_started clk) (tc_check clk) (Suc n) (Suc 0) ?l3 =
        (k, False, ?l3\<lparr>al_queue := q4, al_events_processed_last_turn := m\<rparr>)"
    proof (cases "empty_queue q3")
      case True
      then show thesis using that [of q3 "Suc 0" "0 + 1"] steps_done [of ?l3 clk "composition_client env" "Suc n" "Suc 0"] time by simp
    next
      case False
      then obtain c where c: "holds_one (power_event c) q3" using q3 by blast
      obtain q4 where q4: "empty_queue q4" "event_steps (composition_client env) (tc_started clk) (tc_check clk) (Suc n) (Suc 0) ?l3 =
          event_steps (composition_client env) (tc_started clk) (tc_check clk) n (Suc (Suc 0)) (after_event (composition_client env) (power_event c) (?l3\<lparr>al_queue := q4\<rparr>))"
        using steps_one [of "power_event c" ?l3 clk "composition_client env" n "Suc 0"] c time lt(2) by auto
      have "after_event (composition_client env) (power_event c) (?l3\<lparr>al_queue := q4\<rparr>) = ?l3\<lparr>al_queue := q4, al_events_processed_last_turn := 0 + 1 + 1\<rparr>"
        using power_event_ignored [of "?l3\<lparr>al_queue := q4\<rparr>" "composition_client env" c] r by simp
      then show thesis using that [of q4 "Suc (Suc 0)" "0 + 1 + 1"] q4
          steps_done [of "?l3\<lparr>al_queue := q4, al_events_processed_last_turn := 0 + 1 + 1\<rparr>" clk "composition_client env" n "Suc (Suc 0)"] time by simp
    qed
    have due: "scheduler_dispatch_due (tc_due clk) (al_scheduler app) (tc_now clk) ?lim =
        ([?e], [(power_job anchor period ?d)\<lparr>sj_pending := True\<rparr>])"
      unfolding sched using dispatch_power_job [OF assms(2) lim, of "tc_due clk" anchor d "tc_now clk"] True by simp
    have steps: "event_steps (composition_client env) (tc_started clk) (tc_check clk) ?n 0 ?l1 =
        (k, False, ?l3\<lparr>al_queue := q4, al_events_processed_last_turn := m\<rparr>)"
      unfolding s1 l3 s2 ..
    have "composition_turn env app clk = ?l3\<lparr>al_queue := q4, al_events_processed_last_turn := m\<rparr>"
      unfolding composition_turn_def
      by (rule run_at_rest [OF init assms(3) due post steps]) (simp_all add: q4 idle)
    then show ?thesis using r True q4 f r3 read
      by (simp add: at_rest_def sampler_of_def sampler_turn_def same_rest_def power_job_def)
  qed
qed

lemma composition_run_at_rest:
  assumes "at_rest anchor period d app" "period \<noteq> 0" "\<forall>clk \<in> set clks. ends_in_time (al_budget app) clk"
  shows "(\<exists>d'. at_rest anchor period d' (foldl (composition_turn env) app clks)) \<and>
    sampler_of (foldl (composition_turn env) app clks) = foldl (sampler_turn (en_adc_read env) anchor period) (sampler_of app) clks \<and>
    same_rest (foldl (composition_turn env) app clks) app"
  using assms
proof (induction clks arbitrary: app d)
  case (Cons clk clks)
  note t = composition_turn_at_rest [OF Cons.prems(1,2), of clk env]
  have "ends_in_time (al_budget app) clk" using Cons.prems(3) by simp
  note t = t [OF this]
  then have b: "al_budget (composition_turn env app clk) = al_budget app" by (simp add: same_rest_def)
  show ?case using Cons.IH [OF conjunct1 [OF t] Cons.prems(2)] Cons.prems(3) t by (auto simp: b same_rest_def)
qed (auto simp: same_rest_def)

lemma start_at_rest:
  assumes "app_composition_init (Some b) adc config ext now sched_now = Some app" "c = config_or_default config"
    and "2 \<le> lb_max_events_per_turn b" "2 \<le> lb_max_service_steps b"
  shows "power_config_is_valid c" "unat now + unat (sample_period c) < 2 ^ 64" "al_budget app = b"
    "at_rest (now + sample_period c) (sample_period c) (next_anchored (now + sample_period c) (sample_period c) sched_now) app"
    "sampler_of app = \<lparr>sp_deadline = next_anchored (now + sample_period c) (sample_period c) sched_now,
       sp_service = the (power_service_init c), sp_adc = adc\<rparr>"
proof -
  note e = assms(1) [unfolded app_composition_init_eq [OF assms(2)]]
  show v: "power_config_is_valid c" "unat now + unat (sample_period c) < 2 ^ 64" using e by (auto split: if_splits)
  have p: "rs_power (published data_repository_init) = pw_current (the (power_service_init c))"
    using v(1) by (simp add: power_service_init_def data_repository_init_def published_def buffer_def zero_snapshot_def zero_power_def)
  have q: "empty_queue (app_event_queue_init (Some default_queue_config))"
    using init_queue_inv [of "Some default_queue_config"]
    by (simp add: empty_queue_def) (simp add: app_event_queue_init_def default_queue_config_def Let_def)
  have w: "\<not> dr_writer_active data_repository_init" by (simp add: data_repository_init_def)
  show "al_budget app = b" using e v by (auto simp: app_event_loop_init_def Let_def registrations)
  show "at_rest (now + sample_period c) (sample_period c) (next_anchored (now + sample_period c) (sample_period c) sched_now) app"
    using e v q w p repo_init_ok assms(3,4) by (auto simp: at_rest_def app_event_loop_init_def system_fsm_init_def Let_def registrations)
  show "sampler_of app = \<lparr>sp_deadline = next_anchored (now + sample_period c) (sample_period c) sched_now,
       sp_service = the (power_service_init c), sp_adc = adc\<rparr>"
    using e v by (auto simp: sampler_of_def app_event_loop_init_def power_job_def Let_def registrations)
qed

text \<open>C5: the composed application samples the battery.  Suppose a turn may take at least two events and two steps, and no turn
  exhausts its execution budget.  Left alone (no other code posts events), the application then behaves over any number of turns as a
  sampler on its own: a turn at or after the deadline reads the ADC once, gives the reading to the power service and moves the deadline to the
  next multiple of the period after the turn; any other turn does nothing.  Whatever was read, the published power is the
  service's, no event stays queued, the sampling job stays the only scheduled one, and nothing else changes: in the published snapshot only power
  and version, in the application only the sampler, the scheduled deadline, the emptied queue and the count of events of the last turn.\<close>

theorem composed_app_samples_power:
  assumes "app_composition_init (Some b) adc config ext now sched_now = Some app" "c = config_or_default config"
    and "2 \<le> lb_max_events_per_turn b" "2 \<le> lb_max_service_steps b" "\<forall>clk \<in> set clks. ends_in_time b clk"
  shows "let app' = foldl (composition_turn env) app clks;
             s = foldl (sampler_turn (en_adc_read env) (now + sample_period c) (sample_period c))
                   \<lparr>sp_deadline = next_anchored (now + sample_period c) (sample_period c) sched_now,
                    sp_service = the (power_service_init c), sp_adc = adc\<rparr> clks
         in sampler_of app' = s \<and> rs_power (published (al_repo app')) = pw_current (sp_service s) \<and>
            q_count (al_queue app') = 0 \<and>
            al_scheduler app' = [power_job (now + sample_period c) (sample_period c) (sp_deadline s)] \<and> same_rest app' app"
proof -
  note i = start_at_rest [OF assms(1-4)]
  have p: "sample_period c \<noteq> 0" using i(1) sample_period_eq [of c] by (auto simp: power_config_is_valid_def unat_eq_0)
  note r = composition_run_at_rest [OF i(4) p, of clks env, unfolded i(3,5), OF assms(5)]
  let ?app = "foldl (composition_turn env) app clks"
  have "rs_power (published (al_repo ?app)) = pw_current (pf_svc (ax_power (al_world ?app)))" "q_count (al_queue ?app) = 0"
    using r empty_queue_count by (auto simp: at_rest_def)
  moreover have "al_scheduler ?app = [power_job (now + sample_period c) (sample_period c) (sp_deadline (sampler_of ?app))]"
  proof -
    obtain d' where "at_rest (now + sample_period c) (sample_period c) d' ?app" using r by blast
    then have "al_scheduler ?app = [power_job (now + sample_period c) (sample_period c) d']" by (simp add: at_rest_def)
    then show ?thesis by (simp add: sampler_of_def power_job_def)
  qed
  moreover have "sp_service (sampler_of ?app) = pf_svc (ax_power (al_world ?app))" by (simp add: sampler_of_def)
  ultimately show ?thesis using r by (simp add: Let_def)
qed

text \<open>The Linux application: the simulated ADC as the port, no external services, one sample per second.\<close>

definition linux_environment :: "(unit, linux_adc_adapter) environment" where
  "linux_environment =
     \<lparr>en_adc_read = (\<lambda>a. case linux_adc_read ADC_CHANNEL_BATTERY a of (st, v) \<Rightarrow> ((st, case v of None \<Rightarrow> 0 | Some raw \<Rightarrow> raw), a)),
      en_i2c_port = (\<lambda>_ _. PORT_STATUS_UNAVAILABLE), en_externals = \<lparr>ex_on_event = (\<lambda>_ _ x. (MEASUREMENT_SERVICE_IGNORED, x)),
      ex_compute = (\<lambda>_ _ x. (MEASUREMENT_SERVICE_IGNORED, [], x))\<rparr>\<rparr>"

definition linux_budget :: loop_budget_config where
  "linux_budget = \<lparr>lb_max_events_per_turn = 8, lb_max_service_steps = 4, lb_max_exec_us = 0\<rparr>"

definition linux_app :: "(unit, linux_adc_adapter) app_composition" where
  "linux_app = the (app_composition_init (Some linux_budget) adc_port_linux_init (Some (POWER_CONFIG_DEFAULT\<lparr>pc_sample_period_s := 1\<rparr>)) () 0 0)"

definition turn_at :: "u64 \<Rightarrow> turn_clock" where
  "turn_at t = \<lparr>tc_started = t, tc_now = t, tc_due = (\<lambda>_. t), tc_check = (\<lambda>_. t), tc_end = t\<rparr>"

lemma linux_app_started:
  "app_composition_init (Some linux_budget) adc_port_linux_init (Some (POWER_CONFIG_DEFAULT\<lparr>pc_sample_period_s := 1\<rparr>)) () 0 0 = Some linux_app"
proof -
  have "power_config_is_valid (POWER_CONFIG_DEFAULT\<lparr>pc_sample_period_s := 1\<rparr>)" by code_simp
  moreover have "sample_period (POWER_CONFIG_DEFAULT\<lparr>pc_sample_period_s := 1\<rparr>) = 1000000" by (simp add: sample_period_def)
  ultimately show ?thesis by (simp add: linux_app_def app_composition_init_eq [OF refl] config_or_default_def Let_def)
qed

lemma composed_app_samples_power_witness:
  "ps_battery_mv (rs_power (published (al_repo (foldl (composition_turn linux_environment) linux_app [turn_at 500000, turn_at 1000000])))) = 4950"
proof -
  let ?c = "POWER_CONFIG_DEFAULT\<lparr>pc_sample_period_s := 1\<rparr>"
  have p: "sample_period ?c = 1000000" by (simp add: sample_period_def)
  have c: "?c = config_or_default (Some ?c)" by (simp add: config_or_default_def)
  have b: "2 \<le> lb_max_events_per_turn linux_budget" "2 \<le> lb_max_service_steps linux_budget"
    "\<forall>clk \<in> set [turn_at 500000, turn_at 1000000]. ends_in_time linux_budget clk"
    by (simp_all add: linux_budget_def ends_in_time_def in_time_def execution_budget_elapsed_def)
  have "ps_battery_mv (pw_current (sp_service (foldl (sampler_turn (en_adc_read linux_environment) (0 + 1000000) 1000000)
      \<lparr>sp_deadline = next_anchored (0 + 1000000) 1000000 0, sp_service = the (power_service_init ?c), sp_adc = adc_port_linux_init\<rparr>
      [turn_at 500000, turn_at 1000000]))) = 4950" by code_simp
  then show ?thesis using composed_app_samples_power [OF linux_app_started c b, of linux_environment, unfolded p] by (simp only: Let_def)
qed

section \<open>What the composition publishes\<close>

text \<open>The measured part of a snapshot.\<close>

definition measured :: "runtime_snapshot \<Rightarrow> temperature_result \<times> flow_result \<times> pressure_result \<times> volume_state \<times> leak_detection_result" where
  "measured s = (rs_temperature s, rs_flow s, rs_pressure s, rs_volume s, rs_leak s)"

lemma mode_published:
  assumes "free_repo r" "fsm_transaction g e fsm r = (ok, fsm', r')"
  shows "free_repo r' \<and> measured (published r') = measured (published r)"
proof -
  obtain t1 r1 where b: "txn_begin txn_init r = (True, t1, r1)" "repo_ok r1" "owns t1 r1" "published r1 = published r"
    using begin_owned [of r txn_init] assms(1) by (auto simp: free_repo_def)
  obtain result m where d: "system_fsm_dispatch fsm (Some e) (Some g) = (result, m)" by fastforce
  show ?thesis
  proof (cases "result = FSM_TRANSITION_COMMITTED")
    case False
    then show ?thesis using abort_owned [OF b(2,3)] assms(2) b d by (auto simp: fsm_transaction_def free_repo_def)
  next
    case True
    obtain ok2 t2 r2 where w: "txn_write (Write_mode (system_fsm_get_context m)) t1 r1 = (ok2, t2, r2)" by (metis prod.exhaust)
    obtain ok3 t3 r3 where c: "txn_commit t2 r2 = (ok3, t3, r3)" by (metis prod.exhaust)
    note p = publish_one [OF assms(1) b(1) w c]
    then have "r' = r3" using assms(2) b(1) w c d True by (auto simp: fsm_transaction_def)
    then show ?thesis using p by (simp add: measured_def)
  qed
qed

lemma power_published:
  assumes "free_repo r" "power_facade_process_sample reading t f q r = (st, f', q', r')"
  shows "free_repo r' \<and> measured (published r') = measured (published r)"
proof -
  note p = process_sample_publishes [OF assms]
  have m: "measured s = measured (beside_power s)" for s by (simp add: measured_def beside_power_def)
  show ?thesis using p m [of "published r'"] m [of "published r"] by simp
qed

text \<open>The measurement manager as the composition leaves it: the two built-in services, no profile and no pipeline.\<close>

definition unwired :: "measurement_manager \<Rightarrow> bool" where
  "unwired m \<longleftrightarrow> mm_services m = [max_service, zssc_service] \<and> prs_active_profile (mm_pressure_service m) = None \<and> \<not> mm_flow_pipeline_bound m"

lemma unwired_init: "unwired measurement_manager_init"
  by (simp add: unwired_def measurement_manager_init_def measurement_manager_register_def max_service_def zssc_service_def pressure_service_init_def Let_def)

lemma unwired_driver [simp]:
  "unwired (m\<lparr>mm_max := d\<rparr>) = unwired m" "unwired (m\<lparr>mm_zssc := z\<rparr>) = unwired m" "unwired (m\<lparr>mm_max_cycles := n\<rparr>) = unwired m"
  "unwired (m\<lparr>mm_zssc_cycles := n\<rparr>) = unwired m" "unwired (m\<lparr>mm_next_pressure_correlation_id := c\<rparr>) = unwired m"
  by (simp_all add: unwired_def)

lemma submit_unwired:
  "unwired m \<Longrightarrow> submit_pressure_start ans now m b = (ok, m', b') \<Longrightarrow> unwired m'"
  "unwired m \<Longrightarrow> submit_pressure_read ans now m b = (ok, m', b') \<Longrightarrow> unwired m'"
  by (auto simp: submit_pressure_start_def submit_pressure_read_def submit_request_def Let_def split: prod.splits if_splits)

lemma services_unwired:
  assumes "unwired (w_manager w)"
  shows "unwired (w_manager (snd (max_on_event e w)))" "unwired (w_manager (snd (zssc_on_event ans e w)))"
proof -
  show "unwired (w_manager (snd (max_on_event e w)))" using assms by (simp add: max_on_event_def Let_def split: prod.split)
  have bound: "unwired (w_manager (snd (when_bound f v)))"
    if "unwired (w_manager v)" "\<And>m b ok m' b'. unwired m \<Longrightarrow> f m b = (ok, m', b') \<Longrightarrow> unwired m'" for f and v :: "'a measurement_world"
    using that by (auto simp: when_bound_def split: prod.split)
  have start: "unwired (w_manager v) \<Longrightarrow> unwired (w_manager (snd (when_bound (submit_pressure_start ans now) v)))"
    and read: "unwired (w_manager v) \<Longrightarrow> unwired (w_manager (snd (when_bound (submit_pressure_read ans now) v)))"
    for now and v :: "'a measurement_world" by (blast intro: bound submit_unwired)+
  have "unwired (w_manager (on_zssc f w))" for f using assms by (simp add: on_zssc_def)
  then show "unwired (w_manager (snd (zssc_on_event ans e w)))"
    using assms by (simp add: zssc_on_event_def start read Let_def)
qed

lemma built_in_services:
  assumes "unwired (w_manager w)" "run_services ans ex input e [max_service, zssc_service] False (w, t, r) = (failed, consumed, w', t', r')"
  shows "unwired (w_manager w') \<and> t' = t \<and> r' = r"
proof -
  obtain res1 w1 where m: "max_on_event e w = (res1, w1)" by fastforce
  obtain res2 w2 where z: "zssc_on_event ans e w1 = (res2, w2)" by fastforce
  have "unwired (w_manager w1)" using services_unwired(1) [OF assms(1), of e] m by simp
  moreover from this have "unwired (w_manager w2)" using services_unwired(2) [of w1 ans e] z by simp
  ultimately show ?thesis using assms(2) m z
    by (auto simp: max_service_def zssc_service_def call_on_event_def Let_def split: if_splits)
qed

lemma unwired_process:
  assumes "unwired (w_manager w)" "free_repo r" "measurement_manager_process_event ans ex e w r = (ok, w', r')"
  shows "unwired (w_manager w') \<and> free_repo r' \<and> published r' = published r"
proof -
  obtain t1 r1 where b: "txn_begin txn_init r = (True, t1, r1)" "repo_ok r1" "owns t1 r1" "published r1 = published r"
    using begin_owned [of r txn_init] assms(2) by (auto simp: free_repo_def)
  have mask: "tx_written_fields_mask t1 = 0" using b(1) assms(2) by (auto simp: txn_begin_def txn_init_def free_repo_def Let_def)
  obtain t0 r0 where a: "txn_abort t1 r1 = (t0, r0)" "free_repo r0" "published r0 = published r"
    using abort_owned [OF b(2,3)] b(4) by (auto simp: free_repo_def)
  obtain failed consumed w1 t2 r2 where s: "run_services ans ex (published r) e [max_service, zssc_service] False (w, t1, r1) = (failed, consumed, w1, t2, r2)"
    by (metis prod.exhaust)
  have w1: "unwired (w_manager w1)" "t2 = t1" "r2 = r1" using built_in_services [OF assms(1) s] by simp_all
  obtain okp m t3 r3 where p: "pressure_pipeline (w_manager w1) t1 r1 = (okp, m, t3, r3)" by (metis prod.exhaust)
  have p': "\<not> okp" "unwired m" "t3 = t1" "r3 = r1"
    using p w1(1) by (auto simp: pressure_pipeline_def pressure_service_accept_sample_def unwired_def split: prod.splits option.splits)
  have f: "flow_pipeline input v t1 r1 = (None, v, t1, r1)" if "unwired v" for input v using that by (simp add: flow_pipeline_def unwired_def)
  have services: "mm_services (w_manager w) = [max_service, zssc_service]" using assms(1) by (simp add: unwired_def)
  show ?thesis
    using assms(3) a(2,3) w1(1) p'(2) unfolding measurement_manager_process_event_def services Let_def b(1) prod.case bool.case s w1(2,3)
    by (cases failed; cases "ev_id e = EVT_PRESSURE_RAW_READY"; cases "ev_id e = EVT_MAX_RAW_READY")
      (auto simp: p p'(1,3,4) f a(1) mask)
qed

text \<open>The invariant of every step.\<close>

definition never_measured :: "('x, 'p) app_composition \<Rightarrow> bool" where
  "never_measured app \<longleftrightarrow> free_repo (al_repo app) \<and> measured (published (al_repo app)) = measured zero_snapshot \<and>
     unwired (ax_measurement_manager (al_world app))"

lemma client_never_measures: "never_measured l \<Longrightarrow> never_measured (call_handler (composition_client env) h e l)"
proof (cases h)
  case Fsm_event_handler
  assume "never_measured l"
  moreover obtain ok fsm r where "fsm_transaction (mode_guard_capture (Some (al_guard_provider l))) e (al_fsm l) (al_repo l) = (ok, fsm, r)" by (metis prod.exhaust)
  ultimately show ?thesis using mode_published [of "al_repo l"] Fsm_event_handler by (simp add: never_measured_def fsm_event_handler_def)
next
  case (Client_handler c)
  assume n: "never_measured l"
  show ?thesis
  proof (cases c)
    case Measurement_event_handler
    let ?w = "\<lparr>w_manager = ax_measurement_manager (al_world l), w_queue = al_queue l, w_bus = ax_shared_i2c_bus (al_world l), w_external = ax_external (al_world l)\<rparr>"
    obtain ok w r where p: "measurement_manager_process_event (en_i2c_port env e) (en_externals env) e ?w (al_repo l) = (ok, w, r)" by (metis prod.exhaust)
    have "unwired (w_manager ?w)" "free_repo (al_repo l)" using n by (simp_all add: never_measured_def)
    from unwired_process [OF this p] n show ?thesis
      unfolding Client_handler Measurement_event_handler by (simp add: measurement_event_handler_def p never_measured_def Let_def)
  next
    case Power_sample_due_handler
    obtain reading pt where read: "en_adc_read env (ax_adc_port (al_world l)) = (reading, pt)" by fastforce
    obtain st f q r where p: "power_facade_process_sample reading (ev_monotonic_timestamp_us e) (ax_power (al_world l)) (al_queue l) (al_repo l) = (st, f, q, r)"
      by (metis prod.exhaust)
    have "free_repo (al_repo l)" using n by (simp add: never_measured_def)
    from power_published [OF this p] n show ?thesis
      unfolding Client_handler Power_sample_due_handler by (simp add: power_sample_due_handler_def read p never_measured_def Let_def)
  qed
qed

lemma never_measured_frame [simp]:
  "never_measured (l\<lparr>al_queue := q\<rparr>) = never_measured l" "never_measured (l\<lparr>al_scheduler := js\<rparr>) = never_measured l"
  "never_measured (l\<lparr>al_events_processed_last_turn := n\<rparr>) = never_measured l"
  "never_measured (l\<lparr>al_budget_exhaustion_count := c\<rparr>) = never_measured l" "never_measured (l\<lparr>al_reset_requests := rs\<rparr>) = never_measured l"
  "never_measured (l\<lparr>al_action_executor := x\<rparr>) = never_measured l" "never_measured (l\<lparr>al_fsm := m\<rparr>) = never_measured l"
  by (simp_all add: never_measured_def)

lemma dispatch_never_measures:
  assumes "never_measured l"
  shows "never_measured (snd (dispatch_to_owner_guarded (composition_client env) e l))"
proof -
  obtain c fsm r where d: "legacy_dispatch e (al_guard_provider l) (al_fsm l) (al_repo l) = (c, fsm, r)" by (metis prod.exhaust)
  have "free_repo r \<and> measured (published r) = measured (published (al_repo l))"
    using d mode_published [of "al_repo l"] assms by (auto simp: legacy_dispatch_def never_measured_def split: prod.splits if_splits)
  then have "never_measured (l\<lparr>al_fsm := fsm, al_repo := r\<rparr>)" using assms by (simp add: never_measured_def)
  then show ?thesis using assms client_never_measures [OF assms]
    by (auto simp: dispatch_to_owner_guarded_def event_mediator_dispatch_def d split: option.split)
qed

lemma steps_never_measure:
  "never_measured l \<Longrightarrow> event_steps (composition_client env) st check n k l = (k', ex, l') \<Longrightarrow> never_measured l'"
proof (induction n arbitrary: k l)
  case (Suc n)
  show ?case
  proof (cases "try_get_unlocked (al_queue l)")
    case None
    then show ?thesis using Suc.prems by (auto simp: app_event_queue_try_get_def split: if_splits)
  next
    case (Some x)
    obtain e q where x: "x = (e, q)" by fastforce
    let ?l1 = "snd (dispatch_to_owner_guarded (composition_client env) e (l\<lparr>al_queue := q\<rparr>))"
    let ?l2 = "?l1\<lparr>al_scheduler := acknowledge_deadline e (al_scheduler ?l1), al_events_processed_last_turn := al_events_processed_last_turn ?l1 + 1\<rparr>"
    have "never_measured ?l2" using dispatch_never_measures [of "l\<lparr>al_queue := q\<rparr>"] Suc.prems(1) by simp
    from Suc.IH [OF this] show ?thesis using Suc.prems Some x by (auto simp: app_event_queue_try_get_def Let_def split: if_splits)
  qed
qed simp

abbreviation no_action :: "unit \<Rightarrow> action_mask \<Rightarrow> ('x, 'p) app_composition \<Rightarrow> fsm_action_exec_result \<times> ('x, 'p) app_composition" where
  "no_action \<equiv> \<lambda>_ _ l. (FSM_ACTION_EXEC_FAILED, l)"

lemma slots_never_measure:
  "never_measured l \<Longrightarrow> run_slots (call_action no_action) pending m hs i n c ex l = (n', c', ex', l') \<Longrightarrow> never_measured l'"
proof (induction hs arbitrary: i n c ex l)
  case (Cons h hs)
  have "never_measured l1" if "call_action no_action a b l = (res, l1)" for a b res l1 using that Cons.prems(1) by (cases a) auto
  then show ?case using Cons.prems Cons.IH
    by (auto simp: Let_def split: if_splits option.splits prod.splits fsm_action_exec_result.splits) blast+
qed simp

lemma action_phase_never_measures:
  assumes "never_measured l" "action_phase no_action b st now steps ex l = (ex', l')"
  shows "never_measured l'"
proof -
  obtain n c x l1 where r: "fsm_action_executor_run (call_action no_action) (al_action_executor l) (system_fsm_get_pending_actions (al_fsm l))
      (unat (lb_max_service_steps b) - steps) l = (n, c, x, l1)" by (metis prod.exhaust)
  then have "never_measured l1" using assms(1) slots_never_measure by (auto simp: fsm_action_executor_run_def split: if_splits)
  then show ?thesis using assms r by (auto simp: action_phase_def Let_def split: if_splits)
qed

lemma turn_never_measures:
  assumes "never_measured app"
  shows "never_measured (composition_turn env app clk)"
proof (cases "al_initialized app")
  case False
  then show ?thesis using assms by (simp add: composition_turn_def app_event_loop_run_once_def)
next
  case True
  let ?b = "al_budget app"
  obtain due js where d: "scheduler_dispatch_due (tc_due clk) (al_scheduler app) (tc_now clk) (min (lb_max_events_per_turn ?b) LOOP_BUDGET_DEFAULT_MAX_EVENTS) = (due, js)"
    by fastforce
  obtain k ex l2 where s: "event_steps (composition_client env) (tc_started clk) (tc_check clk) (unat (lb_max_service_steps ?b)) 0
      (app\<lparr>al_events_processed_last_turn := 0, al_scheduler := js, al_queue := post_all (al_queue app) due\<rparr>) = (k, ex, l2)" by (metis prod.exhaust)
  obtain ex' l3 where a: "action_phase no_action ?b (tc_started clk) (tc_end clk) k ex l2 = (ex', l3)" by fastforce
  have "never_measured l3" by (rule action_phase_never_measures [OF steps_never_measure [OF _ s] a]) (use assms in simp)
  then show ?thesis using True by (simp add: composition_turn_def app_event_loop_run_once_def d s a Let_def)
qed

text \<open>What may happen to a started application: posted events, turns and the binding of the I2C port.\<close>

datatype composition_input = Post_input app_event | Turn_input turn_clock | Bind_input bool

fun composition_step :: "('x, 'p) environment \<Rightarrow> ('x, 'p) app_composition \<Rightarrow> composition_input \<Rightarrow> ('x, 'p) app_composition" where
  "composition_step env app (Post_input e) = app\<lparr>al_queue := fst (snd (app_event_queue_post (al_queue app) (Some e)))\<rparr>"
| "composition_step env app (Turn_input clk) = composition_turn env app clk"
| "composition_step env app (Bind_input valid) = snd (app_composition_bind_i2c_port valid app)"

lemma composition_step_never_measures: "never_measured app \<Longrightarrow> never_measured (composition_step env app i)"
  by (cases i) (simp_all add: turn_never_measures, simp_all add: app_composition_bind_i2c_port_def never_measured_def split: prod.split)

interpretation compositions: transition_system "composition_step env" never_measured for env
  by unfold_locales (rule composition_step_never_measures)

text \<open>C9: the composed application measures no water.  The composition binds neither the flow nor the pressure pipeline and
  nothing it offers does, so whatever events are posted, with whatever answers of the I2C port and the ADC, over any number of
  turns the published temperature, flow, pressure, volume and leak result stay those of an empty snapshot;
  only mode and power are ever published.\<close>

theorem composed_app_never_measures:
  assumes "app_composition_init budget adc config ext now sched_now = Some app"
  shows "measured (published (al_repo (foldl (composition_step env) app xs))) = measured zero_snapshot"
proof -
  have "published data_repository_init = zero_snapshot \<or> measured (published data_repository_init) = measured zero_snapshot"
    by (simp add: data_repository_init_def published_def buffer_def measured_def)
  then have "never_measured app"
    using assms repo_init_ok unwired_init unfolding app_composition_init_eq [OF refl]
    by (auto simp: never_measured_def free_repo_def app_event_loop_init_def data_repository_init_def registrations Let_def split: if_splits)
  then show ?thesis using compositions.run_inv [of app env xs] by (simp add: never_measured_def)
qed

lemma composed_app_never_measures_witness:
  "rs_flow (published (al_repo (foldl (composition_step linux_environment) linux_app
     [Bind_input True, Post_input (zero_event\<lparr>ev_id := EVT_MAX_IRQ_ASSERTED\<rparr>), Post_input (zero_event\<lparr>ev_id := EVT_MAX_RAW_READY\<rparr>),
      Turn_input (turn_at 1000000)]))) = rs_flow zero_snapshot"
proof -
  show ?thesis
    using composed_app_never_measures [OF linux_app_started, of linux_environment "[Bind_input True, Post_input (zero_event\<lparr>ev_id := EVT_MAX_IRQ_ASSERTED\<rparr>),
      Post_input (zero_event\<lparr>ev_id := EVT_MAX_RAW_READY\<rparr>), Turn_input (turn_at 1000000)]"]
    unfolding measured_def prod.inject by blast
qed

end
