(* ===== verification/Stm32_Adapters.thy ===== *)
theory Stm32_Adapters
  imports I2c_Bus Spi_Bus Linux_Clock
begin

text \<open>
  The adapters between the ports and the vendor HAL of the board (directory platform/stm32/adapters).

  The HAL is code of the vendor: its operations are functions of the model's environment on a state of the hardware, given to an
  adapter when it is set up.  An interrupt may complete a transfer before the operation that started it
  has returned; these early completions are an argument of a submission.  A call of the completion sink is part of a result.
\<close>

section \<open>The ADC adapter\<close>

datatype stm32_adc_hal_status = STM32_ADC_HAL_OK | STM32_ADC_HAL_BUSY | STM32_ADC_HAL_TIMEOUT | STM32_ADC_HAL_ERROR

text \<open>Reading gives the status and the value of the variable, 0 if it was not written.\<close>

record 'h stm32_adc_hal_ops =
  ah_configure_channel :: "u32 \<Rightarrow> 'h \<Rightarrow> stm32_adc_hal_status \<times> 'h"
  ah_start :: "'h \<Rightarrow> stm32_adc_hal_status \<times> 'h"
  ah_poll :: "u32 \<Rightarrow> 'h \<Rightarrow> stm32_adc_hal_status \<times> 'h"
  ah_read_value :: "'h \<Rightarrow> (stm32_adc_hal_status \<times> u32) \<times> 'h"
  ah_stop :: "'h \<Rightarrow> stm32_adc_hal_status \<times> 'h"

record 'h stm32_adc_adapter =
  aa_hal_adc :: 'h
  aa_ops :: "'h stm32_adc_hal_ops"
  aa_channel_map :: "u32 list"
  aa_timeout_ms :: u32
  aa_initialized :: bool

definition map_status :: "stm32_adc_hal_status \<Rightarrow> port_status" where
  "map_status status =
     (case status of
        STM32_ADC_HAL_OK \<Rightarrow> PORT_OK
      | STM32_ADC_HAL_BUSY \<Rightarrow> PORT_STATUS_BUSY
      | STM32_ADC_HAL_TIMEOUT \<Rightarrow> PORT_STATUS_TIMEOUT
      | _ \<Rightarrow> PORT_STATUS_HARDWARE_ERROR)"

fun channel_index :: "adc_channel \<Rightarrow> nat" where
  "channel_index ADC_CHANNEL_BATTERY = 0"
| "channel_index ADC_CHANNEL_COUNT = 1"

text \<open>The end of a read, after a successful poll.\<close>

definition read_and_stop :: "'h stm32_adc_hal_ops \<Rightarrow> 'h \<Rightarrow> (port_status \<times> u16 option) \<times> 'h" where
  "read_and_stop ops h =
     (case ah_read_value ops h of
        ((status, value), h1) \<Rightarrow>
          (case ah_stop ops h1 of
             (stop_status, h2) \<Rightarrow>
               (if status \<noteq> STM32_ADC_HAL_OK then (map_status status, None)
                else if stop_status \<noteq> STM32_ADC_HAL_OK then (map_status stop_status, None)
                else if value > 0xFFFF then (PORT_STATUS_HARDWARE_ERROR, None)
                else (PORT_OK, Some (ucast value)), h2)))"

definition stm32_adc_read :: "adc_channel \<Rightarrow> 'h stm32_adc_adapter \<Rightarrow> (port_status \<times> u16 option) \<times> 'h stm32_adc_adapter" where
  "stm32_adc_read channel a =
     (if \<not> aa_initialized a \<or> channel_index channel \<ge> channel_index ADC_CHANNEL_COUNT then ((PORT_STATUS_INVALID_PARAM, None), a)
      else
        let ops = aa_ops a
        in case ah_configure_channel ops (aa_channel_map a ! channel_index channel) (aa_hal_adc a) of
             (status, h1) \<Rightarrow>
               if status \<noteq> STM32_ADC_HAL_OK then ((map_status status, None), a\<lparr>aa_hal_adc := h1\<rparr>)
               else (case ah_start ops h1 of
                       (status, h2) \<Rightarrow>
                         if status \<noteq> STM32_ADC_HAL_OK then ((map_status status, None), a\<lparr>aa_hal_adc := h2\<rparr>)
                         else (case ah_poll ops (aa_timeout_ms a) h2 of
                                 (status, h3) \<Rightarrow>
                                   if status \<noteq> STM32_ADC_HAL_OK
                                   then ((map_status status, None), a\<lparr>aa_hal_adc := snd (ah_stop ops h3)\<rparr>)
                                   else (case read_and_stop ops h3 of (res, h4) \<Rightarrow> (res, a\<lparr>aa_hal_adc := h4\<rparr>)))))"

definition adc_port_stm32_init :: "'h \<Rightarrow> 'h stm32_adc_hal_ops \<Rightarrow> u32 \<Rightarrow> u32 \<Rightarrow> port_status \<times> 'h stm32_adc_adapter" where
  "adc_port_stm32_init hal ops battery_channel timeout_ms =
     (PORT_OK, \<lparr>aa_hal_adc = hal, aa_ops = ops, aa_channel_map = [battery_channel], aa_timeout_ms = timeout_ms, aa_initialized = True\<rparr>)"

section \<open>The I2C adapter\<close>

datatype stm32_async_hal_status = STM32_ASYNC_HAL_OK | STM32_ASYNC_HAL_BUSY | STM32_ASYNC_HAL_ERROR

record 'h stm32_i2c_hal_ops =
  ih_start :: "i2c_port_request \<Rightarrow> 'h \<Rightarrow> stm32_async_hal_status \<times> 'h"
  ih_cancel :: "'h \<Rightarrow> stm32_async_hal_status \<times> 'h"
  ih_recover :: "'h \<Rightarrow> stm32_async_hal_status \<times> 'h"

record 'h stm32_i2c_adapter =
  ia_hal_i2c :: 'h
  ia_ops :: "'h stm32_i2c_hal_ops"
  ia_active_request :: i2c_port_request
  ia_active :: bool

definition zero_i2c_request :: i2c_port_request where
  "zero_i2c_request = \<lparr>pq_transaction_id = 0, pq_correlation_id = 0, pq_client_generation = 0, pq_bus_generation = 0,
     pq_slave_address = 0, pq_tx = None, pq_tx_length = 0, pq_rx = None, pq_rx_length = 0, pq_deadline_us = 0\<rparr>"

definition map_hal :: "stm32_async_hal_status \<Rightarrow> port_status" where
  "map_hal status =
     (if status = STM32_ASYNC_HAL_OK then PORT_OK
      else if status = STM32_ASYNC_HAL_BUSY then PORT_STATUS_BUSY
      else PORT_STATUS_HARDWARE_ERROR)"

definition i2c_port_stm32_init :: "'h \<Rightarrow> 'h stm32_i2c_hal_ops \<Rightarrow> port_status \<times> 'h stm32_i2c_adapter" where
  "i2c_port_stm32_init hal ops = (PORT_OK, \<lparr>ia_hal_i2c = hal, ia_ops = ops, ia_active_request = zero_i2c_request, ia_active = False\<rparr>)"

text \<open>The completion callback: what the sink is called with, if it is.\<close>

definition i2c_port_stm32_on_complete ::
  "port_status \<Rightarrow> 'h stm32_i2c_adapter \<Rightarrow> (i2c_port_request \<times> port_status) option \<times> 'h stm32_i2c_adapter" where
  "i2c_port_stm32_on_complete result a =
     (if \<not> ia_active a then (None, a) else (Some (ia_active_request a, result), a\<lparr>ia_active := False\<rparr>))"

definition stm32_i2c_submit :: "port_status list \<Rightarrow> i2c_port_request \<Rightarrow> 'h stm32_i2c_adapter \<Rightarrow> port_status \<times> 'h stm32_i2c_adapter" where
  "stm32_i2c_submit early request a =
     (if ia_active a then (PORT_STATUS_BUSY, a)
      else case ih_start (ia_ops a) request (ia_hal_i2c a) of
             (status, h) \<Rightarrow>
               let a1 = fold (\<lambda>r s. snd (i2c_port_stm32_on_complete r s)) early (a\<lparr>ia_hal_i2c := h\<rparr>)
               in if status \<noteq> STM32_ASYNC_HAL_OK then (map_hal status, a1)
                  else (PORT_OK, a1\<lparr>ia_active_request := request, ia_active := True\<rparr>))"

definition stm32_i2c_cancel :: "u32 \<Rightarrow> u32 \<Rightarrow> 'h stm32_i2c_adapter \<Rightarrow> port_status \<times> 'h stm32_i2c_adapter" where
  "stm32_i2c_cancel transaction_id bus_generation a =
     (if \<not> ia_active a \<or> pq_transaction_id (ia_active_request a) \<noteq> transaction_id \<or> pq_bus_generation (ia_active_request a) \<noteq> bus_generation
      then (PORT_STATUS_INVALID_PARAM, a)
      else case ih_cancel (ia_ops a) (ia_hal_i2c a) of
             (st, h) \<Rightarrow> (map_hal st, if map_hal st = PORT_OK then a\<lparr>ia_hal_i2c := h, ia_active := False\<rparr> else a\<lparr>ia_hal_i2c := h\<rparr>))"

definition stm32_i2c_recover :: "u32 \<Rightarrow> 'h stm32_i2c_adapter \<Rightarrow> port_status \<times> 'h stm32_i2c_adapter" where
  "stm32_i2c_recover new_bus_generation a =
     (case ih_recover (ia_ops a) (ia_hal_i2c a) of
        (st, h) \<Rightarrow> (map_hal st, if map_hal st = PORT_OK then a\<lparr>ia_hal_i2c := h, ia_active := False\<rparr> else a\<lparr>ia_hal_i2c := h\<rparr>))"

section \<open>The SPI adapter\<close>

record spi_port_request =
  qs_transaction_id :: u32
  qs_correlation_id :: u32
  qs_client_generation :: u32
  qs_bus_generation :: u32
  qs_chip_select :: u8
  qs_tx :: "bytes option"
  qs_rx :: "u32 option"
  qs_length :: u16
  qs_deadline_us :: u64

record 'h stm32_spi_hal_ops =
  th_start :: "spi_port_request \<Rightarrow> 'h \<Rightarrow> port_status \<times> 'h"
  th_cancel :: "'h \<Rightarrow> port_status \<times> 'h"
  th_recover :: "'h \<Rightarrow> port_status \<times> 'h"

record 'h stm32_spi_adapter =
  ta_hal_spi :: 'h
  ta_ops :: "'h stm32_spi_hal_ops"
  ta_active_request :: spi_port_request
  ta_active :: bool

definition zero_spi_request :: spi_port_request where
  "zero_spi_request = \<lparr>qs_transaction_id = 0, qs_correlation_id = 0, qs_client_generation = 0, qs_bus_generation = 0,
     qs_chip_select = 0, qs_tx = None, qs_rx = None, qs_length = 0, qs_deadline_us = 0\<rparr>"

definition spi_port_stm32_init :: "'h \<Rightarrow> 'h stm32_spi_hal_ops \<Rightarrow> port_status \<times> 'h stm32_spi_adapter" where
  "spi_port_stm32_init hal ops = (PORT_OK, \<lparr>ta_hal_spi = hal, ta_ops = ops, ta_active_request = zero_spi_request, ta_active = False\<rparr>)"

definition spi_port_stm32_on_complete ::
  "port_status \<Rightarrow> 'h stm32_spi_adapter \<Rightarrow> (spi_port_request \<times> port_status) option \<times> 'h stm32_spi_adapter" where
  "spi_port_stm32_on_complete result a =
     (if \<not> ta_active a then (None, a) else (Some (ta_active_request a, result), a\<lparr>ta_active := False\<rparr>))"

definition stm32_spi_submit :: "port_status list \<Rightarrow> spi_port_request \<Rightarrow> 'h stm32_spi_adapter \<Rightarrow> port_status \<times> 'h stm32_spi_adapter" where
  "stm32_spi_submit early request a =
     (if ta_active a then (PORT_STATUS_BUSY, a)
      else case th_start (ta_ops a) request (ta_hal_spi a) of
             (status, h) \<Rightarrow>
               let a1 = fold (\<lambda>r s. snd (spi_port_stm32_on_complete r s)) early (a\<lparr>ta_hal_spi := h\<rparr>)
               in if status \<noteq> PORT_OK then (status, a1)
                  else (PORT_OK, a1\<lparr>ta_active_request := request, ta_active := True\<rparr>))"

definition stm32_spi_cancel :: "u32 \<Rightarrow> u32 \<Rightarrow> 'h stm32_spi_adapter \<Rightarrow> port_status \<times> 'h stm32_spi_adapter" where
  "stm32_spi_cancel transaction_id bus_generation a =
     (if \<not> ta_active a \<or> qs_transaction_id (ta_active_request a) \<noteq> transaction_id \<or> qs_bus_generation (ta_active_request a) \<noteq> bus_generation
      then (PORT_STATUS_INVALID_PARAM, a)
      else case th_cancel (ta_ops a) (ta_hal_spi a) of
             (st, h) \<Rightarrow> (st, if st = PORT_OK then a\<lparr>ta_hal_spi := h, ta_active := False\<rparr> else a\<lparr>ta_hal_spi := h\<rparr>))"

definition stm32_spi_recover :: "u32 \<Rightarrow> 'h stm32_spi_adapter \<Rightarrow> port_status \<times> 'h stm32_spi_adapter" where
  "stm32_spi_recover generation a =
     (case th_recover (ta_ops a) (ta_hal_spi a) of
        (st, h) \<Rightarrow> (st, if st = PORT_OK then a\<lparr>ta_hal_spi := h, ta_active := False\<rparr> else a\<lparr>ta_hal_spi := h\<rparr>))"

section \<open>A completion before the start has returned\<close>

text \<open>The interrupt finds no active request, and the request is marked active afterwards: the completion is
  lost, and the adapter stays busy.\<close>

lemma early_completion_is_lost:
  "stm32_i2c_submit early request a = stm32_i2c_submit [] request a"
  "stm32_spi_submit early transfer b = stm32_spi_submit [] transfer b"
proof -
  have i: "\<not> ia_active a \<Longrightarrow> fold (\<lambda>r s. snd (i2c_port_stm32_on_complete r s)) early a = a" for a :: "'a stm32_i2c_adapter"
    by (induction early) (simp_all add: i2c_port_stm32_on_complete_def)
  have s: "\<not> ta_active b \<Longrightarrow> fold (\<lambda>r s. snd (spi_port_stm32_on_complete r s)) early b = b" for b :: "'b stm32_spi_adapter"
    by (induction early) (simp_all add: spi_port_stm32_on_complete_def)
  show "stm32_i2c_submit early request a = stm32_i2c_submit [] request a"
    by (simp add: stm32_i2c_submit_def i Let_def split: prod.split)
  show "stm32_spi_submit early transfer b = stm32_spi_submit [] transfer b"
    by (simp add: stm32_spi_submit_def s Let_def split: prod.split)
qed

text \<open>A completion carries no id: whichever transfer it belongs to, also one that was cancelled, it is reported for the request
  that was submitted last.\<close>

lemma stale_completion_hits_next_request:
  assumes "stm32_i2c_submit early request a1 = (PORT_OK, a2)"
  shows "fst (i2c_port_stm32_on_complete result a2) = Some (request, result)"
  using assms unfolding early_completion_is_lost(1) [of early]
  by (auto simp: stm32_i2c_submit_def i2c_port_stm32_on_complete_def map_hal_def Let_def split: if_splits prod.splits)

section \<open>One request at a time\<close>

text \<open>A port with room for one request, and what its callers rely on.\<close>

datatype ('q, 'o) port_op = Submit_op "port_status list" 'q | Release_op 'o | Complete_op port_status

text \<open>The history of a port: the requests it accepted, and the answers, in the order they were given: the
  completion that was reported, or None for a request that was cancelled or dropped by a recovery.\<close>

fun port_history ::
  "(port_status list \<Rightarrow> 'q \<Rightarrow> 's \<Rightarrow> port_status \<times> 's) \<Rightarrow> ('o \<Rightarrow> 's \<Rightarrow> port_status \<times> 's) \<Rightarrow>
   (port_status \<Rightarrow> 's \<Rightarrow> ('q \<times> port_status) option \<times> 's) \<Rightarrow> ('s \<Rightarrow> 'q option) \<Rightarrow>
   's \<times> 'q list \<times> ('q \<times> port_status option) list \<Rightarrow> ('q, 'o) port_op \<Rightarrow> 's \<times> 'q list \<times> ('q \<times> port_status option) list" where
  "port_history submit give_up complete slot (s, accepted, answered) (Submit_op early q) =
     (case submit early q s of (st, s') \<Rightarrow> (s', if st = PORT_OK then accepted @ [q] else accepted, answered))"
| "port_history submit give_up complete slot (s, accepted, answered) (Release_op x) =
     (case give_up x s of (st, s') \<Rightarrow>
        (s', accepted, answered @ (case slot s of None \<Rightarrow> [] | Some q \<Rightarrow> if st = PORT_OK then [(q, None)] else [])))"
| "port_history submit give_up complete slot (s, accepted, answered) (Complete_op r) =
     (case complete r s of (report, s') \<Rightarrow> (s', accepted, answered @ (case report of None \<Rightarrow> [] | Some (q, r') \<Rightarrow> [(q, Some r')])))"

definition open_request :: "'q option \<Rightarrow> 'q list" where
  "open_request o' = (case o' of None \<Rightarrow> [] | Some q \<Rightarrow> [q])"

locale one_request_port =
  fixes submit :: "port_status list \<Rightarrow> 'q \<Rightarrow> 's \<Rightarrow> port_status \<times> 's"
    and give_up :: "'o \<Rightarrow> 's \<Rightarrow> port_status \<times> 's"
    and complete :: "port_status \<Rightarrow> 's \<Rightarrow> ('q \<times> port_status) option \<times> 's"
    and slot :: "'s \<Rightarrow> 'q option"
  assumes submit_ok: "submit early q s = (PORT_OK, s') \<Longrightarrow> slot s = None \<and> slot s' = Some q"
    and submit_refused: "submit early q s = (st, s') \<Longrightarrow> st \<noteq> PORT_OK \<Longrightarrow> slot s' = slot s"
    and give_up_slot: "give_up x s = (st, s') \<Longrightarrow> slot s' = (if st = PORT_OK then None else slot s)"
    and complete_slot: "complete r s = (report, s') \<Longrightarrow> report = map_option (\<lambda>q. (q, r)) (slot s) \<and> slot s' = None"
begin

definition in_order :: "'s \<times> 'q list \<times> ('q \<times> port_status option) list \<Rightarrow> bool" where
  "in_order h \<longleftrightarrow> (case h of (s, accepted, answered) \<Rightarrow> accepted = map fst answered @ open_request (slot s))"

lemma history_step:
  assumes "in_order h"
  shows "in_order (port_history submit give_up complete slot h x)"
proof -
  obtain s accepted answered where h: "h = (s, accepted, answered)" by (metis prod.exhaust)
  show ?thesis
  proof (cases x)
    case (Submit_op early q)
    then show ?thesis using assms submit_ok [of early q s] submit_refused [of early q s]
      by (auto simp: h in_order_def open_request_def split: prod.split)
  next
    case (Release_op y)
    then show ?thesis using assms give_up_slot [of y s]
      by (auto simp: h in_order_def open_request_def split: prod.split option.splits)
  next
    case (Complete_op r)
    then show ?thesis using assms complete_slot [of r s]
      by (auto simp: h in_order_def open_request_def split: prod.split option.splits)
  qed
qed

lemma answers_in_order:
  assumes "slot s = None" "foldl (port_history submit give_up complete slot) (s, [], []) xs = (s', accepted, answered)"
  shows "accepted = map fst answered @ open_request (slot s')"
proof -
  have "in_order (foldl (port_history submit give_up complete slot) h xs)" if "in_order h" for h
    using that by (induction xs arbitrary: h) (simp_all add: history_step)
  from this [of "(s, [], [])"] show ?thesis using assms by (simp add: in_order_def open_request_def)
qed

end

datatype release_op = Cancel_op u32 u32 | Recover_op u32

fun i2c_release :: "release_op \<Rightarrow> 'h stm32_i2c_adapter \<Rightarrow> port_status \<times> 'h stm32_i2c_adapter" where
  "i2c_release (Cancel_op tid gen) a = stm32_i2c_cancel tid gen a"
| "i2c_release (Recover_op gen) a = stm32_i2c_recover gen a"

fun spi_release_op :: "release_op \<Rightarrow> 'h stm32_spi_adapter \<Rightarrow> port_status \<times> 'h stm32_spi_adapter" where
  "spi_release_op (Cancel_op tid gen) a = stm32_spi_cancel tid gen a"
| "spi_release_op (Recover_op gen) a = stm32_spi_recover gen a"

definition i2c_slot :: "'h stm32_i2c_adapter \<Rightarrow> i2c_port_request option" where
  "i2c_slot a = (if ia_active a then Some (ia_active_request a) else None)"

definition spi_slot :: "'h stm32_spi_adapter \<Rightarrow> spi_port_request option" where
  "spi_slot a = (if ta_active a then Some (ta_active_request a) else None)"

interpretation stm32_i2c: one_request_port stm32_i2c_submit i2c_release i2c_port_stm32_on_complete i2c_slot
proof unfold_locales
  fix early q s st s' x r report
  show "stm32_i2c_submit early q s = (PORT_OK, s') \<Longrightarrow> i2c_slot s = None \<and> i2c_slot s' = Some q"
    "stm32_i2c_submit early q s = (st, s') \<Longrightarrow> st \<noteq> PORT_OK \<Longrightarrow> i2c_slot s' = i2c_slot s"
    unfolding early_completion_is_lost(1) [of early]
    by (auto simp: stm32_i2c_submit_def i2c_slot_def map_hal_def Let_def split: if_splits prod.splits)
  show "i2c_release x s = (st, s') \<Longrightarrow> i2c_slot s' = (if st = PORT_OK then None else i2c_slot s)"
    by (cases x) (auto simp: stm32_i2c_cancel_def stm32_i2c_recover_def i2c_slot_def split: if_splits prod.splits)
  show "i2c_port_stm32_on_complete r s = (report, s') \<Longrightarrow> report = map_option (\<lambda>q. (q, r)) (i2c_slot s) \<and> i2c_slot s' = None"
    by (auto simp: i2c_port_stm32_on_complete_def i2c_slot_def split: if_splits)
qed

interpretation stm32_spi: one_request_port stm32_spi_submit spi_release_op spi_port_stm32_on_complete spi_slot
proof unfold_locales
  fix early q s st s' x r report
  show "stm32_spi_submit early q s = (PORT_OK, s') \<Longrightarrow> spi_slot s = None \<and> spi_slot s' = Some q"
    "stm32_spi_submit early q s = (st, s') \<Longrightarrow> st \<noteq> PORT_OK \<Longrightarrow> spi_slot s' = spi_slot s"
    unfolding early_completion_is_lost(2) [of early]
    by (auto simp: stm32_spi_submit_def spi_slot_def Let_def split: if_splits prod.splits)
  show "spi_release_op x s = (st, s') \<Longrightarrow> spi_slot s' = (if st = PORT_OK then None else spi_slot s)"
    by (cases x) (auto simp: stm32_spi_cancel_def stm32_spi_recover_def spi_slot_def split: if_splits prod.splits)
  show "spi_port_stm32_on_complete r s = (report, s') \<Longrightarrow> report = map_option (\<lambda>q. (q, r)) (spi_slot s) \<and> spi_slot s' = None"
    by (auto simp: spi_port_stm32_on_complete_def spi_slot_def split: if_splits)
qed

text \<open>C17: the I2C adapter answers every request it accepts, in order.  Over any history of submissions, cancellations, recoveries and
  completions, with whatever answers of the hardware, the accepted requests are the answered ones, each completed
  or given up once, followed by the one that is active; what is reported is the request as it was submitted.\<close>

theorem stm32_i2c_answers_in_order:
  assumes "foldl (port_history stm32_i2c_submit i2c_release i2c_port_stm32_on_complete i2c_slot)
      (snd (i2c_port_stm32_init hal ops), [], []) xs = (a, accepted, answered)"
  shows "accepted = map fst answered @ (if ia_active a then [ia_active_request a] else [])"
proof -
  have "i2c_slot (snd (i2c_port_stm32_init hal ops)) = None" by (simp add: i2c_port_stm32_init_def i2c_slot_def)
  from stm32_i2c.answers_in_order [OF this assms] show ?thesis by (simp add: open_request_def i2c_slot_def)
qed

lemma stm32_spi_answers_in_order:
  assumes "foldl (port_history stm32_spi_submit spi_release_op spi_port_stm32_on_complete spi_slot)
      (snd (spi_port_stm32_init hal ops), [], []) xs = (a, accepted, answered)"
  shows "accepted = map fst answered @ (if ta_active a then [ta_active_request a] else [])"
proof -
  have "spi_slot (snd (spi_port_stm32_init hal ops)) = None" by (simp add: spi_port_stm32_init_def spi_slot_def)
  from stm32_spi.answers_in_order [OF this assms] show ?thesis by (simp add: open_request_def spi_slot_def)
qed

text \<open>A hardware that counts its starts and refuses every third.\<close>

definition sample_i2c_ops :: "nat stm32_i2c_hal_ops" where
  "sample_i2c_ops = \<lparr>ih_start = (\<lambda>_ n. (if n mod 3 = 2 then STM32_ASYNC_HAL_BUSY else STM32_ASYNC_HAL_OK, Suc n)),
     ih_cancel = (\<lambda>n. (STM32_ASYNC_HAL_OK, n)), ih_recover = (\<lambda>n. (STM32_ASYNC_HAL_OK, n))\<rparr>"

definition sample_history :: "(i2c_port_request, release_op) port_op list" where
  "sample_history = [Submit_op [] (zero_i2c_request\<lparr>pq_transaction_id := 1\<rparr>), Complete_op PORT_OK,
     Submit_op [PORT_OK] (zero_i2c_request\<lparr>pq_transaction_id := 2\<rparr>), Submit_op [] (zero_i2c_request\<lparr>pq_transaction_id := 3\<rparr>),
     Release_op (Cancel_op 2 0), Submit_op [] (zero_i2c_request\<lparr>pq_transaction_id := 4\<rparr>), Submit_op [] (zero_i2c_request\<lparr>pq_transaction_id := 5\<rparr>)]"

lemma stm32_i2c_answers_in_order_witness:
  "case foldl (port_history stm32_i2c_submit i2c_release i2c_port_stm32_on_complete i2c_slot)
      (snd (i2c_port_stm32_init 0 sample_i2c_ops), [], []) sample_history of
    (a, accepted, answered) \<Rightarrow> accepted = map fst answered @ [ia_active_request a] \<and> map pq_transaction_id accepted = [1, 2, 5]"
proof -
  let ?h = "foldl (port_history stm32_i2c_submit i2c_release i2c_port_stm32_on_complete i2c_slot)
      (snd (i2c_port_stm32_init 0 sample_i2c_ops), [], []) sample_history"
  obtain a accepted answered where h: "?h = (a, accepted, answered)" by (metis prod.exhaust)
  have "ia_active (fst ?h)" "map pq_transaction_id (fst (snd ?h)) = [1, 2, 5]" by code_simp+
  then show ?thesis using stm32_i2c_answers_in_order [OF h] by (simp add: h)
qed

section \<open>The ADC is stopped when it was started\<close>

text \<open>A hardware that records the calls with their results.\<close>

datatype adc_call = Configure_call u32 | Start_call | Poll_call u32 | Read_call u32 | Stop_call

type_synonym 'h recorded = "'h \<times> (adc_call \<times> stm32_adc_hal_status) list"

definition recorded_call :: "adc_call \<Rightarrow> ('h \<Rightarrow> stm32_adc_hal_status \<times> 'h) \<Rightarrow> 'h recorded \<Rightarrow> stm32_adc_hal_status \<times> 'h recorded" where
  "recorded_call c f s = (case f (fst s) of (st, h) \<Rightarrow> (st, h, snd s @ [(c, st)]))"

definition recorded_ops :: "'h stm32_adc_hal_ops \<Rightarrow> 'h recorded stm32_adc_hal_ops" where
  "recorded_ops ops =
     \<lparr>ah_configure_channel = (\<lambda>c. recorded_call (Configure_call c) (ah_configure_channel ops c)),
      ah_start = recorded_call Start_call (ah_start ops), ah_poll = (\<lambda>t. recorded_call (Poll_call t) (ah_poll ops t)),
      ah_read_value = (\<lambda>s. case ah_read_value ops (fst s) of ((st, v), h) \<Rightarrow> ((st, v), h, snd s @ [(Read_call v, st)])),
      ah_stop = recorded_call Stop_call (ah_stop ops)\<rparr>"

text \<open>A read ends with a stop exactly when the converter was started, and succeeds exactly when
  the five calls succeed and the value fits 16 bits.\<close>

theorem adc_read_stops_what_it_started:
  assumes "stm32_adc_read ADC_CHANNEL_BATTERY (snd (adc_port_stm32_init (h, []) (recorded_ops ops) channel timeout)) = ((st, value), a)"
  shows "let calls = snd (aa_hal_adc a)
    in ((Start_call, STM32_ADC_HAL_OK) \<in> set calls \<longleftrightarrow> (\<exists>r. calls \<noteq> [] \<and> last calls = (Stop_call, r))) \<and>
      (st = PORT_OK \<longleftrightarrow> (\<exists>v \<le> 0xFFFF. calls = map (\<lambda>c. (c, STM32_ADC_HAL_OK))
         [Configure_call channel, Start_call, Poll_call timeout, Read_call v, Stop_call] \<and> value = Some (ucast v)))"
proof -
  have ok: "map_status s = PORT_OK \<longleftrightarrow> s = STM32_ADC_HAL_OK" for s by (cases s) (simp_all add: map_status_def)
  show ?thesis using assms
    by (auto simp: stm32_adc_read_def adc_port_stm32_init_def recorded_ops_def recorded_call_def read_and_stop_def ok Let_def
        split: prod.splits if_splits)
qed

end
