(* ===== verification/Spec2Isabelle.thy ===== *)
theory Spec2Isabelle
  imports Checked_Math Event_Dispatch Storage_Linux Volume Leak Telemetry Reporting Fram Measurement_Safety Power_Service Time_Service Action_Queue Spi_Bus Sim_Harness App_Composition Stm32_Adapters
begin

text \<open>
  A model of the firmware of the flow and pressure monitor (directory \<open>2.firmware/src\<close>; the paths
  below are relative to it) and the properties that make its components correct.

  \<^bold>\<open>The program.\<close>  A single event loop drives the device.  Interrupts and services post events to a
  bounded priority queue, and a deadline scheduler turns timers into events.  The loop takes an event,
  routes it to a handler, and runs the actions the handlers requested.  The mode state machine decides
  what the device may do; its result is published in a double-buffered snapshot repository that other
  parts read without a lock.  Drivers of a flow sensor (SPI) and a pressure sensor (I2C) assemble raw
  samples; the measurement manager turns them into flow, pressure, volume and leak results inside one
  repository transaction.  The power service watches the battery through the ADC.  Flow samples are integrated into volume totals, and a policy decides when
  these are written to F-RAM by the storage service, which alternates between two slots.  Leak detection
  evaluates the snapshot; reports are built from it on a daily schedule, queued, and sent by the
  delivery service.  The application composition wires these parts together.  On a host the same core
  runs against simulated clocks, buses and sensors, driven by a run controller and scenario files; on the
  board, adapters connect the ports to the vendor's HAL.

  \<^bold>\<open>Theories.\<close>  Each component has a theory of its own; definitions keep the names of the C functions
  (suffixed or prefixed where a name is taken), records those of the structs.
  \<^item> \<open>Prelude\<close>: C integer types, shared list and word lemmas, the locale of transition systems that every
    stateful component interprets.
  \<^item> \<open>Checked_Math\<close>: infrastructure/numeric.  Overflow-checked arithmetic is exact; interpolation stays in
    its bracket; rounding agrees with half-even rounding for nonnegative values only.
  \<^item> \<open>Ring\<close>, \<open>Event_Types\<close>, \<open>Event_Queue\<close>: infrastructure/queues and event records.  The ring buffer refines
    a list; posting and selection are specified on the list.  \<open>Store_Interface\<close> holds the locale of a
    bounded store the queue implements.
  \<^item> \<open>System_Fsm\<close>: app/system_fsm.c and app/mode_guard.c.  The table search is compared with the transition rules of the
    design documents (docs 00_overview/06_system_fsm.md and 05_firmware/00_core/03_system_fsm_binding.md), which are
    transcribed as a relation; three of its rows lack a guard of the design.  Safety of the ERROR mode.
  \<^item> \<open>Domain_Types\<close>, \<open>Repository\<close>: domain headers and infrastructure/repositories.  Transactions are atomic
    and exclusive; the reader is modelled with writer steps between its individual loads.
  \<^item> \<open>Scheduler\<close>: infrastructure/time.  Which jobs fire, in which order, and their next deadline.
  \<^item> \<open>Event_Dispatch\<close>: mediator, action executor, router and loop of infrastructure/event.  One turn of the
    loop is bounded and the published mode follows the state machine.
  \<^item> \<open>Storage_Record\<close>: protocols/storage.  Slot format, CRC, classification, and the choice of slot.
  \<^item> \<open>Nv_Memory\<close>, \<open>Storage_Service\<close>: the simulated F-RAM (platform/linux/peers/peer_fram.c) and
    services/storage/storage_service.c.
  \<^item> \<open>Checkpoint_Safety\<close>: the service against a memory that may tear any write at any moment and a port that
    may delay, fail or repeat completions; what a restart finds is the old or the new checkpoint.
  \<^item> \<open>Storage_Linux\<close>: platform/linux/adapters/storage_port_linux.c under the service; with it a checkpoint
    takes exactly 26 ticks and a restore at most 5, the bounds used in the termination theorems (each state of the
    service needs at most two ticks, submission and completion, and the chunk loops are counted).
  \<^item> \<open>Volume\<close>: services/volume and the checkpoint policy.  Exact integration over the integers.
  \<^item> \<open>Leak\<close>: services/leak.  Evidence trackers and the verdict.
  \<^item> \<open>Telemetry\<close>: protocols/telemetry builder, services/connectivity queue and delivery.
  \<^item> \<open>Reporting\<close>: services/connectivity/reporting_schedule.c.
  \<^item> \<open>I2c_Bus\<close>: infrastructure/bus/i2c_bus_manager.c.  The locale of its clients states what a callback may do
    to the bus; under it every operation of the bus returns and answers each accepted transaction once.
  \<^item> \<open>Fram\<close>: drivers/storage/fram_driver.c, the client that interprets the locale.  Each storage operation is
    completed once; a transfer covers its range in page-bounded chunks (at most one per byte, which is the
    number of served transactions in the theorem on writes).
  \<^item> \<open>Spi_Bus\<close>: infrastructure/bus/spi_bus_manager.c.  Every accepted transaction is answered once.
  \<^item> \<open>Processing\<close>: services/processing, services/calibration and services/configuration.  The conversions
    against their exact values, with error bounds.
  \<^item> \<open>Sensors\<close>: drivers/max35103 and drivers/zssc3241.  Which frames are accepted, and a driver that
    never leaves its failed state.
  \<^item> \<open>Measurement\<close>, \<open>Measurement_Safety\<close>: services/measurement.  A sample is published as a whole or not at all,
    with the leak verdict on exactly the published flow and pressure, and the published volume is the integral of the published flow.
  \<^item> \<open>Power_Service\<close>: services/power and facades/power.  Conversion, hysteresis and publication of the battery state.
  \<^item> \<open>Time_Service\<close>: services/time.  It refines the specification of a time that is valid until its maximum age.
  \<^item> \<open>App_Composition\<close>: app/app_composition.c and the facades.  End to end: the started application, its
    event loop, scheduler, mediator and repository together behave as a periodic power sampler.
  \<^item> \<open>Linux_Clock\<close>, \<open>Linux_Peers\<close>, \<open>Linux_Providers\<close>: the simulated clocks, ADC, sensors, buses and lines of
    platform/linux.  The locale of a provider with a busy flag is interpreted for both buses.  The sources hold no port that
    joins a driver to a provider; the theorem on the simulated pressure sensor takes the driver's request and the report of its
    completion as hypotheses.
  \<^item> \<open>Action_Queue\<close>: platform/linux/linux_scheduled_action_queue.c, a binary heap.  Dispatching is a stable sort;
    a cancellation keeps the order exactly when the entry that takes the freed place is not smaller than its parent.
  \<^item> \<open>Run_Controller\<close>: platform/linux/linux_run_controller.c.  What an idle run leaves, and its livelock report.  The
    number of turns is the limit of the code, so the run is structural recursion over it.
  \<^item> \<open>Scenario_Manifest\<close>, \<open>Sim_Harness\<close>: directory simulation.  The manifest parser reads back printed
    manifests, also those with unknown fields the design rejects; the runner ignores what they say.
  \<^item> \<open>Stm32_Adapters\<close>: platform/stm32/adapters.  The locale of a port for one request is interpreted for the I2C
    and the SPI adapter.

  \<^bold>\<open>Conventions.\<close>  Unsigned integers are words, signed ones exact integers with the range stated where it
  matters; \<open>NULL\<close> object pointers are not modelled; function pointers, clock readings and answers of the
  ports are arguments.  Loops of the code are bounded by array sizes, counters or the text they read and become structural recursion
  or \<open>function\<close> with a measure, so that no fuel is needed; the loops of the buses, which call their clients back,
  are \<open>partial_function\<close>, and they are proved to return under the locale of the clients.  Interleavings are explicit
  lists of steps.

  \<^bold>\<open>Defects.\<close>  Some theorems state what the code does where that differs from its intention or its documentation.
  In the core: a mode
  event lost while the repository is locked, a torn snapshot after two commits, an unacknowledged job
  that never fires again, a burst alarm raised by isolated spikes or across a silent gap the design does not count, a failed delivery that blocks the
  queue for ever, a full queue that overwrites the record in flight, night reports that are never due,
  a measurement gap that stops the flow pipeline, fast flow that is refused, calibrated temperatures that are
  always stale, a pressure driver that stays failed, a power publication that is not repeated, late
  completions that hit a reused transaction id, mode transitions without the design's guards, and a composed application that binds no
  measurement pipeline.
  In the platforms: a cancellation that breaks the heap, bus providers that serve one operation, a
  simulated pressure sensor without a valid sample, completions filed under wrong events, an idle run reported as a
  livelock, refused string values, scenarios that do nothing, and a completion that is lost before the start of its
  transfer has returned.

  \<^bold>\<open>Not modelled.\<close>  Headers that only declare ports or types no code uses, the start-up routine of the
  host that only prints, the simulation's main program and the tests.  The board project (directory 3.stm32) is not linked with
  this code: start-up code generated by the vendor's tool, vendor HAL, stand-alone blocking drivers of the
  sensors and the F-RAM, the calibration service of the flow sensor, and hardware bring-up tests.
\<close>

end
